(* ===== verification/Prelude.thy ===== *)
theory Prelude
  imports "HOL-Library.Word"
begin

text \<open>The vocabulary every component shares: Go byte slices as lists of octets, Go strings
  as lists of characters (a Go string is a sequence of bytes, and so is a HOL \<open>string\<close>), the
  conversions between the two, the big-endian integer codecs of the standard package
  \<open>encoding/binary\<close>, results that are an error or a value, and the wrap-around of Go's 64-bit
  \<open>int\<close>. The collections \<open>result_simps\<close>, \<open>codec_simps\<close> and \<open>bytes_simps\<close> carry the component
  proofs.\<close>

unbundle bit_operations_syntax

named_theorems result_simps \<open>equations for error-or-value results\<close>
named_theorems codec_simps \<open>decode-after-encode equations\<close>
named_theorems bytes_simps \<open>equations about bytes and strings\<close>

section \<open>Types\<close>

type_synonym byte = "8 word"
type_synonym bytes = "8 word list"

text \<open>Go's \<open>error\<close> result convention: \<open>Inl\<close> is the returned error, \<open>Inr\<close> the value.\<close>

type_synonym ('e, 'a) result = "'e + 'a"

definition res_bind :: "('e, 'a) result \<Rightarrow> ('a \<Rightarrow> ('e, 'b) result) \<Rightarrow> ('e, 'b) result" where
  "res_bind r f = (case r of Inl e \<Rightarrow> Inl e | Inr x \<Rightarrow> f x)"

lemma res_bind_simps [simp, result_simps]:
  "res_bind (Inl e) f = Inl e"
  "res_bind (Inr x) f = f x"
  by (simp_all add: res_bind_def)

lemma res_bind_eq_Inr [result_simps]:
  "res_bind r f = Inr y \<longleftrightarrow> (\<exists>x. r = Inr x \<and> f x = Inr y)"
  by (cases r) simp_all

lemma res_bind_eq_Inl [result_simps]:
  "res_bind r f = Inl e \<longleftrightarrow> r = Inl e \<or> (\<exists>x. r = Inr x \<and> f x = Inl e)"
  by (cases r) simp_all

text \<open>A loop that appends one result per element and returns at the first error.\<close>

fun map_result :: "('a \<Rightarrow> ('e, 'b) result) \<Rightarrow> 'a list \<Rightarrow> ('e, 'b list) result" where
  "map_result f [] = Inr []"
| "map_result f (x # xs) =
    (case f x of Inl e \<Rightarrow> Inl e
     | Inr y \<Rightarrow> (case map_result f xs of Inl e \<Rightarrow> Inl e | Inr ys \<Rightarrow> Inr (y # ys)))"

lemma map_result_Inr:
  "map_result f xs = Inr ys \<longleftrightarrow> list_all2 (\<lambda>x y. f x = Inr y) xs ys"
  by (induction xs arbitrary: ys)
    (auto split: sum.splits simp: list_all2_Cons1 list_all2_Nil, metis Inr_inject)

text \<open>A loop that only checks, and returns at the first error.\<close>

fun first_error :: "('a \<Rightarrow> 'e option) \<Rightarrow> 'a list \<Rightarrow> 'e option" where
  "first_error f [] = None"
| "first_error f (x # xs) = (case f x of Some e \<Rightarrow> Some e | None \<Rightarrow> first_error f xs)"

lemma first_error_None [simp]:
  "first_error f xs = None \<longleftrightarrow> (\<forall>x\<in>set xs. f x = None)"
  by (induction xs) (auto split: option.splits)

lemma first_error_Some:
  assumes "first_error f xs = Some e"
  obtains x where "x \<in> set xs" "f x = Some e"
  using assms by (induction xs) (auto split: option.splits)

lemma first_error_nth: "first_error f xs = Some e \<longleftrightarrow>
    (\<exists>i<length xs. f (xs ! i) = Some e \<and> (\<forall>j<i. f (xs ! j) = None))"
proof (induction xs)
  case (Cons x xs)
  then show ?case
    by (cases "f x") (auto simp: Ex_less_Suc2 All_less_Suc2)
qed simp

section \<open>Go's 64-bit int\<close>

definition wrap64 :: "int \<Rightarrow> int" where
  "wrap64 x = (x + 2 ^ 63) mod 2 ^ 64 - 2 ^ 63"

definition max_int64 :: int where "max_int64 = 2 ^ 63 - 1"
definition min_int64 :: int where "min_int64 = - (2 ^ 63)"

lemma wrap64_id: "min_int64 \<le> x \<Longrightarrow> x \<le> max_int64 \<Longrightarrow> wrap64 x = x"
  by (simp add: wrap64_def min_int64_def max_int64_def)

lemma wrap64_range: "min_int64 \<le> wrap64 x \<and> wrap64 x \<le> max_int64"
proof -
  have "0 \<le> (x + 2 ^ 63) mod 2 ^ 64" "(x + 2 ^ 63) mod 2 ^ 64 < 2 ^ 64"
    by simp_all
  then show ?thesis
    by (simp add: wrap64_def min_int64_def max_int64_def)
qed

section \<open>Bytes and strings\<close>

text \<open>The conversions \<open>[]byte(s)\<close> and \<open>string(b)\<close> of Go: neither changes a byte.\<close>

definition byte_of_char :: "char \<Rightarrow> byte" where
  "byte_of_char c = word_of_nat (of_char c)"

definition char_of_byte :: "byte \<Rightarrow> char" where
  "char_of_byte b = char_of (unat b)"

definition bytes_of_str :: "string \<Rightarrow> bytes" where
  "bytes_of_str s = map byte_of_char s"

definition str_of_bytes :: "bytes \<Rightarrow> string" where
  "str_of_bytes bs = map char_of_byte bs"

lemma char_of_byte_of_char [simp]: "char_of_byte (byte_of_char c) = c"
proof -
  have "of_char c < (256::nat)"
    by (metis of_char_mod_256 mod_less_divisor zero_less_numeral)
  then have "unat (word_of_nat (of_char c) :: byte) = of_char c"
    by (simp add: unat_of_nat take_bit_nat_eq_self)
  then show ?thesis
    by (simp add: byte_of_char_def char_of_byte_def)
qed

lemma byte_of_char_of_byte [simp]: "byte_of_char (char_of_byte b) = b"
proof -
  have "unat b < 256"
    using unsigned_less [of b, where ?'a = nat] by simp
  then have "of_char (char_of (unat b) :: char) = unat b"
    by (simp add: of_char_of)
  then show ?thesis
    by (simp add: byte_of_char_def char_of_byte_def)
qed

lemma str_of_bytes_of_str [simp, bytes_simps]: "str_of_bytes (bytes_of_str s) = s"
  by (simp add: str_of_bytes_def bytes_of_str_def comp_def)

lemma bytes_of_str_of_bytes [simp, bytes_simps]: "bytes_of_str (str_of_bytes b) = b"
  by (simp add: str_of_bytes_def bytes_of_str_def comp_def)

lemma length_bytes_of_str [simp, bytes_simps]: "length (bytes_of_str s) = length s"
  by (simp add: bytes_of_str_def)

lemma length_str_of_bytes [simp, bytes_simps]: "length (str_of_bytes b) = length b"
  by (simp add: str_of_bytes_def)

lemma bytes_of_str_inject [simp]: "bytes_of_str s = bytes_of_str t \<longleftrightarrow> s = t"
  by (metis str_of_bytes_of_str)

lemma bytes_of_str_Nil [simp]: "bytes_of_str [] = []" "bytes_of_str s = [] \<longleftrightarrow> s = []"
  by (simp_all add: bytes_of_str_def)

section \<open>Big-endian integers\<close>

text \<open>\<open>binary.BigEndian.AppendUint32\<close>, \<open>AppendUint64\<close>, \<open>Uint32\<close> and \<open>Uint64\<close> of the standard
  library, by shifts and masks.\<close>

definition be32 :: "32 word \<Rightarrow> bytes" where
  "be32 w = [ucast (drop_bit 24 w), ucast (drop_bit 16 w), ucast (drop_bit 8 w), ucast w]"

definition be64 :: "64 word \<Rightarrow> bytes" where
  "be64 w = be32 (ucast (drop_bit 32 w)) @ be32 (ucast w)"

fun un_be32 :: "bytes \<Rightarrow> 32 word" where
  "un_be32 [a, b, c, d] =
    push_bit 24 (ucast a) OR push_bit 16 (ucast b) OR push_bit 8 (ucast c) OR ucast d"
| "un_be32 _ = 0"

definition un_be64 :: "bytes \<Rightarrow> 64 word" where
  "un_be64 bs = push_bit 32 (ucast (un_be32 (take 4 bs))) OR ucast (un_be32 (take 4 (drop 4 bs)))"

lemma length_be32 [simp, codec_simps]: "length (be32 w) = 4"
  by (simp add: be32_def)

lemma length_be64 [simp, codec_simps]: "length (be64 w) = 8"
  by (simp add: be64_def)

lemma bit_add_diff: "\<not> bit w (k + (n - k)) \<Longrightarrow> bit w n \<Longrightarrow> n < k" for k n :: nat
  by (cases "n < k") auto

lemma un_be32_be32 [simp, codec_simps]: "un_be32 (be32 w) = w"
  unfolding be32_def un_be32.simps
  by (rule bit_word_eqI) (auto simp: bit_simps dest!: bit_add_diff)

lemma be32_un_be32: "length bs = 4 \<Longrightarrow> be32 (un_be32 bs) = bs"
proof -
  assume "length bs = 4"
  then obtain a b c d where bs: "bs = [a, b, c, d]"
    by (auto simp: numeral_eq_Suc length_Suc_conv)
  show ?thesis
    unfolding bs be32_def un_be32.simps
    by (simp; intro conjI; rule bit_word_eqI; auto simp: bit_simps dest: bit_imp_le_length)
qed

lemma un_be64_be64 [simp, codec_simps]: "un_be64 (be64 w) = w"
  unfolding be64_def un_be64_def
  by (simp, rule bit_word_eqI) (auto simp: bit_simps)

lemma be32_inject [simp]: "be32 v = be32 w \<longleftrightarrow> v = w"
  by (metis un_be32_be32)

lemma be64_inject [simp]: "be64 v = be64 w \<longleftrightarrow> v = w"
  by (metis un_be64_be64)

lemma be64_un_be64: "length bs = 8 \<Longrightarrow> be64 (un_be64 bs) = bs"
proof -
  assume len: "length bs = 8"
  let ?h = "un_be32 (take 4 bs)" and ?l = "un_be32 (take 4 (drop 4 bs))"
  have "ucast (drop_bit 32 (push_bit 32 (ucast ?h) OR ucast ?l :: 64 word)) = ?h"
    by (rule bit_word_eqI) (auto simp: bit_simps dest: bit_imp_le_length)
  moreover have "ucast (push_bit 32 (ucast ?h) OR ucast ?l :: 64 word) = ?l"
    by (rule bit_word_eqI) (auto simp: bit_simps dest: bit_imp_le_length)
  moreover have "be32 ?h = take 4 bs" "be32 ?l = take 4 (drop 4 bs)"
    using len by (auto intro!: be32_un_be32)
  moreover have "take 4 bs @ take 4 (drop 4 bs) = bs"
    using len append_take_drop_id [of 4 bs] by simp
  ultimately show ?thesis
    unfolding be64_def un_be64_def by simp
qed

text \<open>A length that fits in four bytes survives the cast to \<open>uint32\<close>.\<close>

lemma unat_uint32 [codec_simps]: "n < 2 ^ 32 \<Longrightarrow> unat (word_of_nat n :: 32 word) = n"
  by (simp add: unat_of_nat take_bit_nat_eq_self)

lemma unat_uint64 [codec_simps]: "n < 2 ^ 64 \<Longrightarrow> unat (word_of_nat n :: 64 word) = n"
  by (simp add: unat_of_nat take_bit_nat_eq_self)

end
