(* ===== verification/ErrDef.thy ===== *)
theory ErrDef
  imports Prelude
begin

text \<open>The error types of \<open>internal/errdef/errdef.go\<close>. Every kind enumeration is a datatype with one
  constructor per constant, every error struct a datatype with one selector per exported field,
  parametrised by the type of the error it wraps, and the Go interface \<open>error\<close> is their sum. The
  unexported \<open>detail\<close> texts carry prose for humans only (the sources say no caller and no test may
  depend on them), so they are not modelled. \<open>Unwrap\<close>, \<open>errors.Is\<close> and \<open>errors.As\<close> walk the
  chain as the standard package does.\<close>

section \<open>Kinds\<close>

datatype (plugins only: size code) NameKind = NameKindNamespace | NameKindTable

datatype (plugins only: size code) PoisonReason =
  PoisonReasonInvalidUTF8 | PoisonReasonDecimalRange | PoisonReasonTooLong

datatype (plugins only: size code) DeclarationKind =
  DeclarationKindNotStruct | DeclarationKindNoFields | DeclarationKindUnexportedField
| DeclarationKindDerivation | DeclarationKindUnsupportedGoType

datatype (plugins only: size code) StagingSchemaKind =
  StagingSchemaKindFieldRemoved | StagingSchemaKindFieldRequired | StagingSchemaKindFieldRetyped

datatype (plugins only: size code) StagingKind =
  StagingKindOpen | StagingKindClose | StagingKindMigrate | StagingKindRead
| StagingKindWrite | StagingKindState

datatype (plugins only: size code) EncodingKind =
  EncodingKindUnsupportedType | EncodingKindValue | EncodingKindFormat | EncodingKindEmptyBatch

datatype (plugins only: size code) RecordKind =
  RecordKindUnknownField | RecordKindMissing | RecordKindNull | RecordKindType
| RecordKindInexact | RecordKindRange | RecordKindMalformed

datatype (plugins only: size code) SchemaDocKind =
  SchemaDocKindSyntax | SchemaDocKindDuplicateTable | SchemaDocKindNoFields
| SchemaDocKindDuplicateField | SchemaDocKindUnknownType | SchemaDocKindDecimal

datatype (plugins only: size code) SpoolKind = SpoolKindWrite | SpoolKindRecord | SpoolKindMark | SpoolKindDrain

datatype (plugins only: size code) CatalogKind = CatalogKindOpen | CatalogKindClose | CatalogKindWrite

datatype (plugins only: size code) ClickHouseKind =
  ClickHouseKindConnect | ClickHouseKindSchema | ClickHouseKindConflict | ClickHouseKindInsert

datatype (plugins only: size code) RebuildPrefixKind =
  RebuildPrefixKindUnparseable | RebuildPrefixKindNoMetadata | RebuildPrefixKindEmpty

datatype (plugins only: size code) IngestKind =
  IngestKindGrammar | IngestKindEnvelope | IngestKindUnknownTable | IngestKindTooLarge
| IngestKindRead | IngestKindRefused | IngestKindWrite

section \<open>Error structs\<close>

datatype (plugins only: size code) NameError = NameError (ne_Kind: NameKind) (ne_Value: string)

datatype (plugins only: size code) PoisonError =
  PoisonError (pe_Table: string) (pe_Field: string) (pe_Reason: PoisonReason)

datatype (plugins only: size code) 'e DeclarationError =
  DeclarationError (de_Table: string) (de_Field: string) (de_Kind: DeclarationKind)
    (de_Err: "'e option")

datatype (plugins only: size code) CrossCheckError = CrossCheckError (cce_Table: string) (cce_Column: string)

datatype (plugins only: size code) StagingSchemaError =
  StagingSchemaError (sse_Table: string) (sse_FieldID: int) (sse_Kind: StagingSchemaKind)

datatype (plugins only: size code) 'e StagingError =
  StagingError (se_Path: string) (se_Kind: StagingKind) (se_Err: "'e option")

datatype (plugins only: size code) EncodingError =
  EncodingError (ee_Table: string) (ee_Field: string) (ee_FieldID: int) (ee_Kind: EncodingKind)

datatype (plugins only: size code) FieldIDError =
  FieldIDError (fe_Table: string) (fe_Field: string) (fe_FieldID: int) (fe_WantID: int)

datatype (plugins only: size code) RecordError =
  RecordError (re_Namespace: string) (re_Table: string) (re_Field: string) (re_Kind: RecordKind)

datatype (plugins only: size code) 'e SchemaDocError =
  SchemaDocError (sde_Table: string) (sde_Field: string) (sde_Kind: SchemaDocKind)
    (sde_Err: "'e option")

datatype (plugins only: size code) 'e SpoolError =
  SpoolError (spe_Kind: SpoolKind) (spe_Dir: string) (spe_Path: string) (spe_BatchKey: string)
    (spe_Err: "'e option")

datatype (plugins only: size code) ConfigFieldError = ConfigFieldError (cfe_Field: string) (cfe_Rule: string)

datatype (plugins only: size code) 'e ConfigError = ConfigError (ce_Err: 'e)

datatype (plugins only: size code) 'e CatalogError =
  CatalogError (cte_Path: string) (cte_Kind: CatalogKind) (cte_Err: "'e option")

datatype (plugins only: size code) 'e ReconcileError = ReconcileError (rce_Table: string) (rce_Err: "'e option")

datatype (plugins only: size code) 'e FlushError =
  FlushError (fle_Namespace: string) (fle_Table: string) (fle_BatchKey: string)
    (fle_Records: int) (fle_Attempts: int) (fle_Quarantined: bool) (fle_Err: 'e)

datatype (plugins only: size code) 'e ClickHouseError =
  ClickHouseError (che_Namespace: string) (che_Table: string) (che_Target: string)
    (che_Column: string) (che_BatchKey: string) (che_Records: int) (che_Kind: ClickHouseKind)
    (che_Err: "'e option")

datatype (plugins only: size code) 'e MirrorError = MirrorError (me_Namespace: string) (me_Table: string) (me_Err: 'e)

datatype (plugins only: size code) 'e RebuildStorageError =
  RebuildStorageError (rse_Bucket: string) (rse_Key: string) (rse_Err: "'e option")

datatype (plugins only: size code) RebuildPrefixError =
  RebuildPrefixError (rpe_Prefix: string) (rpe_Kind: RebuildPrefixKind)

datatype (plugins only: size code) 'e BatchError = BatchError (be_Index: int) (be_Err: 'e)

datatype (plugins only: size code) 'e IngestError =
  IngestError (ie_Kind: IngestKind) (ie_Record: int) (ie_Line: int) (ie_Table: string)
    (ie_Err: "'e option")

text \<open>The interface type: the structs, the sentinels, an error of a library or of the operating
  system (named by a string), and the two library wrappers \<open>errors.Join\<close> and \<open>fmt.Errorf\<close> with
  \<open>%w\<close>.\<close>

datatype (plugins only: size code) error =
  EName NameError
| EPoison PoisonError
| EDeclaration "error DeclarationError"
| ECrossCheck CrossCheckError
| EStagingSchema StagingSchemaError
| EStaging "error StagingError"
| EEncoding EncodingError
| EFieldID FieldIDError
| ERecord RecordError
| ESchemaDoc "error SchemaDocError"
| ESpool "error SpoolError"
| EConfigField ConfigFieldError
| EConfig "error ConfigError"
| ECatalog "error CatalogError"
| EReconcile "error ReconcileError"
| EFlush "error FlushError"
| EClickHouse "error ClickHouseError"
| EMirror "error MirrorError"
| ERebuildStorage "error RebuildStorageError"
| ERebuildPrefix RebuildPrefixError
| EBatch "error BatchError"
| EIngest "error IngestError"
| ErrClosed | ErrStagingFull | ErrTableInUse | ErrLocalOnly | ErrCatalogExists
| ErrOther string
| ErrJoin "error list"
| ErrWrap string error

section \<open>Constructors\<close>

definition NewPoisonError :: "PoisonReason \<Rightarrow> string \<Rightarrow> string \<Rightarrow> error" where
  "NewPoisonError reason table field = EPoison (PoisonError table field reason)"

definition NewUnsupportedGoTypeError :: "string \<Rightarrow> string \<Rightarrow> error" where
  "NewUnsupportedGoTypeError table field =
    EDeclaration (DeclarationError table field DeclarationKindUnsupportedGoType None)"

definition NewCrossCheckError :: "string \<Rightarrow> string \<Rightarrow> error" where
  "NewCrossCheckError table column = ECrossCheck (CrossCheckError table column)"

definition NewStagingError :: "StagingKind \<Rightarrow> string \<Rightarrow> error option \<Rightarrow> error" where
  "NewStagingError kind path err = EStaging (StagingError path kind err)"

definition NewEncodingError :: "EncodingKind \<Rightarrow> string \<Rightarrow> string \<Rightarrow> int \<Rightarrow> error" where
  "NewEncodingError kind table field fieldID = EEncoding (EncodingError table field fieldID kind)"

definition NewRecordError :: "RecordKind \<Rightarrow> string \<Rightarrow> string \<Rightarrow> string \<Rightarrow> error" where
  "NewRecordError kind namespace table field = ERecord (RecordError namespace table field kind)"

definition NewSchemaDocError :: "SchemaDocKind \<Rightarrow> string \<Rightarrow> string \<Rightarrow> error option \<Rightarrow> error" where
  "NewSchemaDocError kind table field err = ESchemaDoc (SchemaDocError table field kind err)"

definition NewSpoolError ::
  "SpoolKind \<Rightarrow> string \<Rightarrow> string \<Rightarrow> string \<Rightarrow> error option \<Rightarrow> error" where
  "NewSpoolError kind dir path batchKey err = ESpool (SpoolError kind dir path batchKey err)"

definition NewCatalogError :: "CatalogKind \<Rightarrow> string \<Rightarrow> error option \<Rightarrow> error" where
  "NewCatalogError kind path err = ECatalog (CatalogError path kind err)"

definition NewReconcileError :: "string \<Rightarrow> error option \<Rightarrow> error" where
  "NewReconcileError table err = EReconcile (ReconcileError table err)"

definition NewClickHouseError ::
  "ClickHouseKind \<Rightarrow> string \<Rightarrow> string \<Rightarrow> string \<Rightarrow> error option \<Rightarrow> error" where
  "NewClickHouseError kind namespace table target err =
    EClickHouse (ClickHouseError namespace table target '''' '''' 0 kind err)"

definition NewIngestError ::
  "IngestKind \<Rightarrow> int \<Rightarrow> int \<Rightarrow> string \<Rightarrow> error option \<Rightarrow> error" where
  "NewIngestError kind record line table err = EIngest (IngestError kind record line table err)"

section \<open>Wrapping\<close>

text \<open>The errors an error wraps: what \<open>Unwrap\<close> returns, as a list because \<open>errors.Join\<close> returns
  several.\<close>

definition opt_list :: "'a option \<Rightarrow> 'a list" where
  "opt_list x = (case x of None \<Rightarrow> [] | Some e \<Rightarrow> [e])"

definition unwrap :: "error \<Rightarrow> error list" where
  "unwrap e = (case e of
      EDeclaration d \<Rightarrow> opt_list (de_Err d)
    | EStaging d \<Rightarrow> opt_list (se_Err d)
    | ESchemaDoc d \<Rightarrow> opt_list (sde_Err d)
    | ESpool d \<Rightarrow> opt_list (spe_Err d)
    | EConfig d \<Rightarrow> [ce_Err d]
    | ECatalog d \<Rightarrow> opt_list (cte_Err d)
    | EReconcile d \<Rightarrow> opt_list (rce_Err d)
    | EFlush d \<Rightarrow> [fle_Err d]
    | EClickHouse d \<Rightarrow> opt_list (che_Err d)
    | EMirror d \<Rightarrow> [me_Err d]
    | ERebuildStorage d \<Rightarrow> opt_list (rse_Err d)
    | EBatch d \<Rightarrow> [be_Err d]
    | EIngest d \<Rightarrow> opt_list (ie_Err d)
    | ErrJoin es \<Rightarrow> es
    | ErrWrap _ e' \<Rightarrow> [e']
    | _ \<Rightarrow> [])"

lemma set_opt_list: "set (opt_list x) = set_option x"
  by (cases x) (auto simp: opt_list_def)

lemma struct_size:
  fixes f :: "'e \<Rightarrow> nat"
  shows
    "de_Err d0 = Some e \<Longrightarrow> f e < Suc (size_DeclarationError f d0)"
    "se_Err d1 = Some e \<Longrightarrow> f e < Suc (size_StagingError f d1)"
    "sde_Err d2 = Some e \<Longrightarrow> f e < Suc (size_SchemaDocError f d2)"
    "spe_Err d3 = Some e \<Longrightarrow> f e < Suc (size_SpoolError f d3)"
    "cte_Err d4 = Some e \<Longrightarrow> f e < Suc (size_CatalogError f d4)"
    "rce_Err d5 = Some e \<Longrightarrow> f e < Suc (size_ReconcileError f d5)"
    "che_Err d6 = Some e \<Longrightarrow> f e < Suc (size_ClickHouseError f d6)"
    "rse_Err d7 = Some e \<Longrightarrow> f e < Suc (size_RebuildStorageError f d7)"
    "ie_Err d8 = Some e \<Longrightarrow> f e < Suc (size_IngestError f d8)"
    "f (ce_Err e0) < Suc (size_ConfigError f e0)"
    "f (fle_Err e1) < Suc (size_FlushError f e1)"
    "f (me_Err e2) < Suc (size_MirrorError f e2)"
    "f (be_Err e3) < Suc (size_BatchError f e3)"
  subgoal by (cases d0) simp
  subgoal by (cases d1) simp
  subgoal by (cases d2) simp
  subgoal by (cases d3) simp
  subgoal by (cases d4) simp
  subgoal by (cases d5) simp
  subgoal by (cases d6) simp
  subgoal by (cases d7) simp
  subgoal by (cases d8) simp
  subgoal by (cases e0) simp
  subgoal by (cases e1) simp
  subgoal by (cases e2) simp
  subgoal by (cases e3) simp
  done

lemma size_in_list: "e \<in> set es \<Longrightarrow> size e < Suc (size_list size es)" for e :: error
  by (induction es) auto

lemma unwrap_size: "e' \<in> set (unwrap e) \<Longrightarrow> size e' < size e"
  by (cases e; auto simp: unwrap_def set_opt_list size_in_list struct_size)

text \<open>The tree of an error in the order \<open>errors.Is\<close> and \<open>errors.As\<close> visit it: depth first, the
  error itself before what it wraps.\<close>

function chain :: "error \<Rightarrow> error list" where
  "chain e = e # concat (map chain (unwrap e))"
  by pat_completeness auto
termination by (relation "measure size") (auto dest: unwrap_size)

declare chain.simps [simp del]

definition errors_Is :: "error \<Rightarrow> error \<Rightarrow> bool" where
  "errors_Is e target = (target \<in> set (chain e))"

definition errors_As :: "(error \<Rightarrow> bool) \<Rightarrow> error \<Rightarrow> error option" where
  "errors_As is_target e = find is_target (chain e)"

lemma chain_self [simp]: "e \<in> set (chain e)"
  by (subst chain.simps) simp

lemma chain_wrapped: "e' \<in> set (unwrap e) \<Longrightarrow> x \<in> set (chain e') \<Longrightarrow> x \<in> set (chain e)"
  by (subst chain.simps) auto

lemma chain_leaf [simp]: "unwrap e = [] \<Longrightarrow> chain e = [e]"
  by (subst chain.simps) simp

text \<open>A wrapped sentinel stays reachable, however deep it is wrapped.\<close>

lemma errors_Is_wrapped: "e' \<in> set (unwrap e) \<Longrightarrow> errors_Is e' t \<Longrightarrow> errors_Is e t"
  unfolding errors_Is_def by (rule chain_wrapped)

lemma errors_Is_refl [simp]: "errors_Is e e"
  by (simp add: errors_Is_def)

end
