(* ===== verification/Framing.thy ===== *)
theory Framing
  imports ErrDef
begin

text \<open>The input grammar of \<open>ingest.go\<close>: one buffer over the caller's reader, whitespace skipped between
  records, and each record's encoding decided by its first octet. The framing of a CBOR item is the CBOR
  library's \<open>UnmarshalFirst\<close>, the parameter \<open>dec\<close>: the size of the first item, or an error. The specification
  \<open>frame\<close> reads the whole input at once; the scanner refines it for every way the input arrives. A reader is the
  finite list of what its reads return, bytes that come together with \<open>io.EOF\<close> or with an error included. A reader
  that returns no byte and no error for ever, which \<open>io.Reader\<close> discourages and on which the code's loops go round
  for ever, has no such list.\<close>

section \<open>Readers\<close>

text \<open>What one \<open>Read\<close> returns: bytes, and with them nothing more, the end, or an error, which is the end when it
  wraps \<open>io.EOF\<close>.\<close>

datatype read_end = ReadMore | ReadEOF | ReadFail error

type_synonym reader = "(bytes \<times> read_end) list"

definition io_EOF :: error where "io_EOF = ErrOther ''EOF''"
definition io_ErrUnexpectedEOF :: error where "io_ErrUnexpectedEOF = ErrOther ''unexpected EOF''"

definition at_EOF :: "read_end \<Rightarrow> bool" where
  "at_EOF e = (case e of ReadMore \<Rightarrow> False | ReadEOF \<Rightarrow> True | ReadFail x \<Rightarrow> errors_Is x io_EOF)"

definition fails :: "read_end \<Rightarrow> bool" where
  "fails e = (case e of ReadFail x \<Rightarrow> \<not> errors_Is x io_EOF | _ \<Rightarrow> False)"

text \<open>An offer larger than the room is handed over in pieces, its end with the last of them; a failure is reported at
  once with what fits. A reader that has nothing left answers \<open>io.EOF\<close>, and none is read after its end.\<close>

fun Read :: "nat \<Rightarrow> reader \<Rightarrow> (bytes \<times> read_end) \<times> reader" where
  "Read room [] = (([], ReadEOF), [])"
| "Read room ((b, e) # rs) =
    (if length b \<le> room \<or> fails e then ((take room b, e), if at_EOF e then [] else rs)
     else ((take room b, ReadMore), (drop room b, e) # rs))"

section \<open>The scanner\<close>

text \<open>A \<open>nil\<close> buffer is the empty list: a made one is never empty.\<close>

record recordScanner =
  rs_r :: reader
  rs_buf :: bytes
  rs_start :: nat
  rs_end :: nat
  rs_limit :: nat
  rs_eof :: bool
  rs_lines :: nat
  rs_records :: nat

record numberedRecord =
  nr_number :: nat
  nr_line :: nat
  nr_json :: bool
  nr_item :: bytes

datatype cbor_first = CborItem nat | CborErr error

definition recordBufferSlack :: nat where "recordBufferSlack = 65536"

definition isRecordSpace :: "byte \<Rightarrow> bool" where
  "isRecordSpace b \<longleftrightarrow> b = 32 \<or> b = 9 \<or> b = 13 \<or> b = 10"

definition cborMapHead :: "byte \<Rightarrow> bool" where
  "cborMapHead b \<longleftrightarrow> drop_bit 5 b = 5 \<and> b AND 31 \<le> 27"

definition buffered :: "recordScanner \<Rightarrow> bytes" where
  "buffered s = take (rs_end s - rs_start s) (drop (rs_start s) (rs_buf s))"

definition nextLine :: "recordScanner \<Rightarrow> nat" where
  "nextLine s = rs_lines s + 1"

definition refuse :: "nat \<Rightarrow> error option \<Rightarrow> nat \<Rightarrow> error" where
  "refuse line cause number = NewIngestError IngestKindGrammar (int number) (int line) '''' cause"

definition tooLarge :: "nat \<Rightarrow> nat \<Rightarrow> error" where
  "tooLarge line number = NewIngestError IngestKindTooLarge (int number) (int line) '''' None"

text \<open>\<open>fill\<close>: the room, and then one read into it.\<close>

definition make_room :: "recordScanner \<Rightarrow> (error, recordScanner) result" where
  "make_room s =
    (let ceiling = rs_limit s + recordBufferSlack in
     if rs_buf s = [] then Inr (s\<lparr>rs_buf := replicate (min 65536 ceiling) 0\<rparr>)
     else if rs_end s < length (rs_buf s) then Inr s
     else if 0 < rs_start s
     then Inr (s\<lparr>rs_buf := buffered s @ drop (length (buffered s)) (rs_buf s),
                 rs_end := length (buffered s), rs_start := 0\<rparr>)
     else if length (rs_buf s) \<ge> ceiling then Inl (tooLarge (nextLine s) (rs_records s))
     else Inr (s\<lparr>rs_buf := buffered s @ drop (length (buffered s)) (replicate (min (2 * length (rs_buf s)) ceiling) 0),
                 rs_end := length (buffered s), rs_start := 0\<rparr>))"

definition read_into :: "recordScanner \<Rightarrow> error option \<times> recordScanner" where
  "read_into s =
    (case Read (length (rs_buf s) - rs_end s) (rs_r s) of
       ((b, e), r) \<Rightarrow>
         (let s1 = s\<lparr>rs_r := r, rs_buf := take (rs_end s) (rs_buf s) @ b @ drop (rs_end s + length b) (rs_buf s),
                     rs_end := rs_end s + length b\<rparr> in
          if at_EOF e then (None, s1\<lparr>rs_eof := True\<rparr>)
          else case e of
            ReadFail x \<Rightarrow> (Some (NewIngestError IngestKindRead (int (rs_records s)) 0 '''' (Some x)), s1)
          | _ \<Rightarrow> (None, s1)))"

definition fill :: "recordScanner \<Rightarrow> error option \<times> recordScanner" where
  "fill s = (case make_room s of Inl e \<Rightarrow> (Some e, s) | Inr s1 \<Rightarrow> read_into s1)"

subsection \<open>The loops end\<close>

text \<open>A read that succeeds consumes an offer, or a part of one, or is the first with a buffer.\<close>

fun offers :: "reader \<Rightarrow> nat" where
  "offers [] = 0"
| "offers ((b, e) # rs) = Suc (length b + offers rs)"

definition scan_size :: "recordScanner \<Rightarrow> nat" where
  "scan_size s = 2 * (offers (rs_r s) + (if rs_eof s then 0 else 1)) + (if rs_buf s = [] then 1 else 0)"

lemma offers_Read: "0 < room \<or> rs = [] \<Longrightarrow> Read room rs = ((b, e), rs') \<Longrightarrow>
    offers rs' < offers rs \<or> rs = [] \<and> at_EOF e \<and> rs' = []"
  by (cases "(room, rs)" rule: Read.cases) (auto simp: at_EOF_def split: if_splits)

lemma offers_Read_le: "Read room rs = ((b, e), rs') \<Longrightarrow> offers rs' \<le> offers rs"
  by (cases "(room, rs)" rule: Read.cases) (auto split: if_splits)

lemma length_buffered: "length (buffered s) \<le> length (rs_buf s) - rs_start s"
  by (auto simp: buffered_def)

lemma make_room_Inr:
  assumes "make_room s = Inr s1"
  shows "rs_r s1 = rs_r s" "rs_eof s1 = rs_eof s" "rs_lines s1 = rs_lines s" "rs_records s1 = rs_records s"
    "rs_limit s1 = rs_limit s" "rs_buf s1 \<noteq> []" "rs_buf s \<noteq> [] \<Longrightarrow> rs_end s1 < length (rs_buf s1)"
proof -
  have short: "0 < rs_start s \<Longrightarrow> rs_buf s \<noteq> [] \<Longrightarrow> length (buffered s) < length (rs_buf s)"
    using length_buffered [of s] by (metis diff_less length_greater_0_conv order_le_less_trans)
  have le: "length (buffered s) \<le> length (rs_buf s)"
    using length_buffered [of s] by simp
  show "rs_r s1 = rs_r s" "rs_eof s1 = rs_eof s" "rs_lines s1 = rs_lines s" "rs_records s1 = rs_records s"
    "rs_limit s1 = rs_limit s"
    using assms by (auto simp: make_room_def Let_def split: if_splits)
  show "rs_buf s1 \<noteq> []"
    using assms short by (auto simp: make_room_def Let_def recordBufferSlack_def min_def split: if_splits)
  show "rs_end s1 < length (rs_buf s1)" if "rs_buf s \<noteq> []"
    using assms that short le by (cases "rs_buf s") (auto simp: make_room_def Let_def recordBufferSlack_def split: if_splits)
qed

lemma fill_scan_size:
  assumes "fill s = (None, s')" "\<not> rs_eof s"
  shows "scan_size s' < scan_size s"
proof -
  obtain s1 where s1: "make_room s = Inr s1" "read_into s1 = (None, s')"
    using assms(1) by (auto simp: fill_def split: sum.splits)
  obtain b e r where r: "Read (length (rs_buf s1) - rs_end s1) (rs_r s1) = ((b, e), r)"
    by (metis prod.collapse)
  have nonempty: "rs_buf s' \<noteq> []" if "rs_end s1 < length (rs_buf s1) \<or> rs_buf s1 \<noteq> []"
    using s1(2) r that by (auto simp: read_into_def Let_def split: read_end.splits if_splits)
  have s': "rs_r s' = r" "rs_eof s' = (rs_eof s1 \<or> at_EOF e)"
    using s1(2) r by (auto simp: read_into_def Let_def split: read_end.splits if_splits)
  note room = make_room_Inr [OF s1(1)]
  show ?thesis
  proof (cases "rs_buf s = []")
    case True
    then show ?thesis
      using offers_Read_le [OF r] nonempty room s' assms(2) by (auto simp: scan_size_def)
  next
    case False
    then show ?thesis
      using offers_Read [OF _ r] nonempty room s' assms(2) by (auto simp: scan_size_def)
  qed
qed

section \<open>One record\<close>

function skipSpace :: "recordScanner \<Rightarrow> error option \<times> recordScanner" where
  "skipSpace s =
    (let sp = takeWhile isRecordSpace (buffered s);
         s1 = s\<lparr>rs_start := rs_start s + length sp, rs_lines := rs_lines s + count_list sp 10\<rparr> in
     if rs_start s1 < rs_end s1 then (None, s1)
     else if rs_eof s1 then (Some io_EOF, s1)
     else case fill s1 of (Some e, s2) \<Rightarrow> (Some e, s2) | (None, s2) \<Rightarrow> skipSpace s2)"
  by pat_completeness auto
termination
  by (relation "measure scan_size")
    (auto simp: Let_def dest!: fill_scan_size [OF sym] simp: scan_size_def)

definition strip_CR :: "bytes \<Rightarrow> bytes" where
  "strip_CR item = (if item \<noteq> [] \<and> last item = 13 then butlast item else item)"

function json_loop :: "nat \<Rightarrow> recordScanner \<Rightarrow> (error, numberedRecord) result \<times> recordScanner" where
  "json_loop line s =
    (let b = buffered s in
     if 10 \<in> set b
     then let i = length (takeWhile (\<lambda>x. x \<noteq> 10) b); item = strip_CR (take i b) in
       if length item > rs_limit s then (Inl (tooLarge line (rs_records s)), s)
       else (Inr \<lparr>nr_number = rs_records s, nr_line = line, nr_json = True, nr_item = item\<rparr>,
             s\<lparr>rs_start := rs_start s + i + 1, rs_lines := rs_lines s + 1\<rparr>)
     else if rs_eof s
     then if length b > rs_limit s then (Inl (tooLarge line (rs_records s)), s)
       else (Inr \<lparr>nr_number = rs_records s, nr_line = line, nr_json = True, nr_item = b\<rparr>,
             s\<lparr>rs_start := rs_end s\<rparr>)
     else case fill s of (Some e, s1) \<Rightarrow> (Inl e, s1) | (None, s1) \<Rightarrow> json_loop line s1)"
  by pat_completeness auto
termination
  by (relation "measure (\<lambda>(line, s). scan_size s)") (auto dest!: fill_scan_size [OF sym])

definition jsonRecord :: "recordScanner \<Rightarrow> (error, numberedRecord) result \<times> recordScanner" where
  "jsonRecord s = json_loop (nextLine s) s"

definition incomplete :: "error \<Rightarrow> bool" where
  "incomplete e \<longleftrightarrow> errors_Is e io_ErrUnexpectedEOF \<or> errors_Is e io_EOF"

function cborRecord :: "(bytes \<Rightarrow> cbor_first) \<Rightarrow> recordScanner \<Rightarrow> (error, numberedRecord) result \<times> recordScanner" where
  "cborRecord dec s =
    (let b = buffered s in
     case dec b of
       CborItem n \<Rightarrow>
         if n > rs_limit s then (Inl (tooLarge 0 (rs_records s)), s)
         else (Inr \<lparr>nr_number = rs_records s, nr_line = 0, nr_json = False, nr_item = take n b\<rparr>,
               s\<lparr>rs_start := rs_start s + n\<rparr>)
     | CborErr err \<Rightarrow>
         if incomplete err \<and> \<not> rs_eof s
         then case fill s of (Some e, s1) \<Rightarrow> (Inl e, s1) | (None, s1) \<Rightarrow> cborRecord dec s1
         else (Inl (refuse 0 (Some err) (rs_records s)), s))"
  by pat_completeness auto
termination
  by (relation "measure (\<lambda>(dec, s). scan_size s)") (auto dest!: fill_scan_size [OF sym])

declare skipSpace.simps [simp del] json_loop.simps [simp del] cborRecord.simps [simp del]

text \<open>The code tells a byte-order mark apart by the text of its refusal alone.\<close>

definition next_record :: "(bytes \<Rightarrow> cbor_first) \<Rightarrow> recordScanner \<Rightarrow> (error, numberedRecord) result \<times> recordScanner" where
  "next_record dec s =
    (case skipSpace s of
       (Some e, s1) \<Rightarrow> (Inl e, s1)
     | (None, s1) \<Rightarrow>
         (let head = hd (buffered s1); s2 = s1\<lparr>rs_records := rs_records s1 + 1\<rparr> in
          if head = 0x7b then jsonRecord s2
          else if cborMapHead head then cborRecord dec s2
          else if head = 0xbf then (Inl (refuse 0 None (rs_records s2)), s2)
          else (Inl (refuse (nextLine s2) None (rs_records s2)), s2)))"

text \<open>The goroutine of \<open>readRecords\<close>, for as many records as are taken from its channel: the records, and the
  error that ended it. A clean end of the input is \<open>io.EOF\<close>.\<close>

fun readRecords :: "(bytes \<Rightarrow> cbor_first) \<Rightarrow> nat \<Rightarrow> recordScanner \<Rightarrow> numberedRecord list \<times> error option" where
  "readRecords dec 0 s = ([], None)"
| "readRecords dec (Suc n) s =
    (case next_record dec s of
       (Inl e, s1) \<Rightarrow> ([], Some e)
     | (Inr rec, s1) \<Rightarrow> (case readRecords dec n s1 of (recs, e) \<Rightarrow> (rec # recs, e)))"

definition new_scanner :: "nat \<Rightarrow> reader \<Rightarrow> recordScanner" where
  "new_scanner limit r = \<lparr>rs_r = r, rs_buf = [], rs_start = 0, rs_end = 0, rs_limit = limit, rs_eof = False,
     rs_lines = 0, rs_records = 0\<rparr>"

section \<open>Specification\<close>

text \<open>How a reader ends, with an error or at the end of the input, and the bytes it delivers: those that come with
  the end count, those that come with an error do not, as the code drops them.\<close>

fun ending :: "reader \<Rightarrow> error option" where
  "ending [] = None"
| "ending ((b, e) # rs) = (case e of ReadMore \<Rightarrow> ending rs | ReadEOF \<Rightarrow> None
     | ReadFail x \<Rightarrow> if errors_Is x io_EOF then None else Some x)"

fun content :: "reader \<Rightarrow> bytes" where
  "content [] = []"
| "content ((b, e) # rs) = (case e of ReadMore \<Rightarrow> b @ content rs | ReadEOF \<Rightarrow> b
     | ReadFail x \<Rightarrow> if errors_Is x io_EOF then b else [])"

text \<open>Whether the end comes together with the last bytes.\<close>

fun ends_tight :: "reader \<Rightarrow> bool" where
  "ends_tight [] = False"
| "ends_tight ((b, e) # rs) = (case e of ReadMore \<Rightarrow> ends_tight rs | ReadEOF \<Rightarrow> b \<noteq> []
     | ReadFail x \<Rightarrow> errors_Is x io_EOF \<and> b \<noteq> [])"

definition read_error :: "error \<Rightarrow> nat \<Rightarrow> error" where
  "read_error x number = NewIngestError IngestKindRead (int number) 0 '''' (Some x)"

text \<open>One record of the whole input: the record with the rest of the input and the lines passed, or the
  refusal. \<open>fin\<close> is how the input ends. An unfinished CBOR item that fills the buffer to its ceiling is too large,
  unless the input ends right there and the end came with its last bytes (\<open>tight\<close>): then it is refused as cut off.\<close>

definition json_frame :: "nat \<Rightarrow> error option \<Rightarrow> nat \<Rightarrow> nat \<Rightarrow> bytes \<Rightarrow> (error, numberedRecord \<times> bytes \<times> nat) result" where
  "json_frame limit fin ls n R =
    (let L = takeWhile (\<lambda>x. x \<noteq> 10) R;
         give = (\<lambda>item rest ls'. if length item > limit then Inl (tooLarge (ls + 1) n)
           else Inr (\<lparr>nr_number = n, nr_line = ls + 1, nr_json = True, nr_item = item\<rparr>, rest, ls')) in
     if L \<noteq> R then give (strip_CR L) (drop (length L + 1) R) (ls + 1)
     else if length R \<ge> limit + recordBufferSlack then Inl (tooLarge (ls + 1) n)
     else case fin of Some x \<Rightarrow> Inl (read_error x n) | None \<Rightarrow> give R [] ls)"

definition cbor_frame :: "(bytes \<Rightarrow> cbor_first) \<Rightarrow> nat \<Rightarrow> error option \<Rightarrow> bool \<Rightarrow> nat \<Rightarrow> nat \<Rightarrow> bytes \<Rightarrow>
    (error, numberedRecord \<times> bytes \<times> nat) result" where
  "cbor_frame dec limit fin tight ls n R =
    (case dec (take (limit + recordBufferSlack) R) of
       CborItem k \<Rightarrow>
         if k > limit then Inl (tooLarge 0 n)
         else Inr (\<lparr>nr_number = n, nr_line = 0, nr_json = False, nr_item = take k R\<rparr>, drop k R, ls)
     | CborErr e \<Rightarrow>
         if \<not> incomplete e then Inl (refuse 0 (Some e) n)
         else if length R > limit + recordBufferSlack \<or> length R = limit + recordBufferSlack \<and> \<not> tight
         then Inl (tooLarge (ls + 1) n)
         else case fin of Some x \<Rightarrow> Inl (read_error x n) | None \<Rightarrow> Inl (refuse 0 (Some e) n))"

definition frame :: "(bytes \<Rightarrow> cbor_first) \<Rightarrow> nat \<Rightarrow> error option \<Rightarrow> bool \<Rightarrow> nat \<Rightarrow> nat \<Rightarrow> bytes \<Rightarrow>
    (error, numberedRecord \<times> bytes \<times> nat) result" where
  "frame dec limit fin tight ls n R =
    (let R1 = dropWhile isRecordSpace R; l1 = ls + count_list (takeWhile isRecordSpace R) 10 in
     if R1 = [] then Inl (case fin of None \<Rightarrow> io_EOF | Some x \<Rightarrow> read_error x n)
     else if hd R1 = 0x7b then json_frame limit fin l1 (n + 1) R1
     else if cborMapHead (hd R1) then cbor_frame dec limit fin tight l1 (n + 1) R1
     else if hd R1 = 0xbf then Inl (refuse 0 None (n + 1))
     else Inl (refuse (l1 + 1) None (n + 1)))"

fun frames :: "(bytes \<Rightarrow> cbor_first) \<Rightarrow> nat \<Rightarrow> error option \<Rightarrow> bool \<Rightarrow> nat \<Rightarrow> nat \<Rightarrow> nat \<Rightarrow> bytes \<Rightarrow>
    numberedRecord list \<times> error option" where
  "frames dec limit fin tight 0 ls n R = ([], None)"
| "frames dec limit fin tight (Suc k) ls n R =
    (case frame dec limit fin tight ls n R of
       Inl e \<Rightarrow> ([], Some e)
     | Inr (rec, R', ls') \<Rightarrow> (case frames dec limit fin tight k ls' (n + 1) R' of (recs, e) \<Rightarrow> (rec # recs, e)))"

section \<open>The scanner refines it\<close>

definition scanner_ok :: "bool \<Rightarrow> recordScanner \<Rightarrow> bool" where
  "scanner_ok tight s \<longleftrightarrow> rs_start s \<le> rs_end s \<and> rs_end s \<le> length (rs_buf s)
     \<and> length (rs_buf s) \<le> rs_limit s + recordBufferSlack
     \<and> (if rs_eof s then rs_r s = [] \<and> (tight \<or> rs_end s < rs_limit s + recordBufferSlack) else ends_tight (rs_r s) = tight)"

definition unread :: "recordScanner \<Rightarrow> bytes" where
  "unread s = buffered s @ content (rs_r s)"

text \<open>The same place in the same input.\<close>

definition same_place :: "recordScanner \<Rightarrow> recordScanner \<Rightarrow> bool" where
  "same_place s s' \<longleftrightarrow> unread s' = unread s \<and> rs_lines s' = rs_lines s \<and> rs_records s' = rs_records s
     \<and> rs_limit s' = rs_limit s \<and> ending (rs_r s') = ending (rs_r s)"

lemma Read_content:
  assumes "Read room rs = ((b, e), rs')"
  shows "length b \<le> room"
    "fails e \<Longrightarrow> content rs = [] \<and> (\<exists>x. e = ReadFail x \<and> ending rs = Some x)"
    "\<not> fails e \<Longrightarrow> b @ content rs' = content rs \<and> ending rs' = ending rs"
    "at_EOF e \<Longrightarrow> rs' = [] \<and> ends_tight rs = (b \<noteq> [])"
    "\<not> fails e \<Longrightarrow> \<not> at_EOF e \<Longrightarrow> ends_tight rs' = ends_tight rs"
  using assms by (cases "(room, rs)" rule: Read.cases; auto simp: fails_def at_EOF_def split: if_splits read_end.splits)+

lemma length_buffered_ok: "scanner_ok tight s \<Longrightarrow> length (buffered s) = rs_end s - rs_start s"
  by (auto simp: scanner_ok_def buffered_def)

lemma make_room_ok:
  assumes "scanner_ok tight s" "make_room s = Inr s1"
  shows "rs_eof s \<or> scanner_ok tight s1" "buffered s1 = buffered s" "rs_end s1 < length (rs_buf s1)"
proof -
  let ?b = "buffered s" and ?c = "rs_limit s + recordBufferSlack"
  have len: "length ?b \<le> length (rs_buf s)" "rs_buf s = [] \<Longrightarrow> rs_start s = 0 \<and> rs_end s = 0 \<and> ?b = []"
    using length_buffered [of s] assms(1) by (auto simp: scanner_ok_def buffered_def)
  have grow: "length ?b \<le> min (2 * length (rs_buf s)) ?c" if "rs_end s \<le> length (rs_buf s)"
    using len assms(1) by (auto simp: scanner_ok_def)
  show "rs_eof s \<or> scanner_ok tight s1"
    using assms len(2) grow length_buffered [of s]
    by (auto simp: make_room_def Let_def scanner_ok_def split: if_splits)
  show "buffered s1 = ?b"
    using assms(2) len(2) by (auto simp: make_room_def Let_def buffered_def split: if_splits)
  show "rs_end s1 < length (rs_buf s1)"
    using make_room_Inr(7) [OF assms(2)] assms(2) len(2)
    by (cases "rs_buf s = []") (auto simp: make_room_def Let_def recordBufferSlack_def)
qed

lemma make_room_full:
  assumes "scanner_ok tight s" "make_room s = Inl e"
  shows "e = tooLarge (nextLine s) (rs_records s)" "length (buffered s) = rs_limit s + recordBufferSlack"
  using assms length_buffered_ok [OF assms(1)] by (auto simp: make_room_def Let_def scanner_ok_def split: if_splits)

lemma read_into_None:
  assumes "scanner_ok tight s" "\<not> rs_eof s" "rs_end s < length (rs_buf s)" "read_into s = (None, s')"
  shows "scanner_ok tight s'" "same_place s s'"
proof -
  obtain b e r where run: "Read (length (rs_buf s) - rs_end s) (rs_r s) = ((b, e), r)" by (metis prod.collapse)
  have ok: "ends_tight (rs_r s) = tight" "rs_end s \<le> length (rs_buf s)" "rs_start s \<le> rs_end s"
    using assms(1,2) by (simp_all add: scanner_ok_def)
  note r = Read_content [OF run]
  let ?buf = "take (rs_end s) (rs_buf s) @ b @ drop (rs_end s + length b) (rs_buf s)"
  have nf: "\<not> fails e"
    using assms(4) run by (auto simp: read_into_def Let_def fails_def at_EOF_def split: read_end.splits if_splits)
  have s': "s' = s\<lparr>rs_r := r, rs_buf := ?buf, rs_end := rs_end s + length b, rs_eof := at_EOF e\<rparr>"
    using assms(2,4) run by (auto simp: read_into_def Let_def split: read_end.splits if_splits)
  have "buffered s' = buffered s @ b"
    using ok unfolding s' by (simp add: buffered_def drop_take)
  then show "same_place s s'"
    using r(3) [OF nf] unfolding same_place_def unread_def by (auto simp: s')
  show "scanner_ok tight s'"
    using assms(1,3) r(1,4) r(5) [OF nf] ok by (auto simp: scanner_ok_def s')
qed

lemma read_into_Some:
  assumes "read_into s = (Some e, s')"
  shows "\<exists>x. ending (rs_r s) = Some x \<and> e = read_error x (rs_records s)" "content (rs_r s) = []"
proof -
  obtain b d r where run: "Read (length (rs_buf s) - rs_end s) (rs_r s) = ((b, d), r)" by (metis prod.collapse)
  have "fails d"
    using assms run by (auto simp: read_into_def Let_def fails_def at_EOF_def split: read_end.splits if_splits)
  from Read_content(2) [OF run this]
  show "\<exists>x. ending (rs_r s) = Some x \<and> e = read_error x (rs_records s)" "content (rs_r s) = []"
    using assms run by (auto simp: read_into_def Let_def read_error_def split: read_end.splits if_splits)
qed

lemma fill_None:
  assumes "scanner_ok tight s" "\<not> rs_eof s" "fill s = (None, s')"
  shows "scanner_ok tight s'" "same_place s s'"
proof -
  obtain s1 where s1: "make_room s = Inr s1" "read_into s1 = (None, s')"
    using assms(3) by (auto simp: fill_def split: sum.splits)
  note room = make_room_ok [OF assms(1) s1(1)] make_room_Inr [OF s1(1)]
  have "\<not> rs_eof s1"
    using room assms(2) by simp
  moreover have ok1: "scanner_ok tight s1"
    using room(1) assms(2) by simp
  ultimately have r: "scanner_ok tight s'" "same_place s1 s'"
    using read_into_None [OF ok1 _ room(3) s1(2)] by simp_all
  show "scanner_ok tight s'" "same_place s s'"
    using r room by (simp_all add: same_place_def unread_def)
qed

lemma fill_Some:
  assumes "scanner_ok tight s" "\<not> rs_eof s" "fill s = (Some e, s')"
  shows "e = tooLarge (nextLine s) (rs_records s) \<and> length (buffered s) = rs_limit s + recordBufferSlack
    \<or> buffered s = unread s \<and> length (buffered s) < rs_limit s + recordBufferSlack
      \<and> (\<exists>x. ending (rs_r s) = Some x \<and> e = read_error x (rs_records s))"
proof (cases "make_room s")
  case (Inl d)
  then show ?thesis
    using make_room_full [OF assms(1) Inl] assms(3) by (auto simp: fill_def)
next
  case (Inr s1)
  have ok1: "scanner_ok tight s1"
    using make_room_ok(1) [OF assms(1) Inr] assms(2) by simp
  note room = make_room_ok(2,3) [OF assms(1) Inr] make_room_Inr [OF Inr]
  have "read_into s1 = (Some e, s')"
    using assms(3) Inr by (simp add: fill_def)
  moreover have "length (buffered s) < rs_limit s + recordBufferSlack"
    using ok1 room(1,2,7) length_buffered_ok [OF ok1] by (auto simp: scanner_ok_def)
  ultimately show ?thesis
    using read_into_Some [of s1 e s'] room by (simp add: unread_def)
qed

lemma same_place_trans: "same_place s s' \<Longrightarrow> same_place s' s'' \<Longrightarrow> same_place s s''"
  by (simp add: same_place_def)

lemma eof_unread: "scanner_ok tight s \<Longrightarrow> rs_eof s \<Longrightarrow> unread s = buffered s \<and> ending (rs_r s) = None"
  by (simp add: scanner_ok_def unread_def)

lemma buffered_advance:
  "k \<le> length (buffered s) \<Longrightarrow> buffered (s\<lparr>rs_start := rs_start s + k, rs_lines := l\<rparr>) = drop k (buffered s)"
  "buffered (s\<lparr>rs_start := rs_start s + k\<rparr>) = drop k (buffered s)"
  by (simp_all add: buffered_def drop_take add.commute)

lemma advance_ok:
  "scanner_ok tight s \<Longrightarrow> k \<le> length (buffered s) \<Longrightarrow> scanner_ok tight (s\<lparr>rs_start := rs_start s + k, rs_lines := l\<rparr>)"
  "scanner_ok tight s \<Longrightarrow> k \<le> length (buffered s) \<Longrightarrow> scanner_ok tight (s\<lparr>rs_start := rs_start s + k\<rparr>)"
  using length_buffered_ok [of tight s] by (auto simp: scanner_ok_def)

text \<open>What is left of a buffer after its leading whitespace.\<close>

lemma spaces_buffered:
  "buffered (s\<lparr>rs_start := rs_start s + length (takeWhile isRecordSpace (buffered s)), rs_lines := l\<rparr>)
     = dropWhile isRecordSpace (buffered s)"
  by (simp add: buffered_advance length_takeWhile_le dropWhile_eq_drop)

definition end_error :: "error option \<Rightarrow> nat \<Rightarrow> error" where
  "end_error fin n = (case fin of None \<Rightarrow> io_EOF | Some x \<Rightarrow> read_error x n)"

lemma skipSpace_ok:
  assumes "scanner_ok tight s" "skipSpace s = (r, s')"
  shows "if dropWhile isRecordSpace (unread s) = [] then r = Some (end_error (ending (rs_r s)) (rs_records s))
    else r = None \<and> scanner_ok tight s' \<and> unread s' = dropWhile isRecordSpace (unread s) \<and> buffered s' \<noteq> []
      \<and> rs_lines s' = rs_lines s + count_list (takeWhile isRecordSpace (unread s)) 10
      \<and> rs_records s' = rs_records s \<and> rs_limit s' = rs_limit s \<and> ending (rs_r s') = ending (rs_r s)"
  using assms
proof (induction s arbitrary: r s' rule: measure_induct_rule [of scan_size])
  case (less s)
  let ?sp = "takeWhile isRecordSpace (buffered s)"
  define s1 where "s1 = s\<lparr>rs_start := rs_start s + length ?sp, rs_lines := rs_lines s + count_list ?sp 10\<rparr>"
  have b1: "buffered s1 = dropWhile isRecordSpace (buffered s)" and ok1: "scanner_ok tight s1"
    using less.prems(1) by (simp_all add: s1_def spaces_buffered advance_ok length_takeWhile_le)
  have sel: "rs_r s1 = rs_r s" "rs_eof s1 = rs_eof s" "rs_records s1 = rs_records s" "rs_limit s1 = rs_limit s"
      "rs_lines s1 = rs_lines s + count_list ?sp 10" "rs_buf s1 = rs_buf s"
    by (simp_all add: s1_def)
  have run: "(r, s') = (if buffered s1 \<noteq> [] then (None, s1) else if rs_eof s1 then (Some io_EOF, s1)
      else case fill s1 of (Some e, s2) \<Rightarrow> (Some e, s2) | (None, s2) \<Rightarrow> skipSpace s2)"
  proof -
    have "rs_start s1 < rs_end s1 \<longleftrightarrow> buffered s1 \<noteq> []"
      using length_buffered_ok [OF ok1] by (metis length_greater_0_conv zero_less_diff)
    then show ?thesis
      using less.prems(2) skipSpace.simps [of s] unfolding Let_def s1_def [symmetric] by simp
  qed
  show ?case
  proof (cases "buffered s1 = []")
    case False
    then have "takeWhile isRecordSpace (unread s) = ?sp" "dropWhile isRecordSpace (unread s) = unread s1"
      using b1 sel(1) by (auto simp: unread_def takeWhile_append dropWhile_append split: if_splits)
    moreover have "unread s1 \<noteq> []"
      using False by (simp add: unread_def)
    ultimately show ?thesis
      using run False ok1 sel by simp
  next
    case True
    then have sp: "\<forall>x\<in>set (buffered s). isRecordSpace x" "?sp = buffered s"
      using b1 by (simp_all add: dropWhile_eq_Nil_conv)
    then have skip: "takeWhile isRecordSpace (unread s) = buffered s @ takeWhile isRecordSpace (content (rs_r s))"
        "dropWhile isRecordSpace (unread s) = dropWhile isRecordSpace (content (rs_r s))"
      by (simp_all add: unread_def)
    show ?thesis
    proof (cases "rs_eof s")
      case True
      then have "rs_r s = []"
        using less.prems(1) by (simp add: scanner_ok_def)
      then show ?thesis
        using run True \<open>buffered s1 = []\<close> sel skip by (simp add: end_error_def)
    next
      case False
      obtain f s2 where f: "fill s1 = (f, s2)" by (metis prod.collapse)
      show ?thesis
      proof (cases f)
        case (Some e)
        then have "\<exists>x. ending (rs_r s1) = Some x \<and> e = read_error x (rs_records s1)" "content (rs_r s1) = []"
          using fill_Some [OF ok1, of e s2] f sel(2) False True by (auto simp: recordBufferSlack_def unread_def)
        then show ?thesis
          using run True False f Some sel skip by (auto simp: end_error_def)
      next
        case None
        have ok2: "scanner_ok tight s2" "same_place s1 s2"
          using fill_None [OF ok1 _ f [unfolded None]] sel False by simp_all
        have "scan_size s1 = scan_size s"
          by (simp add: scan_size_def sel)
        then have "scan_size s2 < scan_size s"
          using fill_scan_size [of s1 s2] f None sel False by simp
        from less.IH [OF this ok2(1), of r s'] show ?thesis
          using run True False f None ok2(2) sel skip sp(2) by (simp add: same_place_def unread_def [of s1] add.assoc)
      qed
    qed
  qed
qed

text \<open>What a call that reads one record leaves, against the record the specification reads.\<close>

definition follows :: "bool \<Rightarrow> recordScanner \<Rightarrow> (error, numberedRecord) result \<times> recordScanner \<Rightarrow>
    (error, numberedRecord \<times> bytes \<times> nat) result \<Rightarrow> bool" where
  "follows tight s out spec = (case spec of
      Inl e \<Rightarrow> fst out = Inl e
    | Inr (rec, R, ls) \<Rightarrow> fst out = Inr rec \<and> scanner_ok tight (snd out) \<and> unread (snd out) = R \<and> rs_lines (snd out) = ls
        \<and> rs_records (snd out) = rs_records s \<and> rs_limit (snd out) = rs_limit s
        \<and> ending (rs_r (snd out)) = ending (rs_r s))"

lemma follows_same: "same_place s s' \<Longrightarrow> follows tight s' out spec \<Longrightarrow> follows tight s out spec"
  by (auto simp: follows_def same_place_def split: sum.splits)

lemma takeWhile_found: "x \<in> set b \<Longrightarrow> takeWhile (\<lambda>y. y \<noteq> x) (b @ c) = takeWhile (\<lambda>y. y \<noteq> x) b
    \<and> length (takeWhile (\<lambda>y. y \<noteq> x) b) < length b"
  by (induction b) auto

lemma strip_CR_short: "length item \<le> Suc (length (strip_CR item))"
  by (simp add: strip_CR_def)

abbreviation json_spec :: "recordScanner \<Rightarrow> (error, numberedRecord \<times> bytes \<times> nat) result" where
  "json_spec s \<equiv> json_frame (rs_limit s) (ending (rs_r s)) (rs_lines s) (rs_records s) (unread s)"

lemma json_frame_long: "limit + recordBufferSlack \<le> length (takeWhile (\<lambda>x. x \<noteq> 10) R) \<Longrightarrow>
    json_frame limit fin ls n R = Inl (tooLarge (ls + 1) n)"
  using strip_CR_short [of "takeWhile (\<lambda>x. x \<noteq> 10) R"] length_takeWhile_le [of "\<lambda>x. x \<noteq> 10" R]
  by (auto simp: json_frame_def Let_def recordBufferSlack_def)

lemma ends_tight_content: "ends_tight rs \<Longrightarrow> content rs \<noteq> [] \<and> ending rs = None"
  by (induction rs rule: ends_tight.induct) (auto split: read_end.splits if_splits)

lemma json_loop_ok: "scanner_ok tight s \<Longrightarrow> follows tight s (json_loop (nextLine s) s) (json_spec s)"
proof (induction s rule: measure_induct_rule [of scan_size])
  case (less s)
  let ?b = "buffered s"
  show ?case
  proof (cases "10 \<in> set ?b")
    case True
    let ?i = "length (takeWhile (\<lambda>x. x \<noteq> 10) ?b)"
    have L: "takeWhile (\<lambda>x. x \<noteq> 10) (unread s) = take ?i ?b" "?i < length ?b" "take ?i ?b \<noteq> unread s"
      using takeWhile_found [OF True, of "content (rs_r s)"] True
      by (auto simp: unread_def takeWhile_eq_take [symmetric])
    have loop: "json_loop (nextLine s) s = (let item = strip_CR (take ?i ?b) in
        if length item > rs_limit s then (Inl (tooLarge (nextLine s) (rs_records s)), s)
        else (Inr \<lparr>nr_number = rs_records s, nr_line = nextLine s, nr_json = True, nr_item = item\<rparr>,
             s\<lparr>rs_start := rs_start s + Suc ?i, rs_lines := rs_lines s + 1\<rparr>))"
      using True by (simp add: json_loop.simps [of "nextLine s" s] Let_def)
    have "scanner_ok tight (s\<lparr>rs_start := rs_start s + Suc ?i, rs_lines := rs_lines s + 1\<rparr>)"
        "buffered (s\<lparr>rs_start := rs_start s + Suc ?i, rs_lines := rs_lines s + 1\<rparr>) = drop (Suc ?i) ?b"
      using advance_ok(1) [OF less.prems, of "Suc ?i"] buffered_advance(1) [of "Suc ?i" s] L(2) by simp_all
    moreover have "drop (Suc ?i) (unread s) = drop (Suc ?i) ?b @ content (rs_r s)"
      using L(2) by (simp add: unread_def)
    ultimately show ?thesis
      using L unfolding loop by (simp add: follows_def json_frame_def Let_def nextLine_def unread_def)
  next
    case no: False
    show ?thesis
    proof (cases "rs_eof s")
      case True
      have all: "takeWhile (\<lambda>x. x \<noteq> 10) ?b = ?b"
        using no by (auto simp: takeWhile_eq_all_conv)
      have full: "length ?b \<ge> rs_limit s + recordBufferSlack \<Longrightarrow> length ?b > rs_limit s"
        by (simp add: recordBufferSlack_def)
      have "buffered (s\<lparr>rs_start := rs_end s\<rparr>) = []" "scanner_ok tight (s\<lparr>rs_start := rs_end s\<rparr>)" "content (rs_r s) = []"
        using less.prems True by (auto simp: buffered_def scanner_ok_def)
      moreover have "json_loop (nextLine s) s =
          (if length ?b > rs_limit s then (Inl (tooLarge (nextLine s) (rs_records s)), s)
           else (Inr \<lparr>nr_number = rs_records s, nr_line = nextLine s, nr_json = True, nr_item = ?b\<rparr>, s\<lparr>rs_start := rs_end s\<rparr>))"
        using no True by (simp add: json_loop.simps [of "nextLine s" s] Let_def)
      ultimately show ?thesis
        using eof_unread [OF less.prems True] all full
        by (auto simp: follows_def json_frame_def nextLine_def unread_def)
    next
      case False
      obtain f s1 where f: "fill s = (f, s1)" by (metis prod.collapse)
      have loop: "json_loop (nextLine s) s = (case f of Some e \<Rightarrow> (Inl e, s1) | None \<Rightarrow> json_loop (nextLine s) s1)"
        using no False f by (simp add: json_loop.simps [of "nextLine s" s] Let_def split: option.split)
      show ?thesis
      proof (cases f)
        case (Some e)
        have "json_spec s = Inl e"
          using fill_Some [OF less.prems False f [unfolded Some]]
        proof (elim disjE conjE exE)
          assume e: "e = tooLarge (nextLine s) (rs_records s)" and len: "length ?b = rs_limit s + recordBufferSlack"
          have "\<forall>x\<in>set ?b. x \<noteq> 10"
            using no by auto
          then have "?b @ takeWhile (\<lambda>x. x \<noteq> 10) (content (rs_r s)) = takeWhile (\<lambda>x. x \<noteq> 10) (unread s)"
            by (simp add: unread_def takeWhile_append2)
          then have "rs_limit s + recordBufferSlack \<le> length (takeWhile (\<lambda>x. x \<noteq> 10) (unread s))"
            using len by (metis le_add1 length_append)
          then show ?thesis
            using e by (simp add: json_frame_long nextLine_def)
        next
          fix x assume e: "?b = unread s" "length ?b < rs_limit s + recordBufferSlack" "ending (rs_r s) = Some x" "e = read_error x (rs_records s)"
          have "takeWhile (\<lambda>x. x \<noteq> 10) (unread s) = unread s"
            using no e(1) by (auto simp: takeWhile_eq_all_conv)
          then show ?thesis
            using e by (simp add: json_frame_def)
        qed
        then show ?thesis
          using Some loop by (simp add: follows_def)
      next
        case None
        note ok = fill_None [OF less.prems False f [unfolded None]]
        have "nextLine s1 = nextLine s" "json_spec s1 = json_spec s"
          using ok(2) by (simp_all add: same_place_def nextLine_def)
        then show ?thesis
          using less.IH [OF fill_scan_size [OF f [unfolded None] False] ok(1)] loop None follows_same [OF ok(2)] by simp
      qed
    qed
  qed
qed

text \<open>What the framing relies on of the CBOR library: an item takes at least its first octet and no more than
  there is, and an answer other than that more input is needed does not change when more input arrives.\<close>

definition cbor_framing :: "(bytes \<Rightarrow> cbor_first) \<Rightarrow> bool" where
  "cbor_framing dec \<longleftrightarrow> (\<forall>b k. dec b = CborItem k \<longrightarrow> 0 < k \<and> k \<le> length b)
     \<and> (\<forall>b c. (\<forall>e. dec b = CborErr e \<longrightarrow> \<not> incomplete e) \<longrightarrow> dec (b @ c) = dec b)"

abbreviation cbor_spec :: "(bytes \<Rightarrow> cbor_first) \<Rightarrow> bool \<Rightarrow> recordScanner \<Rightarrow> (error, numberedRecord \<times> bytes \<times> nat) result" where
  "cbor_spec dec tight s \<equiv> cbor_frame dec (rs_limit s) (ending (rs_r s)) tight (rs_lines s) (rs_records s) (unread s)"

lemma cbor_prefix:
  assumes "cbor_framing dec" "\<forall>e. dec b = CborErr e \<longrightarrow> \<not> incomplete e" "length b \<le> k"
  shows "dec (take k (b @ c)) = dec b"
proof -
  have "take k (b @ c) = b @ take (k - length b) c"
    using assms(3) by simp
  then show ?thesis
    using assms(1,2) by (simp add: cbor_framing_def)
qed

lemma cborRecord_ok:
  assumes "cbor_framing dec"
  shows "scanner_ok tight s \<Longrightarrow> follows tight s (cborRecord dec s) (cbor_spec dec tight s)"
proof (induction s rule: measure_induct_rule [of scan_size])
  case (less s)
  let ?b = "buffered s" and ?c = "rs_limit s + recordBufferSlack"
  have short: "length ?b \<le> ?c"
    using less.prems length_buffered [of s] by (auto simp: scanner_ok_def)
  show ?case
  proof (cases "\<exists>e. dec ?b = CborErr e \<and> incomplete e")
    case False
    then have dec: "dec (take ?c (unread s)) = dec ?b"
      using cbor_prefix [OF assms, of ?b ?c "content (rs_r s)"] short by (auto simp: unread_def)
    show ?thesis
    proof (cases "dec ?b")
      case (CborItem k)
      then have k: "k \<le> length ?b"
        using assms by (auto simp: cbor_framing_def)
      have "scanner_ok tight (s\<lparr>rs_start := rs_start s + k\<rparr>)" "buffered (s\<lparr>rs_start := rs_start s + k\<rparr>) = drop k ?b"
        by (rule advance_ok(2) [OF less.prems k], rule buffered_advance(2))
      then show ?thesis
        using CborItem dec k by (simp add: cborRecord.simps [of dec s] follows_def cbor_frame_def unread_def)
    next
      case (CborErr e)
      then show ?thesis
        using False dec by (simp add: cborRecord.simps [of dec s] follows_def cbor_frame_def)
    qed
  next
    case True
    then obtain e where e: "dec ?b = CborErr e" "incomplete e"
      by blast
    show ?thesis
    proof (cases "rs_eof s")
      case True
      then have "unread s = ?b" "ending (rs_r s) = None" "length ?b < ?c \<or> length ?b = ?c \<and> tight"
        using eof_unread [OF less.prems] less.prems length_buffered_ok [OF less.prems] by (auto simp: scanner_ok_def)
      then show ?thesis
        using True e by (auto simp: cborRecord.simps [of dec s] follows_def cbor_frame_def)
    next
      case False
      obtain f s1 where f: "fill s = (f, s1)" by (metis prod.collapse)
      have loop: "cborRecord dec s = (case f of Some e \<Rightarrow> (Inl e, s1) | None \<Rightarrow> cborRecord dec s1)"
        using e False f by (simp add: cborRecord.simps [of dec s] split: option.split)
      show ?thesis
      proof (cases f)
        case (Some d)
        have "\<not> tight" if "ending (rs_r s) \<noteq> None \<or> content (rs_r s) = []"
          using that ends_tight_content less.prems False by (auto simp: scanner_ok_def)
        then have "cbor_spec dec tight s = Inl d"
          using fill_Some [OF less.prems False f [unfolded Some]] e short
          by (auto simp: cbor_frame_def nextLine_def unread_def)
        then show ?thesis
          using Some loop by (simp add: follows_def)
      next
        case None
        note ok = fill_None [OF less.prems False f [unfolded None]]
        have "cbor_spec dec tight s1 = cbor_spec dec tight s"
          using ok(2) by (simp add: same_place_def)
        then show ?thesis
          using less.IH [OF fill_scan_size [OF f [unfolded None] False] ok(1)] loop None follows_same [OF ok(2)] by simp
      qed
    qed
  qed
qed

abbreviation frame_spec :: "(bytes \<Rightarrow> cbor_first) \<Rightarrow> bool \<Rightarrow> recordScanner \<Rightarrow> (error, numberedRecord \<times> bytes \<times> nat) result" where
  "frame_spec dec tight s \<equiv> frame dec (rs_limit s) (ending (rs_r s)) tight (rs_lines s) (rs_records s) (unread s)"

lemma next_record_ok:
  assumes "cbor_framing dec" "scanner_ok tight s"
  shows "follows tight (s\<lparr>rs_records := rs_records s + 1\<rparr>) (next_record dec s) (frame_spec dec tight s)"
proof -
  obtain r s1 where skip: "skipSpace s = (r, s1)" by (metis prod.collapse)
  note sk = skipSpace_ok [OF assms(2) skip]
  show ?thesis
  proof (cases "dropWhile isRecordSpace (unread s) = []")
    case True
    then show ?thesis
      using sk skip by (simp add: next_record_def follows_def frame_def end_error_def)
  next
    case False
    let ?s2 = "s1\<lparr>rs_records := rs_records s1 + 1\<rparr>"
    have s1: "r = None" "scanner_ok tight s1" "unread s1 = dropWhile isRecordSpace (unread s)" "buffered s1 \<noteq> []"
        "rs_lines s1 = rs_lines s + count_list (takeWhile isRecordSpace (unread s)) 10"
        "rs_records s1 = rs_records s" "rs_limit s1 = rs_limit s" "ending (rs_r s1) = ending (rs_r s)"
      using sk False by simp_all
    have s2: "buffered ?s2 = buffered s1" "unread ?s2 = unread s1" "scanner_ok tight ?s2" "hd (unread s1) = hd (buffered s1)"
      using s1(2,4) by (simp_all add: buffered_def unread_def scanner_ok_def)
    have go: "follows tight ?s2 out spec \<Longrightarrow> follows tight (s\<lparr>rs_records := rs_records s + 1\<rparr>) out spec" for out spec
      using s1 by (cases spec) (auto simp: follows_def)
    let ?R = "unread s1" and ?h = "hd (buffered s1)" and ?n = "rs_records s + 1"
    let ?F = "follows tight (s\<lparr>rs_records := rs_records s + 1\<rparr>)"
    have J: "?F (jsonRecord ?s2) (json_frame (rs_limit s) (ending (rs_r s)) (rs_lines s1) ?n ?R)"
      using go [OF json_loop_ok [OF s2(3)]] s1(6-8) s2(2) by (simp add: jsonRecord_def)
    have C: "?F (cborRecord dec ?s2) (cbor_frame dec (rs_limit s) (ending (rs_r s)) tight (rs_lines s1) ?n ?R)"
      using go [OF cborRecord_ok [OF assms(1) s2(3)]] s1(6-8) s2(2) by simp
    have R: "?F (Inl e, s') (Inl e)" for e s'
      by (simp add: follows_def)
    have "next_record dec s = (if ?h = 0x7b then jsonRecord ?s2 else if cborMapHead ?h then cborRecord dec ?s2
        else if ?h = 0xbf then (Inl (refuse 0 None ?n), ?s2) else (Inl (refuse (rs_lines s1 + 1) None ?n), ?s2))"
      using skip s1(1,6) by (simp add: next_record_def Let_def nextLine_def)
    moreover have "frame_spec dec tight s = (if ?h = 0x7b then json_frame (rs_limit s) (ending (rs_r s)) (rs_lines s1) ?n ?R
        else if cborMapHead ?h then cbor_frame dec (rs_limit s) (ending (rs_r s)) tight (rs_lines s1) ?n ?R
        else if ?h = 0xbf then Inl (refuse 0 None ?n) else Inl (refuse (rs_lines s1 + 1) None ?n))"
      using False unfolding frame_def Let_def s1(3,5) [symmetric] s2(4) by simp
    ultimately show ?thesis
      using J C R by presburger
  qed
qed

lemma readRecords_ok:
  assumes "cbor_framing dec" "scanner_ok tight s"
  shows "readRecords dec k s = frames dec (rs_limit s) (ending (rs_r s)) tight k (rs_lines s) (rs_records s) (unread s)"
  using assms(2)
proof (induction k arbitrary: s)
  case (Suc k)
  obtain r s1 where run: "next_record dec s = (r, s1)" by (metis prod.collapse)
  note f = next_record_ok [OF assms(1) Suc.prems, unfolded run]
  show ?case
  proof (cases "frame_spec dec tight s")
    case (Inl e)
    then show ?thesis
      using f run by (simp add: follows_def)
  next
    case (Inr x)
    obtain rec R ls where "x = (rec, R, ls)" by (metis prod.collapse)
    then show ?thesis
      using f run Inr Suc.IH [of s1] by (simp add: follows_def)
  qed
qed simp

lemma new_scanner_ok: "scanner_ok (ends_tight r) (new_scanner limit r) \<and> unread (new_scanner limit r) = content r"
  by (simp add: new_scanner_def scanner_ok_def unread_def buffered_def)

lemmas readRecords_new = readRecords_ok [OF _ conjunct1 [OF new_scanner_ok]]

section \<open>Properties\<close>

text \<open>A library that knows the empty map alone, for the concrete runs.\<close>

definition empty_map :: "bytes \<Rightarrow> cbor_first" where
  "empty_map b = (case b of [] \<Rightarrow> CborErr io_EOF
    | x # _ \<Rightarrow> if x = 0xa0 then CborItem 1 else CborErr (ErrOther ''cbor: malformed''))"

lemma incomplete_EOF [simp]: "incomplete io_EOF"
  by (simp add: incomplete_def)

lemma empty_map_framing: "cbor_framing empty_map"
  by (auto simp: cbor_framing_def empty_map_def split: list.splits)

text \<open>C22: The framing does not depend on how the input arrives. Whatever finitely many reads return (bytes, no bytes,
  bytes together with the end of the input or with an error), with the 64 KiB buffer growing, moving and filling as it
  may, the records taken from the channel, their numbers and lines, and the error that ends them are the ones the
  specification reads off the whole input at once. No record is lost, split or read twice at a buffer's edge. The input
  is every byte delivered up to the end, those that come with it included; those that come with an error are not, since
  \<open>fill\<close> reports the error at once. How the input ends matters in one place: an unfinished CBOR item of exactly the
  buffer's ceiling. The hypothesis is that of the CBOR library's framing.\<close>

theorem framing_refines:
  assumes "cbor_framing dec"
  shows "readRecords dec k (new_scanner limit r) = frames dec limit (ending r) (ends_tight r) k 0 0 (content r)"
  using readRecords_new [OF assms, where r = r and limit = limit] new_scanner_ok [of r limit]
  by (simp add: new_scanner_def)

text \<open>The last bytes come with the end, the first line in two pieces.\<close>

theorem framing_refines_witness:
  "readRecords empty_map 3 (new_scanner 10 [([0x20, 0x7b], ReadMore), ([0x7d, 0x0d], ReadMore), ([], ReadMore), ([0x0a, 0xa0], ReadEOF)])
    = ([\<lparr>nr_number = 1, nr_line = 1, nr_json = True, nr_item = [0x7b, 0x7d]\<rparr>,
        \<lparr>nr_number = 2, nr_line = 0, nr_json = False, nr_item = [0xa0]\<rparr>], Some io_EOF)"
  using framing_refines [OF empty_map_framing, of 3 10 "[([0x20, 0x7b], ReadMore), ([0x7d, 0x0d], ReadMore), ([], ReadMore), ([0x0a, 0xa0], ReadEOF)]"]
  by (simp add: numeral_3_eq_3 frame_def isRecordSpace_def json_frame_def Let_def strip_CR_def cbor_frame_def
      empty_map_def recordBufferSlack_def cborMapHead_def)

text \<open>What comes with an error is dropped: \<open>fill\<close> adds the bytes to the buffer and returns the error, and no caller looks
  at the buffer again, although \<open>io.Reader\<close> asks its callers to process the bytes before the error.\<close>

theorem bytes_with_an_error_are_lost:
  "readRecords empty_map 3 (new_scanner 10 [([0xa0], ReadFail (ErrOther ''reset''))])
    = ([], Some (read_error (ErrOther ''reset'') 0))
   \<and> readRecords empty_map 3 (new_scanner 10 [([0xa0], ReadMore), ([], ReadFail (ErrOther ''reset''))])
    = ([\<lparr>nr_number = 1, nr_line = 0, nr_json = False, nr_item = [0xa0]\<rparr>], Some (read_error (ErrOther ''reset'') 1))"
proof -
  have "\<not> errors_Is (ErrOther ''reset'') io_EOF"
    by (simp add: io_EOF_def errors_Is_def unwrap_def)
  then show ?thesis
    using readRecords_new [OF empty_map_framing, where r = "[([0xa0], ReadFail (ErrOther ''reset''))]" and limit = 10]
      readRecords_new [OF empty_map_framing, where r = "[([0xa0], ReadMore), ([], ReadFail (ErrOther ''reset''))]" and limit = 10]
      new_scanner_ok [of "[([0xa0], ReadFail (ErrOther ''reset''))]" 10]
      new_scanner_ok [of "[([0xa0], ReadMore), ([], ReadFail (ErrOther ''reset''))]" 10]
    by (simp add: new_scanner_def numeral_3_eq_3 frame_def isRecordSpace_def cbor_frame_def empty_map_def
        recordBufferSlack_def cborMapHead_def Let_def del: readRecords.simps)
qed

text \<open>Records on the wire: an envelope is JSON or CBOR, and a JSON one is ended by a newline.\<close>

definition wire :: "bool \<times> bytes \<Rightarrow> bytes" where
  "wire x = (case x of (json, b) \<Rightarrow> if json then b @ [10] else b)"

definition envelope_ok :: "(bytes \<Rightarrow> cbor_first) \<Rightarrow> nat \<Rightarrow> bool \<times> bytes \<Rightarrow> bool" where
  "envelope_ok dec limit x = (case x of (json, b) \<Rightarrow> b \<noteq> [] \<and> length b \<le> limit
     \<and> (if json then hd b = 0x7b \<and> 10 \<notin> set b \<and> last b \<noteq> 13
        else cborMapHead (hd b) \<and> dec b = CborItem (length b)))"

fun numbered :: "nat \<Rightarrow> nat \<Rightarrow> (bool \<times> bytes) list \<Rightarrow> numberedRecord list" where
  "numbered n ls [] = []"
| "numbered n ls ((json, b) # xs) =
    \<lparr>nr_number = n + 1, nr_line = (if json then ls + 1 else 0), nr_json = json, nr_item = b\<rparr>
    # numbered (n + 1) (if json then ls + 1 else ls) xs"

lemma cborMapHead_no_space: "cborMapHead b \<Longrightarrow> \<not> isRecordSpace b \<and> b \<noteq> 0x7b"
  by (auto simp: cborMapHead_def isRecordSpace_def)

lemma frame_wire:
  assumes "cbor_framing dec" "envelope_ok dec limit (json, b)"
  shows "frame dec limit fin tight ls n (wire (json, b) @ R) =
    Inr (\<lparr>nr_number = n + 1, nr_line = (if json then ls + 1 else 0), nr_json = json, nr_item = b\<rparr>, R,
      if json then ls + 1 else ls)"
proof -
  obtain x xs where b: "b = x # xs" and short: "length b \<le> limit"
    using assms(2) by (cases b) (auto simp: envelope_ok_def)
  show ?thesis
  proof (cases json)
    case True
    then have x: "x = 0x7b" "10 \<notin> set b" "last b \<noteq> 13"
      using assms(2) True by (simp_all add: envelope_ok_def) (simp add: b)
    have "\<forall>y\<in>set b. y \<noteq> 10"
      using x(2) by auto
    then have "takeWhile (\<lambda>y. y \<noteq> 10) (b @ 10 # R) = b"
      by (simp add: takeWhile_append2)
    moreover have "\<not> isRecordSpace x"
      using x(1) by (simp add: isRecordSpace_def)
    ultimately show ?thesis
      using True x b short by (simp add: frame_def wire_def json_frame_def Let_def strip_CR_def)
  next
    case False
    then have x: "cborMapHead x" "dec b = CborItem (length b)"
      using assms(2) b by (simp_all add: envelope_ok_def)
    have "dec (take (limit + recordBufferSlack) (b @ R)) = CborItem (length b)"
      using cbor_prefix [OF assms(1), of b "limit + recordBufferSlack" R] x(2) short by simp
    then show ?thesis
      using False cborMapHead_no_space [OF x(1)] x(1) b short
      by (simp add: frame_def wire_def cbor_frame_def)
  qed
qed

lemma frames_wire:
  assumes "cbor_framing dec" "\<forall>x\<in>set xs. envelope_ok dec limit x"
  shows "frames dec limit None tight (Suc (length xs)) ls n (concat (map wire xs)) = (numbered n ls xs, Some io_EOF)"
  using assms(2)
proof (induction xs arbitrary: ls n)
  case Nil
  then show ?case
    by (simp add: frame_def)
next
  case (Cons x xs)
  obtain json b where x: "x = (json, b)" by (metis prod.collapse)
  have "envelope_ok dec limit (json, b)"
    using Cons.prems x by simp
  from frame_wire [OF assms(1) this, of None tight ls n "concat (map wire xs)"] show ?case
    using Cons.IH [of "if json then ls + 1 else ls" "n + 1"] Cons.prems x by simp
qed

text \<open>What a producer writes is what is read. A stream of envelopes in the two encodings, interleaved record by
  record, a JSON one ended by its newline and a CBOR one by nothing, comes back record for record with its
  bytes, its encoding, its position and, for JSON, its line, and then ends cleanly; in whatever pieces it arrives.\<close>

theorem stream_roundtrip:
  assumes "cbor_framing dec" "\<forall>x\<in>set xs. envelope_ok dec limit x"
    and "content r = concat (map wire xs)" "ending r = None"
  shows "readRecords dec (Suc (length xs)) (new_scanner limit r) = (numbered 0 0 xs, Some io_EOF)"
proof -
  have "readRecords dec (Suc (length xs)) (new_scanner limit r)
      = frames dec limit None (ends_tight r) (Suc (length xs)) 0 0 (concat (map wire xs))"
    using readRecords_new [OF assms(1), where r = r and limit = limit] new_scanner_ok [of r limit] assms(3,4)
    by (simp add: new_scanner_def del: frames.simps readRecords.simps)
  then show ?thesis
    using frames_wire [OF assms(1,2)] by simp
qed

theorem stream_roundtrip_witness:
  "readRecords empty_map 3 (new_scanner 10 [([0x7b], ReadMore), ([0x7d, 10, 0xa0], ReadMore), ([], ReadEOF)])
    = (numbered 0 0 [(True, [0x7b, 0x7d]), (False, [0xa0])], Some io_EOF)"
  using stream_roundtrip [OF empty_map_framing, of "[(True, [0x7b, 0x7d]), (False, [0xa0])]" 10
      "[([0x7b], ReadMore), ([0x7d, 10, 0xa0], ReadMore), ([], ReadEOF)]"]
  by (simp add: envelope_ok_def wire_def empty_map_def cborMapHead_def numeral_3_eq_3 del: readRecords.simps)

section \<open>It ends\<close>

lemma frame_shorter:
  assumes "cbor_framing dec" "frame dec limit fin tight ls n R = Inr (rec, R', ls')"
  shows "length R' < length R"
proof -
  define R1 where "R1 = dropWhile isRecordSpace R"
  have le: "length R1 \<le> length R"
    by (simp add: R1_def length_dropWhile_le)
  note run = assms(2) [unfolded frame_def Let_def, folded R1_def]
  have "R1 \<noteq> []"
    using run by (auto split: if_splits)
  have "length R' < length R1"
  proof (cases "hd R1 = 0x7b")
    case True
    then show ?thesis
      using run \<open>R1 \<noteq> []\<close> by (auto simp: json_frame_def Let_def split: if_splits option.splits)
  next
    case False
    then show ?thesis
      using run \<open>R1 \<noteq> []\<close> assms(1) by (auto simp: cbor_frame_def cbor_framing_def split: if_splits option.splits cbor_first.splits)
  qed
  then show ?thesis
    using le by simp
qed

lemma frames_end:
  assumes "cbor_framing dec" "length R < k"
  shows "(\<exists>recs e. frames dec limit fin tight k ls n R = (recs, Some e) \<and> length recs \<le> length R)
    \<and> (\<forall>m\<ge>k. frames dec limit fin tight m ls n R = frames dec limit fin tight k ls n R)"
  using assms(2)
proof (induction k arbitrary: ls n R)
  case (Suc k)
  show ?case
  proof (cases "frame dec limit fin tight ls n R")
    case (Inl e)
    have "frames dec limit fin tight m ls n R = ([], Some e)" if "m \<ge> Suc k" for m
      using that Inl by (cases m) auto
    then show ?thesis
      using Inl by simp
  next
    case (Inr x)
    obtain rec R' ls' where x: "x = (rec, R', ls')" by (metis prod_cases3)
    then have short: "length R' < length R"
      using frame_shorter [OF assms(1)] Inr by simp
    then have "length R' < k"
      using Suc.prems by simp
    note IH = conjunct1 [OF Suc.IH [OF this, of ls' "n + 1"]] conjunct2 [OF Suc.IH [OF this, of ls' "n + 1"]]
    have "frames dec limit fin tight m ls n R = frames dec limit fin tight (Suc k) ls n R" if "m \<ge> Suc k" for m
    proof (cases m)
      case (Suc m')
      then show ?thesis
        using that Inr x IH(2) [rule_format, of m'] by simp
    qed (use that in simp)
    moreover obtain recs e where "frames dec limit fin tight k ls' (n + 1) R' = (recs, Some e)" "length recs \<le> length R'"
      using IH(1) by blast
    then have "frames dec limit fin tight (Suc k) ls n R = (rec # recs, Some e)" "length (rec # recs) \<le> length R"
      using Inr x short by simp_all
    ultimately show ?thesis
      by blast
  qed
qed simp



end
