(* ===== verification/Canon.thy ===== *)
theory Canon
  imports ErrDef Sha256 "HOL-Library.Multiset"
begin

text \<open>Package \<open>internal/canon\<close>, file \<open>descriptor.go\<close>: column kinds, recorded schema shapes, their
  canonical serialized form and its strict reader. The reader's cursor keeps buffer and position as
  the code does; \<open>rest\<close> abstracts it to the bytes still unread, and the proofs work on that
  view.\<close>

section \<open>Kinds and fields\<close>

text \<open>\<open>Kind\<close> is a \<open>uint8\<close>: the nine tags the format defines, and any other byte.\<close>

datatype Kind =
  KindBoolean | KindInt | KindLong | KindFloat | KindDouble | KindDecimal | KindTimestampTz
| KindString | KindBinary | KindOther byte

fun tag_of_kind :: "Kind \<Rightarrow> byte" where
  "tag_of_kind KindBoolean = 0x01"
| "tag_of_kind KindInt = 0x02"
| "tag_of_kind KindLong = 0x03"
| "tag_of_kind KindFloat = 0x04"
| "tag_of_kind KindDouble = 0x05"
| "tag_of_kind KindDecimal = 0x06"
| "tag_of_kind KindTimestampTz = 0x07"
| "tag_of_kind KindString = 0x08"
| "tag_of_kind KindBinary = 0x09"
| "tag_of_kind (KindOther b) = b"

text \<open>The conversion \<open>Kind(tag)\<close>.\<close>

definition kind_of_tag :: "byte \<Rightarrow> Kind" where
  "kind_of_tag b =
    (if b = 0x01 then KindBoolean else if b = 0x02 then KindInt else if b = 0x03 then KindLong
     else if b = 0x04 then KindFloat else if b = 0x05 then KindDouble
     else if b = 0x06 then KindDecimal else if b = 0x07 then KindTimestampTz
     else if b = 0x08 then KindString else if b = 0x09 then KindBinary else KindOther b)"

text \<open>The spelling of a known kind; the text of an unknown one is a formatted number.\<close>

fun Kind_String :: "Kind \<Rightarrow> string" where
  "Kind_String KindBoolean = ''boolean''"
| "Kind_String KindInt = ''int''"
| "Kind_String KindLong = ''long''"
| "Kind_String KindFloat = ''float''"
| "Kind_String KindDouble = ''double''"
| "Kind_String KindDecimal = ''decimal''"
| "Kind_String KindTimestampTz = ''timestamptz''"
| "Kind_String KindString = ''string''"
| "Kind_String KindBinary = ''binary''"
| "Kind_String (KindOther b) = ''unknown type tag 0x'' @ EncodeToString [b]"

fun fixedWidth :: "Kind \<Rightarrow> nat option" where
  "fixedWidth KindBoolean = Some 1"
| "fixedWidth KindInt = Some 4"
| "fixedWidth KindFloat = Some 4"
| "fixedWidth KindLong = Some 8"
| "fixedWidth KindDouble = Some 8"
| "fixedWidth KindDecimal = Some 8"
| "fixedWidth KindTimestampTz = Some 8"
| "fixedWidth _ = None"

fun knownKind :: "Kind \<Rightarrow> Kind option" where
  "knownKind (KindOther _) = None"
| "knownKind k = Some k"

lemma kind_of_tag_of_kind [simp]:
  "knownKind k \<noteq> None \<Longrightarrow> kind_of_tag (tag_of_kind k) = k"
  by (cases k) (simp_all add: kind_of_tag_def)

lemma tag_of_kind_of_tag [simp]: "tag_of_kind (kind_of_tag b) = b"
  by (simp add: kind_of_tag_def)

lemma knownKind_self: "knownKind k \<noteq> None \<Longrightarrow> knownKind k = Some k"
  by (cases k) simp_all

lemma knownKind_SomeD: "knownKind k = Some k' \<Longrightarrow> k' = k"
  by (cases k) simp_all

record Field =
  fld_ID :: int
  fld_Name :: string
  fld_Kind :: Kind
  fld_Precision :: int
  fld_Scale :: int
  fld_Required :: bool

definition maxDecimalPrecision :: int where "maxDecimalPrecision = 18"

definition descriptorVersion :: byte where "descriptorVersion = 0x01"
definition encodingVersion :: byte where "encodingVersion = 0x01"
definition flagRequired :: byte where "flagRequired = 0x01"

definition fingerprintDomain :: string where
  "fingerprintDomain = ''icelake/schema-fp/v1'' @ [CHR 0x0A]"

definition MaxValueBytes :: nat where "MaxValueBytes = 2 ^ 32 - 1"
definition MaxInt32 :: int where "MaxInt32 = 2 ^ 31 - 1"

record Descriptor =
  d_fields :: "Field list"
  d_encoded :: bytes
  d_fp :: string

section \<open>The cursor\<close>

record cursor =
  buf :: bytes
  pos :: nat

definition remaining :: "cursor \<Rightarrow> nat" where
  "remaining c = length (buf c) - pos c"

definition byteAt :: "cursor \<Rightarrow> byte option \<times> cursor" where
  "byteAt c = (if remaining c < 1 then (None, c)
               else (Some (buf c ! pos c), c\<lparr>pos := pos c + 1\<rparr>))"

definition cursor_bytes :: "32 word \<Rightarrow> cursor \<Rightarrow> bytes option \<times> cursor" where
  "cursor_bytes n c = (if remaining c < unat n then (None, c)
     else (Some (take (unat n) (drop (pos c) (buf c))), c\<lparr>pos := pos c + unat n\<rparr>))"

definition cursor_uint32 :: "cursor \<Rightarrow> 32 word option \<times> cursor" where
  "cursor_uint32 c = (case cursor_bytes 4 c of
      (None, c') \<Rightarrow> (None, c')
    | (Some b, c') \<Rightarrow> (Some (un_be32 b), c'))"

text \<open>The early return every read is followed by: on failure the caller's error, otherwise the rest
  of the function on the value and the advanced cursor.\<close>

definition need :: "'x option \<times> cursor \<Rightarrow> 'e \<Rightarrow> ('x \<Rightarrow> cursor \<Rightarrow> ('e, 'a) result) \<Rightarrow> ('e, 'a) result" where
  "need r e f = (case r of (None, _) \<Rightarrow> Inl e | (Some x, c) \<Rightarrow> f x c)"

text \<open>The unread bytes.\<close>

definition rest :: "cursor \<Rightarrow> bytes" where
  "rest c = drop (pos c) (buf c)"

lemma remaining_rest: "remaining c = length (rest c)"
  by (simp add: remaining_def rest_def)

lemma need_simps [simp, result_simps]:
  "need (None, c) e f = Inl e"
  "need (Some x, c) e f = f x c"
  by (simp_all add: need_def)

lemma need_Inr_iff:
  "need r e f = Inr y \<longleftrightarrow> (\<exists>x c. r = (Some x, c) \<and> f x c = Inr y)"
  by (cases r) (auto simp: need_def split: option.splits)

lemma rest_advance [simp]: "rest (c\<lparr>pos := pos c + n\<rparr>) = drop n (rest c)"
  by (simp add: rest_def add.commute)

lemma byteAt_rest:
  "byteAt c = (case rest c of [] \<Rightarrow> (None, c) | b # _ \<Rightarrow> (Some b, c\<lparr>pos := pos c + 1\<rparr>))"
  by (auto simp: byteAt_def remaining_def rest_def nth_via_drop split: list.splits)

lemma cursor_bytes_rest:
  "cursor_bytes n c = (if length (rest c) < unat n then (None, c)
    else (Some (take (unat n) (rest c)), c\<lparr>pos := pos c + unat n\<rparr>))"
  by (simp add: cursor_bytes_def remaining_rest) (simp add: rest_def)

lemma byteAt_Cons:
  "rest c = b # r \<Longrightarrow> \<exists>c'. byteAt c = (Some b, c') \<and> rest c' = r"
  using rest_advance [of c 1] by (simp add: byteAt_rest)

lemma cursor_bytes_append:
  "rest c = bs @ r \<Longrightarrow> length bs = unat n \<Longrightarrow>
    \<exists>c'. cursor_bytes n c = (Some bs, c') \<and> rest c' = r"
  by (simp add: cursor_bytes_rest)

lemma cursor_uint32_append:
  "rest c = be32 w @ r \<Longrightarrow> \<exists>c'. cursor_uint32 c = (Some w, c') \<and> rest c' = r"
  using cursor_bytes_append [of c "be32 w" r 4] by (auto simp: cursor_uint32_def)

lemma byteAt_SomeD: "byteAt c = (Some b, c') \<Longrightarrow> rest c = b # rest c'"
  using rest_advance [of c 1] by (auto simp: byteAt_rest split: list.splits)

lemma cursor_bytes_SomeD:
  "cursor_bytes n c = (Some bs, c') \<Longrightarrow> rest c = bs @ rest c' \<and> length bs = unat n"
  by (auto simp: cursor_bytes_rest split: if_splits)

lemma cursor_uint32_SomeD: "cursor_uint32 c = (Some w, c') \<Longrightarrow> rest c = be32 w @ rest c'"
  by (auto simp: cursor_uint32_def be32_un_be32 dest!: cursor_bytes_SomeD
      split: option.splits prod.splits)

section \<open>Serialized form\<close>

definition encodeField :: "Field \<Rightarrow> bytes" where
  "encodeField f =
     be32 (word_of_int (fld_ID f))
     @ [tag_of_kind (fld_Kind f)]
     @ [if fld_Required f then 0 OR flagRequired else 0]
     @ (if fld_Kind f = KindDecimal
        then [word_of_int (fld_Precision f), word_of_int (fld_Scale f)] else [])
     @ be32 (word_of_nat (length (fld_Name f)))
     @ bytes_of_str (fld_Name f)"

definition encodeDescriptor :: "Field list \<Rightarrow> bytes" where
  "encodeDescriptor flds =
     [descriptorVersion] @ be32 (word_of_nat (length flds)) @ concat (map encodeField flds)"

definition malformedDescriptor :: error where
  "malformedDescriptor = NewEncodingError EncodingKindFormat '''' '''' 0"

text \<open>The two bytes a decimal column carries more.\<close>

definition decodeDecimal :: "Kind \<Rightarrow> cursor \<Rightarrow> (error, int \<times> int \<times> cursor) result" where
  "decodeDecimal kind c =
    (if kind = KindDecimal then
       need (byteAt c) malformedDescriptor (\<lambda>precision c.
       need (byteAt c) malformedDescriptor (\<lambda>scale c.
       Inr (uint precision, uint scale, c)))
     else Inr (0, 0, c))"

text \<open>One iteration of the loop of \<open>decodeDescriptor\<close>: a column read at the cursor, given the id of
  the column before it.\<close>

definition decodeField :: "int \<Rightarrow> cursor \<Rightarrow> (error, Field \<times> cursor) result" where
  "decodeField prevID c =
    need (cursor_uint32 c) malformedDescriptor (\<lambda>id c.
    if uint id < 1 \<or> uint id > MaxInt32 then Inl malformedDescriptor
    else if uint id \<le> prevID then Inl malformedDescriptor
    else
    need (byteAt c) malformedDescriptor (\<lambda>tag c.
    case knownKind (kind_of_tag tag) of None \<Rightarrow> Inl malformedDescriptor | Some kind \<Rightarrow>
    need (byteAt c) malformedDescriptor (\<lambda>flags c.
    if flags AND NOT flagRequired \<noteq> 0 then Inl malformedDescriptor
    else
    res_bind (decodeDecimal kind c) (\<lambda>(precision, scale, c).
    need (cursor_uint32 c) malformedDescriptor (\<lambda>nameLen c.
    need (cursor_bytes nameLen c) malformedDescriptor (\<lambda>name c.
    Inr (\<lparr>fld_ID = uint id, fld_Name = str_of_bytes name, fld_Kind = kind,
          fld_Precision = precision, fld_Scale = scale,
          fld_Required = (flags AND flagRequired \<noteq> 0)\<rparr>, c)))))))"

fun decodeFields :: "nat \<Rightarrow> int \<Rightarrow> cursor \<Rightarrow> (error, Field list \<times> cursor) result" where
  "decodeFields 0 prevID c = Inr ([], c)"
| "decodeFields (Suc n) prevID c =
    res_bind (decodeField prevID c) (\<lambda>(f, c).
    res_bind (decodeFields n (fld_ID f) c) (\<lambda>(fs, c). Inr (f # fs, c)))"

definition decodeDescriptor :: "bytes \<Rightarrow> (error, Field list) result" where
  "decodeDescriptor b =
    need (byteAt \<lparr>buf = b, pos = 0\<rparr>) malformedDescriptor (\<lambda>version c.
    if version \<noteq> descriptorVersion then Inl malformedDescriptor
    else
    need (cursor_uint32 c) malformedDescriptor (\<lambda>count c.
    if count = 0 then Inl malformedDescriptor
    else if unat count > remaining c then Inl malformedDescriptor
    else
    res_bind (decodeFields (unat count) 0 c) (\<lambda>(flds, c).
    if remaining c \<noteq> 0 then Inl malformedDescriptor else Inr flds)))"

section \<open>Descriptors\<close>

text \<open>The checks \<open>newDescriptor\<close> makes on one column, in its order.\<close>

definition checkField :: "string \<Rightarrow> Field \<Rightarrow> error option" where
  "checkField table f =
    (let bad = Some (NewEncodingError EncodingKindUnsupportedType table (fld_Name f) (fld_ID f)) in
     if fld_ID f < 1 \<or> fld_ID f > MaxInt32 then bad
     else if fld_Name f = '''' then bad
     else if length (fld_Name f) > MaxValueBytes then bad
     else if knownKind (fld_Kind f) = None then bad
     else if fld_Kind f = KindDecimal then
       (if fld_Precision f < 1 \<or> fld_Precision f > maxDecimalPrecision then bad
        else if fld_Scale f < 0 \<or> fld_Scale f > fld_Precision f then bad
        else None)
     else if fld_Precision f \<noteq> 0 \<or> fld_Scale f \<noteq> 0 then bad
     else None)"

definition newDescriptor :: "string \<Rightarrow> Field list \<Rightarrow> (error, Descriptor) result" where
  "newDescriptor table flds =
    (if length flds > MaxValueBytes
     then Inl (NewEncodingError EncodingKindUnsupportedType table '''' 0)
     else case first_error (checkField table) flds of
       Some e \<Rightarrow> Inl e
     | None \<Rightarrow>
         (let enc = encodeDescriptor flds in
          Inr \<lparr>d_fields = flds, d_encoded = enc,
               d_fp = EncodeToString (sha256 (bytes_of_str fingerprintDomain @ enc))\<rparr>))"

definition ParseDescriptor :: "bytes \<Rightarrow> (error, Descriptor) result" where
  "ParseDescriptor b =
    res_bind (decodeDescriptor b) (\<lambda>flds.
    res_bind (newDescriptor '''' flds) (\<lambda>d.
    if d_encoded d \<noteq> b then Inl malformedDescriptor else Inr d))"

text \<open>The column types of the Iceberg library, as far as the code tells them apart.\<close>

datatype (plugins only: size code) iceberg_type =
  BooleanType | Int32Type | Int64Type | Float32Type | Float64Type | StringType | BinaryType
| TimestampTzType | DecimalType int int | OtherType string

record NestedField =
  nf_ID :: int
  nf_Name :: string
  nf_Type :: iceberg_type
  nf_Required :: bool

fun kind_of_type :: "iceberg_type \<Rightarrow> (Kind \<times> int \<times> int) option" where
  "kind_of_type BooleanType = Some (KindBoolean, 0, 0)"
| "kind_of_type Int32Type = Some (KindInt, 0, 0)"
| "kind_of_type Int64Type = Some (KindLong, 0, 0)"
| "kind_of_type Float32Type = Some (KindFloat, 0, 0)"
| "kind_of_type Float64Type = Some (KindDouble, 0, 0)"
| "kind_of_type StringType = Some (KindString, 0, 0)"
| "kind_of_type BinaryType = Some (KindBinary, 0, 0)"
| "kind_of_type TimestampTzType = Some (KindTimestampTz, 0, 0)"
| "kind_of_type (DecimalType p s) = Some (KindDecimal, p, s)"
| "kind_of_type (OtherType _) = None"

definition describeField :: "string \<Rightarrow> NestedField \<Rightarrow> (error, Field) result" where
  "describeField table nf =
    (case kind_of_type (nf_Type nf) of
       None \<Rightarrow> Inl (NewEncodingError EncodingKindUnsupportedType table (nf_Name nf) (nf_ID nf))
     | Some (k, p, s) \<Rightarrow>
         Inr \<lparr>fld_ID = nf_ID nf, fld_Name = nf_Name nf, fld_Kind = k, fld_Precision = p,
              fld_Scale = s, fld_Required = nf_Required nf\<rparr>)"

text \<open>The scan over neighbours for a repeated id; it reports the second of the pair.\<close>

fun duplicateID :: "Field list \<Rightarrow> Field option" where
  "duplicateID (f # g # fs) = (if fld_ID g = fld_ID f then Some g else duplicateID (g # fs))"
| "duplicateID _ = None"

text \<open>\<open>slices.SortFunc\<close> promises no order among equal ids; \<open>sort_key\<close> keeps them in place. The choice
  only decides which of two columns sharing an id the refusal names.\<close>

definition FromFields :: "string \<Rightarrow> NestedField list \<Rightarrow> (error, Descriptor) result" where
  "FromFields table src =
    (if src = [] then Inl (NewEncodingError EncodingKindUnsupportedType table '''' 0)
     else res_bind (map_result (describeField table) src) (\<lambda>flds.
       let flds = sort_key fld_ID flds in
       case duplicateID flds of
         Some f \<Rightarrow> Inl (NewEncodingError EncodingKindUnsupportedType table (fld_Name f) (fld_ID f))
       | None \<Rightarrow> newDescriptor table flds))"

definition type_of_kind :: "Field \<Rightarrow> iceberg_type" where
  "type_of_kind f = (case fld_Kind f of
      KindBoolean \<Rightarrow> BooleanType | KindInt \<Rightarrow> Int32Type | KindLong \<Rightarrow> Int64Type
    | KindFloat \<Rightarrow> Float32Type | KindDouble \<Rightarrow> Float64Type
    | KindDecimal \<Rightarrow> DecimalType (fld_Precision f) (fld_Scale f)
    | KindTimestampTz \<Rightarrow> TimestampTzType | KindString \<Rightarrow> StringType | KindBinary \<Rightarrow> BinaryType
    | KindOther _ \<Rightarrow> OtherType '''')"

definition IcebergFields :: "Descriptor \<Rightarrow> NestedField list" where
  "IcebergFields d = map (\<lambda>f. \<lparr>nf_ID = fld_ID f, nf_Name = fld_Name f, nf_Type = type_of_kind f,
                               nf_Required = fld_Required f\<rparr>) (d_fields d)"

fun index_from :: "nat \<Rightarrow> int \<Rightarrow> Field list \<Rightarrow> nat option" where
  "index_from i fid [] = None"
| "index_from i fid (f # fs) = (if fld_ID f = fid then Some i else index_from (i + 1) fid fs)"

definition IndexOfFieldID :: "Descriptor \<Rightarrow> int \<Rightarrow> nat option" where
  "IndexOfFieldID d fid = index_from 0 fid (d_fields d)"

section \<open>Round trip and canonical form\<close>

text \<open>What the serialized form can carry of a column: less than \<open>checkField\<close> demands, and exactly
  what \<open>decodeField\<close> returns.\<close>

definition field_ok :: "Field \<Rightarrow> bool" where
  "field_ok f \<longleftrightarrow> 1 \<le> fld_ID f \<and> fld_ID f \<le> MaxInt32 \<and> length (fld_Name f) \<le> MaxValueBytes
     \<and> knownKind (fld_Kind f) \<noteq> None
     \<and> (if fld_Kind f = KindDecimal
        then 0 \<le> fld_Precision f \<and> fld_Precision f < 256 \<and> 0 \<le> fld_Scale f \<and> fld_Scale f < 256
        else fld_Precision f = 0 \<and> fld_Scale f = 0)"

lemma checkField_ok: "checkField table f = None \<Longrightarrow> field_ok f"
  by (auto simp: checkField_def field_ok_def Let_def maxDecimalPrecision_def split: if_splits)

fun ascending :: "int \<Rightarrow> Field list \<Rightarrow> bool" where
  "ascending p [] = True"
| "ascending p (f # fs) = (p < fld_ID f \<and> ascending (fld_ID f) fs)"

lemma uint_word_of_int_small:
  "0 \<le> i \<Longrightarrow> i < 2 ^ 32 \<Longrightarrow> uint (word_of_int i :: 32 word) = i"
  "0 \<le> i \<Longrightarrow> i < 256 \<Longrightarrow> uint (word_of_int i :: byte) = i"
  by (simp_all add: uint_word_of_int_eq take_bit_int_eq_self)

lemma word_of_nat_length_uint:
  "length bs = unat n \<Longrightarrow> word_of_nat (length bs) = (n :: 32 word)"
  by simp

lemma flag_bits:
  "((if r then 0 OR flagRequired else 0) :: byte) AND NOT flagRequired = 0"
  "((if r then 0 OR flagRequired else 0) AND flagRequired \<noteq> 0) = r"
  by (simp_all add: flagRequired_def)

lemma flag_bits_inv:
  assumes "flags AND NOT flagRequired = 0"
  shows "(if flags AND flagRequired \<noteq> 0 then 0 OR flagRequired else 0) = flags"
proof -
  have "flags = (flags AND flagRequired) OR (flags AND NOT flagRequired)"
    by (rule bit_word_eqI) (auto simp: bit_simps)
  then have flags: "flags = flags AND 1"
    using assms by (simp add: flagRequired_def)
  then have "flags = 0 \<or> flags = 1"
    by (metis and_one_eq mod2_eq_if)
  then show ?thesis
    by (auto simp: flagRequired_def)
qed

lemma decodeDecimal_encode:
  assumes c: "rest c = (if k = KindDecimal then [word_of_int p, word_of_int s] else []) @ r"
    and dec: "k = KindDecimal \<Longrightarrow> 0 \<le> p \<and> p < 256 \<and> 0 \<le> s \<and> s < 256"
    and other: "k \<noteq> KindDecimal \<Longrightarrow> p = 0 \<and> s = 0"
  shows "\<exists>c'. decodeDecimal k c = Inr (p, s, c') \<and> rest c' = r"
proof (cases "k = KindDecimal")
  case True
  then have "rest c = word_of_int p # word_of_int s # r"
    using c by simp
  from byteAt_Cons [OF this] obtain c1 where
    c1: "byteAt c = (Some (word_of_int p), c1)" "rest c1 = word_of_int s # r" by auto
  from byteAt_Cons [OF c1(2)] obtain c2 where
    "byteAt c1 = (Some (word_of_int s), c2)" "rest c2 = r" by auto
  then show ?thesis
    using True dec c1(1) by (simp add: decodeDecimal_def uint_word_of_int_small)
next
  case False
  then show ?thesis
    using c other by (simp add: decodeDecimal_def)
qed

lemma decodeDecimal_sound:
  assumes "decodeDecimal k c = Inr (p, s, c')"
  shows "rest c = (if k = KindDecimal then [word_of_int p, word_of_int s] else []) @ rest c'"
    "if k = KindDecimal then 0 \<le> p \<and> p < 256 \<and> 0 \<le> s \<and> s < 256 else p = 0 \<and> s = 0"
  using assms unsigned_less [where ?'a = int and ?'b = 8]
  by (auto simp: decodeDecimal_def need_Inr_iff dest!: byteAt_SomeD split: if_splits)

lemma decodeField_encode:
  assumes ok: "field_ok f" and prev: "prev < fld_ID f" and c: "rest c = encodeField f @ r"
  shows "\<exists>c'. decodeField prev c = Inr (f, c') \<and> rest c' = r"
proof -
  let ?id = "word_of_int (fld_ID f) :: 32 word"
  let ?flags = "(if fld_Required f then 0 OR flagRequired else 0) :: byte"
  let ?dec = "if fld_Kind f = KindDecimal
    then [word_of_int (fld_Precision f), word_of_int (fld_Scale f)] else [] :: bytes"
  let ?len = "word_of_nat (length (fld_Name f)) :: 32 word"
  have id: "uint ?id = fld_ID f"
    using ok by (intro uint_word_of_int_small) (auto simp: field_ok_def MaxInt32_def)
  have len: "length (bytes_of_str (fld_Name f)) = unat ?len"
    using ok by (simp add: field_ok_def MaxValueBytes_def unat_uint32)
  have kind: "knownKind (kind_of_tag (tag_of_kind (fld_Kind f))) = Some (fld_Kind f)"
    using ok by (simp add: field_ok_def knownKind_self del: not_None_eq)
  from c obtain c1 where c1: "cursor_uint32 c = (Some ?id, c1)"
      "rest c1 = tag_of_kind (fld_Kind f) # ?flags # ?dec @ be32 ?len @ bytes_of_str (fld_Name f) @ r"
    by (auto simp: encodeField_def dest!: cursor_uint32_append)
  from byteAt_Cons [OF c1(2)] obtain c2 where c2: "byteAt c1 = (Some (tag_of_kind (fld_Kind f)), c2)"
      "rest c2 = ?flags # ?dec @ be32 ?len @ bytes_of_str (fld_Name f) @ r"
    by auto
  from byteAt_Cons [OF c2(2)] obtain c3 where c3: "byteAt c2 = (Some ?flags, c3)"
      "rest c3 = ?dec @ be32 ?len @ bytes_of_str (fld_Name f) @ r"
    by auto
  have "fld_Kind f = KindDecimal \<Longrightarrow> 0 \<le> fld_Precision f \<and> fld_Precision f < 256
      \<and> 0 \<le> fld_Scale f \<and> fld_Scale f < 256"
    "fld_Kind f \<noteq> KindDecimal \<Longrightarrow> fld_Precision f = 0 \<and> fld_Scale f = 0"
    using ok by (auto simp: field_ok_def)
  from decodeDecimal_encode [OF c3(2) this] obtain c4 where
    c4: "decodeDecimal (fld_Kind f) c3 = Inr (fld_Precision f, fld_Scale f, c4)"
      "rest c4 = be32 ?len @ bytes_of_str (fld_Name f) @ r"
    by auto
  from cursor_uint32_append [OF c4(2)] obtain c5 where
    c5: "cursor_uint32 c4 = (Some ?len, c5)" "rest c5 = bytes_of_str (fld_Name f) @ r"
    by auto
  from cursor_bytes_append [OF c5(2) len] obtain c6 where
    c6: "cursor_bytes ?len c5 = (Some (bytes_of_str (fld_Name f)), c6)" "rest c6 = r"
    by auto
  have range: "\<not> (fld_ID f < 1 \<or> fld_ID f > MaxInt32)" "\<not> fld_ID f \<le> prev"
    using ok prev by (auto simp: field_ok_def)
  have "decodeField prev c = Inr (f, c6)"
    unfolding decodeField_def
    by (simp only: c1(1) c2(1) c3(1) c4(1) c5(1) c6(1) need_simps id range if_False kind
        option.case flag_bits res_bind_simps prod.case str_of_bytes_of_str simp_thms) simp
  then show ?thesis
    using c6(2) by blast
qed

lemma decodeField_sound:
  assumes "decodeField prev c = Inr (f, c')"
  shows "rest c = encodeField f @ rest c'" "prev < fld_ID f" "field_ok f"
proof -
  from assms obtain fid c1 tag kind c2 flags c3 precision scale c4 nameLen c5 name where
    h: "cursor_uint32 c = (Some fid, c1)"
      "1 \<le> uint fid" "uint fid \<le> MaxInt32" "prev < uint fid"
      "byteAt c1 = (Some tag, c2)" "knownKind (kind_of_tag tag) = Some kind"
      "byteAt c2 = (Some flags, c3)" "flags AND NOT flagRequired = 0"
    and d: "decodeDecimal kind c3 = Inr (precision, scale, c4)"
    and t: "cursor_uint32 c4 = (Some nameLen, c5)" "cursor_bytes nameLen c5 = (Some name, c')"
      "f = \<lparr>fld_ID = uint fid, fld_Name = str_of_bytes name, fld_Kind = kind,
          fld_Precision = precision, fld_Scale = scale,
          fld_Required = (flags AND flagRequired \<noteq> 0)\<rparr>"
    unfolding decodeField_def
    by (auto simp: need_Inr_iff res_bind_eq_Inr not_less not_le split: if_split_asm option.split_asm)
  have kind: "kind = kind_of_tag tag"
    using knownKind_SomeD [OF h(6)] .
  note dec = decodeDecimal_sound [OF d]
  have name: "rest c5 = name @ rest c'" "length name = unat nameLen"
    using cursor_bytes_SomeD [OF t(2)] by auto
  show "rest c = encodeField f @ rest c'"
    unfolding encodeField_def t(3)
    using cursor_uint32_SomeD [OF h(1)] byteAt_SomeD [OF h(5)] byteAt_SomeD [OF h(7)] dec(1)
      cursor_uint32_SomeD [OF t(1)] name flag_bits_inv [OF h(8)] kind
    by (simp add: word_of_nat_length_uint)
  show "prev < fld_ID f"
    using h(4) t(3) by simp
  have "length name \<le> MaxValueBytes"
    using name(2) unsigned_less [of nameLen, where ?'a = nat] by (simp add: MaxValueBytes_def)
  then show "field_ok f"
    using h(2,3,6) dec(2) t(3) kind by (simp add: field_ok_def)
qed

lemma decodeFields_encode:
  "\<forall>f\<in>set fs. field_ok f \<Longrightarrow> ascending prev fs \<Longrightarrow> rest c = concat (map encodeField fs) @ r \<Longrightarrow>
    \<exists>c'. decodeFields (length fs) prev c = Inr (fs, c') \<and> rest c' = r"
proof (induction fs arbitrary: prev c)
  case Nil
  then show ?case by simp
next
  case (Cons f fs)
  then obtain c1 where c1: "decodeField prev c = Inr (f, c1)"
      "rest c1 = concat (map encodeField fs) @ r"
    using decodeField_encode [of f prev c "concat (map encodeField fs) @ r"] by auto
  with Cons.IH [of "fld_ID f" c1] Cons.prems show ?case
    by auto
qed

lemma decodeFields_sound:
  "decodeFields n prev c = Inr (fs, c') \<Longrightarrow>
    length fs = n \<and> rest c = concat (map encodeField fs) @ rest c' \<and> ascending prev fs
    \<and> (\<forall>f\<in>set fs. field_ok f)"
proof (induction n arbitrary: prev c fs)
  case (Suc n)
  from Suc.prems obtain f c1 gs where
    h: "decodeField prev c = Inr (f, c1)" "decodeFields n (fld_ID f) c1 = Inr (gs, c')" "fs = f # gs"
    by (auto simp: res_bind_eq_Inr)
  from Suc.IH [OF h(2)] h(3) decodeField_sound [OF h(1)] show ?case
    by auto
qed simp

lemma length_encodeField: "10 \<le> length (encodeField f)"
  by (simp add: encodeField_def)

lemma length_encodeFields: "length fs \<le> length (concat (map encodeField fs))"
proof (induction fs)
  case (Cons f fs)
  then show ?case
    using length_encodeField [of f] by simp
qed simp

lemma decodeDescriptor_encode:
  assumes "fs \<noteq> []" "length fs \<le> MaxValueBytes" "\<forall>f\<in>set fs. field_ok f" "ascending 0 fs"
  shows "decodeDescriptor (encodeDescriptor fs) = Inr fs"
proof -
  let ?count = "word_of_nat (length fs) :: 32 word"
  have count: "unat ?count = length fs" "?count \<noteq> 0"
    using assms(1,2) unat_uint32 [of "length fs"] by (auto simp: MaxValueBytes_def)
  have "rest \<lparr>buf = encodeDescriptor fs, pos = 0\<rparr>
      = descriptorVersion # be32 ?count @ concat (map encodeField fs)"
    by (simp add: rest_def encodeDescriptor_def)
  from byteAt_Cons [OF this] obtain c1 where
    c1: "byteAt \<lparr>buf = encodeDescriptor fs, pos = 0\<rparr> = (Some descriptorVersion, c1)"
      "rest c1 = be32 ?count @ concat (map encodeField fs)" by auto
  from cursor_uint32_append [OF c1(2)] obtain c2 where
    c2: "cursor_uint32 c1 = (Some ?count, c2)" "rest c2 = concat (map encodeField fs)" by auto
  obtain c3 where "decodeFields (length fs) 0 c2 = Inr (fs, c3)" "rest c3 = []"
    using decodeFields_encode [OF assms(3,4), of c2 "[]"] c2(2) by auto
  then show ?thesis
    using length_encodeFields [of fs] count
    by (simp add: decodeDescriptor_def c1(1) c2 remaining_rest)
qed

lemma decodeDescriptor_sound:
  assumes "decodeDescriptor b = Inr fs"
  shows "b = encodeDescriptor fs" "fs \<noteq> []" "length fs \<le> MaxValueBytes"
    "\<forall>f\<in>set fs. field_ok f" "ascending 0 fs"
proof -
  from assms obtain c1 count c2 c3 where
    h: "byteAt \<lparr>buf = b, pos = 0\<rparr> = (Some descriptorVersion, c1)"
      "cursor_uint32 c1 = (Some count, c2)" "count \<noteq> 0"
      "decodeFields (unat count) 0 c2 = Inr (fs, c3)" "remaining c3 = 0"
    by (auto simp: decodeDescriptor_def need_Inr_iff res_bind_eq_Inr split: if_split_asm)
  note fs = decodeFields_sound [OF h(4)]
  have "rest c3 = []"
    using h(5) by (simp add: remaining_rest)
  moreover have "word_of_nat (length fs) = count"
    using fs by simp
  ultimately show "b = encodeDescriptor fs"
    using byteAt_SomeD [OF h(1)] cursor_uint32_SomeD [OF h(2)] fs
    by (simp add: encodeDescriptor_def rest_def)
  show "fs \<noteq> []"
    using fs h(3) by (auto simp: unat_eq_zero)
  show "length fs \<le> MaxValueBytes"
    using fs unsigned_less [of count, where ?'a = nat] by (simp add: MaxValueBytes_def)
  show "\<forall>f\<in>set fs. field_ok f" "ascending 0 fs"
    using fs by auto
qed

text \<open>The invariant of every descriptor: it is what \<open>newDescriptor\<close> builds from its own columns,
  there is at least one, and their ids ascend strictly.\<close>

definition descriptor_ok :: "Descriptor \<Rightarrow> bool" where
  "descriptor_ok d \<longleftrightarrow> d_fields d \<noteq> [] \<and> ascending 0 (d_fields d)
     \<and> newDescriptor '''' (d_fields d) = Inr d"

lemma checkField_table: "checkField t f = None \<longleftrightarrow> checkField t' f = None"
  by (simp add: checkField_def Let_def)

lemma newDescriptor_Inr:
  "newDescriptor t fs = Inr d \<longleftrightarrow> length fs \<le> MaxValueBytes \<and> (\<forall>f\<in>set fs. checkField t f = None)
    \<and> d = \<lparr>d_fields = fs, d_encoded = encodeDescriptor fs,
           d_fp = EncodeToString (sha256 (bytes_of_str fingerprintDomain @ encodeDescriptor fs))\<rparr>"
  by (auto simp: newDescriptor_def Let_def split: option.splits elim: first_error_Some)

lemma newDescriptor_table: "newDescriptor t fs = Inr d \<Longrightarrow> newDescriptor t' fs = Inr d"
  using checkField_table [of t _ t'] by (simp add: newDescriptor_Inr)

lemma newDescriptor_fields: "newDescriptor t fs = Inr d \<Longrightarrow> d_fields d = fs \<and> d_encoded d = encodeDescriptor fs"
  by (auto simp: newDescriptor_Inr)

lemma newDescriptor_field_ok: "newDescriptor t fs = Inr d \<Longrightarrow> \<forall>f\<in>set fs. field_ok f"
  using checkField_ok by (auto simp: newDescriptor_Inr)

lemma descriptor_okD:
  assumes "descriptor_ok d"
  shows "d_fields d \<noteq> []" "ascending 0 (d_fields d)" "length (d_fields d) \<le> MaxValueBytes"
    "\<forall>f\<in>set (d_fields d). checkField t f = None" "\<forall>f\<in>set (d_fields d). field_ok f"
    "d_encoded d = encodeDescriptor (d_fields d)"
    "d_fp d = EncodeToString (sha256 (bytes_of_str fingerprintDomain @ d_encoded d))"
proof -
  have new: "newDescriptor t (d_fields d) = Inr d"
    using assms newDescriptor_table [of "[]" "d_fields d" d t] by (simp add: descriptor_ok_def)
  then show "length (d_fields d) \<le> MaxValueBytes" "\<forall>f\<in>set (d_fields d). checkField t f = None"
    by (simp_all add: newDescriptor_Inr)
  show "\<forall>f\<in>set (d_fields d). field_ok f" "d_encoded d = encodeDescriptor (d_fields d)"
    using newDescriptor_field_ok [OF new] newDescriptor_fields [OF new] by auto
  have "d_fp d = EncodeToString (sha256 (bytes_of_str fingerprintDomain
      @ encodeDescriptor (d_fields d)))"
    using new unfolding newDescriptor_Inr by (metis Descriptor.select_convs(3))
  then show "d_fp d = EncodeToString (sha256 (bytes_of_str fingerprintDomain @ d_encoded d))"
    using newDescriptor_fields [OF new] by simp
  show "d_fields d \<noteq> []" "ascending 0 (d_fields d)"
    using assms by (simp_all add: descriptor_ok_def)
qed

lemma ParseDescriptor_complete: "descriptor_ok d \<Longrightarrow> ParseDescriptor (d_encoded d) = Inr d"
  using decodeDescriptor_encode [OF descriptor_okD(1,3,5,2)]
  by (simp add: ParseDescriptor_def descriptor_okD(6)) (simp add: descriptor_ok_def descriptor_okD(6))

lemma ParseDescriptor_sound:
  assumes "ParseDescriptor b = Inr d"
  shows "descriptor_ok d \<and> d_encoded d = b"
proof -
  from assms obtain fs where
    h: "decodeDescriptor b = Inr fs" "newDescriptor '''' fs = Inr d" "d_encoded d = b"
    by (auto simp: ParseDescriptor_def res_bind_eq_Inr split: if_split_asm)
  then have "d_fields d = fs"
    using newDescriptor_fields by blast
  then show ?thesis
    using h decodeDescriptor_sound(2,5) [OF h(1)] by (simp add: descriptor_ok_def)
qed

text \<open>The comparison of the re-serialized bytes with the input never refuses: the reader alone is
  already canonical.\<close>

lemma ParseDescriptor_recheck:
  assumes "decodeDescriptor b = Inr fs" "newDescriptor '''' fs = Inr d"
  shows "ParseDescriptor b = Inr d"
proof -
  have "d_encoded d = b"
    using decodeDescriptor_sound(1) [OF assms(1)] newDescriptor_fields [OF assms(2)] by simp
  then show ?thesis
    using assms by (simp add: ParseDescriptor_def)
qed

lemma encodeDescriptor_inject:
  "descriptor_ok d \<Longrightarrow> descriptor_ok d' \<Longrightarrow> d_encoded d = d_encoded d' \<Longrightarrow> d = d'"
  by (metis ParseDescriptor_complete sum.inject(2))

section \<open>Deriving a descriptor\<close>

lemma ascending_sorted: "ascending p fs \<longleftrightarrow> sorted_wrt (<) (p # map fld_ID fs)"
proof (induction fs arbitrary: p)
  case (Cons f fs)
  then show ?case by (auto dest: less_trans)
qed simp

lemma duplicateID_None: "sorted (map fld_ID fs) \<Longrightarrow>
    duplicateID fs = None \<longleftrightarrow> sorted_wrt (<) (map fld_ID fs)"
proof (induction fs rule: duplicateID.induct)
  case (1 f g fs)
  then show ?case by (auto dest: le_less_trans less_le_trans order_le_imp_less_or_eq)
qed simp_all

lemma ascending_sort_key: "ascending p fs \<Longrightarrow> sort_key fld_ID fs = fs"
  by (intro sort_key_id_if_sorted) (auto simp: ascending_sorted intro: sorted_wrt_mono_rel [of _ "(<)"])

lemma describeField_type_of_kind:
  "field_ok f \<Longrightarrow> describeField t \<lparr>nf_ID = fld_ID f, nf_Name = fld_Name f, nf_Type = type_of_kind f,
      nf_Required = fld_Required f\<rparr> = Inr f"
  by (cases "fld_Kind f") (auto simp: describeField_def type_of_kind_def field_ok_def)

lemma describeField_fields:
  "describeField t nf = Inr f \<Longrightarrow> fld_ID f = nf_ID nf \<and> fld_Name f = nf_Name nf
     \<and> fld_Required f = nf_Required nf"
  by (auto simp: describeField_def split: option.splits)

lemma describeField_table: "describeField t nf = Inr f \<Longrightarrow> describeField t' nf = Inr f"
  by (auto simp: describeField_def split: option.splits)

text \<open>Success of \<open>FromFields\<close>: every column has a kind, and the columns sorted by id form a
  descriptor.\<close>

lemma FromFields_Inr:
  "FromFields t src = Inr d \<longleftrightarrow>
    (\<exists>fs. map_result (describeField t) src = Inr fs \<and> d_fields d = sort_key fld_ID fs) \<and>
    descriptor_ok d" (is "_ \<longleftrightarrow> ?R")
proof
  assume h: "FromFields t src = Inr d"
  then obtain fs where fs: "map_result (describeField t) src = Inr fs" "src \<noteq> []"
      "duplicateID (sort_key fld_ID fs) = None" "newDescriptor t (sort_key fld_ID fs) = Inr d"
    by (auto simp: FromFields_def res_bind_eq_Inr Let_def split: if_splits option.splits)
  have d: "d_fields d = sort_key fld_ID fs"
    using newDescriptor_fields [OF fs(4)] by simp
  have len: "length fs = length src"
    using fs(1) by (auto simp: map_result_Inr list_all2_lengthD)
  have asc: "ascending 0 (sort_key fld_ID fs)"
    using duplicateID_None [of "sort_key fld_ID fs"] fs(3) newDescriptor_field_ok [OF fs(4)]
    by (auto simp: ascending_sorted field_ok_def)
  have "sort_key fld_ID fs \<noteq> []"
    using len fs(2) by (metis length_0_conv length_sort)
  then show ?R
    using fs(1) d asc newDescriptor_table [OF fs(4)] by (auto simp: descriptor_ok_def)
next
  assume ?R
  then obtain fs where fs: "map_result (describeField t) src = Inr fs"
      "d_fields d = sort_key fld_ID fs" and ok: "descriptor_ok d"
    by blast
  have "newDescriptor t (sort_key fld_ID fs) = Inr d"
    using ok fs(2) newDescriptor_table [of "[]" _ d t] by (simp add: descriptor_ok_def)
  moreover have "duplicateID (sort_key fld_ID fs) = None"
    using descriptor_okD(2) [OF ok] duplicateID_None [of "sort_key fld_ID fs"]
    by (auto simp: fs(2) ascending_sorted)
  moreover have "src \<noteq> []"
    using fs descriptor_okD(1) [OF ok] by (cases src) auto
  ultimately show "FromFields t src = Inr d"
    using fs(1) by (simp add: FromFields_def Let_def)
qed

lemma FromFields_ok: "FromFields t src = Inr d \<Longrightarrow> descriptor_ok d"
  by (simp add: FromFields_Inr)

lemma map_result_describe_IcebergFields:
  "\<forall>f\<in>set fs. field_ok f \<Longrightarrow> map_result (describeField t)
     (map (\<lambda>f. \<lparr>nf_ID = fld_ID f, nf_Name = fld_Name f, nf_Type = type_of_kind f,
               nf_Required = fld_Required f\<rparr>) fs) = Inr fs"
  by (induction fs) (auto simp: describeField_type_of_kind)

lemma FromFields_IcebergFields: "descriptor_ok d \<Longrightarrow> FromFields t (IcebergFields d) = Inr d"
  using map_result_describe_IcebergFields [OF descriptor_okD(5), of d t]
    ascending_sort_key [OF descriptor_okD(2), of d]
  by (auto simp: FromFields_Inr IcebergFields_def)

section \<open>Lookup by id\<close>

lemma index_from_Some:
  "index_from k fid fs = Some i \<Longrightarrow> k \<le> i \<and> i < k + length fs \<and> fld_ID (fs ! (i - k)) = fid"
  by (induction k fid fs rule: index_from.induct) (auto split: if_splits simp: Suc_diff_le)

lemma index_from_None: "index_from k fid fs = None \<longleftrightarrow> fid \<notin> fld_ID ` set fs"
  by (induction k fid fs rule: index_from.induct) auto

lemma index_from_nth:
  "distinct (map fld_ID fs) \<Longrightarrow> j < length fs \<Longrightarrow> index_from k (fld_ID (fs ! j)) fs = Some (k + j)"
proof (induction fs arbitrary: k j)
  case (Cons f fs)
  then show ?case by (cases j) (auto simp: image_iff)
qed simp

lemma IndexOfFieldID_Some:
  "IndexOfFieldID d fid = Some i \<Longrightarrow> i < length (d_fields d) \<and> fld_ID (d_fields d ! i) = fid"
  using index_from_Some [of 0] by (auto simp: IndexOfFieldID_def)

lemma IndexOfFieldID_None: "IndexOfFieldID d fid = None \<longleftrightarrow> fid \<notin> fld_ID ` set (d_fields d)"
  by (simp add: IndexOfFieldID_def index_from_None)

lemma IndexOfFieldID_nth:
  "descriptor_ok d \<Longrightarrow> j < length (d_fields d) \<Longrightarrow> IndexOfFieldID d (fld_ID (d_fields d ! j)) = Some j"
  using descriptor_okD(2) [of d] index_from_nth [of "d_fields d" j 0]
  by (auto simp: IndexOfFieldID_def ascending_sorted strict_sorted_iff)

section \<open>Properties\<close>

lemma map_result_projr:
  "map_result f xs = Inr ys \<longleftrightarrow> (\<forall>x\<in>set xs. \<not> isl (f x)) \<and> ys = map (projr \<circ> f) xs"
proof -
  have "f x = Inr y \<longleftrightarrow> \<not> isl (f x) \<and> y = projr (f x)" for x y
    by (cases "f x") auto
  then have "list_all2 (\<lambda>x y. f x = Inr y) xs ys
      \<longleftrightarrow> (\<forall>x\<in>set xs. \<not> isl (f x)) \<and> ys = map (projr \<circ> f) xs"
    by (induction xs arbitrary: ys) (auto simp: list_all2_Cons1)
  then show ?thesis
    by (simp add: map_result_Inr)
qed

lemma sort_key_mset_unique:
  fixes k :: "'a \<Rightarrow> 'b::linorder"
  assumes "mset xs = mset ys" "distinct (map k xs)"
  shows "sort_key k xs = sort_key k ys"
proof (rule map_sorted_distinct_set_unique)
  have set: "set ys = set xs"
    using assms(1) mset_eq_setD by metis
  have "distinct (map k ys)"
    using assms mset_eq_imp_distinct_iff [of "map k xs" "map k ys"] by simp
  then show "distinct (map k (sort_key k ys))"
    using mset_eq_imp_distinct_iff [of "map k (sort_key k ys)" "map k ys"] by simp
  show "distinct (map k (sort_key k xs))"
    using assms(2) mset_eq_imp_distinct_iff [of "map k (sort_key k xs)" "map k xs"] by simp
  show "inj_on k (set (sort_key k xs) \<union> set (sort_key k ys))"
    using assms(2) set by (simp add: distinct_map)
qed (use mset_eq_setD [OF assms(1)] in simp_all)

text \<open>Two columns in the wrong order, one of them a decimal, and the descriptor they derive.\<close>

definition sample_columns :: "NestedField list" where
  "sample_columns =
    [\<lparr>nf_ID = 2, nf_Name = ''amount'', nf_Type = DecimalType 10 2, nf_Required = False\<rparr>,
     \<lparr>nf_ID = 1, nf_Name = ''id'', nf_Type = Int64Type, nf_Required = True\<rparr>]"

definition sample_fields :: "Field list" where
  "sample_fields =
    [\<lparr>fld_ID = 1, fld_Name = ''id'', fld_Kind = KindLong, fld_Precision = 0, fld_Scale = 0,
      fld_Required = True\<rparr>,
     \<lparr>fld_ID = 2, fld_Name = ''amount'', fld_Kind = KindDecimal, fld_Precision = 10, fld_Scale = 2,
      fld_Required = False\<rparr>]"

definition sample_descriptor :: Descriptor where
  "sample_descriptor = \<lparr>d_fields = sample_fields, d_encoded = encodeDescriptor sample_fields,
     d_fp = EncodeToString (sha256 (bytes_of_str fingerprintDomain @ encodeDescriptor sample_fields))\<rparr>"

lemma sample_new: "newDescriptor t sample_fields = Inr sample_descriptor"
  by (simp add: newDescriptor_Inr sample_descriptor_def sample_fields_def checkField_def Let_def
      MaxInt32_def MaxValueBytes_def maxDecimalPrecision_def)

lemma sample_descriptor_ok: "descriptor_ok sample_descriptor"
  using sample_new by (simp add: descriptor_ok_def sample_descriptor_def) (simp add: sample_fields_def)

lemma sample_FromFields: "FromFields t sample_columns = Inr sample_descriptor"
  using sample_descriptor_ok
  by (simp add: FromFields_Inr sample_columns_def describeField_def sample_descriptor_def
      sample_fields_def insort_key_def)

text \<open>A derived descriptor survives storage: reading its serialized bytes back gives the same
  columns, bytes and fingerprint.\<close>

theorem descriptor_roundtrip:
  "FromFields table src = Inr d \<Longrightarrow> ParseDescriptor (d_encoded d) = Inr d"
  by (rule ParseDescriptor_complete [OF FromFields_ok])

theorem descriptor_roundtrip_witness:
  "ParseDescriptor (d_encoded sample_descriptor) = Inr sample_descriptor"
  by (rule descriptor_roundtrip [OF sample_FromFields])

text \<open>C1: The strict reader accepts exactly the canonical bytes: it returns a descriptor if and only
  if that descriptor satisfies the invariant and the input is its serialized form. So no two byte
  strings describe one shape, and no input is half-read.\<close>

theorem parse_exactly_canonical:
  "ParseDescriptor b = Inr d \<longleftrightarrow> descriptor_ok d \<and> d_encoded d = b"
  using ParseDescriptor_complete ParseDescriptor_sound by blast

text \<open>Declaration order is not identity: any reordering of the columns derives the same
  descriptor, and so the same fingerprint.\<close>

theorem FromFields_order_irrelevant:
  assumes "mset src = mset src'" "FromFields table src = Inr d"
  shows "FromFields table' src' = Inr d"
proof -
  let ?g = "describeField table" and ?g' = "describeField table'"
  from assms(2) obtain fs where fs: "map_result ?g src = Inr fs" "d_fields d = sort_key fld_ID fs"
    and ok: "descriptor_ok d"
    by (auto simp: FromFields_Inr)
  have set: "set src' = set src"
    using assms(1) mset_eq_setD by metis
  have same: "?g' x = ?g x" if "x \<in> set src" for x
    using fs(1) that describeField_table [of table x _ table']
    by (cases "?g x") (auto simp: map_result_projr)
  have fs': "map_result ?g' src' = Inr (map (projr \<circ> ?g) src')"
    using fs(1) same set by (auto simp: map_result_projr)
  have "mset (map (projr \<circ> ?g) src') = mset fs"
    using fs(1) assms(1) by (simp add: map_result_projr)
  moreover have "distinct (map fld_ID fs)"
    using descriptor_okD(2) [OF ok] fs(2)
    by (metis ascending_sorted list.simps(9) mset_eq_imp_distinct_iff mset_map mset_sort
        sorted_wrt.simps(2) strict_sorted_iff)
  ultimately have "sort_key fld_ID (map (projr \<circ> ?g) src') = sort_key fld_ID fs"
    using sort_key_mset_unique by metis
  then show ?thesis
    using fs(2) fs' ok by (auto simp: FromFields_Inr)
qed

theorem FromFields_order_irrelevant_witness:
  "FromFields ''t'' (rev sample_columns) = Inr sample_descriptor"
  by (rule FromFields_order_irrelevant [OF _ sample_FromFields]) simp

text \<open>\<open>IcebergFields\<close> is the inverse of the derivation: the columns it returns for a
  stored descriptor derive that same descriptor again, under any table name.\<close>

theorem IcebergFields_inverse:
  "ParseDescriptor b = Inr d \<Longrightarrow> FromFields table (IcebergFields d) = Inr d"
  using FromFields_IcebergFields ParseDescriptor_sound by blast

theorem IcebergFields_inverse_witness:
  "FromFields ''t'' (IcebergFields sample_descriptor) = Inr sample_descriptor"
  by (rule IcebergFields_inverse [OF ParseDescriptor_complete [OF sample_descriptor_ok]])

text \<open>The fingerprint names the shape: two descriptors with equal fingerprints have equal
  columns, unless their two hash inputs are a collision of SHA-256.\<close>

theorem fingerprint_names_shape:
  assumes "FromFields t src = Inr d" "FromFields t' src' = Inr d'" "d_fp d = d_fp d'"
  shows "d_fields d = d_fields d' \<or>
    (let p = bytes_of_str fingerprintDomain @ d_encoded d;
         p' = bytes_of_str fingerprintDomain @ d_encoded d'
     in p \<noteq> p' \<and> sha256 p = sha256 p')"
  using assms(3) descriptor_okD(7) [OF FromFields_ok [OF assms(1)]]
    descriptor_okD(7) [OF FromFields_ok [OF assms(2)]]
    encodeDescriptor_inject [OF FromFields_ok [OF assms(1)] FromFields_ok [OF assms(2)]]
  by (auto simp: EncodeToString_inject Let_def)

theorem fingerprint_names_shape_witness:
  "d_fields sample_descriptor = d_fields sample_descriptor \<or>
    (let p = bytes_of_str fingerprintDomain @ d_encoded sample_descriptor;
         p' = bytes_of_str fingerprintDomain @ d_encoded sample_descriptor
     in p \<noteq> p' \<and> sha256 p = sha256 p')"
  by (rule fingerprint_names_shape [OF sample_FromFields sample_FromFields refl])

end
