(* ===== verification/CanonRecord.thy ===== *)
theory CanonRecord
  imports Canon
begin

text \<open>Package \<open>internal/canon\<close>, file \<open>record.go\<close>: the canonical payload of one record. A value is
  the dynamic value an \<open>any\<close> holds: the seven Go types a column accepts, or another type. Floats are
  their IEEE bit patterns, which is all the codec looks at. A Go nil is \<open>None\<close>.\<close>

section \<open>Values and rows\<close>

datatype (plugins only: size code) gvalue =
  GBool bool | GInt32 "32 word" | GInt64 "64 word" | GFloat32 "32 word" | GFloat64 "64 word"
| GString string | GBytes bytes | GOther string

type_synonym Row = "gvalue option list"

section \<open>Encode\<close>

definition checkValueLen :: "string \<Rightarrow> Field \<Rightarrow> nat \<Rightarrow> error option" where
  "checkValueLen table f n =
    (if n > MaxValueBytes
     then Some (NewEncodingError EncodingKindValue table (fld_Name f) (fld_ID f)) else None)"

definition wrongType :: "string \<Rightarrow> Field \<Rightarrow> (error, bytes) result" where
  "wrongType table f = Inl (NewEncodingError EncodingKindValue table (fld_Name f) (fld_ID f))"

definition appendPrefixed :: "bytes \<Rightarrow> string \<Rightarrow> Field \<Rightarrow> bytes \<Rightarrow> (error, bytes) result" where
  "appendPrefixed out table f b =
    (case checkValueLen table f (length b) of
       Some e \<Rightarrow> Inl e
     | None \<Rightarrow> Inr (out @ be32 (word_of_nat (length b)) @ b))"

definition appendValue :: "bytes \<Rightarrow> string \<Rightarrow> Field \<Rightarrow> gvalue \<Rightarrow> (error, bytes) result" where
  "appendValue out table f v =
    (case fld_Kind f of
       KindBoolean \<Rightarrow> (case v of GBool b \<Rightarrow> Inr (out @ [if b then 0x01 else 0x00])
                       | _ \<Rightarrow> wrongType table f)
     | KindInt \<Rightarrow> (case v of GInt32 n \<Rightarrow> Inr (out @ be32 n) | _ \<Rightarrow> wrongType table f)
     | KindLong \<Rightarrow> (case v of GInt64 n \<Rightarrow> Inr (out @ be64 n) | _ \<Rightarrow> wrongType table f)
     | KindDecimal \<Rightarrow> (case v of GInt64 n \<Rightarrow> Inr (out @ be64 n) | _ \<Rightarrow> wrongType table f)
     | KindTimestampTz \<Rightarrow> (case v of GInt64 n \<Rightarrow> Inr (out @ be64 n) | _ \<Rightarrow> wrongType table f)
     | KindFloat \<Rightarrow> (case v of GFloat32 x \<Rightarrow> Inr (out @ be32 x) | _ \<Rightarrow> wrongType table f)
     | KindDouble \<Rightarrow> (case v of GFloat64 x \<Rightarrow> Inr (out @ be64 x) | _ \<Rightarrow> wrongType table f)
     | KindString \<Rightarrow> (case v of GString s \<Rightarrow> appendPrefixed out table f (bytes_of_str s)
                      | _ \<Rightarrow> wrongType table f)
     | KindBinary \<Rightarrow> (case v of GBytes b \<Rightarrow> appendPrefixed out table f b | _ \<Rightarrow> wrongType table f)
     | KindOther _ \<Rightarrow>
         Inl (NewEncodingError EncodingKindUnsupportedType table (fld_Name f) (fld_ID f)))"

text \<open>The loop of \<open>Encode\<close> over the columns and their values; the two lists have one length.\<close>

fun encodeColumns :: "string \<Rightarrow> bytes \<Rightarrow> Field list \<Rightarrow> Row \<Rightarrow> (error, bytes) result" where
  "encodeColumns table out (f # fs) (v # vs) =
    (case v of
       None \<Rightarrow>
         if fld_Required f
         then Inl (NewEncodingError EncodingKindValue table (fld_Name f) (fld_ID f))
         else encodeColumns table (out @ [0x00]) fs vs
     | Some x \<Rightarrow>
         res_bind (appendValue (if fld_Required f then out else out @ [0x01]) table f x) (\<lambda>out.
         encodeColumns table out fs vs))"
| "encodeColumns table out _ _ = Inr out"

definition Encode :: "string \<Rightarrow> Descriptor \<Rightarrow> Row \<Rightarrow> (error, bytes) result" where
  "Encode table d row =
    (if length row \<noteq> length (d_fields d) then Inl (NewEncodingError EncodingKindValue table '''' 0)
     else encodeColumns table [encodingVersion] (d_fields d) row)"

text \<open>The capacity guess; no byte depends on it.\<close>

definition encodedSizeHint :: "Descriptor \<Rightarrow> nat" where
  "encodedSizeHint d =
    foldl (\<lambda>n f. n + (if fld_Required f then 0 else 1)
                 + (case fixedWidth (fld_Kind f) of Some w \<Rightarrow> w | None \<Rightarrow> 4 + 16)) 1 (d_fields d)"

section \<open>Decode\<close>

definition readFixed :: "bytes \<Rightarrow> string \<Rightarrow> Field \<Rightarrow> (error, gvalue) result" where
  "readFixed raw table f =
    (case fld_Kind f of
       KindBoolean \<Rightarrow>
         (if raw ! 0 = 0x00 then Inr (GBool False)
          else if raw ! 0 = 0x01 then Inr (GBool True)
          else Inl (NewEncodingError EncodingKindFormat table (fld_Name f) (fld_ID f)))
     | KindInt \<Rightarrow> Inr (GInt32 (un_be32 raw))
     | KindFloat \<Rightarrow> Inr (GFloat32 (un_be32 raw))
     | KindDouble \<Rightarrow> Inr (GFloat64 (un_be64 raw))
     | _ \<Rightarrow> Inr (GInt64 (un_be64 raw)))"

definition readValue :: "cursor \<Rightarrow> string \<Rightarrow> Field \<Rightarrow> (error, gvalue \<times> cursor) result" where
  "readValue c table f =
    (let truncated = NewEncodingError EncodingKindFormat table (fld_Name f) (fld_ID f) in
     case fixedWidth (fld_Kind f) of
       Some width \<Rightarrow>
         need (cursor_bytes (word_of_nat width) c) truncated (\<lambda>raw c.
         res_bind (readFixed raw table f) (\<lambda>v. Inr (v, c)))
     | None \<Rightarrow>
         need (cursor_uint32 c) truncated (\<lambda>n c.
         need (cursor_bytes n c) truncated (\<lambda>raw c.
         Inr (if fld_Kind f = KindString then GString (str_of_bytes raw) else GBytes raw, c))))"

fun decodeColumns :: "string \<Rightarrow> cursor \<Rightarrow> Field list \<Rightarrow> (error, Row \<times> cursor) result" where
  "decodeColumns table c [] = Inr ([], c)"
| "decodeColumns table c (f # fs) =
    (let malformed = NewEncodingError EncodingKindFormat table '''' 0;
         present = (\<lambda>c. res_bind (readValue c table f) (\<lambda>(v, c).
                   res_bind (decodeColumns table c fs) (\<lambda>(row, c). Inr (Some v # row, c))))
     in
     if fld_Required f then present c
     else need (byteAt c) malformed (\<lambda>b c.
       if b = 0x00 then res_bind (decodeColumns table c fs) (\<lambda>(row, c). Inr (None # row, c))
       else if b = 0x01 then present c
       else Inl malformed))"

definition Decode :: "string \<Rightarrow> Descriptor \<Rightarrow> bytes \<Rightarrow> (error, Row) result" where
  "Decode table d payload =
    (let malformed = NewEncodingError EncodingKindFormat table '''' 0 in
     need (byteAt \<lparr>buf = payload, pos = 0\<rparr>) malformed (\<lambda>version c.
     if version \<noteq> encodingVersion then Inl malformed
     else
     res_bind (decodeColumns table c (d_fields d)) (\<lambda>(row, c).
     if remaining c \<noteq> 0 then Inl malformed else Inr row)))"

section \<open>One column\<close>

lemma appendPrefixed_Inr:
  "appendPrefixed out t f b = Inr bs \<longleftrightarrow>
    length b \<le> MaxValueBytes \<and> bs = out @ be32 (word_of_nat (length b)) @ b"
  by (auto simp: appendPrefixed_def checkValueLen_def)

text \<open>\<open>appendValue\<close> only appends.\<close>

lemma appendValue_prefix:
  "appendValue out t f v = Inr bs \<longleftrightarrow> (\<exists>w. appendValue [] t f v = Inr w \<and> bs = out @ w)"
  by (cases "fld_Kind f"; cases v)
    (auto simp: appendValue_def wrongType_def appendPrefixed_Inr)

lemma appendValue_table: "appendValue out t f v = Inr w \<Longrightarrow> appendValue out t' f v = Inr w"
  by (cases "fld_Kind f"; cases v)
    (auto simp: appendValue_def wrongType_def appendPrefixed_Inr)

lemma appendValue_known: "appendValue out t f v = Inr w \<Longrightarrow> knownKind (fld_Kind f) \<noteq> None"
  by (cases "fld_Kind f") (auto simp: appendValue_def)

lemma length_list_1: "length raw = 1 \<Longrightarrow> raw = [raw ! 0]"
  by (cases raw) auto

text \<open>Reading a value undoes writing it, whatever follows.\<close>

lemma readValue_appendValue:
  assumes w: "appendValue [] t f v = Inr w" and c: "rest c = w @ r"
  shows "\<exists>c'. readValue c t' f = Inr (v, c') \<and> rest c' = r"
proof (cases "fixedWidth (fld_Kind f)")
  case (Some width)
  then have "length w = unat (word_of_nat width :: 32 word)"
    and raw: "readFixed w t' f = Inr v"
    using w by (cases "fld_Kind f"; cases v; auto simp: appendValue_def wrongType_def readFixed_def
        appendPrefixed_Inr split: if_splits)+
  from cursor_bytes_append [OF c this(1)] obtain c' where
    "cursor_bytes (word_of_nat width) c = (Some w, c')" "rest c' = r" by auto
  then show ?thesis
    using Some raw by (simp add: readValue_def)
next
  case None
  define b where "b = (case v of GString s \<Rightarrow> bytes_of_str s | GBytes b \<Rightarrow> b | _ \<Rightarrow> [])"
  with None have b: "w = be32 (word_of_nat (length b)) @ b" "length b \<le> MaxValueBytes"
      "v = (if fld_Kind f = KindString then GString (str_of_bytes b) else GBytes b)"
    using w by (cases "fld_Kind f"; cases v; simp add: appendValue_def wrongType_def appendPrefixed_Inr)+
  have "rest c = be32 (word_of_nat (length b)) @ b @ r"
    using b(1) c by simp
  from cursor_uint32_append [OF this] obtain c1 where
    c1: "cursor_uint32 c = (Some (word_of_nat (length b)), c1)" "rest c1 = b @ r" by auto
  have "length b = unat (word_of_nat (length b) :: 32 word)"
    using b(2) unat_uint32 [of "length b"] by (simp add: MaxValueBytes_def)
  from cursor_bytes_append [OF c1(2) this] obtain c2 where
    "cursor_bytes (word_of_nat (length b)) c1 = (Some b, c2)" "rest c2 = r" by auto
  then show ?thesis
    using None b(3) c1(1) by (simp add: readValue_def)
qed

text \<open>What was read is what would be written.\<close>

lemma readFixed_sound:
  assumes "readFixed raw t f = Inr v" "fixedWidth (fld_Kind f) = Some (length raw)"
  shows "appendValue [] t' f v = Inr raw"
  using assms length_list_1 [of raw]
  by (cases "fld_Kind f")
    (auto simp: readFixed_def appendValue_def be32_un_be32 be64_un_be64 split: if_splits)

lemma readValue_sound:
  assumes known: "knownKind (fld_Kind f) \<noteq> None" and "readValue c t f = Inr (v, c')"
  shows "\<exists>w. appendValue [] t' f v = Inr w \<and> rest c = w @ rest c'"
proof (cases "fixedWidth (fld_Kind f)")
  case (Some width)
  then obtain raw where raw: "cursor_bytes (word_of_nat width) c = (Some raw, c')"
      "readFixed raw t f = Inr v"
    using assms(2) by (auto simp: readValue_def need_Inr_iff res_bind_eq_Inr)
  have "unat (word_of_nat width :: 32 word) = width"
    using Some by (cases "fld_Kind f") auto
  then have "fixedWidth (fld_Kind f) = Some (length raw)"
    using Some cursor_bytes_SomeD [OF raw(1)] by simp
  then show ?thesis
    using readFixed_sound [OF raw(2)] cursor_bytes_SomeD [OF raw(1)] by auto
next
  case None
  then obtain n c1 raw where raw: "cursor_uint32 c = (Some n, c1)" "cursor_bytes n c1 = (Some raw, c')"
      "v = (if fld_Kind f = KindString then GString (str_of_bytes raw) else GBytes raw)"
    using assms(2) by (auto simp: readValue_def need_Inr_iff Let_def)
  have len: "length raw = unat n"
    using cursor_bytes_SomeD [OF raw(2)] by simp
  then have "length raw \<le> MaxValueBytes" "word_of_nat (length raw) = n"
    using unsigned_less [of n, where ?'a = nat] by (simp_all add: MaxValueBytes_def)
  then have "appendValue [] t' f v = Inr (be32 n @ raw)"
    using None known raw(3)
    by (cases "fld_Kind f") (auto simp: appendValue_def appendPrefixed_Inr)
  then show ?thesis
    using cursor_uint32_SomeD [OF raw(1)] cursor_bytes_SomeD [OF raw(2)] by auto
qed

section \<open>All columns\<close>

text \<open>The loop only appends, so it is its run on the empty prefix, prefixed.\<close>

lemma encodeColumns_prefix:
  "encodeColumns t out fs row = Inr bs \<longleftrightarrow> (\<exists>w. encodeColumns t [] fs row = Inr w \<and> bs = out @ w)"
proof (induction fs arbitrary: out row bs)
  case (Cons f fs)
  note IH = Cons.IH
  show ?case
  proof (cases row)
    case row: (Cons v vs)
    let ?p = "if fld_Required f then [] else [0x01] :: bytes"
    show ?thesis
    proof (cases v)
      case None
      then show ?thesis
        using IH [of "out @ [0]" vs bs] IH [of "[0]" vs] by (auto simp: row)
    next
      case (Some x)
      have "encodeColumns t out (f # fs) row = Inr bs \<longleftrightarrow>
          (\<exists>w w'. appendValue [] t f x = Inr w \<and> encodeColumns t [] fs vs = Inr w'
             \<and> bs = out @ ?p @ w @ w')" for out bs
        using appendValue_prefix [of "if fld_Required f then out else out @ [1]" t f x]
          IH [of _ vs bs]
        by (auto simp: row Some res_bind_eq_Inr)
      from this [of out bs] this [of "[]"] show ?thesis
        by auto
    qed
  qed auto
qed auto

lemma encodeColumns_Nil:
  "encodeColumns t [] (f # fs) (v # vs) = Inr bs \<longleftrightarrow>
    (\<exists>w. encodeColumns t [] fs vs = Inr w \<and>
      (case v of None \<Rightarrow> \<not> fld_Required f \<and> bs = 0x00 # w
       | Some x \<Rightarrow> (\<exists>u. appendValue [] t f x = Inr u
                       \<and> bs = (if fld_Required f then [] else [0x01]) @ u @ w)))"
  using encodeColumns_prefix [of t "[0]" fs vs bs]
    encodeColumns_prefix [of t _ fs vs bs] appendValue_prefix [of "[1]" t f]
  by (auto simp: res_bind_eq_Inr split: option.split)

lemma encodeColumns_table:
  "encodeColumns t out fs row = Inr w \<Longrightarrow> encodeColumns t' out fs row = Inr w"
proof (induction t out fs row rule: encodeColumns.induct)
  case (1 table out f fs v vs)
  then show ?case
    using appendValue_table [of _ table f _ _ t']
    by (auto simp: res_bind_eq_Inr split: option.splits if_splits)
qed auto

lemma decodeColumns_encode:
  "length row = length fs \<Longrightarrow> encodeColumns t [] fs row = Inr w \<Longrightarrow> rest c = w @ r \<Longrightarrow>
    \<exists>c'. decodeColumns t' c fs = Inr (row, c') \<and> rest c' = r"
proof (induction fs arbitrary: row w c)
  case Nil
  then show ?case by simp
next
  case (Cons f fs)
  then obtain v vs where row: "row = v # vs"
    by (cases row) auto
  from Cons.prems(2) obtain w' where w': "encodeColumns t [] fs vs = Inr w'"
    unfolding row encodeColumns_Nil by blast
  note IH = Cons.IH [OF _ w']
  show ?case
  proof (cases v)
    case None
    then have "\<not> fld_Required f" "rest c = 0 # w' @ r"
      using Cons.prems(2,3) w' unfolding row encodeColumns_Nil by auto
    moreover from byteAt_Cons [OF this(2)] obtain c1 where
      "byteAt c = (Some 0, c1)" "rest c1 = w' @ r" by auto
    moreover from IH [OF _ this(2)] obtain c2 where
      "decodeColumns t' c1 fs = Inr (vs, c2)" "rest c2 = r"
      using Cons.prems(1) row by auto
    ultimately show ?thesis
      by (simp add: row None)
  next
    case (Some x)
    then obtain u where u: "appendValue [] t f x = Inr u"
      and c: "rest c = (if fld_Required f then [] else [1]) @ u @ w' @ r"
      using Cons.prems(2,3) w' unfolding row encodeColumns_Nil by auto
    have present: "\<exists>c3. res_bind (readValue c1 t' f) (\<lambda>(v, c).
        res_bind (decodeColumns t' c fs) (\<lambda>(row, c). Inr (Some v # row, c))) = Inr (row, c3)
        \<and> rest c3 = r" if "rest c1 = u @ w' @ r" for c1
    proof -
      from readValue_appendValue [OF u that] obtain c2 where
        "readValue c1 t' f = Inr (x, c2)" "rest c2 = w' @ r" by auto
      moreover from IH [OF _ this(2)] obtain c3 where
        "decodeColumns t' c2 fs = Inr (vs, c3)" "rest c3 = r"
        using Cons.prems(1) row by auto
      ultimately show ?thesis
        by (simp add: row Some)
    qed
    show ?thesis
    proof (cases "fld_Required f")
      case True
      then show ?thesis
        using present [of c] c by simp
    next
      case False
      then have "rest c = 1 # u @ w' @ r"
        using c by simp
      from byteAt_Cons [OF this] obtain c1 where "byteAt c = (Some 1, c1)" "rest c1 = u @ w' @ r"
        by auto
      then show ?thesis
        using present [of c1] False by simp
    qed
  qed
qed

lemma decodeColumns_sound:
  "\<forall>f\<in>set fs. knownKind (fld_Kind f) \<noteq> None \<Longrightarrow> decodeColumns t c fs = Inr (row, c') \<Longrightarrow>
    length row = length fs \<and> (\<exists>w. encodeColumns t' [] fs row = Inr w \<and> rest c = w @ rest c')"
proof (induction fs arbitrary: row c)
  case Nil
  then show ?case by simp
next
  case (Cons f fs)
  have present: ?case if
    p: "res_bind (readValue c1 t f) (\<lambda>(v, c).
        res_bind (decodeColumns t c fs) (\<lambda>(row, c). Inr (Some v # row, c))) = Inr (row, c')"
    and c1: "rest c = (if fld_Required f then [] else [0x01]) @ rest c1" for c1
  proof -
    from p obtain v c2 vs where v: "readValue c1 t f = Inr (v, c2)"
        "decodeColumns t c2 fs = Inr (vs, c')" "row = Some v # vs"
      by (auto simp: res_bind_eq_Inr)
    from readValue_sound [OF _ v(1), of t'] Cons.prems(1) obtain u where
      u: "appendValue [] t' f v = Inr u" "rest c1 = u @ rest c2" by auto
    from Cons.IH [OF _ v(2)] Cons.prems(1) obtain w where
      w: "length vs = length fs" "encodeColumns t' [] fs vs = Inr w" "rest c2 = w @ rest c'" by auto
    have "encodeColumns t' [] (f # fs) row
        = Inr ((if fld_Required f then [] else [0x01]) @ u @ w)"
      unfolding v(3) encodeColumns_Nil using u(1) w(2) by simp
    then show ?thesis
      using c1 u(2) w(1,3) v(3) by simp
  qed
  show ?case
  proof (cases "fld_Required f")
    case True
    then show ?thesis
      using Cons.prems(2) present [of c] by simp
  next
    case False
    then obtain b c1 where b: "byteAt c = (Some b, c1)"
      and cases: "b = 0 \<and> res_bind (decodeColumns t c1 fs) (\<lambda>(row, c). Inr (None # row, c)) = Inr (row, c')
        \<or> b = 1 \<and> res_bind (readValue c1 t f) (\<lambda>(v, c).
        res_bind (decodeColumns t c fs) (\<lambda>(row, c). Inr (Some v # row, c))) = Inr (row, c')"
      using Cons.prems(2) by (auto simp: need_Inr_iff Let_def split: if_split_asm)
    note rc = byteAt_SomeD [OF b]
    from cases show ?thesis
    proof (elim disjE conjE)
      assume z: "b = 0" "res_bind (decodeColumns t c1 fs) (\<lambda>(row, c). Inr (None # row, c)) = Inr (row, c')"
      then obtain vs where vs: "decodeColumns t c1 fs = Inr (vs, c')" "row = None # vs"
        by (auto simp: res_bind_eq_Inr)
      from Cons.IH [OF _ vs(1)] Cons.prems(1) obtain w where
        "length vs = length fs" "encodeColumns t' [] fs vs = Inr w" "rest c1 = w @ rest c'" by auto
      then show ?thesis
        using False rc z(1) unfolding vs(2) encodeColumns_Nil by simp
    next
      assume "b = 1" "res_bind (readValue c1 t f) (\<lambda>(v, c).
        res_bind (decodeColumns t c fs) (\<lambda>(row, c). Inr (Some v # row, c))) = Inr (row, c')"
      then show ?thesis
        using False rc present [of c1] by simp
    qed
  qed
qed

lemma Encode_Inr:
  "Encode t d row = Inr b \<longleftrightarrow> length row = length (d_fields d)
    \<and> (\<exists>w. encodeColumns t [] (d_fields d) row = Inr w \<and> b = encodingVersion # w)"
  using encodeColumns_prefix [of t "[encodingVersion]" "d_fields d" row b]
  by (auto simp: Encode_def)

lemma Encode_table: "Encode t d row = Inr b \<Longrightarrow> Encode t' d row = Inr b"
  using encodeColumns_table [of t "[]" "d_fields d" row _ t'] by (auto simp: Encode_Inr)

lemma Decode_Encode:
  assumes "Encode t d row = Inr b"
  shows "Decode t' d b = Inr row"
proof -
  from assms obtain w where w: "length row = length (d_fields d)"
      "encodeColumns t [] (d_fields d) row = Inr w" "b = encodingVersion # w"
    by (auto simp: Encode_Inr)
  have "rest \<lparr>buf = b, pos = 0\<rparr> = encodingVersion # w"
    by (simp add: rest_def w)
  from byteAt_Cons [OF this] obtain c1 where
    "byteAt \<lparr>buf = b, pos = 0\<rparr> = (Some encodingVersion, c1)" "rest c1 = w" by auto
  moreover from decodeColumns_encode [OF w(1,2), of c1 "[]" t'] this(2) obtain c2 where
    "decodeColumns t' c1 (d_fields d) = Inr (row, c2)" "rest c2 = []" by auto
  ultimately show ?thesis
    by (simp add: Decode_def remaining_rest)
qed

lemma Encode_Decode:
  assumes "descriptor_ok d" "Decode t d b = Inr row"
  shows "Encode t' d row = Inr b"
proof -
  from assms(2) obtain c1 c2 where
    h: "byteAt \<lparr>buf = b, pos = 0\<rparr> = (Some encodingVersion, c1)"
      "decodeColumns t c1 (d_fields d) = Inr (row, c2)" "rest c2 = []"
    by (auto simp: Decode_def Let_def need_Inr_iff res_bind_eq_Inr remaining_rest split: if_split_asm)
  have "\<forall>f\<in>set (d_fields d). knownKind (fld_Kind f) \<noteq> None"
    using descriptor_okD(5) [OF assms(1)] by (auto simp: field_ok_def)
  from decodeColumns_sound [OF this h(2), of t'] byteAt_SomeD [OF h(1)] h(3) show ?thesis
    by (auto simp: Encode_Inr rest_def)
qed

section \<open>Properties\<close>

definition sample_row :: Row where
  "sample_row = [Some (GInt64 7), Some (GInt64 1250)]"

definition sample_payload :: bytes where
  "sample_payload = [1, 0, 0, 0, 0, 0, 0, 0, 7, 1, 0, 0, 0, 0, 0, 0, 4, 226]"

lemma sample_Encode: "Encode t sample_descriptor sample_row = Inr sample_payload"
  by (simp add: Encode_def sample_descriptor_def sample_fields_def sample_row_def sample_payload_def
      appendValue_def be64_def be32_def encodingVersion_def)

text \<open>C2: Under a recorded shape, reading and writing a payload are inverse in both directions: the
  reader returns a row exactly when writing that row gives back the payload byte for byte, whatever
  table name either call carries. So a payload is read under the shape that wrote it without loss,
  and no two payloads stand for one row.\<close>

theorem payload_roundtrip:
  assumes "ParseDescriptor stored = Inr d"
  shows "Decode table d payload = Inr row \<longleftrightarrow> Encode table' d row = Inr payload"
  using Decode_Encode Encode_Decode ParseDescriptor_sound [OF assms] by blast

theorem payload_roundtrip_witness:
  "Decode ''t'' sample_descriptor sample_payload = Inr sample_row"
  using payload_roundtrip [OF ParseDescriptor_complete [OF sample_descriptor_ok],
      of "''t''" sample_payload sample_row "''t''"] sample_Encode by simp

text \<open>What \<open>Encode\<close> accepts of one value: the one Go type of the column's kind, at most
  \<open>MaxValueBytes\<close> long, and a null only where the column is optional.\<close>

definition value_fits :: "Field \<Rightarrow> gvalue option \<Rightarrow> bool" where
  "value_fits f v = (case v of None \<Rightarrow> \<not> fld_Required f
    | Some (GBool _) \<Rightarrow> fld_Kind f = KindBoolean
    | Some (GInt32 _) \<Rightarrow> fld_Kind f = KindInt
    | Some (GInt64 _) \<Rightarrow> fld_Kind f = KindLong \<or> fld_Kind f = KindDecimal \<or> fld_Kind f = KindTimestampTz
    | Some (GFloat32 _) \<Rightarrow> fld_Kind f = KindFloat
    | Some (GFloat64 _) \<Rightarrow> fld_Kind f = KindDouble
    | Some (GString s) \<Rightarrow> fld_Kind f = KindString \<and> length s \<le> MaxValueBytes
    | Some (GBytes b) \<Rightarrow> fld_Kind f = KindBinary \<and> length b \<le> MaxValueBytes
    | Some (GOther _) \<Rightarrow> False)"

lemma appendValue_fits: "(\<exists>w. appendValue out t f x = Inr w) \<longleftrightarrow> value_fits f (Some x)"
  by (cases "fld_Kind f"; cases x)
    (auto simp: appendValue_def wrongType_def appendPrefixed_Inr value_fits_def)

lemma encodeColumns_fits:
  "length row = length fs \<Longrightarrow>
    (\<exists>w. encodeColumns t [] fs row = Inr w) \<longleftrightarrow> list_all2 value_fits fs row"
proof (induction fs arbitrary: row)
  case (Cons f fs)
  then obtain v vs where row: "row = v # vs"
    by (cases row) auto
  then show ?case
    using Cons.IH [of vs] Cons.prems appendValue_fits [of "[]" t f]
    unfolding row encodeColumns_Nil
    by (cases v) (auto simp: value_fits_def)
qed simp

lemma encode_fits_iff: "(\<exists>b. Encode table d row = Inr b) \<longleftrightarrow> list_all2 value_fits (d_fields d) row"
  using encodeColumns_fits [of row "d_fields d" table] list_all2_lengthD [of value_fits "d_fields d" row]
  by (auto simp: Encode_Inr)

text \<open>\<open>Encode\<close> is total on what the shape admits and refuses everything else: it produces a
  payload if and only if there is one value per column and every value has its column's Go type, fits
  the four-byte length prefix, and is null only in an optional column.\<close>

theorem encode_accepts_iff:
  "(\<exists>b. Encode table d row = Inr b) \<longleftrightarrow> list_all2 value_fits (d_fields d) row"
  by (rule encode_fits_iff)

end
