(* ===== verification/CanonRemap.thy ===== *)
theory CanonRemap
  imports CanonRecord
begin

text \<open>Package \<open>internal/canon\<close>, files \<open>remap.go\<close> and \<open>batch.go\<close>: moving a row between recorded
  shapes by permanent field id, transcoding a payload, and the content hash that names a batch.\<close>

section \<open>Remap and Transcode\<close>

definition stagingSchemaError :: "string \<Rightarrow> int \<Rightarrow> StagingSchemaKind \<Rightarrow> error" where
  "stagingSchemaError table fid kind = EStagingSchema (StagingSchemaError table fid kind)"

definition removedField :: "string \<Rightarrow> Descriptor \<Rightarrow> Field \<Rightarrow> error option" where
  "removedField table to f =
    (case IndexOfFieldID to (fld_ID f) of
       None \<Rightarrow> Some (stagingSchemaError table (fld_ID f) StagingSchemaKindFieldRemoved)
     | Some _ \<Rightarrow> None)"

definition incompatibleField :: "string \<Rightarrow> Descriptor \<Rightarrow> Field \<Rightarrow> error option" where
  "incompatibleField table frm want =
    (case IndexOfFieldID frm (fld_ID want) of
       None \<Rightarrow>
         if fld_Required want
         then Some (stagingSchemaError table (fld_ID want) StagingSchemaKindFieldRequired)
         else None
     | Some j \<Rightarrow>
         (let have = d_fields frm ! j in
          if fld_Kind have \<noteq> fld_Kind want \<or> fld_Precision have \<noteq> fld_Precision want
             \<or> fld_Scale have \<noteq> fld_Scale want
          then Some (stagingSchemaError table (fld_ID want) StagingSchemaKindFieldRetyped)
          else None))"

definition CompatibleShapes :: "string \<Rightarrow> Descriptor \<Rightarrow> Descriptor \<Rightarrow> error option" where
  "CompatibleShapes table frm to =
    (case first_error (removedField table to) (d_fields frm) of
       Some e \<Rightarrow> Some e
     | None \<Rightarrow> first_error (incompatibleField table frm) (d_fields to))"

definition remapColumn :: "string \<Rightarrow> Descriptor \<Rightarrow> Row \<Rightarrow> Field \<Rightarrow> (error, gvalue option) result" where
  "remapColumn table frm row want =
    (case IndexOfFieldID frm (fld_ID want) of
       None \<Rightarrow> Inr None
     | Some j \<Rightarrow>
         if row ! j = None \<and> fld_Required want
         then Inl (stagingSchemaError table (fld_ID want) StagingSchemaKindFieldRequired)
         else Inr (row ! j))"

definition Remap :: "string \<Rightarrow> Descriptor \<Rightarrow> Descriptor \<Rightarrow> Row \<Rightarrow> (error, Row) result" where
  "Remap table frm to row =
    (if length row \<noteq> length (d_fields frm)
     then Inl (NewEncodingError EncodingKindValue table '''' 0)
     else case CompatibleShapes table frm to of
       Some e \<Rightarrow> Inl e
     | None \<Rightarrow> map_result (remapColumn table frm row) (d_fields to))"

definition Transcode :: "string \<Rightarrow> Descriptor \<Rightarrow> Descriptor \<Rightarrow> bytes \<Rightarrow> (error, bytes) result" where
  "Transcode table frm to payload =
    res_bind (Decode table frm payload) (\<lambda>row.
    res_bind (Remap table frm to row) (\<lambda>remapped.
    Encode table to remapped))"

section \<open>The value of a column\<close>

text \<open>The value a row holds for a permanent field id, whatever its position.\<close>

definition value_of :: "Descriptor \<Rightarrow> Row \<Rightarrow> int \<Rightarrow> gvalue option" where
  "value_of d row fid = (case IndexOfFieldID d fid of None \<Rightarrow> None | Some j \<Rightarrow> row ! j)"

text \<open>The type of a column: its kind and, for a decimal, precision and scale.\<close>

definition column_type :: "Field \<Rightarrow> Kind \<times> int \<times> int" where
  "column_type f = (fld_Kind f, fld_Precision f, fld_Scale f)"

text \<open>What \<open>CompatibleShapes\<close> decides, without its loops.\<close>

definition compatible :: "Descriptor \<Rightarrow> Descriptor \<Rightarrow> bool" where
  "compatible frm to \<longleftrightarrow>
    fld_ID ` set (d_fields frm) \<subseteq> fld_ID ` set (d_fields to) \<and>
    (\<forall>w\<in>set (d_fields to). fld_Required w \<longrightarrow> fld_ID w \<in> fld_ID ` set (d_fields frm)) \<and>
    (\<forall>f\<in>set (d_fields frm). \<forall>w\<in>set (d_fields to). fld_ID f = fld_ID w \<longrightarrow> column_type f = column_type w)"

lemma IndexOfFieldID_mem:
  assumes "descriptor_ok d" "f \<in> set (d_fields d)"
  shows "\<exists>j. IndexOfFieldID d (fld_ID f) = Some j \<and> j < length (d_fields d) \<and> d_fields d ! j = f"
  using assms(2) IndexOfFieldID_nth [OF assms(1)] by (auto simp: in_set_conv_nth)

lemma incompatibleField_None:
  assumes "descriptor_ok frm"
  shows "incompatibleField t frm w = None \<longleftrightarrow>
    (fld_Required w \<longrightarrow> fld_ID w \<in> fld_ID ` set (d_fields frm)) \<and>
    (\<forall>f\<in>set (d_fields frm). fld_ID f = fld_ID w \<longrightarrow> column_type f = column_type w)"
proof (cases "IndexOfFieldID frm (fld_ID w)")
  case None
  then have "\<forall>f\<in>set (d_fields frm). fld_ID f \<noteq> fld_ID w"
    by (auto simp: IndexOfFieldID_None image_iff)
  then show ?thesis
    using None by (auto simp: incompatibleField_def image_iff)
next
  case (Some j)
  then have j: "j < length (d_fields frm)" "fld_ID (d_fields frm ! j) = fld_ID w"
    using IndexOfFieldID_Some by auto
  let ?have = "d_fields frm ! j"
  have mem: "?have \<in> set (d_fields frm)"
    using j(1) by simp
  have uniq: "\<forall>f\<in>set (d_fields frm). fld_ID f = fld_ID w \<longrightarrow> f = ?have"
    using IndexOfFieldID_mem [OF assms] Some by fastforce
  have "(\<forall>f\<in>set (d_fields frm). fld_ID f = fld_ID w \<longrightarrow> column_type f = column_type w)
      \<longleftrightarrow> column_type ?have = column_type w"
    using mem uniq j(2) by metis
  moreover have "fld_ID w \<in> fld_ID ` set (d_fields frm)"
    using mem j(2) by (metis image_eqI)
  moreover have "incompatibleField t frm w = None \<longleftrightarrow> column_type ?have = column_type w"
    using Some by (simp add: incompatibleField_def column_type_def Let_def)
  ultimately show ?thesis
    by simp
qed

lemma removedField_None:
  "removedField t to f = None \<longleftrightarrow> fld_ID f \<in> fld_ID ` set (d_fields to)"
  using IndexOfFieldID_None [of to "fld_ID f"]
  by (cases "IndexOfFieldID to (fld_ID f)") (simp_all add: removedField_def)

lemma CompatibleShapes_None:
  assumes "descriptor_ok frm"
  shows "CompatibleShapes t frm to = None \<longleftrightarrow> compatible frm to"
proof -
  have "CompatibleShapes t frm to = None \<longleftrightarrow>
      (\<forall>f\<in>set (d_fields frm). removedField t to f = None)
      \<and> (\<forall>w\<in>set (d_fields to). incompatibleField t frm w = None)"
    by (auto simp: CompatibleShapes_def simp flip: first_error_None split: option.split)
  then show ?thesis
    by (auto simp: compatible_def incompatibleField_None [OF assms] removedField_None)
qed

lemma Remap_Inr:
  "Remap t frm to row = Inr out \<longleftrightarrow> length row = length (d_fields frm)
    \<and> CompatibleShapes t frm to = None \<and> length out = length (d_fields to)
    \<and> (\<forall>i<length out. remapColumn t frm row (d_fields to ! i) = Inr (out ! i))"
  by (auto simp: Remap_def map_result_Inr list_all2_conv_all_nth split: option.splits)

lemma remapColumn_Inr:
  "remapColumn t frm row want = Inr v \<longleftrightarrow> v = value_of frm row (fld_ID want)
    \<and> (fld_Required want \<longrightarrow> IndexOfFieldID frm (fld_ID want) \<noteq> None \<longrightarrow> v \<noteq> None)"
  by (auto simp: remapColumn_def value_of_def split: option.splits)

lemma value_of_Remap:
  assumes ok: "descriptor_ok frm" "descriptor_ok to" and remap: "Remap t frm to row = Inr out"
  shows "value_of to out fid = value_of frm row fid"
proof (cases "IndexOfFieldID to fid")
  case None
  then have "IndexOfFieldID frm fid = None"
    using remap CompatibleShapes_None [OF ok(1)]
    by (auto simp: Remap_Inr compatible_def IndexOfFieldID_None)
  then show ?thesis
    using None by (simp add: value_of_def)
next
  case (Some i)
  then have i: "i < length (d_fields to)" "fld_ID (d_fields to ! i) = fid"
    using IndexOfFieldID_Some by auto
  then show ?thesis
    using Some remap by (auto simp: Remap_Inr remapColumn_Inr value_of_def)
qed

lemma Remap_iff:
  assumes ok: "descriptor_ok frm" "descriptor_ok to"
  shows "Remap t frm to row = Inr out \<longleftrightarrow>
    compatible frm to \<and> length row = length (d_fields frm) \<and> length out = length (d_fields to)
    \<and> (\<forall>w\<in>set (d_fields to). fld_Required w \<longrightarrow> value_of frm row (fld_ID w) \<noteq> None)
    \<and> (\<forall>fid. value_of to out fid = value_of frm row fid)" (is "?L \<longleftrightarrow> ?R")
proof
  assume L: ?L
  have "value_of frm row (fld_ID w) \<noteq> None" if w: "w \<in> set (d_fields to)" "fld_Required w" for w
  proof -
    from w(1) obtain i where "i < length (d_fields to)" "w = d_fields to ! i"
      by (auto simp: in_set_conv_nth)
    then have "remapColumn t frm row w = Inr (out ! i)"
      using L by (simp add: Remap_Inr)
    moreover have "IndexOfFieldID frm (fld_ID w) \<noteq> None"
      using w L CompatibleShapes_None [OF ok(1)]
      by (auto simp: Remap_Inr compatible_def IndexOfFieldID_None simp del: not_None_eq)
    ultimately show ?thesis
      using w(2) unfolding remapColumn_Inr by metis
  qed
  then show ?R
    using L CompatibleShapes_None [OF ok(1)] value_of_Remap [OF ok L] by (auto simp: Remap_Inr)
next
  assume R: ?R
  have "remapColumn t frm row (d_fields to ! i) = Inr (out ! i)" if i: "i < length out" for i
  proof -
    let ?w = "d_fields to ! i"
    have "IndexOfFieldID to (fld_ID ?w) = Some i"
      using i R IndexOfFieldID_nth [OF ok(2)] by simp
    then have "out ! i = value_of to out (fld_ID ?w)"
      by (simp add: value_of_def)
    moreover have "?w \<in> set (d_fields to)"
      using i R by simp
    ultimately show ?thesis
      using R by (auto simp: remapColumn_Inr)
  qed
  then show ?L
    using R CompatibleShapes_None [OF ok(1)] by (simp add: Remap_Inr)
qed

text \<open>A row is determined by its values per id.\<close>

lemma row_ext:
  assumes "descriptor_ok d" "length r = length (d_fields d)" "length r' = length (d_fields d)"
    and "\<And>fid. value_of d r fid = value_of d r' fid"
  shows "r = r'"
proof (rule nth_equalityI)
  fix i
  assume "i < length r"
  then have "IndexOfFieldID d (fld_ID (d_fields d ! i)) = Some i"
    using IndexOfFieldID_nth [OF assms(1)] assms(2) by simp
  then show "r ! i = r' ! i"
    using assms(4) [of "fld_ID (d_fields d ! i)"] by (simp add: value_of_def)
qed (use assms in simp)

lemma value_fits_type:
  "column_type f = column_type w \<Longrightarrow> value_fits f (Some x) \<Longrightarrow> value_fits w (Some x)"
  by (cases x) (auto simp: value_fits_def column_type_def)

text \<open>A remapped row always encodes: nothing between \<open>Decode\<close> and \<open>Encode\<close> can break a value.\<close>

lemma Remap_fits:
  assumes ok: "descriptor_ok frm" "descriptor_ok to" and remap: "Remap t frm to row = Inr out"
    and fits: "list_all2 value_fits (d_fields frm) row"
  shows "list_all2 value_fits (d_fields to) out"
proof (rule list_all2_all_nthI)
  show "length (d_fields to) = length out"
    using remap by (simp add: Remap_Inr)
next
  fix i
  assume i: "i < length (d_fields to)"
  let ?w = "d_fields to ! i"
  have w: "?w \<in> set (d_fields to)"
    using i by simp
  have IDX: "IndexOfFieldID to (fld_ID ?w) = Some i"
    using IndexOfFieldID_nth [OF ok(2) i] .
  then have out: "out ! i = value_of frm row (fld_ID ?w)"
    using value_of_Remap [OF ok remap, of "fld_ID ?w"] by (simp add: value_of_def)
  note R = remap [unfolded Remap_iff [OF ok]]
  show "value_fits ?w (out ! i)"
  proof (cases "out ! i")
    case None
    then show ?thesis
      using R w out by (auto simp: value_fits_def)
  next
    case (Some x)
    then obtain j where j: "IndexOfFieldID frm (fld_ID ?w) = Some j" "row ! j = Some x"
      using out by (auto simp: value_of_def split: option.splits)
    then have "j < length (d_fields frm)" "fld_ID (d_fields frm ! j) = fld_ID ?w"
      using IndexOfFieldID_Some by auto
    moreover from this have "value_fits (d_fields frm ! j) (row ! j)"
      using fits by (simp add: list_all2_nthD)
    ultimately show ?thesis
      using R w j(2) Some value_fits_type [of "d_fields frm ! j" ?w x]
      by (auto simp: compatible_def)
  qed
qed

lemma Transcode_iff:
  assumes ok: "descriptor_ok frm" "descriptor_ok to"
  shows "Transcode t frm to p = Inr q \<longleftrightarrow>
    (\<exists>row out. Decode t frm p = Inr row \<and> Remap t frm to row = Inr out \<and> Decode t to q = Inr out)"
proof -
  have "Encode t to out = Inr q \<longleftrightarrow> Decode t to q = Inr out" for out
    using Decode_Encode Encode_Decode [OF ok(2)] by blast
  then show ?thesis
    by (auto simp: Transcode_def res_bind_eq_Inr)
qed

lemma Decode_fits: "descriptor_ok d \<Longrightarrow> Decode t d p = Inr row \<Longrightarrow> list_all2 value_fits (d_fields d) row"
  using Encode_Decode encode_fits_iff by blast

section \<open>The batch hash\<close>

definition batchDomain :: string where
  "batchDomain = ''icelake/batch/v1'' @ [CHR 0x0A]"

text \<open>The closure \<open>writeChunk\<close>: a length prefix and the bytes.\<close>

definition writeChunk :: "bytes \<Rightarrow> bytes" where
  "writeChunk b = be32 (word_of_nat (length b)) @ b"

definition batchInput :: "string \<Rightarrow> string \<Rightarrow> Descriptor \<Rightarrow> bytes list \<Rightarrow> bytes" where
  "batchInput namespace table d payloads =
     bytes_of_str batchDomain
     @ writeChunk (bytes_of_str namespace) @ writeChunk (bytes_of_str table)
     @ writeChunk (d_encoded d)
     @ be64 (word_of_nat (length payloads))
     @ concat (map writeChunk payloads)"

definition BatchHash :: "string \<Rightarrow> string \<Rightarrow> Descriptor \<Rightarrow> bytes list \<Rightarrow> (error, string) result" where
  "BatchHash namespace table d payloads =
    (if payloads = [] then Inl (NewEncodingError EncodingKindEmptyBatch table '''' 0)
     else if (\<exists>s\<in>set [namespace, table]. length s > MaxValueBytes)
     then Inl (NewEncodingError EncodingKindValue table '''' 0)
     else if length (d_encoded d) > MaxValueBytes
     then Inl (NewEncodingError EncodingKindValue table '''' 0)
     else if (\<exists>p\<in>set payloads. length p > MaxValueBytes)
     then Inl (NewEncodingError EncodingKindValue table '''' 0)
     else Inr (EncodeToString (sha256 (batchInput namespace table d payloads))))"

lemma writeChunk_append:
  assumes "length a \<le> MaxValueBytes" "length b \<le> MaxValueBytes" "writeChunk a @ r = writeChunk b @ s"
  shows "a = b \<and> r = s"
proof -
  from assms(3) have len: "be32 (word_of_nat (length a)) = be32 (word_of_nat (length b))"
    and rest: "a @ r = b @ s"
    by (simp_all add: writeChunk_def)
  then have "unat (word_of_nat (length a) :: 32 word) = unat (word_of_nat (length b) :: 32 word)"
    by simp
  then have "length a = length b"
    using assms(1,2) by (simp add: MaxValueBytes_def unat_uint32)
  then show ?thesis
    using rest by simp
qed

lemma concat_writeChunk_inject:
  "\<forall>p\<in>set ps. length p \<le> MaxValueBytes \<Longrightarrow> \<forall>p\<in>set qs. length p \<le> MaxValueBytes \<Longrightarrow>
    concat (map writeChunk ps) = concat (map writeChunk qs) \<Longrightarrow> ps = qs"
proof (induction ps arbitrary: qs)
  case Nil
  then show ?case
    by (cases qs) (auto simp: writeChunk_def be32_def)
next
  case (Cons p ps)
  then obtain q qs' where qs: "qs = q # qs'"
    by (cases qs) (auto simp: writeChunk_def be32_def)
  have "p = q \<and> concat (map writeChunk ps) = concat (map writeChunk qs')"
    by (rule writeChunk_append) (use Cons.prems qs in simp_all)
  moreover from this have "ps = qs'"
    by (intro Cons.IH) (use Cons.prems qs in simp_all)
  ultimately show ?case
    using qs by simp
qed

lemma batchInput_inject:
  assumes "\<forall>p\<in>set ps. length p \<le> MaxValueBytes" "\<forall>p\<in>set ps'. length p \<le> MaxValueBytes"
    and "length ns \<le> MaxValueBytes" "length ns' \<le> MaxValueBytes"
    and "length t \<le> MaxValueBytes" "length t' \<le> MaxValueBytes"
    and "length (d_encoded d) \<le> MaxValueBytes" "length (d_encoded d') \<le> MaxValueBytes"
    and "batchInput ns t d ps = batchInput ns' t' d' ps'"
  shows "ns = ns' \<and> t = t' \<and> d_encoded d = d_encoded d' \<and> ps = ps'"
proof -
  from assms(9) have e: "writeChunk (bytes_of_str ns) @ writeChunk (bytes_of_str t)
      @ writeChunk (d_encoded d) @ be64 (word_of_nat (length ps)) @ concat (map writeChunk ps)
    = writeChunk (bytes_of_str ns') @ writeChunk (bytes_of_str t')
      @ writeChunk (d_encoded d') @ be64 (word_of_nat (length ps')) @ concat (map writeChunk ps')"
    by (simp add: batchInput_def)
  note e1 = writeChunk_append [OF _ _ e, simplified, OF assms(3,4)]
  note e2 = writeChunk_append [OF _ _ e1 [THEN conjunct2], simplified, OF assms(5,6)]
  note e3 = writeChunk_append [OF assms(7,8) e2 [THEN conjunct2]]
  show ?thesis
    using e1 e2 e3 concat_writeChunk_inject [OF assms(1,2)] by simp
qed

lemma BatchHash_Inr:
  "BatchHash ns t d ps = Inr k \<longleftrightarrow> ps \<noteq> [] \<and> length ns \<le> MaxValueBytes \<and> length t \<le> MaxValueBytes
    \<and> length (d_encoded d) \<le> MaxValueBytes \<and> (\<forall>p\<in>set ps. length p \<le> MaxValueBytes)
    \<and> k = EncodeToString (sha256 (batchInput ns t d ps))"
  by (auto simp: BatchHash_def not_less dest: leD)

section \<open>Properties\<close>

text \<open>The sample shape after a deploy that renamed column 2 and added an optional column 3.\<close>

definition sample_fields2 :: "Field list" where
  "sample_fields2 =
    [\<lparr>fld_ID = 1, fld_Name = ''id'', fld_Kind = KindLong, fld_Precision = 0, fld_Scale = 0,
      fld_Required = True\<rparr>,
     \<lparr>fld_ID = 2, fld_Name = ''price'', fld_Kind = KindDecimal, fld_Precision = 10, fld_Scale = 2,
      fld_Required = False\<rparr>,
     \<lparr>fld_ID = 3, fld_Name = ''note'', fld_Kind = KindString, fld_Precision = 0, fld_Scale = 0,
      fld_Required = False\<rparr>]"

definition sample_descriptor2 :: Descriptor where
  "sample_descriptor2 = \<lparr>d_fields = sample_fields2, d_encoded = encodeDescriptor sample_fields2,
     d_fp = EncodeToString (sha256 (bytes_of_str fingerprintDomain @ encodeDescriptor sample_fields2))\<rparr>"

lemma sample_descriptor2_ok: "descriptor_ok sample_descriptor2"
  unfolding descriptor_ok_def newDescriptor_Inr
  by (simp add: sample_descriptor2_def) (simp add: sample_fields2_def checkField_def Let_def
      MaxInt32_def MaxValueBytes_def maxDecimalPrecision_def)

lemma sample_parses:
  "ParseDescriptor (d_encoded sample_descriptor) = Inr sample_descriptor"
  "ParseDescriptor (d_encoded sample_descriptor2) = Inr sample_descriptor2"
  by (simp_all add: ParseDescriptor_complete sample_descriptor_ok sample_descriptor2_ok)

lemma sample_Remap:
  "Remap t sample_descriptor sample_descriptor2 sample_row = Inr (sample_row @ [None])"
  by (simp add: Remap_def sample_row_def CompatibleShapes_def removedField_def incompatibleField_def
      remapColumn_def IndexOfFieldID_def sample_descriptor_def sample_descriptor2_def
      sample_fields_def sample_fields2_def Let_def)

lemma sample_Decode: "Decode t sample_descriptor sample_payload = Inr sample_row"
  using Decode_Encode [OF sample_Encode] .

lemma sample_Transcode:
  "Transcode t sample_descriptor sample_descriptor2 sample_payload = Inr (sample_payload @ [0])"
  unfolding Transcode_def sample_Decode res_bind_simps sample_Remap
  by (simp add: Encode_def sample_descriptor2_def sample_fields2_def sample_row_def sample_payload_def
      appendValue_def be64_def be32_def encodingVersion_def)

text \<open>C3: Rows move between recorded shapes by permanent id only. \<open>Remap\<close> returns a row exactly when
  the shapes are compatible (nothing dropped, nothing required invented, nothing retyped) and every
  required column has a value; the row it returns is the one that holds, for every id, the value the
  source row held.\<close>

theorem remap_by_id:
  assumes "ParseDescriptor b = Inr frm" "ParseDescriptor b' = Inr to"
  shows "Remap table frm to row = Inr out \<longleftrightarrow>
    compatible frm to \<and> length row = length (d_fields frm) \<and> length out = length (d_fields to)
    \<and> (\<forall>w\<in>set (d_fields to). fld_Required w \<longrightarrow> value_of frm row (fld_ID w) \<noteq> None)
    \<and> (\<forall>fid. value_of to out fid = value_of frm row fid)"
  using Remap_iff assms ParseDescriptor_sound by blast

theorem remap_by_id_witness:
  "compatible sample_descriptor sample_descriptor2 \<and>
   value_of sample_descriptor2 (sample_row @ [None]) 2 = Some (GInt64 1250)"
  using remap_by_id [OF sample_parses, of "''t''" sample_row "sample_row @ [None]"] sample_Remap
  by (simp add: value_of_def IndexOfFieldID_def sample_descriptor2_def sample_fields2_def sample_row_def)

text \<open>The shape check a writer runs before it opens decides compatibility exactly: it reports no
  error if and only if no staged column is dropped, none is retyped and no new column is required;
  and a dropped column is reported before anything else.\<close>

theorem compatible_shapes_decides:
  assumes "ParseDescriptor b = Inr frm"
  shows "(CompatibleShapes table frm to = None \<longleftrightarrow> compatible frm to)
    \<and> (\<not> fld_ID ` set (d_fields frm) \<subseteq> fld_ID ` set (d_fields to) \<longrightarrow>
        (\<exists>f\<in>set (d_fields frm). fld_ID f \<notin> fld_ID ` set (d_fields to) \<and>
          CompatibleShapes table frm to
            = Some (stagingSchemaError table (fld_ID f) StagingSchemaKindFieldRemoved)))"
proof (intro conjI impI)
  show "CompatibleShapes table frm to = None \<longleftrightarrow> compatible frm to"
    using CompatibleShapes_None ParseDescriptor_sound [OF assms] by blast
next
  assume "\<not> fld_ID ` set (d_fields frm) \<subseteq> fld_ID ` set (d_fields to)"
  then have "first_error (removedField table to) (d_fields frm) \<noteq> None"
    using first_error_None [of "removedField table to"] removedField_None by fastforce
  then obtain e where e: "first_error (removedField table to) (d_fields frm) = Some e"
    by blast
  from first_error_Some [OF this] obtain f where f: "f \<in> set (d_fields frm)"
      "removedField table to f = Some e" .
  then have "e = stagingSchemaError table (fld_ID f) StagingSchemaKindFieldRemoved"
      "fld_ID f \<notin> fld_ID ` set (d_fields to)"
    using removedField_None [of table to f]
    by (auto simp: removedField_def split: option.splits)
  then show "\<exists>f\<in>set (d_fields frm). fld_ID f \<notin> fld_ID ` set (d_fields to) \<and>
      CompatibleShapes table frm to
        = Some (stagingSchemaError table (fld_ID f) StagingSchemaKindFieldRemoved)"
    using e f(1) by (auto simp: CompatibleShapes_def)
qed

theorem compatible_shapes_decides_witness:
  "CompatibleShapes ''t'' sample_descriptor2 sample_descriptor
     = Some (stagingSchemaError ''t'' 3 StagingSchemaKindFieldRemoved)"
  using compatible_shapes_decides [OF sample_parses(2), of "''t''" sample_descriptor]
  by (simp add: sample_descriptor_def sample_descriptor2_def sample_fields_def sample_fields2_def)

text \<open>Transcoding succeeds exactly on a payload that decodes under its own shape, onto a
  compatible shape whose required columns all have a value; it never fails at the final encode.\<close>

theorem transcode_succeeds_iff:
  assumes "ParseDescriptor b = Inr frm" "ParseDescriptor b' = Inr to"
  shows "(\<exists>q. Transcode table frm to p = Inr q) \<longleftrightarrow>
    (\<exists>row. Decode table frm p = Inr row \<and> compatible frm to \<and>
      (\<forall>w\<in>set (d_fields to). fld_Required w \<longrightarrow> value_of frm row (fld_ID w) \<noteq> None))"
    (is "?L \<longleftrightarrow> ?R")
proof -
  have ok: "descriptor_ok frm" "descriptor_ok to"
    using assms ParseDescriptor_sound by blast+
  have step: "(\<exists>out. Remap table frm to row = Inr out) \<longleftrightarrow> compatible frm to \<and>
      (\<forall>w\<in>set (d_fields to). fld_Required w \<longrightarrow> value_of frm row (fld_ID w) \<noteq> None)"
    if row: "Decode table frm row' = Inr row" for row row'
  proof -
    have len: "length row = length (d_fields frm)"
      using Decode_fits [OF ok(1) row] by (simp add: list_all2_lengthD)
    show ?thesis
    proof
      assume R: "compatible frm to \<and>
        (\<forall>w\<in>set (d_fields to). fld_Required w \<longrightarrow> value_of frm row (fld_ID w) \<noteq> None)"
      let ?out = "map (\<lambda>w. value_of frm row (fld_ID w)) (d_fields to)"
      have "map_result (remapColumn table frm row) (d_fields to) = Inr ?out"
        using R by (auto simp: map_result_Inr list_all2_conv_all_nth remapColumn_Inr)
      moreover have "CompatibleShapes table frm to = None"
        using R CompatibleShapes_None [OF ok(1)] by blast
      ultimately show "\<exists>out. Remap table frm to row = Inr out"
        using len by (simp add: Remap_def)
    qed (auto simp: Remap_iff [OF ok])
  qed
  have "?L \<longleftrightarrow> (\<exists>row. Decode table frm p = Inr row \<and> (\<exists>out. Remap table frm to row = Inr out))"
    using Remap_fits [OF ok] Decode_fits [OF ok(1)] encode_fits_iff [of table to]
    by (fastforce simp: Transcode_def res_bind_eq_Inr)
  then show ?thesis
    using step by blast
qed

theorem transcode_succeeds_iff_witness:
  "\<exists>q. Transcode ''t'' sample_descriptor sample_descriptor2 sample_payload = Inr q"
proof -
  have "compatible sample_descriptor sample_descriptor2"
    by (simp add: compatible_def column_type_def sample_descriptor_def sample_descriptor2_def
        sample_fields_def sample_fields2_def)
  moreover have "\<forall>w\<in>set (d_fields sample_descriptor2). fld_Required w \<longrightarrow>
      value_of sample_descriptor sample_row (fld_ID w) \<noteq> None"
    by (simp add: value_of_def IndexOfFieldID_def sample_descriptor_def sample_descriptor2_def
        sample_fields_def sample_fields2_def sample_row_def)
  ultimately show ?thesis
    using transcode_succeeds_iff [OF sample_parses, of "''t''" sample_payload] sample_Decode by blast
qed

text \<open>C4: Transcoding loses nothing and takes no detour: the payload it produces decodes under the new
  shape to a row with the same value for every id; and going through an intermediate shape gives the
  same bytes as going directly, so a row recoded by two deploys is the row recoded by one.\<close>

theorem transcode_composes:
  assumes "ParseDescriptor b1 = Inr d1" "ParseDescriptor b2 = Inr d2" "ParseDescriptor b3 = Inr d3"
    and "Transcode table d1 d2 p = Inr q" "Transcode table d2 d3 q = Inr r"
  shows "Transcode table d1 d3 p = Inr r \<and>
    (\<exists>row out. Decode table d1 p = Inr row \<and> Decode table d3 r = Inr out
       \<and> (\<forall>fid. value_of d3 out fid = value_of d1 row fid))"
proof -
  have ok: "descriptor_ok d1" "descriptor_ok d2" "descriptor_ok d3"
    using assms(1-3) ParseDescriptor_sound by blast+
  from assms(4,5) obtain row mid out where
    h: "Decode table d1 p = Inr row" "Remap table d1 d2 row = Inr mid" "Decode table d2 q = Inr mid"
      "Remap table d2 d3 mid = Inr out" "Decode table d3 r = Inr out"
    by (auto simp: Transcode_iff ok)
  note r12 = h(2) [unfolded Remap_iff [OF ok(1,2)]] and r23 = h(4) [unfolded Remap_iff [OF ok(2,3)]]
  have "fld_ID w \<in> fld_ID ` set (d_fields d1)" if "w \<in> set (d_fields d3)" "fld_Required w" for w
  proof -
    have "value_of d1 row (fld_ID w) \<noteq> None"
      using r12 r23 that by metis
    then show ?thesis
      using IndexOfFieldID_None [of d1 "fld_ID w"] by (auto simp: value_of_def split: option.splits)
  qed
  moreover have "column_type f = column_type w"
    if "f \<in> set (d_fields d1)" "w \<in> set (d_fields d3)" "fld_ID f = fld_ID w" for f w
  proof -
    have "fld_ID f \<in> fld_ID ` set (d_fields d2)"
      using r12 that(1) by (auto simp: compatible_def)
    then obtain g where g: "g \<in> set (d_fields d2)" "fld_ID g = fld_ID f"
      by (metis imageE)
    then have "column_type f = column_type g"
      using r12 that(1) by (simp add: compatible_def)
    moreover have "column_type g = column_type w"
      using r23 g that(2,3) by (simp add: compatible_def)
    ultimately show ?thesis
      by simp
  qed
  moreover have "fld_ID ` set (d_fields d1) \<subseteq> fld_ID ` set (d_fields d3)"
    using r12 r23 unfolding compatible_def by (metis order_trans)
  ultimately have "compatible d1 d3"
    by (simp add: compatible_def)
  then have "Remap table d1 d3 row = Inr out"
    using r12 r23 by (simp add: Remap_iff [OF ok(1,3)])
  then show ?thesis
    using h r12 r23 by (auto simp: Transcode_iff ok)
qed

theorem transcode_composes_witness:
  "Transcode ''t'' sample_descriptor sample_descriptor2 sample_payload = Inr (sample_payload @ [0])"
proof -
  have "Decode ''t'' sample_descriptor2 (sample_payload @ [0]) = Inr (sample_row @ [None])"
    using sample_Transcode [of "''t''"] sample_Decode [of "''t''"] sample_Remap [of "''t''"]
    by (auto simp: Transcode_iff sample_descriptor_ok sample_descriptor2_ok)
  moreover have "Remap ''t'' sample_descriptor2 sample_descriptor2 (sample_row @ [None])
      = Inr (sample_row @ [None])"
    by (simp add: Remap_def sample_row_def CompatibleShapes_def removedField_def incompatibleField_def
        remapColumn_def IndexOfFieldID_def sample_descriptor2_def sample_fields2_def Let_def)
  ultimately have "Transcode ''t'' sample_descriptor2 sample_descriptor2 (sample_payload @ [0])
      = Inr (sample_payload @ [0])"
    by (auto simp: Transcode_iff sample_descriptor2_ok)
  then show ?thesis
    using transcode_composes [OF sample_parses(1,2,2) sample_Transcode] by blast
qed

text \<open>The batch key names the batch: two batches with one key agree on namespace, table, shape and
  every record in order, unless their two hash inputs are a collision of SHA-256.\<close>

theorem batch_key_names_content:
  assumes "BatchHash ns table d ps = Inr key" "BatchHash ns' table' d' ps' = Inr key"
  shows "ns = ns' \<and> table = table' \<and> d_encoded d = d_encoded d' \<and> ps = ps'
    \<or> batchInput ns table d ps \<noteq> batchInput ns' table' d' ps'
       \<and> sha256 (batchInput ns table d ps) = sha256 (batchInput ns' table' d' ps')"
  using assms batchInput_inject [of ps ps' ns ns' table table' d d']
  by (auto simp: BatchHash_Inr EncodeToString_inject)

theorem batch_key_names_content_witness:
  "\<exists>key. BatchHash ''ns'' ''t'' sample_descriptor [sample_payload] = Inr key \<and>
    (\<forall>d' ps'. BatchHash ''ns'' ''t'' d' ps' = Inr key \<longrightarrow>
      d_encoded sample_descriptor = d_encoded d' \<and> [sample_payload] = ps'
      \<or> sha256 (batchInput ''ns'' ''t'' sample_descriptor [sample_payload])
         = sha256 (batchInput ''ns'' ''t'' d' ps'))"
proof -
  have "length (d_encoded sample_descriptor) \<le> MaxValueBytes"
    by (simp add: sample_descriptor_def sample_fields_def encodeDescriptor_def encodeField_def
        MaxValueBytes_def)
  then obtain key where "BatchHash ''ns'' ''t'' sample_descriptor [sample_payload] = Inr key"
    by (simp add: BatchHash_def MaxValueBytes_def sample_payload_def)
  then show ?thesis
    using batch_key_names_content by blast
qed

end
