(* ===== verification/StagingDB.thy ===== *)
theory StagingDB
  imports CanonRemap "HOL-Library.AList"
begin

text \<open>The staging database of \<open>internal/staging\<close>: the four SQLite tables of \<open>migrations/*.sql\<close> with
  the row types of \<open>models.go\<close>, one function per statement of \<open>queries.sql.go\<close>, and \<open>Store.tx\<close>.

  SQLite itself is modelled by what its documentation promises of these statements: a table is its
  rows (\<open>staging\<close> in primary key order, which is insert order under \<open>AUTOINCREMENT\<close>: a new id is one
  above every id ever used), an \<open>UPDATE\<close> reports how many rows its \<open>WHERE\<close> matched, and a
  transaction that fails or cannot commit leaves the database as it was. Every statement may fail:
  \<open>st_faults\<close> is the outcome the driver has in store for each coming statement (\<open>Some e\<close> for a
  failure), success when it runs out, so a theorem about all stores is a theorem about every way the
  driver can fail.\<close>

section \<open>Tables\<close>

record Staging =
  sr_id :: int
  sr_namespace :: string
  sr_table :: string
  sr_batch_key :: "string option"
  sr_schema_fp :: string
  sr_payload :: bytes
  sr_byte_len :: int
  sr_created_at :: int
  sr_quarantined_at :: "int option"
  sr_quarantine_error :: "string option"

record SpoolFile =
  sf_batch_key :: string
  sf_namespace :: string
  sf_table :: string
  sf_schema_fp :: string
  sf_byte_len :: int
  sf_created_at :: int
  sf_committed_at :: "int option"

record db =
  db_staging :: "Staging list"
  db_seq :: int
  db_schemas :: "(string \<times> bytes) list"
  db_spool_files :: "SpoolFile list"
  db_spool_schemas :: "(string \<times> bytes) list"

record store =
  st_path :: string
  st_db :: db
  st_faults :: "error option list"

section \<open>Statements, sequencing and transactions\<close>

type_synonym 'a op = "store \<Rightarrow> (error, 'a) result \<times> store"

definition stmt :: "(db \<Rightarrow> 'a \<times> db) \<Rightarrow> 'a op" where
  "stmt f s =
    (case st_faults s of
       Some e # r \<Rightarrow> (Inl e, s\<lparr>st_faults := r\<rparr>)
     | _ \<Rightarrow> (Inr (fst (f (st_db s))), s\<lparr>st_db := snd (f (st_db s)), st_faults := tl (st_faults s)\<rparr>))"

definition op_ret :: "'a \<Rightarrow> 'a op" where "op_ret x s = (Inr x, s)"
definition op_fail :: "error \<Rightarrow> 'a op" where "op_fail e s = (Inl e, s)"

definition op_bind :: "'a op \<Rightarrow> ('a \<Rightarrow> 'b op) \<Rightarrow> 'b op" where
  "op_bind m f s = (case m s of (Inl e, s') \<Rightarrow> (Inl e, s') | (Inr x, s') \<Rightarrow> f x s')"

text \<open>A loop over a slice that returns at the first error.\<close>

fun op_for :: "('a \<Rightarrow> 'b op) \<Rightarrow> 'a list \<Rightarrow> 'b list op" where
  "op_for f [] = op_ret []"
| "op_for f (x # xs) = op_bind (f x) (\<lambda>y. op_bind (op_for f xs) (\<lambda>ys. op_ret (y # ys)))"

text \<open>An error rewritten on the way out.\<close>

definition op_wrap :: "(error \<Rightarrow> error) \<Rightarrow> 'a op \<Rightarrow> 'a op" where
  "op_wrap w m s = (case m s of (Inl e, s') \<Rightarrow> (Inl (w e), s') | (Inr x, s') \<Rightarrow> (Inr x, s'))"

text \<open>\<open>Store.tx\<close>: \<open>BeginTx\<close>, the body, \<open>Commit\<close>; any error restores the database.\<close>

definition tx :: "'a op \<Rightarrow> 'a op" where
  "tx fn s =
    (case stmt (\<lambda>d. ((), d)) s of
       (Inl e, s1) \<Rightarrow> (Inl e, s1)
     | (Inr _, s1) \<Rightarrow>
         (case op_bind fn (\<lambda>x. op_bind (stmt (\<lambda>d. ((), d))) (\<lambda>_. op_ret x)) s1 of
            (Inl e, s2) \<Rightarrow> (Inl e, s2\<lparr>st_db := st_db s1\<rparr>)
          | (Inr x, s2) \<Rightarrow> (Inr x, s2)))"

section \<open>Reasoning about operations\<close>

named_theorems op_Inr \<open>what a successful run did\<close>
named_theorems keeps_intros \<open>preservation of a database invariant\<close>

lemma stmt_Inr [op_Inr]:
  "stmt f s = (Inr x, s') \<Longrightarrow> x = fst (f (st_db s)) \<and> st_db s' = snd (f (st_db s)) \<and> st_path s' = st_path s"
  by (auto simp: stmt_def split: list.splits option.splits)

lemma stmt_Inl: "stmt f s = (Inl e, s') \<Longrightarrow> st_db s' = st_db s"
  by (auto simp: stmt_def split: list.splits option.splits)

lemma op_bind_Inr [op_Inr]:
  "op_bind m f s = (Inr y, s') \<longleftrightarrow> (\<exists>x s1. m s = (Inr x, s1) \<and> f x s1 = (Inr y, s'))"
  by (auto simp: op_bind_def split: prod.splits sum.splits)

lemma op_ret_Inr [op_Inr, simp]: "op_ret x s = (Inr y, s') \<longleftrightarrow> y = x \<and> s' = s"
  by (auto simp: op_ret_def)

lemma op_ret_Inl [simp]: "op_ret x s \<noteq> (Inl e, s')"
  by (simp add: op_ret_def)

lemma op_fail_simps [simp]: "op_fail e s = (Inl e', s') \<longleftrightarrow> e' = e \<and> s' = s"
    "op_fail e s \<noteq> (Inr x, s')"
  by (auto simp: op_fail_def)

lemma op_wrap_Inr [op_Inr]: "op_wrap w m s = (Inr x, s') \<longleftrightarrow> m s = (Inr x, s')"
  by (auto simp: op_wrap_def split: prod.splits sum.splits)

lemma op_wrap_Inl: "op_wrap w m s = (Inl e, s') \<longleftrightarrow> (\<exists>e0. m s = (Inl e0, s') \<and> e = w e0)"
  by (auto simp: op_wrap_def split: prod.splits sum.splits)

lemma tx_Inr [op_Inr]:
  "tx fn s = (Inr x, s') \<Longrightarrow>
    \<exists>s1 s2. st_db s1 = st_db s \<and> st_path s1 = st_path s \<and> fn s1 = (Inr x, s2) \<and> st_db s' = st_db s2"
  by (auto simp: tx_def op_bind_Inr split: prod.splits sum.splits dest!: stmt_Inr) blast

text \<open>An operation that returns an error without touching the database.\<close>

definition atomic :: "'a op \<Rightarrow> bool" where
  "atomic m \<longleftrightarrow> (\<forall>s e s'. m s = (Inl e, s') \<longrightarrow> st_db s' = st_db s)"

lemma atomic_stmt: "atomic (stmt f)"
  by (simp add: atomic_def stmt_Inl)

lemma atomic_tx: "atomic (tx fn)"
  unfolding atomic_def
proof (intro allI impI)
  fix s e s'
  assume h: "tx fn s = (Inl e, s')"
  show "st_db s' = st_db s"
    using h stmt_Inl [of "\<lambda>d. ((), d)" s] stmt_Inr [of "\<lambda>d. ((), d)" s]
    by (auto simp: tx_def split: prod.splits sum.splits)
qed

lemma atomic_wrap: "atomic m \<Longrightarrow> atomic (op_wrap w m)"
  by (auto simp: atomic_def op_wrap_Inl)

lemma atomic_fail: "atomic (op_fail e)"
  by (simp add: atomic_def)

lemma atomic_ret: "atomic (op_ret x)"
  by (simp add: atomic_def)

text \<open>An operation that keeps an invariant of the database, whether it succeeds or not.\<close>

definition keeps :: "(db \<Rightarrow> bool) \<Rightarrow> 'a op \<Rightarrow> bool" where
  "keeps P m \<longleftrightarrow> (\<forall>s. P (st_db s) \<longrightarrow> P (st_db (snd (m s))))"

lemma keeps_stmt [keeps_intros]: "(\<And>d. P d \<Longrightarrow> P (snd (f d))) \<Longrightarrow> keeps P (stmt f)"
  by (auto simp: keeps_def stmt_def split: list.splits option.splits)

lemma keeps_ret [keeps_intros]: "keeps P (op_ret x)"
  by (simp add: keeps_def op_ret_def)

lemma keeps_fail [keeps_intros]: "keeps P (op_fail e)"
  by (simp add: keeps_def op_fail_def)

lemma keeps_bind [keeps_intros]: "keeps P m \<Longrightarrow> (\<And>x. keeps P (f x)) \<Longrightarrow> keeps P (op_bind m f)"
  unfolding keeps_def op_bind_def by (force split: prod.splits sum.splits)

lemma keeps_for [keeps_intros]: "(\<And>x. x \<in> set xs \<Longrightarrow> keeps P (f x)) \<Longrightarrow> keeps P (op_for f xs)"
  by (induction xs) (auto intro!: keeps_ret keeps_bind)

lemma keeps_wrap [keeps_intros]: "keeps P m \<Longrightarrow> keeps P (op_wrap w m)"
  unfolding keeps_def op_wrap_def by (auto split: prod.splits sum.splits)

lemma keeps_tx [keeps_intros]:
  assumes "keeps P fn"
  shows "keeps P (tx fn)"
  unfolding keeps_def
proof (intro allI impI)
  fix s :: store
  assume P: "P (st_db s)"
  obtain r s' where run: "tx fn s = (r, s')" by (cases "tx fn s") auto
  show "P (st_db (snd (tx fn s)))"
  proof (cases r)
    case (Inl e)
    then show ?thesis
      using atomic_tx [of fn] run P unfolding atomic_def by auto
  next
    case (Inr x)
    from tx_Inr [OF run [unfolded Inr]] obtain s1 s2 where
      "st_db s1 = st_db s" "fn s1 = (Inr x, s2)" "st_db s' = st_db s2" by blast
    then show ?thesis
      using assms P run unfolding keeps_def by (metis snd_conv)
  qed
qed

text \<open>What a loop of statements does to the database when none fails.\<close>

fun run_each :: "('a \<Rightarrow> db \<Rightarrow> 'b \<times> db) \<Rightarrow> 'a list \<Rightarrow> db \<Rightarrow> 'b list \<times> db" where
  "run_each f [] d = ([], d)"
| "run_each f (x # xs) d =
    (let (y, d1) = f x d; (ys, d2) = run_each f xs d1 in (y # ys, d2))"

lemma op_for_stmt_Inr [op_Inr]:
  "op_for (\<lambda>x. stmt (f x)) xs s = (Inr ys, s') \<Longrightarrow> (ys, st_db s') = run_each f xs (st_db s)"
proof (induction xs arbitrary: s ys)
  case (Cons x xs)
  then show ?case
    by (fastforce simp: op_bind_Inr split: prod.splits dest!: stmt_Inr)
qed simp

section \<open>Statements of queries.sql.go\<close>

definition in_table :: "string \<Rightarrow> string \<Rightarrow> Staging \<Rightarrow> bool" where
  "in_table ns tbl r \<longleftrightarrow> sr_namespace r = ns \<and> sr_table r = tbl"

text \<open>\<open>UPDATE staging SET ... WHERE p\<close>, reporting the rows matched.\<close>

definition update_staging :: "(Staging \<Rightarrow> bool) \<Rightarrow> (Staging \<Rightarrow> Staging) \<Rightarrow> db \<Rightarrow> int \<times> db" where
  "update_staging p f d =
    (int (length (filter p (db_staging d))),
     d\<lparr>db_staging := map (\<lambda>r. if p r then f r else r) (db_staging d)\<rparr>)"

definition q_CountStagedRowsWithBatchKey :: "string \<Rightarrow> string \<Rightarrow> string \<Rightarrow> db \<Rightarrow> int \<times> db" where
  "q_CountStagedRowsWithBatchKey ns tbl key d =
    (int (length (filter (\<lambda>r. in_table ns tbl r \<and> sr_batch_key r = Some key) (db_staging d))), d)"

definition q_DeleteStagedRow :: "int \<Rightarrow> db \<Rightarrow> int \<times> db" where
  "q_DeleteStagedRow i d =
    (int (length (filter (\<lambda>r. sr_id r = i) (db_staging d))),
     d\<lparr>db_staging := filter (\<lambda>r. sr_id r \<noteq> i) (db_staging d)\<rparr>)"

definition q_DeleteUnreferencedSchemas :: "db \<Rightarrow> int \<times> db" where
  "q_DeleteUnreferencedSchemas d =
    (let keep = (\<lambda>(fp, _). fp \<in> sr_schema_fp ` set (db_staging d)) in
     (int (length (filter (\<lambda>e. \<not> keep e) (db_schemas d))),
      d\<lparr>db_schemas := filter keep (db_schemas d)\<rparr>))"

definition q_DeleteUnreferencedSpoolSchemas :: "db \<Rightarrow> int \<times> db" where
  "q_DeleteUnreferencedSpoolSchemas d =
    (let keep = (\<lambda>(fp, _). fp \<in> sf_schema_fp ` set (db_spool_files d)) in
     (int (length (filter (\<lambda>e. \<not> keep e) (db_spool_schemas d))),
      d\<lparr>db_spool_schemas := filter keep (db_spool_schemas d)\<rparr>))"

text \<open>A \<open>:one\<close> query returns \<open>None\<close> for \<open>sql.ErrNoRows\<close>.\<close>

definition q_GetSchema :: "string \<Rightarrow> db \<Rightarrow> bytes option \<times> db" where
  "q_GetSchema fp d = (map_of (db_schemas d) fp, d)"

definition q_GetSpoolSchema :: "string \<Rightarrow> db \<Rightarrow> bytes option \<times> db" where
  "q_GetSpoolSchema fp d = (map_of (db_spool_schemas d) fp, d)"

definition row_with_id :: "int \<Rightarrow> Staging list \<Rightarrow> Staging option" where
  "row_with_id i rs = find (\<lambda>r. sr_id r = i) rs"

definition q_GetStagedPayload :: "int \<Rightarrow> db \<Rightarrow> Staging option \<times> db" where
  "q_GetStagedPayload i d = (row_with_id i (db_staging d), d)"

definition q_GetStagedRowIdentity ::
  "int \<Rightarrow> db \<Rightarrow> (string \<times> string \<times> string option \<times> int option) option \<times> db" where
  "q_GetStagedRowIdentity i d =
    (map_option (\<lambda>r. (sr_namespace r, sr_table r, sr_batch_key r, sr_quarantined_at r))
       (row_with_id i (db_staging d)), d)"

definition q_InsertStagedRow ::
  "string \<Rightarrow> string \<Rightarrow> string \<Rightarrow> bytes \<Rightarrow> int \<Rightarrow> int \<Rightarrow> db \<Rightarrow> int \<times> db" where
  "q_InsertStagedRow ns tbl fp payload byteLen createdAt d =
    (let i = db_seq d + 1 in
     (i, d\<lparr>db_seq := i, db_staging := db_staging d @
       [\<lparr>sr_id = i, sr_namespace = ns, sr_table = tbl, sr_batch_key = None, sr_schema_fp = fp,
         sr_payload = payload, sr_byte_len = byteLen, sr_created_at = createdAt,
         sr_quarantined_at = None, sr_quarantine_error = None\<rparr>]\<rparr>))"

definition q_QuarantineStagedRow :: "int \<Rightarrow> string \<Rightarrow> int \<Rightarrow> db \<Rightarrow> int \<times> db" where
  "q_QuarantineStagedRow at reason i =
    update_staging (\<lambda>r. sr_id r = i \<and> sr_quarantined_at r = None)
      (\<lambda>r. r\<lparr>sr_quarantined_at := Some at, sr_quarantine_error := Some reason\<rparr>)"

definition q_ScanStagedRows :: "db \<Rightarrow> Staging list \<times> db" where
  "q_ScanStagedRows d = (db_staging d, d)"

definition sealable :: "int \<Rightarrow> string \<Rightarrow> string \<Rightarrow> Staging \<Rightarrow> bool" where
  "sealable i ns tbl r \<longleftrightarrow> sr_id r = i \<and> in_table ns tbl r
     \<and> sr_batch_key r = None \<and> sr_quarantined_at r = None"

definition q_SealStagedRow :: "string \<Rightarrow> int \<Rightarrow> string \<Rightarrow> string \<Rightarrow> db \<Rightarrow> int \<times> db" where
  "q_SealStagedRow key i ns tbl =
    update_staging (sealable i ns tbl) (\<lambda>r. r\<lparr>sr_batch_key := Some key\<rparr>)"

definition q_SealStagedRowRecoded ::
  "string \<Rightarrow> string \<Rightarrow> bytes \<Rightarrow> int \<Rightarrow> int \<Rightarrow> string \<Rightarrow> string \<Rightarrow> db \<Rightarrow> int \<times> db" where
  "q_SealStagedRowRecoded key fp payload byteLen i ns tbl =
    update_staging (sealable i ns tbl)
      (\<lambda>r. r\<lparr>sr_batch_key := Some key, sr_schema_fp := fp, sr_payload := payload,
             sr_byte_len := byteLen\<rparr>)"

definition q_StagedSummary :: "db \<Rightarrow> (int \<times> int \<times> int) \<times> db" where
  "q_StagedSummary d =
    (let waiting = filter (\<lambda>r. sr_quarantined_at r = None) (db_staging d) in
     ((int (length waiting), sum_list (map sr_byte_len waiting),
       int (length (filter (\<lambda>r. sr_quarantined_at r \<noteq> None) (db_staging d)))), d))"

definition q_StagedTotals :: "db \<Rightarrow> (int \<times> int) \<times> db" where
  "q_StagedTotals d = ((int (length (db_staging d)), sum_list (map sr_byte_len (db_staging d))), d)"

definition upsert_schema :: "string \<Rightarrow> bytes \<Rightarrow> (string \<times> bytes) list \<Rightarrow> (string \<times> bytes) list" where
  "upsert_schema fp b ss = (if map_of ss fp = None then ss @ [(fp, b)] else ss)"

definition q_UpsertSchema :: "string \<Rightarrow> bytes \<Rightarrow> db \<Rightarrow> unit \<times> db" where
  "q_UpsertSchema fp b d = ((), d\<lparr>db_schemas := upsert_schema fp b (db_schemas d)\<rparr>)"

definition q_UpsertSpoolSchema :: "string \<Rightarrow> bytes \<Rightarrow> db \<Rightarrow> unit \<times> db" where
  "q_UpsertSpoolSchema fp b d = ((), d\<lparr>db_spool_schemas := upsert_schema fp b (db_spool_schemas d)\<rparr>)"

text \<open>\<open>ON CONFLICT (batch_key) DO UPDATE\<close> touches the shape and the size of the row already there,
  and nothing else.\<close>

definition q_UpsertSpoolFile ::
  "string \<Rightarrow> string \<Rightarrow> string \<Rightarrow> string \<Rightarrow> int \<Rightarrow> int \<Rightarrow> db \<Rightarrow> unit \<times> db" where
  "q_UpsertSpoolFile key ns tbl fp byteLen createdAt d =
    ((), d\<lparr>db_spool_files :=
      (if key \<in> sf_batch_key ` set (db_spool_files d)
       then map (\<lambda>f. if sf_batch_key f = key then f\<lparr>sf_schema_fp := fp, sf_byte_len := byteLen\<rparr> else f)
              (db_spool_files d)
       else db_spool_files d @
         [\<lparr>sf_batch_key = key, sf_namespace = ns, sf_table = tbl, sf_schema_fp = fp,
           sf_byte_len = byteLen, sf_created_at = createdAt, sf_committed_at = None\<rparr>])\<rparr>)"

definition q_MarkSpoolFileCommitted :: "int \<Rightarrow> string \<Rightarrow> db \<Rightarrow> int \<times> db" where
  "q_MarkSpoolFileCommitted at key d =
    (let p = (\<lambda>f. sf_batch_key f = key \<and> sf_committed_at f = None) in
     (int (length (filter p (db_spool_files d))),
      d\<lparr>db_spool_files := map (\<lambda>f. if p f then f\<lparr>sf_committed_at := Some at\<rparr> else f)
                            (db_spool_files d)\<rparr>))"

definition q_DeleteSpoolFile :: "string \<Rightarrow> db \<Rightarrow> int \<times> db" where
  "q_DeleteSpoolFile key d =
    (int (length (filter (\<lambda>f. sf_batch_key f = key) (db_spool_files d))),
     d\<lparr>db_spool_files := filter (\<lambda>f. sf_batch_key f \<noteq> key) (db_spool_files d)\<rparr>)"

text \<open>\<open>ORDER BY created_at, batch_key\<close>: text is compared byte by byte.\<close>

definition byte_key :: "string \<Rightarrow> nat list" where
  "byte_key s = map of_char s"

fun lex_le :: "nat list \<Rightarrow> nat list \<Rightarrow> bool" where
  "lex_le [] ys = True"
| "lex_le (x # xs) [] = False"
| "lex_le (x # xs) (y # ys) = (x < y \<or> x = y \<and> lex_le xs ys)"

definition spool_le :: "SpoolFile \<Rightarrow> SpoolFile \<Rightarrow> bool" where
  "spool_le f g \<longleftrightarrow> sf_created_at f < sf_created_at g
     \<or> sf_created_at f = sf_created_at g \<and> lex_le (byte_key (sf_batch_key f)) (byte_key (sf_batch_key g))"

fun insert_by :: "('a \<Rightarrow> 'a \<Rightarrow> bool) \<Rightarrow> 'a \<Rightarrow> 'a list \<Rightarrow> 'a list" where
  "insert_by le x [] = [x]"
| "insert_by le x (y # ys) = (if le x y then x # y # ys else y # insert_by le x ys)"

definition sort_by :: "('a \<Rightarrow> 'a \<Rightarrow> bool) \<Rightarrow> 'a list \<Rightarrow> 'a list" where
  "sort_by le xs = foldr (insert_by le) xs []"

definition q_SpoolBacklogForTable :: "string \<Rightarrow> string \<Rightarrow> db \<Rightarrow> SpoolFile list \<times> db" where
  "q_SpoolBacklogForTable ns tbl d =
    (sort_by spool_le (filter (\<lambda>f. sf_namespace f = ns \<and> sf_table f = tbl \<and> sf_committed_at f = None)
       (db_spool_files d)), d)"

definition q_SpoolBacklogSummary :: "db \<Rightarrow> (int \<times> int) \<times> db" where
  "q_SpoolBacklogSummary d =
    (let open = filter (\<lambda>f. sf_committed_at f = None) (db_spool_files d) in
     ((int (length open), sum_list (map sf_byte_len open)), d))"

definition q_SpoolCommittedBytes :: "db \<Rightarrow> int \<times> db" where
  "q_SpoolCommittedBytes d =
    (sum_list (map sf_byte_len (filter (\<lambda>f. sf_committed_at f \<noteq> None) (db_spool_files d))), d)"

definition q_SpoolEvictable :: "db \<Rightarrow> SpoolFile list \<times> db" where
  "q_SpoolEvictable d =
    (sort_by spool_le (filter (\<lambda>f. sf_committed_at f \<noteq> None) (db_spool_files d)), d)"

definition q_SpoolTablesWithBacklog :: "db \<Rightarrow> (string \<times> string) list \<times> db" where
  "q_SpoolTablesWithBacklog d =
    (sort_by (\<lambda>(n, t) (n', t'). n \<noteq> n' \<and> lex_le (byte_key n) (byte_key n')
                 \<or> n = n' \<and> lex_le (byte_key t) (byte_key t'))
       (remdups (map (\<lambda>f. (sf_namespace f, sf_table f))
          (filter (\<lambda>f. sf_committed_at f = None) (db_spool_files d)))), d)"

section \<open>Sorting\<close>

lemma mset_sort_by [simp]: "mset (sort_by le xs) = mset xs"
proof -
  have "mset (insert_by le x ys) = add_mset x (mset ys)" for x and ys :: "'a list"
    by (induction ys) auto
  then show ?thesis
    by (induction xs) (simp_all add: sort_by_def)
qed

lemma set_sort_by [simp]: "set (sort_by le xs) = set xs"
  by (metis mset_sort_by set_mset_mset)

lemma sorted_wrt_sort_by:
  assumes total: "\<And>x y. le x y \<or> le y x" and trans: "\<And>x y z. le x y \<Longrightarrow> le y z \<Longrightarrow> le x z"
  shows "sorted_wrt le (sort_by le xs)"
proof -
  have set: "set (insert_by le x ys) = insert x (set ys)" for x ys
    by (induction ys) auto
  have ins: "sorted_wrt le ys \<Longrightarrow> sorted_wrt le (insert_by le x ys)" for x ys
    by (induction ys) (auto simp: set dest: trans intro: total [THEN disjE, rotated])
  show ?thesis
    by (induction xs) (simp_all add: sort_by_def ins)
qed

lemma lex_le_total: "lex_le xs ys \<or> lex_le ys xs"
  by (induction xs ys rule: lex_le.induct) auto

lemma lex_le_trans: "lex_le xs ys \<Longrightarrow> lex_le ys zs \<Longrightarrow> lex_le xs zs"
proof (induction xs ys arbitrary: zs rule: lex_le.induct)
  case (3 x xs y ys)
  then show ?case by (cases zs) auto
qed auto

lemma spool_le_total: "spool_le f g \<or> spool_le g f"
  using lex_le_total by (auto simp: spool_le_def)

lemma spool_le_trans: "spool_le f g \<Longrightarrow> spool_le g h \<Longrightarrow> spool_le f h"
  using lex_le_trans by (auto simp: spool_le_def)

lemma sorted_spool: "sorted_wrt spool_le (sort_by spool_le fs)"
  by (rule sorted_wrt_sort_by [OF spool_le_total spool_le_trans])

end
