(* ===== verification/StagingStore.thy ===== *)
theory StagingStore
  imports StagingDB
begin

text \<open>File \<open>internal/staging/store.go\<close>: appending, sealing, reading back, pruning and quarantining
  staged rows, and the recorded shapes. A \<open>nil\<close> descriptor is \<open>None\<close>, a \<open>nil\<close> payload of a seal row
  is \<open>None\<close>, times are the unix milliseconds the code stores. The locale \<open>schema_table\<close> is the contract
  of a content-addressed descriptor table, which both \<open>staging_schemas\<close> here and \<open>spool_schemas\<close> in
  \<open>StagingSpool\<close> provide.\<close>

section \<open>Types\<close>

text \<open>Instants are nanoseconds since the epoch; the tables keep \<open>UnixMilli\<close> of them, and a column read back is the
  instant of its millisecond.\<close>

definition UnixMilli :: "int \<Rightarrow> int" where
  "UnixMilli t = t div 1000000"

definition time_UnixMilli :: "int \<Rightarrow> int" where
  "time_UnixMilli ms = ms * 1000000"

record AppendRow =
  ar_Namespace :: string
  ar_Table :: string
  ar_Descriptor :: "Descriptor option"
  ar_Payload :: bytes
  ar_CreatedAt :: int

record StagedRow =
  sgr_ID :: int
  sgr_Namespace :: string
  sgr_Table :: string
  sgr_BatchKey :: string
  sgr_SchemaFP :: string
  sgr_Payload :: bytes
  sgr_CreatedAt :: int
  sgr_Quarantined :: bool

record SealRow =
  slr_ID :: int
  slr_Payload :: "bytes option"

record SealRequest =
  srq_Namespace :: string
  srq_Table :: string
  srq_BatchKey :: string
  srq_Descriptor :: "Descriptor option"
  srq_Rows :: "SealRow list"

record Counters =
  ctr_Records :: int
  ctr_Bytes :: int

record TableID =
  tid_Namespace :: string
  tid_Table :: string

record batchID =
  bid_table :: TableID
  bid_key :: string

definition sql_ErrNoRows :: error where
  "sql_ErrNoRows = ErrOther ''sql: no rows in result set''"

text \<open>A \<open>StagingError\<close> naming the store's path, and an error wrapped in one.\<close>

definition staging_fail :: "StagingKind \<Rightarrow> error option \<Rightarrow> 'a op" where
  "staging_fail kind err s = (Inl (NewStagingError kind (st_path s) err), s)"

definition staging_wrap :: "StagingKind \<Rightarrow> 'a op \<Rightarrow> 'a op" where
  "staging_wrap kind m s = op_wrap (\<lambda>e. NewStagingError kind (st_path s) (Some e)) m s"

definition is_StagingError :: "error \<Rightarrow> bool" where
  "is_StagingError e = (case e of EStaging _ \<Rightarrow> True | _ \<Rightarrow> False)"

text \<open>As in \<open>Seal\<close> and \<open>Quarantine\<close>: an error that already is a \<open>StagingError\<close> goes out as it is.\<close>

definition staging_rewrap :: "StagingKind \<Rightarrow> 'a op \<Rightarrow> 'a op" where
  "staging_rewrap kind m s =
    op_wrap (\<lambda>e. if errors_As is_StagingError e \<noteq> None then e
                 else NewStagingError kind (st_path s) (Some e)) m s"

section \<open>Append\<close>

text \<open>The body of the transaction: the schema once per distinct shape, then the row.\<close>

fun append_rows :: "string list \<Rightarrow> AppendRow list \<Rightarrow> int list op" where
  "append_rows recorded [] = op_ret []"
| "append_rows recorded (row # rows) =
    (let d = the (ar_Descriptor row); fp = d_fp d in
     op_bind (if fp \<in> set recorded then op_ret () else stmt (q_UpsertSchema fp (d_encoded d))) (\<lambda>_.
     op_bind (stmt (q_InsertStagedRow (ar_Namespace row) (ar_Table row) fp (ar_Payload row)
                      (int (length (ar_Payload row))) (UnixMilli (ar_CreatedAt row)))) (\<lambda>i.
     op_bind (append_rows (fp # recorded) rows) (\<lambda>ids.
     op_ret (i # ids)))))"

definition AppendBatch :: "AppendRow list \<Rightarrow> int list op" where
  "AppendBatch rows =
    (if rows = [] then op_ret []
     else if \<exists>row\<in>set rows. ar_Descriptor row = None \<or> ar_Payload row = []
     then staging_fail StagingKindWrite None
     else staging_wrap StagingKindWrite (tx (append_rows [] rows)))"

definition Append :: "AppendRow \<Rightarrow> int op" where
  "Append row = op_bind (AppendBatch [row]) (\<lambda>ids. op_ret (ids ! 0))"

section \<open>Rows and Schema\<close>

definition staged_row :: "Staging \<Rightarrow> StagedRow" where
  "staged_row r = \<lparr>sgr_ID = sr_id r, sgr_Namespace = sr_namespace r, sgr_Table = sr_table r,
     sgr_BatchKey = (case sr_batch_key r of None \<Rightarrow> '''' | Some k \<Rightarrow> k), sgr_SchemaFP = sr_schema_fp r,
     sgr_Payload = sr_payload r, sgr_CreatedAt = time_UnixMilli (sr_created_at r),
     sgr_Quarantined = (sr_quarantined_at r \<noteq> None)\<rparr>"

definition Rows :: "int list \<Rightarrow> StagedRow list op" where
  "Rows ids = op_for (\<lambda>i.
     op_bind (staging_wrap StagingKindRead (stmt (q_GetStagedPayload i))) (\<lambda>r.
     case r of None \<Rightarrow> staging_fail StagingKindState (Some sql_ErrNoRows)
             | Some row \<Rightarrow> op_ret (staged_row row))) ids"

definition op_lift :: "(error, 'a) result \<Rightarrow> 'a op" where
  "op_lift r s = (r, s)"

definition Schema :: "string \<Rightarrow> Descriptor op" where
  "Schema fp =
     op_bind (staging_wrap StagingKindRead (stmt (q_GetSchema fp))) (\<lambda>raw.
     case raw of None \<Rightarrow> staging_fail StagingKindState (Some sql_ErrNoRows)
               | Some b \<Rightarrow> op_lift (ParseDescriptor b))"

section \<open>Seal\<close>

definition seal_row :: "SealRequest \<Rightarrow> SealRow \<Rightarrow> unit op" where
  "seal_row req row =
    (let d = the (srq_Descriptor req) in
     op_bind (case slr_Payload row of
         None \<Rightarrow> stmt (q_SealStagedRow (srq_BatchKey req) (slr_ID row) (srq_Namespace req) (srq_Table req))
       | Some p \<Rightarrow> stmt (q_SealStagedRowRecoded (srq_BatchKey req) (d_fp d) p (int (length p))
                          (slr_ID row) (srq_Namespace req) (srq_Table req))) (\<lambda>n.
     if n \<noteq> 1 then staging_fail StagingKindState None else op_ret ()))"

definition Seal :: "SealRequest \<Rightarrow> unit op" where
  "Seal req =
    (if srq_Namespace req = '''' \<or> srq_Table req = '''' then staging_fail StagingKindWrite None
     else if srq_BatchKey req = '''' then staging_fail StagingKindWrite None
     else if srq_Descriptor req = None then staging_fail StagingKindWrite None
     else if srq_Rows req = [] then staging_fail StagingKindWrite None
     else
       (let d = the (srq_Descriptor req) in
        staging_rewrap StagingKindWrite (tx (
          op_bind (stmt (q_UpsertSchema (d_fp d) (d_encoded d))) (\<lambda>_.
          op_bind (op_for (seal_row req) (srq_Rows req)) (\<lambda>_.
          op_ret ()))))))"

section \<open>Delete\<close>

definition Delete :: "int list \<Rightarrow> unit op" where
  "Delete ids =
    (if ids = [] then op_ret ()
     else staging_wrap StagingKindWrite (tx (
       op_bind (op_for (\<lambda>i. stmt (q_DeleteStagedRow i)) ids) (\<lambda>_. op_ret ()))))"

section \<open>Quarantine\<close>

text \<open>The map from batches to the distinct ids named for them. A Go map iterates in no fixed order;
  the checks that follow raise one and the same error value whichever batch they meet first.\<close>

type_synonym named = "(batchID \<times> int list) list"

definition name_member :: "batchID \<Rightarrow> int \<Rightarrow> named \<Rightarrow> named" where
  "name_member b i named = (case map_of named b of
      None \<Rightarrow> (b, [i]) # named
    | Some ms \<Rightarrow> AList.update b (List.insert i ms) named)"

fun name_batches :: "int list \<Rightarrow> named \<Rightarrow> named op" where
  "name_batches [] named = op_ret named"
| "name_batches (i # is) named =
    op_bind (stmt (q_GetStagedRowIdentity i)) (\<lambda>row.
    case row of
      None \<Rightarrow> staging_fail StagingKindState (Some sql_ErrNoRows)
    | Some (ns, tbl, key, _) \<Rightarrow>
        (if key = None \<or> key = Some '''' then name_batches is named
         else name_batches is (name_member
           \<lparr>bid_table = \<lparr>tid_Namespace = ns, tid_Table = tbl\<rparr>, bid_key = the key\<rparr> i named)))"

definition check_batch :: "batchID \<times> int list \<Rightarrow> unit op" where
  "check_batch e =
    (case e of (b, members) \<Rightarrow>
     op_bind (stmt (q_CountStagedRowsWithBatchKey (tid_Namespace (bid_table b))
                      (tid_Table (bid_table b)) (bid_key b))) (\<lambda>total.
     if total \<noteq> int (length members) then staging_fail StagingKindState None else op_ret ()))"

definition checkWholeBatches :: "int list \<Rightarrow> unit op" where
  "checkWholeBatches ids =
    op_bind (name_batches ids []) (\<lambda>named.
    op_bind (op_for check_batch named) (\<lambda>_. op_ret ()))"

text \<open>\<open>cause\<close> is the text of the encoder's error, empty when there is none.\<close>

definition Quarantine :: "int list \<Rightarrow> int \<Rightarrow> string \<Rightarrow> unit op" where
  "Quarantine ids at reason =
    (if ids = [] then op_ret ()
     else staging_rewrap StagingKindWrite (tx (
       op_bind (checkWholeBatches ids) (\<lambda>_.
       op_bind (op_for (\<lambda>i. stmt (q_QuarantineStagedRow (UnixMilli at) reason i)) ids) (\<lambda>_.
       op_ret ())))))"

section \<open>Pruning and counting\<close>

definition PruneSchemas :: "int op" where
  "PruneSchemas = staging_wrap StagingKindWrite (stmt q_DeleteUnreferencedSchemas)"

definition Store_Counters :: "Counters op" where
  "Store_Counters = op_bind (staging_wrap StagingKindRead (stmt q_StagedTotals)) (\<lambda>(records, bytes).
     op_ret \<lparr>ctr_Records = records, ctr_Bytes = bytes\<rparr>)"

section \<open>Content-addressed descriptor tables\<close>

text \<open>Every referenced fingerprint is recorded; every recorded one names its own bytes.\<close>

definition schemas_complete :: "(string \<Rightarrow> bytes option) \<Rightarrow> string set \<Rightarrow> bool" where
  "schemas_complete get live \<longleftrightarrow> (\<forall>fp\<in>live. get fp \<noteq> None)"

definition schemas_addressed :: "(string \<Rightarrow> bytes option) \<Rightarrow> bool" where
  "schemas_addressed get \<longleftrightarrow>
    (\<forall>fp b. get fp = Some b \<longrightarrow> (\<exists>d. ParseDescriptor b = Inr d \<and> d_fp d = fp))"

locale schema_table =
  fixes get :: "'s \<Rightarrow> string \<Rightarrow> bytes option"
    and put :: "string \<Rightarrow> bytes \<Rightarrow> 's \<Rightarrow> 's"
    and prune :: "'s \<Rightarrow> 's"
    and live :: "'s \<Rightarrow> string set"
  assumes get_put: "get (put fp b s) fp' = (if fp' = fp \<and> get s fp = None then Some b else get s fp')"
    and live_put: "live (put fp b s) = live s"
    and get_prune: "get (prune s) fp = (if fp \<in> live s then get s fp else None)"
    and live_prune: "live (prune s) = live s"
begin

lemma put_recorded: "get (put fp b s) fp \<noteq> None"
  by (simp add: get_put)

lemma put_keeps: "get s fp' \<noteq> None \<Longrightarrow> get (put fp b s) fp' = get s fp'"
  by (auto simp: get_put)

lemma complete_put:
  "schemas_complete (get s) L \<Longrightarrow> schemas_complete (get (put fp b s)) L"
  using put_keeps by (simp add: schemas_complete_def)

lemma complete_prune:
  "schemas_complete (get s) (live s) \<Longrightarrow> schemas_complete (get (prune s)) (live (prune s))"
  by (simp add: schemas_complete_def get_prune live_prune)

lemma addressed_put:
  assumes "schemas_addressed (get s)" "descriptor_ok d"
  shows "schemas_addressed (get (put (d_fp d) (d_encoded d) s))"
  using assms ParseDescriptor_complete [OF assms(2)]
  by (auto simp: schemas_addressed_def get_put split: if_splits)

lemma addressed_prune: "schemas_addressed (get s) \<Longrightarrow> schemas_addressed (get (prune s))"
  by (auto simp: schemas_addressed_def get_prune)

lemma live_decodable:
  assumes "schemas_complete (get s) (live s)" "schemas_addressed (get s)" "fp \<in> live s"
  obtains b d where "get s fp = Some b" "ParseDescriptor b = Inr d" "d_fp d = fp"
  using assms by (fastforce simp: schemas_complete_def schemas_addressed_def)

text \<open>A live shape survives any upsert and any prune with the bytes it was recorded with.\<close>

lemma live_stable:
  assumes "schemas_complete (get s) (live s)" "fp \<in> live s"
  shows "get (prune (put fp' b s)) fp = get s fp"
  using assms by (auto simp: get_prune live_put schemas_complete_def put_keeps)

text \<open>What a fingerprint returns is the descriptor it was recorded with, up to a collision.\<close>

lemma put_get_same:
  assumes "schemas_addressed (get s)" "descriptor_ok d" "get (put (d_fp d) (d_encoded d) s) (d_fp d) = Some b"
  shows "b = d_encoded d \<or> (\<exists>d'. ParseDescriptor b = Inr d' \<and> d_fp d' = d_fp d \<and> d' \<noteq> d)"
  using addressed_put [OF assms(1,2)] assms(3) ParseDescriptor_sound
  unfolding schemas_addressed_def by metis

end

lemma map_of_upsert: "map_of (upsert_schema fp b ss) fp' =
    (if fp' = fp \<and> map_of ss fp = None then Some b else map_of ss fp')"
  by (auto simp: upsert_schema_def map_add_def split: option.splits)

lemma map_of_filter_key: "map_of (filter (\<lambda>(k, _). P k) xs) k = (if P k then map_of xs k else None)"
  by (induction xs) auto

interpretation staging_schemas: schema_table "\<lambda>d. map_of (db_schemas d)"
    "\<lambda>fp b d. snd (q_UpsertSchema fp b d)" "\<lambda>d. snd (q_DeleteUnreferencedSchemas d)"
    "\<lambda>d. sr_schema_fp ` set (db_staging d)"
  by unfold_locales
    (auto simp: q_UpsertSchema_def map_of_upsert q_DeleteUnreferencedSchemas_def Let_def
      map_of_filter_key)

section \<open>The invariant of the staging tables\<close>

definition row_ok :: "db \<Rightarrow> Staging \<Rightarrow> bool" where
  "row_ok d r \<longleftrightarrow> 0 < sr_id r \<and> sr_id r \<le> db_seq d \<and> sr_byte_len r = int (length (sr_payload r))
     \<and> sr_batch_key r \<noteq> Some ''''"

text \<open>Ids ascend strictly and were all handed out, lengths are the payloads' own, no stored key is
  empty, and every row's shape is recorded under the fingerprint that names it.\<close>

definition staging_ok :: "db \<Rightarrow> bool" where
  "staging_ok d \<longleftrightarrow> 0 \<le> db_seq d \<and> sorted_wrt (<) (map sr_id (db_staging d))
     \<and> (\<forall>r\<in>set (db_staging d). row_ok d r)
     \<and> schemas_complete (map_of (db_schemas d)) (sr_schema_fp ` set (db_staging d))
     \<and> schemas_addressed (map_of (db_schemas d))"

text \<open>How a row may change: never its identity; once sealed, nothing but the quarantine mark; and the
  first mark stands.\<close>

definition row_le :: "Staging \<Rightarrow> Staging \<Rightarrow> bool" where
  "row_le r r' \<longleftrightarrow> sr_id r' = sr_id r \<and> sr_namespace r' = sr_namespace r \<and> sr_table r' = sr_table r
     \<and> sr_created_at r' = sr_created_at r
     \<and> (sr_batch_key r \<noteq> None \<longrightarrow> sr_batch_key r' = sr_batch_key r \<and> sr_payload r' = sr_payload r
          \<and> sr_schema_fp r' = sr_schema_fp r \<and> sr_byte_len r' = sr_byte_len r)
     \<and> (sr_quarantined_at r \<noteq> None \<longrightarrow> sr_quarantined_at r' = sr_quarantined_at r
          \<and> sr_quarantine_error r' = sr_quarantine_error r \<and> sr_batch_key r' = sr_batch_key r
          \<and> sr_payload r' = sr_payload r)"

definition evolves :: "db \<Rightarrow> db \<Rightarrow> bool" where
  "evolves d d' \<longleftrightarrow> db_seq d \<le> db_seq d' \<and>
    (\<forall>r'\<in>set (db_staging d'). db_seq d < sr_id r' \<or> (\<exists>r\<in>set (db_staging d). row_le r r'))"

lemma row_le_refl [simp]: "row_le r r"
  by (simp add: row_le_def)

lemma row_le_trans: "row_le r r' \<Longrightarrow> row_le r' r'' \<Longrightarrow> row_le r r''"
  unfolding row_le_def by metis

lemma evolves_subset:
  "db_seq d \<le> db_seq d' \<Longrightarrow>
    (\<And>r. r \<in> set (db_staging d') \<Longrightarrow> r \<in> set (db_staging d) \<or> db_seq d < sr_id r) \<Longrightarrow> evolves d d'"
  unfolding evolves_def using row_le_refl by blast

lemma evolves_refl [simp]: "evolves d d"
  by (rule evolves_subset) auto

lemma evolves_trans:
  assumes "evolves d d'" "evolves d' d''"
  shows "evolves d d''"
  unfolding evolves_def
proof (intro conjI ballI)
  show "db_seq d \<le> db_seq d''"
    using assms by (simp add: evolves_def)
  fix r''
  assume "r'' \<in> set (db_staging d'')"
  then consider "db_seq d' < sr_id r''" | r' where "r' \<in> set (db_staging d')" "row_le r' r''"
    using assms(2) by (auto simp: evolves_def)
  then show "db_seq d < sr_id r'' \<or> (\<exists>r\<in>set (db_staging d). row_le r r'')"
  proof cases
    case 1
    then show ?thesis
      using assms(1) by (simp add: evolves_def)
  next
    case 2
    then show ?thesis
      using assms(1) row_le_trans unfolding evolves_def by (metis row_le_def)
  qed
qed

text \<open>The invariant and the history of the rows since a database \<open>d0\<close>, in one predicate the
  operations keep.\<close>

definition grows :: "db \<Rightarrow> db \<Rightarrow> bool" where
  "grows d0 d \<longleftrightarrow> staging_ok d \<and> evolves d0 d"

lemma growsI: "grows d0 d \<Longrightarrow> staging_ok d' \<Longrightarrow> evolves d d' \<Longrightarrow> grows d0 d'"
  using evolves_trans by (auto simp: grows_def)

lemma update_staging_sel [simp]:
  "db_seq (snd (update_staging p f d)) = db_seq d"
  "db_schemas (snd (update_staging p f d)) = db_schemas d"
  "db_staging (snd (update_staging p f d)) = map (\<lambda>r. if p r then f r else r) (db_staging d)"
  "fst (update_staging p f d) = int (length (filter p (db_staging d)))"
  by (simp_all add: update_staging_def)

text \<open>An \<open>UPDATE\<close> whose new rows are good and only evolve keeps everything.\<close>

lemma grows_update:
  assumes "grows d0 d"
    and step: "\<And>r. r \<in> set (db_staging d) \<Longrightarrow> p r \<Longrightarrow>
      row_le r (f r) \<and> row_ok d (f r) \<and> map_of (db_schemas d) (sr_schema_fp (f r)) \<noteq> None"
  shows "grows d0 (snd (update_staging p f d))"
proof (rule growsI [OF assms(1)])
  let ?g = "\<lambda>r. if p r then f r else r"
  have ok: "staging_ok d"
    using assms(1) by (simp add: grows_def)
  have le: "row_le r (?g r)" if "r \<in> set (db_staging d)" for r
    using step [OF that] by simp
  then have ids: "map sr_id (map ?g (db_staging d)) = map sr_id (db_staging d)"
    by (auto simp: row_le_def)
  show "evolves d (snd (update_staging p f d))"
    unfolding evolves_def update_staging_sel set_map using le by blast
  have "row_ok d (?g r)" "map_of (db_schemas d) (sr_schema_fp (?g r)) \<noteq> None"
    if "r \<in> set (db_staging d)" for r
    using ok step [OF that] that by (auto simp: staging_ok_def schemas_complete_def)
  then have "\<forall>r\<in>set (map ?g (db_staging d)). row_ok d r"
    "schemas_complete (map_of (db_schemas d)) (sr_schema_fp ` set (map ?g (db_staging d)))"
    unfolding set_map schemas_complete_def by blast+
  then show "staging_ok (snd (update_staging p f d))"
    using ok ids unfolding staging_ok_def row_ok_def update_staging_sel by metis
qed

lemma grows_UpsertSchema:
  assumes "grows d0 d" "descriptor_ok dd"
  shows "grows d0 (snd (q_UpsertSchema (d_fp dd) (d_encoded dd) d))"
proof (rule growsI [OF assms(1)])
  have ok: "staging_ok d"
    using assms(1) by (simp add: grows_def)
  show "evolves d (snd (q_UpsertSchema (d_fp dd) (d_encoded dd) d))"
    by (rule evolves_subset) (auto simp: q_UpsertSchema_def Let_def)
  show "staging_ok (snd (q_UpsertSchema (d_fp dd) (d_encoded dd) d))"
    using ok staging_schemas.complete_put [of d] staging_schemas.addressed_put [of d, OF _ assms(2)]
    by (auto simp: staging_ok_def row_ok_def q_UpsertSchema_def)
qed

lemma grows_InsertStagedRow:
  assumes "grows d0 d" "map_of (db_schemas d) fp \<noteq> None"
  shows "grows d0 (snd (q_InsertStagedRow ns tbl fp p (int (length p)) at d))"
proof (rule growsI [OF assms(1)])
  let ?d = "snd (q_InsertStagedRow ns tbl fp p (int (length p)) at d)"
  have ok: "staging_ok d"
    using assms(1) by (simp add: grows_def)
  show "evolves d ?d"
    by (rule evolves_subset) (auto simp: q_InsertStagedRow_def Let_def)
  show "staging_ok ?d"
    using ok assms(2)
    by (auto simp: staging_ok_def row_ok_def q_InsertStagedRow_def Let_def sorted_wrt_append
        schemas_complete_def)
qed

lemma sorted_wrt_map_filter: "sorted_wrt P (map f xs) \<Longrightarrow> sorted_wrt P (map f (filter Q xs))"
  by (induction xs) auto

lemma grows_DeleteStagedRow:
  assumes "grows d0 d"
  shows "grows d0 (snd (q_DeleteStagedRow i d))"
proof (rule growsI [OF assms])
  show "evolves d (snd (q_DeleteStagedRow i d))"
    by (rule evolves_subset) (auto simp: q_DeleteStagedRow_def)
  show "staging_ok (snd (q_DeleteStagedRow i d))"
    using assms by (auto simp: grows_def staging_ok_def row_ok_def q_DeleteStagedRow_def
        schemas_complete_def intro: sorted_wrt_map_filter)
qed

lemma grows_DeleteUnreferencedSchemas:
  assumes "grows d0 d"
  shows "grows d0 (snd (q_DeleteUnreferencedSchemas d))"
proof (rule growsI [OF assms])
  show "evolves d (snd (q_DeleteUnreferencedSchemas d))"
    by (rule evolves_subset) (auto simp: q_DeleteUnreferencedSchemas_def Let_def)
  have "db_staging (snd (q_DeleteUnreferencedSchemas d)) = db_staging d"
    "db_seq (snd (q_DeleteUnreferencedSchemas d)) = db_seq d"
    by (simp_all add: q_DeleteUnreferencedSchemas_def Let_def)
  then show "staging_ok (snd (q_DeleteUnreferencedSchemas d))"
    using assms staging_schemas.complete_prune [of d] staging_schemas.addressed_prune [of d]
    by (auto simp: grows_def staging_ok_def row_ok_def)
qed

lemma grows_QuarantineStagedRow: "grows d0 d \<Longrightarrow> grows d0 (snd (q_QuarantineStagedRow at reason i d))"
  unfolding q_QuarantineStagedRow_def
  by (rule grows_update) (auto simp: row_le_def row_ok_def grows_def staging_ok_def schemas_complete_def)

lemma grows_SealStagedRow:
  "grows d0 d \<Longrightarrow> key \<noteq> '''' \<Longrightarrow> grows d0 (snd (q_SealStagedRow key i ns tbl d))"
  unfolding q_SealStagedRow_def
  by (rule grows_update)
    (auto simp: row_le_def row_ok_def sealable_def grows_def staging_ok_def schemas_complete_def)

lemma grows_SealStagedRowRecoded:
  "grows d0 d \<Longrightarrow> key \<noteq> '''' \<Longrightarrow> map_of (db_schemas d) fp \<noteq> None \<Longrightarrow>
    grows d0 (snd (q_SealStagedRowRecoded key fp p (int (length p)) i ns tbl d))"
  unfolding q_SealStagedRowRecoded_def
  by (rule grows_update) (auto simp: row_le_def row_ok_def sealable_def grows_def staging_ok_def)

section \<open>Every operation keeps it\<close>

text \<open>A transaction keeps what its body keeps when the body succeeds; when it fails, nothing moved.\<close>

lemma keeps_tx_Inr:
  assumes "\<And>s x s'. fn s = (Inr x, s') \<Longrightarrow> P (st_db s) \<Longrightarrow> P (st_db s')"
  shows "keeps P (tx fn)"
  unfolding keeps_def
proof (intro allI impI)
  fix s :: store
  assume P: "P (st_db s)"
  obtain r s' where run: "tx fn s = (r, s')" by (cases "tx fn s") auto
  show "P (st_db (snd (tx fn s)))"
  proof (cases r)
    case (Inl e)
    then show ?thesis
      using atomic_tx [of fn] run P unfolding atomic_def by auto
  next
    case (Inr x)
    then show ?thesis
      using tx_Inr [of fn s x s'] run P assms by (metis snd_conv)
  qed
qed

lemma keeps_staging_wrap [keeps_intros]: "keeps P m \<Longrightarrow> keeps P (staging_wrap k m)"
  unfolding keeps_def staging_wrap_def op_wrap_def by (auto split: prod.splits sum.splits)

lemma keeps_staging_rewrap [keeps_intros]: "keeps P m \<Longrightarrow> keeps P (staging_rewrap k m)"
  unfolding keeps_def staging_rewrap_def op_wrap_def by (auto split: prod.splits sum.splits)

lemma keeps_staging_fail [keeps_intros]: "keeps P (staging_fail k e)"
  by (simp add: keeps_def staging_fail_def)

lemma keepsD: "keeps P m \<Longrightarrow> m s = (r, s') \<Longrightarrow> P (st_db s) \<Longrightarrow> P (st_db s')"
  unfolding keeps_def by (metis snd_conv)

text \<open>Appending one row, as if its schema were recorded each time: the reference the loop with its
  \<open>recorded\<close> set is equal to.\<close>

definition append_one :: "AppendRow \<Rightarrow> db \<Rightarrow> int \<times> db" where
  "append_one row d =
    (let dd = the (ar_Descriptor row) in
     q_InsertStagedRow (ar_Namespace row) (ar_Table row) (d_fp dd) (ar_Payload row)
       (int (length (ar_Payload row))) (UnixMilli (ar_CreatedAt row)) (snd (q_UpsertSchema (d_fp dd) (d_encoded dd) d)))"

lemma upsert_again: "map_of (db_schemas d) fp \<noteq> None \<Longrightarrow> snd (q_UpsertSchema fp b d) = d"
  by (simp add: q_UpsertSchema_def upsert_schema_def)

lemma append_one_recorded:
  "map_of (db_schemas d) fp \<noteq> None \<or> fp = d_fp (the (ar_Descriptor row)) \<Longrightarrow>
    map_of (db_schemas (snd (append_one row d))) fp \<noteq> None"
  by (auto simp: append_one_def q_InsertStagedRow_def q_UpsertSchema_def map_of_upsert Let_def)

lemma append_rows_Inr:
  "append_rows recorded rows s = (Inr ids, s') \<Longrightarrow>
    \<forall>fp\<in>set recorded. map_of (db_schemas (st_db s)) fp \<noteq> None \<Longrightarrow>
    (ids, st_db s') = run_each append_one rows (st_db s)"
proof (induction rows arbitrary: recorded s ids)
  case (Cons row rows)
  let ?d = "the (ar_Descriptor row)"
  from Cons.prems(1) obtain s1 s2 i js where
    h: "(if d_fp ?d \<in> set recorded then op_ret () else stmt (q_UpsertSchema (d_fp ?d) (d_encoded ?d))) s
        = (Inr (), s1)"
      "stmt (q_InsertStagedRow (ar_Namespace row) (ar_Table row) (d_fp ?d) (ar_Payload row)
          (int (length (ar_Payload row))) (UnixMilli (ar_CreatedAt row))) s1 = (Inr i, s2)"
      "append_rows (d_fp ?d # recorded) rows s2 = (Inr js, s')" "ids = i # js"
    by (auto simp: op_bind_Inr Let_def)
  have "st_db s1 = snd (q_UpsertSchema (d_fp ?d) (d_encoded ?d) (st_db s))"
    using h(1) Cons.prems(2) by (auto simp: upsert_again dest!: stmt_Inr split: if_splits)
  then have one: "append_one row (st_db s) = (i, st_db s2)"
    using stmt_Inr [OF h(2)] by (simp add: append_one_def Let_def)
  have "\<forall>fp\<in>set (d_fp ?d # recorded). map_of (db_schemas (st_db s2)) fp \<noteq> None"
    using append_one_recorded [of "st_db s" _ row] Cons.prems(2) one by auto
  from Cons.IH [OF h(3) this] show ?case
    by (simp add: one h(4) split: prod.split) (metis prod.inject)
qed simp

lemma grows_append_one:
  assumes "grows d0 d" "descriptor_ok (the (ar_Descriptor row))"
  shows "grows d0 (snd (append_one row d))"
  unfolding append_one_def Let_def
  by (rule grows_InsertStagedRow [OF grows_UpsertSchema [OF assms]])
    (simp add: q_UpsertSchema_def map_of_upsert)

lemma grows_run_append:
  "run_each append_one rows d = (ids, d') \<Longrightarrow> grows d0 d \<Longrightarrow>
    \<forall>row\<in>set rows. descriptor_ok (the (ar_Descriptor row)) \<Longrightarrow> grows d0 d'"
proof (induction rows arbitrary: d ids)
  case (Cons row rows)
  then show ?case
    using grows_append_one [of d0 d row] by (auto split: prod.splits)
qed simp

definition rows_described :: "AppendRow list \<Rightarrow> bool" where
  "rows_described rows \<longleftrightarrow> (\<forall>row\<in>set rows. \<forall>d. ar_Descriptor row = Some d \<longrightarrow> descriptor_ok d)"

lemma keeps_AppendBatch:
  assumes "rows_described rows"
  shows "keeps (grows d0) (AppendBatch rows)"
proof -
  have "keeps (grows d0) (tx (append_rows [] rows))"
    if "\<forall>row\<in>set rows. ar_Descriptor row \<noteq> None"
  proof (rule keeps_tx_Inr)
    fix s ids s'
    assume run: "append_rows [] rows s = (Inr ids, s')" and P: "grows d0 (st_db s)"
    have "\<forall>row\<in>set rows. descriptor_ok (the (ar_Descriptor row))"
      using assms that by (auto simp: rows_described_def)
    then show "grows d0 (st_db s')"
      using grows_run_append [OF append_rows_Inr [OF run, symmetric] P] by simp
  qed
  then show ?thesis
    unfolding AppendBatch_def
    by (auto intro!: keeps_ret keeps_staging_wrap keeps_staging_fail)
qed

lemma keeps_seal_row:
  assumes "srq_BatchKey req \<noteq> ''''"
  shows "keeps (\<lambda>d. grows d0 d \<and> map_of (db_schemas d) (d_fp (the (srq_Descriptor req))) \<noteq> None)
    (seal_row req row)"
proof -
  have "map_of (db_schemas (snd (q_SealStagedRow k i ns tbl d))) = map_of (db_schemas d)"
    "map_of (db_schemas (snd (q_SealStagedRowRecoded k fp p n i ns tbl d))) = map_of (db_schemas d)"
    for k i ns tbl d fp p n
    by (simp_all add: q_SealStagedRow_def q_SealStagedRowRecoded_def)
  then show ?thesis
    unfolding seal_row_def Let_def
    by (auto intro!: keeps_intros grows_SealStagedRow [OF _ assms] grows_SealStagedRowRecoded [OF _ assms]
        split: option.split)
qed

lemma keeps_Seal:
  assumes "\<And>d. srq_Descriptor req = Some d \<Longrightarrow> descriptor_ok d"
  shows "keeps (grows d0) (Seal req)"
proof -
  let ?d = "the (srq_Descriptor req)"
  let ?body = "op_bind (stmt (q_UpsertSchema (d_fp ?d) (d_encoded ?d))) (\<lambda>_.
      op_bind (op_for (seal_row req) (srq_Rows req)) (\<lambda>_. op_ret ()))"
  have "keeps (grows d0) (tx ?body)"
    if key: "srq_BatchKey req \<noteq> ''''" and some: "srq_Descriptor req \<noteq> None"
  proof (rule keeps_tx_Inr)
    fix s x s'
    assume run: "?body s = (Inr x, s')" and P: "grows d0 (st_db s)"
    from run obtain s1 us where
      h: "stmt (q_UpsertSchema (d_fp ?d) (d_encoded ?d)) s = (Inr (), s1)"
        "op_for (seal_row req) (srq_Rows req) s1 = (Inr us, s')"
      by (auto simp: op_bind_Inr)
    have "st_db s1 = snd (q_UpsertSchema (d_fp ?d) (d_encoded ?d) (st_db s))"
      using stmt_Inr [OF h(1)] by simp
    moreover have "descriptor_ok ?d"
      using assms some by auto
    ultimately have "grows d0 (st_db s1) \<and> map_of (db_schemas (st_db s1)) (d_fp ?d) \<noteq> None"
      using grows_UpsertSchema [OF P] by (simp add: q_UpsertSchema_def map_of_upsert)
    then show "grows d0 (st_db s')"
      using keepsD [OF keeps_for [OF keeps_seal_row [OF key]] h(2)] by blast
  qed
  then show ?thesis
    unfolding Seal_def Let_def
    by (auto intro!: keeps_ret keeps_staging_rewrap keeps_staging_fail)
qed

lemma keeps_Delete: "keeps (grows d0) (Delete ids)"
  unfolding Delete_def by (auto intro!: keeps_intros grows_DeleteStagedRow)

lemma keeps_name_batches [keeps_intros]: "keeps P (name_batches ids named)"
proof (induction ids arbitrary: named)
  case (Cons i ids)
  have "keeps P (stmt (q_GetStagedRowIdentity i))"
    by (rule keeps_stmt) (simp add: q_GetStagedRowIdentity_def)
  then show ?case
    using Cons.IH by (auto intro!: keeps_bind keeps_staging_fail split: option.split)
qed (simp add: keeps_ret)

lemma keeps_check_batch [keeps_intros]: "keeps P (check_batch e)"
  unfolding check_batch_def
  by (cases e) (auto intro!: keeps_intros simp: q_CountStagedRowsWithBatchKey_def)

lemma keeps_Quarantine: "keeps (grows d0) (Quarantine ids at reason)"
  unfolding Quarantine_def checkWholeBatches_def
  by (auto intro!: keeps_intros grows_QuarantineStagedRow)

lemma keeps_PruneSchemas: "keeps (grows d0) PruneSchemas"
  unfolding PruneSchemas_def by (auto intro!: keeps_intros grows_DeleteUnreferencedSchemas)

lemma keeps_Rows: "keeps P (Rows ids)"
  unfolding Rows_def by (auto intro!: keeps_intros simp: q_GetStagedPayload_def split: option.split)

end
