(* ===== verification/StagingProps.thy ===== *)
theory StagingProps
  imports StagingStore
begin

text \<open>What the operations of \<open>StagingStore\<close> do when they succeed, and the properties of the staging
  layer: durable acceptance, sealing, quarantine, atomicity and the history of a row.\<close>

section \<open>Rows by id\<close>

lemma unique_ids:
  "staging_ok d \<Longrightarrow> r \<in> set (db_staging d) \<Longrightarrow> r' \<in> set (db_staging d) \<Longrightarrow> sr_id r = sr_id r' \<Longrightarrow> r = r'"
  using strict_sorted_iff [of "map sr_id (db_staging d)"]
  by (auto simp: staging_ok_def distinct_map inj_on_def)

lemma row_with_id_Some: "row_with_id i rs = Some r \<Longrightarrow> r \<in> set rs \<and> sr_id r = i"
  unfolding row_with_id_def by (induction rs) (auto split: if_splits)

lemma row_with_id_None: "row_with_id i rs = None \<longleftrightarrow> (\<forall>r\<in>set rs. sr_id r \<noteq> i)"
  unfolding row_with_id_def by (induction rs) auto

lemma row_with_id_mem:
  assumes "staging_ok d" "r \<in> set (db_staging d)"
  shows "row_with_id (sr_id r) (db_staging d) = Some r"
proof (cases "row_with_id (sr_id r) (db_staging d)")
  case None
  then show ?thesis
    using assms(2) by (auto simp: row_with_id_None)
next
  case (Some r')
  then show ?thesis
    using row_with_id_Some [OF Some] unique_ids [OF assms(1)] assms(2) by auto
qed

section \<open>Append\<close>

definition staged_new :: "int \<Rightarrow> AppendRow \<Rightarrow> Staging" where
  "staged_new i row = \<lparr>sr_id = i, sr_namespace = ar_Namespace row, sr_table = ar_Table row,
     sr_batch_key = None, sr_schema_fp = d_fp (the (ar_Descriptor row)), sr_payload = ar_Payload row,
     sr_byte_len = int (length (ar_Payload row)), sr_created_at = UnixMilli (ar_CreatedAt row),
     sr_quarantined_at = None, sr_quarantine_error = None\<rparr>"

lemma append_one_sel:
  "fst (append_one row d) = db_seq d + 1"
  "db_seq (snd (append_one row d)) = db_seq d + 1"
  "db_staging (snd (append_one row d)) = db_staging d @ [staged_new (db_seq d + 1) row]"
  "db_spool_files (snd (append_one row d)) = db_spool_files d"
  "db_spool_schemas (snd (append_one row d)) = db_spool_schemas d"
  by (simp_all add: append_one_def q_InsertStagedRow_def q_UpsertSchema_def Let_def staged_new_def)

lemma run_append:
  "run_each append_one rows d = (ids, d') \<Longrightarrow>
    ids = map (\<lambda>k. db_seq d + 1 + int k) [0..<length rows]
    \<and> db_seq d' = db_seq d + int (length rows)
    \<and> db_staging d' = db_staging d @ map2 staged_new ids rows"
proof (induction rows arbitrary: d ids d')
  case (Cons row rows)
  let ?d1 = "snd (append_one row d)"
  from Cons.prems obtain js where js: "run_each append_one rows ?d1 = (js, d')"
      "ids = (db_seq d + 1) # js"
    using append_one_sel(1) [of row d] by (auto split: prod.splits)
  have "[0..<length (row # rows)] = 0 # map Suc [0..<length rows]"
    by (simp add: map_Suc_upt upt_conv_Cons del: upt_Suc)
  then show ?case
    using Cons.IH [OF js(1)] js(2) by (auto simp: append_one_sel)
qed simp

lemma AppendBatch_Inr:
  assumes "AppendBatch rows s = (Inr ids, s')" "rows \<noteq> []"
  shows "(\<forall>row\<in>set rows. ar_Descriptor row \<noteq> None \<and> ar_Payload row \<noteq> [])
    \<and> run_each append_one rows (st_db s) = (ids, st_db s')"
proof -
  from assms have ok: "\<forall>row\<in>set rows. ar_Descriptor row \<noteq> None \<and> ar_Payload row \<noteq> []"
    by (auto simp: AppendBatch_def staging_fail_def split: if_splits)
  with assms have "tx (append_rows [] rows) s = (Inr ids, s')"
    by (auto simp: AppendBatch_def staging_wrap_def op_wrap_Inr split: if_splits)
  from tx_Inr [OF this] obtain s1 s2 where
    "st_db s1 = st_db s" "append_rows [] rows s1 = (Inr ids, s2)" "st_db s' = st_db s2" by blast
  then show ?thesis
    using append_rows_Inr [of "[]" rows s1 ids s2] ok by simp
qed

section \<open>Reading back\<close>

lemma stmt_nofault: "st_faults s = [] \<Longrightarrow> stmt f s = (Inr (fst (f (st_db s))), s\<lparr>st_db := snd (f (st_db s))\<rparr>)"
  by (simp add: stmt_def)

lemma Rows_nofault:
  "st_faults s = [] \<Longrightarrow> staging_ok (st_db s) \<Longrightarrow> set rs \<subseteq> set (db_staging (st_db s)) \<Longrightarrow>
    Rows (map sr_id rs) s = (Inr (map staged_row rs), s)"
proof (induction rs)
  case Nil
  then show ?case by (simp add: Rows_def op_ret_def)
next
  case (Cons r rs)
  have "stmt (q_GetStagedPayload (sr_id r)) s = (Inr (Some r), s)"
    using Cons.prems row_with_id_mem [of "st_db s" r] by (simp add: stmt_nofault q_GetStagedPayload_def)
  with Cons show ?case
    by (simp add: Rows_def op_bind_def staging_wrap_def op_wrap_def op_ret_def)
qed

lemma Schema_nofault:
  assumes "st_faults s = []" "staging_ok (st_db s)" "r \<in> set (db_staging (st_db s))"
  shows "\<exists>d. Schema (sr_schema_fp r) s = (Inr d, s) \<and> d_fp d = sr_schema_fp r \<and> descriptor_ok d"
proof -
  from assms(2,3) obtain b d where "map_of (db_schemas (st_db s)) (sr_schema_fp r) = Some b"
      "ParseDescriptor b = Inr d" "d_fp d = sr_schema_fp r"
    using staging_schemas.live_decodable [of "st_db s" "sr_schema_fp r"]
    by (auto simp: staging_ok_def)
  then show ?thesis
    using assms(1) ParseDescriptor_sound
    by (simp add: Schema_def op_bind_def staging_wrap_def op_wrap_def stmt_nofault q_GetSchema_def
        op_lift_def)
qed

section \<open>Seal\<close>

text \<open>What a seal makes of a row: the key, and for a recoded row the new payload with the sealing
  shape; a row it does not name stays.\<close>

definition seal_effect :: "SealRequest \<Rightarrow> SealRow list \<Rightarrow> Staging \<Rightarrow> Staging" where
  "seal_effect req rows r =
    (case map_of (map (\<lambda>row. (slr_ID row, slr_Payload row)) rows) (sr_id r) of
       None \<Rightarrow> r
     | Some None \<Rightarrow> r\<lparr>sr_batch_key := Some (srq_BatchKey req)\<rparr>
     | Some (Some p) \<Rightarrow> r\<lparr>sr_batch_key := Some (srq_BatchKey req),
           sr_schema_fp := d_fp (the (srq_Descriptor req)), sr_payload := p,
           sr_byte_len := int (length p)\<rparr>)"

definition can_seal :: "SealRequest \<Rightarrow> Staging list \<Rightarrow> SealRow \<Rightarrow> bool" where
  "can_seal req rs row \<longleftrightarrow> (\<exists>r\<in>set rs. sealable (slr_ID row) (srq_Namespace req) (srq_Table req) r)"

lemma seal_row_Inr:
  assumes "seal_row req row s = (Inr u, s')"
    and uniq: "distinct (map sr_id (db_staging (st_db s)))"
  shows "can_seal req (db_staging (st_db s)) row"
    "db_staging (st_db s') = map (seal_effect req [row]) (db_staging (st_db s))"
    "db_seq (st_db s') = db_seq (st_db s)" "db_schemas (st_db s') = db_schemas (st_db s)"
proof -
  let ?p = "sealable (slr_ID row) (srq_Namespace req) (srq_Table req)"
  let ?f = "case slr_Payload row of
      None \<Rightarrow> (\<lambda>r. r\<lparr>sr_batch_key := Some (srq_BatchKey req)\<rparr>)
    | Some p \<Rightarrow> (\<lambda>r. r\<lparr>sr_batch_key := Some (srq_BatchKey req),
           sr_schema_fp := d_fp (the (srq_Descriptor req)), sr_payload := p,
           sr_byte_len := int (length p)\<rparr>)"
  have run: "st_db s' = snd (update_staging ?p ?f (st_db s))"
    and n: "length (filter ?p (db_staging (st_db s))) = 1"
    using assms(1)
    by (auto simp: seal_row_def op_bind_Inr Let_def staging_fail_def q_SealStagedRow_def
        q_SealStagedRowRecoded_def split: option.splits if_splits dest!: stmt_Inr)
  from n have "filter ?p (db_staging (st_db s)) \<noteq> []"
    by auto
  then obtain r where r: "r \<in> set (db_staging (st_db s))" "?p r"
    by (auto simp: filter_empty_conv)
  then show "can_seal req (db_staging (st_db s)) row"
    by (auto simp: can_seal_def)
  have "?p r' \<longleftrightarrow> sr_id r' = slr_ID row" if "r' \<in> set (db_staging (st_db s))" for r'
    using that r uniq by (auto simp: sealable_def distinct_map inj_on_def)
  then have "(if ?p r' then ?f r' else r') = seal_effect req [row] r'"
    if "r' \<in> set (db_staging (st_db s))" for r'
    using that by (simp add: seal_effect_def split: option.split)
  then show "db_staging (st_db s') = map (seal_effect req [row]) (db_staging (st_db s))"
    unfolding run update_staging_sel by simp
  show "db_seq (st_db s') = db_seq (st_db s)" "db_schemas (st_db s') = db_schemas (st_db s)"
    unfolding run by simp_all
qed

lemma seal_effect_id [simp]: "sr_id (seal_effect req rows r) = sr_id r"
  by (simp add: seal_effect_def split: option.split)

lemma seal_effect_named:
  "sr_id r \<in> slr_ID ` set rows \<Longrightarrow> sr_batch_key (seal_effect req rows r) = Some (srq_BatchKey req)"
  by (auto simp: seal_effect_def map_of_eq_None_iff image_image split: option.split)

lemma seal_rows_Inr:
  "op_for (seal_row req) rows s = (Inr us, s') \<Longrightarrow> distinct (map sr_id (db_staging (st_db s))) \<Longrightarrow>
    distinct (map slr_ID rows) \<and> (\<forall>row\<in>set rows. can_seal req (db_staging (st_db s)) row)
    \<and> db_staging (st_db s') = map (seal_effect req rows) (db_staging (st_db s))
    \<and> db_seq (st_db s') = db_seq (st_db s) \<and> db_schemas (st_db s') = db_schemas (st_db s)"
proof (induction rows arbitrary: s us)
  case Nil
  have "map (seal_effect req []) rs = rs" for rs
    by (rule map_idI) (simp add: seal_effect_def)
  with Nil show ?case by simp
next
  case (Cons row rows)
  let ?rs = "db_staging (st_db s)"
  from Cons.prems(1) obtain u s1 vs where
    h: "seal_row req row s = (Inr u, s1)" "op_for (seal_row req) rows s1 = (Inr vs, s')"
    by (auto simp: op_bind_Inr)
  note one = seal_row_Inr [OF h(1) Cons.prems(2)]
  have "map sr_id (map (seal_effect req [row]) ?rs) = map sr_id ?rs"
    by simp
  then have "distinct (map sr_id (db_staging (st_db s1)))"
    using Cons.prems(2) one(2) by metis
  note rest = Cons.IH [OF h(2) this]
  have other: "can_seal req ?rs row' \<and> slr_ID row' \<noteq> slr_ID row" if mem: "row' \<in> set rows" for row'
  proof -
    obtain r where r: "r \<in> set ?rs"
        "sealable (slr_ID row') (srq_Namespace req) (srq_Table req) (seal_effect req [row] r)"
      using rest mem one(2) by (auto simp: can_seal_def)
    then have "sr_id r \<noteq> slr_ID row"
      using seal_effect_named [of r "[row]" req] by (auto simp: sealable_def)
    then have "seal_effect req [row] r = r"
      by (simp add: seal_effect_def)
    then show ?thesis
      using r \<open>sr_id r \<noteq> slr_ID row\<close> by (auto simp: can_seal_def sealable_def)
  qed
  have "seal_effect req rows (seal_effect req [row] r) = seal_effect req (row # rows) r" for r
  proof (cases "sr_id r = slr_ID row")
    case True
    then have "map_of (map (\<lambda>row. (slr_ID row, slr_Payload row)) rows) (sr_id r) = None"
      using other True by (force simp: map_of_eq_None_iff image_image)
    then have "seal_effect req rows r' = r'" if "sr_id r' = sr_id r" for r'
      using that by (simp add: seal_effect_def)
    then have "seal_effect req rows (seal_effect req [row] r) = seal_effect req [row] r"
      by simp
    also have "seal_effect req [row] r = seal_effect req (row # rows) r"
      using True by (simp add: seal_effect_def)
    finally show ?thesis .
  next
    case False
    then show ?thesis
      by (simp add: seal_effect_def)
  qed
  moreover have "slr_ID row \<notin> slr_ID ` set rows"
    using other by force
  moreover have "\<forall>row'\<in>set rows. can_seal req ?rs row'"
    using other by blast
  ultimately show ?case
    using rest one by (simp add: comp_def)
qed

lemma Seal_Inr:
  assumes "Seal req s = (Inr u, s')" "staging_ok (st_db s)"
  shows "distinct (map slr_ID (srq_Rows req)) \<and> srq_BatchKey req \<noteq> ''''
    \<and> (\<forall>row\<in>set (srq_Rows req). can_seal req (db_staging (st_db s)) row)
    \<and> db_staging (st_db s') = map (seal_effect req (srq_Rows req)) (db_staging (st_db s))"
proof -
  let ?d = "the (srq_Descriptor req)"
  from assms(1) have key: "srq_BatchKey req \<noteq> ''''"
    and "tx (op_bind (stmt (q_UpsertSchema (d_fp ?d) (d_encoded ?d))) (\<lambda>_.
          op_bind (op_for (seal_row req) (srq_Rows req)) (\<lambda>_. op_ret ()))) s = (Inr u, s')"
    by (auto simp: Seal_def staging_fail_def staging_rewrap_def op_wrap_Inr Let_def split: if_splits)
  from tx_Inr [OF this(2)] obtain s1 s2 us s3 where
    h: "st_db s1 = st_db s" "stmt (q_UpsertSchema (d_fp ?d) (d_encoded ?d)) s1 = (Inr (), s2)"
      "op_for (seal_row req) (srq_Rows req) s2 = (Inr us, s3)" "st_db s' = st_db s3"
    by (auto simp: op_bind_Inr)
  have same: "db_staging (st_db s2) = db_staging (st_db s)"
    using stmt_Inr [OF h(2)] h(1) by (simp add: q_UpsertSchema_def)
  have "distinct (map sr_id (db_staging (st_db s2)))"
    using assms(2) same by (simp add: staging_ok_def strict_sorted_iff)
  from seal_rows_Inr [OF h(3) this] show ?thesis
    using key same h(4) by simp
qed

section \<open>Quarantine\<close>

definition batch_of :: "Staging \<Rightarrow> batchID option" where
  "batch_of r = (case sr_batch_key r of None \<Rightarrow> None
    | Some k \<Rightarrow> if k = '''' then None
                else Some \<lparr>bid_table = \<lparr>tid_Namespace = sr_namespace r, tid_Table = sr_table r\<rparr>,
                           bid_key = k\<rparr>)"

text \<open>What the map of named batches holds after some ids: per batch, exactly the ids named of it.\<close>

definition named_ok :: "db \<Rightarrow> int set \<Rightarrow> named \<Rightarrow> bool" where
  "named_ok d ids named \<longleftrightarrow>
    distinct (map fst named) \<and> (\<forall>ms\<in>snd ` set named. distinct ms) \<and>
    (\<forall>r\<in>set (db_staging d). \<forall>b. batch_of r = Some b \<longrightarrow>
      (sr_id r \<in> ids \<longleftrightarrow> (\<exists>ms. map_of named b = Some ms \<and> sr_id r \<in> set ms))) \<and>
    (\<forall>b ms i. map_of named b = Some ms \<longrightarrow> i \<in> set ms \<longrightarrow>
      (\<exists>r\<in>set (db_staging d). sr_id r = i \<and> batch_of r = Some b))"

lemma map_of_name_member:
  "map_of (name_member b i named) b' =
    (if b' = b then Some (case map_of named b of None \<Rightarrow> [i] | Some ms \<Rightarrow> List.insert i ms)
     else map_of named b')"
  by (auto simp: name_member_def update_conv split: option.split)

lemma name_member_distinct:
  "distinct (map fst named) \<Longrightarrow> distinct (map fst (name_member b i named))"
  by (auto simp: name_member_def distinct_update map_of_eq_None_iff split: option.split)

lemma set_named: "distinct (map fst named) \<Longrightarrow> (b, ms) \<in> set named \<longleftrightarrow> map_of named b = Some ms"
  by simp

lemma named_ok_member:
  assumes ok: "staging_ok d" and named: "named_ok d ids named"
    and r: "r \<in> set (db_staging d)" "batch_of r = Some b"
  shows "named_ok d (insert (sr_id r) ids) (name_member b (sr_id r) named)"
proof -
  let ?n = "name_member b (sr_id r) named"
  have dist: "distinct (map fst ?n)"
    using named name_member_distinct by (auto simp: named_ok_def)
  have ms: "distinct ms" if "map_of ?n b' = Some ms" for b' ms
  proof -
    have "distinct ms'" if "map_of named b'' = Some ms'" for b'' ms'
      using named map_of_SomeD [OF that] by (force simp: named_ok_def)
    then show ?thesis
      using that by (auto simp: map_of_name_member split: if_splits option.splits)
  qed
  have mem: "(\<exists>ms. map_of ?n b' = Some ms \<and> i \<in> set ms) \<longleftrightarrow>
      (\<exists>ms. map_of named b' = Some ms \<and> i \<in> set ms) \<or> b' = b \<and> i = sr_id r" for b' i
    by (auto simp: map_of_name_member split: option.splits)
  show ?thesis
    unfolding named_ok_def
  proof (intro conjI ballI allI impI)
    show "distinct (map fst ?n)" by (rule dist)
  next
    fix l
    assume "l \<in> snd ` set ?n"
    then show "distinct l"
      using ms set_named [OF dist] by force
  next
    fix r' b'
    assume r': "r' \<in> set (db_staging d)" "batch_of r' = Some b'"
    have "sr_id r' = sr_id r \<Longrightarrow> b' = b"
      using unique_ids [OF ok r'(1) r(1)] r'(2) r(2) by auto
    moreover have "sr_id r' \<in> ids \<longleftrightarrow> (\<exists>ms. map_of named b' = Some ms \<and> sr_id r' \<in> set ms)"
      using named r' by (auto simp: named_ok_def)
    ultimately show "sr_id r' \<in> insert (sr_id r) ids \<longleftrightarrow> (\<exists>ms. map_of ?n b' = Some ms \<and> sr_id r' \<in> set ms)"
      unfolding mem by auto
  next
    fix b' l i
    assume "map_of ?n b' = Some l" "i \<in> set l"
    then have "(\<exists>ms. map_of named b' = Some ms \<and> i \<in> set ms) \<or> b' = b \<and> i = sr_id r"
      using mem by blast
    then show "\<exists>r\<in>set (db_staging d). sr_id r = i \<and> batch_of r = Some b'"
      using named r by (auto simp: named_ok_def)
  qed
qed

lemma named_ok_skip:
  assumes "staging_ok d" "named_ok d ids named" "r \<in> set (db_staging d)" "batch_of r = None"
  shows "named_ok d (insert (sr_id r) ids) named"
  using assms(2,4) unique_ids [OF assms(1) _ assms(3)] by (fastforce simp: named_ok_def)

lemma name_batches_Inr:
  "name_batches is named s = (Inr named', s') \<Longrightarrow> staging_ok (st_db s) \<Longrightarrow>
    named_ok (st_db s) ids named \<Longrightarrow>
    st_db s' = st_db s \<and> named_ok (st_db s) (set is \<union> ids) named'
    \<and> set is \<subseteq> sr_id ` set (db_staging (st_db s))"
proof (induction "is" arbitrary: ids named s)
  case (Cons i "is")
  from Cons.prems(1) obtain row s1 where
    h: "stmt (q_GetStagedRowIdentity i) s = (Inr row, s1)" and row: "row \<noteq> None"
    by (auto simp: op_bind_Inr staging_fail_def split: option.splits)
  have db: "st_db s1 = st_db s" and
    row': "row = map_option (\<lambda>r. (sr_namespace r, sr_table r, sr_batch_key r, sr_quarantined_at r))
        (row_with_id i (db_staging (st_db s)))"
    using stmt_Inr [OF h] by (simp_all add: q_GetStagedRowIdentity_def)
  from row row' obtain r where "row_with_id i (db_staging (st_db s)) = Some r"
    by auto
  note r = this row_with_id_Some [OF this]
  show ?case
  proof (cases "batch_of r")
    case None
    then have "name_batches is named s1 = (Inr named', s')"
      using Cons.prems(1) h row' r(1)
      by (auto simp: op_bind_Inr batch_of_def split: option.splits if_splits)
    moreover have "named_ok (st_db s) (insert i ids) named"
      using named_ok_skip [OF Cons.prems(2,3) _ None] r by auto
    ultimately show ?thesis
      using Cons.IH [of named s1 "insert i ids"] Cons.prems(2) db r by auto
  next
    case (Some b)
    then have "name_batches is (name_member b i named) s1 = (Inr named', s')"
      using Cons.prems(1) h row' r(1)
      by (auto simp: op_bind_Inr batch_of_def split: option.splits if_splits)
    moreover have "named_ok (st_db s) (insert i ids) (name_member b i named)"
      using named_ok_member [OF Cons.prems(2,3) _ Some] r by auto
    ultimately show ?thesis
      using Cons.IH [of "name_member b i named" s1 "insert i ids"] Cons.prems(2) db r by auto
  qed
qed auto

lemma check_batches_Inr:
  "op_for check_batch named s = (Inr us, s') \<Longrightarrow> st_db s' = st_db s \<and>
    (\<forall>(b, ms)\<in>set named. length (filter (\<lambda>r. in_table (tid_Namespace (bid_table b)) (tid_Table (bid_table b)) r
        \<and> sr_batch_key r = Some (bid_key b)) (db_staging (st_db s))) = length ms)"
proof (induction named arbitrary: s us)
  case (Cons e named)
  obtain b ms where e: "e = (b, ms)" by (cases e)
  from Cons.prems obtain s1 vs where
    h: "check_batch e s = (Inr (), s1)" "op_for check_batch named s1 = (Inr vs, s')"
    by (auto simp: op_bind_Inr)
  have "st_db s1 = st_db s \<and> length (filter (\<lambda>r. in_table (tid_Namespace (bid_table b))
      (tid_Table (bid_table b)) r \<and> sr_batch_key r = Some (bid_key b)) (db_staging (st_db s))) = length ms"
    using h(1) by (auto simp: check_batch_def e op_bind_Inr staging_fail_def
        q_CountStagedRowsWithBatchKey_def split: if_splits dest!: stmt_Inr)
  with Cons.IH [OF h(2)] show ?case
    by (auto simp: e)
qed simp

lemma batch_of_in_table:
  "batch_of r = Some b \<Longrightarrow> in_table (tid_Namespace (bid_table b)) (tid_Table (bid_table b)) r
     \<and> sr_batch_key r = Some (bid_key b)"
  by (auto simp: batch_of_def in_table_def split: option.splits if_splits)

text \<open>The ids of a successful quarantine are closed under belonging to one sealed batch.\<close>

lemma checkWholeBatches_Inr:
  assumes "checkWholeBatches ids s = (Inr u, s')" and ok: "staging_ok (st_db s)"
  shows "st_db s' = st_db s"
    and "r \<in> set (db_staging (st_db s)) \<Longrightarrow> r' \<in> set (db_staging (st_db s)) \<Longrightarrow>
      batch_of r = Some b \<Longrightarrow> batch_of r' = Some b \<Longrightarrow> sr_id r \<in> set ids \<Longrightarrow> sr_id r' \<in> set ids"
proof -
  let ?rs = "db_staging (st_db s)"
  from assms(1) obtain named s1 us where
    h: "name_batches ids [] s = (Inr named, s1)" "op_for check_batch named s1 = (Inr us, s')"
    by (auto simp: checkWholeBatches_def op_bind_Inr)
  have "named_ok (st_db s) {} []"
    by (auto simp: named_ok_def)
  from name_batches_Inr [OF h(1) ok this] have
    db: "st_db s1 = st_db s" and named: "named_ok (st_db s) (set ids) named" by auto
  note check = check_batches_Inr [OF h(2), unfolded db]
  show "st_db s' = st_db s"
    using check by simp
  assume r: "r \<in> set ?rs" "r' \<in> set ?rs" "batch_of r = Some b" "batch_of r' = Some b" "sr_id r \<in> set ids"
  let ?p = "\<lambda>r. in_table (tid_Namespace (bid_table b)) (tid_Table (bid_table b)) r
      \<and> sr_batch_key r = Some (bid_key b)"
  from named r(1,3,5) obtain ms where ms: "map_of named b = Some ms"
    unfolding named_ok_def by blast
  have dist: "distinct ms"
    using named map_of_SomeD [OF ms] by (force simp: named_ok_def)
  have "distinct (map sr_id ?rs)"
    using ok by (simp add: staging_ok_def strict_sorted_iff)
  then have inj: "inj_on sr_id (set ?rs)" and drs: "distinct ?rs"
    by (simp_all add: distinct_map)
  have sub: "set ms \<subseteq> sr_id ` set (filter ?p ?rs)"
  proof
    fix i
    assume "i \<in> set ms"
    then obtain q where q: "q \<in> set ?rs" "sr_id q = i" "batch_of q = Some b"
      using named ms unfolding named_ok_def by blast
    then show "i \<in> sr_id ` set (filter ?p ?rs)"
      using batch_of_in_table [OF q(3)] by auto
  qed
  have "(b, ms) \<in> set named"
    using ms by (rule map_of_SomeD)
  then have len: "length (filter ?p ?rs) = length ms"
    using check by fastforce
  have "card (sr_id ` set (filter ?p ?rs)) \<le> card (set (filter ?p ?rs))"
    by (rule card_image_le) simp
  also have "\<dots> = length (filter ?p ?rs)"
    using distinct_card [OF distinct_filter [OF drs]] .
  also have "\<dots> = card (set ms)"
    using len distinct_card [OF dist] by simp
  finally have "sr_id ` set (filter ?p ?rs) = set ms"
    using sub by (metis List.finite_set card_seteq finite_imageI)
  moreover have "sr_id r' \<in> sr_id ` set (filter ?p ?rs)"
    using r(2) batch_of_in_table [OF r(4)] by auto
  ultimately have "sr_id r' \<in> set ms"
    by simp
  then show "sr_id r' \<in> set ids"
    using named r(2,4) ms unfolding named_ok_def by blast
qed

definition quarantine_effect :: "int \<Rightarrow> string \<Rightarrow> int set \<Rightarrow> Staging \<Rightarrow> Staging" where
  "quarantine_effect at reason ids r =
    (if sr_id r \<in> ids \<and> sr_quarantined_at r = None
     then r\<lparr>sr_quarantined_at := Some (UnixMilli at), sr_quarantine_error := Some reason\<rparr> else r)"

lemma run_quarantine:
  "run_each (q_QuarantineStagedRow (UnixMilli at) reason) ids d = (ns, d') \<Longrightarrow>
    db_staging d' = map (quarantine_effect at reason (set ids)) (db_staging d)"
proof (induction ids arbitrary: d ns)
  case Nil
  then show ?case
    by (simp add: quarantine_effect_def map_idI)
next
  case (Cons i ids)
  let ?d1 = "snd (q_QuarantineStagedRow (UnixMilli at) reason i d)"
  from Cons.prems obtain ms where "run_each (q_QuarantineStagedRow (UnixMilli at) reason) ids ?d1 = (ms, d')"
    by (auto split: prod.splits)
  from Cons.IH [OF this] show ?case
    by (auto simp: q_QuarantineStagedRow_def quarantine_effect_def)
qed

lemma Quarantine_Inr:
  assumes "Quarantine ids at reason s = (Inr u, s')" "ids \<noteq> []" and ok: "staging_ok (st_db s)"
  shows "db_staging (st_db s') = map (quarantine_effect at reason (set ids)) (db_staging (st_db s))"
    and "r \<in> set (db_staging (st_db s)) \<Longrightarrow> r' \<in> set (db_staging (st_db s)) \<Longrightarrow>
      batch_of r = Some b \<Longrightarrow> batch_of r' = Some b \<Longrightarrow> sr_id r \<in> set ids \<longleftrightarrow> sr_id r' \<in> set ids"
proof -
  from assms(1,2) have "tx (op_bind (checkWholeBatches ids) (\<lambda>_.
       op_bind (op_for (\<lambda>i. stmt (q_QuarantineStagedRow (UnixMilli at) reason i)) ids) (\<lambda>_.
       op_ret ()))) s = (Inr u, s')"
    by (simp add: Quarantine_def staging_rewrap_def op_wrap_Inr)
  from tx_Inr [OF this] obtain s1 s2 v where
    h: "st_db s1 = st_db s" "checkWholeBatches ids s1 = (Inr v, s2)"
    and "\<exists>ns s3. op_for (\<lambda>i. stmt (q_QuarantineStagedRow (UnixMilli at) reason i)) ids s2 = (Inr ns, s3)
      \<and> st_db s' = st_db s3"
    by (auto simp: op_bind_Inr)
  then obtain ns where "(ns, st_db s') = run_each (q_QuarantineStagedRow (UnixMilli at) reason) ids (st_db s2)"
    using op_for_stmt_Inr by metis
  note run = run_quarantine [OF this [symmetric]]
  note whole = checkWholeBatches_Inr [OF h(2), unfolded h(1), OF ok]
  show "db_staging (st_db s') = map (quarantine_effect at reason (set ids)) (db_staging (st_db s))"
    using run whole(1) by simp
  show "r \<in> set (db_staging (st_db s)) \<Longrightarrow> r' \<in> set (db_staging (st_db s)) \<Longrightarrow>
      batch_of r = Some b \<Longrightarrow> batch_of r' = Some b \<Longrightarrow> sr_id r \<in> set ids \<longleftrightarrow> sr_id r' \<in> set ids"
    using whole(2) by blast
qed

text \<open>A quarantine that succeeds found every row it was given.\<close>

lemma Quarantine_present:
  assumes "Quarantine ids at reason s = (Inr u, s')" "staging_ok (st_db s)"
  shows "set ids \<subseteq> sr_id ` set (db_staging (st_db s))"
proof (cases "ids = []")
  case False
  with assms(1) have "tx (op_bind (checkWholeBatches ids) (\<lambda>_.
       op_bind (op_for (\<lambda>i. stmt (q_QuarantineStagedRow (UnixMilli at) reason i)) ids) (\<lambda>_.
       op_ret ()))) s = (Inr u, s')"
    by (simp add: Quarantine_def staging_rewrap_def op_wrap_Inr)
  from tx_Inr [OF this] obtain s1 s2 v where h: "st_db s1 = st_db s" "checkWholeBatches ids s1 = (Inr v, s2)"
    by (auto simp: op_bind_Inr)
  then obtain named s3 where "name_batches ids [] s1 = (Inr named, s3)"
    by (auto simp: checkWholeBatches_def op_bind_Inr)
  then show ?thesis
    using name_batches_Inr [of ids "[]" s1 named s3 "{}"] h(1) assms(2) by (auto simp: named_ok_def)
qed simp

section \<open>Failures\<close>

lemma atomic_staging_wrap: "atomic m \<Longrightarrow> atomic (staging_wrap k m)"
  by (auto simp: atomic_def staging_wrap_def op_wrap_Inl)

lemma atomic_staging_rewrap: "atomic m \<Longrightarrow> atomic (staging_rewrap k m)"
  by (auto simp: atomic_def staging_rewrap_def op_wrap_Inl)

lemma atomic_staging_fail: "atomic (staging_fail k e)"
  by (simp add: atomic_def staging_fail_def)

lemmas atomic_intros = atomic_ret atomic_staging_fail atomic_staging_wrap atomic_staging_rewrap
  atomic_tx atomic_stmt

lemma AppendBatch_result:
  assumes "AppendBatch rows s = (res, s')"
  shows "case res of
      Inl e \<Rightarrow> st_db s' = st_db s
    | Inr ids \<Rightarrow>
        ids = map (\<lambda>k. db_seq (st_db s) + 1 + int k) [0..<length rows]
        \<and> db_staging (st_db s') = db_staging (st_db s) @ map2 staged_new ids rows
        \<and> db_seq (st_db s') = db_seq (st_db s) + int (length rows)"
proof (cases res)
  case (Inl e)
  have "atomic (AppendBatch rows)"
    unfolding AppendBatch_def by (auto intro: atomic_intros)
  then show ?thesis
    using assms Inl by (auto simp: atomic_def)
next
  case (Inr ids)
  show ?thesis
  proof (cases "rows = []")
    case True
    then show ?thesis
      using assms Inr by (auto simp: AppendBatch_def op_ret_def)
  next
    case False
    then show ?thesis
      using AppendBatch_Inr [of rows s ids s'] run_append [of rows "st_db s" ids "st_db s'"] assms Inr
      by simp
  qed
qed

section \<open>Histories\<close>

text \<open>One operation of the package on a store, whatever it returns and whatever the driver does.\<close>

inductive staging_step :: "store \<Rightarrow> store \<Rightarrow> bool" where
  step_append: "rows_described rows \<Longrightarrow> AppendBatch rows s = (r, s') \<Longrightarrow> staging_step s s'"
| step_seal: "(\<And>d. srq_Descriptor req = Some d \<Longrightarrow> descriptor_ok d) \<Longrightarrow> Seal req s = (r', s') \<Longrightarrow>
    staging_step s s'"
| step_delete: "Delete ids s = (r', s') \<Longrightarrow> staging_step s s'"
| step_quarantine: "Quarantine ids at reason s = (r', s') \<Longrightarrow> staging_step s s'"
| step_prune: "PruneSchemas s = (r'', s') \<Longrightarrow> staging_step s s'"
| step_rows: "Rows ids s = (r''', s') \<Longrightarrow> staging_step s s'"
| step_faults: "staging_step s (s\<lparr>st_faults := fs\<rparr>)"

inductive staging_run :: "store \<Rightarrow> store \<Rightarrow> bool" for s where
  run_refl: "staging_run s s"
| run_step: "staging_run s s' \<Longrightarrow> staging_step s' s'' \<Longrightarrow> staging_run s s''"

inductive_cases staging_stepE: "staging_step s s'"

lemma grows_step: "staging_step s s' \<Longrightarrow> grows d0 (st_db s) \<Longrightarrow> grows d0 (st_db s')"
proof (induction rule: staging_step.induct)
  case (step_append rows s r s')
  then show ?case using keepsD [OF keeps_AppendBatch] by blast
next
  case (step_seal req s r s')
  then show ?case using keepsD [OF keeps_Seal] by blast
next
  case (step_delete ids s r s')
  then show ?case using keepsD [OF keeps_Delete] by blast
next
  case (step_quarantine ids at reason s r s')
  then show ?case using keepsD [OF keeps_Quarantine] by blast
next
  case (step_prune s r s')
  then show ?case using keepsD [OF keeps_PruneSchemas] by blast
next
  case (step_rows ids s r s')
  then show ?case using keepsD [OF keeps_Rows] by blast
qed simp

lemma grows_run: "staging_run s s' \<Longrightarrow> staging_ok (st_db s) \<Longrightarrow> grows (st_db s) (st_db s')"
  by (induction rule: staging_run.induct) (auto simp: grows_def dest: grows_step [unfolded grows_def])

section \<open>Properties\<close>

text \<open>A fresh database, and two records appended to it.\<close>

definition empty_store :: store where
  "empty_store = \<lparr>st_path = ''staging.db'',
     st_db = \<lparr>db_staging = [], db_seq = 0, db_schemas = [], db_spool_files = [], db_spool_schemas = []\<rparr>,
     st_faults = []\<rparr>"

definition sample_append :: "nat \<Rightarrow> AppendRow" where
  "sample_append n = \<lparr>ar_Namespace = ''ns'', ar_Table = ''t'', ar_Descriptor = Some sample_descriptor,
     ar_Payload = 1 # replicate n 0, ar_CreatedAt = 5\<rparr>"

definition sample_store :: store where
  "sample_store = snd (AppendBatch [sample_append 0, sample_append 1] empty_store)"

lemmas staging_eval = AppendBatch_def staging_wrap_def staging_rewrap_def op_wrap_def tx_def op_bind_def
  stmt_def op_ret_def q_UpsertSchema_def upsert_schema_def q_InsertStagedRow_def Let_def

lemma sample_run:
  "AppendBatch [sample_append 0, sample_append 1] empty_store = (Inr [1, 2], sample_store)"
  by (simp add: sample_store_def staging_eval empty_store_def sample_append_def)

lemma sample_store_sel:
  "db_staging (st_db sample_store) = [staged_new 1 (sample_append 0), staged_new 2 (sample_append 1)]"
  "db_seq (st_db sample_store) = 2" "st_faults sample_store = []"
  "db_schemas (st_db sample_store) = [(d_fp sample_descriptor, d_encoded sample_descriptor)]"
  "st_path sample_store = ''staging.db''"
  by (simp_all add: sample_store_def staging_eval empty_store_def sample_append_def staged_new_def)

lemma empty_ok: "staging_ok (st_db empty_store)"
  by (simp add: empty_store_def staging_ok_def schemas_complete_def schemas_addressed_def)

lemma sample_described: "rows_described [sample_append 0, sample_append 1]"
  by (simp add: rows_described_def sample_append_def sample_descriptor_ok)

lemma sample_staging_run: "staging_run empty_store sample_store"
  by (rule run_step [OF run_refl step_append [OF sample_described sample_run]])

lemma sample_ok: "staging_ok (st_db sample_store)"
  using grows_run [OF sample_staging_run empty_ok] by (simp add: grows_def)

definition sample_seal :: SealRequest where
  "sample_seal = \<lparr>srq_Namespace = ''ns'', srq_Table = ''t'', srq_BatchKey = ''k'',
     srq_Descriptor = Some sample_descriptor, srq_Rows = [\<lparr>slr_ID = 2, slr_Payload = None\<rparr>]\<rparr>"

definition sealed_store :: store where
  "sealed_store = snd (Seal sample_seal sample_store)"

lemma sample_seal_run: "Seal sample_seal sample_store = (Inr (), sealed_store)"
  by (simp add: sealed_store_def Seal_def staging_rewrap_def op_wrap_def tx_def op_bind_def stmt_def
      op_ret_def q_UpsertSchema_def upsert_schema_def sample_seal_def seal_row_def
      q_SealStagedRow_def update_staging_def sealable_def in_table_def sample_store_sel staged_new_def
      sample_append_def Let_def)

lemma sealed_store_sel:
  "db_staging (st_db sealed_store)
    = [staged_new 1 (sample_append 0), staged_new 2 (sample_append 1)\<lparr>sr_batch_key := Some ''k''\<rparr>]"
  "st_faults sealed_store = []"
  by (simp_all add: sealed_store_def Seal_def staging_rewrap_def op_wrap_def tx_def op_bind_def stmt_def
      op_ret_def q_UpsertSchema_def upsert_schema_def sample_seal_def seal_row_def
      q_SealStagedRow_def update_staging_def sealable_def in_table_def sample_store_sel staged_new_def
      sample_append_def Let_def)

lemma sealed_store_seq: "db_seq (st_db sealed_store) = 2"
  by (simp add: sealed_store_def Seal_def staging_rewrap_def op_wrap_def tx_def op_bind_def stmt_def
      op_ret_def q_UpsertSchema_def upsert_schema_def sample_seal_def seal_row_def
      q_SealStagedRow_def update_staging_def sealable_def in_table_def sample_store_sel staged_new_def
      sample_append_def Let_def)

lemma sealed_run: "staging_run sample_store sealed_store"
  by (rule run_step [OF run_refl step_seal [OF _ sample_seal_run]])
    (simp add: sample_seal_def sample_descriptor_ok)

lemma sealed_ok: "staging_ok (st_db sealed_store)"
  using grows_run [OF sealed_run sample_ok] by (simp add: grows_def)

lemma sample_quarantine: "\<exists>s'. Quarantine [2] 9000000 ''bad'' sealed_store = (Inr (), s')"
  by (simp add: Quarantine_def staging_rewrap_def op_wrap_def tx_def op_bind_def stmt_def op_ret_def
      checkWholeBatches_def q_GetStagedRowIdentity_def row_with_id_def sealed_store_sel staged_new_def
      name_member_def check_batch_def q_CountStagedRowsWithBatchKey_def in_table_def sample_append_def)

text \<open>C5: Whatever sequence of appends, seals, prunes, quarantines and reads runs against a store, and
  whichever of their statements the driver fails, the staging tables stay well formed: ids ascend and
  were all handed out by the counter, lengths are the payloads' own, no stored key is empty, and the
  shape of every staged row is recorded under the fingerprint that names it.\<close>

theorem staging_invariant:
  "staging_run s s' \<Longrightarrow> staging_ok (st_db s) \<Longrightarrow> staging_ok (st_db s')"
  using grows_run by (auto simp: grows_def)

theorem staging_invariant_witness: "staging_ok (st_db sample_store)"
  by (rule staging_invariant [OF sample_staging_run empty_ok])

text \<open>C6: No staged row is ever undecodable: after any run, reading a row back by id returns it, and
  the shape it names is recorded and parses to a descriptor with exactly that fingerprint, even
  though descriptors nothing references are pruned along the way.\<close>

theorem staged_rows_recoverable:
  assumes "staging_run s s'" "staging_ok (st_db s)" "st_faults s' = []"
    and "r \<in> set (db_staging (st_db s'))"
  shows "Rows [sr_id r] s' = (Inr [staged_row r], s')
    \<and> (\<exists>d. Schema (sr_schema_fp r) s' = (Inr d, s') \<and> d_fp d = sr_schema_fp r \<and> descriptor_ok d)"
proof -
  have ok: "staging_ok (st_db s')"
    using grows_run [OF assms(1,2)] by (simp add: grows_def)
  show ?thesis
    using Rows_nofault [OF assms(3) ok, of "[r]"] Schema_nofault [OF assms(3) ok] assms(4) by simp
qed

theorem staged_rows_recoverable_witness:
  "Rows [2] sample_store = (Inr [staged_row (staged_new 2 (sample_append 1))], sample_store)"
  using staged_rows_recoverable [OF sample_staging_run empty_ok sample_store_sel(3),
      of "staged_new 2 (sample_append 1)"]
  by (simp add: sample_store_sel) (simp add: staged_new_def)

text \<open>A row's history: between any two points of a run, a row keeps its id, table and creation
  time; once sealed it keeps its key, shape and payload for good; once quarantined it keeps its mark;
  and an id that was handed out and is gone never names a row again.\<close>

theorem staged_row_history:
  assumes "staging_run s s'" "staging_ok (st_db s)" "r' \<in> set (db_staging (st_db s'))"
    and "sr_id r' \<le> db_seq (st_db s)"
  shows "\<exists>r\<in>set (db_staging (st_db s)). sr_id r' = sr_id r \<and> sr_namespace r' = sr_namespace r
    \<and> sr_table r' = sr_table r \<and> sr_created_at r' = sr_created_at r
    \<and> (sr_batch_key r \<noteq> None \<longrightarrow> sr_batch_key r' = sr_batch_key r \<and> sr_payload r' = sr_payload r
         \<and> sr_schema_fp r' = sr_schema_fp r)
    \<and> (sr_quarantined_at r \<noteq> None \<longrightarrow> sr_quarantined_at r' = sr_quarantined_at r
         \<and> sr_quarantine_error r' = sr_quarantine_error r)"
  using grows_run [OF assms(1,2)] assms(3,4) unfolding grows_def evolves_def row_le_def
  by (metis leD)

theorem staged_row_history_witness:
  "\<exists>s'. Quarantine [2] 9000000 ''bad'' sealed_store = (Inr (), s') \<and>
    (\<forall>r'\<in>set (db_staging (st_db s')). sr_id r' = 2 \<longrightarrow> sr_batch_key r' = Some ''k'')"
proof -
  obtain s' where run: "Quarantine [2] 9000000 ''bad'' sealed_store = (Inr (), s')"
    using sample_quarantine by blast
  have "staging_run sealed_store s'"
    by (rule run_step [OF run_refl step_quarantine [OF run]])
  from staged_row_history [OF this sealed_ok] show ?thesis
    using run by (fastforce simp: sealed_store_sel sealed_store_seq staged_new_def)
qed

text \<open>C7: Durable acceptance: a successful append hands out the next ids in order and adds exactly the
  given records, unsealed, after every row already there; a failed one, at whichever statement, adds
  nothing.\<close>

theorem append_all_or_nothing:
  assumes "AppendBatch rows s = (res, s')"
  shows "case res of
      Inl e \<Rightarrow> st_db s' = st_db s
    | Inr ids \<Rightarrow>
        ids = map (\<lambda>k. db_seq (st_db s) + 1 + int k) [0..<length rows]
        \<and> db_staging (st_db s') = db_staging (st_db s) @ map2 staged_new ids rows
        \<and> db_seq (st_db s') = db_seq (st_db s) + int (length rows)"
  by (rule AppendBatch_result [OF assms])

theorem append_all_or_nothing_witness:
  "db_staging (st_db sample_store) = map2 staged_new [1, 2] [sample_append 0, sample_append 1]"
  using append_all_or_nothing [OF sample_run] by (simp add: empty_store_def)

text \<open>C8: Sealing is exact and all or nothing. A seal that succeeds names distinct rows, each of which
  was an unsealed, unquarantined row of the request's table; it stamps the key on exactly those,
  replaces exactly the payloads it was given, and leaves every other row alone. A seal that fails,
  for whatever reason, changes nothing.\<close>

theorem seal_exact:
  assumes "Seal req s = (res, s')" "staging_ok (st_db s)"
  shows "case res of
      Inl e \<Rightarrow> st_db s' = st_db s
    | Inr _ \<Rightarrow> distinct (map slr_ID (srq_Rows req))
        \<and> (\<forall>row\<in>set (srq_Rows req). \<exists>r\<in>set (db_staging (st_db s)). sr_id r = slr_ID row
              \<and> sr_namespace r = srq_Namespace req \<and> sr_table r = srq_Table req
              \<and> sr_batch_key r = None \<and> sr_quarantined_at r = None)
        \<and> db_staging (st_db s') = map (seal_effect req (srq_Rows req)) (db_staging (st_db s))"
proof (cases res)
  case (Inl e)
  have "atomic (Seal req)"
    unfolding Seal_def Let_def by (auto intro: atomic_intros)
  then show ?thesis
    using assms Inl by (auto simp: atomic_def)
next
  case (Inr u)
  then show ?thesis
    using Seal_Inr [of req s u s'] assms
    by (auto simp: can_seal_def sealable_def in_table_def)
qed

theorem seal_exact_witness:
  "map sr_batch_key (db_staging (st_db sealed_store)) = [None, Some ''k'']"
  using seal_exact [OF sample_seal_run sample_ok]
  by (simp add: sample_store_sel seal_effect_def sample_seal_def staged_new_def)

text \<open>C9: Quarantine takes a sealed batch whole or not at all. When it succeeds, of any two rows sealed
  into one batch it was given both or neither; exactly the given rows are marked, the first mark
  stands, and no row is removed. When it fails, nothing changes.\<close>

theorem quarantine_whole_batches:
  assumes "Quarantine ids at reason s = (res, s')" "ids \<noteq> []" "staging_ok (st_db s)"
  shows "case res of
      Inl e \<Rightarrow> st_db s' = st_db s
    | Inr _ \<Rightarrow> (\<forall>r\<in>set (db_staging (st_db s)). \<forall>r'\<in>set (db_staging (st_db s)).
          batch_of r \<noteq> None \<longrightarrow> batch_of r' = batch_of r \<longrightarrow> (sr_id r \<in> set ids \<longleftrightarrow> sr_id r' \<in> set ids))
        \<and> db_staging (st_db s') = map (quarantine_effect at reason (set ids)) (db_staging (st_db s))"
proof (cases res)
  case (Inl e)
  have "atomic (Quarantine ids at reason)"
    unfolding Quarantine_def by (auto intro: atomic_intros)
  then show ?thesis
    using assms Inl by (auto simp: atomic_def)
next
  case (Inr u)
  show ?thesis
    using Quarantine_Inr [of ids at reason s u s'] assms unfolding Inr sum.case by (metis not_None_eq)
qed

theorem quarantine_whole_batches_witness:
  "\<exists>s'. Quarantine [2] 9000000 ''bad'' sealed_store = (Inr (), s') \<and>
    map sr_quarantined_at (db_staging (st_db s')) = [None, Some 9]"
proof -
  obtain s' where run: "Quarantine [2] 9000000 ''bad'' sealed_store = (Inr (), s')"
    using sample_quarantine by blast
  from quarantine_whole_batches [OF run _ sealed_ok] show ?thesis
    by (simp add: run sealed_store_sel quarantine_effect_def staged_new_def UnixMilli_def)
qed

end
