(* ===== verification/StagingIndex.thy ===== *)
theory StagingIndex
  imports StagingProps
begin

text \<open>File \<open>internal/staging/index.go\<close>: the ordered pass over \<open>staging\<close> that measures the totals and
  groups every live row by table and batch key, and the claim that hands one table's batches to one
  writer. The Go maps are maps from keys to values; the two counting maps are association lists,
  because the code iterates over one of them.\<close>

section \<open>Types\<close>

record PendingRow =
  pr_ID :: int
  pr_SchemaFP :: string
  pr_ByteLen :: int

record PendingBatch =
  pb_Key :: string
  pb_Rows :: "PendingRow list"

record Index =
  ix_counters :: Counters
  ix_order :: "TableID list"
  ix_groups :: "TableID \<Rightarrow> PendingBatch list option"

text \<open>The locals of \<open>Scan\<close> beside the index it builds.\<close>

record scan_state =
  sc_index :: Index
  sc_position :: "TableID \<Rightarrow> (string \<Rightarrow> nat option) option"
  sc_quarantined :: "(batchID \<times> nat) list"
  sc_live :: "(batchID \<times> nat) list"

section \<open>Scan\<close>

definition table_of :: "Staging \<Rightarrow> TableID" where
  "table_of r = \<lparr>tid_Namespace = sr_namespace r, tid_Table = sr_table r\<rparr>"

definition key_of :: "Staging \<Rightarrow> string" where
  "key_of r = (case sr_batch_key r of None \<Rightarrow> '''' | Some k \<Rightarrow> k)"

definition pending_row :: "Staging \<Rightarrow> PendingRow" where
  "pending_row r = \<lparr>pr_ID = sr_id r, pr_SchemaFP = sr_schema_fp r, pr_ByteLen = sr_byte_len r\<rparr>"

definition count_up :: "'k \<Rightarrow> ('k \<times> nat) list \<Rightarrow> ('k \<times> nat) list" where
  "count_up k m = (case map_of m k of None \<Rightarrow> (k, 1) # m | Some n \<Rightarrow> AList.update k (n + 1) m)"

definition count_of :: "('k \<times> nat) list \<Rightarrow> 'k \<Rightarrow> nat" where
  "count_of m k = (case map_of m k of None \<Rightarrow> 0 | Some n \<Rightarrow> n)"

definition scan_count :: "Staging \<Rightarrow> scan_state \<Rightarrow> scan_state" where
  "scan_count r st =
    (let c = ix_counters (sc_index st);
         st = st\<lparr>sc_index := (sc_index st)\<lparr>ix_counters :=
                \<lparr>ctr_Records = ctr_Records c + 1, ctr_Bytes = ctr_Bytes c + sr_byte_len r\<rparr>\<rparr>\<rparr>
     in case batch_of r of
          None \<Rightarrow> st
        | Some b \<Rightarrow> if sr_quarantined_at r \<noteq> None then st\<lparr>sc_quarantined := count_up b (sc_quarantined st)\<rparr>
                    else st\<lparr>sc_live := count_up b (sc_live st)\<rparr>)"

definition scan_group :: "Staging \<Rightarrow> scan_state \<Rightarrow> scan_state" where
  "scan_group r st =
    (let i = table_of r; ix = sc_index st;
         (pos, order) = (case sc_position st i of
             None \<Rightarrow> (Map.empty, ix_order ix @ [i]) | Some p \<Rightarrow> (p, ix_order ix));
         group = (case ix_groups ix i of None \<Rightarrow> [] | Some g \<Rightarrow> g);
         key = key_of r;
         (at, pos, group) = (case pos key of
             None \<Rightarrow> (length group, pos(key \<mapsto> length group), group @ [\<lparr>pb_Key = key, pb_Rows = []\<rparr>])
           | Some at \<Rightarrow> (at, pos, group));
         b = group ! at
     in st\<lparr>sc_index := ix\<lparr>ix_order := order,
               ix_groups := (ix_groups ix)(i \<mapsto> group[at := b\<lparr>pb_Rows := pb_Rows b @ [pending_row r]\<rparr>])\<rparr>,
           sc_position := (sc_position st)(i \<mapsto> pos)\<rparr>)"

definition scan_row :: "scan_state \<Rightarrow> Staging \<Rightarrow> scan_state" where
  "scan_row st r =
    (let st = scan_count r st in if sr_quarantined_at r \<noteq> None then st else scan_group r st)"

definition scan_init :: scan_state where
  "scan_init = \<lparr>sc_index = \<lparr>ix_counters = \<lparr>ctr_Records = 0, ctr_Bytes = 0\<rparr>, ix_order = [],
      ix_groups = Map.empty\<rparr>, sc_position = Map.empty, sc_quarantined = [], sc_live = []\<rparr>"

definition Scan :: "Index op" where
  "Scan =
     op_bind (staging_wrap StagingKindRead (stmt q_ScanStagedRows)) (\<lambda>rows.
     let st = foldl scan_row scan_init rows in
     if \<exists>(b, n)\<in>set (sc_quarantined st). count_of (sc_live st) b > 0
     then staging_fail StagingKindState None
     else op_ret (sc_index st))"

definition Index_Counters :: "Index \<Rightarrow> Counters" where
  "Index_Counters ix = ix_counters ix"

definition Tables :: "Index \<Rightarrow> TableID list" where
  "Tables ix = filter (\<lambda>i. ix_groups ix i \<noteq> None) (ix_order ix)"

definition pendingBatches :: "string \<Rightarrow> string \<Rightarrow> Index \<Rightarrow> PendingBatch list" where
  "pendingBatches ns tbl ix =
    (case ix_groups ix \<lparr>tid_Namespace = ns, tid_Table = tbl\<rparr> of
       None \<Rightarrow> []
     | Some batches \<Rightarrow> filter (\<lambda>b. pb_Key b \<noteq> '''') batches @ filter (\<lambda>b. pb_Key b = '''') batches)"

definition Claim :: "string \<Rightarrow> string \<Rightarrow> Index \<Rightarrow> PendingBatch list \<times> Index" where
  "Claim ns tbl ix =
    (pendingBatches ns tbl ix,
     ix\<lparr>ix_groups := (ix_groups ix)(\<lparr>tid_Namespace = ns, tid_Table = tbl\<rparr> := None)\<rparr>)"

section \<open>What the pass computes\<close>

text \<open>The distinct elements of a list in order of first appearance.\<close>

definition firsts :: "'a list \<Rightarrow> 'a list" where
  "firsts xs = foldl (\<lambda>acc x. if x \<in> set acc then acc else acc @ [x]) [] xs"

lemma firsts_snoc: "firsts (xs @ [x]) = (if x \<in> set (firsts xs) then firsts xs else firsts xs @ [x])"
  by (simp add: firsts_def)

lemma firsts_Nil [simp]: "firsts [] = []"
  by (simp add: firsts_def)

lemma set_firsts [simp]: "set (firsts xs) = set xs"
  by (induction xs rule: rev_induct) (auto simp: firsts_snoc)

lemma distinct_firsts [simp]: "distinct (firsts xs)"
  by (induction xs rule: rev_induct) (simp_all add: firsts_snoc)

text \<open>The live rows of a table, and the batches they form: one per key, keys in order of first
  appearance, each with its rows in the order of the pass.\<close>

definition live_rows :: "TableID \<Rightarrow> Staging list \<Rightarrow> Staging list" where
  "live_rows i rows = filter (\<lambda>r. table_of r = i \<and> sr_quarantined_at r = None) rows"

definition batch_with :: "Staging list \<Rightarrow> string \<Rightarrow> PendingBatch" where
  "batch_with live key = \<lparr>pb_Key = key, pb_Rows = map pending_row (filter (\<lambda>r. key_of r = key) live)\<rparr>"

definition table_batches :: "TableID \<Rightarrow> Staging list \<Rightarrow> PendingBatch list" where
  "table_batches i rows =
    (let live = live_rows i rows in map (batch_with live) (firsts (map key_of live)))"

fun index_of :: "'a list \<Rightarrow> 'a \<Rightarrow> nat option" where
  "index_of [] x = None"
| "index_of (y # ys) x = (if y = x then Some 0 else map_option Suc (index_of ys x))"

lemma index_of_snoc:
  "index_of (xs @ [y]) x = (case index_of xs x of Some n \<Rightarrow> Some n | None \<Rightarrow> if x = y then Some (length xs) else None)"
  by (induction xs) (auto split: option.split)

lemma index_of_Some: "index_of xs x = Some n \<Longrightarrow> n < length xs \<and> xs ! n = x"
  by (induction xs arbitrary: n) (auto split: if_splits)

lemma index_of_None: "index_of xs x = None \<longleftrightarrow> x \<notin> set xs"
  by (induction xs) auto

text \<open>The loop invariant: after a prefix of the rows, the index is exactly what the prefix defines.\<close>

definition scan_inv :: "Staging list \<Rightarrow> scan_state \<Rightarrow> bool" where
  "scan_inv rows st \<longleftrightarrow>
    ix_counters (sc_index st)
      = \<lparr>ctr_Records = int (length rows), ctr_Bytes = sum_list (map sr_byte_len rows)\<rparr>
    \<and> ix_order (sc_index st) = firsts (map table_of (filter (\<lambda>r. sr_quarantined_at r = None) rows))
    \<and> (\<forall>i. ix_groups (sc_index st) i = (if live_rows i rows = [] then None else Some (table_batches i rows)))
    \<and> (\<forall>i. sc_position st i = (if live_rows i rows = [] then None
                               else Some (index_of (firsts (map key_of (live_rows i rows))))))
    \<and> (\<forall>b. count_of (sc_quarantined st) b
            = length (filter (\<lambda>r. batch_of r = Some b \<and> sr_quarantined_at r \<noteq> None) rows))
    \<and> (\<forall>b. count_of (sc_live st) b
            = length (filter (\<lambda>r. batch_of r = Some b \<and> sr_quarantined_at r = None) rows))
    \<and> (\<forall>b\<in>fst ` set (sc_quarantined st). 0 < count_of (sc_quarantined st) b)"

lemma count_of_count_up: "count_of (count_up k m) k' = count_of m k' + (if k' = k then 1 else 0)"
  by (auto simp: count_up_def count_of_def update_conv split: option.split)

lemma fst_count_up: "fst ` set (count_up k m) = insert k (fst ` set m)"
  by (auto simp: count_up_def dom_update split: option.split dest: map_of_SomeD)

lemma live_rows_snoc:
  "live_rows i (rows @ [r]) = live_rows i rows
     @ (if table_of r = i \<and> sr_quarantined_at r = None then [r] else [])"
  by (simp add: live_rows_def)

lemma table_batches_snoc:
  assumes "table_of r = i" "sr_quarantined_at r = None"
  shows "table_batches i (rows @ [r]) =
    (let g = table_batches i rows; ks = firsts (map key_of (live_rows i rows)) in
     case index_of ks (key_of r) of
       None \<Rightarrow> g @ [\<lparr>pb_Key = key_of r, pb_Rows = [pending_row r]\<rparr>]
     | Some at \<Rightarrow> g[at := (g ! at)\<lparr>pb_Rows := pb_Rows (g ! at) @ [pending_row r]\<rparr>])"
proof -
  let ?live = "live_rows i rows" and ?ks = "firsts (map key_of (live_rows i rows))"
  have other: "batch_with (?live @ [r]) k = batch_with ?live k" if "k \<noteq> key_of r" for k
    using that by (simp add: batch_with_def)
  have same: "batch_with (?live @ [r]) (key_of r) = (batch_with ?live (key_of r))\<lparr>pb_Rows :=
      pb_Rows (batch_with ?live (key_of r)) @ [pending_row r]\<rparr>"
    by (simp add: batch_with_def)
  show ?thesis
  proof (cases "index_of ?ks (key_of r)")
    case None
    then have notin: "key_of r \<notin> set ?ks"
      by (simp add: index_of_None)
    then have "filter (\<lambda>x. key_of x = key_of r) ?live = []"
      by (auto simp: filter_empty_conv image_iff)
    then have "batch_with (?live @ [r]) (key_of r) = \<lparr>pb_Key = key_of r, pb_Rows = [pending_row r]\<rparr>"
      by (simp add: batch_with_def)
    moreover have "map (batch_with (?live @ [r])) ?ks = map (batch_with ?live) ?ks"
      by (intro map_cong refl other) (use notin in metis)
    ultimately show ?thesis
      using assms None notin by (simp add: table_batches_def live_rows_snoc firsts_snoc Let_def)
  next
    case (Some at)
    note at = index_of_Some [OF Some]
    have "map (batch_with (?live @ [r])) ?ks
        = (map (batch_with ?live) ?ks)[at := batch_with (?live @ [r]) (key_of r)]"
    proof (rule nth_equalityI)
      fix n
      assume n: "n < length (map (batch_with (?live @ [r])) ?ks)"
      show "map (batch_with (?live @ [r])) ?ks ! n
          = ((map (batch_with ?live) ?ks)[at := batch_with (?live @ [r]) (key_of r)]) ! n"
      proof (cases "n = at")
        case False
        then have "?ks ! n \<noteq> key_of r"
          using at n nth_eq_iff_index_eq [OF distinct_firsts, of n "map key_of ?live" at] by auto
        then show ?thesis
          using False n other by simp
      qed (use at n in simp)
    qed simp
    moreover have "key_of r \<in> set ?ks"
      using at nth_mem by metis
    ultimately show ?thesis
      using assms Some at same by (simp add: table_batches_def live_rows_snoc firsts_snoc Let_def)
  qed
qed

lemma scan_count_sel [simp]:
  "ix_counters (sc_index (scan_count r st)) =
    \<lparr>ctr_Records = ctr_Records (ix_counters (sc_index st)) + 1,
     ctr_Bytes = ctr_Bytes (ix_counters (sc_index st)) + sr_byte_len r\<rparr>"
  "ix_order (sc_index (scan_count r st)) = ix_order (sc_index st)"
  "ix_groups (sc_index (scan_count r st)) = ix_groups (sc_index st)"
  "sc_position (scan_count r st) = sc_position st"
  by (auto simp: scan_count_def Let_def split: option.split)

lemma scan_count_maps:
  "sc_quarantined (scan_count r st) =
    (case batch_of r of Some b \<Rightarrow> if sr_quarantined_at r \<noteq> None then count_up b (sc_quarantined st)
                                else sc_quarantined st
     | None \<Rightarrow> sc_quarantined st)"
  "sc_live (scan_count r st) =
    (case batch_of r of Some b \<Rightarrow> if sr_quarantined_at r = None then count_up b (sc_live st) else sc_live st
     | None \<Rightarrow> sc_live st)"
  by (auto simp: scan_count_def Let_def split: option.split)

lemma scan_group_sel [simp]:
  "ix_counters (sc_index (scan_group r st)) = ix_counters (sc_index st)"
  "sc_quarantined (scan_group r st) = sc_quarantined st"
  "sc_live (scan_group r st) = sc_live st"
  by (simp_all add: scan_group_def Let_def split: option.split prod.split)

text \<open>Grouping one live row does to the invariant what appending the row does.\<close>

lemma scan_group_step:
  assumes groups: "\<And>i. ix_groups (sc_index st) i = (if live_rows i rows = [] then None else Some (table_batches i rows))"
    and pos: "\<And>i. sc_position st i = (if live_rows i rows = [] then None
                               else Some (index_of (firsts (map key_of (live_rows i rows)))))"
    and order: "ix_order (sc_index st) = firsts (map table_of (filter (\<lambda>r. sr_quarantined_at r = None) rows))"
    and live: "sr_quarantined_at r = None"
  shows "ix_groups (sc_index (scan_group r st)) i
      = (if live_rows i (rows @ [r]) = [] then None else Some (table_batches i (rows @ [r])))"
    and "sc_position (scan_group r st) i = (if live_rows i (rows @ [r]) = [] then None
           else Some (index_of (firsts (map key_of (live_rows i (rows @ [r]))))))"
    and "ix_order (sc_index (scan_group r st))
      = firsts (map table_of (filter (\<lambda>r. sr_quarantined_at r = None) (rows @ [r])))"
proof -
  let ?i = "table_of r" and ?ks = "firsts (map key_of (live_rows (table_of r) rows))"
  have len: "length (table_batches ?i rows) = length ?ks"
    by (simp add: table_batches_def Let_def)
  have snoc: "index_of (firsts (map key_of (live_rows ?i (rows @ [r])))) =
      (case index_of ?ks (key_of r) of
         None \<Rightarrow> (index_of ?ks)(key_of r \<mapsto> length ?ks) | Some _ \<Rightarrow> index_of ?ks)"
    using index_of_None [of ?ks "key_of r"]
    by (auto simp: live_rows_snoc live firsts_snoc index_of_snoc fun_eq_iff split: option.split)
  have mem: "?i \<in> table_of ` {x \<in> set rows. sr_quarantined_at x = None} \<longleftrightarrow> live_rows ?i rows \<noteq> []"
    by (auto simp: live_rows_def filter_empty_conv image_iff)
  have empty: "live_rows ?i rows = [] \<Longrightarrow> ?ks = [] \<and> table_batches ?i rows = []"
    by (simp add: table_batches_def)
  have batches: "table_batches ?i (rows @ [r]) =
      (let g = table_batches ?i rows in
       case index_of ?ks (key_of r) of
         None \<Rightarrow> g @ [\<lparr>pb_Key = key_of r, pb_Rows = [pending_row r]\<rparr>]
       | Some at \<Rightarrow> g[at := (g ! at)\<lparr>pb_Rows := pb_Rows (g ! at) @ [pending_row r]\<rparr>])"
    using table_batches_snoc [OF refl live, of rows] by (simp add: Let_def)
  have other: "i \<noteq> ?i \<Longrightarrow> live_rows i (rows @ [r]) = live_rows i rows
      \<and> table_batches i (rows @ [r]) = table_batches i rows"
    by (auto simp: live_rows_snoc table_batches_def)
  have nonempty: "live_rows ?i (rows @ [r]) \<noteq> []"
    by (simp add: live_rows_snoc live)
  show "ix_groups (sc_index (scan_group r st)) i
      = (if live_rows i (rows @ [r]) = [] then None else Some (table_batches i (rows @ [r])))"
    using other nonempty empty list_update_length [of "table_batches ?i rows" _ "[]", unfolded len]
    by (cases "i = ?i") (auto simp: scan_group_def Let_def groups pos batches nth_append len
        split: option.split)
  show "sc_position (scan_group r st) i = (if live_rows i (rows @ [r]) = [] then None
           else Some (index_of (firsts (map key_of (live_rows i (rows @ [r]))))))"
    using other nonempty empty len
    by (cases "i = ?i") (auto simp: scan_group_def Let_def groups pos snoc split: option.split)
  show "ix_order (sc_index (scan_group r st))
      = firsts (map table_of (filter (\<lambda>r. sr_quarantined_at r = None) (rows @ [r])))"
    using mem by (auto simp: scan_group_def Let_def pos order live firsts_snoc split: option.split)
qed

lemma scan_inv_step:
  assumes "scan_inv rows st"
  shows "scan_inv (rows @ [r]) (scan_row st r)"
proof -
  let ?st = "scan_count r st"
  have counts: "count_of (sc_quarantined ?st) b
        = length (filter (\<lambda>r. batch_of r = Some b \<and> sr_quarantined_at r \<noteq> None) (rows @ [r]))"
      "count_of (sc_live ?st) b
        = length (filter (\<lambda>r. batch_of r = Some b \<and> sr_quarantined_at r = None) (rows @ [r]))" for b
    using assms by (auto simp: scan_inv_def scan_count_maps count_of_count_up split: option.split)
  have keys: "\<forall>b\<in>fst ` set (sc_quarantined ?st). 0 < count_of (sc_quarantined ?st) b"
  proof
    fix b
    assume "b \<in> fst ` set (sc_quarantined ?st)"
    then have "b \<in> fst ` set (sc_quarantined st) \<or> batch_of r = Some b \<and> sr_quarantined_at r \<noteq> None"
      unfolding scan_count_maps
      by (cases "batch_of r"; cases "sr_quarantined_at r") (auto simp only: fst_count_up option.case
          if_True if_False simp_thms insert_iff not_None_eq option.distinct)
    moreover have "count_of (sc_quarantined ?st) b = count_of (sc_quarantined st) b
        + (if batch_of r = Some b \<and> sr_quarantined_at r \<noteq> None then 1 else 0)"
      by (auto simp: scan_count_maps count_of_count_up split: option.split)
    moreover have "b \<in> fst ` set (sc_quarantined st) \<Longrightarrow> 0 < count_of (sc_quarantined st) b"
      using assms unfolding scan_inv_def by blast
    ultimately show "0 < count_of (sc_quarantined ?st) b"
      by auto
  qed
  have prev: "ix_counters (sc_index st)
        = \<lparr>ctr_Records = int (length rows), ctr_Bytes = sum_list (map sr_byte_len rows)\<rparr>"
    "ix_order (sc_index st) = firsts (map table_of (filter (\<lambda>r. sr_quarantined_at r = None) rows))"
    "\<And>i. ix_groups (sc_index st) i = (if live_rows i rows = [] then None else Some (table_batches i rows))"
    "\<And>i. sc_position st i = (if live_rows i rows = [] then None
        else Some (index_of (firsts (map key_of (live_rows i rows)))))"
    using assms unfolding scan_inv_def by blast+
  show ?thesis
  proof (cases "sr_quarantined_at r = None")
    case True
    then have row: "scan_row st r = scan_group r ?st"
      by (simp add: scan_row_def Let_def)
    note step = scan_group_step [of ?st rows, unfolded scan_count_sel, OF prev(3,4,2) True]
    show ?thesis
      unfolding scan_inv_def row scan_group_sel
      by (intro conjI allI counts keys step) (simp add: prev(1))
  next
    case False
    then have row: "scan_row st r = ?st"
      by (simp add: scan_row_def Let_def)
    have same: "live_rows i (rows @ [r]) = live_rows i rows" for i
      using False by (simp add: live_rows_snoc)
    have same': "table_batches i (rows @ [r]) = table_batches i rows" for i
      using same by (simp add: table_batches_def)
    show ?thesis
      unfolding scan_inv_def row same same' scan_count_sel
      by (intro conjI allI counts keys prev(3,4)) (simp_all add: prev(1,2) False)
  qed
qed

lemma scan_inv_fold: "scan_inv rows (foldl scan_row scan_init rows)"
proof (induction rows rule: rev_induct)
  case Nil
  show ?case
    by (simp add: scan_inv_def scan_init_def live_rows_def count_of_def)
next
  case (snoc r rows)
  then show ?case
    using scan_inv_step by simp
qed

text \<open>The check for a batch only partly quarantined.\<close>

definition split_batch :: "Staging list \<Rightarrow> bool" where
  "split_batch rows \<longleftrightarrow> (\<exists>r\<in>set rows. \<exists>r'\<in>set rows. batch_of r \<noteq> None \<and> batch_of r' = batch_of r
     \<and> sr_quarantined_at r \<noteq> None \<and> sr_quarantined_at r' = None)"

lemma scan_refusal:
  "(\<exists>(b, n)\<in>set (sc_quarantined st). count_of (sc_live st) b > 0) \<longleftrightarrow> split_batch rows"
  if "scan_inv rows st"
proof -
  have q: "b \<in> fst ` set (sc_quarantined st) \<longleftrightarrow> (\<exists>r\<in>set rows. batch_of r = Some b \<and> sr_quarantined_at r \<noteq> None)" for b
  proof
    assume "b \<in> fst ` set (sc_quarantined st)"
    then have "0 < length (filter (\<lambda>r. batch_of r = Some b \<and> sr_quarantined_at r \<noteq> None) rows)"
      using that by (auto simp: scan_inv_def)
    then show "\<exists>r\<in>set rows. batch_of r = Some b \<and> sr_quarantined_at r \<noteq> None"
      by (auto simp: filter_empty_conv)
  next
    assume "\<exists>r\<in>set rows. batch_of r = Some b \<and> sr_quarantined_at r \<noteq> None"
    then have "0 < length (filter (\<lambda>r. batch_of r = Some b \<and> sr_quarantined_at r \<noteq> None) rows)"
      by (auto simp: filter_empty_conv)
    then have "0 < count_of (sc_quarantined st) b"
      using that by (simp add: scan_inv_def)
    then show "b \<in> fst ` set (sc_quarantined st)"
      by (auto simp: count_of_def map_of_eq_None_iff split: option.splits dest: map_of_SomeD)
         (metis fst_conv imageI map_of_SomeD)
  qed
  have l: "0 < count_of (sc_live st) b \<longleftrightarrow> (\<exists>r\<in>set rows. batch_of r = Some b \<and> sr_quarantined_at r = None)" for b
    using that by (simp add: scan_inv_def filter_empty_conv)
  have "(\<exists>(b, n)\<in>set (sc_quarantined st). count_of (sc_live st) b > 0)
      \<longleftrightarrow> (\<exists>b\<in>fst ` set (sc_quarantined st). 0 < count_of (sc_live st) b)"
    by force
  also have "\<dots> \<longleftrightarrow> split_batch rows"
    using q l unfolding split_batch_def by (metis not_None_eq)
  finally show ?thesis .
qed

section \<open>Properties\<close>

lemma Scan_Inr:
  assumes "Scan s = (Inr ix, s')"
  shows "\<not> split_batch (db_staging (st_db s))"
    "ix_counters ix = \<lparr>ctr_Records = int (length (db_staging (st_db s))),
        ctr_Bytes = sum_list (map sr_byte_len (db_staging (st_db s)))\<rparr>"
    "ix_order ix = firsts (map table_of (filter (\<lambda>r. sr_quarantined_at r = None) (db_staging (st_db s))))"
    "ix_groups ix i = (if live_rows i (db_staging (st_db s)) = [] then None
        else Some (table_batches i (db_staging (st_db s))))"
proof -
  let ?rows = "db_staging (st_db s)"
  let ?st = "foldl scan_row scan_init ?rows"
  from assms obtain rows s1 where run: "stmt q_ScanStagedRows s = (Inr rows, s1)"
    by (auto simp: Scan_def op_bind_Inr staging_wrap_def op_wrap_Inr)
  from stmt_Inr [OF this] have "rows = ?rows"
    by (simp add: q_ScanStagedRows_def)
  with run have "stmt q_ScanStagedRows s = (Inr ?rows, s1)"
    by simp
  then have "\<not> (\<exists>(b, n)\<in>set (sc_quarantined ?st). count_of (sc_live ?st) b > 0)" and ix: "ix = sc_index ?st"
    using assms by (auto simp: Scan_def op_bind_Inr staging_wrap_def op_wrap_Inr Let_def
        staging_fail_def split: if_splits)
  then show "\<not> split_batch ?rows"
    using scan_refusal [OF scan_inv_fold] by blast
  have inv: "scan_inv ?rows ?st"
    by (rule scan_inv_fold)
  show "ix_counters ix = \<lparr>ctr_Records = int (length ?rows), ctr_Bytes = sum_list (map sr_byte_len ?rows)\<rparr>"
    "ix_order ix = firsts (map table_of (filter (\<lambda>r. sr_quarantined_at r = None) ?rows))"
    "ix_groups ix i = (if live_rows i ?rows = [] then None else Some (table_batches i ?rows))"
    using inv unfolding scan_inv_def ix by blast+
qed

lemma Scan_nofault:
  assumes "st_faults s = []" "\<not> split_batch (db_staging (st_db s))"
  shows "\<exists>ix. Scan s = (Inr ix, s)"
proof -
  let ?st = "foldl scan_row scan_init (db_staging (st_db s))"
  have "\<not> (\<exists>(b, n)\<in>set (sc_quarantined ?st). count_of (sc_live ?st) b > 0)"
    using scan_refusal [OF scan_inv_fold] assms(2) by blast
  then show ?thesis
    using assms(1)
    by (simp add: Scan_def op_bind_def staging_wrap_def op_wrap_def stmt_nofault q_ScanStagedRows_def
        op_ret_def Let_def split_beta)
qed

lemma Scan_split:
  assumes "st_faults s = []" "split_batch (db_staging (st_db s))"
  shows "Scan s = (Inl (NewStagingError StagingKindState (st_path s) None), s)"
proof -
  let ?st = "foldl scan_row scan_init (db_staging (st_db s))"
  have "\<exists>(b, n)\<in>set (sc_quarantined ?st). count_of (sc_live ?st) b > 0"
    using scan_refusal [OF scan_inv_fold] assms(2) by blast
  then show ?thesis
    using assms(1)
    by (simp add: Scan_def op_bind_def staging_wrap_def op_wrap_def stmt_nofault q_ScanStagedRows_def
        staging_fail_def Let_def split_beta)
qed

lemma firsts_filter: "filter P (firsts xs) = firsts (filter P xs)"
  by (induction xs rule: rev_induct) (auto simp: firsts_snoc)

lemma filter_eq_firsts: "filter (\<lambda>x. x = k) (firsts xs) = (if k \<in> set xs then [k] else [])"
  by (induction xs rule: rev_induct) (auto simp: firsts_snoc)

text \<open>The replay scan measures what SQL measures and refuses exactly the databases that would replay
  a shortened batch: it fails with kind \<open>state\<close> if and only if some sealed batch is partly
  quarantined, and otherwise its totals are the aggregate of \<open>Counters\<close>, quarantined rows included,
  and its tables are those with a live row, in the order their first one was staged.\<close>

theorem scan_measures_and_refuses:
  assumes "st_faults s = []"
  shows "if split_batch (db_staging (st_db s))
    then Scan s = (Inl (NewStagingError StagingKindState (st_path s) None), s)
    else \<exists>ix. Scan s = (Inr ix, s) \<and> Store_Counters s = (Inr (Index_Counters ix), s)
      \<and> Tables ix = firsts (map table_of (filter (\<lambda>r. sr_quarantined_at r = None) (db_staging (st_db s))))"
proof (cases "split_batch (db_staging (st_db s))")
  case True
  then show ?thesis
    using Scan_split [OF assms] by simp
next
  case False
  from Scan_nofault [OF assms this] obtain ix where ix: "Scan s = (Inr ix, s)" by blast
  have "Store_Counters s = (Inr (Index_Counters ix), s)"
    using assms Scan_Inr(2) [OF ix]
    by (simp add: Store_Counters_def op_bind_def staging_wrap_def op_wrap_def stmt_nofault
        q_StagedTotals_def op_ret_def Index_Counters_def)
  moreover have "ix_groups ix i \<noteq> None" if "i \<in> set (ix_order ix)" for i
    using that Scan_Inr(3,4) [OF ix] by (auto simp: live_rows_def filter_empty_conv)
  then have "Tables ix = ix_order ix"
    by (simp add: Tables_def)
  ultimately show ?thesis
    using False ix Scan_Inr(3) [OF ix] by auto
qed

theorem scan_measures_and_refuses_witness:
  "\<exists>ix. Scan sealed_store = (Inr ix, sealed_store) \<and> Tables ix = [\<lparr>tid_Namespace = ''ns'', tid_Table = ''t''\<rparr>]"
proof -
  have "\<not> split_batch (db_staging (st_db sealed_store))"
    by (simp add: split_batch_def sealed_store_sel staged_new_def)
  then show ?thesis
    using scan_measures_and_refuses [OF sealed_store_sel(2)]
    by (auto simp: sealed_store_sel staged_new_def table_of_def firsts_def sample_append_def)
qed

text \<open>Claiming a table hands out its live rows completely, in replay order, and once: the sealed
  batches come first in the order their first row was staged, each with exactly the rows stored under
  its key in id order; the rows never sealed come last as one batch; a second claim is empty and no
  other table's batches move.\<close>

theorem claim_hands_out_once:
  assumes "Scan s = (Inr ix, s')" "live = live_rows \<lparr>tid_Namespace = ns, tid_Table = tbl\<rparr> (db_staging (st_db s))"
  shows "fst (Claim ns tbl ix)
      = map (batch_with live) (firsts (filter (\<lambda>k. k \<noteq> '''') (map key_of live)))
        @ (if '''' \<in> set (map key_of live) then [batch_with live ''''] else [])
    \<and> fst (Claim ns tbl (snd (Claim ns tbl ix))) = []
    \<and> (\<forall>ns' tbl'. (ns', tbl') \<noteq> (ns, tbl) \<longrightarrow>
        fst (Claim ns' tbl' (snd (Claim ns tbl ix))) = fst (Claim ns' tbl' ix))"
proof (intro conjI allI impI)
  let ?i = "\<lparr>tid_Namespace = ns, tid_Table = tbl\<rparr>"
  have "pendingBatches ns tbl ix
      = map (batch_with live) (filter (\<lambda>k. k \<noteq> '''') (firsts (map key_of live)))
        @ map (batch_with live) (filter (\<lambda>k. k = '''') (firsts (map key_of live)))"
    using Scan_Inr(4) [OF assms(1), of ?i]
    by (auto simp: pendingBatches_def table_batches_def Let_def filter_map comp_def batch_with_def
        assms(2))
  then show "fst (Claim ns tbl ix)
      = map (batch_with live) (firsts (filter (\<lambda>k. k \<noteq> '''') (map key_of live)))
        @ (if '''' \<in> set (map key_of live) then [batch_with live ''''] else [])"
    by (simp add: Claim_def filter_eq_firsts flip: firsts_filter)
  show "fst (Claim ns tbl (snd (Claim ns tbl ix))) = []"
    by (simp add: Claim_def pendingBatches_def)
  show "fst (Claim ns' tbl' (snd (Claim ns tbl ix))) = fst (Claim ns' tbl' ix)"
    if "(ns', tbl') \<noteq> (ns, tbl)" for ns' tbl'
    using that by (auto simp: Claim_def pendingBatches_def)
qed

theorem claim_hands_out_once_witness:
  "\<exists>ix. Scan sealed_store = (Inr ix, sealed_store) \<and>
    map (\<lambda>b. (pb_Key b, map pr_ID (pb_Rows b))) (fst (Claim ''ns'' ''t'' ix)) = [(''k'', [2]), ('''', [1])]"
proof -
  have "\<not> split_batch (db_staging (st_db sealed_store))"
    by (simp add: split_batch_def sealed_store_sel staged_new_def)
  from Scan_nofault [OF sealed_store_sel(2) this] obtain ix where
    ix: "Scan sealed_store = (Inr ix, sealed_store)" by blast
  then show ?thesis
    using claim_hands_out_once [OF ix refl, of "''ns''" "''t''"]
    by (simp add: sealed_store_sel staged_new_def live_rows_def table_of_def sample_append_def key_of_def
        batch_with_def pending_row_def firsts_def)
qed

end
