(* ===== verification/StagingSpool.thy ===== *)
theory StagingSpool
  imports StagingIndex
begin

text \<open>File \<open>internal/staging/spool.go\<close>: the durable record of the local Parquet files, the shapes they
  were written under, and which of them a bucket has confirmed. \<open>spool_schemas\<close> is the second
  provider of the contract \<open>schema_table\<close>.\<close>

section \<open>Types\<close>

text \<open>The zero \<open>CommittedAt\<close> of a file no bucket has confirmed is \<open>None\<close>; the entries of \<open>SpoolBacklog\<close>
  leave it zero and those of \<open>SpoolEvictable\<close> leave \<open>SchemaFP\<close> empty, as in the code.\<close>

record SpoolEntry =
  spe_entry_key :: string
  spe_Namespace :: string
  spe_Table :: string
  spe_SchemaFP :: string
  spe_ByteLen :: int
  spe_CreatedAt :: int
  spe_CommittedAt :: "int option"

record SpoolRecord =
  spr_Namespace :: string
  spr_Table :: string
  spr_BatchKey :: string
  spr_Descriptor :: "Descriptor option"
  spr_ByteLen :: int
  spr_CreatedAt :: int

section \<open>Operations\<close>

definition RecordSpoolFile :: "SpoolRecord \<Rightarrow> unit op" where
  "RecordSpoolFile rec =
    (if spr_Namespace rec = '''' \<or> spr_Table rec = '''' then staging_fail StagingKindWrite None
     else if spr_BatchKey rec = '''' then staging_fail StagingKindWrite None
     else case spr_Descriptor rec of
       None \<Rightarrow> staging_fail StagingKindWrite None
     | Some d \<Rightarrow>
         staging_wrap StagingKindWrite (tx (
           op_bind (stmt (q_UpsertSpoolSchema (d_fp d) (d_encoded d))) (\<lambda>_.
           stmt (q_UpsertSpoolFile (spr_BatchKey rec) (spr_Namespace rec) (spr_Table rec) (d_fp d)
                   (spr_ByteLen rec) (UnixMilli (spr_CreatedAt rec)))))))"

definition MarkSpoolCommitted :: "string \<Rightarrow> int \<Rightarrow> unit op" where
  "MarkSpoolCommitted batchKey at =
    (if batchKey = '''' then staging_fail StagingKindWrite None
     else op_bind (staging_wrap StagingKindWrite (stmt (q_MarkSpoolFileCommitted (UnixMilli at) batchKey))) (\<lambda>_.
          op_ret ()))"

definition SpoolSchema :: "string \<Rightarrow> Descriptor op" where
  "SpoolSchema fp =
     op_bind (staging_wrap StagingKindRead (stmt (q_GetSpoolSchema fp))) (\<lambda>raw.
     case raw of None \<Rightarrow> staging_fail StagingKindState (Some sql_ErrNoRows)
               | Some b \<Rightarrow> op_lift (ParseDescriptor b))"

definition SpoolBacklog :: "string \<Rightarrow> string \<Rightarrow> SpoolEntry list op" where
  "SpoolBacklog ns tbl =
     op_bind (staging_wrap StagingKindRead (stmt (q_SpoolBacklogForTable ns tbl))) (\<lambda>rows.
     op_ret (map (\<lambda>r. \<lparr>spe_entry_key = sf_batch_key r, spe_Namespace = ns, spe_Table = tbl,
       spe_SchemaFP = sf_schema_fp r, spe_ByteLen = sf_byte_len r, spe_CreatedAt = time_UnixMilli (sf_created_at r),
       spe_CommittedAt = None\<rparr>) rows))"

definition SpoolBacklogTables :: "TableID list op" where
  "SpoolBacklogTables =
     op_bind (staging_wrap StagingKindRead (stmt q_SpoolTablesWithBacklog)) (\<lambda>rows.
     op_ret (map (\<lambda>(n, t). \<lparr>tid_Namespace = n, tid_Table = t\<rparr>) rows))"

definition SpoolCommittedBytes :: "int op" where
  "SpoolCommittedBytes = staging_wrap StagingKindRead (stmt q_SpoolCommittedBytes)"

definition evictable_entry :: "SpoolFile \<Rightarrow> SpoolEntry" where
  "evictable_entry r = \<lparr>spe_entry_key = sf_batch_key r, spe_Namespace = sf_namespace r,
     spe_Table = sf_table r, spe_SchemaFP = '''', spe_ByteLen = sf_byte_len r,
     spe_CreatedAt = time_UnixMilli (sf_created_at r), spe_CommittedAt = map_option time_UnixMilli (sf_committed_at r)\<rparr>"

definition SpoolEvictable :: "SpoolEntry list op" where
  "SpoolEvictable =
     op_bind (staging_wrap StagingKindRead (stmt q_SpoolEvictable)) (\<lambda>rows.
     op_ret (map evictable_entry rows))"

definition DeleteSpoolFile :: "string \<Rightarrow> unit op" where
  "DeleteSpoolFile batchKey =
     op_bind (staging_wrap StagingKindWrite (stmt (q_DeleteSpoolFile batchKey))) (\<lambda>_. op_ret ())"

definition PruneSpoolSchemas :: "int op" where
  "PruneSpoolSchemas = staging_wrap StagingKindWrite (stmt q_DeleteUnreferencedSpoolSchemas)"

section \<open>The contract of the descriptor table, provided again\<close>

interpretation spool_schemas: schema_table "\<lambda>d. map_of (db_spool_schemas d)"
    "\<lambda>fp b d. snd (q_UpsertSpoolSchema fp b d)" "\<lambda>d. snd (q_DeleteUnreferencedSpoolSchemas d)"
    "\<lambda>d. sf_schema_fp ` set (db_spool_files d)"
  by unfold_locales
    (auto simp: q_UpsertSpoolSchema_def map_of_upsert q_DeleteUnreferencedSpoolSchemas_def Let_def
      map_of_filter_key)

section \<open>The invariant of the spool tables\<close>

definition spool_ok :: "db \<Rightarrow> bool" where
  "spool_ok d \<longleftrightarrow> distinct (map sf_batch_key (db_spool_files d))
     \<and> schemas_complete (map_of (db_spool_schemas d)) (sf_schema_fp ` set (db_spool_files d))
     \<and> schemas_addressed (map_of (db_spool_schemas d))"

text \<open>How a recorded file may change: its identity, its creation time and the moment a bucket confirmed
  it never do.\<close>

definition file_le :: "SpoolFile \<Rightarrow> SpoolFile \<Rightarrow> bool" where
  "file_le f g \<longleftrightarrow> sf_batch_key g = sf_batch_key f \<and> sf_namespace g = sf_namespace f
     \<and> sf_table g = sf_table f \<and> sf_created_at g = sf_created_at f
     \<and> (sf_committed_at f \<noteq> None \<longrightarrow> sf_committed_at g = sf_committed_at f)"

text \<open>The operations that record, mark or prune, which never forget a file.\<close>

definition keeps_files :: "db \<Rightarrow> db \<Rightarrow> bool" where
  "keeps_files d d' \<longleftrightarrow> (\<forall>f\<in>set (db_spool_files d). \<exists>g\<in>set (db_spool_files d'). file_le f g)"

definition spool_grows :: "db \<Rightarrow> db \<Rightarrow> bool" where
  "spool_grows d0 d \<longleftrightarrow> spool_ok d \<and> keeps_files d0 d"

lemma file_le_refl [simp]: "file_le f f"
  by (simp add: file_le_def)

lemma file_le_trans: "file_le f g \<Longrightarrow> file_le g h \<Longrightarrow> file_le f h"
  unfolding file_le_def by metis

lemma keeps_files_refl [simp]: "keeps_files d d"
  unfolding keeps_files_def using file_le_refl by blast

lemma keeps_files_mono: "set (db_spool_files d) \<subseteq> set (db_spool_files d') \<Longrightarrow> keeps_files d d'"
  unfolding keeps_files_def using file_le_refl by blast

lemma keeps_files_same: "db_spool_files d' = db_spool_files d \<Longrightarrow> keeps_files d d'"
  by (rule keeps_files_mono) simp

lemma keeps_files_trans: "keeps_files d d' \<Longrightarrow> keeps_files d' d'' \<Longrightarrow> keeps_files d d''"
  unfolding keeps_files_def using file_le_trans by meson

lemma spool_growsI: "spool_grows d0 d \<Longrightarrow> spool_ok d' \<Longrightarrow> keeps_files d d' \<Longrightarrow> spool_grows d0 d'"
  using keeps_files_trans by (auto simp: spool_grows_def)

text \<open>Rewriting rows in place, keys kept.\<close>

lemma spool_map_keeps:
  assumes "\<And>f. f \<in> set (db_spool_files d) \<Longrightarrow> file_le f (h f)"
    and "db_spool_files d' = map h (db_spool_files d)"
  shows "keeps_files d d'" "map sf_batch_key (db_spool_files d') = map sf_batch_key (db_spool_files d)"
  using assms by (auto simp: keeps_files_def file_le_def)

lemma spool_grows_UpsertSchema:
  assumes "spool_grows d0 d" "descriptor_ok dd"
  shows "spool_grows d0 (snd (q_UpsertSpoolSchema (d_fp dd) (d_encoded dd) d))"
proof (rule spool_growsI [OF assms(1)])
  show "spool_ok (snd (q_UpsertSpoolSchema (d_fp dd) (d_encoded dd) d))"
    using assms(1) spool_schemas.complete_put [of d] spool_schemas.addressed_put [of d, OF _ assms(2)]
    by (auto simp: spool_grows_def spool_ok_def q_UpsertSpoolSchema_def)
  show "keeps_files d (snd (q_UpsertSpoolSchema (d_fp dd) (d_encoded dd) d))"
    by (rule keeps_files_same) (simp add: q_UpsertSpoolSchema_def)
qed

lemma spool_grows_UpsertFile:
  assumes "spool_grows d0 d" "map_of (db_spool_schemas d) fp \<noteq> None"
  shows "spool_grows d0 (snd (q_UpsertSpoolFile key ns tbl fp n at d))"
proof (rule spool_growsI [OF assms(1)])
  let ?d = "snd (q_UpsertSpoolFile key ns tbl fp n at d)"
  let ?h = "\<lambda>f. if sf_batch_key f = key then f\<lparr>sf_schema_fp := fp, sf_byte_len := n\<rparr> else f"
  have ok: "spool_ok d"
    using assms(1) by (simp add: spool_grows_def)
  have keys: "map sf_batch_key (map ?h (db_spool_files d)) = map sf_batch_key (db_spool_files d)"
    by simp
  have files: "db_spool_files ?d = (if key \<in> sf_batch_key ` set (db_spool_files d)
      then map ?h (db_spool_files d) else db_spool_files d @
        [\<lparr>sf_batch_key = key, sf_namespace = ns, sf_table = tbl, sf_schema_fp = fp, sf_byte_len = n,
          sf_created_at = at, sf_committed_at = None\<rparr>])"
    and schemas: "db_spool_schemas ?d = db_spool_schemas d"
    by (simp_all add: q_UpsertSpoolFile_def)
  have "map sf_batch_key (db_spool_files ?d) = (if key \<in> sf_batch_key ` set (db_spool_files d)
      then map sf_batch_key (db_spool_files d) else map sf_batch_key (db_spool_files d) @ [key])"
    unfolding files by (simp add: keys del: map_map)
  then have "distinct (map sf_batch_key (db_spool_files ?d))"
    using ok by (auto simp: spool_ok_def)
  moreover have "schemas_complete (map_of (db_spool_schemas ?d)) (sf_schema_fp ` set (db_spool_files ?d))"
    using ok assms(2) unfolding files schemas by (auto simp: spool_ok_def schemas_complete_def)
  ultimately show "spool_ok ?d"
    using ok by (simp add: spool_ok_def schemas)
  show "keeps_files d ?d"
  proof (cases "key \<in> sf_batch_key ` set (db_spool_files d)")
    case True
    then show ?thesis
      by (intro spool_map_keeps(1) [where h = ?h]) (simp_all add: files file_le_def)
  next
    case False
    then show ?thesis
      by (intro keeps_files_mono) (simp add: files subset_insertI)
  qed
qed

lemma spool_grows_Mark:
  assumes "spool_grows d0 d"
  shows "spool_grows d0 (snd (q_MarkSpoolFileCommitted at key d))"
proof (rule spool_growsI [OF assms])
  let ?d = "snd (q_MarkSpoolFileCommitted at key d)"
  let ?h = "\<lambda>f. if sf_batch_key f = key \<and> sf_committed_at f = None then f\<lparr>sf_committed_at := Some at\<rparr> else f"
  have files: "db_spool_files ?d = map ?h (db_spool_files d)"
    and schemas: "db_spool_schemas ?d = db_spool_schemas d"
    by (simp_all add: q_MarkSpoolFileCommitted_def Let_def)
  have fps: "sf_schema_fp ` set (db_spool_files ?d) = sf_schema_fp ` set (db_spool_files d)"
    unfolding files set_map image_image by (rule image_cong) auto
  have "file_le f (?h f)" for f
    by (simp add: file_le_def)
  note keep = spool_map_keeps [of d ?h ?d, OF this files]
  show "keeps_files d ?d"
    by (rule keep(1))
  show "spool_ok ?d"
    using assms unfolding spool_ok_def schemas keep(2) fps by (simp add: spool_grows_def spool_ok_def)
qed

lemma spool_grows_Prune:
  assumes "spool_grows d0 d"
  shows "spool_grows d0 (snd (q_DeleteUnreferencedSpoolSchemas d))"
proof (rule spool_growsI [OF assms])
  have files: "db_spool_files (snd (q_DeleteUnreferencedSpoolSchemas d)) = db_spool_files d"
    by (simp add: q_DeleteUnreferencedSpoolSchemas_def Let_def)
  show "spool_ok (snd (q_DeleteUnreferencedSpoolSchemas d))"
    using assms spool_schemas.complete_prune [of d] spool_schemas.addressed_prune [of d]
    by (auto simp: spool_grows_def spool_ok_def files)
  show "keeps_files d (snd (q_DeleteUnreferencedSpoolSchemas d))"
    by (rule keeps_files_same) (rule files)
qed

lemma spool_ok_Delete: "spool_ok d \<Longrightarrow> spool_ok (snd (q_DeleteSpoolFile key d))"
  by (auto simp: spool_ok_def q_DeleteSpoolFile_def schemas_complete_def distinct_map
      intro: inj_on_subset)

lemma keeps_RecordSpoolFile:
  assumes "\<And>d. spr_Descriptor rec = Some d \<Longrightarrow> descriptor_ok d"
  shows "keeps (spool_grows d0) (RecordSpoolFile rec)"
proof -
  have "keeps (spool_grows d0) (tx (
      op_bind (stmt (q_UpsertSpoolSchema (d_fp d) (d_encoded d))) (\<lambda>_.
      stmt (q_UpsertSpoolFile (spr_BatchKey rec) (spr_Namespace rec) (spr_Table rec) (d_fp d)
        (spr_ByteLen rec) (UnixMilli (spr_CreatedAt rec))))))" if d: "spr_Descriptor rec = Some d" for d
  proof (rule keeps_tx_Inr)
    fix s :: store and x s'
    assume run: "op_bind (stmt (q_UpsertSpoolSchema (d_fp d) (d_encoded d))) (\<lambda>_.
      stmt (q_UpsertSpoolFile (spr_BatchKey rec) (spr_Namespace rec) (spr_Table rec) (d_fp d)
        (spr_ByteLen rec) (UnixMilli (spr_CreatedAt rec)))) s = (Inr x, s')" and P: "spool_grows d0 (st_db s)"
    from run obtain s1 where
      h: "stmt (q_UpsertSpoolSchema (d_fp d) (d_encoded d)) s = (Inr (), s1)"
        "stmt (q_UpsertSpoolFile (spr_BatchKey rec) (spr_Namespace rec) (spr_Table rec) (d_fp d)
        (spr_ByteLen rec) (UnixMilli (spr_CreatedAt rec))) s1 = (Inr x, s')"
      by (auto simp: op_bind_Inr)
    have s1: "st_db s1 = snd (q_UpsertSpoolSchema (d_fp d) (d_encoded d) (st_db s))"
      using stmt_Inr [OF h(1)] by simp
    moreover have "map_of (db_spool_schemas (st_db s1)) (d_fp d) \<noteq> None"
      unfolding s1 by (simp add: q_UpsertSpoolSchema_def map_of_upsert)
    ultimately show "spool_grows d0 (st_db s')"
      using spool_grows_UpsertFile [of d0 "st_db s1" "d_fp d"] spool_grows_UpsertSchema [OF P assms [OF d]]
        stmt_Inr [OF h(2)] by simp
  qed
  then show ?thesis
    unfolding RecordSpoolFile_def
    by (auto intro!: keeps_staging_fail keeps_staging_wrap split: option.split)
qed

lemma keeps_MarkSpoolCommitted: "keeps (spool_grows d0) (MarkSpoolCommitted key at)"
  unfolding MarkSpoolCommitted_def by (auto intro!: keeps_intros spool_grows_Mark)

lemma keeps_PruneSpoolSchemas: "keeps (spool_grows d0) PruneSpoolSchemas"
  unfolding PruneSpoolSchemas_def by (auto intro!: keeps_intros spool_grows_Prune)

lemma keeps_DeleteSpoolFile: "keeps spool_ok (DeleteSpoolFile key)"
  unfolding DeleteSpoolFile_def by (auto intro!: keeps_intros spool_ok_Delete)

end
