(* ===== verification/Spool.thy ===== *)
theory Spool
  imports StagingSpool
begin

text \<open>Package \<open>internal/spool\<close>: the cache directory of Parquet files and its retention sweep. The world is
  the store together with the file system: the files by path, and \<open>sp_os\<close>, the outcome the
  operating system has in store for each coming call (\<open>Some e\<close> for a failure), so statements about
  all worlds hold however the calls fail. A failing write leaves any number \<open>sp_partial\<close> of bytes
  behind. Renaming is atomic, as POSIX has it.\<close>

section \<open>The world\<close>

record spool_world =
  sp_dir :: string
  sp_store :: store
  sp_files :: "string \<Rightarrow> bytes option"
  sp_os :: "error option list"
  sp_partial :: nat

type_synonym 'a sop = "spool_world \<Rightarrow> (error, 'a) result \<times> spool_world"

definition sp_bind :: "'a sop \<Rightarrow> ('a \<Rightarrow> 'b sop) \<Rightarrow> 'b sop" where
  "sp_bind m f w = (case m w of (Inl e, w') \<Rightarrow> (Inl e, w') | (Inr x, w') \<Rightarrow> f x w')"

definition sp_wrap :: "(error \<Rightarrow> error) \<Rightarrow> 'a sop \<Rightarrow> 'a sop" where
  "sp_wrap g m w = (case m w of (Inl e, w') \<Rightarrow> (Inl (g e), w') | (Inr x, w') \<Rightarrow> (Inr x, w'))"

definition db_op :: "'a op \<Rightarrow> 'a sop" where
  "db_op m w = (fst (m (sp_store w)), w\<lparr>sp_store := snd (m (sp_store w))\<rparr>)"

text \<open>A call of the operating system, with its effect on the files when it fails and when it does
  not.\<close>

definition os_call ::
  "((string \<Rightarrow> bytes option) \<Rightarrow> string \<Rightarrow> bytes option) \<Rightarrow>
   ((string \<Rightarrow> bytes option) \<Rightarrow> string \<Rightarrow> bytes option) \<Rightarrow> unit sop" where
  "os_call failed done w =
    (case sp_os w of
       Some e # r \<Rightarrow> (Inl e, w\<lparr>sp_files := failed (sp_files w), sp_os := r\<rparr>)
     | _ \<Rightarrow> (Inr (), w\<lparr>sp_files := done (sp_files w), sp_os := tl (sp_os w)\<rparr>))"

definition fs_ErrNotExist :: error where
  "fs_ErrNotExist = ErrOther ''file does not exist''"

definition os_Remove :: "string \<Rightarrow> unit sop" where
  "os_Remove path w =
    (if sp_files w path = None \<and> (sp_os w = [] \<or> hd (sp_os w) = None)
     then (Inl fs_ErrNotExist, w\<lparr>sp_os := tl (sp_os w)\<rparr>)
     else os_call id (\<lambda>fs. fs(path := None)) w)"

section \<open>Paths\<close>

definition data_dir :: "string \<Rightarrow> string \<Rightarrow> string \<Rightarrow> string" where
  "data_dir dir ns tbl = dir @ ''/'' @ ns @ ''/'' @ tbl @ ''/data''"

text \<open>\<open>filepath.Join\<close> of a clean directory and plain segments.\<close>

definition Path :: "string \<Rightarrow> string \<Rightarrow> string \<Rightarrow> string \<Rightarrow> string" where
  "Path dir ns tbl key = data_dir dir ns tbl @ ''/'' @ key @ ''.parquet''"

definition tmp_path :: "string \<Rightarrow> string \<Rightarrow> string \<Rightarrow> string \<Rightarrow> string" where
  "tmp_path dir ns tbl key = data_dir dir ns tbl @ ''/'' @ key @ ''.tmp''"

section \<open>Write\<close>

definition os_ok :: "unit sop" where
  "os_ok = os_call id id"

definition syncDir :: "unit sop" where
  "syncDir w =
    (case os_ok w of
       (Inl e, w1) \<Rightarrow> (Inl e, w1)
     | (Inr _, w1) \<Rightarrow>
         (case os_ok w1 of
            (Inl e, w2) \<Rightarrow> (Inl e, snd (os_ok w2))
          | (Inr _, w2) \<Rightarrow> os_ok w2))"

text \<open>The deferred cleanup: close and remove the temporary file when the rest failed.\<close>

definition or_cleanup :: "string \<Rightarrow> unit sop \<Rightarrow> unit sop" where
  "or_cleanup tmp m w =
    (case m w of
       (Inl e, w1) \<Rightarrow> (Inl e, snd (os_Remove tmp (snd (os_ok w1))))
     | (Inr x, w1) \<Rightarrow> (Inr x, w1))"

definition writeFile :: "string \<Rightarrow> string \<Rightarrow> string \<Rightarrow> bytes \<Rightarrow> unit sop" where
  "writeFile ns tbl key body w =
    (let path = Path (sp_dir w) ns tbl key; tmp = tmp_path (sp_dir w) ns tbl key;
         fail = (\<lambda>e. NewSpoolError SpoolKindWrite (sp_dir w) path key (Some e)) in
     sp_wrap fail
      (sp_bind os_ok (\<lambda>_.
       sp_bind (os_call id (\<lambda>fs. fs(tmp \<mapsto> []))) (\<lambda>_.
       or_cleanup tmp
        (sp_bind (os_call (\<lambda>fs. fs(tmp \<mapsto> take (sp_partial w) body)) (\<lambda>fs. fs(tmp \<mapsto> body))) (\<lambda>_.
         sp_bind os_ok (\<lambda>_.
         sp_bind os_ok (\<lambda>_.
         sp_bind (os_call id (\<lambda>fs. fs(path := fs tmp, tmp := None))) (\<lambda>_.
         syncDir)))))))) w)"

definition Write :: "string \<Rightarrow> string \<Rightarrow> string \<Rightarrow> Descriptor \<Rightarrow> bytes \<Rightarrow> int \<Rightarrow> unit sop" where
  "Write ns tbl key desc body now w =
    sp_bind (writeFile ns tbl key body) (\<lambda>_.
    sp_wrap (\<lambda>e. NewSpoolError SpoolKindRecord (sp_dir w) (Path (sp_dir w) ns tbl key) key (Some e))
      (db_op (RecordSpoolFile \<lparr>spr_Namespace = ns, spr_Table = tbl, spr_BatchKey = key,
         spr_Descriptor = Some desc, spr_ByteLen = int (length body), spr_CreatedAt = now\<rparr>))) w"

definition MarkCommitted :: "string \<Rightarrow> string \<Rightarrow> string \<Rightarrow> int \<Rightarrow> unit sop" where
  "MarkCommitted ns tbl key now w =
    sp_wrap (\<lambda>e. NewSpoolError SpoolKindMark (sp_dir w) (Path (sp_dir w) ns tbl key) key (Some e))
      (db_op (MarkSpoolCommitted key now)) w"

definition Backlog :: "string \<Rightarrow> string \<Rightarrow> SpoolEntry list sop" where
  "Backlog ns tbl = db_op (SpoolBacklog ns tbl)"

definition BacklogTables :: "TableID list sop" where
  "BacklogTables = db_op SpoolBacklogTables"

definition Spool_Schema :: "string \<Rightarrow> Descriptor sop" where
  "Spool_Schema fp = db_op (SpoolSchema fp)"

section \<open>Sweep\<close>

definition evict :: "SpoolEntry \<Rightarrow> unit sop" where
  "evict f w =
    (let path = Path (sp_dir w) (spe_Namespace f) (spe_Table f) (spe_entry_key f) in
     case os_Remove path w of
       (Inl e, w1) \<Rightarrow>
         if errors_Is e fs_ErrNotExist then db_op (DeleteSpoolFile (spe_entry_key f)) w1
         else (Inl (ErrWrap ''evicting the committed file'' e), w1)
     | (Inr _, w1) \<Rightarrow> db_op (DeleteSpoolFile (spe_entry_key f)) w1)"

record sweep_state =
  sw_first :: "error option"
  sw_total :: int
  sw_evicted :: nat

text \<open>\<open>now.Sub(createdAt)\<close>: nanoseconds, saturating at the ends of \<open>int64\<close>.\<close>

definition time_Sub :: "int \<Rightarrow> int \<Rightarrow> int" where
  "time_Sub now createdAt = max min_int64 (min max_int64 (now - createdAt))"

definition too_old :: "int \<Rightarrow> int \<Rightarrow> SpoolEntry \<Rightarrow> bool" where
  "too_old now maxAge f \<longleftrightarrow> maxAge > 0 \<and> time_Sub now (spe_CreatedAt f) > maxAge"

text \<open>One eviction of either pass.\<close>

definition sweep_evict :: "SpoolEntry \<Rightarrow> sweep_state \<times> spool_world \<Rightarrow> sweep_state \<times> spool_world" where
  "sweep_evict f sw =
    (case sw of (st, w) \<Rightarrow>
     case evict f w of
       (Inl e, w1) \<Rightarrow> (st\<lparr>sw_first := (if sw_first st = None then Some e else sw_first st)\<rparr>, w1)
     | (Inr _, w1) \<Rightarrow> (st\<lparr>sw_total := sw_total st - spe_ByteLen f, sw_evicted := sw_evicted st + 1\<rparr>, w1))"

fun sweep_age :: "int \<Rightarrow> int \<Rightarrow> SpoolEntry list \<Rightarrow> sweep_state \<times> spool_world \<Rightarrow>
    SpoolEntry list \<times> sweep_state \<times> spool_world" where
  "sweep_age now maxAge [] sw = ([], sw)"
| "sweep_age now maxAge (f # fs) sw =
    (if too_old now maxAge f then sweep_age now maxAge fs (sweep_evict f sw)
     else (let (remaining, sw') = sweep_age now maxAge fs sw in (f # remaining, sw')))"

fun sweep_size :: "int \<Rightarrow> SpoolEntry list \<Rightarrow> sweep_state \<times> spool_world \<Rightarrow> sweep_state \<times> spool_world" where
  "sweep_size maxBytes [] sw = sw"
| "sweep_size maxBytes (f # fs) sw =
    (if maxBytes \<le> 0 \<or> sw_total (fst sw) \<le> maxBytes then sw
     else sweep_size maxBytes fs (sweep_evict f sw))"

definition Sweep :: "int \<Rightarrow> int \<Rightarrow> int \<Rightarrow> spool_world \<Rightarrow> error option \<times> spool_world" where
  "Sweep now maxAge maxBytes w =
    (case db_op SpoolEvictable w of
       (Inl e, w1) \<Rightarrow> (Some e, w1)
     | (Inr files, w1) \<Rightarrow>
         (case db_op SpoolCommittedBytes w1 of
            (Inl e, w2) \<Rightarrow> (Some e, w2)
          | (Inr tot, w2) \<Rightarrow>
              (let (remaining, st, w3) = sweep_age now maxAge files
                     (\<lparr>sw_first = None, sw_total = tot, sw_evicted = 0\<rparr>, w2);
                   (st, w4) = sweep_size maxBytes remaining (st, w3)
               in if sw_evicted st > 0
                  then (case db_op PruneSpoolSchemas w4 of
                          (Inl e, w5) \<Rightarrow> ((if sw_first st = None then Some e else sw_first st), w5)
                        | (Inr _, w5) \<Rightarrow> (sw_first st, w5))
                  else (sw_first st, w4))))"

end
