(* ===== verification/SpoolProps.thy ===== *)
theory SpoolProps
  imports Spool
begin

text \<open>The local cache: the durable write, and what the retention sweep may and does remove.\<close>

section \<open>Sequencing\<close>

text \<open>From \<open>P\<close>, the operation ends well in \<open>Q\<close> or fails in \<open>E\<close>.\<close>

definition ensures :: "(spool_world \<Rightarrow> bool) \<Rightarrow> 'a sop \<Rightarrow> (spool_world \<Rightarrow> bool) \<Rightarrow> (spool_world \<Rightarrow> bool) \<Rightarrow> bool" where
  "ensures P m Q E \<longleftrightarrow>
    (\<forall>w. P w \<longrightarrow> (case m w of (Inl _, w') \<Rightarrow> E w' | (Inr _, w') \<Rightarrow> Q w'))"

lemma ensuresD:
  assumes "ensures P m Q E" "P w"
  shows "m w = (Inl e, w') \<Longrightarrow> E w'" "m w = (Inr x, w') \<Longrightarrow> Q w'"
  using assms(1) [unfolded ensures_def, rule_format, OF assms(2)] by auto

lemma ensuresI:
  assumes "\<And>w e w'. P w \<Longrightarrow> m w = (Inl e, w') \<Longrightarrow> E w'"
    and "\<And>w x w'. P w \<Longrightarrow> m w = (Inr x, w') \<Longrightarrow> Q w'"
  shows "ensures P m Q E"
  unfolding ensures_def using assms by (simp split: prod.split sum.split)

lemma ensures_bind:
  assumes "ensures P m Q E" "\<And>x. ensures Q (f x) R E"
  shows "ensures P (sp_bind m f) R E"
  by (rule ensuresI)
    (auto simp: sp_bind_def split: prod.splits sum.splits dest: ensuresD [OF assms(1)] ensuresD [OF assms(2)])

lemma ensures_wrap:
  assumes "ensures P m Q E"
  shows "ensures P (sp_wrap g m) Q E"
  by (rule ensuresI) (auto simp: sp_wrap_def split: prod.splits sum.splits dest: ensuresD [OF assms])

lemma ensures_weaken:
  assumes "ensures P m Q E" "\<And>w. E w \<Longrightarrow> E' w"
  shows "ensures P m Q E'"
  by (rule ensuresI) (auto intro: assms(2) dest: ensuresD [OF assms(1)])

lemma ensures_os_call:
  "(\<And>w r. P w \<Longrightarrow> E (w\<lparr>sp_files := failed (sp_files w), sp_os := r\<rparr>)) \<Longrightarrow>
   (\<And>w r. P w \<Longrightarrow> Q (w\<lparr>sp_files := done (sp_files w), sp_os := r\<rparr>)) \<Longrightarrow> ensures P (os_call failed done) Q E"
  unfolding ensures_def os_call_def by (auto split: list.split option.split)

section \<open>The durable write\<close>

lemma tmp_not_path [simp]: "Path dir ns tbl key \<noteq> tmp_path dir ns tbl key'"
proof
  assume "Path dir ns tbl key = tmp_path dir ns tbl key'"
  then have "last (Path dir ns tbl key) = last (tmp_path dir ns tbl key')"
    by simp
  then show False
    by (simp add: Path_def tmp_path_def)
qed

text \<open>Nothing but the file's own two names is written, and its final name never holds anything but what
  it held before or the whole body; \<open>tmp_full\<close> up to the rename, \<open>written\<close> after it.\<close>

definition write_inv :: "string \<Rightarrow> string \<Rightarrow> bytes \<Rightarrow> spool_world \<Rightarrow> spool_world \<Rightarrow> bool" where
  "write_inv path tmp body w0 w \<longleftrightarrow> sp_dir w = sp_dir w0 \<and> sp_store w = sp_store w0
     \<and> (\<forall>p. p \<noteq> path \<longrightarrow> p \<noteq> tmp \<longrightarrow> sp_files w p = sp_files w0 p)
     \<and> (sp_files w path = sp_files w0 path \<or> sp_files w path = Some body)"

definition tmp_full :: "string \<Rightarrow> string \<Rightarrow> bytes \<Rightarrow> spool_world \<Rightarrow> spool_world \<Rightarrow> bool" where
  "tmp_full path tmp body w0 w \<longleftrightarrow> write_inv path tmp body w0 w \<and> sp_files w tmp = Some body"

definition written :: "string \<Rightarrow> string \<Rightarrow> bytes \<Rightarrow> spool_world \<Rightarrow> spool_world \<Rightarrow> bool" where
  "written path tmp body w0 w \<longleftrightarrow> write_inv path tmp body w0 w
     \<and> sp_files w path = Some body \<and> sp_files w tmp = None"

lemmas write_states = write_inv_def tmp_full_def written_def

definition files_only :: "(spool_world \<Rightarrow> bool) \<Rightarrow> bool" where
  "files_only P \<longleftrightarrow> (\<forall>w r. P w \<longrightarrow> P (w\<lparr>sp_os := r\<rparr>))"

lemma files_only_states [simp]: "files_only (write_inv path tmp body w0)"
    "files_only (tmp_full path tmp body w0)" "files_only (written path tmp body w0)"
  by (simp_all add: files_only_def write_states)

lemma files_only_id: "files_only P \<Longrightarrow> P w \<Longrightarrow> P (w\<lparr>sp_files := id (sp_files w), sp_os := r\<rparr>)"
  by (cases w) (auto simp: files_only_def)

lemma ensures_os_ok: "files_only P \<Longrightarrow> ensures P os_ok P P"
  unfolding os_ok_def by (rule ensures_os_call; rule files_only_id; assumption)

lemma ensures_syncDir:
  assumes "files_only P"
  shows "ensures P syncDir P P"
proof -
  note ok = ensures_os_ok [OF assms]
  have "P (snd (os_ok w))" if "P w" for w
    using ensuresD [OF ok that] by (cases "os_ok w"; cases "fst (os_ok w)") auto
  then show ?thesis
    unfolding ensures_def syncDir_def
    by (auto split: prod.split sum.split) (metis snd_conv)+
qed

lemma ensures_cleanup:
  assumes "ensures P m Q (write_inv path tmp body w0)" "path \<noteq> tmp"
  shows "ensures P (or_cleanup tmp m) Q (write_inv path tmp body w0)"
proof -
  have "write_inv path tmp body w0 (snd (os_Remove tmp w))" if "write_inv path tmp body w0 w" for w
    using that assms(2) unfolding os_Remove_def os_call_def
    by (auto simp: write_inv_def split: list.split option.split)
  moreover have "write_inv path tmp body w0 (snd (os_ok w))" if "write_inv path tmp body w0 w" for w
    using ensuresD [OF ensures_os_ok [OF files_only_states(1)] that]
    by (cases "os_ok w"; cases "fst (os_ok w)") auto
  ultimately show ?thesis
    by (intro ensuresI)
      (auto simp: or_cleanup_def split: prod.splits sum.splits dest: ensuresD [OF assms(1)])
qed

lemma writeFile_ensures:
  fixes ns tbl key dir
  defines "path \<equiv> Path dir ns tbl key" and "tmp \<equiv> tmp_path dir ns tbl key"
  assumes "sp_dir w0 = dir"
  shows "ensures (write_inv path tmp body w0) (writeFile ns tbl key body)
    (written path tmp body w0) (write_inv path tmp body w0)"
proof -
  have ne: "path \<noteq> tmp"
    by (simp add: path_def tmp_def)
  have weak: "write_inv path tmp body w0 w" if "tmp_full path tmp body w0 w \<or> written path tmp body w0 w" for w
    using that by (auto simp: write_states)
  have ren: "ensures (tmp_full path tmp body w0) (os_call id (\<lambda>fs. fs(path := fs tmp, tmp := None)))
      (written path tmp body w0) (write_inv path tmp body w0)"
    using ne by (intro ensures_os_call) (auto simp: write_states)
  have sync: "ensures (written path tmp body w0) syncDir (written path tmp body w0) (write_inv path tmp body w0)"
    using ensures_weaken [OF ensures_syncDir [OF files_only_states(3)]] weak by blast
  have ok: "ensures (tmp_full path tmp body w0) os_ok (tmp_full path tmp body w0) (write_inv path tmp body w0)"
    using ensures_weaken [OF ensures_os_ok [OF files_only_states(2)]] weak by blast
  have wr: "ensures (write_inv path tmp body w0)
      (os_call (\<lambda>fs. fs(tmp \<mapsto> take n body)) (\<lambda>fs. fs(tmp \<mapsto> body)))
      (tmp_full path tmp body w0) (write_inv path tmp body w0)" for n
    using ne by (intro ensures_os_call) (auto simp: write_states)
  have cr: "ensures (write_inv path tmp body w0) (os_call id (\<lambda>fs. fs(tmp \<mapsto> [])))
      (write_inv path tmp body w0) (write_inv path tmp body w0)"
    using ne by (intro ensures_os_call) (auto simp: write_states)
  note parts = ensures_wrap ensures_bind [OF ensures_os_ok [OF files_only_states(1)]] ensures_bind [OF cr]
    ensures_cleanup [OF _ ne] ensures_bind [OF wr] ensures_bind [OF ok] ensures_bind [OF ren] sync
  have "ensures (write_inv path tmp body w0)
      (sp_wrap g (sp_bind os_ok (\<lambda>_. sp_bind (os_call id (\<lambda>fs. fs(tmp \<mapsto> []))) (\<lambda>_.
       or_cleanup tmp (sp_bind (os_call (\<lambda>fs. fs(tmp \<mapsto> take n body)) (\<lambda>fs. fs(tmp \<mapsto> body))) (\<lambda>_.
         sp_bind os_ok (\<lambda>_. sp_bind os_ok (\<lambda>_.
         sp_bind (os_call id (\<lambda>fs. fs(path := fs tmp, tmp := None))) (\<lambda>_. syncDir)))))))))
      (written path tmp body w0) (write_inv path tmp body w0)" for g n
    by (intro parts)
  moreover have "sp_dir w = dir" if "write_inv path tmp body w0 w" for w
    using that assms(3) by (simp add: write_inv_def)
  ultimately show ?thesis
    unfolding ensures_def writeFile_def Let_def path_def tmp_def by auto
qed

lemma RecordSpoolFile_Inr:
  assumes "RecordSpoolFile \<lparr>spr_Namespace = ns, spr_Table = tbl, spr_BatchKey = key,
      spr_Descriptor = Some d, spr_ByteLen = n, spr_CreatedAt = at\<rparr> s = (Inr u, s')"
  shows "\<exists>f\<in>set (db_spool_files (st_db s')). sf_batch_key f = key \<and> sf_schema_fp f = d_fp d \<and> sf_byte_len f = n"
    "map_of (db_spool_schemas (st_db s')) (d_fp d) \<noteq> None"
proof -
  from assms have "st_db s' = snd (q_UpsertSpoolFile key ns tbl (d_fp d) n (UnixMilli at)
      (snd (q_UpsertSpoolSchema (d_fp d) (d_encoded d) (st_db s))))"
    by (auto simp: RecordSpoolFile_def staging_fail_def staging_wrap_def op_wrap_Inr op_bind_Inr
        split: if_splits dest!: tx_Inr stmt_Inr)
  then have d: "db_spool_files (st_db s') = db_spool_files (snd (q_UpsertSpoolFile key ns tbl (d_fp d) n (UnixMilli at) (st_db s)))"
    "db_spool_schemas (st_db s') = upsert_schema (d_fp d) (d_encoded d) (db_spool_schemas (st_db s))"
    by (simp_all add: q_UpsertSpoolFile_def q_UpsertSpoolSchema_def)
  show "map_of (db_spool_schemas (st_db s')) (d_fp d) \<noteq> None"
    by (simp add: d map_of_upsert)
  show "\<exists>f\<in>set (db_spool_files (st_db s')). sf_batch_key f = key \<and> sf_schema_fp f = d_fp d \<and> sf_byte_len f = n"
  proof (cases "key \<in> sf_batch_key ` set (db_spool_files (st_db s))")
    case True
    then obtain f where "f \<in> set (db_spool_files (st_db s))" "sf_batch_key f = key" by blast
    then show ?thesis
      by (intro bexI [of _ "f\<lparr>sf_schema_fp := d_fp d, sf_byte_len := n\<rparr>"])
        (auto simp: d q_UpsertSpoolFile_def intro!: image_eqI [of _ _ f])
  qed (simp add: d q_UpsertSpoolFile_def)
qed

section \<open>What a sweep may remove\<close>

abbreviation spool_files :: "spool_world \<Rightarrow> SpoolFile list" where
  "spool_files w \<equiv> db_spool_files (st_db (sp_store w))"

definition file_path :: "string \<Rightarrow> SpoolFile \<Rightarrow> string" where
  "file_path dir f = Path dir (sf_namespace f) (sf_table f) (sf_batch_key f)"

lemma Path_key_inj:
  assumes "Path dir ns tbl k = Path dir ns' tbl' k'" "CHR ''/'' \<notin> set k" "CHR ''/'' \<notin> set k'"
  shows "k = k'"
proof -
  have last: "takeWhile (\<lambda>c. c \<noteq> CHR ''/'') (rev (Path dir n t j)) = rev (j @ ''.parquet'')"
    if "CHR ''/'' \<notin> set j" for n t j
    using that by (simp add: Path_def takeWhile_append takeWhile_tail)
  show ?thesis
    using last [OF assms(2), of ns tbl] last [OF assms(3), of ns' tbl'] assms(1) by simp
qed

text \<open>The operating system says that a name does not exist only of a name that does not.\<close>

definition os_honest :: "spool_world \<Rightarrow> bool" where
  "os_honest w \<longleftrightarrow> (\<forall>e. Some e \<in> set (sp_os w) \<longrightarrow> \<not> errors_Is e fs_ErrNotExist)"

definition swept :: "spool_world \<Rightarrow> spool_world \<Rightarrow> bool" where
  "swept w0 w \<longleftrightarrow> sp_dir w = sp_dir w0 \<and> set (sp_os w) \<subseteq> set (sp_os w0)
     \<and> db_staging (st_db (sp_store w)) = db_staging (st_db (sp_store w0))
     \<and> (\<exists>E \<subseteq> {f \<in> set (spool_files w0). sf_committed_at f \<noteq> None}.
          spool_files w = filter (\<lambda>f. f \<notin> E) (spool_files w0)
        \<and> (\<forall>f\<in>E. sp_files w (file_path (sp_dir w0) f) = None))
     \<and> (\<forall>p. sp_files w p \<noteq> sp_files w0 p \<longrightarrow> sp_files w p = None
          \<and> (\<exists>f\<in>set (spool_files w0). sf_committed_at f \<noteq> None \<and> p = file_path (sp_dir w0) f))"

lemma sweptI:
  assumes "E \<subseteq> {f \<in> set (spool_files w0). sf_committed_at f \<noteq> None}"
    and "spool_files w = filter (\<lambda>f. f \<notin> E) (spool_files w0)"
    and "\<And>f. f \<in> E \<Longrightarrow> sp_files w (file_path (sp_dir w0) f) = None"
    and "sp_dir w = sp_dir w0 \<and> set (sp_os w) \<subseteq> set (sp_os w0)"
      "db_staging (st_db (sp_store w)) = db_staging (st_db (sp_store w0))"
    and "\<And>p. sp_files w p \<noteq> sp_files w0 p \<Longrightarrow> sp_files w p = None
          \<and> (\<exists>f\<in>set (spool_files w0). sf_committed_at f \<noteq> None \<and> p = file_path (sp_dir w0) f)"
  shows "swept w0 w"
  unfolding swept_def using assms(4,5,6) by (intro conjI exI [of _ E] assms(1,2) ballI assms(3)) blast+

lemma swept_refl: "swept w w"
  unfolding swept_def by (auto intro!: exI [of _ "{}"])

lemma swept_cong:
  "swept w0 w \<Longrightarrow> sp_dir w' = sp_dir w \<Longrightarrow> set (sp_os w') \<subseteq> set (sp_os w) \<Longrightarrow> sp_files w' = sp_files w \<Longrightarrow> spool_files w' = spool_files w \<Longrightarrow>
   db_staging (st_db (sp_store w')) = db_staging (st_db (sp_store w)) \<Longrightarrow> swept w0 w'"
  by (auto simp: swept_def)

lemma set_tl_subset: "set (tl xs) \<subseteq> set xs"
  by (cases xs) auto

text \<open>Removing one committed file from the disk, and then its row.\<close>

lemma swept_unlink:
  assumes "swept w0 w" "g \<in> set (spool_files w0)" "sf_committed_at g \<noteq> None"
    and "sp_dir w' = sp_dir w \<and> set (sp_os w') \<subseteq> set (sp_os w)" "sp_store w' = sp_store w"
    and "sp_files w' = (sp_files w)(file_path (sp_dir w0) g := None)"
  shows "swept w0 w'"
proof -
  from assms(1) obtain E where E: "E \<subseteq> {f \<in> set (spool_files w0). sf_committed_at f \<noteq> None}"
      "spool_files w = filter (\<lambda>f. f \<notin> E) (spool_files w0)"
      "\<forall>f\<in>E. sp_files w (file_path (sp_dir w0) f) = None"
    unfolding swept_def by blast
  moreover have "\<forall>f\<in>E. sp_files w' (file_path (sp_dir w0) f) = None"
    using E(3) assms(6) by simp
  moreover have "sp_files w' p = None \<and>
      (\<exists>f\<in>set (spool_files w0). sf_committed_at f \<noteq> None \<and> p = file_path (sp_dir w0) f)"
    if "sp_files w' p \<noteq> sp_files w0 p" for p
  proof (cases "p = file_path (sp_dir w0) g")
    case True
    then show ?thesis
      using assms(2,3,6) by auto
  next
    case False
    then show ?thesis
      using assms(1,6) that unfolding swept_def by simp
  qed
  ultimately show ?thesis
    using assms(1,4,5) by (intro sweptI [of E]) (auto simp: swept_def)
qed

lemma swept_forget:
  assumes "swept w0 w" "g \<in> set (spool_files w0)" "sf_committed_at g \<noteq> None"
    and distinct: "distinct (map sf_batch_key (spool_files w0))"
    and gone: "sp_files w (file_path (sp_dir w0) g) = None"
    and "sp_dir w' = sp_dir w \<and> set (sp_os w') \<subseteq> set (sp_os w)" "sp_files w' = sp_files w"
    and del: "st_db (sp_store w') = snd (q_DeleteSpoolFile (sf_batch_key g) (st_db (sp_store w)))"
  shows "swept w0 w'"
proof -
  from assms(1) obtain E where E: "E \<subseteq> {f \<in> set (spool_files w0). sf_committed_at f \<noteq> None}"
      "spool_files w = filter (\<lambda>f. f \<notin> E) (spool_files w0)"
      "\<forall>f\<in>E. sp_files w (file_path (sp_dir w0) f) = None"
    unfolding swept_def by blast
  have key: "sf_batch_key f \<noteq> sf_batch_key g \<longleftrightarrow> f \<noteq> g" if "f \<in> set (spool_files w0)" for f
    using distinct assms(2) that by (metis distinct_map inj_onD)
  have "spool_files w' = filter (\<lambda>f. f \<notin> insert g E) (spool_files w0)"
    using E(2) key by (auto simp: del q_DeleteSpoolFile_def intro!: filter_cong)
  moreover have "insert g E \<subseteq> {f \<in> set (spool_files w0). sf_committed_at f \<noteq> None}"
    using E(1) assms(2,3) by auto
  moreover have "\<forall>f\<in>insert g E. sp_files w' (file_path (sp_dir w0) f) = None"
    using E(3) gone assms(7) by simp
  moreover have "db_staging (st_db (sp_store w')) = db_staging (st_db (sp_store w))"
    by (simp add: del q_DeleteSpoolFile_def)
  ultimately show ?thesis
    using assms(1,6,7) by (intro sweptI [of "insert g E"]) (auto simp: swept_def)
qed

lemma swept_op:
  assumes "swept w0 w" "db_op m w = (r, w')"
    and "db_spool_files (st_db (snd (m (sp_store w)))) = spool_files w"
    and "db_staging (st_db (snd (m (sp_store w)))) = db_staging (st_db (sp_store w))"
  shows "swept w0 w'"
  using assms by (auto simp: db_op_def intro!: swept_cong [of w0 w])

lemma swept_delete_op:
  assumes "swept w0 w" "g \<in> set (spool_files w0)" "sf_committed_at g \<noteq> None"
    and "distinct (map sf_batch_key (spool_files w0))" "sp_files w (file_path (sp_dir w0) g) = None"
    and "db_op (DeleteSpoolFile (sf_batch_key g)) w = (r, w')"
  shows "swept w0 w'"
proof -
  obtain q s1 where q: "stmt (q_DeleteSpoolFile (sf_batch_key g)) (sp_store w) = (q, s1)"
    by (cases "stmt (q_DeleteSpoolFile (sf_batch_key g)) (sp_store w)")
  have w': "w' = w\<lparr>sp_store := s1\<rparr>"
    using assms(6) q by (auto simp: db_op_def DeleteSpoolFile_def op_bind_def staging_wrap_def op_wrap_def
        op_ret_def split: sum.splits)
  show ?thesis
  proof (cases q)
    case (Inl e)
    then show ?thesis
      using assms(1) stmt_Inl [OF q [unfolded Inl]] by (auto simp: w' intro!: swept_cong [of w0 w])
  next
    case (Inr n)
    show ?thesis
      using stmt_Inr [OF q [unfolded Inr]] by (intro swept_forget [OF assms(1-5)]) (simp_all add: w')
  qed
qed

lemma swept_evict:
  assumes "swept w0 w" "g \<in> set (spool_files w0)" "sf_committed_at g \<noteq> None"
    and "distinct (map sf_batch_key (spool_files w0))" "evict (evictable_entry g) w = (r, w')"
    and honest: "os_honest w0"
  shows "swept w0 w'"
proof -
  have path: "Path (sp_dir w) (spe_Namespace (evictable_entry g)) (spe_Table (evictable_entry g))
      (sf_batch_key g) = file_path (sp_dir w0) g"
    using assms(1) by (simp add: evictable_entry_def file_path_def swept_def)
  have key: "spe_entry_key (evictable_entry g) = sf_batch_key g"
    by (simp add: evictable_entry_def)
  obtain q w1 where q: "os_Remove (file_path (sp_dir w0) g) w = (q, w1)"
    by (cases "os_Remove (file_path (sp_dir w0) g) w")
  have q': "sp_store w1 = sp_store w" "sp_dir w1 = sp_dir w \<and> set (sp_os w1) \<subseteq> set (sp_os w)"
    using q by (auto simp: os_Remove_def os_call_def split: if_splits list.splits option.splits
        dest: set_tl_subset [THEN subsetD])
  show ?thesis
  proof (cases q)
    case (Inl e)
    have same: "sp_files w1 = sp_files w"
      using q Inl by (auto simp: os_Remove_def os_call_def split: if_splits list.splits option.splits)
    have w1: "swept w0 w1"
      using q' by (intro swept_cong [OF assms(1) _ _ same]) auto
    show ?thesis
    proof (cases "errors_Is e fs_ErrNotExist")
      case True
      then have "Some e \<notin> set (sp_os w)"
        using honest assms(1) by (auto simp: swept_def os_honest_def)
      then have "sp_files w1 (file_path (sp_dir w0) g) = None"
        using q Inl by (auto simp: os_Remove_def os_call_def split: if_splits list.splits option.splits)
      then show ?thesis
        using assms(5) q True by (intro swept_delete_op [OF w1 assms(2-4)])
          (simp_all add: evict_def path key Inl)
    next
      case False
      then show ?thesis
        using assms(5) q w1 by (simp add: evict_def path key Inl)
    qed
  next
    case (Inr u)
    have gone: "sp_files w1 = (sp_files w)(file_path (sp_dir w0) g := None)"
      using q Inr by (auto simp: os_Remove_def os_call_def split: if_splits list.splits option.splits)
    have w1: "swept w0 w1"
      by (rule swept_unlink [OF assms(1-3) q'(2,1) gone])
    show ?thesis
      using assms(5) q gone by (intro swept_delete_op [OF w1 assms(2-4)]) (simp_all add: evict_def path key Inr)
  qed
qed

text \<open>The two loops, over entries of committed files.\<close>

definition committed_entry :: "spool_world \<Rightarrow> SpoolEntry \<Rightarrow> bool" where
  "committed_entry w0 e \<longleftrightarrow>
    (\<exists>g\<in>set (spool_files w0). sf_committed_at g \<noteq> None \<and> e = evictable_entry g)"

lemma swept_sweep_evict:
  "distinct (map sf_batch_key (spool_files w0)) \<Longrightarrow> os_honest w0 \<Longrightarrow> swept w0 (snd sw) \<Longrightarrow>
   committed_entry w0 e \<Longrightarrow> swept w0 (snd (sweep_evict e sw))"
  using swept_evict by (auto simp: sweep_evict_def committed_entry_def split: prod.split sum.split)

lemma swept_sweep_age:
  "distinct (map sf_batch_key (spool_files w0)) \<Longrightarrow> os_honest w0 \<Longrightarrow> swept w0 (snd sw) \<Longrightarrow>
   list_all (committed_entry w0) es \<Longrightarrow>
   list_all (committed_entry w0) (fst (sweep_age now maxAge es sw)) \<and> swept w0 (snd (snd (sweep_age now maxAge es sw)))"
  by (induction now maxAge es sw rule: sweep_age.induct)
    (auto split: prod.splits simp: swept_sweep_evict)

lemma swept_sweep_size:
  "distinct (map sf_batch_key (spool_files w0)) \<Longrightarrow> os_honest w0 \<Longrightarrow> swept w0 (snd sw) \<Longrightarrow>
   list_all (committed_entry w0) es \<Longrightarrow> swept w0 (snd (sweep_size maxBytes es sw))"
  by (induction maxBytes es sw rule: sweep_size.induct)
    (auto simp: swept_sweep_evict)

lemma SpoolEvictable_run:
  "db_op SpoolEvictable w = (r, w') \<Longrightarrow> swept w0 w \<Longrightarrow> swept w0 w'
     \<and> (\<forall>es. r = Inr es \<longrightarrow> es = map evictable_entry (fst (q_SpoolEvictable (st_db (sp_store w)))))"
  by (auto simp: db_op_def SpoolEvictable_def op_bind_def staging_wrap_def op_wrap_def op_ret_def stmt_def
      q_SpoolEvictable_def split: sum.splits prod.splits list.splits option.splits intro!: swept_cong [of w0 w])

lemma db_op_wrap_swept:
  assumes "db_op (staging_wrap k (stmt f)) w = (r, w')" "swept w0 w"
    and "\<And>d. db_spool_files (snd (f d)) = db_spool_files d" "\<And>d. db_staging (snd (f d)) = db_staging d"
  shows "swept w0 w'"
  using assms by (auto simp: db_op_def staging_wrap_def op_wrap_def stmt_def
      split: sum.splits prod.splits list.splits option.splits intro!: swept_cong [of w0 w])

lemma swept_Sweep:
  assumes "distinct (map sf_batch_key (spool_files w))" "os_honest w" "Sweep now maxAge maxBytes w = (r, w')"
  shows "swept w w'"
proof -
  obtain q w1 where q: "db_op SpoolEvictable w = (q, w1)" by (cases "db_op SpoolEvictable w")
  note w1 = SpoolEvictable_run [OF q swept_refl]
  show ?thesis
  proof (cases q)
    case (Inl e)
    then show ?thesis using assms(3) w1 q by (simp add: Sweep_def)
  next
    case (Inr es)
    have es: "list_all (committed_entry w) es"
      using w1 Inr by (auto simp: list_all_iff committed_entry_def q_SpoolEvictable_def)
    obtain b w2 where b: "db_op SpoolCommittedBytes w1 = (b, w2)" by (cases "db_op SpoolCommittedBytes w1")
    have w2: "swept w w2"
      using b w1 by (auto simp: SpoolCommittedBytes_def q_SpoolCommittedBytes_def elim: db_op_wrap_swept)
    show ?thesis
    proof (cases b)
      case (Inl e)
      then show ?thesis using assms(3) w2 q b Inr by (simp add: Sweep_def)
    next
      case b': (Inr tot)
      let ?st = "\<lparr>sw_first = None, sw_total = tot, sw_evicted = 0\<rparr>"
      obtain rem st3 w3 where age: "sweep_age now maxAge es (?st, w2) = (rem, st3, w3)"
        by (cases "sweep_age now maxAge es (?st, w2)")
      obtain st4 w4 where size: "sweep_size maxBytes rem (st3, w3) = (st4, w4)"
        by (cases "sweep_size maxBytes rem (st3, w3)")
      have "list_all (committed_entry w) rem \<and> swept w w3"
        using swept_sweep_age [OF assms(1,2), of "(?st, w2)" es now maxAge] w2 es age by simp
      then have w4: "swept w w4"
        using swept_sweep_size [OF assms(1,2), of "(st3, w3)" rem maxBytes] size by simp
      have "swept w (snd (db_op PruneSpoolSchemas w4))"
        using w4 unfolding PruneSpoolSchemas_def
        by (intro db_op_wrap_swept [OF prod.collapse [symmetric]])
          (simp_all add: q_DeleteUnreferencedSpoolSchemas_def Let_def)
      then show ?thesis
        using assms(3) w4 q b Inr b' age size
        by (auto simp: Sweep_def split: if_splits prod.splits sum.splits)
    qed
  qed
qed

section \<open>What a sweep does remove\<close>

text \<open>The newest files that fit: the longest suffix of the oldest-first list within the bound.\<close>

fun keep_within :: "int \<Rightarrow> SpoolFile list \<Rightarrow> SpoolFile list" where
  "keep_within maxBytes [] = []"
| "keep_within maxBytes (f # fs) =
    (if maxBytes \<le> 0 \<or> sum_list (map sf_byte_len (f # fs)) \<le> maxBytes then f # fs
     else keep_within maxBytes fs)"

lemma keep_within_suffix: "set (keep_within b fs) \<subseteq> set fs"
  by (induction b fs rule: keep_within.induct) auto

definition clean :: "spool_world \<Rightarrow> bool" where
  "clean w \<longleftrightarrow> sp_os w = [] \<and> st_faults (sp_store w) = []"

lemma sweep_evict_clean:
  assumes "clean w"
  shows "\<exists>w'. sweep_evict (evictable_entry g) (st, w)
      = (st\<lparr>sw_total := sw_total st - sf_byte_len g, sw_evicted := sw_evicted st + 1\<rparr>, w')
    \<and> clean w' \<and> spool_files w' = filter (\<lambda>f. sf_batch_key f \<noteq> sf_batch_key g) (spool_files w)"
proof -
  have is_self: "errors_Is fs_ErrNotExist fs_ErrNotExist"
    by (simp add: errors_Is_def fs_ErrNotExist_def chain.simps)
  have "\<exists>w1. db_op (DeleteSpoolFile (sf_batch_key g)) w0 = (Inr (), w1) \<and> clean w1
      \<and> spool_files w1 = filter (\<lambda>f. sf_batch_key f \<noteq> sf_batch_key g) (spool_files w0)" if "clean w0" for w0
    using that by (simp add: clean_def db_op_def DeleteSpoolFile_def op_bind_def staging_wrap_def op_wrap_def
        stmt_def q_DeleteSpoolFile_def op_ret_def)
  note del = this
  let ?p = "Path (sp_dir w) (sf_namespace g) (sf_table g) (sf_batch_key g)"
  have "\<exists>q w0. os_Remove ?p w = (q, w0) \<and> clean w0 \<and> spool_files w0 = spool_files w
      \<and> (q = Inr () \<or> q = Inl fs_ErrNotExist)"
    using assms by (cases "sp_files w ?p") (auto simp: os_Remove_def os_call_def clean_def)
  then obtain q w0 where w0: "os_Remove ?p w = (q, w0)" "clean w0" "spool_files w0 = spool_files w"
      "q = Inr () \<or> q = Inl fs_ErrNotExist"
    by blast
  obtain w1 where "db_op (DeleteSpoolFile (sf_batch_key g)) w0 = (Inr (), w1)" "clean w1"
      "spool_files w1 = filter (\<lambda>f. sf_batch_key f \<noteq> sf_batch_key g) (spool_files w0)"
    using del [OF w0(2)] by blast
  then show ?thesis
    using w0 by (auto simp: sweep_evict_def evict_def evictable_entry_def is_self)
qed

lemma sweep_age_clean:
  assumes "clean w"
  shows "\<exists>st' w'. sweep_age now maxAge (map evictable_entry gs) (st, w)
      = (map evictable_entry (filter (\<lambda>g. \<not> too_old now maxAge (evictable_entry g)) gs), st', w')
    \<and> sw_first st' = sw_first st
    \<and> sw_total st' = sw_total st
        - sum_list (map sf_byte_len (filter (\<lambda>g. too_old now maxAge (evictable_entry g)) gs))
    \<and> clean w' \<and> spool_files w' = filter (\<lambda>f. sf_batch_key f \<notin>
        sf_batch_key ` set (filter (\<lambda>g. too_old now maxAge (evictable_entry g)) gs)) (spool_files w)"
  using assms
proof (induction gs arbitrary: st w)
  case (Cons g gs)
  show ?case
  proof (cases "too_old now maxAge (evictable_entry g)")
    case True
    obtain w1 where w1: "sweep_evict (evictable_entry g) (st, w)
      = (st\<lparr>sw_total := sw_total st - sf_byte_len g, sw_evicted := sw_evicted st + 1\<rparr>, w1)"
      "clean w1" "spool_files w1 = filter (\<lambda>f. sf_batch_key f \<noteq> sf_batch_key g) (spool_files w)"
      using sweep_evict_clean [OF Cons.prems] by blast
    from Cons.IH [OF w1(2), of "st\<lparr>sw_total := sw_total st - sf_byte_len g, sw_evicted := sw_evicted st + 1\<rparr>"]
    show ?thesis
      using True w1(1,3) by (auto intro!: filter_cong)
  next
    case False
    with Cons.IH [OF Cons.prems, of st] show ?thesis by auto
  qed
qed simp

lemma sweep_size_clean:
  assumes "clean w" "sw_total st = sum_list (map sf_byte_len gs)" "distinct gs"
  shows "\<exists>st' w'. sweep_size maxBytes (map evictable_entry gs) (st, w) = (st', w')
    \<and> sw_first st' = sw_first st \<and> clean w'
    \<and> spool_files w' = filter (\<lambda>f. sf_batch_key f \<notin>
        sf_batch_key ` (set gs - set (keep_within maxBytes gs))) (spool_files w)"
  using assms
proof (induction gs arbitrary: st w)
  case (Cons g gs)
  show ?case
  proof (cases "maxBytes \<le> 0 \<or> sw_total st \<le> maxBytes")
    case True
    then show ?thesis
      using Cons.prems by auto
  next
    case False
    let ?st = "st\<lparr>sw_total := sw_total st - sf_byte_len g, sw_evicted := sw_evicted st + 1\<rparr>"
    obtain w1 where w1: "sweep_evict (evictable_entry g) (st, w) = (?st, w1)"
      "clean w1" "spool_files w1 = filter (\<lambda>f. sf_batch_key f \<noteq> sf_batch_key g) (spool_files w)"
      using sweep_evict_clean [OF Cons.prems(1)] by blast
    have "set (g # gs) - set (keep_within maxBytes (g # gs)) = insert g (set gs - set (keep_within maxBytes gs))"
      using False Cons.prems(2,3) keep_within_suffix [of maxBytes gs] by auto
    with Cons.IH [OF w1(2), of ?st] show ?thesis
      using False Cons.prems w1(1,3) by (auto intro!: filter_cong simp del: set_simps)
  qed
qed simp

lemma Sweep_clean:
  assumes "clean w" "distinct (map sf_batch_key (spool_files w))"
    and young: "young = filter (\<lambda>f. \<not> too_old now maxAge (evictable_entry f)) (fst (q_SpoolEvictable (st_db (sp_store w))))"
  shows "\<exists>w'. Sweep now maxAge maxBytes w = (None, w') \<and> spool_files w' =
     filter (\<lambda>f. sf_committed_at f = None \<or> f \<in> set (keep_within maxBytes young)) (spool_files w)"
proof -
  define gs where "gs = fst (q_SpoolEvictable (st_db (sp_store w)))"
  let ?old = "filter (\<lambda>f. too_old now maxAge (evictable_entry f)) gs"
  define tot where "tot = sum_list (map sf_byte_len gs)"
  let ?st = "\<lparr>sw_first = None, sw_total = tot, sw_evicted = 0\<rparr>"
  have gs: "set gs = {f \<in> set (spool_files w). sf_committed_at f \<noteq> None}" "distinct gs"
    using assms(2) distinct_map [of sf_batch_key "spool_files w"]
    by (auto simp: gs_def q_SpoolEvictable_def mset_eq_imp_distinct_iff [OF mset_sort_by])
  have tot: "sum_list (map sf_byte_len (filter (\<lambda>f. sf_committed_at f \<noteq> None) (spool_files w))) = tot"
    unfolding tot_def gs_def q_SpoolEvictable_def by (simp flip: sum_mset_sum_list)
  have wfaults: "sp_store w\<lparr>st_db := st_db (sp_store w), st_faults := []\<rparr> = sp_store w"
    using assms(1) by (simp add: clean_def)
  have reads: "db_op SpoolEvictable w = (Inr (map evictable_entry gs), w)"
    "db_op SpoolCommittedBytes w = (Inr tot, w)"
    using assms(1) wfaults tot by (simp_all add: db_op_def SpoolEvictable_def SpoolCommittedBytes_def op_bind_def
        staging_wrap_def op_wrap_def stmt_def op_ret_def gs_def q_SpoolEvictable_def clean_def
        q_SpoolCommittedBytes_def)
  obtain st3 w3 where age: "sweep_age now maxAge (map evictable_entry gs) (?st, w) = (map evictable_entry young, st3, w3)"
    "sw_first st3 = None" "sw_total st3 = tot - sum_list (map sf_byte_len ?old)" "clean w3"
    "spool_files w3 = filter (\<lambda>f. sf_batch_key f \<notin> sf_batch_key ` set ?old) (spool_files w)"
    using sweep_age_clean [OF assms(1), of now maxAge gs ?st] unfolding young gs_def by auto
  have "tot = sum_list (map sf_byte_len ?old) + sum_list (map sf_byte_len young)"
    unfolding tot_def young gs_def [symmetric]
    by (induction gs) auto
  then have total3: "sw_total st3 = sum_list (map sf_byte_len young)"
    using age(3) by simp
  have young': "distinct young" "set young = set gs - set ?old"
    using gs(2) by (auto simp: young gs_def)
  obtain st4 w4 where size: "sweep_size maxBytes (map evictable_entry young) (st3, w3) = (st4, w4)"
    "sw_first st4 = None" "clean w4" "spool_files w4 = filter (\<lambda>f. sf_batch_key f \<notin>
        sf_batch_key ` (set young - set (keep_within maxBytes young))) (spool_files w3)"
    using sweep_size_clean [OF age(4) total3 young'(1), of maxBytes] age(2) by auto
  have key: "sf_batch_key f \<in> sf_batch_key ` A \<longleftrightarrow> f \<in> A" if "f \<in> set (spool_files w)" "A \<subseteq> set gs" for f A
    using assms(2) that gs(1) unfolding distinct_map inj_on_def by blast
  have sub: "set ?old \<subseteq> set gs" "set young - set (keep_within maxBytes young) \<subseteq> set gs"
    using young'(2) by auto
  have rows: "spool_files w4 = filter (\<lambda>f. sf_committed_at f = None \<or> f \<in> set (keep_within maxBytes young)) (spool_files w)"
    unfolding size(4) age(5) filter_filter
    using key [OF _ sub(1)] key [OF _ sub(2)] keep_within_suffix [of maxBytes young] gs(1) young'(2)
    by (intro filter_cong) auto
  have "\<exists>w5. db_op PruneSpoolSchemas w4 = (Inr n, w5) \<and> spool_files w5 = spool_files w4"
    if "n = fst (q_DeleteUnreferencedSpoolSchemas (st_db (sp_store w4)))" for n
    using size(3) that by (simp add: db_op_def PruneSpoolSchemas_def staging_wrap_def op_wrap_def stmt_def
        q_DeleteUnreferencedSpoolSchemas_def Let_def clean_def)
  then obtain n w5 where "db_op PruneSpoolSchemas w4 = (Inr n, w5)" "spool_files w5 = spool_files w4"
    by blast
  then show ?thesis
    using reads age(1) size(1,2) rows by (auto simp: Sweep_def)
qed

lemma Write_result:
  assumes "Write ns tbl key desc body now w = (r, w')"
  shows "(\<forall>p. p \<noteq> Path (sp_dir w) ns tbl key \<longrightarrow> p \<noteq> tmp_path (sp_dir w) ns tbl key \<longrightarrow>
        sp_files w' p = sp_files w p)
    \<and> sp_files w' (Path (sp_dir w) ns tbl key) \<in> {sp_files w (Path (sp_dir w) ns tbl key), Some body}
    \<and> (st_db (sp_store w') \<noteq> st_db (sp_store w) \<longrightarrow> sp_files w' (Path (sp_dir w) ns tbl key) = Some body)
    \<and> (r = Inr () \<longrightarrow> sp_files w' (Path (sp_dir w) ns tbl key) = Some body
        \<and> sp_files w' (tmp_path (sp_dir w) ns tbl key) = None
        \<and> (\<exists>f\<in>set (spool_files w'). sf_batch_key f = key \<and> sf_schema_fp f = d_fp desc
              \<and> sf_byte_len f = int (length body))
        \<and> map_of (db_spool_schemas (st_db (sp_store w'))) (d_fp desc) \<noteq> None)"
proof -
  obtain q w1 where q: "writeFile ns tbl key body w = (q, w1)" by (cases "writeFile ns tbl key body w")
  note inv = ensuresD [OF writeFile_ensures [OF refl, where ns = ns and tbl = tbl and key = key and body = body and ?w0.0 = w], of w, unfolded q]
  show ?thesis
  proof (cases q)
    case (Inl e)
    then have "write_inv (Path (sp_dir w) ns tbl key) (tmp_path (sp_dir w) ns tbl key) body w w1"
      using inv(1) by (simp add: write_inv_def)
    moreover have "w' = w1" "r = Inl e"
      using assms q Inl by (simp_all add: Write_def sp_bind_def)
    ultimately show ?thesis
      by (auto simp: write_inv_def)
  next
    case (Inr u)
    then have wr: "written (Path (sp_dir w) ns tbl key) (tmp_path (sp_dir w) ns tbl key) body w w1"
      using inv(2) by (simp add: write_inv_def)
    from assms q Inr have "sp_files w' = sp_files w1"
      "r = Inr () \<Longrightarrow> RecordSpoolFile \<lparr>spr_Namespace = ns, spr_Table = tbl, spr_BatchKey = key,
         spr_Descriptor = Some desc, spr_ByteLen = int (length body), spr_CreatedAt = now\<rparr> (sp_store w1)
         = (Inr (), sp_store w')"
      by (auto simp: Write_def sp_bind_def sp_wrap_def db_op_def prod_eq_iff split: sum.splits)
    then show ?thesis
      using wr RecordSpoolFile_Inr by (auto simp: write_states)
  qed
qed

section \<open>A small cache\<close>

definition sample_spool :: spool_world where
  "sample_spool = \<lparr>sp_dir = ''/c'', sp_store = empty_store\<lparr>st_db := (st_db empty_store)\<lparr>db_spool_files :=
      [\<lparr>sf_batch_key = ''a'', sf_namespace = ''n'', sf_table = ''t'', sf_schema_fp = ''s'', sf_byte_len = 5,
        sf_created_at = 0, sf_committed_at = Some 1\<rparr>,
       \<lparr>sf_batch_key = ''b'', sf_namespace = ''n'', sf_table = ''t'', sf_schema_fp = ''s'', sf_byte_len = 5,
        sf_created_at = 1, sf_committed_at = None\<rparr>,
       \<lparr>sf_batch_key = ''c'', sf_namespace = ''n'', sf_table = ''t'', sf_schema_fp = ''s'', sf_byte_len = 5,
        sf_created_at = 2, sf_committed_at = Some 3\<rparr>]\<rparr>\<rparr>,
    sp_files = (\<lambda>_. Some [1]), sp_os = [], sp_partial = 0\<rparr>"

lemma sample_spool_sel: "clean sample_spool" "os_honest sample_spool"
    "distinct (map sf_batch_key (spool_files sample_spool))"
    "\<forall>f\<in>set (spool_files sample_spool). CHR ''/'' \<notin> set (sf_batch_key f)"
  by (simp_all add: sample_spool_def clean_def os_honest_def empty_store_def)

lemma sample_sweep:
  "\<exists>w'. Sweep 0 0 6 sample_spool = (None, w') \<and> map sf_batch_key (spool_files w') = [''b'', ''c'']"
  using Sweep_clean [OF sample_spool_sel(1,3) refl, of 0 0 6]
  by (auto simp: sample_spool_def q_SpoolEvictable_def sort_by_def spool_le_def too_old_def)

section \<open>Properties\<close>

text \<open>C10: The durable write of a batch is all or nothing, however the operating system and the driver fail: no
  file but the batch's own two names changes; the final name holds what it held or the whole body; the
  database changes only once the whole file is in place; and a write that succeeds leaves the whole file,
  no temporary, and a row giving its key, its shape and its size, with the shape recorded.\<close>

theorem spool_write_atomic:
  assumes "Write ns tbl key desc body now w = (r, w')"
  shows "(\<forall>p. p \<noteq> Path (sp_dir w) ns tbl key \<longrightarrow> p \<noteq> tmp_path (sp_dir w) ns tbl key \<longrightarrow>
        sp_files w' p = sp_files w p)
    \<and> sp_files w' (Path (sp_dir w) ns tbl key) \<in> {sp_files w (Path (sp_dir w) ns tbl key), Some body}
    \<and> (st_db (sp_store w') \<noteq> st_db (sp_store w) \<longrightarrow> sp_files w' (Path (sp_dir w) ns tbl key) = Some body)
    \<and> (r = Inr () \<longrightarrow> sp_files w' (Path (sp_dir w) ns tbl key) = Some body
        \<and> sp_files w' (tmp_path (sp_dir w) ns tbl key) = None
        \<and> (\<exists>f\<in>set (spool_files w'). sf_batch_key f = key \<and> sf_schema_fp f = d_fp desc
              \<and> sf_byte_len f = int (length body))
        \<and> map_of (db_spool_schemas (st_db (sp_store w'))) (d_fp desc) \<noteq> None)"
  by (rule Write_result [OF assms])

theorem spool_write_atomic_witness:
  "\<exists>w'. Write ''n'' ''t'' ''k'' sample_descriptor [1, 2] 7 sample_spool = (Inr (), w')
     \<and> sp_files w' ''/c/n/t/data/k.parquet'' = Some [1, 2]"
proof -
  obtain w' where w': "Write ''n'' ''t'' ''k'' sample_descriptor [1, 2] 7 sample_spool = (Inr (), w')"
    by (simp add: Write_def writeFile_def sp_bind_def sp_wrap_def os_ok_def os_call_def or_cleanup_def syncDir_def
        db_op_def RecordSpoolFile_def staging_wrap_def op_wrap_def tx_def op_bind_def op_ret_def stmt_def sample_spool_def
        empty_store_def)
  then show ?thesis
    using spool_write_atomic [OF w'] by (simp add: sample_spool_def Path_def data_dir_def)
qed

text \<open>C11: A sweep, however the operating system and the driver fail, leaves every file no bucket has confirmed where it is,
  its row and its bytes; it removes rows only of confirmed files, and only once the file is off the
  disk; it adds no row and touches no staged record. The hypotheses: batch keys are distinct and
  hold no separator, and the system reports a missing file only for a missing file.\<close>

theorem sweep_spares_backlog:
  assumes "distinct (map sf_batch_key (spool_files w))" "\<forall>f\<in>set (spool_files w). CHR ''/'' \<notin> set (sf_batch_key f)"
    and "os_honest w" "Sweep now maxAge maxBytes w = (r, w')"
  shows "(\<forall>f\<in>set (spool_files w). sf_committed_at f = None \<longrightarrow>
        f \<in> set (spool_files w') \<and> sp_files w' (file_path (sp_dir w) f) = sp_files w (file_path (sp_dir w) f))
    \<and> set (spool_files w') \<subseteq> set (spool_files w)
    \<and> (\<forall>f\<in>set (spool_files w) - set (spool_files w').
        sf_committed_at f \<noteq> None \<and> sp_files w' (file_path (sp_dir w) f) = None)
    \<and> db_staging (st_db (sp_store w')) = db_staging (st_db (sp_store w))"
proof -
  note sw = swept_Sweep [OF assms(1,3,4)]
  have "f = g" if "f \<in> set (spool_files w)" "g \<in> set (spool_files w)"
      "file_path (sp_dir w) f = file_path (sp_dir w) g" for f g
    using Path_key_inj [of "sp_dir w" _ _ "sf_batch_key f" _ _ "sf_batch_key g"] that assms(1,2)
    unfolding file_path_def distinct_map inj_on_def by metis
  note inj = this
  have "sp_files w' (file_path (sp_dir w) f) = sp_files w (file_path (sp_dir w) f)"
    if "f \<in> set (spool_files w)" "sf_committed_at f = None" for f
  proof (rule ccontr)
    assume "sp_files w' (file_path (sp_dir w) f) \<noteq> sp_files w (file_path (sp_dir w) f)"
    then obtain g where "g \<in> set (spool_files w)" "sf_committed_at g \<noteq> None"
        "file_path (sp_dir w) f = file_path (sp_dir w) g"
      using sw unfolding swept_def by blast
    then show False
      using inj [OF that(1)] that(2) by auto
  qed
  moreover from sw obtain E where "E \<subseteq> {f \<in> set (spool_files w). sf_committed_at f \<noteq> None}"
      "spool_files w' = filter (\<lambda>f. f \<notin> E) (spool_files w)"
      "\<forall>f\<in>E. sp_files w' (file_path (sp_dir w) f) = None"
    unfolding swept_def by blast
  ultimately show ?thesis
    using sw by (auto simp: swept_def)
qed

theorem sweep_spares_backlog_witness:
  "\<exists>w'. Sweep 0 0 6 sample_spool = (None, w') \<and> map sf_batch_key (spool_files w') = [''b'', ''c'']
     \<and> sp_files w' ''/c/n/t/data/b.parquet'' = Some [1]"
proof -
  from sample_sweep obtain w' where w': "Sweep 0 0 6 sample_spool = (None, w')"
      "map sf_batch_key (spool_files w') = [''b'', ''c'']"
    by (elim exE conjE)
  let ?b = "spool_files sample_spool ! 1"
  have b: "?b \<in> set (spool_files sample_spool)" "sf_committed_at ?b = None"
      "file_path (sp_dir sample_spool) ?b = ''/c/n/t/data/b.parquet''"
      "sp_files sample_spool ''/c/n/t/data/b.parquet'' = Some [1]"
    by (simp_all add: sample_spool_def file_path_def Path_def data_dir_def)
  have "sp_files w' ''/c/n/t/data/b.parquet'' = Some [1]"
    using bspec [OF sweep_spares_backlog [OF sample_spool_sel(3,4,2) w'(1), THEN conjunct1] b(1),
        rule_format, OF b(2), THEN conjunct2] unfolding b(3,4) .
  then show ?thesis
    by (intro exI [of _ w'] conjI w')
qed

text \<open>With nothing failing, a sweep removes exactly what the bounds demand: what stays is every file
  no bucket has confirmed and, of the confirmed files not too old, the newest that together fit the
  size bound.\<close>

theorem sweep_enforces_bounds:
  assumes "sp_os w = []" "st_faults (sp_store w) = []" "distinct (map sf_batch_key (spool_files w))"
  shows "\<exists>w'. Sweep now maxAge maxBytes w = (None, w') \<and> spool_files w' =
     filter (\<lambda>f. sf_committed_at f = None \<or> f \<in> set (keep_within maxBytes
         (filter (\<lambda>f. \<not> too_old now maxAge (evictable_entry f)) (fst (q_SpoolEvictable (st_db (sp_store w)))))))
       (spool_files w)"
  using Sweep_clean [OF _ assms(3) refl] assms(1,2) by (simp add: clean_def)

theorem sweep_enforces_bounds_witness:
  "\<exists>w'. Sweep 0 0 6 sample_spool = (None, w') \<and> map sf_batch_key (spool_files w') = [''b'', ''c'']"
  using sweep_enforces_bounds [OF _ _ sample_spool_sel(3), of 0 0 6] sample_spool_sel(1)
  by (auto simp: sample_spool_def q_SpoolEvictable_def sort_by_def spool_le_def too_old_def clean_def)

end
