(* ===== verification/FlushRetry.thy ===== *)
theory FlushRetry
  imports SpoolProps "HOL-Library.Signed_Division"
begin

text \<open>File \<open>internal/flush/retry.go\<close>: the bounded retry policy. Durations are \<open>int64\<close> nanoseconds, kept as
  integers with the wrap-around of the doubling written out. The jitter multiplies two doubles: the
  draw is a rational \<open>m / 2 ^ e\<close> (every finite double is one), the product is rounded to 53
  significant bits, ties to even, and then truncated, as IEEE 754 and Go have it.\<close>

section \<open>The policy\<close>

record Retry =
  MaxAttempts :: int
  BaseDelay :: int
  MaxDelay :: int

definition attempts :: "Retry \<Rightarrow> int" where
  "attempts r = (if MaxAttempts r < 1 then 1 else MaxAttempts r)"

fun double_up :: "Retry \<Rightarrow> nat \<Rightarrow> int \<Rightarrow> int" where
  "double_up r 0 d = (if d > MaxDelay r then MaxDelay r else d)"
| "double_up r (Suc n) d = (if d > MaxDelay r sdiv 2 then MaxDelay r else double_up r n (wrap64 (d * 2)))"

definition ceiling :: "Retry \<Rightarrow> int \<Rightarrow> int" where
  "ceiling r attempt =
    (if attempt < 1 \<or> BaseDelay r \<le> 0 then 0 else double_up r (nat (attempt - 1)) (BaseDelay r))"

section \<open>Doubles\<close>

text \<open>A non-negative double, or the exact product of two, is \<open>N / 2 ^ e\<close>.\<close>

record double =
  num :: nat
  den_exp :: nat

fun bit_length :: "nat \<Rightarrow> nat" where
  "bit_length n = (if n = 0 then 0 else Suc (bit_length (n div 2)))"

declare bit_length.simps [simp del]

definition round_shift :: "nat \<Rightarrow> nat \<Rightarrow> nat" where
  "round_shift n s =
    (if s = 0 then n
     else (let q = n div 2 ^ s; r = n mod 2 ^ s; h = 2 ^ (s - 1)
           in (if r > h \<or> r = h \<and> odd q then q + 1 else q) * 2 ^ s))"

definition round53 :: "nat \<Rightarrow> nat" where
  "round53 n = round_shift n (bit_length n - 53)"

definition float64 :: "int \<Rightarrow> double" where
  "float64 x = \<lparr>num = round53 (nat x), den_exp = 0\<rparr>"

definition fmul :: "double \<Rightarrow> double \<Rightarrow> double" where
  "fmul x y = \<lparr>num = round53 (num x * num y), den_exp = den_exp x + den_exp y\<rparr>"

definition trunc_int :: "double \<Rightarrow> int" where
  "trunc_int x = int (num x div 2 ^ den_exp x)"

text \<open>The draw, of which \<open>delay\<close> distinguishes \<open>u \<le> 0\<close> and \<open>u \<ge> 1\<close>; \<open>None\<close> is a negative one.\<close>

definition delay :: "Retry \<Rightarrow> int \<Rightarrow> double option \<Rightarrow> int" where
  "delay r attempt unit =
    (if ceiling r attempt \<le> 0 then 0
     else case unit of
       None \<Rightarrow> 0
     | Some u \<Rightarrow>
         if num u = 0 then 0
         else if num u \<ge> 2 ^ den_exp u then ceiling r attempt
         else trunc_int (fmul (float64 (ceiling r attempt)) u))"

section \<open>The ceiling\<close>

definition retry_ok :: "Retry \<Rightarrow> bool" where
  "retry_ok r \<longleftrightarrow> 0 < BaseDelay r \<and> BaseDelay r \<le> max_int64 \<and> 0 \<le> MaxDelay r \<and> MaxDelay r \<le> max_int64"

lemma sdiv_2: "0 \<le> (x::int) \<Longrightarrow> x sdiv 2 = x div 2"
  by (simp add: signed_divide_int_def sgn_if)

text \<open>The doubling never wraps, and the cap is what the doubled delay would exceed.\<close>

lemma double_up_closed:
  "0 < d \<Longrightarrow> d \<le> max_int64 \<Longrightarrow> 0 \<le> MaxDelay r \<Longrightarrow> MaxDelay r \<le> max_int64 \<Longrightarrow>
   double_up r n d = min (d * 2 ^ n) (MaxDelay r)"
proof (induction r n d rule: double_up.induct)
  case (2 r n d)
  show ?case
  proof (cases "d > MaxDelay r sdiv 2")
    case True
    then have "MaxDelay r < d * 2"
      using 2 by (simp add: sdiv_2)
    moreover have "d * 2 \<le> d * 2 ^ Suc n"
      using 2 by simp
    ultimately show ?thesis
      using True by simp
  next
    case False
    then have "d * 2 \<le> MaxDelay r"
      using 2 by (simp add: sdiv_2)
    then have "wrap64 (d * 2) = d * 2"
      using 2 by (intro wrap64_id) (simp_all add: min_int64_def)
    then show ?thesis
      using 2 False \<open>d * 2 \<le> MaxDelay r\<close> by (simp add: mult.assoc)
  qed
qed auto

lemma ceiling_closed:
  "retry_ok r \<Longrightarrow> 1 \<le> n \<Longrightarrow> ceiling r n = min (BaseDelay r * 2 ^ nat (n - 1)) (MaxDelay r)"
  by (simp add: ceiling_def retry_ok_def double_up_closed)

lemma ceiling_range: "retry_ok r \<Longrightarrow> 0 \<le> ceiling r n \<and> ceiling r n \<le> MaxDelay r"
  using ceiling_closed [of r n] by (cases "1 \<le> n") (auto simp: retry_ok_def ceiling_def)

section \<open>Rounding\<close>

lemma bit_length_bounds: "0 < n \<Longrightarrow> 0 < bit_length n \<and> 2 ^ (bit_length n - 1) \<le> n \<and> n < 2 ^ bit_length n"
proof (induction n rule: bit_length.induct)
  case (1 n)
  show ?case
  proof (cases "n div 2 = 0")
    case True
    then have "n = 1"
      using 1(2) by simp
    then show ?thesis
      by (simp add: bit_length.simps)
  next
    case False
    then obtain k where k: "bit_length (n div 2) = Suc k" "2 ^ k \<le> n div 2" "n div 2 < 2 ^ Suc k"
      using 1 by (cases "bit_length (n div 2)") auto
    have "n = 2 * (n div 2) + n mod 2" "n mod 2 < 2"
      by simp_all
    then have "2 * 2 ^ k \<le> n \<and> n < 2 * 2 ^ Suc k"
      using k(2,3) by linarith
    then show ?thesis
      using 1(2) k(1) by (simp add: bit_length.simps [of n])
  qed
qed

lemma round_shift_le:
  assumes "N \<le> K" "2 ^ s dvd K"
  shows "round_shift N s \<le> K"
proof (cases "s = 0")
  case False
  obtain c where K: "K = 2 ^ s * c"
    using assms(2) by blast
  have eq: "N = N div 2 ^ s * 2 ^ s + N mod 2 ^ s"
    by (simp only: div_mult_mod_eq)
  show ?thesis
  proof (cases "N mod 2 ^ s = 0")
    case True
    then show ?thesis
      using assms(1) eq by (auto simp: round_shift_def Let_def)
  next
    case r: False
    then have "N div 2 ^ s * 2 ^ s < 2 ^ s * c"
      using assms(1) eq K by linarith
    then have "N div 2 ^ s + 1 \<le> c"
      by (metis Suc_eq_plus1 Suc_leI mult.commute mult_less_cancel2)
    then have "(N div 2 ^ s + 1) * 2 ^ s \<le> K"
      unfolding K by (metis mult.commute mult_le_mono2)
    then show ?thesis
      by (auto simp: round_shift_def Let_def algebra_simps)
  qed
qed (simp add: round_shift_def assms)

lemma round53_le:
  assumes "N \<le> c * 2 ^ e" "c < 2 ^ 53"
  shows "round53 N \<le> c * 2 ^ e"
proof (cases "bit_length N \<le> 53 \<or> N = 0")
  case True
  then show ?thesis
    using assms(1) by (auto simp: round53_def round_shift_def bit_length.simps [of 0])
next
  case False
  define s where "s = bit_length N - 53"
  have s: "bit_length N = s + 53"
    using False by (simp add: s_def)
  have "2 ^ (s + 52) \<le> N"
    using bit_length_bounds [of N] False s by (simp add: add.commute)
  moreover have "c * 2 ^ e < 2 ^ (53 + e)"
    using assms(2) by (simp add: power_add)
  ultimately have "(2::nat) ^ (s + 52) < 2 ^ (53 + e)"
    using assms(1) by linarith
  then have "s + 52 < 53 + e"
    by (rule power_less_imp_less_exp [rotated]) simp
  then have "2 ^ s dvd c * 2 ^ e"
    by (intro dvd_mult le_imp_power_dvd) simp
  then show ?thesis
    using round_shift_le [OF assms(1)] by (simp add: round53_def s_def)
qed

lemma round53_exact:
  assumes "n < 2 ^ 53"
  shows "round53 n = n"
proof -
  have "bit_length n \<le> 53"
  proof (cases "n = 0")
    case False
    then have "(2::nat) ^ (bit_length n - 1) < 2 ^ 53"
      using bit_length_bounds [of n] assms by linarith
    then show ?thesis
      using power_less_imp_less_exp [of "2::nat" "bit_length n - 1" 53] by simp
  qed (simp add: bit_length.simps)
  then show ?thesis
    by (simp add: round53_def round_shift_def)
qed

lemma scaled_within:
  assumes "0 \<le> c" "c < 2 ^ 53" "num u < 2 ^ den_exp u"
  shows "0 \<le> trunc_int (fmul (float64 c) u) \<and> trunc_int (fmul (float64 c) u) \<le> c"
proof -
  have c: "nat c < 2 ^ 53"
    using assms(1,2) by (simp add: nat_less_iff)
  have "nat c * num u \<le> nat c * 2 ^ den_exp u"
    using assms(3) by simp
  then have "round53 (nat c * num u) \<le> nat c * 2 ^ den_exp u"
    using c by (rule round53_le)
  then have "round53 (nat c * num u) div 2 ^ den_exp u \<le> nat c"
    by (metis div_le_mono nonzero_mult_div_cancel_right power_not_zero zero_neq_numeral)
  then show ?thesis
    using assms(1) by (simp add: trunc_int_def fmul_def float64_def round53_exact [OF c])
qed

section \<open>Properties\<close>

text \<open>C16: For a policy with a positive base and a cap under 2^53 nanoseconds (104 days), the ceilings
  are the base doubled per attempt and capped, with no overflow however many attempts are made; they
  never decrease; and every delay, whatever the draw, lies between zero and the ceiling of its attempt. Any
  policy at all makes at least one attempt.\<close>

theorem retry_schedule:
  assumes "0 < BaseDelay r" "BaseDelay r \<le> max_int64" "0 \<le> MaxDelay r" "MaxDelay r < 2 ^ 53" "1 \<le> n"
  shows "ceiling r n = min (BaseDelay r * 2 ^ nat (n - 1)) (MaxDelay r)
    \<and> (\<forall>m\<ge>n. ceiling r n \<le> ceiling r m)
    \<and> 0 \<le> delay r n u \<and> delay r n u \<le> ceiling r n \<and> ceiling r n \<le> MaxDelay r
    \<and> 1 \<le> attempts r"
proof -
  have ok: "retry_ok r"
    using assms by (simp add: retry_ok_def max_int64_def)
  have mono: "ceiling r n \<le> ceiling r m" if "n \<le> m" for m
  proof -
    have "BaseDelay r * 2 ^ nat (n - 1) \<le> BaseDelay r * 2 ^ nat (m - 1)"
      using assms(1) that by (simp add: nat_mono)
    then show ?thesis
      using ceiling_closed [OF ok] assms(5) that by simp
  qed
  have "0 \<le> delay r n u \<and> delay r n u \<le> ceiling r n"
    using ceiling_range [OF ok, of n] assms(4) scaled_within [of "ceiling r n"]
    by (auto simp: delay_def split: option.split)
  then show ?thesis
    using ceiling_closed [OF ok assms(5)] mono by (simp add: attempts_def)
qed

theorem retry_schedule_witness:
  "ceiling \<lparr>MaxAttempts = 5, BaseDelay = 100, MaxDelay = 1000\<rparr> 4 = 800
   \<and> delay \<lparr>MaxAttempts = 5, BaseDelay = 100, MaxDelay = 1000\<rparr> 4 (Some \<lparr>num = 3, den_exp = 2\<rparr>) \<le> 800"
  using retry_schedule [of "\<lparr>MaxAttempts = 5, BaseDelay = 100, MaxDelay = 1000\<rparr>" 4 "Some \<lparr>num = 3, den_exp = 2\<rparr>"]
  by (simp add: max_int64_def)

end
