(* ===== verification/Flush.thy ===== *)
theory Flush
  imports FlushRetry
begin

text \<open>Package \<open>internal/flush\<close>, files \<open>flush.go\<close> and \<open>worker.go\<close>: one attempt at a batch (\<open>process\<close>), the
  retry cycle around it, quarantine, and the worker's queue.

  Object storage, the Iceberg catalog and the ClickHouse mirror are reached through third-party
  clients. Each call takes the next outcome of \<open>fw_ext\<close>: \<open>ExtFail e landed\<close> is a failure whose effect
  may have landed nonetheless. What is assumed of them: a successful \<open>PutObject\<close> stores the body; a
  commit appends one manifest to the table's current snapshot, and can only land if the handle it was
  made from describes the catalog's current metadata; \<open>Reload\<close> returns the catalog's table. The Arrow
  builder and the Parquet encoder are functions of the options. The crash hooks are nil in
  production and absent.\<close>

section \<open>Types\<close>

record FlushRow =
  frw_ID :: int
  frw_ByteLen :: int

record Batch =
  bt_Key :: string
  bt_Rows :: "FlushRow list"

definition Records :: "Batch \<Rightarrow> int" where
  "Records b = int (length (bt_Rows b))"

definition Bytes :: "Batch \<Rightarrow> int" where
  "Bytes b = sum_list (map frw_ByteLen (bt_Rows b))"

text \<open>The function values are the writer's hooks; \<open>fo_OnFlushError\<close> and \<open>fo_OnClickHouseError\<close> say whether the
  caller set those callbacks.\<close>

record 'r Options =
  fo_Namespace :: string
  fo_Table :: string
  fo_Bucket :: string
  fo_Prefix :: string
  fo_Spool :: bool
  fo_LocalOnly :: bool
  fo_Descriptor :: Descriptor
  fo_Build :: "Row list \<Rightarrow> (error, 'r) result"
  fo_encodeParquet :: "'r \<Rightarrow> (error, bytes) result"
  fo_NumRows :: "'r \<Rightarrow> int"
  fo_Reload :: bool
  fo_Mirror :: bool
  fo_OnFlushError :: bool
  fo_OnClickHouseError :: bool
  fo_Retry :: Retry
  fo_text :: "error \<Rightarrow> string"

text \<open>A snapshot is its manifests, a manifest its entries: whether the entry is a data file, and its
  path.\<close>

type_synonym snapshot = "(bool \<times> string) list list"

datatype ext = ExtOk | ExtFail error bool

text \<open>What the callbacks, the mirror and the clock are told, in order.\<close>

datatype event =
  EvCommitted int int
| EvQuarantined int int
| EvFlushError error
| EvCycle "error option"
| EvMirror string
| EvClickHouseError error
| EvSleep int

record flush_world =
  fw_spool :: spool_world
  fw_bucket :: "string \<Rightarrow> bytes option"
  fw_catalog :: "snapshot option"
  fw_table :: "snapshot option"
  fw_shapes :: "(string \<times> Descriptor) list"
  fw_ext :: "ext list"
  fw_ctx :: "bool list"
  fw_draws :: "double option list"
  fw_now :: int
  fw_log :: "event list"

abbreviation fw_store :: "flush_world \<Rightarrow> store" where
  "fw_store w \<equiv> sp_store (fw_spool w)"

datatype failureKind = failureNone | failureEncode | failureTransient

text \<open>An error on its way out of an attempt, with the marker \<open>unencodable\<close> or without.\<close>

datatype flush_fail = Unencodable error | Failed error

fun classify :: "flush_fail option \<Rightarrow> failureKind \<times> error option" where
  "classify None = (failureNone, None)"
| "classify (Some (Unencodable e)) = (failureEncode, Some e)"
| "classify (Some (Failed e)) = (failureTransient, Some e)"

record job =
  jb_batch :: Batch
  jb_seq :: nat
  jb_replayed :: bool
  jb_attempts :: int
  jb_attempted :: bool

section \<open>Sequencing\<close>

type_synonym 'a fop = "flush_world \<Rightarrow> (flush_fail, 'a) result \<times> flush_world"

definition fl_ret :: "'a \<Rightarrow> 'a fop" where "fl_ret x w = (Inr x, w)"
definition fl_fail :: "flush_fail \<Rightarrow> 'a fop" where "fl_fail e w = (Inl e, w)"

definition fl_bind :: "'a fop \<Rightarrow> ('a \<Rightarrow> 'b fop) \<Rightarrow> 'b fop" where
  "fl_bind m f w = (case m w of (Inl e, w') \<Rightarrow> (Inl e, w') | (Inr x, w') \<Rightarrow> f x w')"

fun fl_for :: "('a \<Rightarrow> 'b fop) \<Rightarrow> 'a list \<Rightarrow> 'b list fop" where
  "fl_for f [] = fl_ret []"
| "fl_for f (x # xs) = fl_bind (f x) (\<lambda>y. fl_bind (fl_for f xs) (\<lambda>ys. fl_ret (y # ys)))"

definition fl_lift :: "(error \<Rightarrow> flush_fail) \<Rightarrow> (error, 'a) result \<Rightarrow> 'a fop" where
  "fl_lift mark r w = (case r of Inl e \<Rightarrow> (Inl (mark e), w) | Inr x \<Rightarrow> (Inr x, w))"

definition spool_op :: "'a sop \<Rightarrow> 'a fop" where
  "spool_op m w =
    (case m (fw_spool w) of
       (Inl e, s) \<Rightarrow> (Inl (Failed e), w\<lparr>fw_spool := s\<rparr>)
     | (Inr x, s) \<Rightarrow> (Inr x, w\<lparr>fw_spool := s\<rparr>))"

definition staging_op :: "'a op \<Rightarrow> 'a fop" where
  "staging_op m = spool_op (db_op m)"

definition ext_call :: "(flush_world \<Rightarrow> flush_world) \<Rightarrow> unit fop" where
  "ext_call effect w =
    (case fw_ext w of
       ExtFail e landed # r \<Rightarrow> (Inl (Failed e), (if landed then effect else id) (w\<lparr>fw_ext := r\<rparr>))
     | _ \<Rightarrow> (Inr (), effect (w\<lparr>fw_ext := tl (fw_ext w)\<rparr>)))"

definition emit :: "event \<Rightarrow> flush_world \<Rightarrow> flush_world" where
  "emit ev w = w\<lparr>fw_log := fw_log w @ [ev]\<rparr>"

section \<open>Keys\<close>

text \<open>\<open>path.Join\<close> of a clean prefix and plain segments, the empty ones dropped.\<close>

definition path_join :: "string list \<Rightarrow> string" where
  "path_join segs = concat (map (\<lambda>(i, s). if i = 0 then s else ''/'' @ s)
     (enumerate 0 (filter (\<lambda>s. s \<noteq> []) segs)))"

definition DataKey :: "string \<Rightarrow> string \<Rightarrow> string \<Rightarrow> string \<Rightarrow> string" where
  "DataKey prefix ns tbl key = path_join [prefix, ns, tbl, ''data'', key @ ''.parquet'']"

definition DataURI :: "string \<Rightarrow> string \<Rightarrow> string \<Rightarrow> string \<Rightarrow> string \<Rightarrow> string" where
  "DataURI bucket prefix ns tbl key = ''s3://'' @ path_join [bucket, DataKey prefix ns tbl key]"

definition dataKey :: "('r, 'z) Options_scheme \<Rightarrow> string \<Rightarrow> string" where
  "dataKey opts key = DataKey (fo_Prefix opts) (fo_Namespace opts) (fo_Table opts) key"

definition dataURI :: "('r, 'z) Options_scheme \<Rightarrow> string \<Rightarrow> string" where
  "dataURI opts key = DataURI (fo_Bucket opts) (fo_Prefix opts) (fo_Namespace opts) (fo_Table opts) key"

definition flushErr :: "('r, 'z) Options_scheme \<Rightarrow> string \<Rightarrow> int \<Rightarrow> int \<Rightarrow> error \<Rightarrow> error" where
  "flushErr opts key records tries e =
    EFlush (FlushError (fo_Namespace opts) (fo_Table opts) key records tries False e)"

section \<open>prepare\<close>

definition descriptor :: "string \<Rightarrow> Descriptor fop" where
  "descriptor fp w =
    (case map_of (fw_shapes w) fp of
       Some d \<Rightarrow> (Inr d, w)
     | None \<Rightarrow>
         fl_bind (staging_op (Schema fp))
           (\<lambda>d w'. (Inr d, w'\<lparr>fw_shapes := (fp, d) # fw_shapes w'\<rparr>)) w)"

definition decode_sealed :: "('r, 'z) Options_scheme \<Rightarrow> StagedRow \<Rightarrow> Row fop" where
  "decode_sealed opts r =
    fl_bind (descriptor (sgr_SchemaFP r)) (\<lambda>recorded.
    fl_bind (fl_lift Unencodable (Decode (fo_Table opts) recorded (sgr_Payload r))) (\<lambda>row.
    if d_fp recorded \<noteq> d_fp (fo_Descriptor opts)
    then fl_lift Unencodable (Remap (fo_Table opts) recorded (fo_Descriptor opts) row)
    else fl_ret row))"

definition recode_row :: "('r, 'z) Options_scheme \<Rightarrow> StagedRow \<Rightarrow> (bytes \<times> SealRow) fop" where
  "recode_row opts r =
    (if sgr_SchemaFP r \<noteq> d_fp (fo_Descriptor opts)
     then fl_bind (descriptor (sgr_SchemaFP r)) (\<lambda>recorded.
          fl_bind (fl_lift Unencodable
            (Transcode (fo_Table opts) recorded (fo_Descriptor opts) (sgr_Payload r))) (\<lambda>recoded.
          fl_ret (recoded, \<lparr>slr_ID = sgr_ID r, slr_Payload = Some recoded\<rparr>)))
     else fl_ret (sgr_Payload r, \<lparr>slr_ID = sgr_ID r, slr_Payload = None\<rparr>))"

definition prepare :: "('r, 'z) Options_scheme \<Rightarrow> Batch \<Rightarrow> (string \<times> Row list \<times> int list) fop" where
  "prepare opts b =
    (let ids = map frw_ID (bt_Rows b) in
     fl_bind (staging_op (Rows ids)) (\<lambda>staged.
     if bt_Key b \<noteq> []
     then fl_bind (fl_for (decode_sealed opts) staged) (\<lambda>rows. fl_ret (bt_Key b, rows, ids))
     else
       fl_bind (fl_for (recode_row opts) staged) (\<lambda>recoded.
       fl_bind (fl_lift Unencodable (BatchHash (fo_Namespace opts) (fo_Table opts) (fo_Descriptor opts)
                  (map fst recoded))) (\<lambda>key.
       fl_bind (staging_op (Seal \<lparr>srq_Namespace = fo_Namespace opts, srq_Table = fo_Table opts,
                  srq_BatchKey = key, srq_Descriptor = Some (fo_Descriptor opts),
                  srq_Rows = map snd recoded\<rparr>)) (\<lambda>_.
       fl_bind (fl_for (\<lambda>p. fl_lift Unencodable (Decode (fo_Table opts) (fo_Descriptor opts) p))
                  (map fst recoded)) (\<lambda>rows.
       fl_ret (key, rows, ids)))))))"

section \<open>Upload, commit, prune\<close>

definition upload :: "('r, 'z) Options_scheme \<Rightarrow> string \<Rightarrow> bytes \<Rightarrow> unit fop" where
  "upload opts key body = ext_call (\<lambda>w. w\<lparr>fw_bucket := (fw_bucket w)(dataKey opts key \<mapsto> body)\<rparr>)"

definition snapshot_entries :: "snapshot option \<Rightarrow> (bool \<times> string) list" where
  "snapshot_entries sn = (case sn of None \<Rightarrow> [] | Some ms \<Rightarrow> concat ms)"

text \<open>The data files a snapshot references, in commit order.\<close>

definition data_files :: "snapshot option \<Rightarrow> string list" where
  "data_files sn = map snd (filter fst (snapshot_entries sn))"

definition commit_conflict :: error where
  "commit_conflict = ErrOther ''requirement failed: the table has been updated''"

text \<open>The catalog's side of a commit: it lands only on the metadata the handle describes.\<close>

definition land_commit :: "string \<Rightarrow> flush_world \<Rightarrow> flush_world" where
  "land_commit uri w =
    (if fw_table w = fw_catalog w
     then w\<lparr>fw_catalog := Some ((case fw_catalog w of None \<Rightarrow> [] | Some ms \<Rightarrow> ms) @ [[(True, uri)]])\<rparr>
     else w)"

text \<open>\<open>AddFiles\<close> reads the uploaded file into the transaction; \<open>Commit\<close> sends it. The handle returned
  describes the metadata of the commit.\<close>

definition AddFile :: "string \<Rightarrow> snapshot option fop" where
  "AddFile uri =
    fl_bind (ext_call id) (\<lambda>_ w.
      if fw_table w \<noteq> fw_catalog w \<and> (\<forall>e l r. fw_ext w \<noteq> ExtFail e l # r)
      then (Inl (Failed commit_conflict), w\<lparr>fw_ext := tl (fw_ext w)\<rparr>)
      else fl_bind (ext_call (land_commit uri)) (\<lambda>_ w'. (Inr (fw_catalog w'), w')) w)"

definition refresh :: "('r, 'z) Options_scheme \<Rightarrow> flush_world \<Rightarrow> flush_world" where
  "refresh opts w =
    (if \<not> fo_Reload opts then w
     else case ext_call id w of
       (Inl _, w1) \<Rightarrow> w1
     | (Inr _, w1) \<Rightarrow> w1\<lparr>fw_table := fw_catalog w1\<rparr>)"

definition commit :: "('r, 'z) Options_scheme \<Rightarrow> string \<Rightarrow> unit fop" where
  "commit opts key w =
    (case AddFile (dataURI opts key) w of
       (Inl e, w1) \<Rightarrow> (Inl e, refresh opts w1)
     | (Inr tbl, w1) \<Rightarrow> (Inr (), w1\<lparr>fw_table := tbl\<rparr>))"

fun walk_entries :: "string \<Rightarrow> (bool \<times> string) list \<Rightarrow> bool fop" where
  "walk_entries want [] = fl_bind (ext_call id) (\<lambda>_. fl_ret False)"
| "walk_entries want ((is_data, p) # es) =
    fl_bind (ext_call id) (\<lambda>_.
      if is_data \<and> p = want then fl_ret True else walk_entries want es)"

fun walk_manifests :: "string \<Rightarrow> (bool \<times> string) list list \<Rightarrow> bool fop" where
  "walk_manifests want [] = fl_ret False"
| "walk_manifests want (m # ms) =
    fl_bind (walk_entries want m) (\<lambda>found. if found then fl_ret True else walk_manifests want ms)"

definition AlreadyCommitted :: "string \<Rightarrow> bool fop" where
  "AlreadyCommitted want w =
    (case fw_table w of
       None \<Rightarrow> (Inr False, w)
     | Some manifests \<Rightarrow>
         fl_bind (ext_call id) (\<lambda>_. fl_bind (ext_call id) (\<lambda>_. walk_manifests want manifests)) w)"

definition alreadyCommitted :: "('r, 'z) Options_scheme \<Rightarrow> string \<Rightarrow> bool fop" where
  "alreadyCommitted opts key = AlreadyCommitted (dataURI opts key)"

definition prune :: "int list \<Rightarrow> unit fop" where
  "prune ids =
    fl_bind (staging_op (Delete ids)) (\<lambda>_. fl_bind (staging_op PruneSchemas) (\<lambda>_. fl_ret ()))"

definition markSpooled :: "('r, 'z) Options_scheme \<Rightarrow> string \<Rightarrow> unit fop" where
  "markSpooled opts key w =
    (if \<not> fo_Spool opts then (Inr (), w)
     else spool_op (MarkCommitted (fo_Namespace opts) (fo_Table opts) key (fw_now w)) w)"

definition committed :: "job \<Rightarrow> unit fop" where
  "committed j w = (Inr (), emit (EvCommitted (Records (jb_batch j)) (Bytes (jb_batch j))) w)"

definition typed_mirror_error :: "('r, 'z) Options_scheme \<Rightarrow> string \<Rightarrow> int \<Rightarrow> error \<Rightarrow> error" where
  "typed_mirror_error opts key n e =
    (let typed = (case errors_As (\<lambda>x. case x of EClickHouse _ \<Rightarrow> True | _ \<Rightarrow> False) e of
         Some x \<Rightarrow> x
       | None \<Rightarrow> NewClickHouseError ClickHouseKindInsert (fo_Namespace opts) (fo_Table opts) [] (Some e))
     in case typed of
          EClickHouse c \<Rightarrow> EClickHouse (ClickHouseError (che_Namespace c) (che_Table c) (che_Target c)
            (che_Column c) key n (che_Kind c) (che_Err c))
        | x \<Rightarrow> x)"

definition mirror :: "('r, 'z) Options_scheme \<Rightarrow> string \<Rightarrow> 'r \<Rightarrow> flush_world \<Rightarrow> flush_world" where
  "mirror opts key record w =
    (if \<not> fo_Mirror opts then w
     else case ext_call (emit (EvMirror key)) w of
       (Inr _, w1) \<Rightarrow> w1
     | (Inl (Failed e), w1) \<Rightarrow>
         if fo_OnClickHouseError opts
         then emit (EvClickHouseError (typed_mirror_error opts key (fo_NumRows opts record) e)) w1
         else w1
     | (Inl (Unencodable e), w1) \<Rightarrow> w1)"

section \<open>One attempt\<close>

text \<open>The encode step with the mirror tap.\<close>

definition encode_batch :: "('r, 'z) Options_scheme \<Rightarrow> string \<Rightarrow> Row list \<Rightarrow> bytes fop" where
  "encode_batch opts key rows =
    fl_bind (fl_lift Unencodable (fo_Build opts rows)) (\<lambda>record.
    fl_bind (fl_lift Unencodable (fo_encodeParquet opts record)) (\<lambda>body w.
      (Inr body, mirror opts key record w)))"

definition spool_write :: "('r, 'z) Options_scheme \<Rightarrow> string \<Rightarrow> bytes \<Rightarrow> unit fop" where
  "spool_write opts key body w =
    (if \<not> fo_Spool opts then (Inr (), w)
     else spool_op (Write (fo_Namespace opts) (fo_Table opts) key (fo_Descriptor opts) body (fw_now w)) w)"

definition finish_commit :: "('r, 'z) Options_scheme \<Rightarrow> job \<Rightarrow> string \<Rightarrow> int list \<Rightarrow> unit fop" where
  "finish_commit opts j key ids =
    fl_bind (markSpooled opts key) (\<lambda>_. fl_bind (prune ids) (\<lambda>_. committed j))"

text \<open>Everything after \<open>prepare\<close>.\<close>

definition deliver :: "('r, 'z) Options_scheme \<Rightarrow> job \<Rightarrow> string \<Rightarrow> Row list \<Rightarrow> int list \<Rightarrow> unit fop" where
  "deliver opts j key rows ids =
    fl_bind (encode_batch opts key rows) (\<lambda>body.
    fl_bind (spool_write opts key body) (\<lambda>_.
    if fo_LocalOnly opts then fl_bind (prune ids) (\<lambda>_. committed j)
    else
      fl_bind (upload opts key body) (\<lambda>_.
      fl_bind (commit opts key) (\<lambda>_.
      finish_commit opts j key ids))))"

definition attempt :: "('r, 'z) Options_scheme \<Rightarrow> job \<Rightarrow> string \<Rightarrow> Row list \<Rightarrow> int list \<Rightarrow> unit fop" where
  "attempt opts j key rows ids =
    (if \<not> fo_LocalOnly opts \<and> (jb_attempted j \<or> jb_replayed j)
     then fl_bind (alreadyCommitted opts key) (\<lambda>done.
            if done then finish_commit opts j key ids else deliver opts j key rows ids)
     else deliver opts j key rows ids)"

definition fail :: "('r, 'z) Options_scheme \<Rightarrow> job \<Rightarrow> string \<Rightarrow> flush_fail \<Rightarrow> failureKind \<times> error option" where
  "fail opts j key f =
    (case classify (Some f) of (kind, e) \<Rightarrow>
      (kind, map_option (flushErr opts key (Records (jb_batch j)) (jb_attempts j)) e))"

definition process :: "('r, 'z) Options_scheme \<Rightarrow> job \<Rightarrow> flush_world \<Rightarrow>
    (failureKind \<times> error option) \<times> job \<times> flush_world" where
  "process opts j w =
    (case prepare opts (jb_batch j) w of
       (Inl f, w1) \<Rightarrow> (fail opts j (bt_Key (jb_batch j)) f, j, w1)
     | (Inr (key, rows, ids), w1) \<Rightarrow>
         (let j1 = j\<lparr>jb_batch := (jb_batch j)\<lparr>bt_Key := key\<rparr>\<rparr> in
          case attempt opts j1 key rows ids w1 of
            (Inl f, w2) \<Rightarrow> (fail opts j1 key f, j1, w2)
          | (Inr _, w2) \<Rightarrow> ((failureNone, None), j1, w2)))"

section \<open>The cycle\<close>

record flush_result =
  rs_err :: "error option"
  rs_quarantined :: bool
  rs_report :: bool

text \<open>\<open>ctx.Err()\<close>: once done, done for good.\<close>

definition ctx_done :: "flush_world \<Rightarrow> bool \<times> flush_world" where
  "ctx_done w =
    (case fw_ctx w of [] \<Rightarrow> (False, w) | True # _ \<Rightarrow> (True, w) | False # r \<Rightarrow> (False, w\<lparr>fw_ctx := r\<rparr>))"

definition jitter :: "flush_world \<Rightarrow> double option \<times> flush_world" where
  "jitter w =
    (case fw_draws w of [] \<Rightarrow> (None, w) | u # r \<Rightarrow> (u, w\<lparr>fw_draws := r\<rparr>))"

text \<open>\<open>Clock.Sleep\<close> returns an error when the context ends first.\<close>

definition Sleep :: "int \<Rightarrow> flush_world \<Rightarrow> bool \<times> flush_world" where
  "Sleep d w = ctx_done (emit (EvSleep d) w)"

definition as_FlushError :: "error \<Rightarrow> error option" where
  "as_FlushError e = errors_As (\<lambda>x. case x of EFlush _ \<Rightarrow> True | _ \<Rightarrow> False) e"

definition mark_quarantined :: "error \<Rightarrow> error" where
  "mark_quarantined cause =
    (case as_FlushError cause of
       Some (EFlush fe) \<Rightarrow> EFlush (FlushError (fle_Namespace fe) (fle_Table fe) (fle_BatchKey fe)
         (fle_Records fe) (fle_Attempts fe) True (fle_Err fe))
     | _ \<Rightarrow> cause)"

definition quarantine :: "('r, 'z) Options_scheme \<Rightarrow> job \<Rightarrow> error \<Rightarrow> flush_world \<Rightarrow> flush_result \<times> flush_world" where
  "quarantine opts j cause w =
    (case staging_op (Quarantine (map frw_ID (bt_Rows (jb_batch j))) (fw_now w) (fo_text opts cause)) w of
       (Inl f, w1) \<Rightarrow>
         (\<lparr>rs_err = map_option (flushErr opts (bt_Key (jb_batch j)) (Records (jb_batch j)) (jb_attempts j))
             (snd (classify (Some f))), rs_quarantined = False, rs_report = True\<rparr>, w1)
     | (Inr _, w1) \<Rightarrow>
         (\<lparr>rs_err = Some (mark_quarantined cause), rs_quarantined = True, rs_report = True\<rparr>,
          emit (EvQuarantined (Records (jb_batch j)) (Bytes (jb_batch j))) w1))"

lemma process_keeps: "process opts j w = (ke, j', w') \<Longrightarrow>
    jb_attempts j' = jb_attempts j \<and> jb_attempted j' = jb_attempted j \<and> jb_replayed j' = jb_replayed j
    \<and> jb_seq j' = jb_seq j \<and> bt_Rows (jb_batch j') = bt_Rows (jb_batch j)"
  by (auto simp: process_def Let_def split: prod.splits sum.splits)

function tries :: "('r, 'z) Options_scheme \<Rightarrow> job \<Rightarrow> flush_world \<Rightarrow> flush_result \<times> job \<times> flush_world" where
  "tries opts j w =
    (case process opts (j\<lparr>jb_attempts := jb_attempts j + 1\<rparr>) w of
       ((kind, err), j1, w1) \<Rightarrow>
         (let j2 = j1\<lparr>jb_attempted := True\<rparr>;
              stop = (\<lambda>report. \<lparr>rs_err = err, rs_quarantined = False, rs_report = report\<rparr>) in
          case kind of
            failureNone \<Rightarrow> (\<lparr>rs_err = None, rs_quarantined = False, rs_report = False\<rparr>, j2, w1)
          | failureEncode \<Rightarrow> (case quarantine opts j2 (the err) w1 of (r, w2) \<Rightarrow> (r, j2, w2))
          | failureTransient \<Rightarrow>
              (case ctx_done w1 of (cancelled, w2) \<Rightarrow>
               if cancelled then (stop False, j2, w2)
               else if jb_attempts j2 \<ge> attempts (fo_Retry opts) then (stop True, j2, w2)
               else case (if ceiling (fo_Retry opts) (jb_attempts j2) \<le> 0 then (None, w2) else jitter w2) of (u, w3) \<Rightarrow>
                 (case Sleep (delay (fo_Retry opts) (jb_attempts j2) u) w3 of (interrupted, w4) \<Rightarrow>
                  if interrupted then (stop False, j2, w4) else tries opts j2 w4))))"
  by pat_completeness auto
termination
  by (relation "measure (\<lambda>(opts, j, w). nat (attempts (fo_Retry opts) - jb_attempts j))")
    (auto dest!: process_keeps [OF sym])

declare tries.simps [simp del]

definition cycle :: "('r, 'z) Options_scheme \<Rightarrow> job \<Rightarrow> flush_world \<Rightarrow> flush_result \<times> job \<times> flush_world" where
  "cycle opts j w = tries opts (j\<lparr>jb_attempts := 0\<rparr>) w"

section \<open>The worker\<close>

text \<open>\<open>wk_pc\<close> is where the goroutine of \<open>run\<close> stands: about to look at the queue, between the end of a
  cycle and its recording, waiting in \<open>idle\<close>, or gone. The queue's head is the job the cycle works
  on, in place. \<open>wk_wake\<close> is the pending signal of the channel of size one.\<close>

datatype run_pc = Look | Finishing flush_result | Waiting | Exited

record Worker =
  wk_pc :: run_pc
  wk_wake :: bool
  wk_queue :: "job list"
  wk_enqueued :: nat
  wk_completed :: nat
  wk_failure :: "error option"
  wk_failures :: nat
  wk_failureSeq :: nat
  wk_quarantined :: "error option"
  wk_quarantinedSeq :: nat
  wk_stopping :: bool

definition NewWorker :: Worker where
  "NewWorker = \<lparr>wk_pc = Look, wk_wake = False, wk_queue = [], wk_enqueued = 0, wk_completed = 0,
     wk_failure = None, wk_failures = 0, wk_failureSeq = 0, wk_quarantined = None,
     wk_quarantinedSeq = 0, wk_stopping = False\<rparr>"

definition Enqueue :: "Batch \<Rightarrow> bool \<Rightarrow> Worker \<Rightarrow> nat \<times> Worker" where
  "Enqueue b replayed wk =
    (let n = wk_enqueued wk + 1 in
     (n, wk\<lparr>wk_enqueued := n, wk_wake := True,
        wk_queue := wk_queue wk @ [\<lparr>jb_batch = b, jb_seq = n, jb_replayed = replayed,
          jb_attempts = 0, jb_attempted = False\<rparr>]\<rparr>))"

definition Sequence :: "Worker \<Rightarrow> nat" where
  "Sequence wk = wk_enqueued wk"

definition Kick :: "Worker \<Rightarrow> Worker" where
  "Kick wk = wk\<lparr>wk_wake := True\<rparr>"

text \<open>\<open>answer\<close> of \<open>Wait\<close>: \<open>Some r\<close> settles the wait with the error \<open>r\<close>.\<close>

definition answer :: "nat \<Rightarrow> nat \<Rightarrow> Worker \<Rightarrow> error option option \<times> Worker" where
  "answer since seq wk =
    (if wk_quarantined wk \<noteq> None \<and> wk_quarantinedSeq wk \<le> seq
     then (Some (wk_quarantined wk), wk\<lparr>wk_quarantined := None, wk_quarantinedSeq := 0\<rparr>)
     else if wk_failures wk > since \<and> wk_failure wk \<noteq> None \<and> wk_failureSeq wk \<le> seq
     then (Some (wk_failure wk), wk)
     else if wk_completed wk \<ge> seq then (Some None, wk)
     else (None, wk))"

text \<open>\<open>Close\<close> up to the wait for the goroutine; the context may be cancelled after it.\<close>

definition Worker_Close :: "Worker \<Rightarrow> Worker" where
  "Worker_Close wk = wk\<lparr>wk_stopping := True, wk_wake := True\<rparr>"

text \<open>\<open>finish\<close>. Its job is the head of the queue: \<open>head\<close> returned it, callers only add at the other end, and
  the goroutine alone removes, so the code's test that the head is still that job holds.\<close>

definition finish :: "flush_result \<Rightarrow> Worker \<Rightarrow> Worker" where
  "finish res wk =
    (let seq = jb_seq (hd (wk_queue wk));
         leave = (\<lambda>k. k\<lparr>wk_queue := tl (wk_queue k), wk_completed := wk_completed k + 1,
            wk_failure := (if rs_err res = None then None else wk_failure k),
            wk_failureSeq := (if rs_err res = None then 0 else wk_failureSeq k)\<rparr>) in
     if rs_quarantined res
     then leave (wk\<lparr>wk_quarantined := rs_err res, wk_quarantinedSeq := seq\<rparr>)
     else if rs_err res \<noteq> None
     then wk\<lparr>wk_failure := rs_err res, wk_failureSeq := seq, wk_failures := wk_failures wk + 1\<rparr>
     else leave wk)"

text \<open>The callback of \<open>notify\<close>; its panics and its duration are contained by the code.\<close>

definition notify :: "('r, 'z) Options_scheme \<Rightarrow> flush_result \<Rightarrow> flush_world \<Rightarrow> flush_world" where
  "notify opts res w =
    (if \<not> fo_OnFlushError opts then w
     else case rs_err res of None \<Rightarrow> w
     | Some e \<Rightarrow> (case as_FlushError e of None \<Rightarrow> w | Some fe \<Rightarrow> emit (EvFlushError fe) w))"

text \<open>Entering \<open>idle\<close>, and what a wake-up there does.\<close>

definition idle_enter :: "Worker \<Rightarrow> Worker" where
  "idle_enter wk = wk\<lparr>wk_pc := (if wk_stopping wk then Exited else Waiting)\<rparr>"

definition idle_wake :: "Worker \<Rightarrow> Worker" where
  "idle_wake wk = wk\<lparr>wk_wake := False,
     wk_pc := (if wk_stopping wk \<and> wk_queue wk = [] then Exited else Look)\<rparr>"

text \<open>One step of the goroutine. A cycle, with its retries, is one step, coarser than the code's goroutine: what
  other goroutines do to the staging store, the catalog and the context during a cycle is in the scripted
  failures, the catalog handle that may be out of date and \<open>fw_ctx\<close>, while enqueues and inserts land before or
  after it.\<close>

definition run_step :: "('r, 'z) Options_scheme \<Rightarrow> Worker \<times> flush_world \<Rightarrow> Worker \<times> flush_world" where
  "run_step opts c =
    (case c of (wk, w) \<Rightarrow>
     case wk_pc wk of
       Exited \<Rightarrow> (wk, w)
     | Look \<Rightarrow>
         (case ctx_done w of (cancelled, w1) \<Rightarrow>
          if cancelled then (wk\<lparr>wk_pc := Exited\<rparr>, w1)
          else case wk_queue wk of
            [] \<Rightarrow> ((if wk_stopping wk then wk\<lparr>wk_pc := Exited\<rparr> else idle_enter wk), w1)
          | j # js \<Rightarrow>
              (case cycle opts j w1 of (res, j', w2) \<Rightarrow>
               (wk\<lparr>wk_queue := j' # js, wk_pc := Finishing res\<rparr>, emit (EvCycle (rs_err res)) w2)))
     | Finishing res \<Rightarrow>
         (let wk1 = (finish res wk)\<lparr>wk_pc := Look\<rparr> in
          ((if rs_err res \<noteq> None \<and> \<not> rs_quarantined res then idle_enter wk1 else wk1),
           (if rs_report res then notify opts res w else w)))
     | Waiting \<Rightarrow>
         (if wk_wake wk then (idle_wake wk, w)
          else case ctx_done w of (cancelled, w1) \<Rightarrow>
            ((if cancelled then wk\<lparr>wk_pc := Exited\<rparr> else wk), w1)))"

text \<open>The goroutine and its callers, interleaved; inserts into the shared staging store land between its
  steps.\<close>

inductive worker_step :: "('r, 'z) Options_scheme \<Rightarrow> Worker \<times> flush_world \<Rightarrow> Worker \<times> flush_world \<Rightarrow> bool"
  for opts where
  run: "worker_step opts c (run_step opts c)"
| enqueue: "worker_step opts (wk, w) (snd (Enqueue b replayed wk), w)"
| kick: "worker_step opts (wk, w) (Kick wk, w)"
| waited: "worker_step opts (wk, w) (snd (answer since seq wk), w)"
| closing: "worker_step opts (wk, w) (Worker_Close wk, w)"
| insert: "worker_step opts (wk, w) (wk, snd (staging_op (AppendBatch rows) w))"
| cancel: "worker_step opts (wk, w) (wk, w\<lparr>fw_ctx := [True]\<rparr>)"

inductive worker_run :: "('r, 'z) Options_scheme \<Rightarrow> Worker \<times> flush_world \<Rightarrow> Worker \<times> flush_world \<Rightarrow> bool"
  for opts where
  start: "worker_run opts c c"
| more: "worker_run opts c c' \<Longrightarrow> worker_step opts c' c'' \<Longrightarrow> worker_run opts c c''"

inductive_cases worker_stepE: "worker_step opts c c'"

end
