(* ===== verification/FlushProps.thy ===== *)
theory FlushProps
  imports Flush
begin

text \<open>What the flush path guarantees: rows leave staging only once their batch is delivered, a batch is
  committed at most once, the cycle ends, and the queue keeps its order.\<close>

section \<open>Triples\<close>

text \<open>From \<open>P\<close>, the operation ends well in \<open>Q\<close> of its result or fails in \<open>E\<close>.\<close>

definition fl_ensures ::
  "(flush_world \<Rightarrow> bool) \<Rightarrow> 'a fop \<Rightarrow> ('a \<Rightarrow> flush_world \<Rightarrow> bool) \<Rightarrow> (flush_world \<Rightarrow> bool) \<Rightarrow> bool" where
  "fl_ensures P m Q E \<longleftrightarrow>
    (\<forall>w. P w \<longrightarrow> (case m w of (Inl _, w') \<Rightarrow> E w' | (Inr x, w') \<Rightarrow> Q x w'))"

named_theorems fl_intros \<open>triples of the flush operations\<close>

lemma fl_ensuresI:
  assumes "\<And>w e w'. P w \<Longrightarrow> m w = (Inl e, w') \<Longrightarrow> E w'"
    and "\<And>w x w'. P w \<Longrightarrow> m w = (Inr x, w') \<Longrightarrow> Q x w'"
  shows "fl_ensures P m Q E"
  unfolding fl_ensures_def using assms by (simp split: prod.split sum.split)

lemma fl_ensuresD:
  assumes "fl_ensures P m Q E" "P w"
  shows "m w = (Inl e, w') \<Longrightarrow> E w'" "m w = (Inr x, w') \<Longrightarrow> Q x w'"
  using assms(1) [unfolded fl_ensures_def, rule_format, OF assms(2)] by auto

lemma fl_ensures_bind:
  assumes "fl_ensures P m Q E" "\<And>x. fl_ensures (Q x) (f x) R E"
  shows "fl_ensures P (fl_bind m f) R E"
  by (rule fl_ensuresI)
    (auto simp: fl_bind_def split: prod.splits sum.splits dest: fl_ensuresD [OF assms(1)] fl_ensuresD [OF assms(2)])

lemma fl_ensures_conseq:
  assumes "fl_ensures P m Q E" "\<And>w. P' w \<Longrightarrow> P w" "\<And>x w. Q x w \<Longrightarrow> Q' x w" "\<And>w. E w \<Longrightarrow> E' w"
  shows "fl_ensures P' m Q' E'"
  by (rule fl_ensuresI) (auto intro: assms(2-4) dest: fl_ensuresD [OF assms(1) assms(2)])

lemma fl_ensures_ret: "(\<And>w. P w \<Longrightarrow> Q x w) \<Longrightarrow> fl_ensures P (fl_ret x) Q E"
  by (simp add: fl_ensures_def fl_ret_def)

lemma fl_ensures_lift: "(\<And>w. P w \<Longrightarrow> E w) \<Longrightarrow> (\<And>x w. r = Inr x \<Longrightarrow> P w \<Longrightarrow> Q x w) \<Longrightarrow>
    fl_ensures P (fl_lift mark r) Q E"
  by (auto simp: fl_ensures_def fl_lift_def split: sum.split)

lemma fl_ensures_for:
  assumes "\<And>x. x \<in> set xs \<Longrightarrow> fl_ensures P (f x) (\<lambda>_. P) E"
  shows "fl_ensures P (fl_for f xs) (\<lambda>_. P) E"
  using assms
  by (induction xs) (auto intro!: fl_ensures_ret fl_ensures_bind [where Q = "\<lambda>_. P"])

text \<open>A predicate of the parts no third-party call changes unless its effect says so.\<close>

definition ext_free :: "(flush_world \<Rightarrow> bool) \<Rightarrow> bool" where
  "ext_free P \<longleftrightarrow> (\<forall>w r. P w \<longrightarrow> P (w\<lparr>fw_ext := r\<rparr>))"

lemma fl_ensures_ext:
  assumes "ext_free P" "\<And>w. P w \<Longrightarrow> E w" "\<And>w. P w \<Longrightarrow> E (eff w)" "\<And>w. P w \<Longrightarrow> Q (eff w)"
  shows "fl_ensures P (ext_call eff) (\<lambda>_. Q) E"
  using assms unfolding fl_ensures_def ext_call_def ext_free_def
  by (auto split: list.split ext.split)

section \<open>What an attempt can do\<close>

abbreviation staged_ids :: "flush_world \<Rightarrow> int set" where
  "staged_ids w \<equiv> sr_id ` set (db_staging (st_db (fw_store w)))"

abbreviation catalog_files :: "flush_world \<Rightarrow> string list" where
  "catalog_files w \<equiv> data_files (fw_catalog w)"

text \<open>The handle never shows a file the catalog does not have.\<close>

definition handle_ok :: "flush_world \<Rightarrow> bool" where
  "handle_ok w \<longleftrightarrow> set (data_files (fw_table w)) \<subseteq> set (catalog_files w)"

text \<open>The world up to the first step that counts: no row gone, nothing committed.\<close>

definition quiet :: "flush_world \<Rightarrow> flush_world \<Rightarrow> bool" where
  "quiet w0 w \<longleftrightarrow> fw_catalog w = fw_catalog w0 \<and> fw_table w = fw_table w0
     \<and> staged_ids w = staged_ids w0 \<and> sp_dir (fw_spool w) = sp_dir (fw_spool w0)"


lemma quiet_refl [simp]: "quiet w w"
  by (simp add: quiet_def)

lemma ext_free_quiet [simp]: "ext_free (quiet w0)"
  by (simp add: ext_free_def quiet_def)

text \<open>Operations on the store that neither add nor remove a staged row.\<close>

definition keeps_ids :: "'a op \<Rightarrow> bool" where
  "keeps_ids m \<longleftrightarrow> (\<forall>L. keeps (\<lambda>d. map sr_id (db_staging d) = L) m)"


lemma update_staging_ids:
  "(\<And>r. sr_id (f r) = sr_id r) \<Longrightarrow>
   map sr_id (db_staging (snd (update_staging p f d))) = map sr_id (db_staging d)"
  by (auto simp: update_staging_def)

lemma keeps_Schema: "keeps P (Schema fp)"
proof -
  have "keeps P (op_lift r)" for r :: "(error, Descriptor) result"
    by (simp add: keeps_def op_lift_def)
  then show ?thesis
    unfolding Schema_def by (auto intro!: keeps_intros simp: q_GetSchema_def split: option.split)
qed

lemma seal_quarantine_ids:
  "map sr_id (db_staging (snd (q_SealStagedRow key i ns tbl d))) = map sr_id (db_staging d)"
  "map sr_id (db_staging (snd (q_SealStagedRowRecoded key fp p n i ns tbl d))) = map sr_id (db_staging d)"
  "map sr_id (db_staging (snd (q_QuarantineStagedRow at reason i d))) = map sr_id (db_staging d)"
  unfolding q_SealStagedRow_def q_SealStagedRowRecoded_def q_QuarantineStagedRow_def
  by (rule update_staging_ids; simp)+

lemma keeps_ids_ops: "keeps_ids (Rows ids)" "keeps_ids (Schema fp)" "keeps_ids (Seal req)"
    "keeps_ids PruneSchemas" "keeps_ids (Quarantine ids at reason)"
  unfolding keeps_ids_def
  subgoal by (simp add: keeps_Rows)
  subgoal by (simp add: keeps_Schema)
  subgoal
    unfolding Seal_def seal_row_def Let_def
    by (auto intro!: keeps_intros split: option.split
        simp: seal_quarantine_ids q_UpsertSchema_def)
  subgoal
    unfolding PruneSchemas_def
    by (auto intro!: keeps_intros simp: q_DeleteUnreferencedSchemas_def Let_def)
  subgoal
    unfolding Quarantine_def checkWholeBatches_def
    by (auto intro!: keeps_intros simp: seal_quarantine_ids)
  done

lemma staging_op_world: "staging_op m w = (r, w') \<Longrightarrow>
    w' = w\<lparr>fw_spool := (fw_spool w)\<lparr>sp_store := snd (m (fw_store w))\<rparr>\<rparr>
    \<and> (\<forall>x. r = Inr x \<longrightarrow> fst (m (fw_store w)) = Inr x)"
  by (auto simp: staging_op_def spool_op_def db_op_def split: sum.splits)

lemma quiet_staging:
  assumes "keeps_ids m"
  shows "fl_ensures (quiet w0) (staging_op m) (\<lambda>_. quiet w0) (quiet w0)"
proof -
  have ids: "staged_ids w' = staged_ids w" if "staging_op m w = (r, w')" for w r w'
    using assms staging_op_world [OF that] unfolding keeps_ids_def keeps_def
    by (auto simp flip: set_map simp del: set_map)
  have "quiet w0 w'" if "quiet w0 w" "staging_op m w = (r, w')" for w r w'
    using that(1) ids [OF that(2)] staging_op_world [OF that(2)] by (auto simp: quiet_def)
  then show ?thesis
    by (intro fl_ensuresI) blast+
qed

lemma quiet_descriptor: "fl_ensures (quiet w0) (descriptor fp) (\<lambda>_. quiet w0) (quiet w0)"
proof -
  have st: "fl_ensures (quiet w0) (staging_op (Schema fp)) (\<lambda>_. quiet w0) (quiet w0)"
    by (rule quiet_staging [OF keeps_ids_ops(2)])
  have shapes: "quiet w0 (w\<lparr>fw_shapes := x\<rparr>) = quiet w0 w" for w x
    by (simp add: quiet_def)
  show ?thesis
    by (rule fl_ensuresI)
      (auto simp: descriptor_def fl_bind_def shapes split: option.splits prod.splits sum.splits
        dest: fl_ensuresD [OF st])
qed

lemma quiet_decode_sealed: "fl_ensures (quiet w0) (decode_sealed opts r) (\<lambda>_. quiet w0) (quiet w0)"
  unfolding decode_sealed_def
  by (intro fl_ensures_bind [OF quiet_descriptor] fl_ensures_bind [OF fl_ensures_lift [where Q = "\<lambda>_. quiet w0"]])
    (auto intro: fl_ensures_lift fl_ensures_ret)

lemma quiet_recode_row: "fl_ensures (quiet w0) (recode_row opts r) (\<lambda>_. quiet w0) (quiet w0)"
  unfolding recode_row_def
  by (auto intro!: fl_ensures_bind [OF quiet_descriptor] fl_ensures_bind [OF fl_ensures_lift [where Q = "\<lambda>_. quiet w0"]]
      fl_ensures_ret)

lemma quiet_prepare: "fl_ensures (quiet w0) (prepare opts b)
    (\<lambda>(key, rows, ids) w. quiet w0 w \<and> ids = map frw_ID (bt_Rows b) \<and> (bt_Key b \<noteq> [] \<longrightarrow> key = bt_Key b)) (quiet w0)"
  unfolding prepare_def Let_def
  by (auto intro!: fl_ensures_bind [OF quiet_staging [OF keeps_ids_ops(1)]]
      fl_ensures_bind [OF quiet_staging [OF keeps_ids_ops(3)]]
      fl_ensures_bind [OF fl_ensures_for [OF quiet_decode_sealed]]
      fl_ensures_bind [OF fl_ensures_for [OF quiet_recode_row]]
      fl_ensures_bind [OF fl_ensures_lift [where Q = "\<lambda>_. quiet w0"]]
      fl_ensures_bind [OF fl_ensures_for [OF fl_ensures_lift [where Q = "\<lambda>_. quiet w0"]]]
      fl_ensures_ret)

text \<open>Where a batch's file must be before its rows may go.\<close>

definition delivered :: "('r, 'z) Options_scheme \<Rightarrow> string \<Rightarrow> flush_world \<Rightarrow> bool" where
  "delivered opts key w \<longleftrightarrow>
    (if fo_LocalOnly opts
     then sp_files (fw_spool w) (Path (sp_dir (fw_spool w)) (fo_Namespace opts) (fo_Table opts) key) \<noteq> None
     else dataURI opts key \<in> set (catalog_files w))"

text \<open>The relation of a world to the start of the attempt that every exit of the attempt keeps.\<close>

definition safe :: "bool \<Rightarrow> ('r, 'z) Options_scheme \<Rightarrow> string \<Rightarrow> int list \<Rightarrow> flush_world \<Rightarrow> flush_world \<Rightarrow> bool" where
  "safe g opts key ids w0 w \<longleftrightarrow>
     staged_ids w \<subseteq> staged_ids w0 \<and> staged_ids w0 - staged_ids w \<subseteq> set ids
   \<and> (staged_ids w \<noteq> staged_ids w0 \<longrightarrow> delivered opts key w)
   \<and> (catalog_files w = catalog_files w0
      \<or> g \<and> catalog_files w = catalog_files w0 @ [dataURI opts key] \<and> fw_table w0 = fw_catalog w0
        \<and> fw_bucket w (dataKey opts key) \<noteq> None \<and> \<not> fo_LocalOnly opts)
   \<and> (handle_ok w0 \<longrightarrow> handle_ok w) \<and> sp_dir (fw_spool w) = sp_dir (fw_spool w0)"

lemma quiet_safe: "quiet w0 w \<Longrightarrow> safe g opts key ids w0 w"
  by (auto simp: quiet_def safe_def handle_ok_def)

lemma safe_cong:
  "safe g opts key ids w0 w \<Longrightarrow> fw_catalog w' = fw_catalog w \<Longrightarrow> fw_table w' = fw_table w \<Longrightarrow>
   fw_bucket w' = fw_bucket w \<Longrightarrow> fw_spool w' = fw_spool w \<Longrightarrow> safe g opts key ids w0 w'"
  by (auto simp: safe_def handle_ok_def delivered_def)

lemma ext_free_safe [simp]: "ext_free (safe g opts key ids w0)"
  by (auto simp: ext_free_def intro: safe_cong)

lemma quiet_Write:
  "fl_ensures (quiet w0) (spool_op (Write ns tbl key desc body now))
     (\<lambda>_ w. quiet w0 w \<and> sp_files (fw_spool w) (Path (sp_dir (fw_spool w)) ns tbl key) = Some body) (quiet w0)"
proof (rule fl_ensuresI)
  have step: "quiet w0 w' \<and> (\<forall>x. r = Inr x \<longrightarrow>
      sp_files (fw_spool w') (Path (sp_dir (fw_spool w')) ns tbl key) = Some body)"
    if q: "quiet w0 w" and run: "spool_op (Write ns tbl key desc body now) w = (r, w')" for w w' r
  proof -
    obtain r1 s where s: "Write ns tbl key desc body now (fw_spool w) = (r1, s)"
      by (cases "Write ns tbl key desc body now (fw_spool w)")
    have w': "w' = w\<lparr>fw_spool := s\<rparr>" "\<forall>x. r = Inr x \<longrightarrow> r1 = Inr ()"
      using run s by (auto simp: spool_op_def split: sum.splits)
    have ids: "map sr_id (db_staging (st_db (sp_store s))) = map sr_id (db_staging (st_db (fw_store w)))
        \<and> sp_dir s = sp_dir (fw_spool w)"
    proof -
      have rec: "keeps_ids (RecordSpoolFile rec)" for rec
        unfolding keeps_ids_def RecordSpoolFile_def
        by (auto intro!: keeps_intros simp: q_UpsertSpoolSchema_def q_UpsertSpoolFile_def split: option.split)
      obtain q v where v: "writeFile ns tbl key body (fw_spool w) = (q, v)"
        by (cases "writeFile ns tbl key body (fw_spool w)")
      note inv = ensuresD [OF writeFile_ensures [OF refl, where ns = ns and tbl = tbl and key = key
            and body = body and ?w0.0 = "fw_spool w"], of "fw_spool w", unfolded v]
      have "sp_store v = fw_store w \<and> sp_dir v = sp_dir (fw_spool w)"
        using inv by (cases q) (auto simp: write_states)
      then show ?thesis
        using s v rec unfolding keeps_ids_def keeps_def
        by (auto simp: Write_def sp_bind_def sp_wrap_def db_op_def split: sum.splits prod.splits)
    qed
    then have "sr_id ` set (db_staging (st_db (sp_store s))) = staged_ids w"
      by (metis set_map)
    then have "quiet w0 w'"
      using q ids by (simp add: w' quiet_def)
    then show ?thesis
      using Write_result [OF s] ids w' by simp
  qed
  show "quiet w0 w'" if "quiet w0 w" "spool_op (Write ns tbl key desc body now) w = (Inl e, w')" for w e w'
    using step [OF that] by simp
  show "quiet w0 w' \<and> sp_files (fw_spool w') (Path (sp_dir (fw_spool w')) ns tbl key) = Some body"
    if "quiet w0 w" "spool_op (Write ns tbl key desc body now) w = (Inr x, w')" for w x w'
    using step [OF that] by simp
qed

text \<open>The end of every delivery: mark, prune, release.\<close>

lemma staging_op_frame: "staging_op m w = (r, w') \<Longrightarrow>
    fw_catalog w' = fw_catalog w \<and> fw_table w' = fw_table w \<and> fw_bucket w' = fw_bucket w
    \<and> sp_files (fw_spool w') = sp_files (fw_spool w) \<and> sp_dir (fw_spool w') = sp_dir (fw_spool w)"
  by (auto dest!: staging_op_world)

lemma safe_staging:
  assumes "staged_ids w' = staged_ids w" "staging_op m w = (r, w')" "safe g opts key ids w0 w"
  shows "safe g opts key ids w0 w'" "delivered opts key w \<Longrightarrow> delivered opts key w'"
  using assms(1,3) staging_op_frame [OF assms(2)] by (auto simp: safe_def handle_ok_def delivered_def)

lemma staged_ids_keeps:
  assumes "keeps_ids m" "staging_op m w = (r, w')"
  shows "staged_ids w' = staged_ids w"
  using assms(1) staging_op_world [OF assms(2)] unfolding keeps_ids_def keeps_def
  by (auto simp flip: set_map simp del: set_map)

lemma Delete_result:
  assumes "staging_op (Delete ids) w = (r, w')"
  shows "r = Inl e \<Longrightarrow> staged_ids w' = staged_ids w"
    "r = Inr u \<Longrightarrow> staged_ids w' = staged_ids w - set ids"
proof -
  let ?d = "st_db (fw_store w)" and ?d' = "st_db (snd (Delete ids (fw_store w)))"
  note w' = staging_op_world [OF assms]
  have each: "db_staging (snd (run_each q_DeleteStagedRow is d)) = filter (\<lambda>r. sr_id r \<notin> set is) (db_staging d)" for "is" d
  proof (induction "is" arbitrary: d)
    case (Cons i "is")
    have "snd (run_each q_DeleteStagedRow (i # is) d) = snd (run_each q_DeleteStagedRow is (snd (q_DeleteStagedRow i d)))"
      by (simp split: prod.split)
    then show ?case
      by (simp add: Cons.IH) (simp add: q_DeleteStagedRow_def conj_commute)
  qed simp
  {
    assume "r = Inl e"
    then have "\<exists>e. fst (Delete ids (fw_store w)) = Inl e"
      using assms by (auto simp: staging_op_def spool_op_def db_op_def split: sum.splits)
    moreover have "atomic (Delete ids)"
      unfolding Delete_def by (auto intro!: atomic_intros atomic_tx)
    ultimately have "?d' = ?d"
      unfolding atomic_def by (metis prod.collapse)
    then show "staged_ids w' = staged_ids w"
      using w' by simp
  next
    assume "r = Inr u"
    then obtain s where s: "Delete ids (fw_store w) = (Inr u, s)"
      using w' by (cases "Delete ids (fw_store w)") auto
    have "db_staging (st_db s) = filter (\<lambda>r. sr_id r \<notin> set ids) (db_staging ?d)"
    proof (cases "ids = []")
      case True
      then show ?thesis using s by (simp add: Delete_def)
    next
      case False
      then obtain s1 s2 us where "st_db s1 = ?d" "op_for (\<lambda>i. stmt (q_DeleteStagedRow i)) ids s1 = (Inr us, s2)"
          "st_db s = st_db s2"
        using s by (auto simp: Delete_def staging_wrap_def op_wrap_Inr op_bind_Inr dest!: tx_Inr)
      then show ?thesis
        using each [of ids ?d] op_for_stmt_Inr [of q_DeleteStagedRow ids s1] by (metis snd_conv)
    qed
    then show "staged_ids w' = staged_ids w - set ids"
      using w' s by auto
  }
qed

text \<open>Once delivered, whatever happens next is safe, and success leaves no row of the batch.\<close>

definition gone :: "bool \<Rightarrow> ('r, 'z) Options_scheme \<Rightarrow> string \<Rightarrow> int list \<Rightarrow> flush_world \<Rightarrow> flush_world \<Rightarrow> bool" where
  "gone g opts key ids w0 w \<longleftrightarrow> safe g opts key ids w0 w \<and> delivered opts key w
     \<and> staged_ids w = staged_ids w0 - set ids"

definition ready :: "bool \<Rightarrow> ('r, 'z) Options_scheme \<Rightarrow> string \<Rightarrow> int list \<Rightarrow> flush_world \<Rightarrow> flush_world \<Rightarrow> bool" where
  "ready g opts key ids w0 w \<longleftrightarrow> safe g opts key ids w0 w \<and> delivered opts key w \<and> staged_ids w = staged_ids w0"

lemma gone_safe: "gone g opts key ids w0 w \<Longrightarrow> safe g opts key ids w0 w"
  by (simp add: gone_def)

lemma ready_safe: "ready g opts key ids w0 w \<Longrightarrow> safe g opts key ids w0 w"
  by (simp add: ready_def)

lemma ready_prune:
  "fl_ensures (ready g opts key ids w0) (prune ids) (\<lambda>_. gone g opts key ids w0) (safe g opts key ids w0)"
  unfolding prune_def
proof (rule fl_ensures_bind [where Q = "\<lambda>_. gone g opts key ids w0"])
  show "fl_ensures (ready g opts key ids w0) (staging_op (Delete ids)) (\<lambda>_. gone g opts key ids w0) (safe g opts key ids w0)"
  proof (rule fl_ensuresI)
    fix w e w' assume r: "ready g opts key ids w0 w" and run: "staging_op (Delete ids) w = (Inl e, w')"
    show "safe g opts key ids w0 w'"
      by (rule safe_staging(1) [OF Delete_result(1) [OF run refl] run ready_safe [OF r]])
  next
    fix w x w' assume r: "ready g opts key ids w0 w" and run: "staging_op (Delete ids) w = (Inr x, w')"
    have "staged_ids w' = staged_ids w0 - set ids"
      using Delete_result(2) [OF run refl] r by (simp add: ready_def)
    moreover have "delivered opts key w'"
      using r staging_op_frame [OF run] by (simp add: ready_def delivered_def)
    ultimately show "gone g opts key ids w0 w'"
      using r staging_op_frame [OF run] by (auto simp: ready_def gone_def safe_def handle_ok_def)
  qed
  show "fl_ensures (gone g opts key ids w0) (fl_bind (staging_op PruneSchemas) (\<lambda>_. fl_ret ()))
      (\<lambda>_. gone g opts key ids w0) (safe g opts key ids w0)"
  proof (rule fl_ensures_bind [where Q = "\<lambda>_. gone g opts key ids w0"])
    have "gone g opts key ids w0 w'" if "gone g opts key ids w0 w" "staging_op PruneSchemas w = (r, w')" for w w' r
      using that(1) staged_ids_keeps [OF keeps_ids_ops(4) that(2)] safe_staging [OF _ that(2)]
      by (auto simp: gone_def)
    note step = this
    show "fl_ensures (gone g opts key ids w0) (staging_op PruneSchemas) (\<lambda>_. gone g opts key ids w0) (safe g opts key ids w0)"
      by (rule fl_ensuresI) (erule (1) step gone_safe [OF step])+
  qed (auto intro: fl_ensures_ret)
qed

lemma gone_committed: "fl_ensures (gone g opts key ids w0) (committed j) (\<lambda>_. gone g opts key ids w0) E"
proof -
  have "gone g opts key ids w0 (emit ev w)" if "gone g opts key ids w0 w" for ev w
    using that safe_cong [of g opts key ids w0 w "emit ev w"] by (simp add: gone_def emit_def delivered_def)
  then show ?thesis
    by (simp add: fl_ensures_def committed_def)
qed

lemma ready_finish_commit:
  "fl_ensures (ready g opts key ids w0) (finish_commit opts j key ids) (\<lambda>_. gone g opts key ids w0) (safe g opts key ids w0)"
  unfolding finish_commit_def
proof (rule fl_ensures_bind [where Q = "\<lambda>_. ready g opts key ids w0"])
  have mark: "keeps_ids (MarkSpoolCommitted key at)" for at
    unfolding keeps_ids_def MarkSpoolCommitted_def
    by (auto intro!: keeps_intros simp: q_MarkSpoolFileCommitted_def Let_def)
  have "ready g opts key ids w0 w'" if r: "ready g opts key ids w0 w" and run: "markSpooled opts key w = (q, w')" for w w' q
  proof (cases "fo_Spool opts")
    case True
    have "snd (markSpooled opts key w) = snd (staging_op (MarkSpoolCommitted key (fw_now w)) w)"
      using True by (simp add: markSpooled_def staging_op_def spool_op_def MarkCommitted_def sp_wrap_def db_op_def
          split: sum.split)
    then have run': "staging_op (MarkSpoolCommitted key (fw_now w)) w
        = (fst (staging_op (MarkSpoolCommitted key (fw_now w)) w), w')"
      using run by (simp add: prod_eq_iff)
    note ids = staged_ids_keeps [OF mark run']
    show ?thesis
      using r ids safe_staging [OF ids run', of g opts key ids w0] by (simp add: ready_def)
  next
    case False
    then show ?thesis using r run by (simp add: markSpooled_def)
  qed
  note step = this
  show "fl_ensures (ready g opts key ids w0) (markSpooled opts key) (\<lambda>_. ready g opts key ids w0) (safe g opts key ids w0)"
    by (rule fl_ensuresI) (erule (1) step ready_safe [OF step])+
qed (intro fl_ensures_bind [OF ready_prune] gone_committed)

text \<open>From a quiet world to the delivered batch.\<close>

lemma quiet_ext_call: "fl_ensures (quiet w0) (ext_call id) (\<lambda>_. quiet w0) (quiet w0)"
  by (rule fl_ensures_ext) simp_all

lemma quiet_encode_batch: "fl_ensures (quiet w0) (encode_batch opts key rows) (\<lambda>_. quiet w0) (quiet w0)"
proof -
  have emit: "quiet w0 (emit ev w) = quiet w0 w" for ev w
    by (simp add: quiet_def emit_def)
  have call: "quiet w0 w'" if "quiet w0 w" "ext_call (emit (EvMirror key)) w = (r, w')" for w r w'
    using that by (auto simp: ext_call_def quiet_def emit_def split: list.splits ext.splits if_splits)
  have "quiet w0 (mirror opts key rec w)" if "quiet w0 w" for rec w
    using call [OF that] by (auto simp: mirror_def emit that split: prod.split sum.split flush_fail.split)
  then show ?thesis
    unfolding encode_batch_def
    by (intro fl_ensures_bind [OF fl_ensures_lift [where Q = "\<lambda>_. quiet w0"]]) (auto simp: fl_ensures_def)
qed

text \<open>Uploading, then committing.\<close>

definition uploaded :: "('r, 'z) Options_scheme \<Rightarrow> string \<Rightarrow> flush_world \<Rightarrow> flush_world \<Rightarrow> bool" where
  "uploaded opts key w0 w \<longleftrightarrow> quiet w0 w \<and> fw_bucket w (dataKey opts key) \<noteq> None"

lemma ext_free_uploaded [simp]: "ext_free (uploaded opts key w0)"
  by (simp add: ext_free_def uploaded_def quiet_def)

lemma quiet_upload:
  "fl_ensures (quiet w0) (upload opts key body) (\<lambda>_. uploaded opts key w0) (quiet w0)"
  unfolding upload_def by (rule fl_ensures_ext) (simp_all add: quiet_def uploaded_def)

lemma data_files_append: "data_files (Some (ms @ [[(True, uri)]])) = data_files (Some ms) @ [uri]"
  by (simp add: data_files_def snapshot_entries_def)

lemma land_commit_files:
  "catalog_files (land_commit uri w)
    = (if fw_table w = fw_catalog w then catalog_files w @ [uri] else catalog_files w)"
  using data_files_append [of "[]" uri]
  by (auto simp: land_commit_def data_files_append data_files_def snapshot_entries_def split: option.split)

lemma land_commit_safe:
  assumes "uploaded opts key w0 w" "\<not> fo_LocalOnly opts"
  shows "safe True opts key ids w0 (land_commit (dataURI opts key) w)"
proof -
  have rest: "fw_table (land_commit u w) = fw_table w" "fw_bucket (land_commit u w) = fw_bucket w"
    "fw_spool (land_commit u w) = fw_spool w" for u
    by (simp_all add: land_commit_def)
  show ?thesis
    using assms land_commit_files [of "dataURI opts key" w]
    by (auto simp: safe_def uploaded_def quiet_def rest handle_ok_def split: if_splits)
qed

lemma ensures_refresh: "safe g opts key ids w0 w \<Longrightarrow> safe g opts key ids w0 (refresh opts w)"
  by (auto simp: refresh_def ext_call_def safe_def handle_ok_def delivered_def split: list.split ext.split)

lemma uploaded_commit:
  assumes local: "\<not> fo_LocalOnly opts"
  shows "fl_ensures (uploaded opts key w0) (commit opts key)
    (\<lambda>_. ready True opts key ids w0) (safe True opts key ids w0)"
proof -
  let ?uri = "dataURI opts key"
  have add: "fl_ensures (uploaded opts key w0) (AddFile ?uri)
      (\<lambda>tbl w. safe True opts key ids w0 w \<and> staged_ids w = staged_ids w0 \<and> tbl = fw_catalog w
         \<and> ?uri \<in> set (catalog_files w)) (safe True opts key ids w0)"
    unfolding AddFile_def
  proof (rule fl_ensures_bind [where Q = "\<lambda>_. uploaded opts key w0"])
    show "fl_ensures (uploaded opts key w0) (ext_call id) (\<lambda>_. uploaded opts key w0) (safe True opts key ids w0)"
      by (rule fl_ensures_ext) (auto simp: uploaded_def intro: quiet_safe)
  next
    fix u :: unit
    have e: "uploaded opts key w0 w \<Longrightarrow> uploaded opts key w0 (w\<lparr>fw_ext := r\<rparr>)" for w r
      by (simp add: uploaded_def quiet_def)
    have s: "uploaded opts key w0 w \<Longrightarrow> safe True opts key ids w0 w" for w
      by (auto simp: uploaded_def intro: quiet_safe)
    have ids: "uploaded opts key w0 w \<Longrightarrow> staged_ids (land_commit ?uri w) = staged_ids w0" for w
      by (simp add: uploaded_def quiet_def land_commit_def)
    show "fl_ensures (uploaded opts key w0) (\<lambda>w.
      if fw_table w \<noteq> fw_catalog w \<and> (\<forall>e l r. fw_ext w \<noteq> ExtFail e l # r)
      then (Inl (Failed commit_conflict), w\<lparr>fw_ext := tl (fw_ext w)\<rparr>)
      else fl_bind (ext_call (land_commit ?uri)) (\<lambda>_ w'. (Inr (fw_catalog w'), w')) w)
      (\<lambda>tbl w. safe True opts key ids w0 w \<and> staged_ids w = staged_ids w0 \<and> tbl = fw_catalog w
         \<and> ?uri \<in> set (catalog_files w)) (safe True opts key ids w0)"
      unfolding fl_ensures_def
      by (auto simp: ext_call_def fl_bind_def land_commit_files ids [OF e] split: list.split ext.split
          intro: s [OF e] land_commit_safe [OF e local])
  qed
  show ?thesis
  proof (rule fl_ensuresI)
    fix w e w' assume u: "uploaded opts key w0 w" and run: "commit opts key w = (Inl e, w')"
    from run obtain w1 where "AddFile ?uri w = (Inl e, w1)" "w' = refresh opts w1"
      by (auto simp: commit_def split: prod.splits sum.splits)
    then show "safe True opts key ids w0 w'"
      using fl_ensuresD(1) [OF add u] ensures_refresh by blast
  next
    fix w x w' assume u: "uploaded opts key w0 w" and run: "commit opts key w = (Inr x, w')"
    from run obtain tbl w1 where "AddFile ?uri w = (Inr tbl, w1)" "w' = w1\<lparr>fw_table := tbl\<rparr>"
      by (auto simp: commit_def split: prod.splits sum.splits)
    then show "ready True opts key ids w0 w'"
      using fl_ensuresD(2) [OF add u] local by (auto simp: ready_def delivered_def safe_def handle_ok_def)
  qed
qed

lemma deliver_gone:
  assumes "fo_LocalOnly opts \<longrightarrow> fo_Spool opts"
  shows "fl_ensures (quiet w0) (deliver opts j key rows ids) (\<lambda>_. gone True opts key ids w0) (safe True opts key ids w0)"
  unfolding deliver_def
proof (rule fl_ensures_bind [where Q = "\<lambda>_. quiet w0"])
  show "fl_ensures (quiet w0) (encode_batch opts key rows) (\<lambda>_. quiet w0) (safe True opts key ids w0)"
    by (rule fl_ensures_conseq [OF quiet_encode_batch]) (auto intro: quiet_safe)
  fix body
  have wr: "fl_ensures (quiet w0) (spool_write opts key body)
      (\<lambda>_ w. quiet w0 w \<and> (fo_LocalOnly opts \<longrightarrow> delivered opts key w)) (safe True opts key ids w0)"
  proof (rule fl_ensuresI)
    fix w e w' assume "quiet w0 w" "spool_write opts key body w = (Inl e, w')"
    then show "safe True opts key ids w0 w'"
      using fl_ensuresD(1) [OF quiet_Write] quiet_safe by (fastforce simp: spool_write_def split: if_splits)
  next
    fix w x w' assume q: "quiet w0 w" and run: "spool_write opts key body w = (Inr x, w')"
    show "quiet w0 w' \<and> (fo_LocalOnly opts \<longrightarrow> delivered opts key w')"
    proof (cases "fo_Spool opts")
      case True
      then show ?thesis
        using fl_ensuresD(2) [OF quiet_Write q] run by (auto simp: spool_write_def delivered_def)
    next
      case False
      then show ?thesis using q run assms by (simp add: spool_write_def)
    qed
  qed
  show "fl_ensures (quiet w0) (fl_bind (spool_write opts key body) (\<lambda>_.
      if fo_LocalOnly opts then fl_bind (prune ids) (\<lambda>_. committed j)
      else fl_bind (upload opts key body) (\<lambda>_. fl_bind (commit opts key) (\<lambda>_. finish_commit opts j key ids))))
      (\<lambda>_. gone True opts key ids w0) (safe True opts key ids w0)"
  proof (rule fl_ensures_bind [OF wr], cases "fo_LocalOnly opts")
    case True
    have "ready True opts key ids w0 w" if "quiet w0 w" "delivered opts key w" for w
      using that quiet_safe [OF that(1)] by (simp add: ready_def) (simp add: quiet_def)
    then have "fl_ensures (\<lambda>w. quiet w0 w \<and> delivered opts key w) (fl_bind (prune ids) (\<lambda>_. committed j))
        (\<lambda>_. gone True opts key ids w0) (safe True opts key ids w0)"
      by (intro fl_ensures_conseq [OF fl_ensures_bind [OF ready_prune gone_committed]]) auto
    then show "fl_ensures (\<lambda>w. quiet w0 w \<and> (fo_LocalOnly opts \<longrightarrow> delivered opts key w))
      (if fo_LocalOnly opts then fl_bind (prune ids) (\<lambda>_. committed j)
       else fl_bind (upload opts key body) (\<lambda>_. fl_bind (commit opts key) (\<lambda>_. finish_commit opts j key ids)))
      (\<lambda>_. gone True opts key ids w0) (safe True opts key ids w0)"
      using True by simp
  next
    case False
    have "fl_ensures (quiet w0) (upload opts key body) (\<lambda>_. uploaded opts key w0) (safe True opts key ids w0)"
      by (rule fl_ensures_conseq [OF quiet_upload]) (auto intro: quiet_safe)
    then show "fl_ensures (\<lambda>w. quiet w0 w \<and> (fo_LocalOnly opts \<longrightarrow> delivered opts key w))
      (if fo_LocalOnly opts then fl_bind (prune ids) (\<lambda>_. committed j)
       else fl_bind (upload opts key body) (\<lambda>_. fl_bind (commit opts key) (\<lambda>_. finish_commit opts j key ids)))
      (\<lambda>_. gone True opts key ids w0) (safe True opts key ids w0)"
      using False by (simp add: fl_ensures_bind [OF _ fl_ensures_bind [OF uploaded_commit [OF False] ready_finish_commit]])
  qed
qed

text \<open>The question asked before a re-commit.\<close>

lemma walk_entries_ensures: "fl_ensures (quiet w0) (walk_entries want es)
    (\<lambda>found w. quiet w0 w \<and> found = ((True, want) \<in> set es)) (quiet w0)"
proof (induction want es rule: walk_entries.induct)
  case (1 want)
  then show ?case
    by (auto intro!: fl_ensures_bind [OF quiet_ext_call] fl_ensures_ret)
next
  case (2 want is_data p es)
  show ?case
  proof (cases "is_data \<and> p = want")
    case True
    then show ?thesis
      by (auto intro!: fl_ensures_bind [OF quiet_ext_call] fl_ensures_ret)
  next
    case False
    with 2 show ?thesis
      by (auto intro!: fl_ensures_bind [OF quiet_ext_call] intro: fl_ensures_conseq)
  qed
qed

lemma walk_manifests_ensures: "fl_ensures (quiet w0) (walk_manifests want ms)
    (\<lambda>found w. quiet w0 w \<and> found = ((True, want) \<in> set (concat ms))) (quiet w0)"
proof (induction ms)
  case (Cons m ms)
  have "fl_ensures (\<lambda>w. quiet w0 w \<and> found = ((True, want) \<in> set m))
      (if found then fl_ret True else walk_manifests want ms)
      (\<lambda>found w. quiet w0 w \<and> found = ((True, want) \<in> set (concat (m # ms)))) (quiet w0)" for found
  proof (cases found)
    case True
    then show ?thesis by (auto intro: fl_ensures_ret)
  next
    case False
    show ?thesis
    proof (cases "(True, want) \<in> set m")
      case True
      then show ?thesis using False by (simp add: fl_ensures_def)
    next
      case no: False
      show ?thesis
        using no False by (simp add: fl_ensures_conseq [OF Cons.IH])
    qed
  qed
  then show ?case
    by (simp add: fl_ensures_bind [OF walk_entries_ensures])
qed (auto intro: fl_ensures_ret)

lemma alreadyCommitted_ensures: "fl_ensures (quiet w0) (alreadyCommitted opts key)
    (\<lambda>found w. quiet w0 w \<and> found = (dataURI opts key \<in> set (data_files (fw_table w0)))) (quiet w0)"
proof (cases "fw_table w0")
  case None
  then show ?thesis
    by (auto simp: fl_ensures_def alreadyCommitted_def AlreadyCommitted_def quiet_def data_files_def
        snapshot_entries_def)
next
  case (Some ms)
  let ?walk = "fl_bind (ext_call id) (\<lambda>_. fl_bind (ext_call id) (\<lambda>_. walk_manifests (dataURI opts key) ms))"
  have walk: "fl_ensures (quiet w0) ?walk
      (\<lambda>found w. quiet w0 w \<and> found = ((True, dataURI opts key) \<in> set (concat ms))) (quiet w0)"
    by (intro fl_ensures_bind [OF quiet_ext_call] walk_manifests_ensures)
  have files: "((True, dataURI opts key) \<in> set (concat ms)) = (dataURI opts key \<in> set (data_files (fw_table w0)))"
    by (force simp: Some data_files_def snapshot_entries_def)
  have "alreadyCommitted opts key w = ?walk w" if "quiet w0 w" for w
    using that Some by (simp add: alreadyCommitted_def AlreadyCommitted_def quiet_def)
  then show ?thesis
    using walk unfolding files fl_ensures_def by simp
qed

text \<open>A whole attempt: its failures are safe, its success leaves the rows gone; and a batch tried before
  grows the catalog only when its file is not in the table the handle shows.\<close>

definition retried :: "('r, 'z) Options_scheme \<Rightarrow> job \<Rightarrow> bool" where
  "retried opts j \<longleftrightarrow> \<not> fo_LocalOnly opts \<and> (jb_attempted j \<or> jb_replayed j)"

definition may_commit :: "('r, 'z) Options_scheme \<Rightarrow> job \<Rightarrow> string \<Rightarrow> flush_world \<Rightarrow> bool" where
  "may_commit opts j key w0 \<longleftrightarrow> \<not> (retried opts j \<and> dataURI opts key \<in> set (data_files (fw_table w0)))"

lemma attempt_ensures:
  assumes "fo_LocalOnly opts \<longrightarrow> fo_Spool opts" "handle_ok w0"
  shows "fl_ensures (quiet w0) (attempt opts j key rows ids)
    (\<lambda>_. gone (may_commit opts j key w0) opts key ids w0) (safe (may_commit opts j key w0) opts key ids w0)"
proof (cases "retried opts j")
  case False
  then show ?thesis
    using deliver_gone [OF assms(1)] by (auto simp: attempt_def retried_def may_commit_def)
next
  case True
  let ?there = "dataURI opts key \<in> set (data_files (fw_table w0))"
  have q: "fl_ensures (quiet w0) (alreadyCommitted opts key) (\<lambda>found w. quiet w0 w \<and> found = ?there)
      (safe (may_commit opts j key w0) opts key ids w0)"
    by (rule fl_ensures_conseq [OF alreadyCommitted_ensures]) (auto intro: quiet_safe)
  have ready: "ready False opts key ids w0 w" if "quiet w0 w" ?there for w
    using that assms(2) True quiet_safe [OF that(1)]
    by (simp add: ready_def) (auto simp: quiet_def delivered_def retried_def handle_ok_def)
  have "fl_ensures (\<lambda>w. quiet w0 w \<and> found = ?there)
      (if found then finish_commit opts j key ids else deliver opts j key rows ids)
      (\<lambda>_. gone (may_commit opts j key w0) opts key ids w0) (safe (may_commit opts j key w0) opts key ids w0)" for found
  proof (cases ?there)
    case there: True
    have "fl_ensures (\<lambda>w. quiet w0 w \<and> found) (finish_commit opts j key ids)
        (\<lambda>_. gone False opts key ids w0) (safe False opts key ids w0)"
      by (rule fl_ensures_conseq [OF ready_finish_commit]) (auto intro: ready there)
    then show ?thesis
      using there True by (cases found) (auto simp: may_commit_def fl_ensures_def)
  next
    case False
    then show ?thesis
      using deliver_gone [OF assms(1)] by (cases found) (auto simp: may_commit_def fl_ensures_def)
  qed
  then show ?thesis
    using True by (simp add: attempt_def retried_def fl_ensures_bind [OF q])
qed

section \<open>One attempt, and the cycle\<close>

lemma fail_result: "fail opts j key f = (k, e) \<Longrightarrow> k \<noteq> failureNone \<and> e \<noteq> None"
  by (cases f) (auto simp: fail_def)

lemma process_cases:
  assumes "fo_LocalOnly opts \<longrightarrow> fo_Spool opts" "handle_ok w" "process opts j w = ((kind, err), j', w')"
  shows "(quiet w w' \<and> kind \<noteq> failureNone \<and> j' = j)
    \<or> (\<exists>key rows w1. prepare opts (jb_batch j) w = (Inr (key, rows, map frw_ID (bt_Rows (jb_batch j))), w1)
        \<and> j' = j\<lparr>jb_batch := (jb_batch j)\<lparr>bt_Key := key\<rparr>\<rparr>
        \<and> safe (may_commit opts j key w) opts key (map frw_ID (bt_Rows (jb_batch j))) w w'
        \<and> (kind = failureNone \<longrightarrow>
             gone (may_commit opts j key w) opts key (map frw_ID (bt_Rows (jb_batch j))) w w'))"
    "err = None \<longleftrightarrow> kind = failureNone"
proof -
  show "err = None \<longleftrightarrow> kind = failureNone"
    using assms(3) by (auto simp: process_def Let_def split: prod.splits sum.splits dest: fail_result)
  obtain r w1 where prep: "prepare opts (jb_batch j) w = (r, w1)" by (cases "prepare opts (jb_batch j) w")
  show "(quiet w w' \<and> kind \<noteq> failureNone \<and> j' = j)
    \<or> (\<exists>key rows w1. prepare opts (jb_batch j) w = (Inr (key, rows, map frw_ID (bt_Rows (jb_batch j))), w1)
        \<and> j' = j\<lparr>jb_batch := (jb_batch j)\<lparr>bt_Key := key\<rparr>\<rparr>
        \<and> safe (may_commit opts j key w) opts key (map frw_ID (bt_Rows (jb_batch j))) w w'
        \<and> (kind = failureNone \<longrightarrow>
             gone (may_commit opts j key w) opts key (map frw_ID (bt_Rows (jb_batch j))) w w'))"
  proof (cases r)
    case (Inl f)
    then show ?thesis
      using assms(3) prep fl_ensuresD(1) [OF quiet_prepare quiet_refl prep [unfolded Inl]]
      by (auto simp: process_def dest: fail_result)
  next
    case (Inr x)
    obtain key rows ids where x: "x = (key, rows, ids)" by (cases x) auto
    have q: "quiet w w1" and ids: "ids = map frw_ID (bt_Rows (jb_batch j))"
      using fl_ensuresD(2) [OF quiet_prepare quiet_refl prep [unfolded Inr]] by (auto simp: x)
    let ?j = "j\<lparr>jb_batch := (jb_batch j)\<lparr>bt_Key := key\<rparr>\<rparr>"
    have same: "may_commit opts ?j key w = may_commit opts j key w"
      by (simp add: may_commit_def retried_def)
    obtain r2 w2 where att: "attempt opts ?j key rows ids w1 = (r2, w2)"
      by (cases "attempt opts ?j key rows ids w1")
    note res = fl_ensuresD [OF attempt_ensures [OF assms(1,2), of ?j key rows ids, unfolded same] q]
    show ?thesis
    proof (cases r2)
      case (Inl f)
      then have "w' = w2" "j' = ?j" "kind \<noteq> failureNone"
        using assms(3) prep \<open>r = Inr x\<close> Inl x att by (auto simp: process_def Let_def dest: fail_result)
      then show ?thesis
        using res(1) [OF att [unfolded Inl]] prep Inr x ids by auto
    next
      case (Inr u)
      then have "w' = w2" "j' = ?j"
        using assms(3) prep \<open>r = Inr x\<close> x att by (auto simp: process_def Let_def)
      then show ?thesis
        using res(2) [OF att [unfolded Inr]] gone_safe [OF res(2) [OF att [unfolded Inr]]] prep \<open>r = Inr x\<close> x ids
        by simp
    qed
  qed
qed

text \<open>The catalog an attempt leaves: no file of the table comes twice.\<close>

definition fresh_or_retried :: "('r, 'z) Options_scheme \<Rightarrow> job \<Rightarrow> flush_world \<Rightarrow> bool" where
  "fresh_or_retried opts j w \<longleftrightarrow> jb_attempted j \<or> jb_replayed j \<or>
    (\<forall>key rows ids w1. prepare opts (jb_batch j) w = (Inr (key, rows, ids), w1) \<longrightarrow>
       dataURI opts key \<notin> set (catalog_files w))"

lemma process_distinct:
  assumes "fo_LocalOnly opts \<longrightarrow> fo_Spool opts" "handle_ok w" "process opts j w = ((kind, err), j', w')"
    and "distinct (catalog_files w)" "fresh_or_retried opts j w"
  shows "distinct (catalog_files w') \<and> handle_ok w' \<and> set (catalog_files w) \<subseteq> set (catalog_files w')"
  using process_cases(1) [OF assms(1-3)]
proof (elim disjE exE conjE)
  assume "quiet w w'"
  then show ?thesis
    using assms(2,4) by (auto simp: quiet_def handle_ok_def)
next
  fix key rows w1
  assume prep: "prepare opts (jb_batch j) w = (Inr (key, rows, map frw_ID (bt_Rows (jb_batch j))), w1)"
    and s: "safe (may_commit opts j key w) opts key (map frw_ID (bt_Rows (jb_batch j))) w w'"
  have "dataURI opts key \<notin> set (catalog_files w)"
    if "may_commit opts j key w" "fw_table w = fw_catalog w" "\<not> fo_LocalOnly opts"
    using that assms(5) prep by (auto simp: may_commit_def retried_def fresh_or_retried_def)
  then show ?thesis
    using s assms(2,4) by (auto simp: safe_def)
qed

lemma classify_Some [simp]: "snd (classify (Some f)) \<noteq> None" "snd (classify (Some f)) = None \<longleftrightarrow> False"
    "\<exists>z. snd (classify (Some f)) = Some z"
  by (cases f; simp)+

lemma quarantine_world:
  assumes "quarantine opts j cause w = (res, w')"
  shows "quiet w w'" "rs_err res \<noteq> None" "rs_report res"
proof -
  obtain r w1 where q: "staging_op (Quarantine (map frw_ID (bt_Rows (jb_batch j))) (fw_now w) (fo_text opts cause)) w = (r, w1)"
    by (cases "staging_op (Quarantine (map frw_ID (bt_Rows (jb_batch j))) (fw_now w) (fo_text opts cause)) w")
  have w1: "quiet w w1"
    using fl_ensuresD [OF quiet_staging [OF keeps_ids_ops(5)] quiet_refl] q by (cases r) blast+
  have emit: "quiet w (emit ev w1)" for ev
    using w1 by (simp add: quiet_def emit_def)
  show "quiet w w'" "rs_err res \<noteq> None" "rs_report res"
    using assms q w1 emit by (auto simp: quarantine_def split: sum.splits elim!: classify.elims)
qed

lemma ctx_done_quiet: "ctx_done w = (c, w') \<Longrightarrow> quiet w w'"
  by (auto simp: ctx_done_def quiet_def split: list.splits bool.splits)

lemma jitter_quiet: "jitter w = (u, w') \<Longrightarrow> quiet w w'"
  by (auto simp: jitter_def quiet_def split: list.splits)

lemma Sleep_quiet: "Sleep d w = (c, w') \<Longrightarrow> quiet w w'"
  unfolding Sleep_def by (drule ctx_done_quiet) (simp add: quiet_def emit_def)

lemma quiet_trans: "quiet w0 w1 \<Longrightarrow> quiet w1 w2 \<Longrightarrow> quiet w0 w2"
  by (simp add: quiet_def)


text \<open>What holds from the start of a cycle to its end, whatever its attempts met.\<close>

definition cycle_inv :: "('r, 'z) Options_scheme \<Rightarrow> int list \<Rightarrow> flush_world \<Rightarrow> flush_world \<Rightarrow> bool" where
  "cycle_inv opts ids w0 w \<longleftrightarrow> distinct (catalog_files w) \<and> handle_ok w
     \<and> set (catalog_files w0) \<subseteq> set (catalog_files w)
     \<and> staged_ids w \<subseteq> staged_ids w0 \<and> staged_ids w0 - staged_ids w \<subseteq> set ids
     \<and> (staged_ids w \<noteq> staged_ids w0 \<and> \<not> fo_LocalOnly opts \<longrightarrow> (\<exists>key. dataURI opts key \<in> set (catalog_files w)))"

lemma cycle_invD:
  assumes "cycle_inv opts ids w0 w"
  shows "distinct (catalog_files w)" "handle_ok w" "set (catalog_files w0) \<subseteq> set (catalog_files w)"
    "staged_ids w \<subseteq> staged_ids w0" "staged_ids w0 - staged_ids w \<subseteq> set ids"
    "staged_ids w \<noteq> staged_ids w0 \<Longrightarrow> \<not> fo_LocalOnly opts \<Longrightarrow> \<exists>key. dataURI opts key \<in> set (catalog_files w)"
  using assms by (simp_all only: cycle_inv_def simp_thms)

lemma shrink_trans: "A - B \<subseteq> I \<Longrightarrow> B - C \<subseteq> I \<Longrightarrow> A - C \<subseteq> I"
  by blast

lemma cycle_inv_trans: "cycle_inv opts ids w0 w1 \<Longrightarrow> cycle_inv opts ids w1 w2 \<Longrightarrow> cycle_inv opts ids w0 w2"
proof -
  assume a: "cycle_inv opts ids w0 w1" and b: "cycle_inv opts ids w1 w2"
  note A = cycle_invD [OF a] and B = cycle_invD [OF b]
  have "\<exists>key. dataURI opts key \<in> set (catalog_files w2)"
    if ne: "staged_ids w2 \<noteq> staged_ids w0" and bucket: "\<not> fo_LocalOnly opts"
  proof (cases "staged_ids w1 = staged_ids w0")
    case True
    then show ?thesis using B(6) ne bucket by simp
  next
    case False
    then obtain key where "dataURI opts key \<in> set (catalog_files w1)"
      using A(6) bucket by blast
    then show ?thesis
      using B(3) by (meson subsetD)
  qed
  then show "cycle_inv opts ids w0 w2"
    unfolding cycle_inv_def using B(1,2) subset_trans [OF A(3) B(3)] subset_trans [OF B(4) A(4)]
      shrink_trans [OF A(5) B(5)] by (intro conjI impI) (assumption | simp)+
qed

lemma cycle_inv_quiet: "quiet w w' \<Longrightarrow> handle_ok w \<Longrightarrow> distinct (catalog_files w) \<Longrightarrow> cycle_inv opts ids w w'"
  by (auto simp: cycle_inv_def quiet_def handle_ok_def)

lemma process_cycle_inv:
  assumes "fo_LocalOnly opts \<longrightarrow> fo_Spool opts" "handle_ok w" "process opts j w = ((kind, err), j', w')"
    and "distinct (catalog_files w)" "fresh_or_retried opts j w"
  shows "cycle_inv opts (map frw_ID (bt_Rows (jb_batch j))) w w'"
    "kind = failureNone \<Longrightarrow> staged_ids w' = staged_ids w - frw_ID ` set (bt_Rows (jb_batch j))
       \<and> delivered opts (bt_Key (jb_batch j')) w'"
proof -
  note d = process_distinct [OF assms]
  have inv: "cycle_inv opts ids w w'" if "safe g opts key ids w w'" for g key ids
    using that d unfolding cycle_inv_def safe_def delivered_def by (intro conjI) auto
  from process_cases(1) [OF assms(1-3)]
  show "cycle_inv opts (map frw_ID (bt_Rows (jb_batch j))) w w'"
    using inv cycle_inv_quiet [OF _ assms(2,4)] by (elim disjE exE conjE) auto
  show "staged_ids w' = staged_ids w - frw_ID ` set (bt_Rows (jb_batch j))
       \<and> delivered opts (bt_Key (jb_batch j')) w'" if "kind = failureNone"
    using process_cases(1) [OF assms(1-3)] that by (auto simp: gone_def)
qed

text \<open>The end of a cycle that started with \<open>n\<close> attempts made.\<close>

definition cycle_end :: "('r, 'z) Options_scheme \<Rightarrow> job \<Rightarrow> flush_world \<Rightarrow> flush_result \<times> job \<times> flush_world \<Rightarrow> bool" where
  "cycle_end opts j w0 r \<longleftrightarrow> (case r of (res, j', w) \<Rightarrow>
     cycle_inv opts (map frw_ID (bt_Rows (jb_batch j))) w0 w
   \<and> jb_attempted j' \<and> jb_seq j' = jb_seq j \<and> bt_Rows (jb_batch j') = bt_Rows (jb_batch j)
   \<and> jb_attempts j < jb_attempts j' \<and> jb_attempts j' \<le> attempts (fo_Retry opts)
   \<and> (rs_err res = None \<longrightarrow> \<not> rs_quarantined res \<and> delivered opts (bt_Key (jb_batch j')) w
        \<and> staged_ids w \<inter> frw_ID ` set (bt_Rows (jb_batch j)) = {}))"

lemma tries_end:
  assumes "fo_LocalOnly opts \<longrightarrow> fo_Spool opts"
  shows "handle_ok w \<Longrightarrow> distinct (catalog_files w) \<Longrightarrow> fresh_or_retried opts j w \<Longrightarrow>
    jb_attempts j < attempts (fo_Retry opts) \<Longrightarrow> cycle_end opts j w (tries opts j w)"
proof (induction "nat (attempts (fo_Retry opts) - jb_attempts j)" arbitrary: j w rule: less_induct)
  case less
  let ?j = "j\<lparr>jb_attempts := jb_attempts j + 1\<rparr>"
  have fresh: "fresh_or_retried opts ?j w"
    using less.prems(3) by (simp add: fresh_or_retried_def)
  obtain kind err j1 w1 where run: "process opts ?j w = ((kind, err), j1, w1)"
    by (metis prod.collapse)
  note keep = process_keeps [OF run]
  note inv = process_cycle_inv [OF assms less.prems(1) run less.prems(2) fresh, simplified]
  have ok1: "handle_ok w1" "distinct (catalog_files w1)"
    using inv(1) by (simp_all add: cycle_inv_def)
  have quiet1: "cycle_inv opts (map frw_ID (bt_Rows (jb_batch j))) w w2" if "quiet w1 w2" for w2
    using inv(1) cycle_inv_trans cycle_inv_quiet [OF that ok1] by blast
  show ?case
  proof (cases kind)
    case failureNone
    then have "tries opts j w = (\<lparr>rs_err = None, rs_quarantined = False, rs_report = False\<rparr>, j1\<lparr>jb_attempted := True\<rparr>, w1)"
      using run by (simp add: tries.simps [of opts j w])
    then show ?thesis
      using inv keep less.prems(4) failureNone by (auto simp: cycle_end_def)
  next
    case failureEncode
    obtain res w2 where q: "quarantine opts (j1\<lparr>jb_attempted := True\<rparr>) (the err) w1 = (res, w2)"
      by (metis prod.collapse)
    then have "tries opts j w = (res, j1\<lparr>jb_attempted := True\<rparr>, w2)"
      using run failureEncode by (simp add: tries.simps [of opts j w])
    then show ?thesis
      using quiet1 [OF quarantine_world(1) [OF q]] quarantine_world(2) [OF q] keep less.prems(4)
      by (auto simp: cycle_end_def)
  next
    case failureTransient
    then have err: "err \<noteq> None"
      using process_cases(2) [OF assms less.prems(1) run] by simp
    obtain c w2 where c: "ctx_done w1 = (c, w2)" by (metis prod.collapse)
    note q2 = ctx_done_quiet [OF c]
    have stopped: "cycle_end opts j w (\<lparr>rs_err = err, rs_quarantined = False, rs_report = report\<rparr>, j1\<lparr>jb_attempted := True\<rparr>, w')"
      if "quiet w1 w'" for report w'
      using quiet1 [OF that] keep less.prems(4) err by (auto simp: cycle_end_def)
    let ?draw = "if ceiling (fo_Retry opts) (jb_attempts j1) \<le> 0 then (None, w2) else jitter w2"
    obtain u w3 where u: "?draw = (u, w3)" by (metis prod.collapse)
    have q3: "quiet w2 w3"
      using u jitter_quiet by (auto split: if_splits)
    obtain i w4 where sl: "Sleep (delay (fo_Retry opts) (jb_attempts j1) u) w3 = (i, w4)" by (metis prod.collapse)
    have q4: "quiet w1 w4"
      using q2 q3 Sleep_quiet [OF sl] quiet_trans by blast
    consider (stop) report w' where "quiet w1 w'" "tries opts j w
        = (\<lparr>rs_err = err, rs_quarantined = False, rs_report = report\<rparr>, j1\<lparr>jb_attempted := True\<rparr>, w')"
      | (again) "jb_attempts j + 1 < attempts (fo_Retry opts)"
        "tries opts j w = tries opts (j1\<lparr>jb_attempted := True\<rparr>) w4"
      using run failureTransient c q2 u sl q4 keep
      by (cases c; cases "jb_attempts j1 \<ge> attempts (fo_Retry opts)"; cases i)
        (auto simp: tries.simps [of opts j w] Let_def split: if_splits)
    then show ?thesis
    proof cases
      case stop
      then show ?thesis using stopped by simp
    next
      case again
      have inv4: "cycle_inv opts (map frw_ID (bt_Rows (jb_batch j))) w w4"
        by (rule quiet1 [OF q4])
      have "cycle_end opts (j1\<lparr>jb_attempted := True\<rparr>) w4 (tries opts (j1\<lparr>jb_attempted := True\<rparr>) w4)"
        using inv4 keep again(1)
        by (intro less.hyps) (auto simp: cycle_inv_def fresh_or_retried_def)
      then show ?thesis
        using again keep cycle_inv_trans [OF inv4]
        by (cases "tries opts (j1\<lparr>jb_attempted := True\<rparr>) w4") (simp add: cycle_end_def)
    qed
  qed
qed

end
