(* ===== verification/FlushWorker.thy ===== *)
theory FlushWorker
  imports FlushProps
begin

text \<open>The worker's queue over every interleaving of its goroutine with its callers, a small table for
  concrete runs, and the properties of the flush path.\<close>

section \<open>The queue\<close>

text \<open>The queue is the batches enqueued and not yet done, in order; the failure on record is of a batch
  at most one past the last done, and the quarantine notice of one that is done.\<close>

definition queue_inv :: "Worker \<Rightarrow> bool" where
  "queue_inv wk \<longleftrightarrow> map jb_seq (wk_queue wk) = [wk_completed wk + 1 ..< wk_enqueued wk + 1]
     \<and> wk_completed wk \<le> wk_enqueued wk
     \<and> (wk_failure wk \<noteq> None \<longrightarrow> 1 \<le> wk_failureSeq wk \<and> wk_failureSeq wk \<le> wk_completed wk + 1)
     \<and> (wk_quarantined wk \<noteq> None \<longrightarrow> 1 \<le> wk_quarantinedSeq wk \<and> wk_quarantinedSeq wk \<le> wk_completed wk)
     \<and> (\<forall>res. wk_pc wk = Finishing res \<longrightarrow> wk_queue wk \<noteq> [])"

lemma queue_inv_NewWorker [simp]: "queue_inv NewWorker"
  by (simp add: queue_inv_def NewWorker_def)

lemma queue_inv_Enqueue: "queue_inv wk \<Longrightarrow> queue_inv (snd (Enqueue b replayed wk))"
  by (auto simp: queue_inv_def Enqueue_def Let_def)

lemma queue_inv_answer: "queue_inv wk \<Longrightarrow> queue_inv (snd (answer since seq wk))"
  by (auto simp: queue_inv_def answer_def)

lemma upt_Cons_eq: "map f js = [Suc n ..< Suc m] \<Longrightarrow> js \<noteq> [] \<Longrightarrow>
    n < m \<and> f (hd js) = Suc n \<and> map f (tl js) = [Suc (Suc n) ..< Suc m]"
  by (cases js) (auto simp: upt_eq_Cons_conv simp del: upt_Suc dest!: sym [of _ "[_..<_]"])

lemma queue_inv_finish:
  assumes "queue_inv wk" "wk_queue wk \<noteq> []"
  shows "queue_inv ((finish res wk)\<lparr>wk_pc := Look\<rparr>)"
proof -
  have "wk_completed wk < wk_enqueued wk" "jb_seq (hd (wk_queue wk)) = Suc (wk_completed wk)"
      "map jb_seq (tl (wk_queue wk)) = [Suc (Suc (wk_completed wk)) ..< Suc (wk_enqueued wk)]"
    using upt_Cons_eq [of jb_seq "wk_queue wk" "wk_completed wk" "wk_enqueued wk"] assms
    by (auto simp: queue_inv_def)
  then show ?thesis
    using assms by (auto simp: queue_inv_def finish_def Let_def)
qed

lemma tries_keeps: "tries opts j w = (res, j', w') \<Longrightarrow>
    jb_seq j' = jb_seq j \<and> bt_Rows (jb_batch j') = bt_Rows (jb_batch j) \<and> jb_attempted j'"
proof (induction "nat (attempts (fo_Retry opts) - jb_attempts j)" arbitrary: j w rule: less_induct)
  case less
  obtain kind err j1 w1 where run: "process opts (j\<lparr>jb_attempts := jb_attempts j + 1\<rparr>) w = ((kind, err), j1, w1)"
    by (metis prod.collapse)
  note keep = process_keeps [OF run]
  have again: "tries opts (j1\<lparr>jb_attempted := True\<rparr>) w4 = (res, j', w') \<Longrightarrow>
      jb_attempts j1 < attempts (fo_Retry opts) \<Longrightarrow>
      jb_seq j' = jb_seq j \<and> bt_Rows (jb_batch j') = bt_Rows (jb_batch j) \<and> jb_attempted j'" for w4
    using less.hyps [of "j1\<lparr>jb_attempted := True\<rparr>" w4] keep by simp
  show ?case
    using less.prems run keep again
    by (cases kind) (auto simp: tries.simps [of opts j w] Let_def split: prod.splits if_splits)
qed

lemma queue_inv_run_step:
  assumes "queue_inv wk"
  shows "queue_inv (fst (run_step opts (wk, w)))"
proof (cases "wk_pc wk")
  case Look
  have head: "map jb_seq (j' # js) = map jb_seq (j # js)" if "cycle opts j w1 = (res, j', w2)" for j js w1 res j' w2
    using tries_keeps that by (fastforce simp: cycle_def)
  show ?thesis
    using assms Look head
    by (auto simp: run_step_def idle_enter_def queue_inv_def split: prod.split list.split simp del: upt_Suc)
next
  case (Finishing res)
  have "queue_inv (finish res wk\<lparr>wk_pc := Look\<rparr>)"
    using assms Finishing by (intro queue_inv_finish) (auto simp: queue_inv_def)
  then show ?thesis
    using Finishing by (auto simp: run_step_def Let_def idle_enter_def queue_inv_def)
next
  case Waiting
  then show ?thesis
    using assms by (auto simp: run_step_def idle_wake_def queue_inv_def split: prod.split)
next
  case Exited
  then show ?thesis
    using assms by (simp add: run_step_def)
qed

lemma queue_inv_step: "worker_step opts c c' \<Longrightarrow> queue_inv (fst c) \<Longrightarrow> queue_inv (fst c')"
proof (induction rule: worker_step.induct)
  case (run c)
  then show ?case by (cases c) (auto intro: queue_inv_run_step)
next
  case (enqueue wk w b replayed)
  then show ?case by (simp add: queue_inv_Enqueue)
next
  case (waited wk w since seq)
  then show ?case by (simp add: queue_inv_answer)
qed (auto simp: queue_inv_def Kick_def Worker_Close_def)

lemma queue_inv_run: "worker_run opts c c' \<Longrightarrow> queue_inv (fst c) \<Longrightarrow> queue_inv (fst c')"
  by (induction rule: worker_run.induct) (auto intro: queue_inv_step)

text \<open>The head leaves, the tail stays, and only a cycle that committed or quarantined its batch moves the
  queue.\<close>

lemma run_step_queue:
  assumes "wk_pc wk = Finishing res"
  shows "map jb_seq (wk_queue (fst (run_step opts (wk, w)))) =
    (if rs_err res = None \<or> rs_quarantined res then map jb_seq (tl (wk_queue wk)) else map jb_seq (wk_queue wk))"
  using assms by (auto simp: run_step_def finish_def Let_def idle_enter_def)

section \<open>A small table\<close>

definition flush_opts :: "unit Options" where
  "flush_opts = \<lparr>fo_Namespace = ''ns'', fo_Table = ''t'', fo_Bucket = ''b'', fo_Prefix = ''p'', fo_Spool = False,
     fo_LocalOnly = False, fo_Descriptor = sample_descriptor, fo_Build = (\<lambda>_. Inr ()),
     fo_encodeParquet = (\<lambda>_. Inr [7]), fo_NumRows = (\<lambda>_. 1), fo_Reload = True, fo_Mirror = False, fo_OnFlushError = True,
     fo_OnClickHouseError = True,
     fo_Retry = \<lparr>MaxAttempts = 3, BaseDelay = 100, MaxDelay = 1000\<rparr>, fo_text = (\<lambda>_. ''text'')\<rparr>"

definition flush_row :: Staging where
  "flush_row = \<lparr>sr_id = 2, sr_namespace = ''ns'', sr_table = ''t'', sr_batch_key = Some ''k'',
     sr_schema_fp = d_fp sample_descriptor, sr_payload = sample_payload, sr_byte_len = 18,
     sr_created_at = 5, sr_quarantined_at = None, sr_quarantine_error = None\<rparr>"

definition flush_start :: flush_world where
  "flush_start = \<lparr>fw_spool = \<lparr>sp_dir = ''/c'', sp_store = \<lparr>st_path = ''staging.db'',
       st_db = \<lparr>db_staging = [flush_row], db_seq = 2,
         db_schemas = [(d_fp sample_descriptor, d_encoded sample_descriptor)], db_spool_files = [],
         db_spool_schemas = []\<rparr>, st_faults = []\<rparr>, sp_files = Map.empty, sp_os = [], sp_partial = 0\<rparr>,
     fw_bucket = Map.empty, fw_catalog = None, fw_table = None, fw_shapes = [], fw_ext = [],
     fw_ctx = [], fw_draws = [], fw_now = 9, fw_log = []\<rparr>"

definition flush_job :: job where
  "flush_job = \<lparr>jb_batch = \<lparr>bt_Key = ''k'', bt_Rows = [\<lparr>frw_ID = 2, frw_ByteLen = 18\<rparr>]\<rparr>, jb_seq = 1,
     jb_replayed = False, jb_attempts = 0, jb_attempted = False\<rparr>"

lemmas flush_eval = fl_bind_def fl_ret_def fl_lift_def staging_op_def spool_op_def db_op_def op_bind_def op_ret_def
  staging_wrap_def op_wrap_def stmt_def ext_call_def

lemma sample_prepare: "\<exists>w1. prepare flush_opts (jb_batch flush_job) flush_start = (Inr (''k'', [sample_row], [2]), w1)
    \<and> w1 = flush_start\<lparr>fw_shapes := [(d_fp sample_descriptor, sample_descriptor)]\<rparr>"
  by (simp add: prepare_def flush_job_def flush_start_def flush_row_def flush_opts_def decode_sealed_def
      descriptor_def Rows_def Schema_def q_GetStagedPayload_def q_GetSchema_def row_with_id_def staged_row_def
      op_lift_def ParseDescriptor_complete [OF sample_descriptor_ok] sample_Decode flush_eval)

lemma sample_process: "\<exists>w'. process flush_opts flush_job flush_start = ((failureNone, None), flush_job, w')
    \<and> catalog_files w' = [''s3://b/p/ns/t/data/k.parquet'']"
proof -
  let ?w1 = "flush_start\<lparr>fw_shapes := [(d_fp sample_descriptor, sample_descriptor)]\<rparr>"
  have uri: "dataURI flush_opts ''k'' = ''s3://b/p/ns/t/data/k.parquet''"
    by (simp add: dataURI_def DataURI_def DataKey_def path_join_def flush_opts_def)
  have "\<exists>w2. attempt flush_opts flush_job ''k'' [sample_row] [2] ?w1 = (Inr (), w2)
      \<and> catalog_files w2 = [dataURI flush_opts ''k'']"
    by (simp add: attempt_def deliver_def encode_batch_def mirror_def spool_write_def upload_def commit_def
        AddFile_def land_commit_def finish_commit_def markSpooled_def prune_def committed_def emit_def
        flush_opts_def flush_start_def flush_row_def flush_job_def flush_eval Delete_def tx_def q_DeleteStagedRow_def
        PruneSchemas_def q_DeleteUnreferencedSchemas_def data_files_def snapshot_entries_def)
  then show ?thesis
    using sample_prepare uri by (auto simp: process_def Let_def flush_job_def)
qed

lemma flush_start_sel: "handle_ok flush_start" "distinct (catalog_files flush_start)" "catalog_files flush_start = []"
    "staged_ids flush_start = {2}"
  by (simp_all add: handle_ok_def flush_start_def flush_row_def data_files_def snapshot_entries_def)

section \<open>Properties\<close>

text \<open>C12: Nothing leaves staging before its batch is delivered. Whatever fails in an attempt (the driver, the file
  system, the upload, the commit, also a commit that lands but reports a failure), the only rows that
  may leave are the batch's own; if any left, the batch's file is in the table's snapshot (or, in
  local-only mode, on disk); the catalog gains at most this batch's file, and only once its
  object is uploaded; and an attempt that reports success leaves none of the rows.\<close>

theorem rows_leave_after_delivery:
  assumes "fo_LocalOnly opts \<longrightarrow> fo_Spool opts" "handle_ok w" "process opts j w = ((kind, err), j', w')"
  shows "staged_ids w' \<subseteq> staged_ids w \<and> staged_ids w - staged_ids w' \<subseteq> frw_ID ` set (bt_Rows (jb_batch j))
    \<and> (staged_ids w' \<noteq> staged_ids w \<longrightarrow> delivered opts (bt_Key (jb_batch j')) w')
    \<and> (catalog_files w' = catalog_files w
       \<or> catalog_files w' = catalog_files w @ [dataURI opts (bt_Key (jb_batch j'))]
         \<and> fw_bucket w' (dataKey opts (bt_Key (jb_batch j'))) \<noteq> None)
    \<and> (kind = failureNone \<longrightarrow> staged_ids w' = staged_ids w - frw_ID ` set (bt_Rows (jb_batch j))
         \<and> delivered opts (bt_Key (jb_batch j')) w')
    \<and> (err = None \<longleftrightarrow> kind = failureNone)"
  using process_cases(1) [OF assms]
proof (elim disjE exE conjE)
  assume "quiet w w'" "kind \<noteq> failureNone"
  then show ?thesis
    using process_cases(2) [OF assms] by (simp add: quiet_def)
next
  fix key rows w1
  assume "j' = j\<lparr>jb_batch := (jb_batch j)\<lparr>bt_Key := key\<rparr>\<rparr>"
    and "safe (may_commit opts j key w) opts key (map frw_ID (bt_Rows (jb_batch j))) w w'"
    and "kind = failureNone \<longrightarrow> gone (may_commit opts j key w) opts key (map frw_ID (bt_Rows (jb_batch j))) w w'"
  then show ?thesis
    using process_cases(2) [OF assms] unfolding safe_def gone_def by (intro conjI; simp; blast?)
qed

theorem rows_leave_after_delivery_witness:
  "\<exists>w'. process flush_opts flush_job flush_start = ((failureNone, None), flush_job, w') \<and> staged_ids w' = {}"
proof -
  obtain w' where w': "process flush_opts flush_job flush_start = ((failureNone, None), flush_job, w')"
    using sample_process by blast
  have "staged_ids w' = staged_ids flush_start - frw_ID ` set (bt_Rows (jb_batch flush_job))"
    using rows_leave_after_delivery [OF _ flush_start_sel(1) w'] by (simp add: flush_opts_def)
  then have "staged_ids w' = {}"
    by (simp add: flush_start_sel(4) flush_job_def)
  with w' show ?thesis by blast
qed

text \<open>C13: A whole retry cycle commits its batch at most once. If the table references no file
  twice and the batch is either one tried or replayed before, or one whose file the table does not reference yet,
  then after the cycle, however its attempts failed, the table still references no file twice, keeps
  every file it had, and only the batch's rows may be gone; the cycle makes between one and the budgeted number of
  attempts; and ending without an error means the batch is delivered and its rows are gone.\<close>

theorem cycle_commits_once:
  assumes "fo_LocalOnly opts \<longrightarrow> fo_Spool opts" "handle_ok w" "distinct (catalog_files w)"
    and "jb_attempted j \<or> jb_replayed j \<or> (\<forall>key rows ids w1.
       prepare opts (jb_batch j) w = (Inr (key, rows, ids), w1) \<longrightarrow> dataURI opts key \<notin> set (catalog_files w))"
    and "cycle opts j w = (res, j', w')"
  shows "distinct (catalog_files w') \<and> handle_ok w' \<and> set (catalog_files w) \<subseteq> set (catalog_files w')
    \<and> staged_ids w' \<subseteq> staged_ids w \<and> staged_ids w - staged_ids w' \<subseteq> frw_ID ` set (bt_Rows (jb_batch j))
    \<and> 1 \<le> jb_attempts j' \<and> jb_attempts j' \<le> attempts (fo_Retry opts) \<and> jb_attempted j'
    \<and> (rs_err res = None \<longrightarrow> delivered opts (bt_Key (jb_batch j')) w'
         \<and> staged_ids w' \<inter> frw_ID ` set (bt_Rows (jb_batch j)) = {})"
proof -
  let ?j = "j\<lparr>jb_attempts := 0\<rparr>"
  have "cycle_end opts ?j w (res, j', w')"
    using tries_end [OF assms(1,2,3), of ?j] assms(4,5)
    by (auto simp: cycle_def fresh_or_retried_def attempts_def)
  then show ?thesis
    unfolding cycle_end_def cycle_inv_def by (simp add: zero_less_iff_neq_zero)
qed

theorem cycle_commits_once_witness:
  "case cycle flush_opts flush_job flush_start of (res, j', w') \<Rightarrow>
     distinct (catalog_files w') \<and> jb_attempts j' \<le> 3"
proof -
  obtain res j' w' where run: "cycle flush_opts flush_job flush_start = (res, j', w')"
    by (metis prod.collapse)
  have "distinct (catalog_files w') \<and> jb_attempts j' \<le> attempts (fo_Retry flush_opts)"
    using cycle_commits_once [OF _ flush_start_sel(1,2) _ run] by (simp add: flush_start_sel(3)) (simp add: flush_opts_def)
  then show ?thesis
    using run by (simp add: flush_opts_def attempts_def)
qed

text \<open>A batch tried or replayed before asks first: if the table already references its file, an attempt
  commits nothing, whatever else happens, and its success prunes the rows. The file is named by the content key,
  so a batch whose file is there because another batch held the same records is absorbed the
  same way.\<close>

theorem recommit_asks_first:
  assumes "fo_LocalOnly opts \<longrightarrow> fo_Spool opts" "handle_ok w" "process opts j w = ((kind, err), j', w')"
    and "\<not> fo_LocalOnly opts" "jb_attempted j \<or> jb_replayed j"
    and "dataURI opts (bt_Key (jb_batch j')) \<in> set (data_files (fw_table w))"
  shows "catalog_files w' = catalog_files w
    \<and> (kind = failureNone \<longrightarrow> staged_ids w' = staged_ids w - frw_ID ` set (bt_Rows (jb_batch j)))"
  using process_cases(1) [OF assms(1-3)]
proof (elim disjE exE conjE)
  assume "quiet w w'" "kind \<noteq> failureNone"
  then show ?thesis by (simp add: quiet_def)
next
  fix key rows w1
  assume j': "j' = j\<lparr>jb_batch := (jb_batch j)\<lparr>bt_Key := key\<rparr>\<rparr>"
    and s: "safe (may_commit opts j key w) opts key (map frw_ID (bt_Rows (jb_batch j))) w w'"
    and g: "kind = failureNone \<longrightarrow> gone (may_commit opts j key w) opts key (map frw_ID (bt_Rows (jb_batch j))) w w'"
  have "\<not> may_commit opts j key w"
    using assms(4-6) j' by (simp add: may_commit_def retried_def)
  then show ?thesis
    using s g unfolding safe_def gone_def by simp
qed

text \<open>A table that already has the batch's file.\<close>

definition flush_again :: flush_world where
  "flush_again = flush_start\<lparr>fw_catalog := Some [[(True, ''s3://b/p/ns/t/data/k.parquet'')]],
     fw_table := Some [[(True, ''s3://b/p/ns/t/data/k.parquet'')]]\<rparr>"

theorem recommit_asks_first_witness:
  "catalog_files (snd (snd (process flush_opts (flush_job\<lparr>jb_attempted := True\<rparr>) flush_again)))
     = [''s3://b/p/ns/t/data/k.parquet'']"
proof -
  obtain kind err j' w' where run: "process flush_opts (flush_job\<lparr>jb_attempted := True\<rparr>) flush_again = ((kind, err), j', w')"
    by (metis prod.collapse)
  have ok: "handle_ok flush_again" "data_files (fw_table flush_again) = [''s3://b/p/ns/t/data/k.parquet'']"
      "catalog_files flush_again = [''s3://b/p/ns/t/data/k.parquet'']"
    by (simp_all add: handle_ok_def flush_again_def data_files_def snapshot_entries_def)
  have key: "bt_Key (jb_batch j') = ''k''"
    using process_cases(1) [OF _ ok(1) run]
      fl_ensuresD(2) [OF quiet_prepare quiet_refl, of flush_opts "jb_batch (flush_job\<lparr>jb_attempted := True\<rparr>)" flush_again]
    by (auto simp: flush_opts_def flush_job_def)
  have uri: "dataURI flush_opts ''k'' = ''s3://b/p/ns/t/data/k.parquet''"
    by (simp add: dataURI_def DataURI_def DataKey_def path_join_def flush_opts_def)
  have "catalog_files w' = catalog_files flush_again"
    using recommit_asks_first [OF _ ok(1) run] key uri ok(2) by (simp add: flush_opts_def)
  then show ?thesis
    using run ok(3) by simp
qed

section \<open>Batches that cannot leave\<close>

lemma Rows_missing:
  assumes "i \<in> set ids" "\<forall>r\<in>set (db_staging (st_db s)). sr_id r \<noteq> i"
  shows "\<exists>e. fst (Rows ids s) = Inl e"
proof -
  have "Rows ids s \<noteq> (Inr rows, s')" for rows s'
    using assms
  proof (induction ids arbitrary: s rows s')
    case (Cons k ids)
    let ?get = "op_bind (staging_wrap StagingKindRead (stmt (q_GetStagedPayload k))) (\<lambda>r.
       case r of None \<Rightarrow> staging_fail StagingKindState (Some sql_ErrNoRows) | Some row \<Rightarrow> op_ret (staged_row row))"
    show ?case
    proof
      assume run: "Rows (k # ids) s = (Inr rows, s')"
      then obtain y s1 ys where h: "?get s = (Inr y, s1)" "Rows ids s1 = (Inr ys, s')"
        by (auto simp: Rows_def op_bind_Inr)
      from h(1) have same: "st_db s1 = st_db s" and found: "row_with_id k (db_staging (st_db s)) \<noteq> None"
        by (cases "row_with_id k (db_staging (st_db s))"; auto simp: op_bind_Inr staging_wrap_def op_wrap_Inr
            q_GetStagedPayload_def staging_fail_def dest!: stmt_Inr)+
      show False
      proof (cases "i = k")
        case True
        then show ?thesis using found Cons.prems(2) by (simp add: row_with_id_None)
      next
        case False
        then show ?thesis using Cons.IH [of s1 ys s'] Cons.prems same h(2) by simp
      qed
    qed
  qed simp
  then show ?thesis
    by (metis prod.collapse sum.exhaust)
qed

lemma process_missing:
  assumes "i \<in> frw_ID ` set (bt_Rows (jb_batch j))" "i \<notin> staged_ids w"
  shows "\<exists>e w'. process opts j w = ((failureTransient, Some e), j, w') \<and> quiet w w'"
proof -
  have "\<exists>e. fst (Rows (map frw_ID (bt_Rows (jb_batch j))) (fw_store w)) = Inl e"
    using assms(1) imageI [of _ "set (db_staging (st_db (fw_store w)))" sr_id] assms(2)
    by (intro Rows_missing [of i]) (simp, metis)
  then obtain e w1 where rows: "staging_op (Rows (map frw_ID (bt_Rows (jb_batch j)))) w = (Inl (Failed e), w1)"
    by (auto simp: staging_op_def spool_op_def db_op_def)
  then have prep: "prepare opts (jb_batch j) w = (Inl (Failed e), w1)"
    by (simp add: prepare_def Let_def fl_bind_def)
  have "quiet w w1"
    using fl_ensuresD(1) [OF quiet_prepare quiet_refl prep] .
  then show ?thesis
    using prep by (simp add: process_def fail_def)
qed

text \<open>A batch one of whose rows is no longer staged can never leave the queue: every attempt at it, in
  every world in which the row is gone, is a transient failure that changes nothing, whether the batch is already
  in the table or not. That state is reached when the prune of a delivered batch deletes the rows and then fails
  to delete the unreferenced schemas: the prune reports an error with the rows gone.\<close>

theorem half_pruned_batch_is_stuck:
  assumes "staging_op (Delete (map frw_ID (bt_Rows (jb_batch j)))) w = (Inr (), w1)"
    and "staging_op PruneSchemas w1 = (Inl e, w2)" "bt_Rows (jb_batch j) \<noteq> []"
  shows "prune (map frw_ID (bt_Rows (jb_batch j))) w = (Inl e, w2)
    \<and> staged_ids w2 = staged_ids w - frw_ID ` set (bt_Rows (jb_batch j))
    \<and> (\<forall>w3. staged_ids w3 \<subseteq> staged_ids w2 \<longrightarrow>
        (\<exists>err w4. process opts j w3 = ((failureTransient, Some err), j, w4) \<and> staged_ids w4 = staged_ids w3))"
proof (intro conjI allI impI)
  show "prune (map frw_ID (bt_Rows (jb_batch j))) w = (Inl e, w2)"
    using assms by (simp add: prune_def fl_bind_def)
  show gone: "staged_ids w2 = staged_ids w - frw_ID ` set (bt_Rows (jb_batch j))"
    using staged_ids_keeps [OF keeps_ids_ops(4) assms(2)] Delete_result(2) [OF assms(1) refl] by simp
  fix w3 assume "staged_ids w3 \<subseteq> staged_ids w2"
  moreover obtain r rs where "bt_Rows (jb_batch j) = r # rs"
    using assms(3) by (cases "bt_Rows (jb_batch j)") auto
  ultimately have "frw_ID r \<notin> staged_ids w3" "frw_ID r \<in> frw_ID ` set (bt_Rows (jb_batch j))"
    using gone by auto
  from process_missing [OF this(2,1), of opts]
  show "\<exists>err w4. process opts j w3 = ((failureTransient, Some err), j, w4) \<and> staged_ids w4 = staged_ids w3"
    by (auto simp: quiet_def)
qed

definition flush_half :: flush_world where
  "flush_half = flush_start\<lparr>fw_spool := (fw_spool flush_start)\<lparr>sp_store := (fw_store flush_start)\<lparr>st_faults :=
     [None, None, None, Some (ErrOther ''disk I/O error'')]\<rparr>\<rparr>\<rparr>"

theorem half_pruned_batch_is_stuck_witness:
  "\<exists>e w2. prune [2] flush_half = (Inl e, w2) \<and> staged_ids w2 = {}
     \<and> (\<exists>err w4. process flush_opts flush_job w2 = ((failureTransient, Some err), flush_job, w4))"
proof -
  have rows: "map frw_ID (bt_Rows (jb_batch flush_job)) = [2]" "bt_Rows (jb_batch flush_job) \<noteq> []"
    by (simp_all add: flush_job_def)
  have "\<exists>w1. staging_op (Delete [2]) flush_half = (Inr (), w1) \<and> st_faults (fw_store w1) = [Some (ErrOther ''disk I/O error'')]"
    by (simp add: flush_half_def flush_start_def flush_row_def flush_eval Delete_def tx_def q_DeleteStagedRow_def)
  then obtain w1 where w1: "staging_op (Delete [2]) flush_half = (Inr (), w1)"
      "st_faults (fw_store w1) = [Some (ErrOther ''disk I/O error'')]"
    by blast
  have "\<exists>e w2. staging_op PruneSchemas w1 = (Inl e, w2)"
    by (simp add: PruneSchemas_def flush_eval w1(2))
  then obtain e w2 where w2: "staging_op PruneSchemas w1 = (Inl e, w2)"
    by blast
  have "staged_ids flush_half = {2}"
    by (simp add: flush_half_def flush_start_sel(4))
  then show ?thesis
    using half_pruned_batch_is_stuck [of flush_job flush_half w1 e w2 flush_opts, unfolded rows(1), OF w1(1) w2 rows(2)]
    by (auto simp: flush_job_def)
qed

lemma quarantine_result:
  assumes "staging_ok (st_db (fw_store w))" "bt_Rows (jb_batch j) \<noteq> []" "quarantine opts j cause w = (res, w')"
  shows "db_staging (st_db (fw_store w')) =
      (if rs_quarantined res
       then map (quarantine_effect (fw_now w) (fo_text opts cause) (frw_ID ` set (bt_Rows (jb_batch j))))
              (db_staging (st_db (fw_store w)))
       else db_staging (st_db (fw_store w)))
    \<and> fw_catalog w' = fw_catalog w \<and> fw_bucket w' = fw_bucket w
    \<and> rs_err res \<noteq> None \<and> rs_report res"
proof -
  let ?ids = "map frw_ID (bt_Rows (jb_batch j))"
  let ?q = "Quarantine ?ids (fw_now w) (fo_text opts cause)"
  obtain r s where q: "?q (fw_store w) = (r, s)" by (cases "?q (fw_store w)")
  have set: "set ?ids = frw_ID ` set (bt_Rows (jb_batch j))"
    by simp
  show ?thesis
  proof (cases r)
    case (Inl e)
    have "atomic ?q"
      unfolding Quarantine_def by (auto intro!: atomic_intros atomic_tx)
    then have "st_db s = st_db (fw_store w)"
      using q Inl by (auto simp: atomic_def)
    moreover have "rs_quarantined res = False" "fw_store w' = s" "fw_catalog w' = fw_catalog w" "fw_bucket w' = fw_bucket w"
      using assms(3) q Inl by (auto simp: quarantine_def staging_op_def spool_op_def db_op_def)
    ultimately show ?thesis
      using quarantine_world(2,3) [OF assms(3)] by simp
  next
    case (Inr u)
    have "db_staging (st_db s) = map (quarantine_effect (fw_now w) (fo_text opts cause) (set ?ids)) (db_staging (st_db (fw_store w)))"
      using Quarantine_Inr(1) [OF q [unfolded Inr]] assms(1,2) by simp
    moreover have "rs_quarantined res = True" "fw_store w' = s" "fw_catalog w' = fw_catalog w" "fw_bucket w' = fw_bucket w"
      using assms(3) q Inr by (auto simp: quarantine_def staging_op_def spool_op_def db_op_def emit_def)
    ultimately show ?thesis
      using quarantine_world(2,3) [OF assms(3)] unfolding set by simp
  qed
qed

text \<open>A batch no attempt can encode is marked in place: quarantining it removes no row and touches no
  table; either every row of the batch, and no other, carries the mark, the moment and the cause's text, and the
  result says so, or the database is as it was and the result does not; and the failure is reported either
  way.\<close>

theorem quarantine_marks_in_place:
  assumes "staging_ok (st_db (fw_store w))" "bt_Rows (jb_batch j) \<noteq> []" "quarantine opts j cause w = (res, w')"
  shows "db_staging (st_db (fw_store w')) =
      (if rs_quarantined res
       then map (quarantine_effect (fw_now w) (fo_text opts cause) (frw_ID ` set (bt_Rows (jb_batch j))))
              (db_staging (st_db (fw_store w)))
       else db_staging (st_db (fw_store w)))
    \<and> fw_catalog w' = fw_catalog w \<and> fw_bucket w' = fw_bucket w
    \<and> rs_err res \<noteq> None \<and> rs_report res"
  by (rule quarantine_result [OF assms])

lemma flush_start_ok: "staging_ok (st_db (fw_store flush_start))"
  using ParseDescriptor_complete [OF sample_descriptor_ok]
  by (simp add: flush_start_def flush_row_def staging_ok_def row_ok_def schemas_complete_def schemas_addressed_def
      sample_payload_def)

theorem quarantine_marks_in_place_witness:
  "case quarantine flush_opts flush_job (ErrOther ''cause'') flush_start of (res, w') \<Rightarrow>
     rs_report res \<and> fw_catalog w' = None"
proof -
  obtain res w' where run: "quarantine flush_opts flush_job (ErrOther ''cause'') flush_start = (res, w')"
    by (metis prod.collapse)
  have rows: "bt_Rows (jb_batch flush_job) \<noteq> []"
    by (simp add: flush_job_def)
  have "fw_catalog flush_start = None"
    by (simp add: flush_start_def)
  then show ?thesis
    using run quarantine_marks_in_place [OF flush_start_ok rows run] by simp
qed

text \<open>C14: Over every interleaving of the goroutine, enqueues, kicks, waits, inserts, a close and a cancellation,
  and however the flushes go, the queue is exactly the batches enqueued and not yet done, in seal order: a
  batch is done only when every one before it is. A wait for batch \<open>seq\<close> is answered without error only if every
  batch up to \<open>seq\<close> has left the queue and no quarantine it covers waits to be told; an error it is given is either
  that notice, which is then taken, or a failure of a cycle that ended after the wait began, of a batch it
  covers.\<close>

theorem queue_keeps_order:
  assumes "worker_run opts (NewWorker, w0) (wk, w)"
  shows "map jb_seq (wk_queue wk) = [wk_completed wk + 1 ..< wk_enqueued wk + 1]
    \<and> wk_completed wk \<le> wk_enqueued wk
    \<and> (case answer since seq wk of
         (None, wk') \<Rightarrow> wk' = wk \<and> wk_completed wk < seq
       | (Some None, wk') \<Rightarrow> wk' = wk \<and> (\<forall>j\<in>set (wk_queue wk). seq < jb_seq j)
           \<and> \<not> (wk_quarantined wk \<noteq> None \<and> wk_quarantinedSeq wk \<le> seq)
       | (Some (Some e), wk') \<Rightarrow>
           (wk_quarantined wk = Some e \<and> wk_quarantinedSeq wk \<le> seq \<and> wk_quarantined wk' = None)
           \<or> (wk_failure wk = Some e \<and> since < wk_failures wk \<and> wk_failureSeq wk \<le> seq \<and> wk' = wk))"
proof -
  have inv: "queue_inv wk"
    using queue_inv_run [OF assms] by simp
  have later: "seq < jb_seq j" if "seq \<le> wk_completed wk" "j \<in> set (wk_queue wk)" for j
  proof -
    have "map jb_seq (wk_queue wk) = [wk_completed wk + 1 ..< wk_enqueued wk + 1]"
      using inv by (simp add: queue_inv_def)
    then have "jb_seq ` set (wk_queue wk) = {wk_completed wk + 1 ..< wk_enqueued wk + 1}"
      by (metis set_map set_upt)
    then have "jb_seq j \<in> {wk_completed wk + 1 ..< wk_enqueued wk + 1}"
      using that(2) by blast
    then show ?thesis using that(1) by simp
  qed
  show ?thesis
    using inv later by (auto simp: queue_inv_def answer_def simp del: upt_Suc)
qed

definition sample_queue :: Worker where
  "sample_queue = snd (Enqueue (jb_batch flush_job) False (snd (Enqueue (jb_batch flush_job) False NewWorker)))"

theorem queue_keeps_order_witness: "map jb_seq (wk_queue sample_queue) = [1, 2]"
proof -
  have "worker_run flush_opts (NewWorker, flush_start) (sample_queue, flush_start)"
    unfolding sample_queue_def
    by (rule worker_run.more [OF worker_run.more [OF worker_run.start] worker_step.enqueue] worker_step.enqueue)+
  from queue_keeps_order [OF this] show ?thesis
    by (simp add: sample_queue_def Enqueue_def NewWorker_def)
qed

text \<open>The queue as a list of sequence numbers, and what a queue may do: take one more at the end, or let its
  first go.\<close>

definition fifo :: "Worker \<Rightarrow> nat list" where
  "fifo wk = map jb_seq (wk_queue wk)"

definition settled :: "Worker \<Rightarrow> bool" where
  "settled wk \<longleftrightarrow> (\<exists>res. wk_pc wk = Finishing res \<and> (rs_err res = None \<or> rs_quarantined res))"

lemma fifo_run_step:
  "fifo (fst (run_step opts (wk, w))) = (if settled wk then tl (fifo wk) else fifo wk)"
proof (cases "wk_pc wk")
  case Look
  have "map jb_seq (j' # js) = map jb_seq (j # js)" if "cycle opts j w1 = (res, j', w2)" for j js w1 res j' w2
    using tries_keeps that by (fastforce simp: cycle_def)
  then show ?thesis
    using Look by (auto simp: fifo_def settled_def run_step_def idle_enter_def split: prod.split list.split)
next
  case (Finishing res)
  then show ?thesis
    using run_step_queue [OF Finishing, of opts w] by (auto simp: fifo_def settled_def map_tl)
next
  case Waiting
  then show ?thesis
    by (auto simp: fifo_def settled_def run_step_def idle_wake_def split: prod.split)
next
  case Exited
  then show ?thesis
    by (simp add: fifo_def settled_def run_step_def)
qed

text \<open>C15: The worker refines a first-in first-out queue: every step of every interleaving either leaves the
  queue of sequence numbers alone, or appends the next number, or removes the first, and the last only at the end
  of a cycle that committed or quarantined its batch. A batch whose cycle failed keeps its place.\<close>

theorem worker_refines_fifo:
  assumes "worker_step opts c c'"
  shows "fifo (fst c') = fifo (fst c)
    \<or> fifo (fst c') = fifo (fst c) @ [wk_enqueued (fst c) + 1]
    \<or> (settled (fst c) \<and> fifo (fst c') = tl (fifo (fst c)))"
  using assms
proof (cases rule: worker_step.cases)
  case run
  then show ?thesis
    using fifo_run_step [of opts "fst c" "snd c"] by auto
qed (auto simp: fifo_def Enqueue_def Let_def Kick_def answer_def Worker_Close_def)

theorem worker_refines_fifo_witness: "fifo sample_queue = fifo (snd (Enqueue (jb_batch flush_job) False NewWorker)) @ [2]"
proof -
  have step: "worker_step flush_opts (snd (Enqueue (jb_batch flush_job) False NewWorker), flush_start) (sample_queue, flush_start)"
    unfolding sample_queue_def by (rule worker_step.enqueue)
  show ?thesis
    using worker_refines_fifo [OF step]
    by (auto simp: sample_queue_def fifo_def Enqueue_def NewWorker_def)
qed

end
