(* ===== verification/Poison.thy ===== *)
theory Poison
  imports FlushWorker
begin

text \<open>File \<open>poison.go\<close>: the per-field check of a bound row, before it is encoded and staged.
  \<open>utf8.ValidString\<close> of the standard library is written out over the octets of the string; what it
  decides is stated with the encoding of a code point, \<open>utf8\<close>.\<close>

section \<open>UTF-8\<close>

text \<open>The table \<open>first\<close> of the package \<open>unicode/utf8\<close>: the length a leading octet announces and the range
  of the octet after it.\<close>

definition utf8_first :: "nat \<Rightarrow> (nat \<times> nat \<times> nat) option" where
  "utf8_first b =
    (if 0xC2 \<le> b \<and> b \<le> 0xDF then Some (2, 0x80, 0xBF)
     else if b = 0xE0 then Some (3, 0xA0, 0xBF)
     else if b = 0xED then Some (3, 0x80, 0x9F)
     else if 0xE1 \<le> b \<and> b \<le> 0xEF then Some (3, 0x80, 0xBF)
     else if b = 0xF0 then Some (4, 0x90, 0xBF)
     else if 0xF1 \<le> b \<and> b \<le> 0xF3 then Some (4, 0x80, 0xBF)
     else if b = 0xF4 then Some (4, 0x80, 0x8F)
     else None)"

definition continuation :: "nat \<Rightarrow> bool" where
  "continuation c \<longleftrightarrow> 0x80 \<le> c \<and> c \<le> 0xBF"

function valid_utf8 :: "nat list \<Rightarrow> bool" where
  "valid_utf8 [] = True"
| "valid_utf8 (b # bs) =
    (if b < 0x80 then valid_utf8 bs
     else case utf8_first b of
       None \<Rightarrow> False
     | Some (n, lo, hi) \<Rightarrow>
         if Suc (length bs) < n then False
         else if bs ! 0 < lo \<or> hi < bs ! 0 then False
         else if n = 2 then valid_utf8 (drop 1 bs)
         else if \<not> continuation (bs ! 1) then False
         else if n = 3 then valid_utf8 (drop 2 bs)
         else if \<not> continuation (bs ! 2) then False
         else valid_utf8 (drop 3 bs))"
  by pat_completeness auto
termination
  by (relation "measure length") auto

declare valid_utf8.simps(2) [simp del]

definition ValidString :: "string \<Rightarrow> bool" where
  "ValidString s = valid_utf8 (map unat (bytes_of_str s))"

text \<open>The encoding of a code point, and the code points that have one.\<close>

definition utf8 :: "nat \<Rightarrow> nat list" where
  "utf8 c =
    (if c < 0x80 then [c]
     else if c < 0x800 then [0xC0 + c div 64, 0x80 + c mod 64]
     else if c < 0x10000 then [0xE0 + c div 4096, 0x80 + c div 64 mod 64, 0x80 + c mod 64]
     else [0xF0 + c div 262144, 0x80 + c div 4096 mod 64, 0x80 + c div 64 mod 64, 0x80 + c mod 64])"

definition scalar :: "nat \<Rightarrow> bool" where
  "scalar c \<longleftrightarrow> c < 0xD800 \<or> 0xDFFF < c \<and> c < 0x110000"

definition utf8_text :: "string \<Rightarrow> bool" where
  "utf8_text s \<longleftrightarrow> (\<exists>cs. list_all scalar cs \<and> map unat (bytes_of_str s) = concat (map utf8 cs))"

lemma utf8_digits: "utf8 c =
    (if c < 0x80 then [c]
     else if c < 0x800 then [0xC0 + c div 64, 0x80 + c mod 64]
     else if c < 0x10000 then [0xE0 + c div 64 div 64, 0x80 + c div 64 mod 64, 0x80 + c mod 64]
     else [0xF0 + c div 64 div 64 div 64, 0x80 + c div 64 div 64 mod 64, 0x80 + c div 64 mod 64, 0x80 + c mod 64])"
  by (simp add: utf8_def div_mult2_eq [symmetric])

lemma digit64:
  obtains q k where "c = 64 * q + k" "k < 64" "c div 64 = q" "c mod 64 = (k::nat)"
  by (rule that [of "c div 64" "c mod 64"]) simp_all

lemma digit64_simps: "k < 64 \<Longrightarrow> (64 * q + k) div 64 = q" "k < 64 \<Longrightarrow> (64 * q + k) mod 64 = (k::nat)"
  by simp_all

lemma utf8_cases:
  assumes "scalar c"
  obtains (one) "c < 0x80" "utf8 c = [c]"
  | (two) a k where "2 \<le> a" "a < 32" "k < 64" "utf8 c = [0xC0 + a, 0x80 + k]"
  | (three) a k1 k2 where "a < 16" "k1 < 64" "k2 < 64" "a = 0 \<longrightarrow> 32 \<le> k1" "a = 13 \<longrightarrow> k1 < 32"
      "utf8 c = [0xE0 + a, 0x80 + k1, 0x80 + k2]"
  | (four) a k1 k2 k3 where "a < 5" "k1 < 64" "k2 < 64" "k3 < 64" "a = 0 \<longrightarrow> 16 \<le> k1" "a = 4 \<longrightarrow> k1 < 16"
      "utf8 c = [0xF0 + a, 0x80 + k1, 0x80 + k2, 0x80 + k3]"
proof -
  obtain q k where c: "c = 64 * q + k" "k < 64" "c div 64 = q" "c mod 64 = k" by (rule digit64)
  obtain r k' where q: "q = 64 * r + k'" "k' < 64" "q div 64 = r" "q mod 64 = k'" by (rule digit64)
  obtain a k'' where r: "r = 64 * a + k''" "k'' < 64" "r div 64 = a" "r mod 64 = k''" by (rule digit64)
  note digits = utf8_digits [of c, unfolded c(3,4) q(3,4) r(3,4)]
  consider "c < 0x80" | "0x80 \<le> c" "c < 0x800" | "0x800 \<le> c" "c < 0x10000" | "0x10000 \<le> c"
    by linarith
  then show ?thesis
  proof cases
    case 1
    then show ?thesis by (intro one) (simp_all add: digits)
  next
    case 2
    then have "2 \<le> q" "q < 32"
      using c(1,2) by linarith+
    then show ?thesis
      using c(2) 2 by (intro two [of q k]) (simp_all add: digits)
  next
    case 3
    have "r < 16" "r = 0 \<longrightarrow> 32 \<le> k'" "r = 13 \<longrightarrow> k' < 32"
      using 3 c(1,2) q(1,2) assms by (auto simp: scalar_def)
    with 3 show ?thesis
      using c(2) q(2) by (intro three [of r k' k]) (simp_all add: digits)
  next
    case 4
    have "a < 5" "a = 0 \<longrightarrow> 16 \<le> k''" "a = 4 \<longrightarrow> k'' < 16"
      using 4 c(1,2) q(1,2) r(1,2) assms by (auto simp: scalar_def)
    with 4 show ?thesis
      using c(2) q(2) r(2) by (intro four [of a k'' k' k]) (simp_all add: digits)
  qed
qed

lemma valid_utf8_encode: "scalar c \<Longrightarrow> valid_utf8 (utf8 c @ bs) = valid_utf8 bs"
proof (erule utf8_cases, goal_cases)
  case 1
  then show ?case by (simp add: valid_utf8.simps(2))
next
  case (2 a k)
  then have "utf8_first (0xC0 + a) = Some (2, 0x80, 0xBF)"
    by (simp add: utf8_first_def)
  with 2 show ?case by (simp add: valid_utf8.simps(2))
next
  case (3 a k1 k2)
  then have "\<exists>lo hi. utf8_first (0xE0 + a) = Some (3, lo, hi) \<and> lo \<le> 0x80 + k1 \<and> 0x80 + k1 \<le> hi"
    by (auto simp: utf8_first_def)
  with 3 show ?case by (auto simp: valid_utf8.simps(2) [of "0xE0 + a"] continuation_def)
next
  case (4 a k1 k2 k3)
  then have "\<exists>lo hi. utf8_first (0xF0 + a) = Some (4, lo, hi) \<and> lo \<le> 0x80 + k1 \<and> 0x80 + k1 \<le> hi"
    by (auto simp: utf8_first_def)
  with 4 show ?case by (auto simp: valid_utf8.simps(2) [of "0xF0 + a"] continuation_def)
qed

lemma valid_utf8_text: "list_all scalar cs \<Longrightarrow> valid_utf8 (concat (map utf8 cs))"
proof (induction cs)
  case (Cons c cs)
  then show ?case
    using valid_utf8_encode [of c "concat (map utf8 cs)"] by (simp del: valid_utf8.simps)
qed simp

text \<open>The code point read off the octets of a sequence.\<close>

lemma utf8_1: "b < 0x80 \<Longrightarrow> \<exists>c. scalar c \<and> utf8 c = [b]"
  by (rule exI [of _ b]) (simp add: scalar_def utf8_def)

lemma continuation_offset: "continuation c \<longleftrightarrow> (\<exists>k<64. c = 0x80 + k)"
  by (auto simp: continuation_def intro!: exI [of _ "c - 0x80"])

lemma utf8_2: "0xC2 \<le> b \<Longrightarrow> b \<le> 0xDF \<Longrightarrow> continuation c1 \<Longrightarrow> \<exists>c. scalar c \<and> utf8 c = [b, c1]"
proof -
  assume b: "0xC2 \<le> b" "b \<le> 0xDF" and "continuation c1"
  then obtain k where k: "k < 64" "c1 = 0x80 + k"
    by (auto simp: continuation_offset)
  obtain a where a: "b = 0xC0 + a" "2 \<le> a" "a < 32"
    using b by (intro that [of "b - 0xC0"]) auto
  show ?thesis
    using a k by (intro exI [of _ "a * 64 + k"]) (auto simp: scalar_def utf8_def)
qed

lemma utf8_3:
  assumes "0xE0 \<le> b" "b \<le> 0xEF" "continuation c1" "continuation c2"
    "b = 0xE0 \<longrightarrow> 0xA0 \<le> c1" "b = 0xED \<longrightarrow> c1 \<le> 0x9F"
  shows "\<exists>c. scalar c \<and> utf8 c = [b, c1, c2]"
proof -
  obtain k1 k2 where k: "k1 < 64" "c1 = 0x80 + k1" "k2 < 64" "c2 = 0x80 + k2"
    using assms by (auto simp: continuation_offset)
  obtain a where a: "b = 0xE0 + a" "a < 16"
    using assms by (intro that [of "b - 0xE0"]) auto
  let ?c = "64 * (64 * a + k1) + k2"
  have range: "0x800 \<le> ?c" "?c < 0x10000"
    using a k assms(5) by auto
  have "scalar ?c"
  proof (cases "a < 13")
    case False
    then show ?thesis
      using a k assms(6) range by (cases "a = 13") (auto simp: scalar_def)
  qed (use k in \<open>simp add: scalar_def\<close>)
  moreover have "?c mod 64 = k2" "?c div 64 = 64 * a + k1"
    using k by (simp_all only: digit64_simps)
  ultimately show ?thesis
    using a k range unfolding utf8_digits by (intro exI [of _ ?c]) simp
qed

lemma utf8_4:
  assumes "0xF0 \<le> b" "b \<le> 0xF4" "continuation c1" "continuation c2" "continuation c3"
    "b = 0xF0 \<longrightarrow> 0x90 \<le> c1" "b = 0xF4 \<longrightarrow> c1 \<le> 0x8F"
  shows "\<exists>c. scalar c \<and> utf8 c = [b, c1, c2, c3]"
proof -
  obtain k1 k2 k3 where k: "k1 < 64" "c1 = 0x80 + k1" "k2 < 64" "c2 = 0x80 + k2" "k3 < 64" "c3 = 0x80 + k3"
    using assms by (auto simp: continuation_offset)
  obtain a where a: "b = 0xF0 + a" "a < 5"
    using assms by (intro that [of "b - 0xF0"]) auto
  let ?c = "64 * (64 * (64 * a + k1) + k2) + k3"
  have range: "0x10000 \<le> ?c" "?c < 0x110000"
    using a k assms(6,7) by auto
  have "?c mod 64 = k3" "?c div 64 = 64 * (64 * a + k1) + k2" "(64 * (64 * a + k1) + k2) mod 64 = k2"
    "(64 * (64 * a + k1) + k2) div 64 = 64 * a + k1"
    using k by (simp_all only: digit64_simps)
  then show ?thesis
    using a k range unfolding utf8_digits by (intro exI [of _ ?c]) (simp add: scalar_def)
qed


lemma length_ge_Suc: "Suc n \<le> length xs \<longleftrightarrow> (\<exists>y ys. xs = y # ys \<and> n \<le> length ys)"
  by (cases xs) auto

lemma valid_utf8_complete: "valid_utf8 bs \<Longrightarrow> \<exists>cs. list_all scalar cs \<and> bs = concat (map utf8 cs)"
proof (induction bs rule: valid_utf8.induct)
  case 1
  show ?case by (rule exI [of _ "[]"]) simp
next
  case (2 b bs)
  have add: "\<exists>cs. list_all scalar cs \<and> b # bs = concat (map utf8 cs)"
    if "\<exists>c. scalar c \<and> utf8 c = b # pre" "bs = pre @ post" "\<exists>cs. list_all scalar cs \<and> post = concat (map utf8 cs)"
    for pre post
  proof -
    from that obtain c cs where "scalar c" "utf8 c = b # pre" "list_all scalar cs" "post = concat (map utf8 cs)"
      by blast
    then show ?thesis
      using that(2) by (intro exI [of _ "c # cs"]) simp
  qed
  show ?case
  proof (cases "b < 0x80")
    case True
    then show ?thesis
      using "2.IH"(1) "2.prems" by (intro add [of "[]" bs] utf8_1) (simp_all add: valid_utf8.simps(2))
  next
    case False
    then obtain n lo hi where first: "utf8_first b = Some (n, lo, hi)"
      using "2.prems" by (auto simp: valid_utf8.simps(2) split: option.splits)
    note valid = "2.prems" [unfolded valid_utf8.simps(2)]
    consider "n = 2" | "n = 3" | "n = 4"
      using first by (auto simp: utf8_first_def split: if_splits)
    then show ?thesis
    proof cases
      case 1
      then obtain c1 post where bs: "bs = c1 # post"
        using valid first False by (cases bs) auto
      show ?thesis
        using valid first False 1 bs "2.IH"(2) [OF False first refl refl]
        by (intro add [of "[c1]" post] utf8_2) (auto simp: utf8_first_def continuation_def split: if_splits)
    next
      case 2
      then obtain c1 c2 post where bs: "bs = c1 # c2 # post"
        using valid first False by (cases bs; cases "tl bs") auto
      show ?thesis
        using valid first False 2 bs "2.IH"(3) [OF False first refl refl]
        by (intro add [of "[c1, c2]" post] utf8_3) (auto simp: utf8_first_def continuation_def split: if_splits)
    next
      case 3
      then obtain c1 c2 c3 post where bs: "bs = c1 # c2 # c3 # post"
        using valid first False by (cases bs; cases "tl bs"; cases "tl (tl bs)") auto
      show ?thesis
        using valid first False 3 bs "2.IH"(4) [OF False first refl refl]
        by (intro add [of "[c1, c2, c3]" post] utf8_4) (auto simp: utf8_first_def continuation_def split: if_splits)
    qed
  qed
qed

lemma ValidString_iff: "ValidString s \<longleftrightarrow> utf8_text s"
  using valid_utf8_complete [of "map unat (bytes_of_str s)"] valid_utf8_text
  by (auto simp: ValidString_def utf8_text_def)


section \<open>The check\<close>

text \<open>The table \<open>pow10\<close>: index n is the exclusive bound on an unscaled value of n digits.\<close>

definition pow10 :: "int list" where
  "pow10 = [1, 10, 100, 1000, 10000, 100000, 1000000, 10000000, 100000000, 1000000000, 10000000000,
     100000000000, 1000000000000, 10000000000000, 100000000000000, 1000000000000000,
     10000000000000000, 100000000000000000, 1000000000000000000]"

definition fitsPrecision :: "64 word \<Rightarrow> int \<Rightarrow> bool" where
  "fitsPrecision v precision =
    (if precision < 1 \<or> precision \<ge> int (length pow10) then True
     else let limit = pow10 ! nat precision in sint v > - limit \<and> sint v < limit)"

definition checkLen :: "string \<Rightarrow> Field \<Rightarrow> nat \<Rightarrow> error option" where
  "checkLen table column n =
    (if n \<le> MaxValueBytes then None else Some (NewPoisonError PoisonReasonTooLong table (fld_Name column)))"

text \<open>One iteration of the loop.\<close>

definition checkColumn :: "string \<Rightarrow> Field \<times> gvalue option \<Rightarrow> error option" where
  "checkColumn table cv =
    (case cv of (column, v) \<Rightarrow>
     case v of None \<Rightarrow> None | Some x \<Rightarrow>
       (case fld_Kind column of
          KindString \<Rightarrow>
            (case x of
               GString s \<Rightarrow>
                 (if \<not> ValidString s
                  then Some (NewPoisonError PoisonReasonInvalidUTF8 table (fld_Name column))
                  else checkLen table column (length s))
             | _ \<Rightarrow> None)
        | KindBinary \<Rightarrow> (case x of GBytes raw \<Rightarrow> checkLen table column (length raw) | _ \<Rightarrow> None)
        | KindDecimal \<Rightarrow>
            (case x of
               GInt64 n \<Rightarrow>
                 (if \<not> fitsPrecision n (fld_Precision column)
                  then Some (NewPoisonError PoisonReasonDecimalRange table (fld_Name column))
                  else None)
             | _ \<Rightarrow> None)
        | _ \<Rightarrow> None))"

definition checkPoison :: "string \<Rightarrow> Descriptor \<Rightarrow> Row \<Rightarrow> error option" where
  "checkPoison table desc row =
    (if length row \<noteq> length (d_fields desc) then None
     else first_error (checkColumn table) (zip (d_fields desc) row))"

section \<open>What it decides\<close>

lemma pow10_eq: "pow10 = map (\<lambda>n. 10 ^ n) [0..<19]"
  by (simp add: pow10_def upt_rec)

text \<open>What the check demands of a value: text of Unicode scalar values, strings and bytes the length prefix can
  address, unscaled decimals of at most the declared number of digits; nothing of any other value.\<close>

definition unpoisoned :: "Field \<Rightarrow> gvalue option \<Rightarrow> bool" where
  "unpoisoned f v = (case (fld_Kind f, v) of
      (KindString, Some (GString s)) \<Rightarrow> utf8_text s \<and> length s \<le> MaxValueBytes
    | (KindBinary, Some (GBytes b)) \<Rightarrow> length b \<le> MaxValueBytes
    | (KindDecimal, Some (GInt64 n)) \<Rightarrow> \<bar>sint n\<bar> < 10 ^ nat (fld_Precision f)
    | _ \<Rightarrow> True)"

text \<open>The Go type a column's values have.\<close>

definition go_type :: "Field \<Rightarrow> gvalue \<Rightarrow> bool" where
  "go_type f x = (case x of
      GBool _ \<Rightarrow> fld_Kind f = KindBoolean
    | GInt32 _ \<Rightarrow> fld_Kind f = KindInt
    | GInt64 _ \<Rightarrow> fld_Kind f = KindLong \<or> fld_Kind f = KindDecimal \<or> fld_Kind f = KindTimestampTz
    | GFloat32 _ \<Rightarrow> fld_Kind f = KindFloat
    | GFloat64 _ \<Rightarrow> fld_Kind f = KindDouble
    | GString _ \<Rightarrow> fld_Kind f = KindString
    | GBytes _ \<Rightarrow> fld_Kind f = KindBinary
    | GOther _ \<Rightarrow> False)"

text \<open>An instant, in milliseconds, that a file's column of microseconds in 64 bits cannot hold.\<close>

definition beyond_micros :: "Field \<Rightarrow> gvalue option \<Rightarrow> bool" where
  "beyond_micros f v = (case v of
      Some (GInt64 n) \<Rightarrow> fld_Kind f = KindTimestampTz \<and> \<bar>sint n\<bar> > 9223372036854775
    | _ \<Rightarrow> False)"

text \<open>The values a column can hold. A null in an optional column; a value of the column's Go type that is, for text,
  a sequence of encoded Unicode scalar values, for text and bytes no longer than the length prefix can address, for
  a decimal of at most the declared digits, for an instant within the microseconds of the file's column.\<close>

definition representable :: "Field \<Rightarrow> gvalue option \<Rightarrow> bool" where
  "representable f v = (case v of
      None \<Rightarrow> \<not> fld_Required f
    | Some (GString s) \<Rightarrow> fld_Kind f = KindString \<and> utf8_text s \<and> length s \<le> MaxValueBytes
    | Some (GBytes b) \<Rightarrow> fld_Kind f = KindBinary \<and> length b \<le> MaxValueBytes
    | Some (GInt64 n) \<Rightarrow> fld_Kind f = KindLong
        \<or> fld_Kind f = KindDecimal \<and> \<bar>sint n\<bar> < 10 ^ nat (fld_Precision f)
        \<or> fld_Kind f = KindTimestampTz \<and> \<bar>sint n\<bar> \<le> 9223372036854775
    | Some x \<Rightarrow> go_type f x)"

text \<open>The values that are not representable and that the check passes all the same: a null in a required column and
  a value of the wrong Go type, which its comment leaves to the binder and the encoder, and an instant out of range,
  which nothing refuses.\<close>

definition left_alone :: "Field \<Rightarrow> gvalue option \<Rightarrow> bool" where
  "left_alone f v \<longleftrightarrow> (case v of None \<Rightarrow> fld_Required f | Some x \<Rightarrow> \<not> go_type f x) \<or> beyond_micros f v"

lemma unpoisoned_iff: "unpoisoned f v \<longleftrightarrow> representable f v \<or> left_alone f v"
  by (cases v; (cases "the v")?; cases "fld_Kind f")
    (auto simp: unpoisoned_def representable_def left_alone_def go_type_def beyond_micros_def)

lemma left_alone_not: "left_alone f v \<Longrightarrow> \<not> representable f v"
  by (cases v; (cases "the v")?; cases "fld_Kind f")
    (auto simp: representable_def left_alone_def go_type_def beyond_micros_def)

text \<open>What passes the check and is encoded is representable, or is an instant out of range.\<close>

lemma unpoisoned_encoded: "unpoisoned f v \<Longrightarrow> value_fits f v \<Longrightarrow> representable f v \<or> beyond_micros f v"
  by (auto simp: unpoisoned_iff left_alone_def go_type_def value_fits_def split: option.splits gvalue.splits)

lemma representable_unpoisoned: "list_all2 representable fs row \<Longrightarrow> list_all2 unpoisoned fs row"
  by (erule list_all2_mono) (simp add: unpoisoned_iff)

definition poison_reason :: "Field \<Rightarrow> gvalue option \<Rightarrow> PoisonReason" where
  "poison_reason f v = (case v of
      Some (GString s) \<Rightarrow> if utf8_text s then PoisonReasonTooLong else PoisonReasonInvalidUTF8
    | Some (GBytes b) \<Rightarrow> PoisonReasonTooLong
    | _ \<Rightarrow> PoisonReasonDecimalRange)"

lemma fitsPrecision_iff: "1 \<le> p \<Longrightarrow> p \<le> 18 \<Longrightarrow> fitsPrecision n p \<longleftrightarrow> \<bar>sint n\<bar> < 10 ^ nat p"
  by (auto simp: fitsPrecision_def pow10_eq Let_def nat_less_iff simp del: upt_Suc)

lemma checkColumn_eq:
  assumes "fld_Kind f = KindDecimal \<Longrightarrow> 1 \<le> fld_Precision f \<and> fld_Precision f \<le> 18"
  shows "checkColumn t (f, v) =
    (if unpoisoned f v then None else Some (EPoison (PoisonError t (fld_Name f) (poison_reason f v))))"
  using assms fitsPrecision_iff [of "fld_Precision f"]
  by (auto simp: checkColumn_def unpoisoned_def poison_reason_def checkLen_def NewPoisonError_def ValidString_iff
      split: option.split gvalue.split Kind.split)

lemma descriptor_decimal:
  "descriptor_ok d \<Longrightarrow> f \<in> set (d_fields d) \<Longrightarrow> fld_Kind f = KindDecimal \<Longrightarrow>
    1 \<le> fld_Precision f \<and> fld_Precision f \<le> 18"
  using descriptor_okD(4) [of d "''''"]
  by (fastforce simp: checkField_def Let_def maxDecimalPrecision_def split: if_splits)

lemma checkColumn_ok: "descriptor_ok d \<Longrightarrow> f \<in> set (d_fields d) \<Longrightarrow> checkColumn t (f, v) =
    (if unpoisoned f v then None else Some (EPoison (PoisonError t (fld_Name f) (poison_reason f v))))"
  by (rule checkColumn_eq) (rule descriptor_decimal)

lemma checkColumn_nth:
  assumes "descriptor_ok d" "length row = length (d_fields d)" "i < length row"
  shows "checkColumn t (zip (d_fields d) row ! i) = None \<longleftrightarrow> unpoisoned (d_fields d ! i) (row ! i)"
    "checkColumn t (zip (d_fields d) row ! i) = Some e \<longleftrightarrow> \<not> unpoisoned (d_fields d ! i) (row ! i)
      \<and> e = EPoison (PoisonError t (fld_Name (d_fields d ! i)) (poison_reason (d_fields d ! i) (row ! i)))"
  using assms checkColumn_ok [OF assms(1) nth_mem] by auto

lemma checkPoison_None:
  assumes "descriptor_ok d" "length row = length (d_fields d)"
  shows "checkPoison t d row = None \<longleftrightarrow> list_all2 unpoisoned (d_fields d) row"
  using assms checkColumn_nth(1) [OF assms, of _ t]
  by (auto simp: checkPoison_def list_all2_conv_all_nth all_set_conv_all_nth)

lemma checkPoison_Some:
  assumes "descriptor_ok d" "length row = length (d_fields d)"
  shows "checkPoison t d row = Some e \<longleftrightarrow> (\<exists>i<length row.
      \<not> unpoisoned (d_fields d ! i) (row ! i)
      \<and> (\<forall>j<i. unpoisoned (d_fields d ! j) (row ! j))
      \<and> e = EPoison (PoisonError t (fld_Name (d_fields d ! i)) (poison_reason (d_fields d ! i) (row ! i))))"
  using assms(2) checkColumn_nth [OF assms, of _ t]
  by (auto simp: checkPoison_def first_error_nth)

text \<open>C17: What the poison check decides. It passes a row exactly when every value is representable in its column or
  is one of the three the check leaves alone: a null in a required column, a value of another Go type than the
  column's, an instant beyond the file's microseconds. Otherwise it names the first column whose value is neither,
  with the reason that applies. For a row with none of the three it passes exactly the rows whose values their columns
  can hold. The comment in \<open>poison.go\<close> names the first two, which the encoder refuses; the third is stored as another
  instant. The hypotheses: the shape is well formed and the row has one value per column.\<close>

theorem poison_check_exact:
  assumes "descriptor_ok d" "length row = length (d_fields d)"
  shows "(case checkPoison t d row of
      None \<Rightarrow> \<forall>i<length row. representable (d_fields d ! i) (row ! i) \<or> left_alone (d_fields d ! i) (row ! i)
    | Some e \<Rightarrow> \<exists>i<length row. \<not> representable (d_fields d ! i) (row ! i) \<and> \<not> left_alone (d_fields d ! i) (row ! i)
        \<and> (\<forall>j<i. representable (d_fields d ! j) (row ! j) \<or> left_alone (d_fields d ! j) (row ! j))
        \<and> e = EPoison (PoisonError t (fld_Name (d_fields d ! i)) (poison_reason (d_fields d ! i) (row ! i))))
    \<and> ((\<forall>i<length row. \<not> left_alone (d_fields d ! i) (row ! i)) \<longrightarrow>
        (checkPoison t d row = None \<longleftrightarrow> list_all2 representable (d_fields d) row))"
proof
  show "case checkPoison t d row of
      None \<Rightarrow> \<forall>i<length row. representable (d_fields d ! i) (row ! i) \<or> left_alone (d_fields d ! i) (row ! i)
    | Some e \<Rightarrow> \<exists>i<length row. \<not> representable (d_fields d ! i) (row ! i) \<and> \<not> left_alone (d_fields d ! i) (row ! i)
        \<and> (\<forall>j<i. representable (d_fields d ! j) (row ! j) \<or> left_alone (d_fields d ! j) (row ! j))
        \<and> e = EPoison (PoisonError t (fld_Name (d_fields d ! i)) (poison_reason (d_fields d ! i) (row ! i)))"
    using checkPoison_None [OF assms, of t] checkPoison_Some [OF assms, of t] assms(2)
    by (auto split: option.split simp: list_all2_conv_all_nth unpoisoned_iff)
  show "(\<forall>i<length row. \<not> left_alone (d_fields d ! i) (row ! i)) \<longrightarrow>
        (checkPoison t d row = None \<longleftrightarrow> list_all2 representable (d_fields d) row)"
    using checkPoison_None [OF assms, of t] assms(2) by (auto simp: list_all2_conv_all_nth unpoisoned_iff)
qed

text \<open>An unscaled value of nineteen digits in a column of eighteen.\<close>

theorem poison_check_exact_witness:
  "\<not> list_all2 representable sample_fields [Some (GInt64 7), Some (GInt64 (10 ^ 18))]
    \<and> checkPoison ''t'' sample_descriptor [Some (GInt64 7), Some (GInt64 (10 ^ 18))] \<noteq> None"
proof -
  let ?row = "[Some (GInt64 7), Some (GInt64 (10 ^ 18))]"
  have fields: "d_fields sample_descriptor = sample_fields" "length sample_fields = 2"
    by (simp_all add: sample_descriptor_def sample_fields_def)
  have "\<forall>i<2. \<not> left_alone (sample_fields ! i) (?row ! i)"
    by (auto simp: less_2_cases_iff left_alone_def go_type_def beyond_micros_def sample_fields_def)
  then have "checkPoison ''t'' sample_descriptor ?row = None \<longleftrightarrow> list_all2 representable sample_fields ?row"
    using poison_check_exact [OF sample_descriptor_ok, of ?row "''t''"] by (simp add: fields)
  moreover have "checkPoison ''t'' sample_descriptor ?row \<noteq> None"
    by (simp add: checkPoison_def sample_descriptor_def sample_fields_def checkColumn_def fitsPrecision_def pow10_def)
  ultimately show ?thesis by simp
qed

end
