(* ===== verification/Registry.thy ===== *)
theory Registry
  imports Poison
begin

text \<open>File \<open>store.go\<close>: the state a \<open>Store\<close> guards with its mutex, that is the ceiling counters, the
  registry of the tables' owners and the closed flag, with the operations that move them. The
  counters are Go's \<open>int64\<close>: the two sums that are compared with a limit wrap around as the code's
  do.\<close>

section \<open>State\<close>

text \<open>What holds a table's slot: the placeholder of a drain or of an open in progress, or a live
  writer.\<close>

datatype owner = tableClaim | liveWriter

record Store =
  sk_MaxRecords :: int
  sk_MaxBytes :: int
  sk_records :: int
  sk_bytes :: int
  sk_writers :: "TableID \<Rightarrow> owner option"
  sk_closed :: bool

section \<open>Ceiling\<close>

definition acceptBatch :: "nat \<Rightarrow> int \<Rightarrow> Store \<Rightarrow> bool \<times> Store" where
  "acceptBatch n bytes s =
    (if n = 0 then (True, s)
     else if wrap64 (sk_records s + int n) > sk_MaxRecords s \<or> wrap64 (sk_bytes s + bytes) > sk_MaxBytes s
     then (False, s)
     else (True, s\<lparr>sk_records := wrap64 (sk_records s + int n), sk_bytes := wrap64 (sk_bytes s + bytes)\<rparr>))"

definition accept :: "int \<Rightarrow> Store \<Rightarrow> bool \<times> Store" where
  "accept bytes = acceptBatch 1 bytes"

definition release :: "int \<Rightarrow> int \<Rightarrow> Store \<Rightarrow> Store" where
  "release n bytes s =
    (let r = wrap64 (sk_records s - n); b = wrap64 (sk_bytes s - bytes) in
     s\<lparr>sk_records := (if r < 0 then 0 else r), sk_bytes := (if b < 0 then 0 else b)\<rparr>)"

section \<open>Registry\<close>

definition table_in_use :: "string \<Rightarrow> string \<Rightarrow> error" where
  "table_in_use ns name = ErrWrap (''icelake: table '' @ ns @ ''.'' @ name) ErrTableInUse"

definition checkOpen :: "Store \<Rightarrow> error option" where
  "checkOpen s = (if sk_closed s then Some ErrClosed else None)"

definition attach :: "owner \<Rightarrow> string \<Rightarrow> string \<Rightarrow> Store \<Rightarrow> error option \<times> Store" where
  "attach w ns name s =
    (if sk_closed s then (Some ErrClosed, s)
     else let i = \<lparr>tid_Namespace = ns, tid_Table = name\<rparr> in
       if sk_writers s i \<noteq> None then (Some (table_in_use ns name), s)
       else (None, s\<lparr>sk_writers := (sk_writers s)(i \<mapsto> w)\<rparr>))"

definition detach :: "string \<Rightarrow> string \<Rightarrow> Store \<Rightarrow> Store" where
  "detach ns name s =
    s\<lparr>sk_writers := (sk_writers s)(\<lparr>tid_Namespace = ns, tid_Table = name\<rparr> := None)\<rparr>"

definition claimTable :: "string \<Rightarrow> string \<Rightarrow> Store \<Rightarrow> error option \<times> Store" where
  "claimTable = attach tableClaim"

definition releaseTable :: "string \<Rightarrow> string \<Rightarrow> Store \<Rightarrow> Store" where
  "releaseTable = detach"

definition swapClaim :: "owner \<Rightarrow> string \<Rightarrow> string \<Rightarrow> Store \<Rightarrow> error option \<times> Store" where
  "swapClaim w ns name s =
    (if sk_closed s then (Some ErrClosed, s)
     else (None, s\<lparr>sk_writers := (sk_writers s)(\<lparr>tid_Namespace = ns, tid_Table = name\<rparr> \<mapsto> w)\<rparr>))"

text \<open>The first critical section of \<open>Close\<close>: the closed flag, and the writers to drain.\<close>

definition Close_begin :: "Store \<Rightarrow> (error, TableID \<Rightarrow> owner option) result \<times> Store" where
  "Close_begin s =
    (if sk_closed s then (Inl ErrClosed, s)
     else (Inr (sk_writers s), s\<lparr>sk_closed := True, sk_writers := Map.empty\<rparr>))"

section \<open>Counters\<close>

text \<open>The ranges in which no sum of the counters leaves \<open>int64\<close>.\<close>

definition limits_ok :: "Store \<Rightarrow> bool" where
  "limits_ok s \<longleftrightarrow> 0 \<le> sk_records s \<and> sk_records s \<le> 2 ^ 62 \<and> 0 \<le> sk_bytes s \<and> sk_bytes s \<le> 2 ^ 62
     \<and> sk_MaxRecords s \<le> 2 ^ 62 \<and> sk_MaxBytes s \<le> 2 ^ 62"

lemma wrap64_sum: "0 \<le> x \<Longrightarrow> x \<le> 2 ^ 62 \<Longrightarrow> 0 \<le> y \<Longrightarrow> y < 2 ^ 62 \<Longrightarrow> wrap64 (x + y) = x + y"
  by (rule wrap64_id) (simp_all add: min_int64_def max_int64_def)

lemma wrap64_diff: "0 \<le> x \<Longrightarrow> x \<le> 2 ^ 62 \<Longrightarrow> 0 \<le> y \<Longrightarrow> y \<le> 2 ^ 62 \<Longrightarrow> wrap64 (x - y) = x - y"
  by (rule wrap64_id) (simp_all add: min_int64_def max_int64_def)

lemma acceptBatch_result:
  assumes "limits_ok s" "int n < 2 ^ 62" "0 \<le> b" "b < 2 ^ 62" "n = 0 \<longrightarrow> b = 0"
  shows "acceptBatch n b s =
    (if n = 0 then (True, s)
     else if sk_records s + int n \<le> sk_MaxRecords s \<and> sk_bytes s + b \<le> sk_MaxBytes s
     then (True, s\<lparr>sk_records := sk_records s + int n, sk_bytes := sk_bytes s + b\<rparr>)
     else (False, s))"
  using assms wrap64_sum [of "sk_records s" "int n"] wrap64_sum [of "sk_bytes s" b]
  by (auto simp: acceptBatch_def limits_ok_def)

lemma release_result:
  assumes "limits_ok s" "0 \<le> n" "n \<le> sk_records s" "0 \<le> b" "b \<le> sk_bytes s"
  shows "release n b s = s\<lparr>sk_records := sk_records s - n, sk_bytes := sk_bytes s - b\<rparr>"
  using assms wrap64_diff [of "sk_records s" n] wrap64_diff [of "sk_bytes s" b]
  by (auto simp: release_def limits_ok_def)

section \<open>One owner per table\<close>

text \<open>The calls that come and go at the registry, with a ledger of who was told that it holds which table:
  a claim that succeeded, a claim handed to the writer it opened, a slot given back by whoever holds
  it, and a \<open>Close\<close>.\<close>

type_synonym ledger = "(nat \<times> TableID) set"

inductive registry_step :: "Store \<times> ledger \<Rightarrow> Store \<times> ledger \<Rightarrow> bool" where
  claimed: "claimTable ns t s = (None, s') \<Longrightarrow>
    registry_step (s, h) (s', insert (actor, \<lparr>tid_Namespace = ns, tid_Table = t\<rparr>) h)"
| refused: "claimTable ns t s = (Some e, s') \<Longrightarrow> registry_step (s, h) (s', h)"
| handed: "(actor, \<lparr>tid_Namespace = ns, tid_Table = t\<rparr>) \<in> h \<Longrightarrow> swapClaim liveWriter ns t s = (r, s') \<Longrightarrow>
    registry_step (s, h) (s', h)"
| given_back: "(actor, \<lparr>tid_Namespace = ns, tid_Table = t\<rparr>) \<in> h \<Longrightarrow>
    registry_step (s, h) (releaseTable ns t s, h - {(actor, \<lparr>tid_Namespace = ns, tid_Table = t\<rparr>)})"
| closing: "Close_begin s = (r, s') \<Longrightarrow> registry_step (s, h) (s', h)"
| counted: "registry_step (s, h) (s\<lparr>sk_records := n, sk_bytes := b\<rparr>, h)"

inductive registry_run :: "Store \<times> ledger \<Rightarrow> Store \<times> ledger \<Rightarrow> bool" where
  start: "registry_run c c"
| more: "registry_run c c' \<Longrightarrow> registry_step c' c'' \<Longrightarrow> registry_run c c''"

definition registry_inv :: "Store \<times> ledger \<Rightarrow> bool" where
  "registry_inv c \<longleftrightarrow> (\<forall>a b t. (a, t) \<in> snd c \<longrightarrow> (b, t) \<in> snd c \<longrightarrow> a = b)
     \<and> (\<forall>t. sk_writers (fst c) t \<noteq> None \<longleftrightarrow> \<not> sk_closed (fst c) \<and> (\<exists>a. (a, t) \<in> snd c))"

lemma registry_inv_step: "registry_step c c' \<Longrightarrow> registry_inv c \<Longrightarrow> registry_inv c'"
proof (induction rule: registry_step.induct)
  case (claimed ns t s s' h actor)
  then show ?case
    by (auto simp: registry_inv_def claimTable_def attach_def Let_def split: if_splits)
next
  case (given_back actor ns t h s)
  then show ?case
    by (auto simp: registry_inv_def releaseTable_def detach_def)
qed (auto simp: registry_inv_def claimTable_def attach_def Let_def swapClaim_def Close_begin_def
    split: if_splits)

lemma registry_inv_run: "registry_run c c' \<Longrightarrow> registry_inv c \<Longrightarrow> registry_inv c'"
  by (induction rule: registry_run.induct) (auto intro: registry_inv_step)


definition open_store :: Store where
  "open_store = \<lparr>sk_MaxRecords = 1000, sk_MaxBytes = 4096, sk_records = 0, sk_bytes = 0,
     sk_writers = Map.empty, sk_closed = False\<rparr>"

text \<open>A table has one owner. Whatever claims, handovers, releases and closes interleave, no two callers
  are ever told at once that they hold one table's slot; while the store is open the registry names exactly
  the tables that are held, so a claim is refused, with the error that says so, exactly when somebody holds the
  table; and once the store has closed every claim answers \<open>ErrClosed\<close>.\<close>

theorem one_owner_per_table:
  assumes "registry_run (s0, {}) (s, h)" "sk_writers s0 = Map.empty"
  shows "((a, t) \<in> h \<and> (b, t) \<in> h \<longrightarrow> a = b)
    \<and> fst (claimTable ns name s) =
        (if sk_closed s then Some ErrClosed
         else if \<exists>a. (a, \<lparr>tid_Namespace = ns, tid_Table = name\<rparr>) \<in> h then Some (table_in_use ns name)
         else None)"
proof -
  have "registry_inv (s0, {})"
    using assms(2) by (simp add: registry_inv_def)
  then have "registry_inv (s, h)"
    by (rule registry_inv_run [OF assms(1)])
  then have "(a, t) \<in> h \<and> (b, t) \<in> h \<longrightarrow> a = b"
    and "\<And>t. sk_writers s t \<noteq> None \<longleftrightarrow> \<not> sk_closed s \<and> (\<exists>a. (a, t) \<in> h)"
    unfolding registry_inv_def by (simp_all only: fst_conv snd_conv) blast
  then show ?thesis
    by (simp add: claimTable_def attach_def Let_def del: not_None_eq)
qed

theorem one_owner_per_table_witness:
  "fst (claimTable ''ns'' ''t'' (snd (claimTable ''ns'' ''t'' open_store))) = Some (table_in_use ''ns'' ''t'')"
proof -
  have "claimTable ''ns'' ''t'' open_store = (None, snd (claimTable ''ns'' ''t'' open_store))"
    by (simp add: claimTable_def attach_def open_store_def)
  from registry_run.more [OF registry_run.start registry_step.claimed [OF this, where actor = 0]]
  have run: "registry_run (open_store, {}) (snd (claimTable ''ns'' ''t'' open_store),
      insert (0, \<lparr>tid_Namespace = ''ns'', tid_Table = ''t''\<rparr>) {})" .
  have "\<not> sk_closed (snd (claimTable ''ns'' ''t'' open_store))"
    by (simp add: claimTable_def attach_def open_store_def)
  then show ?thesis
    using one_owner_per_table [OF run, of 0 "\<lparr>tid_Namespace = ''ns'', tid_Table = ''t''\<rparr>" 0 "''ns''" "''t''"]
    by (simp add: open_store_def)
qed

end
