(* ===== verification/Writer.thy ===== *)
theory Writer
  imports Registry
begin

text \<open>Files \<open>writer.go\<close> and \<open>status.go\<close>: a table's writer, from the caller's record to the batch handed to
  the worker, and back through the callbacks of the worker to the ceiling counters of the store. The
  writer's mutex makes each locked section one step; \<open>sys_step\<close> interleaves them with the worker's
  goroutine, the timer's and the other writers of the store. The two front doors differ in the codec
  alone: \<open>pl_Bind\<close> and the builder of the options are parameters, \<open>pl_onAccept\<close> is the caller's hook.
  The clock is \<open>fw_now\<close>.\<close>

section \<open>State\<close>

text \<open>The thresholds of a table, \<open>resolved\<close> in \<open>config.go\<close>.\<close>

record resolved =
  rv_maxRecords :: int
  rv_maxBytes :: int
  rv_interval :: int
  rv_floor :: int

text \<open>What a writer is opened with and never changes.\<close>

record ('row, 'r) plan =
  pl_opts :: "'r Options"
  pl_settings :: resolved
  pl_Bind :: "'row \<Rightarrow> (error, Row) result"
  pl_onAccept :: "('row \<Rightarrow> error option) option"

text \<open>How far a \<open>close\<close> has come: its locked section is done, then the drain waits for a batch, then the worker is
  asked to stop, then its goroutine is awaited, then the table is given back.\<close>

datatype close_phase =
  Accepting
| Closing
| Draining nat nat
| Stopping "error option"
| Exiting "error option"
| Detached "error option"

record 'row Writer =
  wr_worker :: Worker
  wr_phase :: close_phase
  wr_timer :: bool
  wr_batch :: "FlushRow list"
  wr_batchBytes :: int
  wr_lastSealAt :: int
  wr_queuedRecords :: int
  wr_queuedBytes :: int
  wr_accepted :: nat
  wr_flushes :: nat
  wr_floorEngaged :: nat
  wr_lastCommitAt :: "int option"
  wr_lastFlushErr :: "error option"
  wr_flushTimes :: "int list"
  wr_records :: "'row list"

definition wr_closed :: "('row, 'z) Writer_scheme \<Rightarrow> bool" where
  "wr_closed w = (wr_phase w \<noteq> Accepting)"

text \<open>A writer with the store it belongs to, the world its worker acts on, and the records its caller's hook
  has been called with.\<close>

record 'row System =
  sy_store :: Store
  sy_writer :: "'row Writer"
  sy_world :: flush_world
  sy_called :: "'row list"

abbreviation sys_store :: "'row System \<Rightarrow> store" where
  "sys_store y \<equiv> fw_store (sy_world y)"

definition table_name :: "('row, 'r) plan \<Rightarrow> string" where
  "table_name p = fo_Table (pl_opts p)"

definition staging_full :: "('row, 'r) plan \<Rightarrow> error" where
  "staging_full p =
    ErrWrap (''icelake: table '' @ fo_Namespace (pl_opts p) @ ''.'' @ fo_Table (pl_opts p)) ErrStagingFull"

text \<open>A call into the staging store.\<close>

definition staging_call :: "'a op \<Rightarrow> 'row System \<Rightarrow> (error, 'a) result \<times> 'row System" where
  "staging_call m y =
    (case m (sys_store y) of (r, s) \<Rightarrow>
      (r, y\<lparr>sy_world := (sy_world y)\<lparr>fw_spool := (fw_spool (sy_world y))\<lparr>sp_store := s\<rparr>\<rparr>\<rparr>))"

section \<open>status.go\<close>

definition recentFlushes :: nat where "recentFlushes = 20"
definition recentRecords :: nat where "recentRecords = 5"

text \<open>The tail of a window no longer than \<open>n\<close>.\<close>

definition window :: "nat \<Rightarrow> 'a list \<Rightarrow> 'a list" where
  "window n xs = (if length xs > n then drop (length xs - n) xs else xs)"

definition remember :: "'row \<Rightarrow> 'row Writer \<Rightarrow> 'row Writer" where
  "remember row w = w\<lparr>wr_accepted := wr_accepted w + 1, wr_records := window recentRecords (wr_records w @ [row])\<rparr>"

definition rememberBatch :: "'row list \<Rightarrow> 'row Writer \<Rightarrow> 'row Writer" where
  "rememberBatch rows w =
    (let start = (if length rows > recentRecords then length rows - recentRecords else 0) in
     w\<lparr>wr_accepted := wr_accepted w + length rows,
       wr_records := window recentRecords (wr_records w @ drop start rows)\<rparr>)"

definition noteCommit :: "int \<Rightarrow> 'row Writer \<Rightarrow> 'row Writer" where
  "noteCommit at w = w\<lparr>wr_flushes := wr_flushes w + 1, wr_lastCommitAt := Some at,
     wr_flushTimes := window recentFlushes (wr_flushTimes w @ [at])\<rparr>"

definition cycleEnded :: "int \<Rightarrow> error option \<Rightarrow> 'row Writer \<Rightarrow> 'row Writer" where
  "cycleEnded now err w =
    (let w1 = w\<lparr>wr_lastFlushErr := err\<rparr> in if err = None then noteCommit now w1 else w1)"

definition Pending :: "('row, 'z) Writer_scheme \<Rightarrow> int \<times> int" where
  "Pending w = (int (length (wr_batch w)) + wr_queuedRecords w, wr_batchBytes w + wr_queuedBytes w)"

record 'row WriterStatus =
  ws_PendingRecords :: int
  ws_PendingBytes :: int
  ws_RecordsAccepted :: nat
  ws_FlushesCommitted :: nat
  ws_LastCommitAt :: "int option"
  ws_LastFlushErr :: "error option"
  ws_RecentFlushTimes :: "int list"
  ws_RecentRecords :: "'row list"
  ws_FlushFloorEngaged :: nat

definition Status :: "'row Writer \<Rightarrow> 'row WriterStatus" where
  "Status w = \<lparr>ws_PendingRecords = fst (Pending w), ws_PendingBytes = snd (Pending w),
     ws_RecordsAccepted = wr_accepted w, ws_FlushesCommitted = wr_flushes w,
     ws_LastCommitAt = wr_lastCommitAt w, ws_LastFlushErr = wr_lastFlushErr w,
     ws_RecentFlushTimes = wr_flushTimes w, ws_RecentRecords = wr_records w,
     ws_FlushFloorEngaged = wr_floorEngaged w\<rparr>"

section \<open>Sealing\<close>

definition sealLocked :: "int \<Rightarrow> 'row Writer \<Rightarrow> 'row Writer" where
  "sealLocked now w =
    (if wr_batch w = [] then w
     else w\<lparr>wr_queuedRecords := wr_queuedRecords w + int (length (wr_batch w)),
            wr_queuedBytes := wr_queuedBytes w + wr_batchBytes w,
            wr_batch := [], wr_batchBytes := 0, wr_lastSealAt := now,
            wr_worker := snd (Enqueue \<lparr>bt_Key = [], bt_Rows = wr_batch w\<rparr> False (wr_worker w))\<rparr>)"

definition triggerLocked :: "resolved \<Rightarrow> int \<Rightarrow> 'row Writer \<Rightarrow> 'row Writer" where
  "triggerLocked rv now w =
    (if wr_batch w = [] then w
     else if now - wr_lastSealAt w < rv_floor rv then w\<lparr>wr_floorEngaged := wr_floorEngaged w + 1\<rparr>
     else sealLocked now w)"

text \<open>The threshold check at the end of \<open>stage\<close> and \<open>stageBatch\<close>.\<close>

definition check_thresholds :: "resolved \<Rightarrow> int \<Rightarrow> 'row Writer \<Rightarrow> 'row Writer" where
  "check_thresholds rv now w =
    (if int (length (wr_batch w)) \<ge> rv_maxRecords rv \<or> wr_batchBytes w \<ge> rv_maxBytes rv
     then triggerLocked rv now w else w)"

section \<open>Insert and InsertBatch\<close>

text \<open>Binding, the poison check and encoding of one record.\<close>

definition convert :: "('row, 'r) plan \<Rightarrow> 'row \<Rightarrow> (error, bytes) result" where
  "convert p row =
    res_bind (pl_Bind p row) (\<lambda>values.
    case checkPoison (table_name p) (fo_Descriptor (pl_opts p)) values of
      Some e \<Rightarrow> Inl e
    | None \<Rightarrow> Encode (table_name p) (fo_Descriptor (pl_opts p)) values)"

definition append_row :: "('row, 'r) plan \<Rightarrow> int \<Rightarrow> bytes \<Rightarrow> AppendRow" where
  "append_row p now payload = \<lparr>ar_Namespace = fo_Namespace (pl_opts p), ar_Table = fo_Table (pl_opts p),
     ar_Descriptor = Some (fo_Descriptor (pl_opts p)), ar_Payload = payload, ar_CreatedAt = now\<rparr>"

definition stage :: "('row, 'r) plan \<Rightarrow> 'row \<Rightarrow> bytes \<Rightarrow> 'row System \<Rightarrow> error option \<times> 'row System" where
  "stage p row payload y =
    (let now = fw_now (sy_world y); n = int (length payload) in
     if wr_closed (sy_writer y) then (Some ErrClosed, y)
     else case accept n (sy_store y) of
       (False, s) \<Rightarrow> (Some (staging_full p), y\<lparr>sy_store := s\<rparr>)
     | (True, s) \<Rightarrow>
         (case staging_call (Append (append_row p now payload)) (y\<lparr>sy_store := s\<rparr>) of
            (Inl e, y1) \<Rightarrow> (Some e, y1\<lparr>sy_store := release 1 n (sy_store y1)\<rparr>)
          | (Inr i, y1) \<Rightarrow>
              (None, y1\<lparr>sy_writer := check_thresholds (pl_settings p) now (remember row
                 ((sy_writer y1)\<lparr>wr_batch := wr_batch (sy_writer y1) @ [\<lparr>frw_ID = i, frw_ByteLen = n\<rparr>],
                                 wr_batchBytes := wr_batchBytes (sy_writer y1) + n\<rparr>))\<rparr>)))"

definition stageBatch :: "('row, 'r) plan \<Rightarrow> 'row list \<Rightarrow> bytes list \<Rightarrow> 'row System \<Rightarrow>
    error option \<times> 'row System" where
  "stageBatch p rows payloads y =
    (let now = fw_now (sy_world y); tot = sum_list (map (\<lambda>b. int (length b)) payloads) in
     if wr_closed (sy_writer y) then (Some ErrClosed, y)
     else case acceptBatch (length rows) tot (sy_store y) of
       (False, s) \<Rightarrow> (Some (staging_full p), y\<lparr>sy_store := s\<rparr>)
     | (True, s) \<Rightarrow>
         (case staging_call (AppendBatch (map (append_row p now) payloads)) (y\<lparr>sy_store := s\<rparr>) of
            (Inl e, y1) \<Rightarrow> (Some e, y1\<lparr>sy_store := release (int (length rows)) tot (sy_store y1)\<rparr>)
          | (Inr ids, y1) \<Rightarrow>
              (None, y1\<lparr>sy_writer := check_thresholds (pl_settings p) now (rememberBatch rows
                 ((sy_writer y1)\<lparr>wr_batch := wr_batch (sy_writer y1)
                                   @ map2 (\<lambda>i b. \<lparr>frw_ID = i, frw_ByteLen = int (length b)\<rparr>) ids payloads,
                                 wr_batchBytes := wr_batchBytes (sy_writer y1) + tot\<rparr>))\<rparr>)))"

text \<open>The loop that converts a batch, and the error it wraps with the index of the row at fault.\<close>

fun convert_rows :: "('row, 'r) plan \<Rightarrow> int \<Rightarrow> 'row list \<Rightarrow> (error, bytes list) result" where
  "convert_rows p i [] = Inr []"
| "convert_rows p i (row # rows) =
    (case convert p row of
       Inl e \<Rightarrow> Inl (EBatch (BatchError i e))
     | Inr payload \<Rightarrow> res_bind (convert_rows p (i + 1) rows) (\<lambda>payloads. Inr (payload # payloads)))"

text \<open>The mirror hook, record by record up to the first error.\<close>

fun call_hook :: "('row, 'r) plan \<Rightarrow> 'row list \<Rightarrow> 'row System \<Rightarrow> error option \<times> 'row System" where
  "call_hook p [] y = (None, y)"
| "call_hook p (row # rows) y =
    (case pl_onAccept p of
       None \<Rightarrow> (None, y)
     | Some hook \<Rightarrow>
         (let y1 = y\<lparr>sy_called := sy_called y @ [row]\<rparr> in
          case hook row of
            Some e \<Rightarrow> (Some (EMirror (MirrorError (fo_Namespace (pl_opts p)) (fo_Table (pl_opts p)) e)), y1)
          | None \<Rightarrow> call_hook p rows y1))"

definition Insert :: "('row, 'r) plan \<Rightarrow> 'row \<Rightarrow> 'row System \<Rightarrow> error option \<times> 'row System" where
  "Insert p row y =
    (if wr_closed (sy_writer y) then (Some ErrClosed, y)
     else case convert p row of
       Inl e \<Rightarrow> (Some e, y)
     | Inr payload \<Rightarrow>
         (case stage p row payload y of
            (Some e, y1) \<Rightarrow> (Some e, y1)
          | (None, y1) \<Rightarrow> call_hook p [row] y1))"

definition InsertBatch :: "('row, 'r) plan \<Rightarrow> 'row list \<Rightarrow> 'row System \<Rightarrow> error option \<times> 'row System" where
  "InsertBatch p rows y =
    (if wr_closed (sy_writer y) then (Some ErrClosed, y)
     else if rows = [] then (None, y)
     else case convert_rows p 0 rows of
       Inl e \<Rightarrow> (Some e, y)
     | Inr payloads \<Rightarrow>
         (case stageBatch p rows payloads y of
            (Some e, y1) \<Rightarrow> (Some e, y1)
          | (None, y1) \<Rightarrow> call_hook p rows y1))"

section \<open>The worker's callbacks\<close>

text \<open>\<open>committed\<close>, \<open>quarantined\<close> and \<open>cycleEnded\<close>, as the worker's events call them.\<close>

definition wr_committed :: "int \<Rightarrow> int \<Rightarrow> 'row System \<Rightarrow> 'row System" where
  "wr_committed n b y = y\<lparr>sy_writer := (sy_writer y)\<lparr>wr_queuedRecords := wr_queuedRecords (sy_writer y) - n,
       wr_queuedBytes := wr_queuedBytes (sy_writer y) - b\<rparr>,
     sy_store := release n b (sy_store y)\<rparr>"

definition wr_quarantined :: "int \<Rightarrow> int \<Rightarrow> 'row System \<Rightarrow> 'row System" where
  "wr_quarantined n b y = y\<lparr>sy_writer := (sy_writer y)\<lparr>wr_queuedRecords := wr_queuedRecords (sy_writer y) - n,
     wr_queuedBytes := wr_queuedBytes (sy_writer y) - b\<rparr>\<rparr>"

fun callback :: "event \<Rightarrow> 'row System \<Rightarrow> 'row System" where
  "callback (EvCommitted n b) y = wr_committed n b y"
| "callback (EvQuarantined n b) y = wr_quarantined n b y"
| "callback (EvCycle err) y = y\<lparr>sy_writer := cycleEnded (fw_now (sy_world y)) err (sy_writer y)\<rparr>"
| "callback _ y = y"

text \<open>One step of the worker's goroutine, with the callbacks it made in their order.\<close>

definition run_worker :: "('row, 'r) plan \<Rightarrow> 'row System \<Rightarrow> 'row System" where
  "run_worker p y =
    (case run_step (pl_opts p) (wr_worker (sy_writer y), sy_world y) of (wk, w) \<Rightarrow>
     fold callback (drop (length (fw_log (sy_world y))) (fw_log w))
       (y\<lparr>sy_writer := (sy_writer y)\<lparr>wr_worker := wk\<rparr>, sy_world := w\<rparr>))"

section \<open>Flush, Close and the timer\<close>

text \<open>The locked section of \<open>Flush\<close>, then the batch to wait for with the kick, and then the wait, which counts
  its failures from \<open>since\<close>. Others may move between them.\<close>

definition Flush_begin :: "'row System \<Rightarrow> error option \<times> 'row System" where
  "Flush_begin y =
    (if wr_closed (sy_writer y) then (Some ErrClosed, y)
     else (None, y\<lparr>sy_writer := sealLocked (fw_now (sy_world y)) (sy_writer y)\<rparr>))"

definition wait_begin :: "'row Writer \<Rightarrow> nat \<times> 'row Writer" where
  "wait_begin w = (Sequence (wr_worker w), w\<lparr>wr_worker := Kick (wr_worker w)\<rparr>)"

definition wait_answer :: "nat \<Rightarrow> nat \<Rightarrow> 'row Writer \<Rightarrow> error option option \<times> 'row Writer" where
  "wait_answer since seq w =
    (case answer since seq (wr_worker w) of (r, k) \<Rightarrow> (r, w\<lparr>wr_worker := k\<rparr>))"

definition ctx_error :: error where
  "ctx_error = ErrOther ''context deadline exceeded''"

text \<open>The locked section of \<open>close\<close>: refused when another has begun, otherwise it seals.\<close>

definition close_begin :: "'row System \<Rightarrow> error option \<times> 'row System" where
  "close_begin y =
    (if wr_closed (sy_writer y) then (Some ErrClosed, y)
     else (None, y\<lparr>sy_writer := (sealLocked (fw_now (sy_world y)) (sy_writer y))\<lparr>wr_phase := Closing\<rparr>\<rparr>))"

text \<open>Then it stops the timer and starts to wait; its wait settles, expires or finds the worker gone; then it stops
  the worker, and once the goroutine has exited it gives the table back.\<close>

definition close_step :: "('row, 'r) plan \<Rightarrow> bool \<Rightarrow> 'row System \<Rightarrow> 'row System" where
  "close_step p expired y =
    (let w = sy_writer y in
     case wr_phase w of
       Closing \<Rightarrow>
         (case wait_begin (w\<lparr>wr_timer := False\<rparr>) of
            (seq, w1) \<Rightarrow> y\<lparr>sy_writer := w1\<lparr>wr_phase := Draining (wk_failures (wr_worker w1)) seq\<rparr>\<rparr>)
     | Draining since seq \<Rightarrow>
         (case wait_answer since seq w of
            (Some r, w1) \<Rightarrow> y\<lparr>sy_writer := w1\<lparr>wr_phase := Stopping r\<rparr>\<rparr>
          | (None, w1) \<Rightarrow>
              (if expired then y\<lparr>sy_writer := w1\<lparr>wr_phase := Stopping (Some ctx_error)\<rparr>\<rparr>
               else if wk_pc (wr_worker w1) = Exited
               then y\<lparr>sy_writer := w1\<lparr>wr_phase := Stopping (Some (ErrOther ''context canceled''))\<rparr>\<rparr>
               else y\<lparr>sy_writer := w1\<rparr>))
     | Stopping r \<Rightarrow> y\<lparr>sy_writer := w\<lparr>wr_worker := Worker_Close (wr_worker w), wr_phase := Exiting r\<rparr>\<rparr>
     | Exiting r \<Rightarrow>
         (if wk_pc (wr_worker w) = Exited
          then y\<lparr>sy_writer := w\<lparr>wr_phase := Detached r\<rparr>,
                 sy_store := detach (fo_Namespace (pl_opts p)) (fo_Table (pl_opts p)) (sy_store y)\<rparr>
          else if expired then y\<lparr>sy_world := (sy_world y)\<lparr>fw_ctx := [True]\<rparr>\<rparr>
          else y)
     | _ \<Rightarrow> y)"

text \<open>One tick of \<open>runTimer\<close>.\<close>

definition runTimer :: "('row, 'r) plan \<Rightarrow> 'row System \<Rightarrow> 'row System" where
  "runTimer p y =
    (if \<not> wr_timer (sy_writer y) then y
     else let w = (if wr_closed (sy_writer y) then sy_writer y
                   else triggerLocked (pl_settings p) (fw_now (sy_world y)) (sy_writer y)) in
       y\<lparr>sy_writer := w\<lparr>wr_worker := Kick (wr_worker w)\<rparr>\<rparr>)"

section \<open>Opening on staged rows\<close>

definition flush_row_of :: "PendingRow \<Rightarrow> FlushRow" where
  "flush_row_of r = \<lparr>frw_ID = pr_ID r, frw_ByteLen = pr_ByteLen r\<rparr>"

fun replay :: "PendingBatch list \<Rightarrow> 'row Writer \<Rightarrow> 'row Writer" where
  "replay [] w = w"
| "replay (b # bs) w =
    (let rows = map flush_row_of (pb_Rows b); bytes = sum_list (map pr_ByteLen (pb_Rows b)) in
     replay bs
      (if pb_Key b = [] then w\<lparr>wr_batch := wr_batch w @ rows, wr_batchBytes := wr_batchBytes w + bytes\<rparr>
       else w\<lparr>wr_queuedRecords := wr_queuedRecords w + int (length rows),
              wr_queuedBytes := wr_queuedBytes w + bytes,
              wr_worker := snd (Enqueue \<lparr>bt_Key = pb_Key b, bt_Rows = rows\<rparr> True (wr_worker w))\<rparr>))"

text \<open>\<open>pendingFor\<close>: a fresh pass over staging, and this table's share of it.\<close>

definition pendingFor :: "string \<Rightarrow> string \<Rightarrow> PendingBatch list op" where
  "pendingFor ns name = op_bind Scan (\<lambda>index. op_ret (fst (Claim ns name index)))"

text \<open>The loop of \<open>checkPendingShapes\<close> over the pending rows, with the shapes it has seen.\<close>

fun check_shapes :: "string \<Rightarrow> Descriptor \<Rightarrow> string list \<Rightarrow> PendingRow list \<Rightarrow> unit op" where
  "check_shapes name current seen [] = op_ret ()"
| "check_shapes name current seen (r # rs) =
    (if pr_SchemaFP r = d_fp current \<or> pr_SchemaFP r \<in> set seen
     then check_shapes name current seen rs
     else
       op_bind (Schema (pr_SchemaFP r)) (\<lambda>recorded.
       op_bind (op_lift (case CompatibleShapes name recorded current of Some e \<Rightarrow> Inl e | None \<Rightarrow> Inr ())) (\<lambda>_.
       check_shapes name current (pr_SchemaFP r # seen) rs)))"

definition checkPendingShapes :: "string \<Rightarrow> Descriptor \<Rightarrow> PendingBatch list \<Rightarrow> unit op" where
  "checkPendingShapes name current pending = check_shapes name current [] (concat (map pb_Rows pending))"

text \<open>The writer \<open>openWriter\<close> builds, before the replay.\<close>

definition new_writer :: "int \<Rightarrow> 'row Writer" where
  "new_writer now = \<lparr>wr_worker = NewWorker, wr_phase = Accepting, wr_timer = True, wr_batch = [], wr_batchBytes = 0,
     wr_lastSealAt = now, wr_queuedRecords = 0, wr_queuedBytes = 0, wr_accepted = 0, wr_flushes = 0,
     wr_floorEngaged = 0, wr_lastCommitAt = None, wr_lastFlushErr = None, wr_flushTimes = [], wr_records = []\<rparr>"

section \<open>The writer among its callers and goroutines\<close>

text \<open>A slice and its bytes are in memory, so their sizes stay far below \<open>int64\<close>.\<close>

definition in_memory :: "bytes list \<Rightarrow> bool" where
  "in_memory payloads \<longleftrightarrow> int (length payloads) < 2 ^ 62 \<and> sum_list (map (\<lambda>b. int (length b)) payloads) < 2 ^ 62"

text \<open>\<open>inserted\<close> and \<open>batch_inserted\<close> are the locked halves of the two inserts, which may land long after
  their records were converted. The other writers of the store charge the ceiling and give back what
  they charged, at most what the counters hold beyond this writer's pending records, and work on their
  own tables' rows of the staging database.\<close>

inductive sys_step :: "('row, 'r) plan \<Rightarrow> 'row System \<Rightarrow> 'row System \<Rightarrow> bool" for p where
  worker: "sys_step p y (run_worker p y)"
| timer: "sys_step p y (runTimer p y)"
| inserted: "convert p row = Inr payload \<Longrightarrow> in_memory [payload] \<Longrightarrow> stage p row payload y = (r, y') \<Longrightarrow> sys_step p y y'"
| batch_inserted: "convert_rows p 0 rows = Inr payloads \<Longrightarrow> rows \<noteq> [] \<Longrightarrow> in_memory payloads \<Longrightarrow>
    stageBatch p rows payloads y = (r, y') \<Longrightarrow> sys_step p y y'"
| hooked: "call_hook p rows y = (r, y') \<Longrightarrow> sys_step p y y'"
| flush: "Flush_begin y = (r, y') \<Longrightarrow> sys_step p y y'"
| wait_began: "sys_step p y (y\<lparr>sy_writer := snd (wait_begin (sy_writer y))\<rparr>)"
| waited: "sys_step p y (y\<lparr>sy_writer := snd (wait_answer since seq (sy_writer y))\<rparr>)"
| close: "close_begin y = (r, y') \<Longrightarrow> sys_step p y y'"
| closing: "sys_step p y (close_step p expired y)"
| clock: "fw_now (sy_world y) \<le> t \<Longrightarrow> sys_step p y (y\<lparr>sy_world := (sy_world y)\<lparr>fw_now := t\<rparr>\<rparr>)"
| cancelled: "sys_step p y (y\<lparr>sy_world := (sy_world y)\<lparr>fw_ctx := [True]\<rparr>\<rparr>)"
| others_accept: "0 < n \<Longrightarrow> int n < 2 ^ 62 \<Longrightarrow> 0 \<le> b \<Longrightarrow> b < 2 ^ 62 \<Longrightarrow>
    sys_step p y (y\<lparr>sy_store := snd (acceptBatch n b (sy_store y))\<rparr>)"
| others_release: "0 \<le> n \<Longrightarrow> n \<le> sk_records (sy_store y) - fst (Pending (sy_writer y)) \<Longrightarrow> 0 \<le> b \<Longrightarrow>
    b \<le> sk_bytes (sy_store y) - snd (Pending (sy_writer y)) \<Longrightarrow>
    sys_step p y (y\<lparr>sy_store := release n b (sy_store y)\<rparr>)"
| others_staging: "staging_step (sys_store y) s \<Longrightarrow>
    filter (in_table (fo_Namespace (pl_opts p)) (fo_Table (pl_opts p))) (db_staging (st_db s))
      = filter (in_table (fo_Namespace (pl_opts p)) (fo_Table (pl_opts p))) (db_staging (st_db (sys_store y))) \<Longrightarrow>
    sys_step p y (y\<lparr>sy_world := (sy_world y)\<lparr>fw_spool := (fw_spool (sy_world y))\<lparr>sp_store := s\<rparr>\<rparr>\<rparr>)"

inductive sys_run :: "('row, 'r) plan \<Rightarrow> 'row System \<Rightarrow> 'row System \<Rightarrow> bool" for p where
  start: "sys_run p y y"
| more: "sys_run p y y' \<Longrightarrow> sys_step p y' y'' \<Longrightarrow> sys_run p y y''"

end
