(* ===== verification/WriterLog.thy ===== *)
theory WriterLog
  imports Writer
begin

text \<open>What a worker tells its writer: over one cycle exactly one callback about the batch, and the right
  one. \<open>says es m\<close>: the operation, when it succeeds, adds the events \<open>es\<close> to the log, among the events the
  writer listens to; when it fails it adds none.\<close>

section \<open>Events of an operation\<close>

fun counted :: "event \<Rightarrow> bool" where
  "counted (EvCommitted n b) = True"
| "counted (EvQuarantined n b) = True"
| "counted (EvCycle e) = True"
| "counted _ = False"

definition adds :: "flush_world \<Rightarrow> flush_world \<Rightarrow> event list \<Rightarrow> bool" where
  "adds w w' es \<longleftrightarrow> (\<exists>ds. fw_log w' = fw_log w @ ds \<and> filter counted ds = es)"

lemma adds_refl [simp]: "fw_log w' = fw_log w \<Longrightarrow> adds w w' es \<longleftrightarrow> es = []"
  by (auto simp: adds_def)

lemma adds_trans: "adds w w1 es \<Longrightarrow> adds w1 w2 fs \<Longrightarrow> adds w w2 (es @ fs)"
  unfolding adds_def by (elim exE conjE, rule_tac x = "ds @ dsa" in exI) simp

lemma adds_emit: "adds w w1 es \<Longrightarrow> adds w (emit ev w1) (es @ (if counted ev then [ev] else []))"
  by (rule adds_trans) (auto simp: adds_def emit_def)

definition says :: "event list \<Rightarrow> 'a fop \<Rightarrow> bool" where
  "says es m \<longleftrightarrow> (\<forall>w r w'. m w = (r, w') \<longrightarrow> adds w w' (case r of Inl _ \<Rightarrow> [] | Inr _ \<Rightarrow> es))"

named_theorems says_intros \<open>events of the flush operations\<close>

lemma saysI: "(\<And>w r w'. m w = (r, w') \<Longrightarrow> adds w w' (case r of Inl _ \<Rightarrow> [] | Inr _ \<Rightarrow> es)) \<Longrightarrow> says es m"
  by (simp add: says_def)

lemma saysD: "says es m \<Longrightarrow> m w = (r, w') \<Longrightarrow> adds w w' (case r of Inl _ \<Rightarrow> [] | Inr _ \<Rightarrow> es)"
  by (simp add: says_def)

lemma says_quietD: "says [] m \<Longrightarrow> m w = (r, w') \<Longrightarrow> adds w w' []"
  using saysD [of "[]" m w r w'] by (simp split: sum.splits)

lemma says_bind [says_intros]:
  assumes "says [] m" "\<And>x. says es (f x)"
  shows "says es (fl_bind m f)"
proof (rule saysI)
  fix w r w' assume run: "fl_bind m f w = (r, w')"
  obtain r1 w1 where m: "m w = (r1, w1)" by (cases "m w")
  note a = says_quietD [OF assms(1) m]
  show "adds w w' (case r of Inl _ \<Rightarrow> [] | Inr _ \<Rightarrow> es)"
  proof (cases r1)
    case (Inl e)
    then show ?thesis using run m a by (auto simp: fl_bind_def)
  next
    case (Inr x)
    then show ?thesis
      using run m adds_trans [OF a saysD [OF assms(2)]] by (simp add: fl_bind_def)
  qed
qed

lemma says_ret [says_intros]: "says [] (fl_ret x)"
  by (auto simp: says_def fl_ret_def)

lemma says_lift [says_intros]: "says [] (fl_lift mark r)"
  by (auto simp: says_def fl_lift_def split: sum.splits)

lemma says_spool_op [says_intros]: "says [] (spool_op m)"
  by (auto simp: says_def spool_op_def split: prod.splits sum.splits)

lemma says_staging_op [says_intros]: "says [] (staging_op m)"
  unfolding staging_op_def by (rule says_spool_op)

lemma says_ext: "(\<And>w. adds w (eff w) []) \<Longrightarrow> says [] (ext_call eff)"
proof -
  assume eff: "\<And>w. adds w (eff w) []"
  have "adds w (w\<lparr>fw_ext := x\<rparr>) []" for w x
    by simp
  from adds_trans [OF this eff] have "adds w (eff (w\<lparr>fw_ext := x\<rparr>)) []" for w x
    by simp
  then show ?thesis
    by (intro saysI) (auto simp: ext_call_def split: list.splits ext.splits sum.splits)
qed

lemma says_ext_id [says_intros]: "says [] (ext_call id)"
  by (rule says_ext) simp

lemma says_for [says_intros]: "(\<And>x. says [] (f x)) \<Longrightarrow> says [] (fl_for f xs)"
  by (induction xs) (auto intro: says_intros)

lemma says_if [says_intros]: "says es m \<Longrightarrow> says es n \<Longrightarrow> says es (if c then m else n)"
  by simp

section \<open>One attempt\<close>

lemma says_descriptor [says_intros]: "says [] (descriptor fp)"
proof (rule saysI)
  fix w r w' assume run: "descriptor fp w = (r, w')"
  have "adds w w' []"
    using run says_quietD [OF says_staging_op [of "Schema fp"], of w]
    by (auto simp: descriptor_def fl_bind_def adds_def split: option.splits prod.splits sum.splits)
  then show "adds w w' (case r of Inl _ \<Rightarrow> [] | Inr _ \<Rightarrow> [])" by (cases r) auto
qed

lemma says_prepare [says_intros]: "says [] (prepare opts b)"
  unfolding prepare_def Let_def decode_sealed_def recode_row_def by (intro says_intros)

lemma says_encode_batch [says_intros]: "says [] (encode_batch opts key rows)"
proof -
  have em: "adds w (emit (EvMirror key) w) []" for w
    using adds_emit [of w w "[]" "EvMirror key"] by simp
  have call: "adds w w' []" if "ext_call (emit (EvMirror key)) w = (r, w')" for w r w'
    by (rule says_quietD [OF says_ext [OF em] that])
  have "adds w (mirror opts key rec w) []" for w rec
  proof -
    obtain r w1 where c: "ext_call (emit (EvMirror key)) w = (r, w1)" by (metis prod.collapse)
    have "adds w (emit (EvClickHouseError e) w1) []" for e
      using adds_emit [OF call [OF c], of "EvClickHouseError e"] by simp
    then show ?thesis
      using call [OF c] c by (auto simp: mirror_def split: sum.split flush_fail.split)
  qed
  then have "says [] (\<lambda>w. (Inr body, mirror opts key rec w))" for body rec
    by (auto simp: says_def)
  then show ?thesis
    unfolding encode_batch_def by (intro says_intros)
qed

lemma says_spool_write [says_intros]: "says [] (spool_write opts key body)"
  using says_quietD [OF says_spool_op] by (auto simp: says_def spool_write_def split: sum.splits if_splits)

lemma says_markSpooled [says_intros]: "says [] (markSpooled opts key)"
  using says_quietD [OF says_spool_op] by (auto simp: says_def markSpooled_def split: sum.splits if_splits)

lemma says_upload [says_intros]: "says [] (upload opts key body)"
  unfolding upload_def by (rule says_ext) simp


lemma adds_land_commit: "adds w (land_commit uri w) []"
  by (simp add: land_commit_def)

lemma says_AddFile [says_intros]: "says [] (AddFile uri)"
proof -
  have "says [] (\<lambda>w. if fw_table w \<noteq> fw_catalog w \<and> (\<forall>e l r. fw_ext w \<noteq> ExtFail e l # r)
      then (Inl (Failed commit_conflict), w\<lparr>fw_ext := tl (fw_ext w)\<rparr>)
      else fl_bind (ext_call (land_commit uri)) (\<lambda>_ w'. (Inr (fw_catalog w'), w')) w)"
  proof (rule saysI)
    fix w r w'
    assume run: "(if fw_table w \<noteq> fw_catalog w \<and> (\<forall>e l r. fw_ext w \<noteq> ExtFail e l # r)
      then (Inl (Failed commit_conflict), w\<lparr>fw_ext := tl (fw_ext w)\<rparr>)
      else fl_bind (ext_call (land_commit uri)) (\<lambda>_ w'. (Inr (fw_catalog w'), w')) w) = (r, w')"
    obtain q w1 where c: "ext_call (land_commit uri) w = (q, w1)" by (metis prod.collapse)
    have "adds w w1 []"
      by (rule says_quietD [OF says_ext [OF adds_land_commit] c])
    then have "adds w w' []"
      using run c by (auto simp: fl_bind_def split: if_splits sum.splits)
    then show "adds w w' (case r of Inl _ \<Rightarrow> [] | Inr _ \<Rightarrow> [])" by (cases r) auto
  qed
  then show ?thesis
    unfolding AddFile_def by (intro says_bind says_ext_id)
qed

lemma says_commit [says_intros]: "says [] (commit opts key)"
proof (rule saysI)
  fix w r w' assume run: "commit opts key w = (r, w')"
  obtain q w1 where a: "AddFile (dataURI opts key) w = (q, w1)" by (metis prod.collapse)
  obtain q2 w2 where e: "ext_call id w1 = (q2, w2)" by (metis prod.collapse)
  have "adds w w1 []" "adds w1 w2 []"
    using says_quietD [OF says_AddFile a] says_quietD [OF says_ext_id e] by auto
  then have "adds w w1 []" "adds w w2 []"
    using adds_trans by fastforce+
  then have "adds w w' []"
    using run a e by (auto simp: commit_def refresh_def adds_def split: sum.splits if_splits)
  then show "adds w w' (case r of Inl _ \<Rightarrow> [] | Inr _ \<Rightarrow> [])" by (cases r) auto
qed

lemma says_walk_entries [says_intros]: "says [] (walk_entries want es)"
  by (induction want es rule: walk_entries.induct) (auto intro!: says_intros)

lemma says_walk_manifests [says_intros]: "says [] (walk_manifests want ms)"
  by (induction ms) (auto intro!: says_intros)

lemma says_alreadyCommitted [says_intros]: "says [] (alreadyCommitted opts key)"
proof -
  have walk: "says [] (fl_bind (ext_call id) (\<lambda>_. fl_bind (ext_call id) (\<lambda>_. walk_manifests want ms)))" for want ms
    by (intro says_intros)
  show ?thesis
    unfolding alreadyCommitted_def AlreadyCommitted_def
    by (rule saysI) (auto split: option.splits sum.splits dest!: saysD [OF walk])
qed

lemma says_prune [says_intros]: "says [] (prune ids)"
  unfolding prune_def by (intro says_intros)

abbreviation told :: "job \<Rightarrow> event list" where
  "told j \<equiv> [EvCommitted (Records (jb_batch j)) (Bytes (jb_batch j))]"

lemma says_committed: "says (told j) (committed j)"
  by (auto simp: says_def committed_def adds_def emit_def)

lemma says_finish_commit: "says (told j) (finish_commit opts j key ids)"
  unfolding finish_commit_def by (intro says_bind says_committed says_intros)

lemma says_deliver: "says (told j) (deliver opts j key rows ids)"
  unfolding deliver_def
  by (intro says_bind says_if says_committed says_finish_commit says_intros)

lemma says_attempt: "says (told j) (attempt opts j key rows ids)"
  unfolding attempt_def by (intro says_bind says_if says_finish_commit says_deliver says_intros)

lemma process_adds:
  assumes "process opts j w = ((kind, err), j', w')"
  shows "adds w w' (if kind = failureNone then told j else [])"
proof -
  obtain r w1 where prep: "prepare opts (jb_batch j) w = (r, w1)" by (metis prod.collapse)
  note a = says_quietD [OF says_prepare prep]
  show ?thesis
  proof (cases r)
    case (Inl f)
    then show ?thesis
      using assms prep a by (auto simp: process_def dest: fail_result)
  next
    case (Inr x)
    obtain key rows ids where x: "x = (key, rows, ids)" by (cases x) auto
    let ?j = "j\<lparr>jb_batch := (jb_batch j)\<lparr>bt_Key := key\<rparr>\<rparr>"
    obtain q w2 where att: "attempt opts ?j key rows ids w1 = (q, w2)" by (metis prod.collapse)
    have "Records ((jb_batch j)\<lparr>bt_Key := key\<rparr>) = Records (jb_batch j)"
        "Bytes ((jb_batch j)\<lparr>bt_Key := key\<rparr>) = Bytes (jb_batch j)"
      by (simp_all add: Records_def Bytes_def)
    then have "adds w w2 (case q of Inl _ \<Rightarrow> [] | Inr _ \<Rightarrow> told j)"
      using adds_trans [OF a saysD [OF says_attempt att]] by (cases q) simp_all
    then show ?thesis
      using assms prep Inr x att by (cases q) (auto simp: process_def Let_def dest: fail_result)
  qed
qed


section \<open>One cycle\<close>

text \<open>What the writer hears of the batch over a cycle that ended in \<open>res\<close>.\<close>

definition news :: "flush_result \<Rightarrow> Batch \<Rightarrow> event list" where
  "news res b =
    (if rs_err res = None then [EvCommitted (Records b) (Bytes b)]
     else if rs_quarantined res then [EvQuarantined (Records b) (Bytes b)] else [])"

lemma news_rows: "bt_Rows b = bt_Rows b' \<Longrightarrow> news res b = news res b'"
  by (simp add: news_def Records_def Bytes_def)

lemma quarantine_adds:
  assumes "quarantine opts j cause w = (res, w')"
  shows "adds w w' (news res (jb_batch j))"
proof -
  obtain r w1 where q: "staging_op (Quarantine (map frw_ID (bt_Rows (jb_batch j))) (fw_now w) (fo_text opts cause)) w = (r, w1)"
    by (metis prod.collapse)
  have a: "adds w w1 []"
    by (rule says_quietD [OF says_staging_op q])
  show ?thesis
    using assms q a adds_emit [OF a, of "EvQuarantined (Records (jb_batch j)) (Bytes (jb_batch j))"]
    by (auto simp: quarantine_def news_def split: sum.splits)
qed

lemma ctx_done_adds: "ctx_done w = (c, w') \<Longrightarrow> adds w w' []"
  by (auto simp: ctx_done_def split: list.splits bool.splits)

lemma jitter_adds: "jitter w = (u, w') \<Longrightarrow> adds w w' []"
  by (auto simp: jitter_def split: list.splits)

lemma Sleep_adds: "Sleep d w = (c, w') \<Longrightarrow> adds w w' []"
  using adds_trans [OF adds_emit [of w w "[]" "EvSleep d"] ctx_done_adds [of "emit (EvSleep d) w" c w']]
  by (simp add: Sleep_def)

lemma tries_adds: "tries opts j w = (res, j', w') \<Longrightarrow> adds w w' (news res (jb_batch j))"
proof (induction "nat (attempts (fo_Retry opts) - jb_attempts j)" arbitrary: j w rule: less_induct)
  case less
  obtain kind err j1 w1 where run: "process opts (j\<lparr>jb_attempts := jb_attempts j + 1\<rparr>) w = ((kind, err), j1, w1)"
    by (metis prod.collapse)
  note keep = process_keeps [OF run]
  have same: "news r (jb_batch j1) = news r (jb_batch j)" for r
    using keep by (intro news_rows) simp
  note a = process_adds [OF run]
  show ?case
  proof (cases kind)
    case failureNone
    then show ?thesis
      using less.prems run a by (auto simp: tries.simps [of opts j w] news_def)
  next
    case failureEncode
    obtain r w2 where q: "quarantine opts (j1\<lparr>jb_attempted := True\<rparr>) (the err) w1 = (r, w2)"
      by (metis prod.collapse)
    have "res = r" "w' = w2"
      using less.prems run failureEncode q by (simp_all add: tries.simps [of opts j w])
    then show ?thesis
      using adds_trans [OF _ quarantine_adds [OF q], of w "[]"] a failureEncode same by simp
  next
    case failureTransient
    then have a1: "adds w w1 []" using a by simp
    have err: "err \<noteq> None"
      using run failureTransient by (auto simp: process_def Let_def split: prod.splits sum.splits dest: fail_result)
    obtain c w2 where c: "ctx_done w1 = (c, w2)" by (metis prod.collapse)
    let ?draw = "if ceiling (fo_Retry opts) (jb_attempts j1) \<le> 0 then (None, w2) else jitter w2"
    obtain u w3 where u: "?draw = (u, w3)" by (metis prod.collapse)
    obtain i w4 where sl: "Sleep (delay (fo_Retry opts) (jb_attempts j1) u) w3 = (i, w4)" by (metis prod.collapse)
    have a2: "adds w w2 []"
      using adds_trans [OF a1 ctx_done_adds [OF c]] by simp
    have "adds w2 w3 []"
      using u jitter_adds by (auto split: if_splits)
    then have a4: "adds w w4 []"
      using adds_trans [OF adds_trans [OF a2] Sleep_adds [OF sl]] by fastforce
    have silent: "news \<lparr>rs_err = err, rs_quarantined = False, rs_report = report\<rparr> b = []" for report b
      using err by (simp add: news_def)
    consider (stop) report w5 where "adds w w5 []" "w' = w5" "res = \<lparr>rs_err = err, rs_quarantined = False, rs_report = report\<rparr>"
      | (again) "jb_attempts j + 1 < attempts (fo_Retry opts)"
        "tries opts (j1\<lparr>jb_attempted := True\<rparr>) w4 = (res, j', w')"
      using less.prems run failureTransient c a2 a4 u sl keep
      by (cases c; cases "jb_attempts j1 \<ge> attempts (fo_Retry opts)"; cases i)
        (auto simp: tries.simps [of opts j w] Let_def split: if_splits)
    then show ?thesis
    proof cases
      case stop
      then show ?thesis using silent by simp
    next
      case again
      have "adds w4 w' (news res (jb_batch (j1\<lparr>jb_attempted := True\<rparr>)))"
        using again keep by (intro less.hyps) auto
      then show ?thesis
        using adds_trans [OF a4] same by fastforce
    qed
  qed
qed

lemma cycle_adds: "cycle opts j w = (res, j', w') \<Longrightarrow> adds w w' (news res (jb_batch j))"
  using tries_adds by (fastforce simp: cycle_def)

end
