(* ===== verification/WriterProps.thy ===== *)
theory WriterProps
  imports WriterLog
begin

text \<open>What the writer keeps: its pending counts are exactly the rows it holds, the store's counters cover
  them and stay under the ceiling, a wait that ends well leaves none of the rows it covered, and an
  insert is all or nothing.\<close>

section \<open>The rows a writer holds\<close>

text \<open>The head of the queue is settled between its last callback and the moment it leaves the queue.\<close>

definition unsettled :: "Worker \<Rightarrow> job list" where
  "unsettled wk = (if settled wk then tl (wk_queue wk) else wk_queue wk)"

abbreviation job_rows :: "job \<Rightarrow> FlushRow list" where
  "job_rows j \<equiv> bt_Rows (jb_batch j)"

definition queued_rows :: "Worker \<Rightarrow> FlushRow list" where
  "queued_rows wk = concat (map job_rows (unsettled wk))"

abbreviation row_bytes :: "FlushRow list \<Rightarrow> int" where
  "row_bytes rows \<equiv> sum_list (map frw_ByteLen rows)"

text \<open>The counters of a writer describe its rows, and the sizes are sizes.\<close>

definition tallied :: "'row Writer \<Rightarrow> bool" where
  "tallied w \<longleftrightarrow> queue_inv (wr_worker w)
     \<and> wr_batchBytes w = row_bytes (wr_batch w)
     \<and> wr_queuedRecords w = int (length (queued_rows (wr_worker w)))
     \<and> wr_queuedBytes w = row_bytes (queued_rows (wr_worker w))
     \<and> (\<forall>r\<in>set (wr_batch w) \<union> set (queued_rows (wr_worker w)). 0 \<le> frw_ByteLen r)"

text \<open>The store's counters cover them.\<close>

definition covered :: "'row System \<Rightarrow> bool" where
  "covered y \<longleftrightarrow> limits_ok (sy_store y) \<and> fst (Pending (sy_writer y)) \<le> sk_records (sy_store y)
     \<and> snd (Pending (sy_writer y)) \<le> sk_bytes (sy_store y)"

definition accounts :: "'row System \<Rightarrow> bool" where
  "accounts y \<longleftrightarrow> tallied (sy_writer y) \<and> covered y"

lemma row_bytes_nonneg: "\<forall>r\<in>set rows. 0 \<le> frw_ByteLen r \<Longrightarrow> 0 \<le> row_bytes rows"
  by (intro sum_list_nonneg) auto

lemma tallied_Pending:
  assumes "tallied w"
  shows "Pending w = (int (length (wr_batch w @ queued_rows (wr_worker w))), row_bytes (wr_batch w @ queued_rows (wr_worker w)))"
    "0 \<le> wr_queuedRecords w" "0 \<le> wr_queuedBytes w" "0 \<le> wr_batchBytes w"
  using assms row_bytes_nonneg [of "wr_batch w"] row_bytes_nonneg [of "queued_rows (wr_worker w)"]
  by (simp_all add: tallied_def Pending_def)

text \<open>Moves of the worker that leave its queue alone.\<close>

lemma settled_same: "wk_pc k' = wk_pc k \<Longrightarrow> settled k' = settled k"
  by (simp add: settled_def)

lemma queued_rows_same:
  "wk_queue k' = wk_queue k \<Longrightarrow> wk_pc k' = wk_pc k \<Longrightarrow> queued_rows k' = queued_rows k"
  using settled_same [of k' k] by (simp add: queued_rows_def unsettled_def)

lemma queued_rows_moves [simp]:
  "queued_rows (Kick k) = queued_rows k" "queued_rows (snd (answer since seq k)) = queued_rows k"
  "queued_rows (Worker_Close k) = queued_rows k"
  by (auto intro!: queued_rows_same simp: Kick_def Worker_Close_def answer_def)

lemma queue_inv_moves: "queue_inv k \<Longrightarrow> queue_inv (Kick k)" "queue_inv k \<Longrightarrow> queue_inv (Worker_Close k)"
  by (simp_all add: queue_inv_def Kick_def Worker_Close_def)

lemma queued_rows_Enqueue:
  assumes "queue_inv k"
  shows "queued_rows (snd (Enqueue b replayed k)) = queued_rows k @ bt_Rows b"
proof -
  have "settled k \<Longrightarrow> wk_queue k \<noteq> []"
    using assms by (auto simp: settled_def queue_inv_def)
  moreover have "settled (snd (Enqueue b replayed k)) = settled k"
    by (rule settled_same) (simp add: Enqueue_def Let_def)
  ultimately show ?thesis
    by (simp add: queued_rows_def unsettled_def Enqueue_def Let_def)
qed

lemma queued_rows_NewWorker [simp]: "queued_rows NewWorker = []"
  by (simp add: queued_rows_def unsettled_def NewWorker_def)

section \<open>Local moves\<close>

text \<open>Sealing hands the batch over: the same rows, in the same order.\<close>

lemma seal_rows:
  assumes "queue_inv (wr_worker w)"
  shows "queued_rows (wr_worker (sealLocked now w)) @ wr_batch (sealLocked now w)
    = queued_rows (wr_worker w) @ wr_batch w" "wr_batch (sealLocked now w) = []"
  using assms by (simp_all add: sealLocked_def queued_rows_Enqueue)

lemma tallied_seal: "tallied w \<Longrightarrow> tallied (sealLocked now w)"
  by (auto simp: tallied_def sealLocked_def queued_rows_Enqueue queue_inv_Enqueue)

lemma Pending_seal: "Pending (sealLocked now w) = Pending w"
  by (simp add: Pending_def sealLocked_def)

lemma tallied_upd [simp]:
  "tallied (w\<lparr>wr_floorEngaged := n\<rparr>) = tallied w" "tallied (w\<lparr>wr_phase := ph\<rparr>) = tallied w"
  "tallied (w\<lparr>wr_timer := t\<rparr>) = tallied w" "tallied (w\<lparr>wr_lastFlushErr := e\<rparr>) = tallied w"
  "tallied (remember row w) = tallied w" "tallied (rememberBatch rows w) = tallied w"
  "tallied (noteCommit at w) = tallied w" "tallied (cycleEnded at e w) = tallied w"
  by (simp_all add: tallied_def remember_def rememberBatch_def noteCommit_def cycleEnded_def Let_def)

lemma Pending_upd [simp]:
  "Pending (w\<lparr>wr_floorEngaged := n\<rparr>) = Pending w" "Pending (w\<lparr>wr_phase := ph\<rparr>) = Pending w"
  "Pending (w\<lparr>wr_timer := t\<rparr>) = Pending w" "Pending (w\<lparr>wr_worker := k\<rparr>) = Pending w"
  "Pending (remember row w) = Pending w" "Pending (rememberBatch rows w) = Pending w"
  "Pending (noteCommit at w) = Pending w" "Pending (cycleEnded at e w) = Pending w"
  by (simp_all add: Pending_def remember_def rememberBatch_def noteCommit_def cycleEnded_def Let_def)

lemma tallied_worker:
  "tallied w \<Longrightarrow> queue_inv k \<Longrightarrow> queued_rows k = queued_rows (wr_worker w) \<Longrightarrow> tallied (w\<lparr>wr_worker := k\<rparr>)"
  by (simp add: tallied_def)

lemma tallied_thresholds: "tallied w \<Longrightarrow> tallied (check_thresholds rv now w)"
  by (simp add: check_thresholds_def triggerLocked_def tallied_seal)

lemma Pending_thresholds [simp]: "Pending (check_thresholds rv now w) = Pending w"
  by (simp add: check_thresholds_def triggerLocked_def Pending_seal)

lemma tallied_append:
  "tallied w \<Longrightarrow> \<forall>r\<in>set rows. 0 \<le> frw_ByteLen r \<Longrightarrow>
    tallied (w\<lparr>wr_batch := wr_batch w @ rows, wr_batchBytes := wr_batchBytes w + row_bytes rows\<rparr>)"
  by (auto simp: tallied_def)

lemma tallied_replay: "tallied w \<Longrightarrow> \<forall>b\<in>set bs. \<forall>r\<in>set (pb_Rows b). 0 \<le> pr_ByteLen r \<Longrightarrow> tallied (replay bs w)"
proof (induction bs w rule: replay.induct)
  case (2 b bs w)
  have bytes: "row_bytes (map flush_row_of rs) = sum_list (map pr_ByteLen rs)" for rs
    by (simp add: flush_row_of_def comp_def)
  have "tallied (if pb_Key b = [] then w\<lparr>wr_batch := wr_batch w @ map flush_row_of (pb_Rows b),
        wr_batchBytes := wr_batchBytes w + sum_list (map pr_ByteLen (pb_Rows b))\<rparr>
      else w\<lparr>wr_queuedRecords := wr_queuedRecords w + int (length (map flush_row_of (pb_Rows b))),
        wr_queuedBytes := wr_queuedBytes w + sum_list (map pr_ByteLen (pb_Rows b)),
        wr_worker := snd (Enqueue \<lparr>bt_Key = pb_Key b, bt_Rows = map flush_row_of (pb_Rows b)\<rparr> True (wr_worker w))\<rparr>)"
    using "2.prems" bytes [of "pb_Rows b"]
    by (auto simp: tallied_def queued_rows_Enqueue queue_inv_Enqueue flush_row_of_def)
  with 2 show ?case
    by (simp add: Let_def)
qed simp

lemma tallied_new: "tallied (new_writer now)"
  by (simp add: tallied_def new_writer_def)

section \<open>A step of the worker\<close>

lemma fold_callback: "fold callback ds y = fold callback (filter counted ds) y"
proof (induction ds arbitrary: y)
  case (Cons d ds)
  then show ?case by (cases d) simp_all
qed simp

lemma run_worker_adds:
  assumes "run_step (pl_opts p) (wr_worker (sy_writer y), sy_world y) = (wk, w)" "adds (sy_world y) w es"
  shows "run_worker p y = fold callback es (y\<lparr>sy_writer := (sy_writer y)\<lparr>wr_worker := wk\<rparr>, sy_world := w\<rparr>)"
  using assms fold_callback [of "drop (length (fw_log (sy_world y))) (fw_log w)"]
  by (auto simp: run_worker_def adds_def)

lemma notify_adds: "adds w (notify opts res w) []"
  using adds_emit [of w w "[]" "EvFlushError e" for e]
  by (auto simp: notify_def split: option.split)

lemma run_step_news:
  assumes "queue_inv wk" "run_step opts (wk, w) = (wk', w')"
  obtains (silent) "adds w w' []" "queued_rows wk' = queued_rows wk"
  | (cycled) j js res where "queued_rows wk = job_rows j @ concat (map job_rows js)"
      "adds w w' (news res (jb_batch j) @ [EvCycle (rs_err res)])"
      "queued_rows wk' = (if news res (jb_batch j) = [] then queued_rows wk else concat (map job_rows js))"
proof (cases "wk_pc wk")
  case Look
  obtain c w1 where c: "ctx_done w = (c, w1)" by (metis prod.collapse)
  have look: "queued_rows wk = concat (map job_rows (wk_queue wk))"
    using Look by (simp add: queued_rows_def unsettled_def settled_def)
  show ?thesis
  proof (cases "c \<or> wk_queue wk = []")
    case True
    then have "w' = w1" "queued_rows wk' = queued_rows wk"
      using assms(2) Look c look
      by (auto simp: run_step_def idle_enter_def queued_rows_def unsettled_def settled_def
          split: list.splits if_splits)
    then show ?thesis
      using silent ctx_done_adds [OF c] by simp
  next
    case False
    then obtain j js where q: "wk_queue wk = j # js" by (cases "wk_queue wk") auto
    obtain res j' w2 where cyc: "cycle opts j w1 = (res, j', w2)" by (metis prod.collapse)
    have step: "wk' = wk\<lparr>wk_queue := j' # js, wk_pc := Finishing res\<rparr>" "w' = emit (EvCycle (rs_err res)) w2"
      using assms(2) Look c q False cyc by (auto simp: run_step_def)
    have rows: "job_rows j' = job_rows j"
      using cyc tries_keeps by (fastforce simp: cycle_def)
    have "adds w w2 (news res (jb_batch j))"
      using adds_trans [OF ctx_done_adds [OF c] cycle_adds [OF cyc]] by simp
    then have "adds w w' (news res (jb_batch j) @ [EvCycle (rs_err res)])"
      using adds_emit [of w w2 _ "EvCycle (rs_err res)"] step by simp
    then show ?thesis
      by (rule cycled [rotated])
        (use q look rows step in \<open>auto simp: queued_rows_def unsettled_def settled_def news_def\<close>)
  qed
next
  case (Finishing res)
  have "adds w w' []"
    using assms(2) Finishing notify_adds by (auto simp: run_step_def Let_def split: if_splits)
  moreover have "wk' = (let k = (finish res wk)\<lparr>wk_pc := Look\<rparr> in
      if rs_err res \<noteq> None \<and> \<not> rs_quarantined res then idle_enter k else k)"
    using assms(2) Finishing by (simp add: run_step_def Let_def)
  then have "wk_queue wk' = (if rs_err res = None \<or> rs_quarantined res then tl (wk_queue wk) else wk_queue wk)"
      "\<not> settled wk'"
    by (auto simp: Let_def finish_def idle_enter_def settled_def)
  then have "queued_rows wk' = queued_rows wk"
    using Finishing by (simp add: queued_rows_def unsettled_def settled_def [of wk])
  ultimately show ?thesis
    by (rule silent)
next
  case Waiting
  obtain c w1 where c: "ctx_done w = (c, w1)" by (metis prod.collapse)
  have "adds w w' []" "queued_rows wk' = queued_rows wk"
    using assms(2) Waiting c ctx_done_adds [OF c]
    by (auto simp: run_step_def idle_wake_def queued_rows_def unsettled_def settled_def split: if_splits)
  then show ?thesis
    by (rule silent)
next
  case Exited
  then show ?thesis
    using assms(2) by (intro silent) (auto simp: run_step_def)
qed

lemma accounts_worker:
  assumes "accounts y"
  shows "accounts (run_worker p y)" "sk_records (sy_store (run_worker p y)) \<le> sk_records (sy_store y)"
    "sk_bytes (sy_store (run_worker p y)) \<le> sk_bytes (sy_store y)"
    "sk_MaxRecords (sy_store (run_worker p y)) = sk_MaxRecords (sy_store y)"
    "sk_MaxBytes (sy_store (run_worker p y)) = sk_MaxBytes (sy_store y)"
proof -
  let ?w = "sy_writer y" and ?s = "sy_store y"
  obtain wk w where run: "run_step (pl_opts p) (wr_worker ?w, sy_world y) = (wk, w)" by (metis prod.collapse)
  have t: "tallied ?w" and c: "covered y"
    using assms by (simp_all add: accounts_def)
  then have inv: "queue_inv (wr_worker ?w)" "queue_inv wk"
    using queue_inv_run_step [of "wr_worker ?w" "pl_opts p" "sy_world y"] run by (auto simp: tallied_def)
  let ?y = "y\<lparr>sy_writer := ?w\<lparr>wr_worker := wk\<rparr>, sy_world := w\<rparr>"
  note P = tallied_Pending [OF t]
  have all: "accounts (run_worker p y) \<and> sk_records (sy_store (run_worker p y)) \<le> sk_records ?s
      \<and> sk_bytes (sy_store (run_worker p y)) \<le> sk_bytes ?s
      \<and> sk_MaxRecords (sy_store (run_worker p y)) = sk_MaxRecords ?s \<and> sk_MaxBytes (sy_store (run_worker p y)) = sk_MaxBytes ?s"
    using inv(1) run
  proof (cases rule: run_step_news)
    case silent
    then have "run_worker p y = ?y"
      using run_worker_adds [OF run] by simp
    then show ?thesis
      using silent t c inv(2) tallied_worker [OF t inv(2)] by (simp add: accounts_def covered_def)
  next
    case (cycled j js res)
    let ?n = "int (length (job_rows j))" and ?b = "row_bytes (job_rows j)"
    let ?rest = "concat (map job_rows js)"
    have nonneg: "0 \<le> ?b" "0 \<le> row_bytes ?rest"
      using t cycled(1) by (auto simp: tallied_def intro!: row_bytes_nonneg)
    have q: "wr_queuedRecords ?w = ?n + int (length ?rest)" "wr_queuedBytes ?w = ?b + row_bytes ?rest"
      using t cycled(1) by (simp_all add: tallied_def)
    have le: "?n \<le> sk_records ?s" "?b \<le> sk_bytes ?s"
      using c q nonneg P(4) by (auto simp: covered_def Pending_def)
    have rel: "release ?n ?b ?s = ?s\<lparr>sk_records := sk_records ?s - ?n, sk_bytes := sk_bytes ?s - ?b\<rparr>"
      using c le nonneg by (intro release_result) (auto simp: covered_def)
    have run': "run_worker p y = fold callback (news res (jb_batch j) @ [EvCycle (rs_err res)]) ?y"
      by (rule run_worker_adds [OF run cycled(2)])
    show ?thesis
    proof (cases "news res (jb_batch j) = []")
      case True
      then have "queued_rows wk = queued_rows (wr_worker ?w)"
        using cycled(3) by simp
      then show ?thesis
        using run' True t c tallied_worker [OF t inv(2)] by (simp add: accounts_def covered_def)
    next
      case False
      then have rows: "queued_rows wk = ?rest"
        using cycled(3) by simp
      let ?w1 = "?w\<lparr>wr_worker := wk, wr_queuedRecords := wr_queuedRecords ?w - ?n, wr_queuedBytes := wr_queuedBytes ?w - ?b\<rparr>"
      have t1: "tallied ?w1"
        using t rows q inv(2) cycled(1) by (auto simp: tallied_def)
      have P1: "Pending ?w1 = (fst (Pending ?w) - ?n, snd (Pending ?w) - ?b)"
        by (simp add: Pending_def)
      show ?thesis
        using False run' t1 P1 c rel nonneg le
        by (auto simp: news_def wr_committed_def wr_quarantined_def Records_def Bytes_def accounts_def covered_def
            limits_ok_def split: if_splits)
    qed
  qed
  then show "accounts (run_worker p y)" "sk_records (sy_store (run_worker p y)) \<le> sk_records (sy_store y)"
    "sk_bytes (sy_store (run_worker p y)) \<le> sk_bytes (sy_store y)"
    "sk_MaxRecords (sy_store (run_worker p y)) = sk_MaxRecords (sy_store y)"
    "sk_MaxBytes (sy_store (run_worker p y)) = sk_MaxBytes (sy_store y)"
    by simp_all
qed

section \<open>Inserting\<close>

lemma convert_rows_Inr: "convert_rows p i rows = Inr payloads \<longleftrightarrow> list_all2 (\<lambda>row b. convert p row = Inr b) rows payloads"
  by (induction rows arbitrary: i payloads) (auto simp: res_bind_eq_Inr list_all2_Cons1 split: sum.splits)

lemma convert_rows_Inl: "convert_rows p i rows = Inl e \<longleftrightarrow> (\<exists>k c. k < length rows \<and> convert p (rows ! k) = Inl c
    \<and> (\<forall>m<k. \<exists>b. convert p (rows ! m) = Inr b) \<and> e = EBatch (BatchError (i + int k) c))"
proof (induction rows arbitrary: i)
  case (Cons row rows)
  show ?case
  proof (cases "convert p row")
    case (Inl c)
    then show ?thesis
      by (auto simp: Ex_less_Suc2 All_less_Suc2)
  next
    case (Inr b)
    then show ?thesis
      using Cons.IH [of "i + 1"] by (auto simp: Ex_less_Suc2 All_less_Suc2 res_bind_eq_Inl add.assoc)
  qed
qed simp

lemma Append_batch: "Append row s = (case AppendBatch [row] s of
    (Inl e, s') \<Rightarrow> (Inl e, s') | (Inr ids, s') \<Rightarrow> (Inr (ids ! 0), s'))"
  by (simp add: Append_def op_bind_def op_ret_def split: prod.split sum.split)

lemma remember_batch: "remember row w = rememberBatch [row] w"
  by (simp add: remember_def rememberBatch_def recentRecords_def)

lemma stage_batch: "stage p row payload y = stageBatch p [row] [payload] y"
proof -
  let ?row = "append_row p (fw_now (sy_world y)) payload"
  obtain res s where run: "AppendBatch [?row] (sys_store y) = (res, s)" by (metis prod.collapse)
  have one: "\<exists>i. ids = [i]" if "res = Inr ids" for ids
    using AppendBatch_result [OF run] that by simp
  show ?thesis
    using run one
    by (cases res) (force simp: stage_def stageBatch_def accept_def Let_def staging_call_def Append_batch remember_batch
        split: prod.split bool.split)+
qed

definition staged_writer :: "('row, 'r) plan \<Rightarrow> 'row list \<Rightarrow> int list \<Rightarrow> bytes list \<Rightarrow> int \<Rightarrow> 'row Writer \<Rightarrow> 'row Writer" where
  "staged_writer p rows ids payloads now w = check_thresholds (pl_settings p) now (rememberBatch rows
     (w\<lparr>wr_batch := wr_batch w @ map2 (\<lambda>i b. \<lparr>frw_ID = i, frw_ByteLen = int (length b)\<rparr>) ids payloads,
        wr_batchBytes := wr_batchBytes w + sum_list (map (\<lambda>b. int (length b)) payloads)\<rparr>))"

abbreviation set_store :: "store \<Rightarrow> 'row System \<Rightarrow> 'row System" where
  "set_store s y \<equiv> y\<lparr>sy_world := (sy_world y)\<lparr>fw_spool := (fw_spool (sy_world y))\<lparr>sp_store := s\<rparr>\<rparr>\<rparr>"

lemma stageBatch_cases:
  assumes "limits_ok (sy_store y)" "in_memory payloads" "length payloads = length rows" "rows \<noteq> []"
    "AppendBatch (map (append_row p (fw_now (sy_world y))) payloads) (sys_store y) = (res, s)"
  shows "stageBatch p rows payloads y =
    (if wr_closed (sy_writer y) then (Some ErrClosed, y)
     else if sk_MaxRecords (sy_store y) < sk_records (sy_store y) + int (length rows)
        \<or> sk_MaxBytes (sy_store y) < sk_bytes (sy_store y) + sum_list (map (\<lambda>b. int (length b)) payloads)
     then (Some (staging_full p), y)
     else case res of
       Inl e \<Rightarrow> (Some e, set_store s y)
     | Inr ids \<Rightarrow> (None, (set_store s y)\<lparr>
         sy_store := (sy_store y)\<lparr>sk_records := sk_records (sy_store y) + int (length rows),
            sk_bytes := sk_bytes (sy_store y) + sum_list (map (\<lambda>b. int (length b)) payloads)\<rparr>,
         sy_writer := staged_writer p rows ids payloads (fw_now (sy_world y)) (sy_writer y)\<rparr>))"
proof -
  let ?n = "length rows" and ?b = "sum_list (map (\<lambda>b. int (length b)) payloads)" and ?s = "sy_store y"
  have nonneg: "0 \<le> ?b"
    by (intro sum_list_nonneg) auto
  have acc: "acceptBatch ?n ?b ?s =
      (if sk_records ?s + int ?n \<le> sk_MaxRecords ?s \<and> sk_bytes ?s + ?b \<le> sk_MaxBytes ?s
       then (True, ?s\<lparr>sk_records := sk_records ?s + int ?n, sk_bytes := sk_bytes ?s + ?b\<rparr>) else (False, ?s))"
    using acceptBatch_result [of ?s ?n ?b] assms(1-4) nonneg by (simp add: in_memory_def)
  have "release (int ?n) ?b (?s\<lparr>sk_records := sk_records ?s + int ?n, sk_bytes := sk_bytes ?s + ?b\<rparr>) = ?s"
    if "sk_records ?s + int ?n \<le> sk_MaxRecords ?s" "sk_bytes ?s + ?b \<le> sk_MaxBytes ?s"
    using that assms(1) nonneg
    by (subst release_result) (auto simp: limits_ok_def)
  then show ?thesis
    using acc assms(5)
    by (cases res) (auto simp: stageBatch_def Let_def staging_call_def staged_writer_def)
qed

lemma staged_rows:
  "length ids = length payloads \<Longrightarrow>
    row_bytes (map2 (\<lambda>i b. \<lparr>frw_ID = i, frw_ByteLen = int (length b)\<rparr>) ids payloads) = sum_list (map (\<lambda>b. int (length b)) payloads)
    \<and> (\<forall>r\<in>set (map2 (\<lambda>i b. \<lparr>frw_ID = i, frw_ByteLen = int (length b)\<rparr>) ids payloads). 0 \<le> frw_ByteLen r)"
  by (induction ids payloads rule: list_induct2) auto

lemma staged_writer_tallied:
  assumes "tallied w" "length ids = length payloads"
  shows "tallied (staged_writer p rows ids payloads now w)"
    "Pending (staged_writer p rows ids payloads now w)
      = (fst (Pending w) + int (length payloads), snd (Pending w) + sum_list (map (\<lambda>b. int (length b)) payloads))"
proof -
  let ?new = "map2 (\<lambda>i b. \<lparr>frw_ID = i, frw_ByteLen = int (length b)\<rparr>) ids payloads"
  let ?w = "w\<lparr>wr_batch := wr_batch w @ ?new, wr_batchBytes := wr_batchBytes w + sum_list (map (\<lambda>b. int (length b)) payloads)\<rparr>"
  have "tallied ?w"
    using tallied_append [OF assms(1) staged_rows [OF assms(2), THEN conjunct2]]
    unfolding staged_rows [OF assms(2), THEN conjunct1] .
  then show "tallied (staged_writer p rows ids payloads now w)"
    unfolding staged_writer_def by (intro tallied_thresholds) (simp only: tallied_upd)
  show "Pending (staged_writer p rows ids payloads now w)
      = (fst (Pending w) + int (length payloads), snd (Pending w) + sum_list (map (\<lambda>b. int (length b)) payloads))"
    using assms(2) unfolding staged_writer_def Pending_thresholds Pending_upd by (simp add: Pending_def)
qed

lemma accounts_stageBatch:
  assumes "accounts y" "in_memory payloads" "length payloads = length rows" "rows \<noteq> []"
    "stageBatch p rows payloads y = (r, y')"
  shows "accounts y' \<and> sk_MaxRecords (sy_store y') = sk_MaxRecords (sy_store y)
    \<and> sk_MaxBytes (sy_store y') = sk_MaxBytes (sy_store y)
    \<and> sk_records (sy_store y') \<le> max (sk_records (sy_store y)) (sk_MaxRecords (sy_store y))
    \<and> sk_bytes (sy_store y') \<le> max (sk_bytes (sy_store y)) (sk_MaxBytes (sy_store y))"
proof -
  obtain res s where run: "AppendBatch (map (append_row p (fw_now (sy_world y))) payloads) (sys_store y) = (res, s)"
    by (metis prod.collapse)
  have lim: "limits_ok (sy_store y)" and t: "tallied (sy_writer y)" and c: "covered y"
    using assms(1) by (simp_all add: accounts_def covered_def)
  note cases = stageBatch_cases [OF lim assms(2-4) run]
  show ?thesis
  proof (cases res)
    case (Inl e)
    then show ?thesis
      using assms(1,5) cases t c by (auto simp: accounts_def covered_def split: if_splits)
  next
    case (Inr ids)
    have "length ids = length payloads"
      using AppendBatch_result [OF run] Inr by simp
    note w = staged_writer_tallied [OF t this, of p rows "fw_now (sy_world y)"]
    have "0 \<le> sum_list (map (\<lambda>b. int (length b)) payloads)"
      by (intro sum_list_nonneg) auto
    with w c assms(3) have "accounts ((set_store s y)\<lparr>
         sy_store := (sy_store y)\<lparr>sk_records := sk_records (sy_store y) + int (length rows),
            sk_bytes := sk_bytes (sy_store y) + sum_list (map (\<lambda>b. int (length b)) payloads)\<rparr>,
         sy_writer := staged_writer p rows ids payloads (fw_now (sy_world y)) (sy_writer y)\<rparr>)"
      if "\<not> sk_MaxRecords (sy_store y) < sk_records (sy_store y) + int (length rows)"
        "\<not> sk_MaxBytes (sy_store y) < sk_bytes (sy_store y) + sum_list (map (\<lambda>b. int (length b)) payloads)"
      using that by (simp add: accounts_def covered_def limits_ok_def)
    then show ?thesis
      using assms(1,5) cases Inr by (auto split: if_splits)
  qed
qed

end
