(* ===== verification/FlushKeeps.thy ===== *)
theory FlushKeeps
  imports WriterProps
begin

text \<open>The flush path keeps what the staging store's operations keep: a predicate of the database that
  every store operation preserves is preserved by an attempt, by a cycle and by a step of the worker.\<close>

definition fkeeps :: "(db \<Rightarrow> bool) \<Rightarrow> 'a fop \<Rightarrow> bool" where
  "fkeeps P m \<longleftrightarrow> (\<forall>w r w'. m w = (r, w') \<longrightarrow> P (st_db (fw_store w)) \<longrightarrow> P (st_db (fw_store w')))"

named_theorems fkeeps_intros \<open>flush operations that keep a predicate of the database\<close>

lemma fkeepsI: "(\<And>w r w'. m w = (r, w') \<Longrightarrow> P (st_db (fw_store w)) \<Longrightarrow> P (st_db (fw_store w'))) \<Longrightarrow> fkeeps P m"
  by (simp add: fkeeps_def)

lemma fkeepsD: "fkeeps P m \<Longrightarrow> m w = (r, w') \<Longrightarrow> P (st_db (fw_store w)) \<Longrightarrow> P (st_db (fw_store w'))"
  unfolding fkeeps_def by blast

lemma fkeeps_bind [fkeeps_intros]:
  assumes "fkeeps P m" "\<And>x. fkeeps P (f x)"
  shows "fkeeps P (fl_bind m f)"
proof (rule fkeepsI)
  fix w r w' assume run: "fl_bind m f w = (r, w')" and P: "P (st_db (fw_store w))"
  obtain r1 w1 where m: "m w = (r1, w1)" by (cases "m w")
  show "P (st_db (fw_store w'))"
    using run m fkeepsD [OF assms(1) m P] fkeepsD [OF assms(2), of _ w1]
    by (cases r1) (auto simp: fl_bind_def)
qed

lemma fkeeps_ret [fkeeps_intros]: "fkeeps P (fl_ret x)"
  by (simp add: fkeeps_def fl_ret_def)

lemma fkeeps_lift [fkeeps_intros]: "fkeeps P (fl_lift mark r)"
  by (auto simp: fkeeps_def fl_lift_def split: sum.splits)

lemma fkeeps_if [fkeeps_intros]: "fkeeps P m \<Longrightarrow> fkeeps P n \<Longrightarrow> fkeeps P (if c then m else n)"
  by simp

lemma fkeeps_for [fkeeps_intros]: "(\<And>x. fkeeps P (f x)) \<Longrightarrow> fkeeps P (fl_for f xs)"
  by (induction xs) (auto intro: fkeeps_intros)

lemma fkeeps_staging [fkeeps_intros]: "keeps P m \<Longrightarrow> fkeeps P (staging_op m)"
  by (rule fkeepsI) (auto dest!: staging_op_world simp: keeps_def)

lemma fkeeps_ext: "(\<And>w. fw_store (eff w) = fw_store w) \<Longrightarrow> fkeeps P (ext_call eff)"
  by (rule fkeepsI) (auto simp: ext_call_def split: list.splits ext.splits sum.splits if_splits)

lemma fkeeps_ext_id [fkeeps_intros]: "fkeeps P (ext_call id)"
  by (rule fkeeps_ext) simp

section \<open>One attempt\<close>

lemma fkeeps_descriptor [fkeeps_intros]: "fkeeps P (descriptor fp)"
proof (rule fkeepsI)
  fix w r w' assume run: "descriptor fp w = (r, w')" and P: "P (st_db (fw_store w))"
  obtain q w1 where s: "staging_op (Schema fp) w = (q, w1)" by (metis prod.collapse)
  show "P (st_db (fw_store w'))"
    using run s fkeepsD [of P, OF fkeeps_staging [OF keeps_Schema] s] P
    by (auto simp: descriptor_def fl_bind_def split: option.splits sum.splits)
qed

lemma grows_spool_tables:
  "db_staging d' = db_staging d \<Longrightarrow> db_seq d' = db_seq d \<Longrightarrow> db_schemas d' = db_schemas d \<Longrightarrow>
    grows d0 d' = grows d0 d"
  by (simp add: grows_def staging_ok_def row_ok_def evolves_def)

lemma grows_RecordSpoolFile: "keeps (grows d0) (RecordSpoolFile rec)"
proof -
  have "grows d0 (snd (q_UpsertSpoolSchema fp b d)) = grows d0 d"
    "grows d0 (snd (q_UpsertSpoolFile k ns t fp n at d)) = grows d0 d" for fp b d k ns t n at
    by (rule grows_spool_tables; simp add: q_UpsertSpoolSchema_def q_UpsertSpoolFile_def Let_def)+
  then show ?thesis
    unfolding RecordSpoolFile_def
    by (auto intro!: keeps_intros keeps_staging_fail split: option.split)
qed

lemma grows_MarkSpoolCommitted: "keeps (grows d0) (MarkSpoolCommitted key at)"
proof -
  have "grows d0 (snd (q_MarkSpoolFileCommitted at key d)) = grows d0 d" for d at
    by (rule grows_spool_tables) (simp_all add: q_MarkSpoolFileCommitted_def Let_def)
  then show ?thesis
    unfolding MarkSpoolCommitted_def by (auto intro!: keeps_intros keeps_staging_fail)
qed

lemma Write_keeps:
  assumes "Write ns tbl key desc body now s = (r, s')" "grows d0 (st_db (sp_store s))"
  shows "grows d0 (st_db (sp_store s'))"
proof -
  obtain q v where v: "writeFile ns tbl key body s = (q, v)" by (metis prod.collapse)
  note inv = ensuresD [OF writeFile_ensures [OF refl, where ns = ns and tbl = tbl and key = key
        and body = body and ?w0.0 = s], of s, unfolded v]
  have "sp_store v = sp_store s"
    using inv by (cases q) (auto simp: write_states)
  then have "grows d0 (st_db (sp_store v))"
    using assms(2) by simp
  then show ?thesis
    using assms(1) v grows_RecordSpoolFile [unfolded keeps_def]
    by (cases q) (auto simp: Write_def sp_bind_def sp_wrap_def db_op_def split: sum.splits)
qed

lemma MarkCommitted_keeps:
  assumes "MarkCommitted ns tbl key now s = (r, s')" "grows d0 (st_db (sp_store s))"
  shows "grows d0 (st_db (sp_store s'))"
  using assms grows_MarkSpoolCommitted [unfolded keeps_def]
  by (auto simp: MarkCommitted_def sp_wrap_def db_op_def split: sum.splits)

lemma fkeeps_spool_write [fkeeps_intros]: "fkeeps (grows d0) (spool_write opts key body)"
  by (rule fkeepsI)
    (auto simp: spool_write_def spool_op_def split: prod.splits sum.splits if_splits dest: Write_keeps)

lemma fkeeps_markSpooled [fkeeps_intros]: "fkeeps (grows d0) (markSpooled opts key)"
  by (rule fkeepsI)
    (auto simp: markSpooled_def spool_op_def split: prod.splits sum.splits if_splits dest: MarkCommitted_keeps)

lemma fkeeps_prepare [fkeeps_intros]:
  assumes "descriptor_ok (fo_Descriptor opts)"
  shows "fkeeps (grows d0) (prepare opts b)"
proof -
  have seal: "keeps (grows d0) (Seal \<lparr>srq_Namespace = fo_Namespace opts, srq_Table = fo_Table opts,
      srq_BatchKey = key, srq_Descriptor = Some (fo_Descriptor opts), srq_Rows = rows\<rparr>)" for key rows
    by (rule keeps_Seal) (use assms in simp)
  show ?thesis
    unfolding prepare_def Let_def decode_sealed_def recode_row_def
    by (intro fkeeps_intros keeps_Rows seal)
qed

lemma fkeeps_encode_batch [fkeeps_intros]: "fkeeps P (encode_batch opts key rows)"
proof -
  have "fw_store (mirror opts key rec w) = fw_store w" for rec w
    by (auto simp: mirror_def ext_call_def emit_def split: list.split ext.split sum.split flush_fail.split)
  then show ?thesis
    unfolding encode_batch_def by (intro fkeeps_intros) (auto simp: fkeeps_def)
qed

lemma fkeeps_upload [fkeeps_intros]: "fkeeps P (upload opts key body)"
  unfolding upload_def by (rule fkeeps_ext) simp

lemma fkeeps_commit [fkeeps_intros]: "fkeeps P (commit opts key)"
proof -
  have land: "fw_store (land_commit uri w) = fw_store w" for uri w
    by (simp add: land_commit_def)
  have "fw_store w' = fw_store w" if "AddFile uri w = (r, w')" for uri w r w'
    using that land by (auto simp: AddFile_def fl_bind_def ext_call_def split: list.splits ext.splits sum.splits if_splits)
  moreover have "fw_store (refresh opts w) = fw_store w" for w
    by (auto simp: refresh_def ext_call_def split: list.split ext.split)
  ultimately show ?thesis
    by (intro fkeepsI) (auto simp: commit_def split: prod.splits sum.splits)
qed


lemma fkeeps_walk_entries [fkeeps_intros]: "fkeeps P (walk_entries want es)"
  by (induction want es rule: walk_entries.induct) (auto intro!: fkeeps_intros)

lemma fkeeps_walk_manifests [fkeeps_intros]: "fkeeps P (walk_manifests want ms)"
  by (induction ms) (auto intro!: fkeeps_intros)

lemma fkeeps_alreadyCommitted [fkeeps_intros]: "fkeeps P (alreadyCommitted opts key)"
proof -
  have walk: "fkeeps P (fl_bind (ext_call id) (\<lambda>_. fl_bind (ext_call id) (\<lambda>_. walk_manifests want ms)))" for want ms
    by (intro fkeeps_intros)
  show ?thesis
    unfolding alreadyCommitted_def AlreadyCommitted_def
    by (rule fkeepsI) (auto split: option.splits intro: fkeepsD [of P, OF walk])
qed

lemma fkeeps_prune [fkeeps_intros]: "fkeeps (grows d0) (prune ids)"
  unfolding prune_def by (intro fkeeps_intros keeps_Delete keeps_PruneSchemas)

lemma fkeeps_committed [fkeeps_intros]: "fkeeps P (committed j)"
  by (simp add: fkeeps_def committed_def emit_def)

lemma fkeeps_attempt: "fkeeps (grows d0) (attempt opts j key rows ids)"
  unfolding attempt_def deliver_def finish_commit_def by (intro fkeeps_intros)

lemma process_grows:
  assumes "descriptor_ok (fo_Descriptor opts)" "process opts j w = (r, j', w')" "grows d0 (st_db (fw_store w))"
  shows "grows d0 (st_db (fw_store w'))"
proof -
  obtain q w1 where prep: "prepare opts (jb_batch j) w = (q, w1)" by (metis prod.collapse)
  note g = fkeepsD [OF fkeeps_prepare [OF assms(1)] prep assms(3)]
  show ?thesis
    using assms(2) prep g fkeepsD [OF fkeeps_attempt _ g]
    by (auto simp: process_def Let_def split: sum.splits prod.splits)
qed

section \<open>A cycle and a step\<close>

lemma quiet_store_moves:
  "ctx_done w = (c, w') \<Longrightarrow> fw_store w' = fw_store w" "jitter w = (u, w') \<Longrightarrow> fw_store w' = fw_store w"
  "Sleep d w = (c, w') \<Longrightarrow> fw_store w' = fw_store w"
  by (auto simp: ctx_done_def jitter_def Sleep_def emit_def split: list.splits bool.splits)

lemma quarantine_grows:
  assumes "quarantine opts j cause w = (res, w')" "grows d0 (st_db (fw_store w))"
  shows "grows d0 (st_db (fw_store w'))"
proof -
  obtain r w1 where q: "staging_op (Quarantine (map frw_ID (bt_Rows (jb_batch j))) (fw_now w) (fo_text opts cause)) w = (r, w1)"
    by (metis prod.collapse)
  have "grows d0 (st_db (fw_store w1))"
    by (rule fkeepsD [OF fkeeps_staging [OF keeps_Quarantine] q assms(2)])
  then show ?thesis
    using assms(1) q by (auto simp: quarantine_def emit_def split: sum.splits)
qed

lemma tries_grows:
  assumes "descriptor_ok (fo_Descriptor opts)"
  shows "tries opts j w = (res, j', w') \<Longrightarrow> grows d0 (st_db (fw_store w)) \<Longrightarrow> grows d0 (st_db (fw_store w'))"
proof (induction "nat (attempts (fo_Retry opts) - jb_attempts j)" arbitrary: j w rule: less_induct)
  case less
  obtain kind err j1 w1 where run: "process opts (j\<lparr>jb_attempts := jb_attempts j + 1\<rparr>) w = ((kind, err), j1, w1)"
    by (metis prod.collapse)
  note g1 = process_grows [OF assms run less.prems(2)]
  note keep = process_keeps [OF run]
  show ?case
  proof (cases kind)
    case failureNone
    then show ?thesis
      using less.prems run g1 by (simp add: tries.simps [of opts j w])
  next
    case failureEncode
    then show ?thesis
      using less.prems run quarantine_grows [OF _ g1]
      by (auto simp: tries.simps [of opts j w] Let_def split: prod.splits)
  next
    case failureTransient
    obtain c w2 where c: "ctx_done w1 = (c, w2)" by (metis prod.collapse)
    let ?draw = "if ceiling (fo_Retry opts) (jb_attempts j1) \<le> 0 then (None, w2) else jitter w2"
    obtain u w3 where u: "?draw = (u, w3)" by (metis prod.collapse)
    obtain i w4 where sl: "Sleep (delay (fo_Retry opts) (jb_attempts j1) u) w3 = (i, w4)" by (metis prod.collapse)
    have "fw_store w3 = fw_store w2"
      using u quiet_store_moves(2) by (auto split: if_splits)
    then have st: "fw_store w2 = fw_store w1" "fw_store w4 = fw_store w1"
      using quiet_store_moves(1) [OF c] quiet_store_moves(3) [OF sl] by simp_all
    consider (stop) "w' = w2 \<or> w' = w4"
      | (again) "jb_attempts j + 1 < attempts (fo_Retry opts)"
        "tries opts (j1\<lparr>jb_attempted := True\<rparr>) w4 = (res, j', w')"
      using less.prems run failureTransient c u sl keep
      by (cases c; cases "jb_attempts j1 \<ge> attempts (fo_Retry opts)"; cases i)
        (auto simp: tries.simps [of opts j w] Let_def split: if_splits)
    then show ?thesis
    proof cases
      case stop
      then show ?thesis using g1 st by auto
    next
      case again
      show ?thesis
        by (rule less.hyps [OF _ again(2)]) (use again(1) keep g1 st in auto)
    qed
  qed
qed

lemma notify_store [simp]: "fw_store (notify opts res w) = fw_store w"
  by (simp add: notify_def emit_def split: option.split)

lemma run_step_grows:
  assumes "descriptor_ok (fo_Descriptor opts)" "run_step opts (wk, w) = (wk', w')" "grows d0 (st_db (fw_store w))"
  shows "grows d0 (st_db (fw_store w'))"
proof -
  obtain c w1 where c: "ctx_done w = (c, w1)" by (metis prod.collapse)
  have w1: "fw_store w1 = fw_store w"
    by (rule quiet_store_moves(1) [OF c])
  have cyc: "grows d0 (st_db (fw_store w2))" if "cycle opts j w1 = (res, j', w2)" for j res j' w2
    using tries_grows [OF assms(1)] that assms(3) w1 by (auto simp: cycle_def)
  show ?thesis
    using assms(2,3) c w1 cyc
    by (cases "wk_pc wk")
      (auto simp: run_step_def Let_def emit_def split: list.splits prod.splits if_splits)
qed

section \<open>No row of a settled batch waits\<close>

text \<open>The staged rows no quarantine has marked.\<close>

definition waiting :: "flush_world \<Rightarrow> int set" where
  "waiting w = {sr_id r |r. r \<in> set (db_staging (st_db (fw_store w))) \<and> sr_quarantined_at r = None}"

lemma waiting_staged: "waiting w \<subseteq> staged_ids w"
  by (auto simp: waiting_def)

text \<open>An id handed out before never starts to wait again.\<close>

lemma waiting_grows:
  assumes "grows (st_db (fw_store w)) (st_db (fw_store w'))" "i \<le> db_seq (st_db (fw_store w))" "i \<notin> waiting w"
  shows "i \<notin> waiting w'"
proof
  assume "i \<in> waiting w'"
  then obtain r' where r': "r' \<in> set (db_staging (st_db (fw_store w')))" "sr_id r' = i" "sr_quarantined_at r' = None"
    by (auto simp: waiting_def)
  then obtain r where "r \<in> set (db_staging (st_db (fw_store w)))" "row_le r r'"
    using assms(1,2) by (auto simp: grows_def evolves_def)
  then have "sr_id r = i \<and> sr_quarantined_at r = None"
    using r' by (auto simp: row_le_def)
  then show False
    using assms(3) \<open>r \<in> _\<close> by (auto simp: waiting_def)
qed

text \<open>The staged rows a quarantine has marked, and how a batch stops being the worker's: its file delivered and
  its rows gone from staging, or every row of it staged and marked.\<close>

definition marked :: "flush_world \<Rightarrow> int set" where
  "marked w = {sr_id r |r. r \<in> set (db_staging (st_db (fw_store w))) \<and> sr_quarantined_at r \<noteq> None}"

definition settles :: "('r, 'z) Options_scheme \<Rightarrow> flush_result \<Rightarrow> Batch \<Rightarrow> flush_world \<Rightarrow> bool" where
  "settles opts res b w \<longleftrightarrow>
    (if rs_quarantined res then frw_ID ` set (bt_Rows b) \<subseteq> marked w
     else rs_err res = None \<and> delivered opts (bt_Key b) w \<and> staged_ids w \<inter> frw_ID ` set (bt_Rows b) = {})"

lemma settles_waiting:
  assumes "settles opts res b w" "staging_ok (st_db (fw_store w))"
  shows "waiting w \<inter> frw_ID ` set (bt_Rows b) = {}"
proof (cases "rs_quarantined res")
  case True
  have "i \<notin> marked w" if wait: "i \<in> waiting w" for i
  proof
    assume "i \<in> marked w"
    then obtain r where r: "r \<in> set (db_staging (st_db (fw_store w)))" "sr_quarantined_at r \<noteq> None" "sr_id r = i"
      by (auto simp: marked_def)
    obtain r' where r': "r' \<in> set (db_staging (st_db (fw_store w)))" "sr_quarantined_at r' = None" "sr_id r' = i"
      using wait by (auto simp: waiting_def)
    show False
      using unique_ids [OF assms(2) r(1) r'(1)] r r' by simp
  qed
  then show ?thesis
    using assms(1) True by (auto simp: settles_def)
qed (use assms(1) waiting_staged [of w] in \<open>auto simp: settles_def\<close>)

lemma settles_cong:
  "fw_store w' = fw_store w \<Longrightarrow> fw_catalog w' = fw_catalog w \<Longrightarrow> fw_spool w' = fw_spool w \<Longrightarrow>
    settles opts res b w' = settles opts res b w"
  by (simp add: settles_def delivered_def marked_def)

lemma process_ends:
  assumes "fo_LocalOnly opts \<longrightarrow> fo_Spool opts" "handle_ok w" "process opts j w = ((kind, err), j', w')"
  shows "handle_ok w'" "set (catalog_files w) \<subseteq> set (catalog_files w')"
    "kind = failureNone \<Longrightarrow> rs_err res = None \<Longrightarrow> \<not> rs_quarantined res \<Longrightarrow> settles opts res (jb_batch j') w'"
proof -
  show "handle_ok w'"
    using process_cases(1) [OF assms] assms(2) by (auto simp: quiet_def handle_ok_def safe_def)
  show "set (catalog_files w) \<subseteq> set (catalog_files w')"
    using process_cases(1) [OF assms] by (auto simp: quiet_def safe_def)
  show "settles opts res (jb_batch j') w'" if "kind = failureNone" "rs_err res = None" "\<not> rs_quarantined res"
    using process_cases(1) [OF assms]
  proof (elim disjE exE conjE)
    fix key rows w1
    assume j': "j' = j\<lparr>jb_batch := (jb_batch j)\<lparr>bt_Key := key\<rparr>\<rparr>"
      and "kind = failureNone \<longrightarrow> gone (may_commit opts j key w) opts key (map frw_ID (job_rows j)) w w'"
    then have "delivered opts key w'" "staged_ids w' = staged_ids w - frw_ID ` set (job_rows j)"
      using that(1) by (simp_all add: gone_def)
    then have "delivered opts key w'" "staged_ids w' \<inter> frw_ID ` set (job_rows j) = {}"
      by blast+
    then show ?thesis
      using that(2,3) j' by (simp add: settles_def)
  qed (use that in simp)
qed

lemma quarantine_ends:
  assumes "staging_ok (st_db (fw_store w))" "quarantine opts j cause w = (res, w')"
  shows "handle_ok w \<Longrightarrow> handle_ok w'" "set (catalog_files w) \<subseteq> set (catalog_files w')"
    "rs_quarantined res \<Longrightarrow> settles opts res (jb_batch j) w'" "rs_err res \<noteq> None"
proof -
  show "handle_ok w \<Longrightarrow> handle_ok w'"
    using quarantine_world(1) [OF assms(2)] by (simp add: quiet_def handle_ok_def)
  show "set (catalog_files w) \<subseteq> set (catalog_files w')"
    using quarantine_world(1) [OF assms(2)] by (simp add: quiet_def)
  show "rs_err res \<noteq> None"
    by (rule quarantine_world(2) [OF assms(2)])
  show "settles opts res (jb_batch j) w'" if "rs_quarantined res"
  proof (cases "job_rows j = []")
    case False
    let ?ids = "map frw_ID (job_rows j)"
    let ?f = "quarantine_effect (fw_now w) (fo_text opts cause) (frw_ID ` set (job_rows j))"
    have after: "db_staging (st_db (fw_store w')) = map ?f (db_staging (st_db (fw_store w)))"
      using quarantine_result [OF assms(1) False assms(2)] that by simp
    obtain r s1 where q: "Quarantine ?ids (fw_now w) (fo_text opts cause) (fw_store w) = (r, s1)"
      by (metis prod.collapse)
    have "\<exists>u. r = Inr u"
      using assms(2) that q by (cases r) (auto simp: quarantine_def staging_op_def spool_op_def db_op_def)
    then have present: "set ?ids \<subseteq> sr_id ` set (db_staging (st_db (fw_store w)))"
      using Quarantine_present [OF _ assms(1)] q by blast
    have "i \<in> marked w'" if i: "i \<in> frw_ID ` set (job_rows j)" for i
    proof -
      have "i \<in> set ?ids"
        using i by simp
      from subsetD [OF present this] obtain r where r: "r \<in> set (db_staging (st_db (fw_store w)))" "i = sr_id r"
        by (rule imageE)
      have "sr_id (?f r) = i" "sr_quarantined_at (?f r) \<noteq> None"
        using r i by (simp_all add: quarantine_effect_def)
      moreover have "?f r \<in> set (db_staging (st_db (fw_store w')))"
        unfolding after set_map by (rule imageI [OF r(1)])
      ultimately show ?thesis
        unfolding marked_def by blast
    qed
    then show ?thesis
      using \<open>rs_quarantined res\<close> by (auto simp: settles_def)
  qed (use that in \<open>simp add: settles_def\<close>)
qed

lemma quiet_handle: "ctx_done w = (c, w') \<Longrightarrow> handle_ok w' = handle_ok w" "jitter w = (u, w') \<Longrightarrow> handle_ok w' = handle_ok w"
  "Sleep d w = (c, w') \<Longrightarrow> handle_ok w' = handle_ok w"
  using ctx_done_quiet [of w c w'] jitter_quiet [of w u w'] Sleep_quiet [of d w c w']
  by (auto simp: quiet_def handle_ok_def)

lemma quiet_catalog: "ctx_done w = (c, w') \<Longrightarrow> fw_catalog w' = fw_catalog w" "jitter w = (u, w') \<Longrightarrow> fw_catalog w' = fw_catalog w"
  "Sleep d w = (c, w') \<Longrightarrow> fw_catalog w' = fw_catalog w"
  using ctx_done_quiet [of w c w'] jitter_quiet [of w u w'] Sleep_quiet [of d w c w'] by (auto simp: quiet_def)

lemma tries_ends:
  assumes "descriptor_ok (fo_Descriptor opts)" "fo_LocalOnly opts \<longrightarrow> fo_Spool opts"
  shows "tries opts j w = (res, j', w') \<Longrightarrow> handle_ok w \<Longrightarrow> staging_ok (st_db (fw_store w)) \<Longrightarrow>
    handle_ok w' \<and> set (catalog_files w) \<subseteq> set (catalog_files w')
    \<and> (rs_err res = None \<or> rs_quarantined res \<longrightarrow> settles opts res (jb_batch j') w')"
proof (induction "nat (attempts (fo_Retry opts) - jb_attempts j)" arbitrary: j w rule: less_induct)
  case less
  obtain kind err j1 w1 where run: "process opts (j\<lparr>jb_attempts := jb_attempts j + 1\<rparr>) w = ((kind, err), j1, w1)"
    by (metis prod.collapse)
  note keep = process_keeps [OF run]
  note e1 = process_ends [OF assms(2) less.prems(2) run]
  have "grows (st_db (fw_store w)) (st_db (fw_store w))"
    using less.prems(3) by (simp add: grows_def)
  from process_grows [OF assms(1) run this] have ok1: "staging_ok (st_db (fw_store w1))"
    by (simp add: grows_def)
  show ?case
  proof (cases kind)
    case failureNone
    then show ?thesis
      using less.prems run e1 by (auto simp: tries.simps [of opts j w])
  next
    case failureEncode
    obtain r w2 where q: "quarantine opts (j1\<lparr>jb_attempted := True\<rparr>) (the err) w1 = (r, w2)"
      by (metis prod.collapse)
    have same: "res = r" "w' = w2" "j' = j1\<lparr>jb_attempted := True\<rparr>"
      using less.prems(1) run failureEncode q by (auto simp: tries.simps [of opts j w])
    then show ?thesis
      using quarantine_ends [OF ok1 q] e1(1,2) unfolding same by auto
  next
    case failureTransient
    then have err: "err \<noteq> None"
      using process_cases(2) [OF assms(2) less.prems(2) run] by simp
    obtain c w2 where c: "ctx_done w1 = (c, w2)" by (metis prod.collapse)
    let ?draw = "if ceiling (fo_Retry opts) (jb_attempts j1) \<le> 0 then (None, w2) else jitter w2"
    obtain u w3 where u: "?draw = (u, w3)" by (metis prod.collapse)
    obtain i w4 where sl: "Sleep (delay (fo_Retry opts) (jb_attempts j1) u) w3 = (i, w4)" by (metis prod.collapse)
    have "fw_store w3 = fw_store w2 \<and> handle_ok w3 = handle_ok w2 \<and> fw_catalog w3 = fw_catalog w2"
      using u quiet_store_moves(2) quiet_handle(2) quiet_catalog(2) by (auto split: if_splits)
    then have same: "fw_store w4 = fw_store w1" "handle_ok w4" "handle_ok w2"
        "catalog_files w4 = catalog_files w1" "catalog_files w2 = catalog_files w1"
      using quiet_store_moves(1) [OF c] quiet_store_moves(3) [OF sl] quiet_handle(1) [OF c] quiet_handle(3) [OF sl]
        quiet_catalog(1) [OF c] quiet_catalog(3) [OF sl] e1(1) by simp_all
    consider (stop) "w' = w2 \<or> w' = w4" "rs_err res \<noteq> None" "\<not> rs_quarantined res"
      | (again) "jb_attempts j + 1 < attempts (fo_Retry opts)"
        "tries opts (j1\<lparr>jb_attempted := True\<rparr>) w4 = (res, j', w')"
      using less.prems(1) run failureTransient c u sl keep err
      by (cases c; cases "jb_attempts j1 \<ge> attempts (fo_Retry opts)"; cases i)
        (auto simp: tries.simps [of opts j w] Let_def split: if_splits)
    then show ?thesis
    proof cases
      case stop
      then show ?thesis using same e1(2) by auto
    next
      case again
      have "handle_ok w' \<and> set (catalog_files w4) \<subseteq> set (catalog_files w')
          \<and> (rs_err res = None \<or> rs_quarantined res \<longrightarrow> settles opts res (jb_batch j') w')"
        by (rule less.hyps [OF _ again(2)]) (use again(1) keep same ok1 in auto)
      then show ?thesis using same(4) e1(2) by auto
    qed
  qed
qed

end
