(* ===== verification/WriterThms.thy ===== *)
theory WriterThms
  imports FlushKeeps
begin

text \<open>The properties of the writer over every run of the system: its counters, the checkpoint \<open>Flush\<close> is, and
  what an insert does.\<close>

section \<open>The ceiling\<close>

text \<open>The limits stand, and no counter passes its limit except where it began above it.\<close>

definition ceiling_le :: "Store \<Rightarrow> Store \<Rightarrow> bool" where
  "ceiling_le s s' \<longleftrightarrow> sk_MaxRecords s' = sk_MaxRecords s \<and> sk_MaxBytes s' = sk_MaxBytes s
     \<and> sk_records s' \<le> max (sk_records s) (sk_MaxRecords s)
     \<and> sk_bytes s' \<le> max (sk_bytes s) (sk_MaxBytes s)"

lemma ceiling_le_refl [simp]: "ceiling_le s s"
  by (simp add: ceiling_le_def)

lemma ceiling_le_trans: "ceiling_le s s' \<Longrightarrow> ceiling_le s' s'' \<Longrightarrow> ceiling_le s s''"
  by (auto simp: ceiling_le_def)

lemma accounts_writer:
  "accounts y \<Longrightarrow> tallied w \<Longrightarrow> Pending w = Pending (sy_writer y) \<Longrightarrow> accounts (y\<lparr>sy_writer := w\<rparr>)"
  by (simp add: accounts_def covered_def)

lemma accounts_world [simp]: "accounts (y\<lparr>sy_world := w\<rparr>) = accounts y" "accounts (y\<lparr>sy_called := c\<rparr>) = accounts y"
  by (simp_all add: accounts_def covered_def)

lemma wait_answer_eq: "wait_answer since seq w =
    (fst (answer since seq (wr_worker w)), w\<lparr>wr_worker := snd (answer since seq (wr_worker w))\<rparr>)"
  by (simp add: wait_answer_def split: prod.split)

lemma tallied_moves:
  "tallied w \<Longrightarrow> tallied (w\<lparr>wr_worker := Kick (wr_worker w)\<rparr>)"
  "tallied w \<Longrightarrow> tallied (w\<lparr>wr_worker := Worker_Close (wr_worker w)\<rparr>)"
  "tallied w \<Longrightarrow> tallied (w\<lparr>wr_worker := snd (answer since seq (wr_worker w))\<rparr>)"
  by (rule tallied_worker; simp add: queue_inv_moves queue_inv_answer tallied_def)+

lemma call_hook_same: "call_hook p rows y = (r, y') \<Longrightarrow> \<exists>c. y' = y\<lparr>sy_called := c\<rparr>"
proof (induction rows arbitrary: y)
  case Nil
  then show ?case by (auto intro: exI [of _ "sy_called y"])
next
  case (Cons row rows)
  show ?case
  proof (cases "pl_onAccept p")
    case None
    then show ?thesis using Cons.prems by (auto intro: exI [of _ "sy_called y"])
  next
    case (Some hook)
    then show ?thesis
      using Cons by (fastforce simp: Let_def split: option.splits)
  qed
qed


lemma tallied_trigger: "tallied w \<Longrightarrow> tallied (triggerLocked rv now w)"
  by (simp add: triggerLocked_def tallied_seal)

lemma Pending_trigger [simp]: "Pending (triggerLocked rv now w) = Pending w"
  by (simp add: triggerLocked_def Pending_seal)

lemma accounts_timer: "accounts y \<Longrightarrow> accounts (runTimer p y)"
  by (auto simp: runTimer_def Let_def intro!: accounts_writer tallied_moves tallied_trigger)
    (simp_all add: accounts_def)

lemma accounts_flush: "accounts y \<Longrightarrow> Flush_begin y = (r, y') \<Longrightarrow> accounts y'"
  by (auto simp: Flush_begin_def Pending_seal split: if_splits intro!: accounts_writer tallied_seal)
    (simp add: accounts_def)

lemma accounts_close_begin: "accounts y \<Longrightarrow> close_begin y = (r, y') \<Longrightarrow> accounts y'"
proof -
  assume a: "accounts y" and run: "close_begin y = (r, y')"
  let ?w = "sealLocked (fw_now (sy_world y)) (sy_writer y)"
  have "tallied ?w"
    using a by (intro tallied_seal) (simp add: accounts_def)
  then have "tallied (?w\<lparr>wr_phase := ph\<rparr>)" for ph
    by (simp only: tallied_upd)
  then show "accounts y'"
    using run a by (auto simp: close_begin_def Pending_seal intro!: accounts_writer split: if_splits)
qed

lemma accounts_close_step: "accounts y \<Longrightarrow> accounts (close_step p expired y)"
proof -
  assume a: "accounts y"
  let ?w = "sy_writer y"
  have w: "accounts (y\<lparr>sy_writer := ?w\<lparr>wr_worker := k, wr_phase := ph\<rparr>\<rparr>)" "accounts (y\<lparr>sy_writer := ?w\<lparr>wr_worker := k\<rparr>\<rparr>)"
    if "tallied (?w\<lparr>wr_worker := k\<rparr>)" for k ph
    using that by (auto intro!: accounts_writer [OF a])
  have t: "tallied ?w"
    using a by (simp add: accounts_def)
  have k: "accounts (y\<lparr>sy_writer := ?w\<lparr>wr_timer := False, wr_worker := Kick (wr_worker ?w), wr_phase := ph\<rparr>\<rparr>)" for ph
    using tallied_moves(1) [of "?w\<lparr>wr_timer := False\<rparr>"] t by (auto intro!: accounts_writer [OF a])
  have "covered y"
    using a by (simp add: accounts_def)
  then have "accounts (y\<lparr>sy_writer := ?w\<lparr>wr_phase := ph\<rparr>, sy_store := detach ns n (sy_store y)\<rparr>)" for ph ns n
    using t by (simp add: accounts_def covered_def detach_def limits_ok_def)
  then show ?thesis
    using a k w [OF tallied_moves(3) [OF t]] w [OF tallied_moves(2) [OF t]]
    by (auto simp: close_step_def wait_begin_def Let_def wait_answer_eq split: close_phase.split option.split)
qed

lemma close_step_counters: "ceiling_le (sy_store y) (sy_store (close_step p expired y))"
  by (auto simp: close_step_def wait_begin_def Let_def wait_answer_eq detach_def ceiling_le_def split: close_phase.split option.split)

lemma accounts_step:
  assumes "sys_step p y y'" "accounts y"
  shows "accounts y' \<and> ceiling_le (sy_store y) (sy_store y')"
  using assms
proof (induction rule: sys_step.induct)
  case (worker y)
  then show ?case
    using accounts_worker [of y p] by (simp add: ceiling_le_def le_max_iff_disj)
next
  case (inserted row payload y r y')
  then show ?case
    using accounts_stageBatch [of y "[payload]" "[row]" p r y'] by (simp add: stage_batch ceiling_le_def)
next
  case (batch_inserted rows payloads y r y')
  then have "length payloads = length rows"
    using convert_rows_Inr list_all2_lengthD by metis
  then show ?case
    using accounts_stageBatch [of y payloads rows p r y'] batch_inserted by (simp add: ceiling_le_def)
next
  case (hooked rows y r y')
  then show ?case
    using call_hook_same by fastforce
next
  case (flush y r y')
  then have "sy_store y' = sy_store y"
    by (auto simp: Flush_begin_def Let_def split: if_splits)
  then show ?case
    using accounts_flush flush by auto
next
  case (close y r y')
  then have "sy_store y' = sy_store y"
    by (auto simp: close_begin_def Let_def split: if_splits)
  then show ?case
    using accounts_close_begin close by auto
next
  case (waited y since seq)
  then show ?case
    using accounts_writer [OF waited tallied_moves(3)]
    by (simp add: wait_answer_eq) (simp add: accounts_def)
next
  case (wait_began y)
  then show ?case
    using accounts_writer [OF wait_began tallied_moves(1)]
    by (simp add: wait_begin_def) (simp add: accounts_def)
next
  case (others_accept n b y)
  then show ?case
    using acceptBatch_result [of "sy_store y" n b]
    by (auto simp: accounts_def covered_def limits_ok_def ceiling_le_def)
next
  case (others_release n y b)
  then have le: "n \<le> sk_records (sy_store y)" "b \<le> sk_bytes (sy_store y)"
    using tallied_Pending [of "sy_writer y"] by (auto simp: accounts_def Pending_def)
  then show ?case
    using others_release release_result [of "sy_store y" n b]
    by (auto simp: accounts_def covered_def limits_ok_def ceiling_le_def)
next
  case (timer y)
  have "sy_store (runTimer p y) = sy_store y"
    by (simp add: runTimer_def Let_def)
  then show ?case
    using accounts_timer [OF timer] by simp
qed (auto simp: accounts_close_step close_step_counters)

lemma accounts_run:
  "sys_run p y y' \<Longrightarrow> accounts y \<Longrightarrow> accounts y' \<and> ceiling_le (sy_store y) (sy_store y')"
  by (induction rule: sys_run.induct) (auto dest: accounts_step intro: ceiling_le_trans)


text \<open>A writer just opened on the rows pending for its table.\<close>

definition opened :: "PendingBatch list \<Rightarrow> 'row System \<Rightarrow> bool" where
  "opened pending y \<longleftrightarrow> (\<exists>now. sy_writer y = replay pending (new_writer now))
     \<and> (\<forall>b\<in>set pending. \<forall>r\<in>set (pb_Rows b). 0 \<le> pr_ByteLen r)
     \<and> covered y"

lemma opened_accounts: "opened pending y \<Longrightarrow> accounts y"
  using tallied_replay [OF tallied_new] by (auto simp: opened_def accounts_def)

definition sample_plan :: "(Row, unit) plan" where
  "sample_plan = \<lparr>pl_opts = flush_opts,
     pl_settings = \<lparr>rv_maxRecords = 2, rv_maxBytes = 1000, rv_interval = 60, rv_floor = 10\<rparr>,
     pl_Bind = Inr, pl_onAccept = None\<rparr>"

definition sample_system :: "Row System" where
  "sample_system = \<lparr>sy_store = \<lparr>sk_MaxRecords = 10, sk_MaxBytes = 100, sk_records = 1, sk_bytes = 18,
       sk_writers = [\<lparr>tid_Namespace = ''ns'', tid_Table = ''t''\<rparr> \<mapsto> liveWriter], sk_closed = False\<rparr>,
     sy_writer = replay [\<lparr>pb_Key = [], pb_Rows = [\<lparr>pr_ID = 2, pr_SchemaFP = d_fp sample_descriptor, pr_ByteLen = 18\<rparr>]\<rparr>]
       (new_writer 0),
     sy_world = flush_start, sy_called = []\<rparr>"

lemma sample_opened: "opened [\<lparr>pb_Key = [], pb_Rows = [\<lparr>pr_ID = 2, pr_SchemaFP = d_fp sample_descriptor, pr_ByteLen = 18\<rparr>]\<rparr>] sample_system"
  by (auto simp: opened_def sample_system_def covered_def limits_ok_def Pending_def new_writer_def flush_row_of_def)

text \<open>C18: The counters are right. Whatever inserts, flushes, callbacks, ticks, closes and other writers
  interleave, what \<open>Pending\<close> reports is exactly the number and the bytes of the rows the writer holds, in its batch
  and in the queue of sealed batches not yet committed or quarantined; the store's ceiling counters cover them;
  and no counter of the store passes its limit, except one that began above it and then never grew.\<close>

theorem ceiling_accounts:
  assumes "sys_run p y0 y" "opened pending y0"
  shows "Pending (sy_writer y) =
        (int (length (wr_batch (sy_writer y) @ queued_rows (wr_worker (sy_writer y)))),
         sum_list (map frw_ByteLen (wr_batch (sy_writer y) @ queued_rows (wr_worker (sy_writer y)))))
    \<and> fst (Pending (sy_writer y)) \<le> sk_records (sy_store y)
    \<and> snd (Pending (sy_writer y)) \<le> sk_bytes (sy_store y)
    \<and> sk_records (sy_store y) \<le> max (sk_records (sy_store y0)) (sk_MaxRecords (sy_store y0))
    \<and> sk_bytes (sy_store y) \<le> max (sk_bytes (sy_store y0)) (sk_MaxBytes (sy_store y0))"
  using accounts_run [OF assms(1) opened_accounts [OF assms(2)]] tallied_Pending(1) [of "sy_writer y"]
  by (simp add: accounts_def covered_def ceiling_le_def)

theorem ceiling_accounts_witness:
  "Pending (sy_writer (runTimer sample_plan sample_system)) = (1, 18)"
proof -
  have "sys_run sample_plan sample_system (runTimer sample_plan sample_system)"
    by (rule sys_run.more [OF sys_run.start sys_step.timer])
  from ceiling_accounts [OF this sample_opened] show ?thesis
    by (simp add: runTimer_def sample_system_def sample_plan_def new_writer_def Let_def wr_closed_def triggerLocked_def
        flush_row_of_def flush_start_def queued_rows_def unsettled_def settled_def Kick_def NewWorker_def)
qed

section \<open>A flush is a checkpoint\<close>

text \<open>The ids of the rows a writer holds.\<close>

definition pending_ids :: "'row Writer \<Rightarrow> int set" where
  "pending_ids w = frw_ID ` set (wr_batch w @ queued_rows (wr_worker w))"

text \<open>What every run keeps of the database, the table handle and the queue.\<close>

definition sane :: "('row, 'r) plan \<Rightarrow> 'row System \<Rightarrow> bool" where
  "sane p y \<longleftrightarrow> descriptor_ok (fo_Descriptor (pl_opts p)) \<and> (fo_LocalOnly (pl_opts p) \<longrightarrow> fo_Spool (pl_opts p))
     \<and> staging_ok (st_db (sys_store y)) \<and> handle_ok (sy_world y) \<and> queue_inv (wr_worker (sy_writer y))
     \<and> (\<forall>i\<in>pending_ids (sy_writer y). i \<le> db_seq (st_db (sys_store y)))"

abbreviation sys_db :: "'row System \<Rightarrow> db" where
  "sys_db y \<equiv> st_db (sys_store y)"

text \<open>The goroutine stands at the end of a cycle that settled a batch holding the row \<open>i\<close>.\<close>

definition settles_row :: "('row, 'r) plan \<Rightarrow> int \<Rightarrow> 'row System \<Rightarrow> bool" where
  "settles_row p i y \<longleftrightarrow> (\<exists>res j js. wk_pc (wr_worker (sy_writer y)) = Finishing res
     \<and> wk_queue (wr_worker (sy_writer y)) = j # js \<and> i \<in> frw_ID ` set (job_rows j)
     \<and> settles (pl_opts p) res (jb_batch j) (sy_world y))"

text \<open>Such a moment lies between \<open>ys\<close> and \<open>y\<close>, and every data file the table had then it still has.\<close>

definition settled_since :: "('row, 'r) plan \<Rightarrow> 'row System \<Rightarrow> int \<Rightarrow> 'row System \<Rightarrow> bool" where
  "settled_since p ys i y \<longleftrightarrow> (\<exists>ya. sys_run p ys ya \<and> sys_run p ya y \<and> settles_row p i ya
     \<and> set (catalog_files (sy_world ya)) \<subseteq> set (catalog_files (sy_world y)))"

lemma settled_since_step:
  "settled_since p ys i y \<Longrightarrow> sys_step p y y' \<Longrightarrow> set (catalog_files (sy_world y)) \<subseteq> set (catalog_files (sy_world y')) \<Longrightarrow>
    settled_since p ys i y'"
  unfolding settled_since_def by (meson subset_trans sys_run.more)

text \<open>Each of the ids \<open>R\<close> is in a batch sealed up to \<open>seq\<close>, or it waits no more and its batch was settled since
  \<open>ys\<close>.\<close>

definition leaving :: "('row, 'r) plan \<Rightarrow> 'row System \<Rightarrow> int set \<Rightarrow> nat \<Rightarrow> 'row System \<Rightarrow> bool" where
  "leaving p ys R seq y \<longleftrightarrow> sys_run p ys y \<and> (\<forall>i\<in>R. i \<le> db_seq (sys_db y)
     \<and> ((\<exists>j\<in>set (unsettled (wr_worker (sy_writer y))). jb_seq j \<le> seq \<and> i \<in> frw_ID ` set (job_rows j))
        \<or> i \<notin> waiting (sy_world y) \<and> settled_since p ys i y))"

text \<open>A move of anything but the worker's goroutine: the queue only grows at its end, and the database only
  as the store's operations move it.\<close>

definition outer :: "'row System \<Rightarrow> 'row System \<Rightarrow> bool" where
  "outer y y' \<longleftrightarrow> (staging_ok (sys_db y) \<longrightarrow> grows (sys_db y) (sys_db y'))
     \<and> (handle_ok (sy_world y) \<longrightarrow> handle_ok (sy_world y')) \<and> fw_catalog (sy_world y') = fw_catalog (sy_world y)
     \<and> (queue_inv (wr_worker (sy_writer y)) \<longrightarrow> queue_inv (wr_worker (sy_writer y'))
          \<and> set (unsettled (wr_worker (sy_writer y))) \<subseteq> set (unsettled (wr_worker (sy_writer y')))
          \<and> (\<forall>i\<in>pending_ids (sy_writer y'). i \<in> pending_ids (sy_writer y) \<or> i \<le> db_seq (sys_db y')))"

lemma outer_keeps:
  assumes "outer y y'" "sane p y"
  shows "sane p y'" "sys_step p y y' \<Longrightarrow> leaving p ys R seq y \<Longrightarrow> leaving p ys R seq y'"
proof -
  have g: "grows (sys_db y) (sys_db y')"
    and q: "set (unsettled (wr_worker (sy_writer y))) \<subseteq> set (unsettled (wr_worker (sy_writer y')))"
    using assms by (simp_all add: outer_def sane_def)
  have "\<forall>i\<in>pending_ids (sy_writer y'). i \<le> db_seq (sys_db y')"
    using assms g by (auto simp: outer_def sane_def grows_def evolves_def intro: order_trans)
  then show "sane p y'"
    using assms g by (simp add: outer_def sane_def grows_def)
  show "leaving p ys R seq y'" if step: "sys_step p y y'" and l: "leaving p ys R seq y"
    unfolding leaving_def
  proof (intro conjI ballI)
    show "sys_run p ys y'"
      using l step by (auto simp: leaving_def intro: sys_run.more)
    fix i assume i: "i \<in> R"
    then have le: "i \<le> db_seq (sys_db y)"
      using l by (simp add: leaving_def)
    then show "i \<le> db_seq (sys_db y')"
      using g by (simp add: grows_def evolves_def)
    have "settled_since p ys i y \<Longrightarrow> settled_since p ys i y'"
      using settled_since_step [OF _ step] assms(1) by (simp add: outer_def)
    then show "(\<exists>j\<in>set (unsettled (wr_worker (sy_writer y'))). jb_seq j \<le> seq \<and> i \<in> frw_ID ` set (job_rows j))
        \<or> i \<notin> waiting (sy_world y') \<and> settled_since p ys i y'"
      using l i q waiting_grows [OF g le] unfolding leaving_def by blast
  qed
qed


text \<open>The moves of the worker's record.\<close>

lemma unsettled_moves [simp]:
  "unsettled (Kick k) = unsettled k" "unsettled (Worker_Close k) = unsettled k"
  "unsettled (snd (answer since seq k)) = unsettled k"
  by (auto simp: unsettled_def settled_def Kick_def Worker_Close_def answer_def)

lemma unsettled_Enqueue:
  assumes "queue_inv k"
  shows "unsettled (snd (Enqueue b replayed k)) = unsettled k @ [\<lparr>jb_batch = b, jb_seq = wk_enqueued k + 1,
    jb_replayed = replayed, jb_attempts = 0, jb_attempted = False\<rparr>]"
proof -
  have "settled k \<Longrightarrow> wk_queue k \<noteq> []"
    using assms by (auto simp: settled_def queue_inv_def)
  moreover have "settled (snd (Enqueue b replayed k)) = settled k"
    by (rule settled_same) (simp add: Enqueue_def Let_def)
  ultimately show ?thesis
    by (simp add: unsettled_def Enqueue_def Let_def)
qed

lemma outer_worker:
  assumes "\<And>k. k = wr_worker (sy_writer y) \<Longrightarrow> queue_inv k \<Longrightarrow>
      queue_inv (wr_worker w) \<and> set (unsettled k) \<subseteq> set (unsettled (wr_worker w))"
    "queue_inv (wr_worker (sy_writer y)) \<Longrightarrow> pending_ids w = pending_ids (sy_writer y)"
  shows "outer y (y\<lparr>sy_writer := w, sy_store := s\<rparr>)"
  using assms by (auto simp: outer_def grows_def)

lemma seal_ids: "queue_inv (wr_worker w) \<Longrightarrow> pending_ids (sealLocked now w) = pending_ids w"
  using seal_rows(1) [of w now] unfolding pending_ids_def by (metis set_append sup_commute)

lemma trigger_ids: "queue_inv (wr_worker w) \<Longrightarrow> pending_ids (triggerLocked rv now w) = pending_ids w"
  using seal_ids [of w now] by (simp add: triggerLocked_def) (simp add: pending_ids_def)

lemma pending_ids_upd [simp]:
  "queued_rows k = queued_rows (wr_worker w) \<Longrightarrow> pending_ids (w\<lparr>wr_worker := k\<rparr>) = pending_ids w"
  "pending_ids (w\<lparr>wr_phase := ph\<rparr>) = pending_ids w" "pending_ids (w\<lparr>wr_timer := t\<rparr>) = pending_ids w"
  by (simp_all add: pending_ids_def)

lemma seal_queue:
  assumes "queue_inv (wr_worker w)"
  shows "queue_inv (wr_worker (sealLocked now w)) \<and> set (unsettled (wr_worker w)) \<subseteq> set (unsettled (wr_worker (sealLocked now w)))"
  using assms by (auto simp: sealLocked_def queue_inv_Enqueue unsettled_Enqueue)

lemma trigger_queue:
  assumes "queue_inv (wr_worker w)"
  shows "queue_inv (wr_worker (triggerLocked rv now w))
    \<and> set (unsettled (wr_worker w)) \<subseteq> set (unsettled (wr_worker (triggerLocked rv now w)))"
  using seal_queue [OF assms] assms by (auto simp: triggerLocked_def)

lemma staged_writer_queue:
  assumes "queue_inv (wr_worker w)"
  shows "queue_inv (wr_worker (staged_writer p rows ids payloads now w))
    \<and> set (unsettled (wr_worker w)) \<subseteq> set (unsettled (wr_worker (staged_writer p rows ids payloads now w)))"
proof -
  let ?w = "rememberBatch rows (w\<lparr>wr_batch := wr_batch w @ map2 (\<lambda>i b. \<lparr>frw_ID = i, frw_ByteLen = int (length b)\<rparr>) ids payloads,
      wr_batchBytes := wr_batchBytes w + sum_list (map (\<lambda>b. int (length b)) payloads)\<rparr>)"
  have "wr_worker ?w = wr_worker w"
    by (simp add: rememberBatch_def Let_def)
  then show ?thesis
    using trigger_queue [of ?w] assms by (simp add: staged_writer_def check_thresholds_def)
qed

lemma staged_writer_ids:
  assumes "queue_inv (wr_worker w)"
  shows "pending_ids (staged_writer p rows ids payloads now w) \<subseteq> pending_ids w \<union> set ids"
proof -
  let ?w = "rememberBatch rows (w\<lparr>wr_batch := wr_batch w @ map2 (\<lambda>i b. \<lparr>frw_ID = i, frw_ByteLen = int (length b)\<rparr>) ids payloads,
      wr_batchBytes := wr_batchBytes w + sum_list (map (\<lambda>b. int (length b)) payloads)\<rparr>)"
  have "pending_ids (staged_writer p rows ids payloads now w) = pending_ids ?w"
    using trigger_ids [of ?w] assms by (simp add: staged_writer_def check_thresholds_def rememberBatch_def Let_def)
  also have "pending_ids ?w \<subseteq> pending_ids w \<union> set ids"
    by (auto simp: pending_ids_def rememberBatch_def Let_def dest: set_zip_leftD)
  finally show ?thesis .
qed

lemma outer_stageBatch:
  assumes "stageBatch p rows payloads y = (r, y')" "descriptor_ok (fo_Descriptor (pl_opts p))"
  shows "outer y y'"
proof -
  let ?op = "AppendBatch (map (append_row p (fw_now (sy_world y))) payloads)"
  obtain res s where run: "?op (sys_store y) = (res, s)" by (metis prod.collapse)
  have "rows_described (map (append_row p (fw_now (sy_world y))) payloads)"
    using assms(2) by (auto simp: rows_described_def append_row_def)
  from keeps_AppendBatch [OF this] have g: "staging_ok (sys_db y) \<Longrightarrow> grows (sys_db y) (st_db s)"
    using run unfolding keeps_def grows_def by (metis evolves_refl snd_conv)
  have "sy_writer y' = sy_writer y \<and> (sy_world y' = sy_world y \<or> sy_world y' = sy_world (set_store s y))
    \<or> (\<exists>ids. res = Inr ids \<and> sy_writer y' = staged_writer p rows ids payloads (fw_now (sy_world y)) (sy_writer y)
         \<and> sy_world y' = sy_world (set_store s y))"
    using assms(1) run
    by (auto simp: stageBatch_def Let_def staging_call_def staged_writer_def split: if_splits prod.splits bool.splits sum.splits)
  then show ?thesis
  proof (elim disjE exE conjE)
    fix ids
    assume res: "res = Inr ids" and w: "sy_writer y' = staged_writer p rows ids payloads (fw_now (sy_world y)) (sy_writer y)"
      and y': "sy_world y' = sy_world (set_store s y)"
    have "\<forall>i\<in>set ids. i \<le> db_seq (st_db s)"
      using AppendBatch_result [OF run] res by auto
    then have "\<forall>i\<in>pending_ids (sy_writer y'). i \<in> pending_ids (sy_writer y) \<or> i \<le> db_seq (st_db s)"
      if "queue_inv (wr_worker (sy_writer y))"
      using staged_writer_ids [OF that, of p rows ids payloads "fw_now (sy_world y)"] w by auto
    then show ?thesis
      using g y' staged_writer_queue [of "sy_writer y" p rows ids payloads "fw_now (sy_world y)"] unfolding outer_def w
      by (simp add: handle_ok_def)
  qed (use g in \<open>simp_all add: outer_def handle_ok_def, auto simp: grows_def\<close>)
qed

lemma outer_refl [simp]: "outer y y"
  by (auto simp: outer_def grows_def)

lemma outer_step:
  assumes "sys_step p y y'" "descriptor_ok (fo_Descriptor (pl_opts p))"
  shows "y' = run_worker p y \<or> outer y y'"
  using assms(1)
proof (cases rule: sys_step.cases)
  case (inserted row payload r)
  then show ?thesis
    using outer_stageBatch [OF _ assms(2), of "[row]" "[payload]" y r y'] by (simp add: stage_batch)
next
  case (batch_inserted rows payloads r)
  then show ?thesis
    using outer_stageBatch [OF _ assms(2)] by blast
next
  case (hooked rows r)
  then obtain c where "y' = y\<lparr>sy_called := c\<rparr>"
    using call_hook_same by blast
  then show ?thesis
    by (auto simp: outer_def grows_def)
next
  case timer
  let ?w = "if wr_closed (sy_writer y) then sy_writer y else triggerLocked (pl_settings p) (fw_now (sy_world y)) (sy_writer y)"
  have "outer y (y\<lparr>sy_writer := ?w\<lparr>wr_worker := Kick (wr_worker ?w)\<rparr>, sy_store := sy_store y\<rparr>)"
    by (rule outer_worker) (use trigger_queue [of "sy_writer y"] trigger_ids [of "sy_writer y"] in \<open>auto simp: queue_inv_moves\<close>)
  then show ?thesis
    using timer by (simp add: runTimer_def Let_def)
next
  case (flush r)
  let ?w = "sealLocked (fw_now (sy_world y)) (sy_writer y)"
  have "outer y (y\<lparr>sy_writer := ?w, sy_store := sy_store y\<rparr>)"
    by (rule outer_worker) (use seal_queue [of "sy_writer y"] seal_ids [of "sy_writer y"] in auto)
  then show ?thesis
    using flush by (auto simp: Flush_begin_def split: if_splits)
next
  case wait_began
  have "outer y (y\<lparr>sy_writer := (sy_writer y)\<lparr>wr_worker := Kick (wr_worker (sy_writer y))\<rparr>, sy_store := sy_store y\<rparr>)"
    by (rule outer_worker) (simp_all add: queue_inv_moves)
  then show ?thesis
    using wait_began by (simp add: wait_begin_def)
next
  case (close r)
  let ?w = "sealLocked (fw_now (sy_world y)) (sy_writer y)"
  have "outer y (y\<lparr>sy_writer := ?w\<lparr>wr_phase := ph\<rparr>, sy_store := sy_store y\<rparr>)" for ph
    by (rule outer_worker) (use seal_queue [of "sy_writer y"] seal_ids [of "sy_writer y"] in auto)
  then show ?thesis
    using close by (auto simp: close_begin_def split: if_splits)
next
  case (waited since seq)
  have "outer y (y\<lparr>sy_writer := (sy_writer y)\<lparr>wr_worker := snd (answer since seq (wr_worker (sy_writer y)))\<rparr>, sy_store := sy_store y\<rparr>)"
    by (rule outer_worker) (simp_all add: queue_inv_answer)
  then show ?thesis
    using waited by (simp add: wait_answer_eq)
next
  case (closing expired)
  have "outer y (y\<lparr>sy_writer := (sy_writer y)\<lparr>wr_worker := k, wr_phase := ph\<rparr>, sy_store := s\<rparr>)"
    "outer y (y\<lparr>sy_writer := (sy_writer y)\<lparr>wr_worker := k\<rparr>, sy_store := s\<rparr>)"
    if "queue_inv (wr_worker (sy_writer y)) \<Longrightarrow> queue_inv k" "unsettled k = unsettled (wr_worker (sy_writer y))" for k ph s
    using that by (auto intro!: outer_worker simp: queued_rows_def)
  note w = this [where s = "sy_store y"] and d = this(1) [of "wr_worker (sy_writer y)"]
  have k: "outer y (y\<lparr>sy_writer := (sy_writer y)\<lparr>wr_timer := False, wr_worker := Kick (wr_worker (sy_writer y)), wr_phase := ph\<rparr>, sy_store := sy_store y\<rparr>)" for ph
    by (rule outer_worker) (simp_all add: queue_inv_moves)
  have "outer y (y\<lparr>sy_world := (sy_world y)\<lparr>fw_ctx := c\<rparr>\<rparr>)" for c
    by (auto simp: outer_def grows_def handle_ok_def)
  then show ?thesis
    using closing k w [of "snd (answer since seq (wr_worker (sy_writer y)))" for since seq] w [of "Worker_Close (wr_worker (sy_writer y))"] d
    by (auto simp: close_step_def wait_begin_def Let_def wait_answer_eq queue_inv_answer queue_inv_moves split: close_phase.split option.split)
next
  case (others_staging s)
  then have "staging_ok (sys_db y) \<Longrightarrow> grows (sys_db y) (st_db s)"
    using grows_step [of "sys_store y" s "sys_db y"] by (simp add: grows_def)
  then show ?thesis
    using others_staging by (auto simp: outer_def handle_ok_def)
qed (auto simp: outer_def grows_def handle_ok_def)


lemma notify_handle: "handle_ok (notify opts res w) = handle_ok w"
  by (simp add: notify_def emit_def handle_ok_def split: option.split)

lemma notify_catalog: "fw_catalog (notify opts res w) = fw_catalog w"
  by (simp add: notify_def emit_def split: option.split)

text \<open>A step of the goroutine: the head leaves only when the cycle settled it.\<close>

lemma run_step_leaves:
  assumes "descriptor_ok (fo_Descriptor opts)" "fo_LocalOnly opts \<longrightarrow> fo_Spool opts"
    "queue_inv k" "handle_ok w" "staging_ok (st_db (fw_store w))" "run_step opts (k, w) = (k', w')"
  shows "handle_ok w'" "set (catalog_files w) \<subseteq> set (catalog_files w')"
    "j \<in> set (unsettled k) \<Longrightarrow> (\<exists>j'\<in>set (unsettled k'). jb_seq j' = jb_seq j \<and> job_rows j' = job_rows j)
       \<or> (\<exists>res j' js. wk_pc k' = Finishing res \<and> wk_queue k' = j' # js \<and> job_rows j' = job_rows j
            \<and> settles opts res (jb_batch j') w')"
proof -
  obtain c w1 where c: "ctx_done w = (c, w1)" by (metis prod.collapse)
  have w1: "handle_ok w1" "fw_store w1 = fw_store w" "fw_catalog w1 = fw_catalog w"
    using quiet_handle(1) [OF c] quiet_store_moves(1) [OF c] quiet_catalog(1) [OF c] assms(4) by simp_all
  have both: "handle_ok w' \<and> set (catalog_files w) \<subseteq> set (catalog_files w') \<and> (j \<in> set (unsettled k) \<longrightarrow>
      (\<exists>j'\<in>set (unsettled k'). jb_seq j' = jb_seq j \<and> job_rows j' = job_rows j)
       \<or> (\<exists>res j' js. wk_pc k' = Finishing res \<and> wk_queue k' = j' # js \<and> job_rows j' = job_rows j
            \<and> settles opts res (jb_batch j') w'))"
  proof (cases "wk_pc k = Look \<and> \<not> c \<and> wk_queue k \<noteq> []")
    case True
    then obtain h js where q: "wk_queue k = h # js" by (cases "wk_queue k") auto
    obtain res h' w2 where cyc: "cycle opts h w1 = (res, h', w2)" by (metis prod.collapse)
    have step: "k' = k\<lparr>wk_queue := h' # js, wk_pc := Finishing res\<rparr>" "w' = emit (EvCycle (rs_err res)) w2"
      using assms(6) True c q cyc by (auto simp: run_step_def)
    have ends: "handle_ok w2" "set (catalog_files w) \<subseteq> set (catalog_files w2)"
        "rs_err res = None \<or> rs_quarantined res \<Longrightarrow> settles opts res (jb_batch h') w2"
      using tries_ends [OF assms(1,2), of "h\<lparr>jb_attempts := 0\<rparr>" w1 res h' w2] cyc w1 assms(5) by (auto simp: cycle_def)
    have same: "jb_seq h' = jb_seq h" "job_rows h' = job_rows h"
      using tries_keeps [of opts "h\<lparr>jb_attempts := 0\<rparr>" w1 res h' w2] cyc by (simp_all add: cycle_def)
    have "unsettled k = h # js"
      using True q by (simp add: unsettled_def settled_def)
    moreover have "unsettled k' = (if rs_err res = None \<or> rs_quarantined res then js else h' # js)"
      using step by (simp add: unsettled_def settled_def)
    moreover have "settles opts res b w' = settles opts res b w2" for b
      unfolding step(2) by (rule settles_cong) (simp_all add: emit_def)
    moreover have "handle_ok w' = handle_ok w2" "fw_catalog w' = fw_catalog w2"
      using step by (simp_all add: emit_def handle_ok_def)
    ultimately show ?thesis
      using ends same step(1) by auto
  next
    case False
    have "unsettled k' = unsettled k"
    proof (cases "wk_pc k")
      case (Finishing res)
      then have "k' = (let k1 = (finish res k)\<lparr>wk_pc := Look\<rparr> in
          if rs_err res \<noteq> None \<and> \<not> rs_quarantined res then idle_enter k1 else k1)"
        using assms(6) by (simp add: run_step_def Let_def)
      then have "wk_queue k' = (if rs_err res = None \<or> rs_quarantined res then tl (wk_queue k) else wk_queue k)"
          "\<not> settled k'"
        by (auto simp: Let_def finish_def idle_enter_def settled_def)
      then show ?thesis
        using Finishing by (simp add: unsettled_def settled_def [of k])
    qed (use assms(6) False c in \<open>auto simp: run_step_def idle_enter_def idle_wake_def unsettled_def settled_def
        split: list.splits if_splits\<close>)
    moreover have "fw_store w' = fw_store w" "handle_ok w'" "fw_catalog w' = fw_catalog w"
      using assms(4,6) False c w1
      by (cases "wk_pc k"; auto simp: run_step_def Let_def notify_handle notify_catalog split: list.splits if_splits)+
    ultimately show ?thesis
      by auto
  qed
  then show "handle_ok w'" "set (catalog_files w) \<subseteq> set (catalog_files w')"
    "j \<in> set (unsettled k) \<Longrightarrow> (\<exists>j'\<in>set (unsettled k'). jb_seq j' = jb_seq j \<and> job_rows j' = job_rows j)
       \<or> (\<exists>res j' js. wk_pc k' = Finishing res \<and> wk_queue k' = j' # js \<and> job_rows j' = job_rows j
            \<and> settles opts res (jb_batch j') w')"
    by simp_all
qed


lemma fold_callback_frame: "wr_worker (sy_writer (fold callback es y)) = wr_worker (sy_writer y)
    \<and> wr_batch (sy_writer (fold callback es y)) = wr_batch (sy_writer y)
    \<and> sy_world (fold callback es y) = sy_world y"
proof (induction es arbitrary: y)
  case (Cons e es)
  have "wr_worker (sy_writer (callback e y)) = wr_worker (sy_writer y)
      \<and> wr_batch (sy_writer (callback e y)) = wr_batch (sy_writer y) \<and> sy_world (callback e y) = sy_world y"
    by (cases e) (simp_all add: wr_committed_def wr_quarantined_def cycleEnded_def noteCommit_def Let_def)
  with Cons show ?case by simp
qed simp

lemma worker_keeps:
  assumes "sane p y"
  shows "sane p (run_worker p y)" "leaving p ys R seq y \<Longrightarrow> leaving p ys R seq (run_worker p y)"
proof -
  let ?k = "wr_worker (sy_writer y)"
  obtain k' w' where run: "run_step (pl_opts p) (?k, sy_world y) = (k', w')" by (metis prod.collapse)
  have y': "wr_worker (sy_writer (run_worker p y)) = k'" "sy_world (run_worker p y) = w'"
    and batch: "wr_batch (sy_writer (run_worker p y)) = wr_batch (sy_writer y)"
    using run by (simp_all add: run_worker_def fold_callback_frame)
  have ok: "descriptor_ok (fo_Descriptor (pl_opts p))" "fo_LocalOnly (pl_opts p) \<longrightarrow> fo_Spool (pl_opts p)"
      "queue_inv ?k" "handle_ok (sy_world y)" "staging_ok (sys_db y)"
    using assms by (auto simp: sane_def)
  have "grows (sys_db y) (sys_db y)"
    using ok(5) by (simp add: grows_def)
  from run_step_grows [OF ok(1) run this] have g: "grows (sys_db y) (st_db (fw_store w'))" .
  have "queue_inv k'"
    using queue_inv_run_step [OF ok(3), of "pl_opts p" "sy_world y"] run by simp
  have "set (queued_rows k') \<subseteq> set (queued_rows ?k)"
    using run_step_news [OF ok(3) run] by (metis (no_types, lifting) set_append sup_ge2 subset_refl)
  then have "pending_ids (sy_writer (run_worker p y)) \<subseteq> pending_ids (sy_writer y)"
    using y' batch by (auto simp: pending_ids_def)
  then have "\<forall>i\<in>pending_ids (sy_writer (run_worker p y)). i \<le> db_seq (st_db (fw_store w'))"
    using assms g by (auto simp: sane_def grows_def evolves_def intro: order_trans)
  with \<open>queue_inv k'\<close> show "sane p (run_worker p y)"
    using run_step_leaves(1) [OF ok run] g ok(1,2) y' by (simp add: sane_def grows_def)
  assume l: "leaving p ys R seq y"
  then have reach: "sys_run p ys (run_worker p y)"
    by (auto simp: leaving_def intro: sys_run.more sys_step.worker)
  have ok': "staging_ok (st_db (fw_store w'))"
    using g by (simp add: grows_def)
  show "leaving p ys R seq (run_worker p y)"
    unfolding leaving_def y'
  proof (intro ballI conjI)
    show "sys_run p ys (run_worker p y)" by (rule reach)
    fix i assume i: "i \<in> R"
    then have le: "i \<le> db_seq (sys_db y)"
      using l by (simp add: leaving_def)
    then show "i \<le> db_seq (st_db (fw_store w'))"
      using g by (simp add: grows_def evolves_def)
    from l i consider j where "j \<in> set (unsettled ?k)" "jb_seq j \<le> seq" "i \<in> frw_ID ` set (job_rows j)"
      | "i \<notin> waiting (sy_world y)" "settled_since p ys i y"
      by (auto simp: leaving_def)
    then show "(\<exists>j\<in>set (unsettled k'). jb_seq j \<le> seq \<and> i \<in> frw_ID ` set (job_rows j))
        \<or> i \<notin> waiting w' \<and> settled_since p ys i (run_worker p y)"
    proof cases
      case 1
      from run_step_leaves(3) [OF ok run 1(1)] show ?thesis
      proof (elim disjE exE conjE)
        fix res j' js
        assume h: "wk_pc k' = Finishing res" "wk_queue k' = j' # js" "job_rows j' = job_rows j"
          "settles (pl_opts p) res (jb_batch j') w'"
        then have "settles_row p i (run_worker p y)"
          using 1(3) y' by (auto simp: settles_row_def)
        then have "settled_since p ys i (run_worker p y)"
          using reach unfolding settled_since_def by (blast intro: sys_run.start)
        moreover have "i \<notin> waiting w'"
          using settles_waiting [OF h(4) ok'] h(3) 1(3) by auto
        ultimately show ?thesis by blast
      next
        assume "\<exists>j'\<in>set (unsettled k'). jb_seq j' = jb_seq j \<and> job_rows j' = job_rows j"
        then obtain j' where "j' \<in> set (unsettled k')" "jb_seq j' = jb_seq j" "job_rows j' = job_rows j"
          by blast
        then have "j' \<in> set (unsettled k')" "jb_seq j' \<le> seq" "i \<in> frw_ID ` set (job_rows j')"
          using 1(2,3) by simp_all
        then show ?thesis by blast
      qed
    next
      case 2
      then show ?thesis
        using waiting_grows [OF g le] settled_since_step [OF 2(2) sys_step.worker] run_step_leaves(2) [OF ok run] y'(2)
        by simp
    qed
  qed
qed

lemma sane_run:
  "sys_run p y y' \<Longrightarrow> sane p y \<Longrightarrow> sane p y' \<and> (leaving p ys R seq y \<longrightarrow> leaving p ys R seq y')"
proof (induction rule: sys_run.induct)
  case (more y y' y'')
  then show ?case
    using outer_step [of p y' y''] outer_keeps [of y' y'' p] worker_keeps [of p y'] by (auto simp: sane_def)
qed simp


lemma later_batches:
  "queue_inv k \<Longrightarrow> seq \<le> wk_completed k \<Longrightarrow> j \<in> set (unsettled k) \<Longrightarrow> seq < jb_seq j"
proof -
  assume inv: "queue_inv k" and le: "seq \<le> wk_completed k" and j: "j \<in> set (unsettled k)"
  have "j \<in> set (wk_queue k)"
    using j by (cases "wk_queue k") (auto simp: unsettled_def split: if_splits)
  then have "jb_seq j \<in> set [wk_completed k + 1 ..< wk_enqueued k + 1]"
    using inv unfolding queue_inv_def by (metis image_eqI set_map)
  then show "seq < jb_seq j"
    using le by (simp del: upt_Suc)
qed

lemma enqueued_batches: "queue_inv k \<Longrightarrow> j \<in> set (unsettled k) \<Longrightarrow> jb_seq j \<le> wk_enqueued k"
proof -
  assume inv: "queue_inv k" and j: "j \<in> set (unsettled k)"
  have "j \<in> set (wk_queue k)"
    using j by (cases "wk_queue k") (auto simp: unsettled_def split: if_splits)
  then have "jb_seq j \<in> set [wk_completed k + 1 ..< wk_enqueued k + 1]"
    using inv unfolding queue_inv_def by (metis image_eqI set_map)
  then show ?thesis by (simp del: upt_Suc)
qed

lemma flush_leaving:
  assumes "sane p y" "Flush_begin y = (None, y1)"
  shows "sane p y1" "leaving p y (pending_ids (sy_writer y)) (Sequence (wr_worker (sy_writer y1))) y1"
proof -
  let ?w = "sealLocked (fw_now (sy_world y)) (sy_writer y)"
  have y1: "y1 = y\<lparr>sy_writer := ?w\<rparr>"
    using assms(2) by (auto simp: Flush_begin_def split: if_splits)
  have inv: "queue_inv (wr_worker (sy_writer y))"
    using assms(1) by (simp add: sane_def)
  note seal = seal_queue [OF inv, of "fw_now (sy_world y)"]
  show "sane p y1"
    using assms(1) seal seal_ids [OF inv] by (simp add: sane_def y1)
  have rows: "pending_ids (sy_writer y) = frw_ID ` set (queued_rows (wr_worker ?w))"
    using seal_ids [OF inv, of "fw_now (sy_world y)"] seal_rows(2) [OF inv] by (simp add: pending_ids_def)
  have "\<exists>j\<in>set (unsettled (wr_worker ?w)). jb_seq j \<le> Sequence (wr_worker ?w) \<and> i \<in> frw_ID ` set (job_rows j)"
    if "i \<in> pending_ids (sy_writer y)" for i
    using that enqueued_batches [OF conjunct1 [OF seal]]
    by (fastforce simp: rows queued_rows_def Sequence_def)
  moreover have "sys_run p y y1"
    by (rule sys_run.more [OF sys_run.start sys_step.flush [OF assms(2)]])
  ultimately show "leaving p y (pending_ids (sy_writer y)) (Sequence (wr_worker (sy_writer y1))) y1"
    using assms(1) by (simp add: leaving_def sane_def y1)
qed

text \<open>Reading the number of the last batch later only lets the caller wait for more.\<close>

lemma wait_begin_leaving:
  assumes "sane p y" "leaving p ys R seq0 y" "wait_begin (sy_writer y) = (seq, w)"
  shows "sane p (y\<lparr>sy_writer := w\<rparr>)" "leaving p ys R seq (y\<lparr>sy_writer := w\<rparr>)"
proof -
  have w: "w = (sy_writer y)\<lparr>wr_worker := Kick (wr_worker (sy_writer y))\<rparr>" "seq = wk_enqueued (wr_worker (sy_writer y))"
    using assms(3) by (simp_all add: wait_begin_def Sequence_def)
  have inv: "queue_inv (wr_worker (sy_writer y))"
    using assms(1) by (simp add: sane_def)
  then show "sane p (y\<lparr>sy_writer := w\<rparr>)"
    using assms(1) by (simp add: sane_def w queue_inv_moves pending_ids_def queued_rows_def)
  have step: "sys_step p y (y\<lparr>sy_writer := w\<rparr>)"
    using sys_step.wait_began [of p y] assms(3) by simp
  have "settled_since p ys i y \<Longrightarrow> settled_since p ys i (y\<lparr>sy_writer := w\<rparr>)" for i
    by (rule settled_since_step [OF _ step]) simp_all
  moreover have "sys_run p ys (y\<lparr>sy_writer := w\<rparr>)"
    using assms(2) step by (auto simp: leaving_def intro: sys_run.more)
  moreover have "unsettled (wr_worker w) = unsettled (wr_worker (sy_writer y))"
    by (simp add: w(1))
  ultimately show "leaving p ys R seq (y\<lparr>sy_writer := w\<rparr>)"
    using assms(2) enqueued_batches [OF inv] unfolding leaving_def w(2) by simp blast
qed

text \<open>The same table with a replayed batch.\<close>

definition flush_system :: "Row System" where
  "flush_system = sample_system\<lparr>sy_writer :=
     replay [\<lparr>pb_Key = ''k'', pb_Rows = [\<lparr>pr_ID = 2, pr_SchemaFP = d_fp sample_descriptor, pr_ByteLen = 18\<rparr>]\<rparr>]
       (new_writer 0)\<rparr>"

lemma sample_replayed:
  assumes "jb_batch j = jb_batch flush_job" "jb_replayed j"
  shows "\<exists>w'. process flush_opts j flush_start = ((failureNone, None), j, w')"
proof -
  let ?w1 = "flush_start\<lparr>fw_shapes := [(d_fp sample_descriptor, sample_descriptor)]\<rparr>"
  have prep: "prepare flush_opts (jb_batch j) flush_start = (Inr (''k'', [sample_row], [2]), ?w1)"
    using sample_prepare assms(1) by simp
  have "\<exists>w2. attempt flush_opts j ''k'' [sample_row] [2] ?w1 = (Inr (), w2)"
    by (simp add: attempt_def deliver_def encode_batch_def mirror_def spool_write_def upload_def commit_def
        AddFile_def land_commit_def finish_commit_def markSpooled_def prune_def committed_def emit_def
        flush_opts_def flush_start_def flush_row_def flush_eval Delete_def tx_def q_DeleteStagedRow_def
        PruneSchemas_def q_DeleteUnreferencedSchemas_def data_files_def snapshot_entries_def assms
        alreadyCommitted_def AlreadyCommitted_def)
  moreover have "j\<lparr>jb_batch := (jb_batch j)\<lparr>bt_Key := ''k''\<rparr>\<rparr> = j"
    using assms(1) by (simp add: flush_job_def)
  ultimately show ?thesis
    using prep by (auto simp: process_def Let_def)
qed


lemma flush_system_sane: "sane sample_plan flush_system"
proof -
  have "sy_world flush_system = flush_start" "db_seq (st_db (fw_store flush_start)) = 2"
    "fo_Descriptor (pl_opts sample_plan) = sample_descriptor" "\<not> fo_LocalOnly (pl_opts sample_plan)"
    by (simp_all add: flush_system_def sample_system_def flush_start_def sample_plan_def flush_opts_def)
  then show ?thesis
    using flush_start_ok flush_start_sel(1) sample_descriptor_ok
    by (simp add: sane_def) (simp add: flush_system_def pending_ids_def queued_rows_def
        unsettled_def settled_def new_writer_def Enqueue_def Let_def NewWorker_def queue_inv_def flush_row_of_def)
qed

text \<open>C19: \<open>Flush\<close> is a checkpoint. When its wait ends without an error, no record the writer held when it was
  called, in its batch or in sealed batches, is staged and waiting, and for each of them there is a moment between
  the call and now at which the worker ended a cycle of its batch: either without an error, with the batch's file in
  the table's snapshot (in local-only mode on the disk) and none of its rows staged, or as a quarantine, with every
  row of it staged and marked; and the table still has every file it had at that moment. Inserts, other flushes,
  other tables' work and failures of any kind may interleave, also between the sealing, the reading of the number
  to wait for, and the wait. The hypothesis \<open>sane\<close> is that of an opened writer: a well-formed shape and staging
  store, a table handle that shows no file the catalog lacks, a spool when local-only, and pending ids that the
  store handed out.\<close>

theorem flush_is_checkpoint:
  assumes "sys_run p y0 y" "sane p y0"
    and "Flush_begin y = (None, y1)" "sys_run p y1 y2"
    and "wait_begin (sy_writer y2) = (seq, w)" "sys_run p (y2\<lparr>sy_writer := w\<rparr>) y3"
    and "fst (wait_answer since seq (sy_writer y3)) = Some None"
  shows "\<forall>i\<in>pending_ids (sy_writer y). i \<notin> waiting (sy_world y3) \<and>
    (\<exists>ya res j js. sys_run p y ya \<and> sys_run p ya y3
       \<and> wk_pc (wr_worker (sy_writer ya)) = Finishing res \<and> wk_queue (wr_worker (sy_writer ya)) = j # js
       \<and> i \<in> frw_ID ` set (job_rows j)
       \<and> (if rs_quarantined res then frw_ID ` set (job_rows j) \<subseteq> marked (sy_world ya)
          else rs_err res = None \<and> delivered (pl_opts p) (bt_Key (jb_batch j)) (sy_world ya)
             \<and> staged_ids (sy_world ya) \<inter> frw_ID ` set (job_rows j) = {})
       \<and> set (catalog_files (sy_world ya)) \<subseteq> set (catalog_files (sy_world y3)))"
proof -
  let ?R = "pending_ids (sy_writer y)"
  have "sane p y"
    using sane_run [OF assms(1,2)] by blast
  note start = flush_leaving [OF this assms(3)]
  have "sane p y2" "leaving p y ?R (Sequence (wr_worker (sy_writer y1))) y2"
    using sane_run [OF assms(4) start(1)] start(2) by blast+
  note began = wait_begin_leaving [OF this assms(5)]
  have y3: "sane p y3" "leaving p y ?R seq y3"
    using sane_run [OF assms(6) began(1)] began(2) by blast+
  have "seq \<le> wk_completed (wr_worker (sy_writer y3))"
    using assms(7) by (auto simp: wait_answer_eq answer_def split: if_splits)
  then have "i \<notin> waiting (sy_world y3) \<and> settled_since p y i y3" if "i \<in> ?R" for i
    using y3 that later_batches [of "wr_worker (sy_writer y3)" seq] by (fastforce simp: sane_def leaving_def)
  then show ?thesis
    unfolding settled_since_def settles_row_def settles_def by meson
qed

theorem flush_is_checkpoint_witness:
  "\<exists>y1 y2. y1 = flush_system\<lparr>sy_writer := snd (wait_begin (sy_writer flush_system))\<rparr> \<and> sys_run sample_plan y1 y2
     \<and> fst (wait_answer 0 1 (sy_writer y2)) = Some None \<and> 2 \<notin> waiting (sy_world y2)"
proof -
  have begin_ok: "Flush_begin flush_system = (None, flush_system)"
    by (simp add: Flush_begin_def flush_system_def sample_system_def new_writer_def wr_closed_def sealLocked_def Let_def)
  obtain w1 where w1: "wait_begin (sy_writer flush_system) = (1, w1)"
    "w1 = (sy_writer flush_system)\<lparr>wr_worker := Kick (wr_worker (sy_writer flush_system))\<rparr>"
    by (simp add: wait_begin_def flush_system_def sample_system_def new_writer_def Sequence_def Enqueue_def NewWorker_def Let_def)
  define y1 where y1: "y1 = flush_system\<lparr>sy_writer := w1\<rparr>"
  let ?k = "wr_worker (sy_writer y1)"
  let ?j = "flush_job\<lparr>jb_replayed := True\<rparr>"
  have k: "wk_pc ?k = Look" "wk_queue ?k = [?j]" "wk_quarantined ?k = None" "wk_failures ?k = 0" "wk_completed ?k = 0"
    "sy_world y1 = flush_start"
    by (simp_all add: y1 w1(2) flush_system_def sample_system_def new_writer_def Kick_def Enqueue_def NewWorker_def
        Let_def flush_row_of_def flush_job_def)
  let ?j1 = "?j\<lparr>jb_attempts := 1\<rparr>"
  obtain w where w: "process flush_opts ?j1 flush_start = ((failureNone, None), ?j1, w)"
    using sample_replayed [of ?j1] by auto
  let ?r = "\<lparr>rs_err = None, rs_quarantined = False, rs_report = False\<rparr>"
  have "cycle flush_opts ?j flush_start = (?r, ?j1\<lparr>jb_attempted := True\<rparr>, w)"
    using w by (simp add: cycle_def tries.simps [of flush_opts] Let_def flush_job_def)
  then have "run_step flush_opts (?k, sy_world y1) =
      (?k\<lparr>wk_queue := [?j1\<lparr>jb_attempted := True\<rparr>], wk_pc := Finishing ?r\<rparr>, emit (EvCycle None) w)"
    using k by (simp add: run_step_def ctx_done_def flush_start_def)
  then have "wr_worker (sy_writer (run_worker sample_plan y1)) = ?k\<lparr>wk_queue := [?j1\<lparr>jb_attempted := True\<rparr>], wk_pc := Finishing ?r\<rparr>"
    by (simp add: run_worker_def fold_callback_frame sample_plan_def)
  then have "wk_completed (wr_worker (sy_writer (run_worker sample_plan (run_worker sample_plan y1)))) = 1
      \<and> wk_quarantined (wr_worker (sy_writer (run_worker sample_plan (run_worker sample_plan y1)))) = None
      \<and> wk_failures (wr_worker (sy_writer (run_worker sample_plan (run_worker sample_plan y1)))) = 0"
    using k by (simp add: run_worker_def [of _ "run_worker _ _"] fold_callback_frame run_step_def finish_def Let_def)
  then have ans: "fst (wait_answer 0 1 (sy_writer (run_worker sample_plan (run_worker sample_plan y1)))) = Some None"
    by (simp add: wait_answer_def answer_def)
  have run: "sys_run sample_plan y1 (run_worker sample_plan (run_worker sample_plan y1))"
    by (blast intro: sys_run.intros sys_step.worker)
  have "2 \<in> pending_ids (sy_writer flush_system)"
    by (simp add: flush_system_def sample_system_def new_writer_def pending_ids_def queued_rows_def unsettled_def
        settled_def Enqueue_def NewWorker_def Let_def flush_row_of_def)
  then show ?thesis
    using flush_is_checkpoint [OF sys_run.start flush_system_sane begin_ok sys_run.start w1(1) run [unfolded y1]] ans
      run y1 w1(1) by fastforce
qed

end
