(* ===== verification/WriterInserts.thy ===== *)
theory WriterInserts
  imports WriterThms
begin

text \<open>The two inserts of \<open>writer.go\<close> as their callers see them: what is refused, with which error, and
  what is staged, charged and mirrored.\<close>

section \<open>The hook\<close>

lemma call_hook_result: "call_hook p rows y = (r, y') \<Longrightarrow>
    \<exists>k\<le>length rows. y' = y\<lparr>sy_called := sy_called y @ take k rows\<rparr>
      \<and> (case r of
           None \<Rightarrow> k = (if pl_onAccept p = None then 0 else length rows)
         | Some e \<Rightarrow> \<exists>hook c. pl_onAccept p = Some hook \<and> 0 < k \<and> hook (rows ! (k - 1)) = Some c
             \<and> e = EMirror (MirrorError (fo_Namespace (pl_opts p)) (fo_Table (pl_opts p)) c))"
proof (induction rows arbitrary: y)
  case (Cons row rows)
  show ?case
  proof (cases "pl_onAccept p")
    case None
    then show ?thesis
      using Cons.prems by auto
  next
    case (Some hook)
    show ?thesis
    proof (cases "hook row")
      case None
      with Some Cons.prems have "call_hook p rows (y\<lparr>sy_called := sy_called y @ [row]\<rparr>) = (r, y')"
        by (simp add: Let_def)
      from Cons.IH [OF this] obtain k where "k \<le> length rows"
        "y' = y\<lparr>sy_called := sy_called y @ row # take k rows\<rparr>"
        "case r of
           None \<Rightarrow> k = (if pl_onAccept p = None then 0 else length rows)
         | Some e \<Rightarrow> \<exists>hook c. pl_onAccept p = Some hook \<and> 0 < k \<and> hook (rows ! (k - 1)) = Some c
             \<and> e = EMirror (MirrorError (fo_Namespace (pl_opts p)) (fo_Table (pl_opts p)) c)"
        by auto
      then show ?thesis
        using Some by (intro exI [of _ "Suc k"]) (auto split: option.splits)
    next
      case (Some c)
      with \<open>pl_onAccept p = Some hook\<close> Cons.prems show ?thesis
        by (intro exI [of _ 1]) (auto simp: Let_def)
    qed
  qed
qed auto

text \<open>The rows a batch of payloads is staged as.\<close>

definition staged_as :: "('row, 'r) plan \<Rightarrow> bytes list \<Rightarrow> 'row System \<Rightarrow> Staging list" where
  "staged_as p payloads y = map2 staged_new
     (map (\<lambda>k. db_seq (sys_db y) + 1 + int k) [0..<length payloads])
     (map (append_row p (fw_now (sy_world y))) payloads)"

lemma stageBatch_result:
  assumes "accounts y" "in_memory payloads" "length payloads = length rows" "rows \<noteq> []" "\<not> wr_closed (sy_writer y)"
    and "stageBatch p rows payloads y = (r, y')"
  shows "if sk_MaxRecords (sy_store y) < sk_records (sy_store y) + int (length rows)
        \<or> sk_MaxBytes (sy_store y) < sk_bytes (sy_store y) + sum_list (map (\<lambda>b. int (length b)) payloads)
     then r = Some (staging_full p) \<and> y' = y
     else sy_called y' = sy_called y
       \<and> (case r of
            Some e \<Rightarrow> sys_db y' = sys_db y \<and> sy_store y' = sy_store y \<and> sy_writer y' = sy_writer y
          | None \<Rightarrow> db_staging (sys_db y') = db_staging (sys_db y) @ staged_as p payloads y
              \<and> sk_records (sy_store y') = sk_records (sy_store y) + int (length rows)
              \<and> sk_bytes (sy_store y') = sk_bytes (sy_store y) + sum_list (map (\<lambda>b. int (length b)) payloads)
              \<and> Pending (sy_writer y') = (fst (Pending (sy_writer y)) + int (length rows),
                  snd (Pending (sy_writer y)) + sum_list (map (\<lambda>b. int (length b)) payloads)))"
proof -
  have ok: "limits_ok (sy_store y)" "tallied (sy_writer y)"
    using assms(1) by (simp_all add: accounts_def covered_def)
  obtain res s where run: "AppendBatch (map (append_row p (fw_now (sy_world y))) payloads) (sys_store y) = (res, s)"
    by (metis prod.collapse)
  note staged = AppendBatch_result [OF run]
  note eq = stageBatch_cases [OF ok(1) assms(2-4) run, unfolded assms(6)]
  show ?thesis
  proof (cases res)
    case (Inl e)
    then show ?thesis
      using eq staged assms(5) by (auto split: if_splits)
  next
    case (Inr ids)
    then have "length ids = length payloads"
      using staged by simp
    then show ?thesis
      using eq staged assms(3,5) Inr staged_writer_tallied(2) [OF ok(2), of ids payloads p rows]
      by (auto simp: staged_as_def split: if_splits)
  qed
qed

section \<open>What an insert does\<close>

lemma convert_Inr:
  assumes "descriptor_ok (fo_Descriptor (pl_opts p))"
  shows "convert p row = Inr b \<longleftrightarrow> (\<exists>values. pl_Bind p row = Inr values
    \<and> list_all2 unpoisoned (d_fields (fo_Descriptor (pl_opts p))) values
    \<and> Encode (table_name p) (fo_Descriptor (pl_opts p)) values = Inr b)"
  using checkPoison_None [OF assms, of _ "table_name p"]
  by (fastforce simp: convert_def res_bind_eq_Inr Encode_Inr split: option.splits)

text \<open>One record is the batch of one, but for the index the batch wraps a refusal with.\<close>

lemma Insert_batch: "InsertBatch p [row] y =
    (case convert p row of
       Inl e \<Rightarrow> (if wr_closed (sy_writer y) then (Some ErrClosed, y) else (Some (EBatch (BatchError 0 e)), y))
     | Inr payload \<Rightarrow> Insert p row y)"
  by (simp add: InsertBatch_def Insert_def stage_batch res_bind_def split: sum.split)

text \<open>What an accepted batch leaves, with \<open>k\<close> records shown to the hook.\<close>

definition batch_accepted :: "('row, 'r) plan \<Rightarrow> 'row list \<Rightarrow> bytes list \<Rightarrow> 'row System \<Rightarrow> error option \<Rightarrow> 'row System \<Rightarrow> nat \<Rightarrow> bool" where
  "batch_accepted p rows payloads y r y' k \<longleftrightarrow>
     db_staging (sys_db y') = db_staging (sys_db y) @ staged_as p payloads y
   \<and> sk_records (sy_store y') = sk_records (sy_store y) + int (length rows)
   \<and> sk_bytes (sy_store y') = sk_bytes (sy_store y) + sum_list (map (\<lambda>b. int (length b)) payloads)
   \<and> Pending (sy_writer y') = (fst (Pending (sy_writer y)) + int (length rows),
       snd (Pending (sy_writer y)) + sum_list (map (\<lambda>b. int (length b)) payloads))
   \<and> sy_called y' = sy_called y @ take k rows
   \<and> (case r of
        None \<Rightarrow> k = (if pl_onAccept p = None then 0 else length rows)
      | Some e \<Rightarrow> \<exists>hook c. pl_onAccept p = Some hook \<and> 0 < k \<and> k \<le> length rows \<and> hook (rows ! (k - 1)) = Some c
          \<and> e = EMirror (MirrorError (fo_Namespace (pl_opts p)) (fo_Table (pl_opts p)) c))"

text \<open>What a failure of the staging database leaves: everything but the database's schedule.\<close>

definition untouched :: "'row System \<Rightarrow> 'row System \<Rightarrow> bool" where
  "untouched y y' \<longleftrightarrow> sys_db y' = sys_db y \<and> sy_store y' = sy_store y \<and> sy_writer y' = sy_writer y \<and> sy_called y' = sy_called y"

lemma InsertBatch_converted:
  assumes "accounts y" "in_memory payloads" "list_all2 (\<lambda>row b. convert p row = Inr b) rows payloads" "rows \<noteq> []"
    and "\<not> wr_closed (sy_writer y)" "InsertBatch p rows y = (r, y')"
  shows "if sk_MaxRecords (sy_store y) < sk_records (sy_store y) + int (length rows)
        \<or> sk_MaxBytes (sy_store y) < sk_bytes (sy_store y) + sum_list (map (\<lambda>b. int (length b)) payloads)
     then r = Some (staging_full p) \<and> y' = y
     else r \<noteq> None \<and> untouched y y' \<or> (\<exists>k. batch_accepted p rows payloads y r y' k)"
proof -
  obtain r1 y1 where st: "stageBatch p rows payloads y = (r1, y1)" by (metis prod.collapse)
  have "length payloads = length rows"
    using assms(3) by (simp add: list_all2_lengthD)
  note res = stageBatch_result [OF assms(1,2) this assms(4,5) st]
  have eq: "(r, y') = (case r1 of Some e \<Rightarrow> (Some e, y1) | None \<Rightarrow> call_hook p rows y1)"
    using assms(4-6) st iffD2 [OF convert_rows_Inr, OF assms(3), of 0]
    by (simp add: InsertBatch_def split: option.splits)
  show ?thesis
  proof (cases r1)
    case (Some e)
    then show ?thesis
      using eq res by (auto simp: untouched_def split: if_splits)
  next
    case None
    then have "call_hook p rows y1 = (r, y')"
      using eq by simp
    from call_hook_result [OF this] obtain k where k: "k \<le> length rows" "y' = y1\<lparr>sy_called := sy_called y1 @ take k rows\<rparr>"
      and hook: "case r of
           None \<Rightarrow> k = (if pl_onAccept p = None then 0 else length rows)
         | Some e \<Rightarrow> \<exists>hook c. pl_onAccept p = Some hook \<and> 0 < k \<and> hook (rows ! (k - 1)) = Some c
             \<and> e = EMirror (MirrorError (fo_Namespace (pl_opts p)) (fo_Table (pl_opts p)) c)"
      by blast
    have "\<not> (sk_MaxRecords (sy_store y) < sk_records (sy_store y) + int (length rows)
        \<or> sk_MaxBytes (sy_store y) < sk_bytes (sy_store y) + sum_list (map (\<lambda>b. int (length b)) payloads))"
      using res None by (auto split: if_splits)
    moreover from this have "batch_accepted p rows payloads y r y' k"
      using res None k hook by (cases r) (auto simp: batch_accepted_def)
    ultimately show ?thesis
      by auto
  qed
qed

lemma sample_plan_sel: "fo_Descriptor (pl_opts sample_plan) = sample_descriptor" "pl_Bind sample_plan = Inr"
    "pl_onAccept sample_plan = None"
  by (simp_all add: sample_plan_def flush_opts_def)

lemma sample_convert: "convert sample_plan sample_row = Inr sample_payload"
proof -
  have "list_all2 unpoisoned (d_fields sample_descriptor) sample_row"
    by (simp add: unpoisoned_def sample_descriptor_def sample_fields_def sample_row_def)
  then show ?thesis
    by (simp add: convert_Inr sample_plan_sel sample_descriptor_ok sample_Encode)
qed

lemma sample_insert: "fst (InsertBatch sample_plan [sample_row] sample_system) = None"
  by (simp add: InsertBatch_def sample_convert stageBatch_def Let_def sample_system_def wr_closed_def new_writer_def
     acceptBatch_def sample_payload_def staging_call_def flush_start_def AppendBatch_def tx_def flush_eval append_row_def
     sample_plan_sel res_bind_def wrap64_def)

text \<open>C20: A batch is one unit, and the caller is told what is wrong in a fixed order. A closed writer answers
  \<open>ErrClosed\<close> whatever the batch holds; an empty batch on an open one does nothing; else the first record that
  cannot be bound, is poison or cannot be encoded refuses the batch under its own index, with nothing
  staged, charged or mirrored; else the ceiling refuses the whole batch, exactly when it does not fit; else
  either the database failed and nothing but its schedule has moved (the charge is given back), or every record is staged, in
  order, charged once and pending, and the hook has been called with the records in order up to its first error,
  which is the one error an accepted batch returns.\<close>

theorem insert_batch_unit:
  assumes "accounts y" "\<forall>payloads. convert_rows p 0 rows = Inr payloads \<longrightarrow> in_memory payloads"
    and "InsertBatch p rows y = (r, y')"
  shows "if wr_closed (sy_writer y) then r = Some ErrClosed \<and> y' = y
    else if rows = [] then r = None \<and> y' = y
    else (\<exists>k c. k < length rows \<and> convert p (rows ! k) = Inl c \<and> (\<forall>m<k. \<exists>b. convert p (rows ! m) = Inr b)
           \<and> r = Some (EBatch (BatchError (int k) c)) \<and> y' = y)
      \<or> (\<exists>payloads. list_all2 (\<lambda>row b. convert p row = Inr b) rows payloads
           \<and> (if sk_MaxRecords (sy_store y) < sk_records (sy_store y) + int (length rows)
                \<or> sk_MaxBytes (sy_store y) < sk_bytes (sy_store y) + sum_list (map (\<lambda>b. int (length b)) payloads)
              then r = Some (staging_full p) \<and> y' = y
              else r \<noteq> None \<and> untouched y y' \<or> (\<exists>k. batch_accepted p rows payloads y r y' k)))"
proof -
  consider "wr_closed (sy_writer y) \<or> rows = []"
    | (bad) e where "\<not> wr_closed (sy_writer y)" "rows \<noteq> []" "convert_rows p 0 rows = Inl e"
    | (good) payloads where "\<not> wr_closed (sy_writer y)" "rows \<noteq> []" "convert_rows p 0 rows = Inr payloads"
    by (cases "convert_rows p 0 rows") blast+
  then show ?thesis
  proof cases
    case 1
    then show ?thesis
      using assms(3) by (auto simp: InsertBatch_def)
  next
    case bad
    then have "r = Some e" "y' = y"
      using assms(3) by (simp_all add: InsertBatch_def)
    then show ?thesis
      using bad convert_rows_Inl [of p 0 rows e] by auto
  next
    case good
    have all: "list_all2 (\<lambda>row b. convert p row = Inr b) rows payloads"
      using good(3) by (simp add: convert_rows_Inr)
    from InsertBatch_converted [OF assms(1) _ this good(2,1) assms(3)] assms(2) good show ?thesis
      using all by auto
  qed
qed

theorem insert_batch_unit_witness:
  "\<exists>y' k. InsertBatch sample_plan [sample_row] sample_system = (None, y')
     \<and> batch_accepted sample_plan [sample_row] [sample_payload] sample_system None y' k"
proof -
  obtain y' where run: "InsertBatch sample_plan [sample_row] sample_system = (None, y')"
    using sample_insert by (metis prod.collapse)
  have mem: "\<forall>payloads. convert_rows sample_plan 0 [sample_row] = Inr payloads \<longrightarrow> in_memory payloads"
    by (simp add: sample_convert in_memory_def sample_payload_def res_bind_def)
  have "\<not> wr_closed (sy_writer sample_system)"
    by (simp add: sample_system_def wr_closed_def new_writer_def)
  with insert_batch_unit [OF opened_accounts [OF sample_opened] mem run] show ?thesis
    using run by (auto simp: list_all2_Cons1 sample_convert split: if_splits)
qed

text \<open>C21: What an accepted batch staged is what was inserted. The \<open>i\<close>-th new row of staging belongs to this table,
  carries the fingerprint of its shape, and its payload decodes under that shape to exactly the values the
  \<open>i\<close>-th record was bound to, each of which its column can represent (\<open>representable\<close>) but for the one exception
  the code has: an instant beyond the microseconds of the file's column, which neither the poison check nor the
  encoder refuses.\<close>

theorem staged_row_is_the_record:
  assumes "accounts y" "\<forall>payloads. convert_rows p 0 rows = Inr payloads \<longrightarrow> in_memory payloads"
    and "descriptor_ok (fo_Descriptor (pl_opts p))" "InsertBatch p rows y = (None, y')" "i < length rows"
  shows "let row = db_staging (sys_db y') ! (length (db_staging (sys_db y)) + i) in
    (\<exists>values. pl_Bind p (rows ! i) = Inr values
      \<and> Decode (table_name p) (fo_Descriptor (pl_opts p)) (sr_payload row) = Inr values
      \<and> list_all2 (\<lambda>f v. representable f v \<or> beyond_micros f v) (d_fields (fo_Descriptor (pl_opts p))) values)
    \<and> sr_namespace row = fo_Namespace (pl_opts p) \<and> sr_table row = fo_Table (pl_opts p)
    \<and> sr_schema_fp row = d_fp (fo_Descriptor (pl_opts p)) \<and> sr_batch_key row = None
    \<and> length (db_staging (sys_db y')) = length (db_staging (sys_db y)) + length rows"
proof -
  have open_w: "\<not> wr_closed (sy_writer y)" and nonempty: "rows \<noteq> []"
    using assms(4,5) by (auto simp: InsertBatch_def split: if_splits)
  obtain payloads where conv: "convert_rows p 0 rows = Inr payloads"
    using assms(4) open_w nonempty by (cases "convert_rows p 0 rows") (auto simp: InsertBatch_def)
  then have all: "list_all2 (\<lambda>row b. convert p row = Inr b) rows payloads" and small: "in_memory payloads"
    using assms(2) by (simp_all add: convert_rows_Inr)
  then have len: "length payloads = length rows"
    by (simp add: list_all2_lengthD)
  have "db_staging (sys_db y') = db_staging (sys_db y) @ staged_as p payloads y"
    using InsertBatch_converted [OF assms(1) small all nonempty open_w assms(4)]
    by (auto simp: batch_accepted_def untouched_def split: if_splits)
  moreover obtain vs where "pl_Bind p (rows ! i) = Inr vs"
      "list_all2 unpoisoned (d_fields (fo_Descriptor (pl_opts p))) vs"
      "Encode (table_name p) (fo_Descriptor (pl_opts p)) vs = Inr (payloads ! i)"
    using list_all2_nthD [OF all assms(5)] convert_Inr [OF assms(3)] by blast
  moreover from this have "list_all2 (\<lambda>f v. representable f v \<or> beyond_micros f v) (d_fields (fo_Descriptor (pl_opts p))) vs"
    using encode_fits_iff [of "table_name p" "fo_Descriptor (pl_opts p)" vs] unpoisoned_encoded
    by (fastforce simp: list_all2_conv_all_nth)
  ultimately show ?thesis
    using assms(5) len by (simp add: Let_def staged_as_def staged_new_def append_row_def nth_append Decode_Encode)
qed

theorem staged_row_is_the_record_witness:
  "\<exists>y'. InsertBatch sample_plan [sample_row] sample_system = (None, y')
     \<and> Decode ''t'' sample_descriptor (sr_payload (db_staging (sys_db y') ! 1)) = Inr sample_row"
proof -
  obtain y' where run: "InsertBatch sample_plan [sample_row] sample_system = (None, y')"
    using sample_insert by (metis prod.collapse)
  have mem: "\<forall>payloads. convert_rows sample_plan 0 [sample_row] = Inr payloads \<longrightarrow> in_memory payloads"
    by (simp add: sample_convert in_memory_def sample_payload_def res_bind_def)
  have d: "descriptor_ok (fo_Descriptor (pl_opts sample_plan))" "length (db_staging (sys_db sample_system)) = 1"
      "table_name sample_plan = ''t''"
    by (simp_all add: sample_plan_sel sample_descriptor_ok)
      (simp_all add: sample_system_def flush_start_def table_name_def sample_plan_def flush_opts_def)
  have "0 < length [sample_row]"
    by simp
  from staged_row_is_the_record [OF opened_accounts [OF sample_opened] mem d(1) run this] show ?thesis
    using run by (simp add: d sample_plan_sel Let_def)
qed

end
