(* ===== verification/Strconv.thy ===== *)
theory Strconv
  imports Prelude
begin

text \<open>What the runtime front door uses of the standard packages \<open>strconv\<close> and \<open>encoding/base64\<close>: integers and
  floating-point numbers from their text, and the standard base64 alphabet with padding. A finite double is the exact
  rational \<open>m * 2 ^ e\<close>, its bits are the IEEE 754 ones; a text is rounded to the nearest double, ties to even.\<close>

section \<open>Integers\<close>

datatype num_error = ErrSyntax | ErrRange

definition is_digit :: "char \<Rightarrow> bool" where
  "is_digit c \<longleftrightarrow> of_char c \<ge> (48::nat) \<and> of_char c \<le> (57::nat)"

definition digit_val :: "char \<Rightarrow> nat" where
  "digit_val c = of_char c - 48"

definition max_uint64 :: nat where "max_uint64 = 18446744073709551615"

fun parse_digits :: "nat \<Rightarrow> string \<Rightarrow> (num_error, nat) result" where
  "parse_digits n [] = Inr n"
| "parse_digits n (c # cs) =
    (if \<not> is_digit c then Inl ErrSyntax
     else if n * 10 + digit_val c > max_uint64 then Inl ErrRange
     else parse_digits (n * 10 + digit_val c) cs)"

definition ParseUint :: "string \<Rightarrow> (num_error, nat) result" where
  "ParseUint s = (if s = [] then Inl ErrSyntax else parse_digits 0 s)"

text \<open>\<open>ParseInt(s, 10, 64)\<close>.\<close>

definition ParseInt :: "string \<Rightarrow> (num_error, int) result" where
  "ParseInt s =
    (if s = [] then Inl ErrSyntax
     else let neg = (hd s = CHR ''-''); t = (if hd s = CHR ''-'' \<or> hd s = CHR ''+'' then tl s else s) in
     case ParseUint t of
       Inl e \<Rightarrow> Inl e
     | Inr n \<Rightarrow>
         if \<not> neg \<and> n \<ge> 2 ^ 63 \<or> neg \<and> n > 2 ^ 63 then Inl ErrRange
         else Inr (if neg then - int n else int n))"

text \<open>The number digits spell.\<close>

definition digits_val :: "nat \<Rightarrow> string \<Rightarrow> nat" where
  "digits_val n ds = foldl (\<lambda>n c. n * 10 + digit_val c) n ds"

lemma digits_val_simps [simp]:
  "digits_val n [] = n" "digits_val n (c # cs) = digits_val (n * 10 + digit_val c) cs"
  by (simp_all add: digits_val_def)

lemma digits_val_shift: "digits_val n ds = n * 10 ^ length ds + digits_val 0 ds"
proof (induction ds arbitrary: n)
  case (Cons c cs)
  show ?case
    using Cons [of "n * 10 + digit_val c"] Cons [of "digit_val c"] by (simp add: algebra_simps)
qed simp

lemma digits_val_append: "digits_val n (ds @ es) = digits_val (digits_val n ds) es"
  by (simp add: digits_val_def)

lemma digits_val_zeros: "digits_val n (replicate k CHR ''0'') = n * 10 ^ k"
  by (induction k arbitrary: n) (simp_all add: digit_val_def)

lemma digits_val_ge: "n \<le> digits_val n ds"
  by (subst digits_val_shift) (simp add: trans_le_add1)

lemma digits_val_bound: "\<forall>c\<in>set ds. is_digit c \<Longrightarrow> digits_val 0 ds < 10 ^ length ds"
proof (induction ds)
  case (Cons c cs)
  then have "digits_val 0 cs < 10 ^ length cs" "digit_val c \<le> 9"
    by (simp, simp add: is_digit_def digit_val_def) (auto simp: le_diff_conv)
  moreover from this(2) have "digit_val c * 10 ^ length cs \<le> 9 * 10 ^ length cs"
    by (rule mult_right_mono) simp
  moreover have "digits_val 0 (c # cs) = digit_val c * 10 ^ length cs + digits_val 0 cs"
      "(10::nat) ^ length (c # cs) = 10 * 10 ^ length cs"
    using digits_val_shift [of "digit_val c" cs] by simp_all
  ultimately show ?case
    by linarith
qed simp

lemma parse_digits_ok:
  "\<forall>c\<in>set ds. is_digit c \<Longrightarrow> n \<le> max_uint64 \<Longrightarrow>
    parse_digits n ds = (if digits_val n ds > max_uint64 then Inl ErrRange else Inr (digits_val n ds))"
proof (induction ds arbitrary: n)
  case (Cons c cs)
  then show ?case
    using digits_val_ge [of "n * 10 + digit_val c" cs] by auto
qed simp

lemma parse_digits_Inr: "parse_digits n ds = Inr k \<Longrightarrow> (\<forall>c\<in>set ds. is_digit c) \<and> k = digits_val n ds"
  by (induction ds arbitrary: n) (auto split: if_splits)

section \<open>Doubles\<close>

text \<open>Round a quotient to the nearest integer, ties to even.\<close>

definition round_div :: "nat \<Rightarrow> nat \<Rightarrow> nat" where
  "round_div a b =
    (let q = a div b; r = a mod b in if 2 * r > b \<or> 2 * r = b \<and> odd q then q + 1 else q)"

text \<open>The position of the highest bit of a quotient \<open>a / b\<close>, that is its binary logarithm rounded down.\<close>

fun bits :: "nat \<Rightarrow> nat" where
  "bits n = (if n = 0 then 0 else Suc (bits (n div 2)))"

declare bits.simps [simp del]

definition shifted_le :: "nat \<Rightarrow> nat \<Rightarrow> int \<Rightarrow> bool" where
  "shifted_le a b k = (if 0 \<le> k then b * 2 ^ nat k \<le> a else b \<le> a * 2 ^ nat (- k))"

definition log2_floor :: "nat \<Rightarrow> nat \<Rightarrow> int" where
  "log2_floor a b = (let k = int (bits a) - int (bits b) in if shifted_le a b k then k else k - 1)"

text \<open>A finite magnitude of \<open>p\<close> bits with smallest exponent \<open>emin\<close>: \<open>m * 2 ^ e\<close>, or \<open>None\<close> when the value rounds
  past the largest.\<close>

definition round_float :: "nat \<Rightarrow> int \<Rightarrow> int \<Rightarrow> nat \<Rightarrow> nat \<Rightarrow> (nat \<times> int) option" where
  "round_float p emin emax a b =
    (if a = 0 then Some (0, emin)
     else let e = max emin (log2_floor a b - int p + 1);
              m = (if 0 \<le> e then round_div a (b * 2 ^ nat e) else round_div (a * 2 ^ nat (- e)) b);
              (m', e') = (if m = 2 ^ p then (2 ^ (p - 1), e + 1) else (m, e)) in
       if e' > emax then None else Some (m', e'))"

text \<open>A \<open>float64\<close>: its sign, and a finite magnitude, an infinity, or the bits of a value that is no number.\<close>

datatype float64 = Finite bool nat int | Infinite bool | NaN "64 word"

definition double_of :: "bool \<Rightarrow> nat \<Rightarrow> nat \<Rightarrow> (num_error, float64) result" where
  "double_of neg a b =
    (case round_float 53 (- 1074) 971 a b of None \<Rightarrow> Inl ErrRange | Some (m, e) \<Rightarrow> Inr (Finite neg m e))"

text \<open>The bits of a magnitude of \<open>p\<close> bits with \<open>w\<close> exponent bits, and of a double and a single.\<close>

definition ieee_bits :: "nat \<Rightarrow> int \<Rightarrow> nat \<Rightarrow> int \<Rightarrow> nat" where
  "ieee_bits p emin m e = (if m < 2 ^ (p - 1) then m else nat (e - emin + 1) * 2 ^ (p - 1) + (m - 2 ^ (p - 1)))"

definition Float64bits :: "float64 \<Rightarrow> 64 word" where
  "Float64bits f = (case f of
      Finite neg m e \<Rightarrow> word_of_nat ((if neg then 2 ^ 63 else 0) + ieee_bits 53 (- 1074) m e)
    | Infinite neg \<Rightarrow> word_of_nat ((if neg then 2 ^ 63 else 0) + 2047 * 2 ^ 52)
    | NaN w \<Rightarrow> w)"

text \<open>The conversion \<open>float32(f)\<close>: rounded once more, past the largest an infinity; no number keeps its sign and
  leading bits, as the processors do it.\<close>

definition Float32bits :: "float64 \<Rightarrow> 32 word" where
  "Float32bits f = (case f of
      Finite neg m e \<Rightarrow>
        (case (if 0 \<le> e then round_float 24 (- 149) 104 (m * 2 ^ nat e) 1 else round_float 24 (- 149) 104 m (2 ^ nat (- e))) of
           None \<Rightarrow> word_of_nat ((if neg then 2 ^ 31 else 0) + 255 * 2 ^ 23)
         | Some (m', e') \<Rightarrow> word_of_nat ((if neg then 2 ^ 31 else 0) + ieee_bits 24 (- 149) m' e'))
    | Infinite neg \<Rightarrow> word_of_nat ((if neg then 2 ^ 31 else 0) + 255 * 2 ^ 23)
    | NaN w \<Rightarrow> push_bit 31 (ucast (drop_bit 63 w)) OR 0x7fc00000 OR (ucast (drop_bit 29 w) AND 0x3fffff))"

text \<open>\<open>math.Trunc(f) = f\<close>, \<open>math.Abs(f) > 1<<53\<close> and the conversion \<open>int64(f)\<close> of such a number.\<close>

definition is_whole :: "float64 \<Rightarrow> bool" where
  "is_whole f = (case f of Finite neg m e \<Rightarrow> 0 \<le> e \<or> 2 ^ nat (- e) dvd m | Infinite neg \<Rightarrow> True | NaN w \<Rightarrow> False)"

definition whole_part :: "float64 \<Rightarrow> int" where
  "whole_part f = (case f of
      Finite neg m e \<Rightarrow> (if neg then - 1 else 1) * int (if 0 \<le> e then m * 2 ^ nat e else m div 2 ^ nat (- e))
    | _ \<Rightarrow> 0)"

definition past_2_53 :: "float64 \<Rightarrow> bool" where
  "past_2_53 f = (case f of Finite neg m e \<Rightarrow> (if 0 \<le> e then m * 2 ^ nat e > 2 ^ 53 else m > 2 ^ 53 * 2 ^ nat (- e))
    | Infinite neg \<Rightarrow> True | NaN w \<Rightarrow> False)"

section \<open>Floating-point text\<close>

definition lower_char :: "char \<Rightarrow> nat" where
  "lower_char c = (of_char c :: nat) OR 32"

definition hex_letter :: "char \<Rightarrow> bool" where
  "hex_letter c \<longleftrightarrow> 97 \<le> lower_char c \<and> lower_char c \<le> 102"

text \<open>The digits of \<open>readFloat\<close>: the number they spell in the base, how many follow the point, whether there are any,
  whether an underscore was skipped, and what is left.\<close>

fun scan_mant :: "nat \<Rightarrow> bool \<Rightarrow> nat \<times> nat \<times> bool \<times> bool \<Rightarrow> string \<Rightarrow> (nat \<times> nat \<times> bool \<times> bool) \<times> string" where
  "scan_mant base dot st [] = (st, [])"
| "scan_mant base dot (n, frac, digits, us) (c # cs) =
    (if c = CHR ''_'' then scan_mant base dot (n, frac, digits, True) cs
     else if c = CHR ''.''
     then (if dot then ((n, frac, digits, us), c # cs) else scan_mant base True (n, frac, digits, us) cs)
     else if is_digit c
     then scan_mant base dot (n * base + digit_val c, if dot then frac + 1 else frac, True, us) cs
     else if base = 16 \<and> hex_letter c
     then scan_mant base dot (n * base + (lower_char c - 87), if dot then frac + 1 else frac, True, us) cs
     else ((n, frac, digits, us), c # cs))"

text \<open>The exponent's digits; past five of them the value stands, which moves the point far enough.\<close>

fun scan_exp :: "nat \<Rightarrow> bool \<Rightarrow> string \<Rightarrow> nat \<times> bool \<times> string" where
  "scan_exp e us [] = (e, us, [])"
| "scan_exp e us (c # cs) =
    (if c = CHR ''_'' then scan_exp e True cs
     else if is_digit c then scan_exp (if e < 10000 then e * 10 + digit_val c else e) us cs
     else (e, us, c # cs))"

text \<open>\<open>underscoreOK\<close>, after the sign and the base prefix; \<open>saw\<close> is the last class seen, \<open>None\<close> for neither digit nor
  underscore.\<close>

fun underscore_loop :: "bool \<Rightarrow> bool option \<Rightarrow> string \<Rightarrow> bool" where
  "underscore_loop hex saw [] = (saw \<noteq> Some False)"
| "underscore_loop hex saw (c # cs) =
    (if is_digit c \<or> hex \<and> hex_letter c then underscore_loop hex (Some True) cs
     else if c = CHR ''_'' then saw = Some True \<and> underscore_loop hex (Some False) cs
     else saw \<noteq> Some False \<and> underscore_loop hex None cs)"

definition skip_sign :: "string \<Rightarrow> string" where
  "skip_sign s = (if s \<noteq> [] \<and> (hd s = CHR ''-'' \<or> hd s = CHR ''+'') then tl s else s)"

definition underscoreOK :: "string \<Rightarrow> bool" where
  "underscoreOK s =
    (case skip_sign s of
       c # d # r \<Rightarrow>
         if c = CHR ''0'' \<and> lower_char d \<in> {98, 111, 120} then underscore_loop (lower_char d = 120) (Some True) r
         else underscore_loop False None (c # d # r)
     | t \<Rightarrow> underscore_loop False None t)"

text \<open>\<open>readFloat\<close> of a text read to its end: the magnitude as a quotient, scaled by the exponent in its base.\<close>

definition readFloat :: "string \<Rightarrow> (nat \<times> nat) option" where
  "readFloat s =
    (let t = skip_sign s;
         hex = (case t of c # d # _ # _ \<Rightarrow> c = CHR ''0'' \<and> lower_char d = 120 | _ \<Rightarrow> False);
         base = (if hex then 16 else 10) in
     case scan_mant base False (0, 0, False, False) (if hex then drop 2 t else t) of
       ((n, frac, digits, us), rest) \<Rightarrow>
         if \<not> digits then None
         else
           (case (case rest of
               c # r \<Rightarrow>
                 if lower_char c = (if hex then 112 else 101)
                 then (let neg = (r \<noteq> [] \<and> hd r = CHR ''-''); r' = skip_sign r in
                       if r' = [] \<or> \<not> is_digit (hd r') then None
                       else case scan_exp 0 us r' of (e, us', rest') \<Rightarrow>
                         Some (if neg then - int e else int e, us', rest'))
                 else if hex then None else Some (0, us, rest)
             | [] \<Rightarrow> if hex then None else Some (0, us, rest)) of
             None \<Rightarrow> None
           | Some (e, us', rest') \<Rightarrow>
               if rest' \<noteq> [] \<or> us' \<and> \<not> underscoreOK s then None
               else let x = (if hex then e - 4 * int frac else e - int frac); b = (if hex then 2 else 10) in
                 Some (if 0 \<le> x then (n * b ^ nat x, 1) else (n, b ^ nat (- x)))))"

definition is_special :: "string \<Rightarrow> string \<Rightarrow> bool" where
  "is_special name s \<longleftrightarrow> map lower_char s = map of_char name \<and> (\<forall>c\<in>set s. 64 < (of_char c :: nat))"

definition ParseFloat :: "string \<Rightarrow> (num_error, float64) result" where
  "ParseFloat s =
    (let neg = (s \<noteq> [] \<and> hd s = CHR ''-'') in
     if is_special ''inf'' (skip_sign s) \<or> is_special ''infinity'' (skip_sign s) then Inr (Infinite neg)
     else if is_special ''nan'' s then Inr (NaN 0x7ff8000000000001)
     else case readFloat s of
       None \<Rightarrow> Inl ErrSyntax
     | Some (a, b) \<Rightarrow> double_of neg a b)"

section \<open>Digits of an integer\<close>

fun nat_digits :: "nat \<Rightarrow> string" where
  "nat_digits n = (if n < 10 then [char_of (48 + n)] else nat_digits (n div 10) @ [char_of (48 + n mod 10)])"

declare nat_digits.simps [simp del]

definition FormatInt :: "int \<Rightarrow> string" where
  "FormatInt x = (if x < 0 then CHR ''-'' # nat_digits (nat (- x)) else nat_digits (nat x))"

section \<open>Base64\<close>

definition b64_value :: "char \<Rightarrow> nat option" where
  "b64_value ch =
    (let c = (of_char ch :: nat) in
     if 65 \<le> c \<and> c \<le> 90 then Some (c - 65)
     else if 97 \<le> c \<and> c \<le> 122 then Some (c - 71)
     else if 48 \<le> c \<and> c \<le> 57 then Some (c + 4)
     else if c = 43 then Some 62
     else if c = 47 then Some 63
     else None)"

text \<open>The quanta of four characters, the last one padded; the bits a padded quantum leaves over are dropped.\<close>

fun b64_quanta :: "string \<Rightarrow> nat list option" where
  "b64_quanta [] = Some []"
| "b64_quanta (a # b # c # d # rest) =
    (case (b64_value a, b64_value b, b64_value c, b64_value d) of
       (Some p, Some q, Some r, Some s) \<Rightarrow>
         map_option (\<lambda>bs. (p * 4 + q div 16) # (q mod 16 * 16 + r div 4) # (r mod 4 * 64 + s) # bs) (b64_quanta rest)
     | (Some p, Some q, Some r, None) \<Rightarrow>
         (if d = CHR ''='' \<and> rest = [] then Some [p * 4 + q div 16, q mod 16 * 16 + r div 4] else None)
     | (Some p, Some q, None, None) \<Rightarrow>
         (if c = CHR ''='' \<and> d = CHR ''='' \<and> rest = [] then Some [p * 4 + q div 16] else None)
     | _ \<Rightarrow> None)"
| "b64_quanta _ = None"

text \<open>\<open>base64.StdEncoding.DecodeString\<close>: line ends are skipped wherever they stand.\<close>

definition b64_DecodeString :: "string \<Rightarrow> bytes option" where
  "b64_DecodeString s =
    map_option (map word_of_nat) (b64_quanta (filter (\<lambda>c. of_char c \<noteq> (10::nat) \<and> of_char c \<noteq> (13::nat)) s))"

end
