(* ===== verification/Dynamic.thy ===== *)
theory Dynamic
  imports WriterInserts Strconv
begin

text \<open>Files \<open>dynamic.go\<close> and \<open>cbor.go\<close>: the front door of a table declared at run time. A record is the Go map in
  the order one iteration over it visits its keys, which are distinct; the order differs from run to run,
  and the theorems hold for each. The decoders of \<open>encoding/json\<close> and of the CBOR library and \<open>time.Parse\<close> are
  the parameter \<open>library\<close>; the numbers they leave as text are read by \<open>Strconv\<close>.\<close>

section \<open>Values and decoders\<close>

text \<open>The dynamic value of a key: \<open>nil\<close>, the six Go types the coercion table reads, or another.\<close>

datatype rvalue = RNull | RBool bool | RNumber string | RFloat float64 | RString string | RBytes bytes | ROther

type_synonym Record = "(string \<times> rvalue) list"

text \<open>What the CBOR library decodes one field to.\<close>

datatype cbor_any = CNil | CBool bool | CUint64 nat | CInt64 int | CFloat float64 | CText string | CBytes bytes | COther

text \<open>\<open>lb_json\<close>: the decoded object, \<open>None\<close> for a JSON null, and \<open>More\<close>. \<open>lb_strict\<close> and \<open>lb_raw\<close>: the map of the
  strict and of the plain mode, \<open>None\<close> for null, and the octets left. \<open>lb_value\<close>: one field. \<open>lb_Parse\<close>: an
  RFC 3339 instant as seconds and nanoseconds.\<close>

record library =
  lb_json :: "bytes \<Rightarrow> (error, Record option \<times> bool) result"
  lb_strict :: "bytes \<Rightarrow> (error, (string \<times> cbor_any) list option \<times> bytes) result"
  lb_raw :: "bytes \<Rightarrow> (error, (string \<times> bytes) list option \<times> bytes) result"
  lb_value :: "bytes \<Rightarrow> (error, cbor_any) result"
  lb_Parse :: "string \<Rightarrow> (int \<times> int) option"

record dynamicCodec =
  dc_namespace :: string
  dc_table :: string
  dc_desc :: Descriptor
  dc_columns :: "Field list"

definition newDynamicCodec :: "string \<Rightarrow> string \<Rightarrow> Descriptor \<Rightarrow> dynamicCodec" where
  "newDynamicCodec ns name desc = \<lparr>dc_namespace = ns, dc_table = name, dc_desc = desc, dc_columns = d_fields desc\<rparr>"

definition byName :: "dynamicCodec \<Rightarrow> string \<Rightarrow> bool" where
  "byName c key = (key \<in> fld_Name ` set (dc_columns c))"

definition refuse_record :: "dynamicCodec \<Rightarrow> RecordKind \<Rightarrow> string \<Rightarrow> error" where
  "refuse_record c kind field = NewRecordError kind (dc_namespace c) (dc_table c) field"

section \<open>Coercion\<close>

definition allDigits :: "string \<Rightarrow> bool" where
  "allDigits s \<longleftrightarrow> s \<noteq> [] \<and> (\<forall>c\<in>set s. is_digit c)"

definition scaleDecimal :: "string \<Rightarrow> int \<Rightarrow> (RecordKind, int) result" where
  "scaleDecimal text scale =
    (if CHR ''e'' \<in> set text \<or> CHR ''E'' \<in> set text then Inl RecordKindInexact
     else
       let negative = (text \<noteq> [] \<and> hd text = CHR ''-''); digits = (if negative then tl text else text);
           whole = takeWhile (\<lambda>c. c \<noteq> CHR ''.'') digits; hasPoint = (CHR ''.'' \<in> set digits);
           fraction = drop (length whole + 1) digits in
       if \<not> allDigits whole \<or> hasPoint \<and> \<not> allDigits fraction then Inl RecordKindMalformed
       else if int (length fraction) > scale then Inl RecordKindInexact
       else
         let combined = whole @ fraction @ replicate (nat (scale - int (length fraction))) CHR ''0'' in
         case ParseInt combined of
           Inl ErrRange \<Rightarrow> Inl RecordKindRange
         | Inl ErrSyntax \<Rightarrow> Inl RecordKindMalformed
         | Inr unscaled \<Rightarrow> Inr (if negative then - unscaled else unscaled))"

definition integralFloat :: "dynamicCodec \<Rightarrow> Field \<Rightarrow> float64 \<Rightarrow> (error, int) result" where
  "integralFloat c column f =
    (if \<not> is_whole f then Inl (refuse_record c RecordKindInexact (fld_Name column))
     else if past_2_53 f then Inl (refuse_record c RecordKindInexact (fld_Name column))
     else Inr (whole_part f))"

definition integer :: "dynamicCodec \<Rightarrow> Field \<Rightarrow> rvalue \<Rightarrow> (error, int) result" where
  "integer c column raw =
    (case raw of
       RNumber v \<Rightarrow>
         (case ParseInt v of
            Inr n \<Rightarrow> Inr n
          | Inl ErrRange \<Rightarrow> Inl (refuse_record c RecordKindRange (fld_Name column))
          | Inl ErrSyntax \<Rightarrow>
              (case ParseFloat v of
                 Inl ErrRange \<Rightarrow> Inl (refuse_record c RecordKindRange (fld_Name column))
               | Inl ErrSyntax \<Rightarrow> Inl (refuse_record c RecordKindMalformed (fld_Name column))
               | Inr f \<Rightarrow> integralFloat c column f))
     | RFloat f \<Rightarrow> integralFloat c column f
     | _ \<Rightarrow> Inl (refuse_record c RecordKindType (fld_Name column)))"

definition float_value :: "dynamicCodec \<Rightarrow> Field \<Rightarrow> rvalue \<Rightarrow> (error, float64) result" where
  "float_value c column raw =
    (case raw of
       RNumber v \<Rightarrow>
         (case ParseFloat v of
            Inl e \<Rightarrow> Inl (refuse_record c RecordKindRange (fld_Name column)) | Inr f \<Rightarrow> Inr f)
     | RFloat f \<Rightarrow> Inr f
     | _ \<Rightarrow> Inl (refuse_record c RecordKindType (fld_Name column)))"

definition decimal :: "dynamicCodec \<Rightarrow> Field \<Rightarrow> rvalue \<Rightarrow> (error, int) result" where
  "decimal c column raw =
    (let scaled = (\<lambda>text. case scaleDecimal text (fld_Scale column) of
           Inl kind \<Rightarrow> Inl (refuse_record c kind (fld_Name column)) | Inr n \<Rightarrow> Inr n) in
     case raw of
       RNumber v \<Rightarrow> scaled v
     | RString v \<Rightarrow> scaled v
     | _ \<Rightarrow> Inl (refuse_record c RecordKindType (fld_Name column)))"

definition timestamp :: "library \<Rightarrow> dynamicCodec \<Rightarrow> Field \<Rightarrow> rvalue \<Rightarrow> (error, int) result" where
  "timestamp lb c column raw =
    (case raw of
       RNumber v \<Rightarrow> integer c column raw
     | RFloat f \<Rightarrow> integer c column raw
     | RString v \<Rightarrow>
         (case lb_Parse lb v of
            None \<Rightarrow> Inl (refuse_record c RecordKindMalformed (fld_Name column))
          | Some (sec, nsec) \<Rightarrow>
              if nsec mod 1000000 \<noteq> 0 then Inl (refuse_record c RecordKindInexact (fld_Name column))
              else Inr (sec * 1000 + nsec div 1000000))
     | _ \<Rightarrow> Inl (refuse_record c RecordKindType (fld_Name column)))"

definition binary :: "dynamicCodec \<Rightarrow> Field \<Rightarrow> rvalue \<Rightarrow> (error, bytes) result" where
  "binary c column raw =
    (case raw of
       RBytes v \<Rightarrow> Inr v
     | RString v \<Rightarrow>
         (case b64_DecodeString v of
            None \<Rightarrow> Inl (refuse_record c RecordKindMalformed (fld_Name column)) | Some b \<Rightarrow> Inr b)
     | _ \<Rightarrow> Inl (refuse_record c RecordKindType (fld_Name column)))"

definition coerce :: "library \<Rightarrow> dynamicCodec \<Rightarrow> Field \<Rightarrow> rvalue \<Rightarrow> (error, gvalue) result" where
  "coerce lb c column raw =
    (case fld_Kind column of
       KindBoolean \<Rightarrow>
         (case raw of RBool b \<Rightarrow> Inr (GBool b) | _ \<Rightarrow> Inl (refuse_record c RecordKindType (fld_Name column)))
     | KindInt \<Rightarrow>
         res_bind (integer c column raw) (\<lambda>n.
           if n < - (2 ^ 31) \<or> n > 2 ^ 31 - 1 then Inl (refuse_record c RecordKindRange (fld_Name column))
           else Inr (GInt32 (word_of_int n)))
     | KindLong \<Rightarrow> res_bind (integer c column raw) (\<lambda>n. Inr (GInt64 (word_of_int n)))
     | KindFloat \<Rightarrow> res_bind (float_value c column raw) (\<lambda>f. Inr (GFloat32 (Float32bits f)))
     | KindDouble \<Rightarrow> res_bind (float_value c column raw) (\<lambda>f. Inr (GFloat64 (Float64bits f)))
     | KindDecimal \<Rightarrow> res_bind (decimal c column raw) (\<lambda>n. Inr (GInt64 (word_of_int n)))
     | KindTimestampTz \<Rightarrow> res_bind (timestamp lb c column raw) (\<lambda>n. Inr (GInt64 (word_of_int n)))
     | KindString \<Rightarrow>
         (case raw of RString s \<Rightarrow> Inr (GString s) | _ \<Rightarrow> Inl (refuse_record c RecordKindType (fld_Name column)))
     | KindBinary \<Rightarrow> res_bind (binary c column raw) (\<lambda>b. Inr (GBytes b))
     | KindOther k \<Rightarrow> Inl (refuse_record c RecordKindType (fld_Name column)))"

section \<open>Bind\<close>

text \<open>The second pass, on one column.\<close>

definition bind_column :: "library \<Rightarrow> dynamicCodec \<Rightarrow> Record \<Rightarrow> Field \<Rightarrow> (error, gvalue option) result" where
  "bind_column lb c rec column =
    (case map_of rec (fld_Name column) of
       None \<Rightarrow>
         if fld_Required column then Inl (refuse_record c RecordKindMissing (fld_Name column)) else Inr None
     | Some raw \<Rightarrow>
         if raw = RNull
         then if fld_Required column then Inl (refuse_record c RecordKindNull (fld_Name column)) else Inr None
         else res_bind (coerce lb c column raw) (\<lambda>v. Inr (Some v)))"

definition Bind :: "library \<Rightarrow> dynamicCodec \<Rightarrow> Record \<Rightarrow> (error, Row) result" where
  "Bind lb c rec =
    (case find (\<lambda>(key, _). \<not> byName c key) rec of
       Some (key, _) \<Rightarrow> Inl (refuse_record c RecordKindUnknownField key)
     | None \<Rightarrow> map_result (bind_column lb c rec) (dc_columns c))"

section \<open>The byte doors\<close>

definition malformed_record :: "dynamicCodec \<Rightarrow> error" where
  "malformed_record c = NewRecordError RecordKindMalformed (dc_namespace c) (dc_table c) ''''"

definition decodeLine :: "library \<Rightarrow> dynamicCodec \<Rightarrow> bytes \<Rightarrow> (error, Record) result" where
  "decodeLine lb c line =
    (case lb_json lb line of
       Inl e \<Rightarrow> Inl (malformed_record c)
     | Inr (row, extra) \<Rightarrow>
         if extra then Inl (malformed_record c)
         else case row of None \<Rightarrow> Inl (malformed_record c) | Some r \<Rightarrow> Inr r)"

definition cborValue :: "dynamicCodec \<Rightarrow> string \<Rightarrow> cbor_any \<Rightarrow> (error, rvalue) result" where
  "cborValue c field v =
    (case v of
       CNil \<Rightarrow> Inr RNull
     | CBool b \<Rightarrow> Inr (RBool b)
     | CUint64 n \<Rightarrow> Inr (RNumber (FormatInt (int n)))
     | CInt64 n \<Rightarrow> Inr (RNumber (FormatInt n))
     | CFloat f \<Rightarrow> Inr (RFloat f)
     | CText s \<Rightarrow> Inr (RString s)
     | CBytes b \<Rightarrow> Inr (RBytes b)
     | COther \<Rightarrow> Inl (refuse_record c RecordKindType field))"

text \<open>A loop over a map, one key after the other, to the first error.\<close>

definition over_fields :: "(string \<Rightarrow> 'a \<Rightarrow> (error, rvalue) result) \<Rightarrow> (string \<times> 'a) list \<Rightarrow> (error, Record) result" where
  "over_fields f kvs = map_result (\<lambda>(name, x). res_bind (f name x) (\<lambda>v. Inr (name, v))) kvs"

definition decodeCBORField :: "library \<Rightarrow> dynamicCodec \<Rightarrow> string \<Rightarrow> bytes \<Rightarrow> (error, rvalue) result" where
  "decodeCBORField lb c field raw =
    (if raw = [] then Inl (refuse_record c RecordKindMalformed field)
     else if drop_bit 5 (hd raw) = 6 then Inl (refuse_record c RecordKindType field)
     else if hd raw = 0xf7 then Inl (refuse_record c RecordKindType field)
     else case lb_value lb raw of
       Inl e \<Rightarrow> Inl (refuse_record c RecordKindMalformed field)
     | Inr v \<Rightarrow> cborValue c field v)"

definition decodeCBORItemSlow :: "library \<Rightarrow> dynamicCodec \<Rightarrow> bytes \<Rightarrow> (error, Record) result" where
  "decodeCBORItemSlow lb c item =
    (case lb_raw lb item of
       Inl e \<Rightarrow> Inl (malformed_record c)
     | Inr (kvs, left_over) \<Rightarrow>
         if left_over \<noteq> [] then Inl (malformed_record c)
         else case kvs of
           None \<Rightarrow> Inl (malformed_record c)
         | Some fs \<Rightarrow> over_fields (decodeCBORField lb c) fs)"

definition decodeCBORItem :: "library \<Rightarrow> dynamicCodec \<Rightarrow> bytes \<Rightarrow> (error, Record) result" where
  "decodeCBORItem lb c item =
    (case lb_strict lb item of
       Inl e \<Rightarrow> decodeCBORItemSlow lb c item
     | Inr (kvs, left_over) \<Rightarrow>
         if left_over \<noteq> [] then Inl (malformed_record c)
         else case kvs of
           None \<Rightarrow> Inl (malformed_record c)
         | Some fs \<Rightarrow> over_fields (cborValue c) fs)"

text \<open>The four doors: the decode of one item or of every item, and then the writer's own.\<close>

definition insert_item :: "(bytes \<Rightarrow> (error, Record) result) \<Rightarrow> (Record, 'r) plan \<Rightarrow> bytes \<Rightarrow> Record System \<Rightarrow>
    error option \<times> Record System" where
  "insert_item dec p item y = (case dec item of Inl e \<Rightarrow> (Some e, y) | Inr row \<Rightarrow> Insert p row y)"

fun decode_items :: "(bytes \<Rightarrow> (error, Record) result) \<Rightarrow> int \<Rightarrow> bytes list \<Rightarrow> (error, Record list) result" where
  "decode_items dec i [] = Inr []"
| "decode_items dec i (b # bs) =
    (case dec b of
       Inl e \<Rightarrow> Inl (EBatch (BatchError i e))
     | Inr row \<Rightarrow> res_bind (decode_items dec (i + 1) bs) (\<lambda>rows. Inr (row # rows)))"

definition insert_items :: "(bytes \<Rightarrow> (error, Record) result) \<Rightarrow> (Record, 'r) plan \<Rightarrow> bytes list \<Rightarrow> Record System \<Rightarrow>
    error option \<times> Record System" where
  "insert_items dec p items y =
    (if items = [] then InsertBatch p [] y
     else case decode_items dec 0 items of Inl e \<Rightarrow> (Some e, y) | Inr rows \<Rightarrow> InsertBatch p rows y)"

definition InsertJSON :: "library \<Rightarrow> dynamicCodec \<Rightarrow> (Record, 'r) plan \<Rightarrow> bytes \<Rightarrow> Record System \<Rightarrow> error option \<times> Record System" where
  "InsertJSON lb c = insert_item (decodeLine lb c)"

definition InsertJSONBatch :: "library \<Rightarrow> dynamicCodec \<Rightarrow> (Record, 'r) plan \<Rightarrow> bytes list \<Rightarrow> Record System \<Rightarrow> error option \<times> Record System" where
  "InsertJSONBatch lb c = insert_items (decodeLine lb c)"

definition InsertCBOR :: "library \<Rightarrow> dynamicCodec \<Rightarrow> (Record, 'r) plan \<Rightarrow> bytes \<Rightarrow> Record System \<Rightarrow> error option \<times> Record System" where
  "InsertCBOR lb c = insert_item (decodeCBORItem lb c)"

definition InsertCBORBatch :: "library \<Rightarrow> dynamicCodec \<Rightarrow> (Record, 'r) plan \<Rightarrow> bytes list \<Rightarrow> Record System \<Rightarrow> error option \<times> Record System" where
  "InsertCBORBatch lb c = insert_items (decodeCBORItem lb c)"

section \<open>The two derivations of one shape\<close>

definition firstShapeDifference :: "Descriptor \<Rightarrow> Descriptor \<Rightarrow> string" where
  "firstShapeDifference a b =
    (let l = d_fields a; r = d_fields b in
     case find (\<lambda>(i, f). i \<ge> length r \<or> f \<noteq> r ! i) (enumerate 0 l) of
       Some (i, f) \<Rightarrow> fld_Name f
     | None \<Rightarrow> if length r > length l then fld_Name (r ! length l) else '''')"

definition crossCheckSpecs :: "string \<Rightarrow> NestedField list \<Rightarrow> Descriptor \<Rightarrow> error option" where
  "crossCheckSpecs name specs derived =
    (case FromFields name specs of
       Inl e \<Rightarrow> Some e
     | Inr direct \<Rightarrow>
         if d_fp direct = d_fp derived then None
         else Some (NewCrossCheckError name (firstShapeDifference direct derived)))"

section \<open>Columns of a batch\<close>

text \<open>An Arrow array as its builder's type and values.\<close>

datatype arrow_array =
  ABools "bool option list" | AInt32s "32 word option list" | AInt64s "64 word option list"
| AFloat32s "32 word option list" | AFloat64s "64 word option list"
| AStrings "string option list" | ABinaries "bytes option list"

definition isNullAt :: "Row \<Rightarrow> nat \<Rightarrow> bool" where
  "isNullAt row at = (at \<ge> length row \<or> row ! at = None)"

definition valueAt :: "(gvalue \<Rightarrow> 'a option) \<Rightarrow> Row \<Rightarrow> nat \<Rightarrow> 'a option" where
  "valueAt as row at = (if isNullAt row at then None else as (the (row ! at)))"

text \<open>The loop of \<open>column\<close>, one for each builder.\<close>

definition column_values :: "(gvalue \<Rightarrow> 'a option) \<Rightarrow> error \<Rightarrow> Row list \<Rightarrow> nat \<Rightarrow> (error, 'a option list) result" where
  "column_values as wrong rows at = map_result (\<lambda>row.
     case valueAt as row at of
       Some v \<Rightarrow> Inr (Some v)
     | None \<Rightarrow> if isNullAt row at then Inr None else Inl wrong) rows"

definition column_array :: "dynamicCodec \<Rightarrow> Field \<Rightarrow> nat \<Rightarrow> Row list \<Rightarrow> (error, arrow_array) result" where
  "column_array c f at rows =
    (let wrong = NewEncodingError EncodingKindValue (dc_table c) (fld_Name f) (fld_ID f);
         ints = res_bind (column_values (\<lambda>v. case v of GInt64 n \<Rightarrow> Some n | _ \<Rightarrow> None) wrong rows at) (Inr \<circ> AInt64s) in
     case fld_Kind f of
       KindBoolean \<Rightarrow> res_bind (column_values (\<lambda>v. case v of GBool b \<Rightarrow> Some b | _ \<Rightarrow> None) wrong rows at) (Inr \<circ> ABools)
     | KindInt \<Rightarrow> res_bind (column_values (\<lambda>v. case v of GInt32 n \<Rightarrow> Some n | _ \<Rightarrow> None) wrong rows at) (Inr \<circ> AInt32s)
     | KindLong \<Rightarrow> ints
     | KindDecimal \<Rightarrow> ints
     | KindTimestampTz \<Rightarrow> ints
     | KindFloat \<Rightarrow> res_bind (column_values (\<lambda>v. case v of GFloat32 x \<Rightarrow> Some x | _ \<Rightarrow> None) wrong rows at) (Inr \<circ> AFloat32s)
     | KindDouble \<Rightarrow> res_bind (column_values (\<lambda>v. case v of GFloat64 x \<Rightarrow> Some x | _ \<Rightarrow> None) wrong rows at) (Inr \<circ> AFloat64s)
     | KindString \<Rightarrow> res_bind (column_values (\<lambda>v. case v of GString s \<Rightarrow> Some s | _ \<Rightarrow> None) wrong rows at) (Inr \<circ> AStrings)
     | KindBinary \<Rightarrow> res_bind (column_values (\<lambda>v. case v of GBytes b \<Rightarrow> Some b | _ \<Rightarrow> None) wrong rows at) (Inr \<circ> ABinaries)
     | KindOther k \<Rightarrow> Inl (NewEncodingError EncodingKindUnsupportedType (dc_table c) (fld_Name f) (fld_ID f)))"

end
