(* ===== verification/DynamicProps.thy ===== *)
theory DynamicProps
  imports Dynamic
begin

text \<open>What the coercion table keeps of a value, and that a bound row always encodes.\<close>

section \<open>Decimals\<close>

lemma ParseInt_digits:
  assumes "allDigits s"
  shows "ParseInt s = (if digits_val 0 s < 2 ^ 63 then Inr (int (digits_val 0 s)) else Inl ErrRange)"
proof -
  obtain c cs where s: "s = c # cs" "is_digit c"
    using assms by (cases s) (auto simp: allDigits_def)
  then have "c \<noteq> CHR ''-''" "c \<noteq> CHR ''+''"
    by (auto simp: is_digit_def)
  then show ?thesis
    using assms s(1) parse_digits_ok [of s 0]
    by (auto simp: ParseInt_def ParseUint_def Let_def allDigits_def max_uint64_def)
qed

text \<open>The spelling of a decimal: an optional minus, digits, and optionally a point and digits.\<close>

definition decimal_text :: "bool \<Rightarrow> string \<Rightarrow> string \<Rightarrow> string" where
  "decimal_text neg whole frac =
    (if neg then ''-'' else []) @ whole @ (if frac = [] then [] else CHR ''.'' # frac)"

lemma digit_no_mark: "is_digit c \<Longrightarrow> c \<noteq> CHR ''.'' \<and> c \<noteq> CHR ''-'' \<and> c \<noteq> CHR ''e'' \<and> c \<noteq> CHR ''E''"
  by (auto simp: is_digit_def)

text \<open>The cut of a text at its sign and its point.\<close>

definition decimal_parts :: "string \<Rightarrow> bool \<times> string \<times> bool \<times> string" where
  "decimal_parts text =
    (let negative = (text \<noteq> [] \<and> hd text = CHR ''-''); digits = (if negative then tl text else text);
         whole = takeWhile (\<lambda>c. c \<noteq> CHR ''.'') digits in
     (negative, whole, CHR ''.'' \<in> set digits, drop (length whole + 1) digits))"

lemma decimal_parts_spelled:
  assumes "allDigits whole" "frac = [] \<or> allDigits frac"
  shows "decimal_parts (decimal_text neg whole frac) = (neg, whole, frac \<noteq> [], frac)"
    "CHR ''e'' \<notin> set (decimal_text neg whole frac)" "CHR ''E'' \<notin> set (decimal_text neg whole frac)"
proof -
  have d: "\<forall>c\<in>set whole. is_digit c" "\<forall>c\<in>set frac. is_digit c" "whole \<noteq> []"
    using assms by (auto simp: allDigits_def)
  then have "\<forall>c\<in>set whole. c \<noteq> CHR ''.''" "CHR ''.'' \<notin> set whole" "hd whole \<noteq> CHR ''-''" "CHR ''-'' \<notin> set whole"
    using digit_no_mark hd_in_set by blast+
  then show "decimal_parts (decimal_text neg whole frac) = (neg, whole, frac \<noteq> [], frac)"
    using d(3) by (auto simp: decimal_parts_def decimal_text_def Let_def takeWhile_append2 hd_append)
  show "CHR ''e'' \<notin> set (decimal_text neg whole frac)" "CHR ''E'' \<notin> set (decimal_text neg whole frac)"
    using d digit_no_mark by (auto simp: decimal_text_def)
qed

lemma decimal_parts_spell:
  assumes "decimal_parts text = (neg, whole, point, frac)" "allDigits whole" "point \<longrightarrow> allDigits frac"
  shows "text = decimal_text neg whole frac \<and> (point \<longleftrightarrow> frac \<noteq> [])"
proof -
  let ?d = "if neg then tl text else text"
  have p: "neg = (text \<noteq> [] \<and> hd text = CHR ''-'')" "whole = takeWhile (\<lambda>c. c \<noteq> CHR ''.'') ?d"
      "point = (CHR ''.'' \<in> set ?d)" "frac = drop (length whole + 1) ?d"
    using assms(1) unfolding decimal_parts_def Let_def by auto
  have whole_text: "text = (if neg then ''-'' else []) @ ?d"
    using p(1) by (cases "text") auto
  show ?thesis
  proof (cases point)
    case True
    have d: "?d = whole @ dropWhile (\<lambda>c. c \<noteq> CHR ''.'') ?d"
      unfolding p(2) by (rule takeWhile_dropWhile_id [symmetric])
    have "dropWhile (\<lambda>c. c \<noteq> CHR ''.'') ?d \<noteq> []"
      using True p(3) by (simp add: dropWhile_eq_Nil_conv)
    then obtain x where "dropWhile (\<lambda>c. c \<noteq> CHR ''.'') ?d = CHR ''.'' # x"
      using hd_dropWhile [of "\<lambda>c. c \<noteq> CHR ''.''" ?d] by (cases "dropWhile (\<lambda>c. c \<noteq> CHR ''.'') ?d") auto
    then have d': "?d = whole @ CHR ''.'' # x"
      using d by simp
    then have "frac = x"
      unfolding p(4) by simp
    then show ?thesis
      using whole_text d' True assms(3) by (auto simp: decimal_text_def allDigits_def)
  next
    case False
    then have all: "\<forall>c\<in>set ?d. c \<noteq> CHR ''.''"
      using p(3) by auto
    then have "whole = ?d"
      unfolding p(2) by (simp only: takeWhile_eq_all_conv)
    then show ?thesis
      using whole_text False p(4) by (simp add: decimal_text_def)
  qed
qed

lemma scaleDecimal_parts:
  assumes "decimal_parts text = (neg, whole, point, frac)"
  shows "scaleDecimal text scale =
    (if CHR ''e'' \<in> set text \<or> CHR ''E'' \<in> set text then Inl RecordKindInexact
     else if \<not> allDigits whole \<or> point \<and> \<not> allDigits frac then Inl RecordKindMalformed
     else if int (length frac) > scale then Inl RecordKindInexact
     else case ParseInt (whole @ frac @ replicate (nat (scale - int (length frac))) CHR ''0'') of
           Inl ErrRange \<Rightarrow> Inl RecordKindRange
         | Inl ErrSyntax \<Rightarrow> Inl RecordKindMalformed
         | Inr unscaled \<Rightarrow> Inr (if neg then - unscaled else unscaled))"
proof -
  let ?d = "if text \<noteq> [] \<and> hd text = CHR ''-'' then tl text else text"
  have p: "neg = (text \<noteq> [] \<and> hd text = CHR ''-'')" "whole = takeWhile (\<lambda>c. c \<noteq> CHR ''.'') ?d"
      "point = (CHR ''.'' \<in> set ?d)" "frac = drop (length (takeWhile (\<lambda>c. c \<noteq> CHR ''.'') ?d) + 1) ?d"
    using assms unfolding decimal_parts_def Let_def by auto
  show ?thesis
    unfolding scaleDecimal_def Let_def p ..
qed

lemma scaleDecimal_spelled:
  assumes "allDigits whole" "frac = [] \<or> allDigits frac" "int (length frac) \<le> scale"
  shows "scaleDecimal (decimal_text neg whole frac) scale =
    (let v = digits_val 0 (whole @ frac) * 10 ^ nat (scale - int (length frac)) in
     if v < 2 ^ 63 then Inr (if neg then - int v else int v) else Inl RecordKindRange)"
proof -
  let ?z = "replicate (nat (scale - int (length frac))) CHR ''0''"
  have "allDigits (whole @ frac @ ?z)"
    using assms by (auto simp: allDigits_def is_digit_def)
  moreover have "digits_val 0 (whole @ frac @ ?z) = digits_val 0 (whole @ frac) * 10 ^ nat (scale - int (length frac))"
    by (simp add: digits_val_append digits_val_zeros)
  ultimately show ?thesis
    using scaleDecimal_parts [OF decimal_parts_spelled(1) [OF assms(1,2), of neg], of scale] assms
      decimal_parts_spelled(2,3) [OF assms(1,2)]
    by (simp add: ParseInt_digits Let_def)
qed

lemma scaleDecimal_Inr:
  assumes "scaleDecimal text scale = Inr n"
  shows "\<exists>neg whole frac. text = decimal_text neg whole frac \<and> allDigits whole \<and> (frac = [] \<or> allDigits frac)
    \<and> int (length frac) \<le> scale"
proof -
  obtain neg whole point frac where p: "decimal_parts text = (neg, whole, point, frac)"
    by (metis prod.collapse)
  then have "allDigits whole" "point \<longrightarrow> allDigits frac" "int (length frac) \<le> scale"
    using assms by (auto simp: scaleDecimal_parts [OF p] split: if_splits)
  then show ?thesis
    using decimal_parts_spell [OF p] by blast
qed

text \<open>C24: A decimal column stores exactly the number written. A text is accepted if and only if it is an optional minus,
  digits, and optionally a point with at most as many digits as the column's scale, and the number scaled fits an
  \<open>int64\<close>'s positive range; then the unscaled value stored is the number times ten to the scale, with nothing
  rounded or dropped. This is not JSON's grammar nor one spelling per value, as the comment has it: leading zeros of
  the digits and trailing zeros of the fraction are accepted (\<open>decimal_spellings\<close> below).\<close>

theorem decimal_is_exact:
  "scaleDecimal text scale = Inr n \<longleftrightarrow>
    (\<exists>neg whole frac. text = decimal_text neg whole frac \<and> allDigits whole \<and> (frac = [] \<or> allDigits frac)
      \<and> int (length frac) \<le> scale
      \<and> (let v = digits_val 0 (whole @ frac) * 10 ^ nat (scale - int (length frac)) in
         v < 2 ^ 63 \<and> n = (if neg then - int v else int v)))"
proof
  assume n: "scaleDecimal text scale = Inr n"
  then obtain neg whole frac where d: "text = decimal_text neg whole frac" "allDigits whole" "frac = [] \<or> allDigits frac"
      "int (length frac) \<le> scale"
    using scaleDecimal_Inr by blast
  then show "\<exists>neg whole frac. text = decimal_text neg whole frac \<and> allDigits whole \<and> (frac = [] \<or> allDigits frac)
      \<and> int (length frac) \<le> scale
      \<and> (let v = digits_val 0 (whole @ frac) * 10 ^ nat (scale - int (length frac)) in
         v < 2 ^ 63 \<and> n = (if neg then - int v else int v))"
    using n scaleDecimal_spelled [OF d(2-4), of neg] by (auto simp: Let_def split: if_splits)
qed (auto simp: scaleDecimal_spelled Let_def)

text \<open>The comment on \<open>scaleDecimal\<close> says exactly one spelling per value is accepted, in JSON's number grammar without
  exponents. A leading zero, which that grammar refuses, changes nothing, nor does a zero more of the fraction while the
  scale has room; nor is the sign of zero kept.\<close>

theorem decimal_spellings:
  "scaleDecimal ''1.5'' 2 = Inr 150 \<and> scaleDecimal ''1.50'' 2 = Inr 150 \<and> scaleDecimal ''01.5'' 2 = Inr 150
    \<and> scaleDecimal ''0'' 2 = Inr 0 \<and> scaleDecimal ''-0'' 2 = Inr 0"
  using scaleDecimal_spelled [of "''1''" "''5''" 2 False] scaleDecimal_spelled [of "''1''" "''50''" 2 False]
    scaleDecimal_spelled [of "''01''" "''5''" 2 False] scaleDecimal_spelled [of "''0''" "''''" 2 False]
    scaleDecimal_spelled [of "''0''" "''''" 2 True]
  by (simp add: decimal_text_def allDigits_def is_digit_def digit_val_def Let_def)

section \<open>Bound rows\<close>

lemma coerce_type: "coerce lb c f raw = Inr v \<Longrightarrow> go_type f v"
  by (cases "fld_Kind f")
    (auto simp: coerce_def go_type_def res_bind_eq_Inr split: rvalue.splits if_splits)

lemma typed_fits:
  "go_type f v \<Longrightarrow> unpoisoned f (Some v) \<Longrightarrow> value_fits f (Some v)"
  by (cases v) (auto simp: go_type_def unpoisoned_def value_fits_def)

text \<open>The value a record gives a column: nothing for an absent key or a null.\<close>

definition given :: "Record \<Rightarrow> Field \<Rightarrow> rvalue option" where
  "given rec f = (case map_of rec (fld_Name f) of Some RNull \<Rightarrow> None | x \<Rightarrow> x)"

lemma bind_column_Inr: "bind_column lb c rec f = Inr v \<longleftrightarrow>
    (case given rec f of
       None \<Rightarrow> \<not> fld_Required f \<and> v = None
     | Some raw \<Rightarrow> \<exists>x. coerce lb c f raw = Inr x \<and> v = Some x)"
  by (auto simp: bind_column_def given_def res_bind_eq_Inr split: option.splits rvalue.splits)

lemma Bind_Inr: "Bind lb c rec = Inr row \<longleftrightarrow>
    (\<forall>key\<in>fst ` set rec. byName c key) \<and> list_all2 (\<lambda>f v. bind_column lb c rec f = Inr v) (dc_columns c) row"
proof (cases "find (\<lambda>(key, _). \<not> byName c key) rec")
  case None
  then have "\<forall>key\<in>fst ` set rec. byName c key"
    by (auto simp: find_None_iff)
  then show ?thesis
    using None by (simp add: Bind_def map_result_Inr)
next
  case (Some kv)
  then have "\<exists>key\<in>fst ` set rec. \<not> byName c key"
    by (auto simp: find_Some_iff) (metis fst_conv nth_mem)
  then show ?thesis
    using Some by (auto simp: Bind_def split: prod.splits)
qed

lemma bound_fits:
  assumes "Bind lb c rec = Inr row" "dc_columns c = fs" "list_all2 unpoisoned fs row"
  shows "list_all2 value_fits fs row"
proof -
  have "value_fits f v" if "bind_column lb c rec f = Inr v" "unpoisoned f v" for f v
    using that coerce_type typed_fits
    by (auto simp: bind_column_Inr value_fits_def split: option.splits)
  then show ?thesis
    using assms by (simp add: Bind_Inr list_all2_conv_all_nth)
qed

text \<open>C23: A record of a table declared at run time binds to a well-typed row. Every key it carries is a column; each
  column gets the coercion of the value given for it, of the Go type of the column's kind, and is null only
  when the column is optional and the record has nothing or a null there. So a bound row that passes the
  poison check always encodes: the encoder never refuses what \<open>Bind\<close> let through.\<close>

theorem bound_row_is_typed:
  assumes "Bind lb c rec = Inr row" "dc_columns c = d_fields desc" "descriptor_ok desc"
  shows "(\<forall>key\<in>fst ` set rec. byName c key) \<and> length row = length (d_fields desc)
    \<and> (\<forall>i<length row. let f = d_fields desc ! i in
         case given rec f of
           None \<Rightarrow> row ! i = None \<and> \<not> fld_Required f
         | Some raw \<Rightarrow> \<exists>v. coerce lb c f raw = Inr v \<and> row ! i = Some v \<and> go_type f v)
    \<and> (checkPoison name desc row = None \<longrightarrow> (\<exists>b. Encode name desc row = Inr b))"
proof -
  have keys: "\<forall>key\<in>fst ` set rec. byName c key"
    and cols: "list_all2 (\<lambda>f v. bind_column lb c rec f = Inr v) (d_fields desc) row"
    using assms(1,2) by (simp_all add: Bind_Inr)
  then have len: "length row = length (d_fields desc)"
    by (simp add: list_all2_lengthD)
  have each: "case given rec (d_fields desc ! i) of
      None \<Rightarrow> row ! i = None \<and> \<not> fld_Required (d_fields desc ! i)
    | Some raw \<Rightarrow> \<exists>v. coerce lb c (d_fields desc ! i) raw = Inr v \<and> row ! i = Some v \<and> go_type (d_fields desc ! i) v"
    if "i < length row" for i
    using list_all2_nthD2 [OF cols that] coerce_type by (auto simp: bind_column_Inr split: option.splits)
  have "checkPoison name desc row = None \<longrightarrow> (\<exists>b. Encode name desc row = Inr b)"
    using bound_fits [OF assms(1,2)] by (simp add: checkPoison_None [OF assms(3) len] encode_fits_iff)
  with keys len each show ?thesis
    by (simp add: Let_def)
qed

definition no_library :: library where
  "no_library = \<lparr>lb_json = (\<lambda>_. Inl (ErrOther ''json'')), lb_strict = (\<lambda>_. Inl (ErrOther ''cbor'')),
     lb_raw = (\<lambda>_. Inl (ErrOther ''cbor'')), lb_value = (\<lambda>_. Inl (ErrOther ''cbor'')), lb_Parse = (\<lambda>_. None)\<rparr>"

lemma sample_columns: "d_fields sample_descriptor = sample_fields"
  by (simp add: sample_descriptor_def)

lemma sample_Bind: "Bind no_library (newDynamicCodec ''ns'' ''t'' sample_descriptor)
    [(''amount'', RString ''12.5''), (''id'', RNumber ''7'')] = Inr sample_row"
proof -
  have "scaleDecimal ''12.5'' 2 = Inr 1250"
    using scaleDecimal_spelled [of "''12''" "''5''" 2 False]
    by (simp add: decimal_text_def allDigits_def is_digit_def digit_val_def Let_def)
  moreover have "ParseInt ''7'' = Inr 7"
    using ParseInt_digits [of "''7''"] by (simp add: allDigits_def is_digit_def digit_val_def)
  ultimately show ?thesis
    by (simp add: Bind_def byName_def newDynamicCodec_def sample_columns sample_fields_def bind_column_def coerce_def
        integer_def decimal_def sample_row_def)
qed

theorem bound_row_is_typed_witness:
  "\<exists>b. Encode ''t'' sample_descriptor sample_row = Inr b"
proof -
  have "checkPoison ''t'' sample_descriptor sample_row = None"
    by (simp add: checkPoison_def sample_descriptor_def sample_fields_def sample_row_def checkColumn_def fitsPrecision_def pow10_def)
  then show ?thesis
    using bound_row_is_typed [OF sample_Bind _ sample_descriptor_ok, of "''t''"] by (simp add: newDynamicCodec_def)
qed

section \<open>Numbers that lose something\<close>

text \<open>An integer spelled as digits is stored as written, and so is a whole double up to \<open>2 ^ 53\<close>; a text with a point
  goes through a double, and a number past \<open>2 ^ 53\<close> or a fraction can be lost on the way to the check.\<close>

lemma integer_digits:
  assumes "allDigits ds"
  shows "integer c f (RNumber ds) = (if digits_val 0 ds < 2 ^ 63 then Inr (int (digits_val 0 ds))
    else Inl (refuse_record c RecordKindRange (fld_Name f)))"
  by (simp add: integer_def ParseInt_digits [OF assms])

text \<open>The exactness rule of integer columns is decided after rounding, and base64 has several spellings. A number
  past \<open>2 ^ 53\<close> spelled with a point is stored as its neighbour, a number with a fraction is stored as
  an integer, though the same column refuses \<open>2 ^ 53 + 2\<close> and 1.5; and a binary column accepts one value in
  spellings that differ in the unused bits of the last character or by a line end.\<close>

theorem inexact_values_accepted:
  "integer c f (RNumber ''9007199254740993.0'') = Inr 9007199254740992
    \<and> integer c f (RNumber ''1.00000000000000000001'') = Inr 1
    \<and> integer c f (RNumber ''9007199254740994.0'') = Inl (refuse_record c RecordKindInexact (fld_Name f))
    \<and> integer c f (RNumber ''1.5'') = Inl (refuse_record c RecordKindInexact (fld_Name f))
    \<and> binary c f (RString ''YQ=='') = Inr [97]
    \<and> binary c f (RString ''YR=='') = Inr [97]
    \<and> binary c f (RString [CHR ''Y'', CHR ''Q'', CHR 0x0A, CHR ''='', CHR ''='']) = Inr [97]"
  by (simp add: integer_def ParseInt_def ParseUint_def ParseFloat_def is_special_def skip_sign_def lower_char_def
      readFloat_def is_digit_def digit_val_def max_uint64_def
      double_of_def round_float_def log2_floor_def shifted_le_def bits.simps round_div_def Let_def integralFloat_def is_whole_def
      past_2_53_def whole_part_def binary_def b64_DecodeString_def b64_value_def)

end
