(* ===== verification/Ingest.thy ===== *)
theory Ingest
  imports Framing DynamicProps
begin

text \<open>File \<open>ingest.go\<close> above the framing: options, chunks, envelopes, groups, and the write of a group against
  the staging ceiling. \<open>writeGroup\<close> and what calls it take the writer's batch door as an argument, which
  \<open>IngestStream\<close> sets to the \<open>InsertBatch\<close> of the model; the locale \<open>batch_door\<close> is its contract. A stream's
  surroundings are in \<open>pump\<close>: what other goroutines do before each attempt, how many sleeps run out before
  the context ends, and what \<open>ctx.Err()\<close> answers.\<close>

section \<open>Options\<close>

record IngestOptions =
  io_MaxRecordBytes :: int
  io_ChunkMaxRecords :: int
  io_ChunkMaxBytes :: int
  io_ReadAhead :: int
  io_BackoffMin :: int
  io_BackoffMax :: int
  io_OnNotice :: bool

definition DefaultIngestMaxRecordBytes :: int where "DefaultIngestMaxRecordBytes = 16777216"
definition DefaultIngestChunkMaxRecords :: int where "DefaultIngestChunkMaxRecords = 4096"
definition DefaultIngestChunkMaxBytes :: int where "DefaultIngestChunkMaxBytes = 8388608"
definition DefaultIngestReadAhead :: int where "DefaultIngestReadAhead = 1024"
definition DefaultIngestBackoffMin :: int where "DefaultIngestBackoffMin = 100000000"
definition DefaultIngestBackoffMax :: int where "DefaultIngestBackoffMax = 5000000000"

definition or_default :: "int \<Rightarrow> int \<Rightarrow> int" where
  "or_default x d = (if x \<le> 0 then d else x)"

definition resolved_options :: "IngestOptions \<Rightarrow> IngestOptions" where
  "resolved_options o1 = o1\<lparr>
     io_MaxRecordBytes := or_default (io_MaxRecordBytes o1) DefaultIngestMaxRecordBytes,
     io_ChunkMaxRecords := or_default (io_ChunkMaxRecords o1) DefaultIngestChunkMaxRecords,
     io_ChunkMaxBytes := or_default (io_ChunkMaxBytes o1) DefaultIngestChunkMaxBytes,
     io_ReadAhead := or_default (io_ReadAhead o1) DefaultIngestReadAhead,
     io_BackoffMin := or_default (io_BackoffMin o1) DefaultIngestBackoffMin,
     io_BackoffMax := or_default (io_BackoffMax o1) DefaultIngestBackoffMax\<rparr>"

definition validate_options :: "IngestOptions \<Rightarrow> error option" where
  "validate_options o1 =
    (let bad = (if io_BackoffMax o1 < io_BackoffMin o1
       then [EConfigField (ConfigFieldError ''BackoffMax'' ''must not be smaller than BackoffMin'')] else []) in
     if bad \<noteq> [] then Some (EConfig (ConfigError (ErrJoin bad))) else None)"

section \<open>Writers and their surroundings\<close>

record 'r DynamicWriter =
  dw_plan :: "(Record, 'r) plan"
  dw_codec :: dynamicCodec

definition dw_Namespace :: "'r DynamicWriter \<Rightarrow> string" where "dw_Namespace w = fo_Namespace (pl_opts (dw_plan w))"
definition dw_Table :: "'r DynamicWriter \<Rightarrow> string" where "dw_Table w = fo_Table (pl_opts (dw_plan w))"

type_synonym ('r, 's) door = "string \<Rightarrow> 'r DynamicWriter \<Rightarrow> Record list \<Rightarrow> 's \<Rightarrow> error option \<times> 's"

datatype IngestNoticeKind = IngestNoticeHeld | IngestNoticeResumed

text \<open>What an onlooker sees: a notice, with its table, record and line, or a sleep of so many nanoseconds.\<close>

datatype ingest_event = Notice IngestNoticeKind string string nat nat | Slept int

record 's pump =
  pm_state :: 's
  pm_others :: "('s \<Rightarrow> 's) list"
  pm_wakes :: nat
  pm_ctx :: "error option list"
  pm_ended :: bool
  pm_events :: "ingest_event list"

definition try_insert :: "('r, 's) door \<Rightarrow> string \<Rightarrow> 'r DynamicWriter \<Rightarrow> Record list \<Rightarrow> 's pump \<Rightarrow> error option \<times> 's pump" where
  "try_insert ins key w rows y =
    (let s = (case pm_others y of [] \<Rightarrow> pm_state y | f # _ \<Rightarrow> f (pm_state y)) in
     case ins key w rows s of (r, s') \<Rightarrow> (r, y\<lparr>pm_state := s', pm_others := tl (pm_others y)\<rparr>))"

section \<open>Chunks\<close>

datatype chunkOutcome = chunkMore | chunkEnded | chunkStopped

text \<open>The drain of what has already arrived: \<open>n\<close> receives find the channel ready, which a closed one always
  is.\<close>

fun drain :: "IngestOptions \<Rightarrow> nat \<Rightarrow> numberedRecord list \<Rightarrow> int \<Rightarrow> numberedRecord list \<Rightarrow>
    numberedRecord list \<times> chunkOutcome \<times> numberedRecord list" where
  "drain opts n chunk bytes recs =
    (if \<not> (int (length chunk) < io_ChunkMaxRecords opts \<and> bytes < io_ChunkMaxBytes opts) then (chunk, chunkMore, recs)
     else case n of
       0 \<Rightarrow> (chunk, chunkMore, recs)
     | Suc m \<Rightarrow> (case recs of
         [] \<Rightarrow> (chunk, chunkEnded, [])
       | r # rs \<Rightarrow> drain opts m (chunk @ [r]) (bytes + int (length (nr_item r))) rs))"

declare drain.simps [simp del]

text \<open>\<open>None\<close> when the context ends before a record comes.\<close>

definition nextChunk :: "IngestOptions \<Rightarrow> nat option \<Rightarrow> numberedRecord list \<Rightarrow>
    numberedRecord list \<times> chunkOutcome \<times> numberedRecord list" where
  "nextChunk opts arrived recs =
    (case arrived of
       None \<Rightarrow> ([], chunkStopped, recs)
     | Some n \<Rightarrow> (case recs of
         [] \<Rightarrow> ([], chunkEnded, [])
       | r # rs \<Rightarrow> drain opts n [r] (int (length (nr_item r))) rs))"

section \<open>Envelopes and groups\<close>

text \<open>The two decodes of an envelope's own map: its \<open>table\<close> and the raw bytes of its \<open>row\<close>, each empty when it is
  missing, and for JSON the decoder's \<open>More\<close>.\<close>

record envelopes =
  lb_jsonEnvelope :: "bytes \<Rightarrow> (error, (string \<times> bytes) \<times> bool) result"
  lb_cborEnvelope :: "bytes \<Rightarrow> (error, string \<times> bytes) result"

definition parseEnvelope :: "envelopes \<Rightarrow> numberedRecord \<Rightarrow> string \<times> (IngestKind \<times> error option, bytes) result" where
  "parseEnvelope el rec =
    (if \<not> nr_json rec
     then (case lb_cborEnvelope el (nr_item rec) of
             Inl e \<Rightarrow> ('''', Inl (IngestKindGrammar, Some e))
           | Inr (table, row) \<Rightarrow>
               if table = '''' \<or> row = [] then (table, Inl (IngestKindEnvelope, None)) else (table, Inr row))
     else (case lb_jsonEnvelope el (nr_item rec) of
             Inl e \<Rightarrow> ('''', Inl (IngestKindGrammar, Some e))
           | Inr ((table, row), extra) \<Rightarrow>
               if extra then (table, Inl (IngestKindGrammar, None))
               else if table = '''' \<or> row = [] then (table, Inl (IngestKindEnvelope, None)) else (table, Inr row)))"

definition lineOrNone :: "numberedRecord \<Rightarrow> nat" where
  "lineOrNone r = (if nr_json r then nr_line r else 0)"

record 'r ingestGroup =
  gr_key :: string
  gr_writer :: "'r DynamicWriter"
  gr_rows :: "Record list"
  gr_numbers :: "nat list"

definition upTo :: "int \<Rightarrow> 'r ingestGroup \<Rightarrow> Record list \<times> nat list" where
  "upTo limit g =
    (if limit < 0 then (gr_rows g, gr_numbers g)
     else let i = length (takeWhile (\<lambda>n. int n < limit) (gr_numbers g)) in (take i (gr_rows g), take i (gr_numbers g)))"

text \<open>One record of the loop of \<open>groupChunk\<close>: its table, its writer and its row, or the refusal.\<close>

definition read_record :: "library \<Rightarrow> envelopes \<Rightarrow> (string \<Rightarrow> 'r DynamicWriter option) \<Rightarrow> numberedRecord \<Rightarrow>
    (error IngestError, string \<times> 'r DynamicWriter \<times> Record) result" where
  "read_record lb el writers rec =
    (let refuse = (\<lambda>kind table e. Inl (IngestError kind (int (nr_number rec)) (int (lineOrNone rec)) table e)) in
     case parseEnvelope el rec of
       (table, Inl (kind, cause)) \<Rightarrow> refuse kind table cause
     | (table, Inr rowBytes) \<Rightarrow>
         (case writers table of
            None \<Rightarrow> refuse IngestKindUnknownTable table None
          | Some w \<Rightarrow>
              (case (if nr_json rec then decodeLine lb (dw_codec w) rowBytes else decodeCBORItem lb (dw_codec w) rowBytes) of
                 Inl e \<Rightarrow> refuse IngestKindRefused table (Some e)
               | Inr row \<Rightarrow> Inr (table, w, row))))"

text \<open>The row goes to its table's group, or to a new one behind the others.\<close>

fun add_row :: "string \<Rightarrow> 'r DynamicWriter \<Rightarrow> Record \<Rightarrow> nat \<Rightarrow> 'r ingestGroup list \<Rightarrow> 'r ingestGroup list" where
  "add_row table w row n [] = [\<lparr>gr_key = table, gr_writer = w, gr_rows = [row], gr_numbers = [n]\<rparr>]"
| "add_row table w row n (g # gs) =
    (if gr_key g = table then g\<lparr>gr_rows := gr_rows g @ [row], gr_numbers := gr_numbers g @ [n]\<rparr> # gs
     else g # add_row table w row n gs)"

fun group_from :: "library \<Rightarrow> envelopes \<Rightarrow> (string \<Rightarrow> 'r DynamicWriter option) \<Rightarrow> 'r ingestGroup list \<Rightarrow>
    numberedRecord list \<Rightarrow> 'r ingestGroup list \<times> error IngestError option" where
  "group_from lb el writers gs [] = (gs, None)"
| "group_from lb el writers gs (rec # chunk) =
    (case read_record lb el writers rec of
       Inl bad \<Rightarrow> (gs, Some bad)
     | Inr (table, w, row) \<Rightarrow> group_from lb el writers (add_row table w row (nr_number rec) gs) chunk)"

definition groupChunk :: "library \<Rightarrow> envelopes \<Rightarrow> (string \<Rightarrow> 'r DynamicWriter option) \<Rightarrow> numberedRecord list \<Rightarrow>
    'r ingestGroup list \<times> error IngestError option" where
  "groupChunk lb el writers chunk = group_from lb el writers [] chunk"

definition line_of :: "numberedRecord list \<Rightarrow> nat \<Rightarrow> nat" where
  "line_of chunk record = (case find (\<lambda>rec. nr_number rec = record) chunk of Some rec \<Rightarrow> lineOrNone rec | None \<Rightarrow> 0)"

definition chunkError :: "IngestKind \<Rightarrow> nat \<Rightarrow> numberedRecord list \<Rightarrow> string \<Rightarrow> error option \<Rightarrow> error" where
  "chunkError kind record chunk table e = NewIngestError kind (int record) (int (line_of chunk record)) table e"

text \<open>The record a batch's refusal is about, with that row's own error.\<close>

definition as_BatchError :: "error \<Rightarrow> (int \<times> error) option" where
  "as_BatchError e =
    (case errors_As (\<lambda>x. case x of EBatch _ \<Rightarrow> True | _ \<Rightarrow> False) e of
       Some (EBatch b) \<Rightarrow> Some (be_Index b, be_Err b)
     | _ \<Rightarrow> None)"

definition refusedRecord :: "error \<Rightarrow> nat list \<Rightarrow> (nat \<times> error) option" where
  "refusedRecord e numbers =
    (case as_BatchError e of
       None \<Rightarrow> None
     | Some (i, c) \<Rightarrow> if i < 0 \<or> i \<ge> int (length numbers) then None else Some (numbers ! nat i, c))"

section \<open>Writing a group\<close>

definition errIngestStopped :: error where
  "errIngestStopped = ErrOther ''icelake: the stream was stopped''"

definition notify_pump :: "IngestOptions \<Rightarrow> 'r DynamicWriter \<Rightarrow> numberedRecord list \<Rightarrow> IngestNoticeKind \<Rightarrow> nat \<Rightarrow> 's pump \<Rightarrow> 's pump" where
  "notify_pump opts w chunk kind at y =
    (if io_OnNotice opts
     then y\<lparr>pm_events := pm_events y @ [Notice kind (dw_Namespace w) (dw_Table w) at (line_of chunk at)]\<rparr> else y)"

text \<open>The wait between two attempts: whether the delay ran out before the context.\<close>

definition sleep :: "int \<Rightarrow> 's pump \<Rightarrow> bool \<times> 's pump" where
  "sleep pause y =
    (if pm_wakes y = 0 then (False, y\<lparr>pm_ended := True\<rparr>)
     else (True, y\<lparr>pm_wakes := pm_wakes y - 1, pm_events := pm_events y @ [Slept pause]\<rparr>))"

definition next_delay :: "IngestOptions \<Rightarrow> int \<Rightarrow> int" where
  "next_delay opts pause = (let d = wrap64 (pause * 2) in if d > io_BackoffMax opts then io_BackoffMax opts else d)"

text \<open>The \<open>default\<close> case of the switch: the context's own error is a stop.\<close>

definition other_failure :: "error \<Rightarrow> 's pump \<Rightarrow> error \<times> 's pump" where
  "other_failure e y =
    (let y1 = y\<lparr>pm_ctx := tl (pm_ctx y)\<rparr> in
     case pm_ctx y of
       Some c # _ \<Rightarrow> if errors_Is e c then (errIngestStopped, y1\<lparr>pm_ended := True\<rparr>) else (e, y1)
     | _ \<Rightarrow> (e, y1))"

lemma try_insert_keeps:
  "try_insert ins key w rows y = (r, y') \<Longrightarrow> pm_wakes y' = pm_wakes y \<and> pm_ctx y' = pm_ctx y \<and> pm_ended y' = pm_ended y
     \<and> pm_events y' = pm_events y"
  by (auto simp: try_insert_def Let_def split: prod.splits)

lemma notify_pump_sel [simp]:
  "pm_wakes (notify_pump opts w chunk kind at y) = pm_wakes y" "pm_state (notify_pump opts w chunk kind at y) = pm_state y"
  "pm_others (notify_pump opts w chunk kind at y) = pm_others y" "pm_ended (notify_pump opts w chunk kind at y) = pm_ended y"
  by (simp_all add: notify_pump_def)

lemma sleep_woken: "sleep pause y = (True, y') \<Longrightarrow> pm_wakes y' < pm_wakes y"
  by (auto simp: sleep_def split: if_splits)

text \<open>The loop, with \<open>held\<close>, \<open>pause\<close> and \<open>take\<close> as it carries them.\<close>

function write_loop :: "('r, 's) door \<Rightarrow> IngestOptions \<Rightarrow> string \<Rightarrow> 'r DynamicWriter \<Rightarrow> numberedRecord list \<Rightarrow>
    bool \<Rightarrow> int \<Rightarrow> nat \<Rightarrow> Record list \<Rightarrow> nat list \<Rightarrow> 's pump \<Rightarrow> error option \<times> 's pump" where
  "write_loop ins opts key w chunk held pause tk rows numbers y =
    (if rows = [] then (None, y)
     else let n = min tk (length rows) in
       case try_insert ins key w (take n rows) y of
         (None, y1) \<Rightarrow>
           write_loop ins opts key w chunk False (if held then io_BackoffMin opts else pause)
             (length rows - n) (drop n rows) (drop n numbers)
             (if held then notify_pump opts w chunk IngestNoticeResumed (hd numbers) y1 else y1)
       | (Some e, y1) \<Rightarrow>
           if errors_Is e ErrStagingFull
           then if n > 1 then write_loop ins opts key w chunk held pause (n div 2) rows numbers y1
             else (case sleep pause (if held then y1 else notify_pump opts w chunk IngestNoticeHeld (hd numbers) y1) of
                 (False, y2) \<Rightarrow> (Some errIngestStopped, y2)
               | (True, y2) \<Rightarrow> write_loop ins opts key w chunk True (next_delay opts pause) n rows numbers y2)
           else (case other_failure e y1 of (e', y2) \<Rightarrow> (Some e', y2)))"
  by pat_completeness auto
termination
proof (relation "measures [\<lambda>(ins, opts, key, w, chunk, held, pause, tk, rows, numbers, y). pm_wakes y,
    \<lambda>(ins, opts, key, w, chunk, held, pause, tk, rows, numbers, y). length rows,
    \<lambda>(ins, opts, key, w, chunk, held, pause, tk, rows, numbers, y). if min tk (length rows) = 0 then length rows + 1 else min tk (length rows)]",
    goal_cases)
  case 4
  then show ?case
    by (auto dest!: try_insert_keeps [OF sym] sleep_woken [OF sym] split: if_splits)
qed (auto dest!: try_insert_keeps [OF sym])

declare write_loop.simps [simp del]

definition writeGroup :: "('r, 's) door \<Rightarrow> IngestOptions \<Rightarrow> 'r ingestGroup \<Rightarrow> Record list \<Rightarrow> nat list \<Rightarrow> numberedRecord list \<Rightarrow>
    's pump \<Rightarrow> error option \<times> 's pump" where
  "writeGroup ins opts g rows numbers chunk y =
    write_loop ins opts (gr_key g) (gr_writer g) chunk False (io_BackoffMin opts) (length rows) rows numbers y"

section \<open>Writing a chunk\<close>

text \<open>The loop over the groups, with \<open>limit\<close> and \<open>failure\<close> as it carries them.\<close>

fun write_groups :: "('r, 's) door \<Rightarrow> IngestOptions \<Rightarrow> numberedRecord list \<Rightarrow> int \<Rightarrow> error option \<Rightarrow>
    'r ingestGroup list \<Rightarrow> 's pump \<Rightarrow> error option \<times> 's pump" where
  "write_groups ins opts chunk limit failure [] y = (failure, y)"
| "write_groups ins opts chunk limit failure (g # gs) y =
    (let rows = fst (upTo limit g); numbers = snd (upTo limit g) in
     if rows = [] then write_groups ins opts chunk limit failure gs y
     else case writeGroup ins opts g rows numbers chunk y of
       (None, y1) \<Rightarrow> write_groups ins opts chunk limit failure gs y1
     | (Some e, y1) \<Rightarrow>
         if errors_Is e errIngestStopped then (Some e, y1)
         else (case refusedRecord e numbers of
             None \<Rightarrow> (Some (chunkError IngestKindWrite (numbers ! 0) chunk (dw_Table (gr_writer g)) (Some e)), y1)
           | Some (at, c) \<Rightarrow>
               let failure' = Some (chunkError IngestKindRefused at chunk (dw_Table (gr_writer g)) (Some c));
                   rows' = fst (upTo (int at) g); numbers' = snd (upTo (int at) g) in
               if rows' = [] then write_groups ins opts chunk (int at) failure' gs y1
               else (case writeGroup ins opts g rows' numbers' chunk y1 of
                   (None, y2) \<Rightarrow> write_groups ins opts chunk (int at) failure' gs y2
                 | (Some e', y2) \<Rightarrow>
                     if errors_Is e' errIngestStopped then (Some e', y2)
                     else (Some (chunkError IngestKindWrite (numbers' ! 0) chunk (dw_Table (gr_writer g)) (Some e')), y2))))"

declare write_groups.simps(2) [simp del]

definition write_chunk :: "('r, 's) door \<Rightarrow> library \<Rightarrow> envelopes \<Rightarrow> (string \<Rightarrow> 'r DynamicWriter option) \<Rightarrow> IngestOptions \<Rightarrow>
    numberedRecord list \<Rightarrow> 's pump \<Rightarrow> error option \<times> 's pump" where
  "write_chunk ins lb el writers opts chunk y =
    (case groupChunk lb el writers chunk of
       (groups, None) \<Rightarrow> write_groups ins opts chunk (-1) None groups y
     | (groups, Some bad) \<Rightarrow> write_groups ins opts chunk (ie_Record bad) (Some (EIngest bad)) groups y)"

section \<open>The stream\<close>

text \<open>One entry of the schedule for each chunk: \<open>None\<close> when the context ends before its first record. \<open>failed\<close> is what
  ended the framing, \<open>None\<close> when that was the context.\<close>

fun ingest_loop :: "('r, 's) door \<Rightarrow> library \<Rightarrow> envelopes \<Rightarrow> (string \<Rightarrow> 'r DynamicWriter option) \<Rightarrow> IngestOptions \<Rightarrow>
    error option \<Rightarrow> nat option list \<Rightarrow> numberedRecord list \<Rightarrow> 's pump \<Rightarrow> error option \<times> 's pump" where
  "ingest_loop ins lb el writers opts failed [] recs y = (None, y\<lparr>pm_ended := True\<rparr>)"
| "ingest_loop ins lb el writers opts failed (a # as) recs y =
    (case nextChunk opts a recs of (chunk, outcome, recs') \<Rightarrow>
     case write_chunk ins lb el writers opts chunk y of
       (Some e, y1) \<Rightarrow> if errors_Is e errIngestStopped then (None, y1) else (Some e, y1)
     | (None, y1) \<Rightarrow>
         (case outcome of
            chunkStopped \<Rightarrow> (None, y1\<lparr>pm_ended := True\<rparr>)
          | chunkEnded \<Rightarrow>
              (case failed of
                 None \<Rightarrow> (None, y1\<lparr>pm_ended := True\<rparr>)
               | Some e \<Rightarrow> if errors_Is e io_EOF then (None, y1) else (Some e, y1))
          | chunkMore \<Rightarrow> ingest_loop ins lb el writers opts failed as recs' y1))"

text \<open>\<open>taken\<close> is how many records the framing hands out before it sees the context's end.\<close>

definition ingest_stream :: "('r, 's) door \<Rightarrow> library \<Rightarrow> envelopes \<Rightarrow> (bytes \<Rightarrow> cbor_first) \<Rightarrow> (string \<Rightarrow> 'r DynamicWriter option) \<Rightarrow>
    IngestOptions \<Rightarrow> reader \<Rightarrow> nat \<Rightarrow> nat option list \<Rightarrow> 's pump \<Rightarrow> error option \<times> 's pump" where
  "ingest_stream ins lb el dec writers opts r taken schedule y =
    (let opts' = resolved_options opts in
     case validate_options opts' of
       Some e \<Rightarrow> (Some e, y)
     | None \<Rightarrow>
         (case readRecords dec taken (new_scanner (nat (io_MaxRecordBytes opts')) r) of
            (recs, failed) \<Rightarrow> ingest_loop ins lb el writers opts' failed schedule recs y))"

section \<open>The writers of a store\<close>

text \<open>The writers of one store, each with the records staging has accepted from it. What they share is kept once
  and shown to each.\<close>

record fleet =
  ft_store :: Store
  ft_staging :: store
  ft_systems :: "string \<Rightarrow> Record System"
  ft_accepted :: "string \<Rightarrow> Record list"

definition seen_by :: "string \<Rightarrow> fleet \<Rightarrow> Record System" where
  "seen_by key f =
    (let y = ft_systems f key in
     y\<lparr>sy_store := ft_store f, sy_world := (sy_world y)\<lparr>fw_spool := (fw_spool (sy_world y))\<lparr>sp_store := ft_staging f\<rparr>\<rparr>\<rparr>)"

definition put_back :: "string \<Rightarrow> Record System \<Rightarrow> fleet \<Rightarrow> fleet" where
  "put_back key y f = f\<lparr>ft_store := sy_store y, ft_staging := sys_store y, ft_systems := (ft_systems f)(key := y)\<rparr>"

text \<open>The batch door of a writer: its \<open>InsertBatch\<close>. Records are accepted when the writer's own count of them
  rises.\<close>

definition fleet_door :: "('r, fleet) door" where
  "fleet_door key w rows f =
    (case InsertBatch (dw_plan w) rows (seen_by key f) of
       (r, y) \<Rightarrow> (r, (put_back key y f)\<lparr>ft_accepted :=
          (if wr_accepted (sy_writer y) = wr_accepted (sy_writer (ft_systems f key)) then ft_accepted f
           else (ft_accepted f)(key := ft_accepted f key @ rows))\<rparr>))"

definition IngestStream :: "library \<Rightarrow> envelopes \<Rightarrow> (bytes \<Rightarrow> cbor_first) \<Rightarrow> (string \<Rightarrow> 'r DynamicWriter option) \<Rightarrow>
    IngestOptions \<Rightarrow> reader \<Rightarrow> nat \<Rightarrow> nat option list \<Rightarrow> fleet pump \<Rightarrow> error option \<times> fleet pump" where
  "IngestStream = ingest_stream fleet_door"

end
