(* ===== verification/IngestProps.thy ===== *)
theory IngestProps
  imports Ingest
begin

text \<open>What a stream promises: the contract \<open>batch_door\<close> of a writer's batch insert, the lemmas of the loops over
  any door that keeps it, its interpretation on the model's \<open>InsertBatch\<close>, and the promise of \<open>IngestStream\<close>.\<close>

section \<open>Groups\<close>

text \<open>The records of a chunk before the first this layer refuses, as the rows of one table under their numbers.\<close>

fun items_of :: "library \<Rightarrow> envelopes \<Rightarrow> (string \<Rightarrow> 'r DynamicWriter option) \<Rightarrow> string \<Rightarrow> numberedRecord list \<Rightarrow> (nat \<times> Record) list" where
  "items_of lb el writers t [] = []"
| "items_of lb el writers t (rec # recs) =
    (case read_record lb el writers rec of
       Inl _ \<Rightarrow> []
     | Inr (table, w, row) \<Rightarrow> (if table = t then [(nr_number rec, row)] else []) @ items_of lb el writers t recs)"

definition numbers_up :: "numberedRecord list \<Rightarrow> bool" where
  "numbers_up recs = sorted_wrt (<) (map nr_number recs)"

definition group_ok :: "(string \<Rightarrow> 'r DynamicWriter option) \<Rightarrow> 'r ingestGroup \<Rightarrow> bool" where
  "group_ok writers g \<longleftrightarrow> writers (gr_key g) = Some (gr_writer g) \<and> length (gr_rows g) = length (gr_numbers g)"

definition group_items :: "'r ingestGroup list \<Rightarrow> string \<Rightarrow> (nat \<times> Record) list" where
  "group_items gs t = concat (map (\<lambda>g. if gr_key g = t then zip (gr_numbers g) (gr_rows g) else []) gs)"

lemma group_items_simps [simp]: "group_items [] t = []"
    "group_items (g # gs) t = (if gr_key g = t then zip (gr_numbers g) (gr_rows g) else []) @ group_items gs t"
  by (simp_all add: group_items_def)

lemma group_items_other: "t \<notin> gr_key ` set gs \<Longrightarrow> group_items gs t = []"
  by (induction gs) auto

lemma add_row_props:
  assumes "\<forall>g\<in>set gs. group_ok writers g" "distinct (map gr_key gs)" "writers table = Some w"
  shows "(\<forall>g\<in>set (add_row table w row n gs). group_ok writers g)
    \<and> gr_key ` set (add_row table w row n gs) = insert table (gr_key ` set gs)
    \<and> distinct (map gr_key (add_row table w row n gs))
    \<and> group_items (add_row table w row n gs) t = group_items gs t @ (if t = table then [(n, row)] else [])"
  using assms
proof (induction gs)
  case (Cons g gs)
  then have IH: "(\<forall>g\<in>set (add_row table w row n gs). group_ok writers g)
    \<and> gr_key ` set (add_row table w row n gs) = insert table (gr_key ` set gs)
    \<and> distinct (map gr_key (add_row table w row n gs))
    \<and> group_items (add_row table w row n gs) t = group_items gs t @ (if t = table then [(n, row)] else [])"
    by simp
  show ?case
  proof (cases "gr_key g = table")
    case True
    then show ?thesis
      using Cons.prems group_items_other [of table gs] by (auto simp: group_ok_def)
  next
    case False
    then show ?thesis
      using Cons.prems(1,2) IH by (simp add: insert_commute)
  qed
qed (simp add: group_ok_def)

lemma read_record_Inl:
  "read_record lb el writers rec = Inl bad \<Longrightarrow>
    ie_Record bad = int (nr_number rec) \<and> ie_Kind bad \<in> {IngestKindGrammar, IngestKindEnvelope, IngestKindUnknownTable, IngestKindRefused}"
  by (auto simp: read_record_def parseEnvelope_def Let_def split: prod.splits sum.splits option.splits if_splits)

lemma read_record_Inr: "read_record lb el writers rec = Inr (table, w, row) \<Longrightarrow> writers table = Some w"
  by (auto simp: read_record_def Let_def split: prod.splits sum.splits option.splits if_splits)

lemma items_of_numbers: "(n, row) \<in> set (items_of lb el writers t recs) \<Longrightarrow> n \<in> nr_number ` set recs"
  by (induction recs) (auto split: sum.splits if_splits)

lemma items_of_up: "numbers_up recs \<Longrightarrow> sorted_wrt (<) (map fst (items_of lb el writers t recs))"
proof (induction recs)
  case (Cons rec recs)
  then have "\<forall>n\<in>nr_number ` set recs. nr_number rec < n" "sorted_wrt (<) (map fst (items_of lb el writers t recs))"
    by (auto simp: numbers_up_def)
  then show ?case
    using items_of_numbers [of _ _ lb el writers t recs] by (auto split: sum.split) blast+
qed simp

lemma group_from_groups:
  assumes "\<forall>g\<in>set gs. group_ok writers g" "distinct (map gr_key gs)" "group_from lb el writers gs chunk = (gs', bad)"
  shows "(\<forall>g\<in>set gs'. group_ok writers g) \<and> distinct (map gr_key gs')
    \<and> group_items gs' t = group_items gs t @ items_of lb el writers t chunk"
  using assms
proof (induction chunk arbitrary: gs)
  case (Cons rec chunk)
  show ?case
  proof (cases "read_record lb el writers rec")
    case (Inl bad)
    then show ?thesis
      using Cons.prems by auto
  next
    case (Inr r)
    then obtain table w row where r: "r = (table, w, row)" by (cases r)
    note add = add_row_props [OF Cons.prems(1,2) read_record_Inr [OF Inr [unfolded r]], of row "nr_number rec" t]
    have "group_from lb el writers (add_row table w row (nr_number rec) gs) chunk = (gs', bad)"
      using Cons.prems(3) Inr r by simp
    from Cons.IH [OF _ _ this] add show ?thesis
      using Inr r by auto
  qed
qed simp

lemma group_from_bad:
  assumes "group_from lb el writers gs chunk = (gs', bad)"
  shows "case bad of
      None \<Rightarrow> \<forall>rec\<in>set chunk. \<not> isl (read_record lb el writers rec)
    | Some b \<Rightarrow> \<exists>k<length chunk. read_record lb el writers (chunk ! k) = Inl b
        \<and> (\<forall>m<k. \<not> isl (read_record lb el writers (chunk ! m)))"
  using assms
proof (induction chunk arbitrary: gs)
  case (Cons rec chunk)
  show ?case
  proof (cases "read_record lb el writers rec")
    case (Inl b)
    then show ?thesis
      using Cons.prems by (auto intro!: exI [of _ 0])
  next
    case (Inr r)
    then obtain table w row where r: "r = (table, w, row)" by (cases r)
    have "group_from lb el writers (add_row table w row (nr_number rec) gs) chunk = (gs', bad)"
      using Cons.prems Inr r by simp
    from Cons.IH [OF this] Inr show ?thesis
      by (fastforce simp: All_less_Suc2 nth_Cons' Ex_less_Suc2 split: option.split)
  qed
qed simp

lemma items_of_cut:
  assumes "k < length recs" "read_record lb el writers (recs ! k) = Inl b"
    "\<forall>m<k. \<not> isl (read_record lb el writers (recs ! m))"
  shows "items_of lb el writers t recs = items_of lb el writers t (take k recs)"
  using assms
proof (induction recs arbitrary: k)
  case (Cons rec recs)
  show ?case
  proof (cases k)
    case (Suc m)
    have "items_of lb el writers t recs = items_of lb el writers t (take m recs)"
      by (rule Cons.IH) (use Cons.prems Suc in \<open>auto simp: All_less_Suc2\<close>)
    then show ?thesis
      by (simp add: Suc split: sum.split)
  qed (use Cons.prems in simp)
qed simp

section \<open>The contract of a batch door\<close>

text \<open>A batch is accepted whole or not at all; success means accepted; a full staging store refuses what could
  all have been bound, and so does a refused row of everything before it; and no error is the stream's own
  mark of having been stopped.\<close>

locale batch_door =
  fixes ins :: "('r, 's) door"
    and ok :: "'s \<Rightarrow> bool"
    and writer_ok :: "'r DynamicWriter \<Rightarrow> bool"
    and bindable :: "'r DynamicWriter \<Rightarrow> Record \<Rightarrow> bool"
    and accepted :: "'s \<Rightarrow> string \<Rightarrow> Record list"
  assumes keeps: "ok s \<Longrightarrow> writer_ok w \<Longrightarrow> ins key w rows s = (r, s') \<Longrightarrow> ok s'"
    and whole: "ok s \<Longrightarrow> writer_ok w \<Longrightarrow> ins key w rows s = (r, s') \<Longrightarrow>
      accepted s' = accepted s \<or> accepted s' = (accepted s)(key := accepted s key @ rows)"
    and success: "ok s \<Longrightarrow> writer_ok w \<Longrightarrow> ins key w rows s = (None, s') \<Longrightarrow>
      accepted s' = (accepted s)(key := accepted s key @ rows)"
    and full: "ok s \<Longrightarrow> writer_ok w \<Longrightarrow> ins key w rows s = (Some e, s') \<Longrightarrow> errors_Is e ErrStagingFull \<Longrightarrow>
      accepted s' = accepted s \<and> (\<forall>row\<in>set rows. bindable w row)"
    and row_refused: "ok s \<Longrightarrow> writer_ok w \<Longrightarrow> ins key w rows s = (Some e, s') \<Longrightarrow> as_BatchError e = Some (i, c) \<Longrightarrow>
      accepted s' = accepted s \<and> 0 \<le> i \<and> i < int (length rows) \<and> \<not> bindable w (rows ! nat i)
      \<and> (\<forall>m<nat i. bindable w (rows ! m))"
    and not_stopped: "ok s \<Longrightarrow> writer_ok w \<Longrightarrow> ins key w rows s = (Some e, s') \<Longrightarrow> \<not> errors_Is e errIngestStopped"
begin

text \<open>The state is sound and what other goroutines do keeps it so, and takes nothing back that was accepted.\<close>

definition sound :: "'s pump \<Rightarrow> bool" where
  "sound y \<longleftrightarrow> ok (pm_state y) \<and> (\<forall>f\<in>set (pm_others y). \<forall>s. ok s \<longrightarrow> ok (f s) \<and> accepted (f s) = accepted s)"

lemma try_insert_result:
  assumes "sound y" "writer_ok w" "try_insert ins key w rows y = (r, y')"
  obtains s s' where "ok s" "accepted s = accepted (pm_state y)" "ins key w rows s = (r, s')" "pm_state y' = s'" "sound y'"
proof -
  define s where "s = (case pm_others y of [] \<Rightarrow> pm_state y | f # _ \<Rightarrow> f (pm_state y))"
  have s: "ok s" "accepted s = accepted (pm_state y)"
    using assms(1) by (auto simp: sound_def s_def split: list.split)
  obtain s' where run: "ins key w rows s = (r, s')" and y': "y' = y\<lparr>pm_state := s', pm_others := tl (pm_others y)\<rparr>"
    using assms(3) by (auto simp: try_insert_def s_def Let_def split: prod.splits)
  have "sound y'"
    using assms(1) keeps [OF s(1) assms(2) run] y' by (cases "pm_others y") (auto simp: sound_def)
  then show ?thesis
    using that [OF s run] y' by simp
qed

lemma sound_sleep: "sleep pause y = (b, y') \<Longrightarrow> sound y' = sound y \<and> pm_state y' = pm_state y"
  by (auto simp: sleep_def sound_def split: if_splits)

lemma sound_notify [simp]: "sound (notify_pump opts w chunk kind at y) = sound y"
  by (simp add: sound_def)

lemma stopped_no_batch: "as_BatchError errIngestStopped = None"
  by (simp add: as_BatchError_def errors_As_def errIngestStopped_def unwrap_def)

text \<open>What the loop leaves: a prefix of the rows accepted, all of them when it returns without an error; its own mark
  only when the context ended; and no row refused when all could be bound.\<close>

definition wrote :: "'r DynamicWriter \<Rightarrow> string \<Rightarrow> Record list \<Rightarrow> 's pump \<Rightarrow> error option \<Rightarrow> 's pump \<Rightarrow> bool" where
  "wrote w key rows y r y' \<longleftrightarrow> sound y'
     \<and> (\<exists>j\<le>length rows. accepted (pm_state y') = (accepted (pm_state y))(key := accepted (pm_state y) key @ take j rows)
          \<and> (r = None \<longrightarrow> j = length rows))
     \<and> (case r of None \<Rightarrow> pm_ended y' = pm_ended y
          | Some e \<Rightarrow> (errors_Is e errIngestStopped \<longrightarrow> pm_ended y' \<and> e = errIngestStopped)
              \<and> ((\<forall>row\<in>set rows. bindable w row) \<longrightarrow> as_BatchError e = None))"

lemma wrote_later:
  assumes "wrote w key (drop n rows) y1 r y'" "n \<le> length rows" "pm_ended y1 = pm_ended y"
    and "accepted (pm_state y1) = (accepted (pm_state y))(key := accepted (pm_state y) key @ take n rows)"
  shows "wrote w key rows y r y'"
proof -
  obtain j where "j \<le> length rows - n" "r = None \<longrightarrow> j = length rows - n"
    "accepted (pm_state y') = (accepted (pm_state y1))(key := accepted (pm_state y1) key @ take j (drop n rows))"
    using assms(1) by (auto simp: wrote_def)
  then show ?thesis
    using assms by (auto simp: wrote_def take_add dest: in_set_dropD split: option.splits intro!: exI [of _ "n + j"])
qed

lemma wrote_again:
  assumes "wrote w key rows y1 r y'" "accepted (pm_state y1) = accepted (pm_state y)" "pm_ended y1 = pm_ended y"
  shows "wrote w key rows y r y'"
  using wrote_later [of w key 0 rows y1 r y' y] assms by simp

lemma write_loop_wrote:
  assumes "door = ins" "sound y" "writer_ok w" "write_loop door opts key w chunk held pause tk rows numbers y = (r, y')"
  shows "wrote w key rows y r y'"
  using assms
proof (induction door opts key w chunk held pause tk rows numbers y arbitrary: r y' rule: write_loop.induct)
  case (1 door opts key w chunk held pause tk rows numbers y)
  show ?case
  proof (cases "rows = []")
    case True
    then show ?thesis
      using "1.prems" by (auto simp: write_loop.simps wrote_def)
  next
    case False
    define n where "n = min tk (length rows)"
    obtain p y1 where at: "try_insert ins key w (take n rows) y = (p, y1)" by (metis prod.collapse)
    then have at': "try_insert door key w (take n rows) y = (p, y1)"
      using "1.prems"(1) by simp
    obtain s s' where s: "ok s" "accepted s = accepted (pm_state y)" "ins key w (take n rows) s = (p, s')" "pm_state y1 = s'" "sound y1"
      using try_insert_result [OF "1.prems"(2,3) at] by blast
    have keep: "pm_ended y1 = pm_ended y"
      using try_insert_keeps [OF at] by simp
    note IH = "1.IH" [OF False n_def at' [symmetric]]
    note unfolded = "1.prems"(4) [unfolded write_loop.simps [of door opts key w chunk held pause tk rows numbers y], folded n_def]
    show ?thesis
    proof (cases p)
      case None
      define y2 where "y2 = (if held then notify_pump opts w chunk IngestNoticeResumed (hd numbers) y1 else y1)"
      have "write_loop door opts key w chunk False (if held then io_BackoffMin opts else pause)
             (length rows - n) (drop n rows) (drop n numbers) y2 = (r, y')"
        using unfolded False at' None by (simp add: y2_def Let_def)
      from IH(1) [OF None "1.prems"(1) _ "1.prems"(3) this [unfolded y2_def]] have "wrote w key (drop n rows) y2 r y'"
        using s(5) by (simp add: y2_def)
      moreover have "accepted (pm_state y2) = (accepted (pm_state y))(key := accepted (pm_state y) key @ take n rows)"
        using success [OF s(1) "1.prems"(3) s(3) [unfolded None]] s(2,4) by (simp add: y2_def)
      ultimately show ?thesis
        by (intro wrote_later [of w key n rows y2 r y' y]) (auto simp: n_def y2_def keep)
    next
      case (Some e)
      have run: "ins key w (take n rows) s = (Some e, s')"
        using s(3) Some by simp
      show ?thesis
      proof (cases "errors_Is e ErrStagingFull")
        case True
        then have same: "accepted (pm_state y1) = accepted (pm_state y)"
          using full [OF s(1) "1.prems"(3) run] s(2,4) by simp
        show ?thesis
        proof (cases "n > 1")
          case big: True
          have "write_loop door opts key w chunk held pause (n div 2) rows numbers y1 = (r, y')"
            using unfolded False at' Some True big by (simp add: Let_def)
          from IH(2) [OF Some True big "1.prems"(1) s(5) "1.prems"(3) this] show ?thesis
            using same keep by (rule wrote_again)
        next
          case one: False
          define y2 where "y2 = (if held then y1 else notify_pump opts w chunk IngestNoticeHeld (hd numbers) y1)"
          obtain woken y3 where sl: "sleep pause y2 = (woken, y3)" by (metis prod.collapse)
          have y2: "sound y2" "pm_state y2 = pm_state y1" "pm_ended y2 = pm_ended y1"
            using s(5) by (simp_all add: y2_def)
          then have y3: "sound y3" "pm_state y3 = pm_state y1"
            using sound_sleep [OF sl] by simp_all
          show ?thesis
          proof (cases woken)
            case True
            then have "write_loop door opts key w chunk True (next_delay opts pause) n rows numbers y3 = (r, y')"
              using unfolded False at' Some \<open>errors_Is e ErrStagingFull\<close> one sl
              by (simp add: Let_def y2_def)
            from IH(3) [OF Some \<open>errors_Is e ErrStagingFull\<close> one sl [unfolded y2_def, symmetric] eq_True [THEN iffD2, OF True] "1.prems"(1) y3(1) "1.prems"(3) this]
            have "wrote w key rows y3 r y'" .
            moreover have "pm_ended y3 = pm_ended y"
              using sl True keep y2(3) by (auto simp: sleep_def split: if_splits)
            ultimately show ?thesis
              using same y3(2) wrote_again [of w key rows y3 r y' y] by simp
          next
            case False
            then have "r = Some errIngestStopped \<and> y' = y3"
              using unfolded \<open>rows \<noteq> []\<close> at' Some \<open>errors_Is e ErrStagingFull\<close> one sl
              by (simp add: Let_def y2_def)
            moreover have "pm_ended y3"
              using sl False by (auto simp: sleep_def split: if_splits)
            ultimately show ?thesis
              using y3 same by (auto simp: wrote_def stopped_no_batch intro!: exI [of _ 0])
          qed
        qed
      next
        case other: False
        obtain e' y2 where o: "other_failure e y1 = (e', y2)" by (metis prod.collapse)
        have "r = Some e' \<and> y' = y2"
          using unfolded False at' Some other o by (simp add: Let_def)
        moreover have "pm_state y2 = pm_state y1" "sound y2" "errors_Is e' errIngestStopped \<longrightarrow> pm_ended y2 \<and> e' = errIngestStopped"
          using o s(5) not_stopped [OF s(1) "1.prems"(3) run]
          by (auto simp: other_failure_def Let_def sound_def split: list.splits option.splits if_splits)
        moreover have "\<exists>j\<le>length rows. accepted s' = (accepted s)(key := accepted s key @ take j rows)"
          using whole [OF s(1) "1.prems"(3) run]
        proof
          assume "accepted s' = accepted s"
          then show ?thesis by (intro exI [of _ 0]) simp
        next
          assume "accepted s' = (accepted s)(key := accepted s key @ take n rows)"
          then show ?thesis by (intro exI [of _ n]) (simp add: n_def)
        qed
        moreover have "(\<forall>row\<in>set rows. bindable w row) \<longrightarrow> as_BatchError e' = None"
        proof (cases "e' = e")
          case True
          have "\<not> (\<forall>row\<in>set rows. bindable w row)" if "as_BatchError e = Some (i, c)" for i c
          proof -
            have "nat i < length (take n rows)" "\<not> bindable w (take n rows ! nat i)"
              using row_refused [OF s(1) "1.prems"(3) run that] by auto
            then show ?thesis
              by (metis in_set_takeD nth_mem)
          qed
          then show ?thesis
            using True by (cases "as_BatchError e") auto
        next
          case False
          then show ?thesis
            using o by (auto simp: other_failure_def Let_def stopped_no_batch split: list.splits option.splits if_splits)
        qed
        ultimately show ?thesis
          using s(2,4) by (simp add: wrote_def)
      qed
    qed
  qed
qed

lemma writeGroup_wrote:
  assumes "sound y" "writer_ok (gr_writer g)" "writeGroup ins opts g rows numbers chunk y = (r, y')"
  shows "wrote (gr_writer g) (gr_key g) rows y r y'"
  using write_loop_wrote [OF refl assms(1,2)] assms(3) by (simp add: writeGroup_def)

text \<open>A row can only be refused in the first attempt, which holds all of them.\<close>

lemma writeGroup_refused:
  assumes "sound y" "writer_ok (gr_writer g)" "writeGroup ins opts g rows numbers chunk y = (Some e, y')" "rows \<noteq> []"
    "as_BatchError e = Some (i, c)"
  shows "accepted (pm_state y') = accepted (pm_state y) \<and> sound y' \<and> 0 \<le> i \<and> i < int (length rows)
    \<and> (\<forall>m<nat i. bindable (gr_writer g) (rows ! m))"
proof -
  let ?w = "gr_writer g" and ?key = "gr_key g"
  define n where "n = min (length rows) (length rows)"
  have n: "n = length rows" "take n rows = rows"
    by (simp_all add: n_def)
  note run = assms(3) [unfolded writeGroup_def write_loop.simps [of "ins" opts ?key ?w chunk False _ "length rows" rows], folded n_def, unfolded n]
  obtain p y1 where at: "try_insert ins ?key ?w rows y = (p, y1)" by (metis prod.collapse)
  obtain s s' where s: "ok s" "accepted s = accepted (pm_state y)" "ins ?key ?w rows s = (p, s')" "pm_state y1 = s'" "sound y1"
    using try_insert_result [OF assms(1,2) at] by blast
  obtain e1 where e1: "p = Some e1"
    using run at assms(4) by (cases p) (auto simp: Let_def write_loop.simps [of _ _ _ _ _ _ _ _ "[]"])
  have other: "\<not> errors_Is e1 ErrStagingFull"
  proof
    assume is_full: "errors_Is e1 ErrStagingFull"
    have "wrote ?w ?key rows y (Some e) y'"
      by (rule writeGroup_wrote [OF assms(1-3)])
    then show False
      using full [OF s(1) assms(2) s(3) [unfolded e1] is_full] assms(5) by (simp add: wrote_def)
  qed
  obtain e' y2 where o: "other_failure e1 y1 = (e', y2)" by (metis prod.collapse)
  then have res: "e = e'" "y' = y2"
    using run at e1 other assms(4) by (simp_all add: Let_def)
  have y2: "pm_state y2 = pm_state y1" "sound y2" "e' = e1 \<or> e' = errIngestStopped"
    using o s(5) by (auto simp: other_failure_def Let_def sound_def split: list.splits option.splits if_splits)
  then have "as_BatchError e1 = Some (i, c)"
    using assms(5) res stopped_no_batch by auto
  from row_refused [OF s(1) assms(2) s(3) [unfolded e1] this] show ?thesis
    using s(2,4) res y2 by auto
qed

end

end
