(* ===== verification/IngestThms.thy ===== *)
theory IngestThms
  imports IngestProps
begin

text \<open>The loops over groups, chunks and the stream, over any door; the door of the model's writers; and the promise
  of \<open>IngestStream\<close>.\<close>

section \<open>Cutting a group\<close>

lemma upTo_cut:
  assumes "sorted_wrt (<) (gr_numbers g)" "length (gr_rows g) = length (gr_numbers g)"
  obtains i where "i \<le> length (gr_rows g)" "upTo limit g = (take i (gr_rows g), take i (gr_numbers g))"
    "limit < 0 \<Longrightarrow> i = length (gr_rows g)"
    "0 \<le> limit \<Longrightarrow> (\<forall>n\<in>set (take i (gr_numbers g)). int n < limit) \<and> (\<forall>n\<in>set (drop i (gr_numbers g)). limit \<le> int n)"
proof (cases "limit < 0")
  case True
  then show ?thesis
    using that [of "length (gr_rows g)"] assms(2) by (simp add: upTo_def)
next
  case False
  let ?ns = "gr_numbers g"
  define i where "i = length (takeWhile (\<lambda>n. int n < limit) ?ns)"
  have split: "take i ?ns = takeWhile (\<lambda>n. int n < limit) ?ns" "drop i ?ns = dropWhile (\<lambda>n. int n < limit) ?ns"
    unfolding i_def by (rule takeWhile_eq_take [symmetric]) (rule dropWhile_eq_drop [symmetric])
  have "\<forall>n\<in>set (drop i ?ns). limit \<le> int n"
  proof (cases "drop i ?ns")
    case (Cons m ms)
    then have "\<not> int m < limit"
      using split(2) hd_dropWhile [of "\<lambda>n. int n < limit" ?ns] by (metis list.distinct(1) list.sel(1))
    moreover have "\<forall>n\<in>set ms. m < n"
      using assms(1) Cons append_take_drop_id [of i ?ns] by (metis sorted_wrt_append sorted_wrt.simps(2))
    ultimately show ?thesis
      using Cons by auto
  qed simp
  moreover have "\<forall>n\<in>set (take i ?ns). int n < limit"
    using split(1) by (metis set_takeWhileD)
  moreover have "i \<le> length (gr_rows g)"
    using assms(2) by (simp add: i_def length_takeWhile_le)
  moreover have "upTo limit g = (take i (gr_rows g), take i (gr_numbers g))"
    using False by (simp add: upTo_def Let_def i_def)
  ultimately show ?thesis
    using False by (intro that [of i]) auto
qed

text \<open>The record a refusal names: one this layer refused, or one its writer did.\<close>

definition refused_at :: "error option \<Rightarrow> nat \<Rightarrow> bool" where
  "refused_at r k \<longleftrightarrow> (\<exists>b. r = Some (EIngest b) \<and> ie_Record b = int k
     \<and> ie_Kind b \<in> {IngestKindGrammar, IngestKindEnvelope, IngestKindUnknownTable, IngestKindRefused})"

lemma refused_at_simps [simp]: "\<not> refused_at None k" "\<not> refused_at (Some errIngestStopped) k"
    "\<not> refused_at (Some (chunkError IngestKindWrite n chunk t e)) k"
    "refused_at (Some (chunkError IngestKindRefused n chunk t e)) k \<longleftrightarrow> k = n"
  by (auto simp: refused_at_def errIngestStopped_def chunkError_def NewIngestError_def)

lemma chunkError_stopped: "errors_Is (chunkError kind n chunk t (Some e)) errIngestStopped \<Longrightarrow> errors_Is e errIngestStopped"
  by (auto simp: errors_Is_def chunkError_def NewIngestError_def errIngestStopped_def chain.simps [of "EIngest _"] unwrap_def opt_list_def)

lemma chain_trans: "x \<in> set (chain e') \<Longrightarrow> e' \<in> set (chain e) \<Longrightarrow> x \<in> set (chain e)"
proof (induction e rule: chain.induct)
  case (1 e)
  show ?case
  proof (cases "e' = e")
    case False
    then obtain e1 where "e1 \<in> set (unwrap e)" "e' \<in> set (chain e1)"
      using "1.prems"(2) by (auto simp: chain.simps [of e])
    with "1.IH" [OF this(1) "1.prems"(1)] show ?thesis
      using chain_wrapped by blast
  qed (use 1 in simp)
qed

lemma as_BatchError_wraps: "as_BatchError e = Some (i, c) \<Longrightarrow> errors_Is c t \<Longrightarrow> errors_Is e t"
proof -
  assume "as_BatchError e = Some (i, c)" and cause: "errors_Is c t"
  then obtain b where "find (\<lambda>x. case x of EBatch _ \<Rightarrow> True | _ \<Rightarrow> False) (chain e) = Some (EBatch b)" "c = be_Err b"
    by (auto simp: as_BatchError_def errors_As_def split: option.splits error.splits)
  moreover from this(1) have "EBatch b \<in> set (chain e)"
    by (metis find_Some_iff nth_mem)
  moreover have "errors_Is (EBatch b) t"
    by (rule errors_Is_wrapped [OF _ cause]) (simp add: unwrap_def \<open>c = be_Err b\<close>)
  ultimately show ?thesis
    using chain_trans by (auto simp: errors_Is_def)
qed

text \<open>What a write leaves of the items of one table: the first \<open>j\<close> of them were accepted.\<close>

definition kept_promise :: "error option \<Rightarrow> Record list \<Rightarrow> Record list \<Rightarrow> (nat \<times> Record) list \<Rightarrow> bool" where
  "kept_promise r before after its \<longleftrightarrow> (\<exists>j\<le>length its. after = before @ map snd (take j its)
     \<and> (r = None \<longrightarrow> j = length its)
     \<and> (\<forall>k. refused_at r k \<longrightarrow> (\<forall>n\<in>fst ` set (drop j its). k \<le> n)
          \<and> (k \<in> fst ` set its \<longrightarrow> (\<forall>n\<in>fst ` set (take j its). n < k))))"

context batch_door begin

definition groups_ok :: "'r ingestGroup list \<Rightarrow> bool" where
  "groups_ok gs \<longleftrightarrow> distinct (map gr_key gs)
     \<and> (\<forall>g\<in>set gs. writer_ok (gr_writer g) \<and> length (gr_rows g) = length (gr_numbers g) \<and> sorted_wrt (<) (gr_numbers g))
     \<and> (\<forall>t1 t2 n. n \<in> fst ` set (group_items gs t1) \<longrightarrow> n \<in> fst ` set (group_items gs t2) \<longrightarrow> t1 = t2)"

definition limit_ok :: "int \<Rightarrow> error option \<Rightarrow> 'r ingestGroup list \<Rightarrow> bool" where
  "limit_ok limit failure gs \<longleftrightarrow> (if limit < 0 then failure = None
     else refused_at failure (nat limit) \<and> (\<forall>t. nat limit \<notin> fst ` set (group_items gs t)))
     \<and> (\<forall>e. failure = Some e \<longrightarrow> \<not> errors_Is e errIngestStopped)"

text \<open>The record a refusal names afterwards is the one before, or a smaller one of these groups.\<close>

definition wrote_groups :: "int \<Rightarrow> error option \<Rightarrow> 'r ingestGroup list \<Rightarrow> 's pump \<Rightarrow> error option \<Rightarrow> 's pump \<Rightarrow> bool" where
  "wrote_groups limit failure gs y r y' \<longleftrightarrow> sound y'
     \<and> (\<forall>t. kept_promise r (accepted (pm_state y) t) (accepted (pm_state y') t) (group_items gs t))
     \<and> (r = None \<longrightarrow> failure = None \<and> pm_ended y' = pm_ended y)
     \<and> (\<forall>k. refused_at r k \<longrightarrow> refused_at failure k
          \<or> (limit < 0 \<or> int k < limit) \<and> (\<exists>t. k \<in> fst ` set (group_items gs t)))
     \<and> (\<forall>e. r = Some e \<longrightarrow> errors_Is e errIngestStopped \<longrightarrow> pm_ended y')"

lemma groups_ok_Cons:
  assumes "groups_ok (g # gs)"
  shows "groups_ok gs" "group_items gs (gr_key g) = []"
    "n \<in> set (gr_numbers g) \<Longrightarrow> n \<notin> fst ` set (group_items gs t)"
    "writer_ok (gr_writer g)" "length (gr_rows g) = length (gr_numbers g)" "sorted_wrt (<) (gr_numbers g)"
proof -
  show none: "group_items gs (gr_key g) = []"
    using assms by (intro group_items_other) (auto simp: groups_ok_def)
  show len: "length (gr_rows g) = length (gr_numbers g)" and "writer_ok (gr_writer g)" "sorted_wrt (<) (gr_numbers g)"
    using assms by (auto simp: groups_ok_def)
  have one: "t1 = t2" if "n \<in> fst ` set (group_items (g # gs) t1)" "n \<in> fst ` set (group_items (g # gs) t2)" for t1 t2 n
    using assms that unfolding groups_ok_def by blast
  have sub: "n \<in> fst ` set (group_items gs t) \<Longrightarrow> n \<in> fst ` set (group_items (g # gs) t)" for n t
    by auto
  show "groups_ok gs"
    using assms one [OF sub sub] unfolding groups_ok_def by (intro conjI) auto
  show "n \<notin> fst ` set (group_items gs t)" if "n \<in> set (gr_numbers g)"
  proof
    assume there: "n \<in> fst ` set (group_items gs t)"
    have "n \<in> fst ` set (zip (gr_numbers g) (gr_rows g))"
      using that len by (metis map_fst_zip set_map)
    then have "n \<in> fst ` set (group_items (g # gs) (gr_key g))"
      by (simp add: image_Un)
    moreover have "n \<in> fst ` set (group_items (g # gs) t)"
      using there by auto
    ultimately have "t = gr_key g"
      using one by blast
    then show False
      using there none by simp
  qed
qed

lemma wrote_groups_Cons:
  assumes g: "groups_ok (g # gs)" and i: "i \<le> length (gr_rows g)"
    and acc: "accepted (pm_state y1) = (accepted (pm_state y))(gr_key g := accepted (pm_state y) (gr_key g) @ take i (gr_rows g))"
    and ended: "failure' = None \<Longrightarrow> pm_ended y1 = pm_ended y"
    and tail: "wrote_groups limit' failure' gs y1 r y'" and lim: "limit_ok limit' failure' gs"
    and all: "limit' < 0 \<Longrightarrow> i = length (gr_rows g)"
    and cut: "0 \<le> limit' \<Longrightarrow> (\<forall>n\<in>set (take i (gr_numbers g)). int n < limit') \<and> (\<forall>n\<in>set (drop i (gr_numbers g)). limit' \<le> int n)"
    and prov: "limit' = limit \<and> failure' = failure \<or> (limit < 0 \<or> limit' < limit) \<and> 0 \<le> limit' \<and> nat limit' \<in> set (gr_numbers g)"
  shows "wrote_groups limit failure (g # gs) y r y'"
proof -
  note grp = groups_ok_Cons [OF g]
  let ?its = "zip (gr_numbers g) (gr_rows g)"
  have fst_its: "fst ` set (take j ?its) = set (take j (gr_numbers g))" "fst ` set (drop j ?its) = set (drop j (gr_numbers g))" for j
    using grp(5) by (simp_all add: take_zip drop_zip map_fst_zip flip: set_map)
  have fst_all: "fst ` set ?its = set (gr_numbers g)"
    using grp(5) by (simp add: map_fst_zip flip: set_map)
  have snd_its: "map snd (take j ?its) = take j (gr_rows g)" for j
    using grp(5) by (simp add: take_zip map_snd_zip)
  have from_tail: "refused_at failure' k \<or> (limit' < 0 \<or> int k < limit') \<and> (\<exists>t. k \<in> fst ` set (group_items gs t))"
    if "refused_at r k" for k
    using tail that by (auto simp: wrote_groups_def)
  have names: "k = nat limit' \<and> 0 \<le> limit'" if "refused_at failure' k" for k
    using lim that by (auto simp: limit_ok_def refused_at_def split: if_splits)
  have head: "kept_promise r (accepted (pm_state y) (gr_key g)) (accepted (pm_state y') (gr_key g)) ?its"
  proof -
    have after: "accepted (pm_state y') (gr_key g) = accepted (pm_state y) (gr_key g) @ take i (gr_rows g)"
    proof -
      have "kept_promise r (accepted (pm_state y1) (gr_key g)) (accepted (pm_state y') (gr_key g)) []"
        using tail grp(2) by (metis wrote_groups_def)
      then show ?thesis
        using acc by (simp add: kept_promise_def)
    qed
    have "i = length ?its" if "r = None"
      using tail lim all grp(5) that by (auto simp: wrote_groups_def limit_ok_def split: if_splits)
    moreover have "(\<forall>n\<in>set (drop i (gr_numbers g)). k \<le> n) \<and> (k \<in> set (gr_numbers g) \<longrightarrow> (\<forall>n\<in>set (take i (gr_numbers g)). n < k))"
      if k: "refused_at r k" for k
      using from_tail [OF k]
    proof
      assume "refused_at failure' k"
      with names [OF this] cut show ?thesis
        by force
    next
      assume there: "(limit' < 0 \<or> int k < limit') \<and> (\<exists>t. k \<in> fst ` set (group_items gs t))"
      then have "k \<notin> set (gr_numbers g)"
        using grp(3) by blast
      moreover have "\<forall>n\<in>set (drop i (gr_numbers g)). k \<le> n"
        using there all cut grp(5) by (cases "limit' < 0") force+
      ultimately show ?thesis
        by simp
    qed
    ultimately show ?thesis
      using i grp(5) after unfolding kept_promise_def fst_all
      by (intro exI [of _ i]) (simp add: fst_its snd_its)
  qed
  have each: "kept_promise r (accepted (pm_state y) t) (accepted (pm_state y') t) (group_items (g # gs) t)" for t
  proof (cases "t = gr_key g")
    case True
    then show ?thesis
      using head grp(2) by simp
  next
    case False
    have "kept_promise r (accepted (pm_state y1) t) (accepted (pm_state y') t) (group_items gs t)"
      using tail unfolding wrote_groups_def by blast
    then show ?thesis
      using False acc by simp
  qed
  have "refused_at failure k \<or> (limit < 0 \<or> int k < limit) \<and> (\<exists>t. k \<in> fst ` set (group_items (g # gs) t))"
    if k: "refused_at r k" for k
    using from_tail [OF k]
  proof
    assume f: "refused_at failure' k"
    then have "k = nat limit'" "0 \<le> limit'"
      using names by auto
    then show ?thesis
      using prov f fst_all by (auto intro!: exI [of _ "gr_key g"])
  next
    assume there: "(limit' < 0 \<or> int k < limit') \<and> (\<exists>t. k \<in> fst ` set (group_items gs t))"
    then obtain t where "k \<in> fst ` set (group_items (g # gs) t)"
      by auto
    moreover have "limit < 0 \<or> int k < limit"
      using prov there by auto
    ultimately show ?thesis
      by blast
  qed
  moreover have "failure = None \<and> failure' = None" if "r = None"
    using tail lim prov that by (auto simp: wrote_groups_def limit_ok_def split: if_splits)
  ultimately show ?thesis
    using tail each ended by (simp add: wrote_groups_def)
qed

lemma wrote_groups_stop:
  assumes g: "groups_ok (g # gs)" and "wrote (gr_writer g) (gr_key g) (take i (gr_rows g)) y0 (Some e0) y'" "i \<le> length (gr_rows g)"
    and "accepted (pm_state y0) = accepted (pm_state y)" "\<And>k. \<not> refused_at (Some e) k"
    and "errors_Is e errIngestStopped \<Longrightarrow> errors_Is e0 errIngestStopped"
  shows "wrote_groups limit failure (g # gs) y (Some e) y'"
proof -
  note grp = groups_ok_Cons [OF g]
  obtain j where j: "j \<le> i" "accepted (pm_state y') = (accepted (pm_state y))(gr_key g := accepted (pm_state y) (gr_key g) @ take j (gr_rows g))"
    using assms(2-4) by (auto simp: wrote_def min_def split: if_splits)
  have "kept_promise (Some e) (accepted (pm_state y) t) (accepted (pm_state y') t) (group_items (g # gs) t)" for t
  proof (cases "t = gr_key g")
    case True
    then show ?thesis
      using j grp(2,5) assms(3,5) unfolding kept_promise_def
      by (intro exI [of _ j]) (simp add: take_zip map_snd_zip)
  next
    case False
    then show ?thesis
      using j assms(5) unfolding kept_promise_def by (intro exI [of _ 0]) simp
  qed
  then show ?thesis
    using assms(2,5,6) by (auto simp: wrote_groups_def wrote_def)
qed

lemma limit_ok_Cons: "limit_ok limit failure (g # gs) \<Longrightarrow> limit_ok limit failure gs"
  by (auto simp: limit_ok_def image_Un split: if_splits)

text \<open>The second write of a group, cut at the refused record.\<close>

lemma second_write:
  assumes g: "groups_ok (g # gs)" and j: "j \<le> length (gr_rows g)" and y1: "sound y1" "accepted (pm_state y1) = accepted (pm_state y)"
    and run: "(if take j (gr_rows g) = [] then write_groups ins opts chunk lim f gs y1
      else case writeGroup ins opts g (take j (gr_rows g)) (take j (gr_numbers g)) chunk y1 of
        (None, y2) \<Rightarrow> write_groups ins opts chunk lim f gs y2
      | (Some e', y2) \<Rightarrow> if errors_Is e' errIngestStopped then (Some e', y2)
          else (Some (chunkError IngestKindWrite (take j (gr_numbers g) ! 0) chunk (dw_Table (gr_writer g)) (Some e')), y2)) = (r, y')"
    and cont: "\<And>y2. write_groups ins opts chunk lim f gs y2 = (r, y') \<Longrightarrow> sound y2 \<Longrightarrow>
      accepted (pm_state y2) = (accepted (pm_state y))(gr_key g := accepted (pm_state y) (gr_key g) @ take j (gr_rows g)) \<Longrightarrow>
      wrote_groups limit failure (g # gs) y r y'"
  shows "wrote_groups limit failure (g # gs) y r y'"
proof (cases "take j (gr_rows g) = []")
  case True
  then show ?thesis
    using cont [of y1, unfolded True] run y1 by simp
next
  case more: False
  obtain p2 y2 where w2: "writeGroup ins opts g (take j (gr_rows g)) (take j (gr_numbers g)) chunk y1 = (p2, y2)"
    by (metis prod.collapse)
  note wr2 = writeGroup_wrote [OF y1(1) groups_ok_Cons(4) [OF g] w2]
  show ?thesis
  proof (cases p2)
    case None
    then show ?thesis
      using cont [of y2] run more w2 wr2 y1 j by (simp add: wrote_def min.absorb2)
  next
    case Some2: (Some e2)
    show ?thesis
    proof (cases "errors_Is e2 errIngestStopped")
      case True
      then have res: "r = Some e2" "y' = y2" "e2 = errIngestStopped"
        using run more w2 Some2 wr2 by (auto simp: wrote_def)
      show ?thesis
        using wr2 Some2 j y1 unfolding res
        by (intro wrote_groups_stop [OF g, where i = j and ?y0.0 = y1 and ?e0.0 = errIngestStopped]) auto
    next
      case False
      then have res: "r = Some (chunkError IngestKindWrite (take j (gr_numbers g) ! 0) chunk (dw_Table (gr_writer g)) (Some e2))" "y' = y2"
        using run more w2 Some2 by auto
      show ?thesis
        using wr2 Some2 j y1 unfolding res
        by (intro wrote_groups_stop [OF g, where i = j and ?y0.0 = y1 and ?e0.0 = e2]) (auto dest: chunkError_stopped)
    qed
  qed
qed

lemma write_groups_result:
  assumes "groups_ok gs" "sound y" "limit_ok limit failure gs" "write_groups ins opts chunk limit failure gs y = (r, y')"
  shows "wrote_groups limit failure gs y r y'"
  using assms
proof (induction gs arbitrary: limit failure y)
  case Nil
  then show ?case
    by (auto simp: wrote_groups_def kept_promise_def limit_ok_def)
next
  case (Cons g gs)
  note g = Cons.prems(1) and sy = Cons.prems(2)
  note grp = groups_ok_Cons [OF g]
  obtain i where i: "i \<le> length (gr_rows g)" "upTo limit g = (take i (gr_rows g), take i (gr_numbers g))"
      "limit < 0 \<Longrightarrow> i = length (gr_rows g)"
      "0 \<le> limit \<Longrightarrow> (\<forall>n\<in>set (take i (gr_numbers g)). int n < limit) \<and> (\<forall>n\<in>set (drop i (gr_numbers g)). limit \<le> int n)"
    using upTo_cut [OF grp(6,5)] by metis
  let ?rows = "take i (gr_rows g)" and ?numbers = "take i (gr_numbers g)"
  note run = Cons.prems(4) [unfolded write_groups.simps(2) [of "ins" opts chunk limit failure g gs y], unfolded i(2) fst_conv snd_conv]
  have goes_on: "wrote_groups limit failure (g # gs) y r y'"
    if "write_groups ins opts chunk limit failure gs y1 = (r, y')" "sound y1" "pm_ended y1 = pm_ended y"
      "accepted (pm_state y1) = (accepted (pm_state y))(gr_key g := accepted (pm_state y) (gr_key g) @ ?rows)" for y1
    using wrote_groups_Cons [OF g i(1) that(4) that(3) Cons.IH [OF grp(1) that(2) limit_ok_Cons [OF Cons.prems(3)] that(1)]
        limit_ok_Cons [OF Cons.prems(3)] i(3,4)] by simp
  show ?case
  proof (cases "?rows = []")
    case True
    then show ?thesis
      using goes_on [of y, unfolded True] run sy by simp
  next
    case False
    obtain p y1 where w1: "writeGroup ins opts g ?rows ?numbers chunk y = (p, y1)" by (metis prod.collapse)
    note wr = writeGroup_wrote [OF sy grp(4) w1]
    show ?thesis
    proof (cases p)
      case None
      then show ?thesis
        using goes_on [of y1] run False w1 wr i(1) by (auto simp: wrote_def Let_def min.absorb2)
    next
      case (Some e)
      show ?thesis
      proof (cases "errors_Is e errIngestStopped")
        case True
        then have res: "r = Some e" "y' = y1" "e = errIngestStopped"
          using run False w1 Some wr by (auto simp: Let_def wrote_def)
        show ?thesis
          using wr Some i(1) unfolding res by (intro wrote_groups_stop [OF g, where i = i and y0 = y and e0 = errIngestStopped]) auto
      next
        case going: False
        show ?thesis
        proof (cases "refusedRecord e ?numbers")
          case None
          then have res: "r = Some (chunkError IngestKindWrite (?numbers ! 0) chunk (dw_Table (gr_writer g)) (Some e))" "y' = y1"
            using run False w1 Some going by (auto simp: Let_def)
          show ?thesis
            using wr Some i(1) unfolding res
            by (intro wrote_groups_stop [OF g, where i = i and ?y0.0 = y and ?e0.0 = e]) (auto dest: chunkError_stopped)
        next
          case refused: (Some a)
          then obtain m c where batch: "as_BatchError e = Some (m, c)" and a: "a = (?numbers ! nat m, c)"
            by (auto simp: refusedRecord_def split: option.splits if_splits)
          note fail = writeGroup_refused [OF sy grp(4) w1 [unfolded Some] False batch]
          define at where "at = ?numbers ! nat m"
          have at: "at \<in> set ?numbers" "at \<in> set (gr_numbers g)"
            using fail grp(5) i(1) by (auto simp: at_def dest: in_set_takeD intro!: nth_mem)
          obtain j where j: "j \<le> length (gr_rows g)" "upTo (int at) g = (take j (gr_rows g), take j (gr_numbers g))"
              "\<forall>n\<in>set (take j (gr_numbers g)). n < at" "\<forall>n\<in>set (drop j (gr_numbers g)). at \<le> n"
            using upTo_cut [OF grp(6,5), of "int at"] by (metis of_nat_0_le_iff of_nat_le_iff of_nat_less_iff)
          let ?failure = "Some (chunkError IngestKindRefused at chunk (dw_Table (gr_writer g)) (Some c))"
          have a': "refusedRecord e ?numbers = Some (at, c)"
            using refused a by (simp add: at_def)
          have run': "(if take j (gr_rows g) = [] then write_groups ins opts chunk (int at) ?failure gs y1
              else case writeGroup ins opts g (take j (gr_rows g)) (take j (gr_numbers g)) chunk y1 of
                (None, y2) \<Rightarrow> write_groups ins opts chunk (int at) ?failure gs y2
              | (Some e', y2) \<Rightarrow> if errors_Is e' errIngestStopped then (Some e', y2)
                  else (Some (chunkError IngestKindWrite (take j (gr_numbers g) ! 0) chunk (dw_Table (gr_writer g)) (Some e')), y2)) = (r, y')"
            using run by (simp only: Let_def if_not_P [OF False] if_not_P [OF going] w1 Some prod.case option.case a' j(2) fst_conv snd_conv)
          have lim: "limit_ok (int at) ?failure gs"
            using grp(3) [OF at(2)] chunkError_stopped as_BatchError_wraps [OF batch] going by (auto simp: limit_ok_def)
          have below: "limit < 0 \<or> int at < limit"
            using i(4) at(1) by (cases "limit < 0") auto
          have cut_here: "wrote_groups limit failure (g # gs) y r y'"
            if "write_groups ins opts chunk (int at) ?failure gs y2 = (r, y')" "sound y2"
              "accepted (pm_state y2) = (accepted (pm_state y))(gr_key g := accepted (pm_state y) (gr_key g) @ take j (gr_rows g))" for y2
            by (rule wrote_groups_Cons [OF g j(1) that(3) _ Cons.IH [OF grp(1) that(2) lim that(1)] lim]) (use j(3,4) below at(2) in auto)
          show ?thesis
            by (rule second_write [OF g j(1) _ _ run' cut_here]) (use fail in auto)
        qed
      qed
    qed
  qed
qed

end

end
