(* ===== verification/IngestPromise.thy ===== *)
theory IngestPromise
  imports IngestThms
begin

text \<open>From groups to chunks to the whole stream, the door of the model's writers, and the promise of
  \<open>IngestStream\<close>.\<close>

section \<open>Refusals of this layer\<close>

lemma ERecord_not_stopped [simp]: "\<not> errors_Is (ERecord x) errIngestStopped" "\<not> errors_Is (ERecord x) ErrStagingFull"
    "as_BatchError (ERecord x) = None"
  by (simp_all add: errors_Is_def errIngestStopped_def as_BatchError_def errors_As_def unwrap_def)

lemma map_result_Inl: "map_result f xs = Inl e \<Longrightarrow> \<exists>x\<in>set xs. f x = Inl e"
  by (induction xs) (auto split: sum.splits)

lemma cborValue_Inl: "cborValue c field v = Inl e \<Longrightarrow> \<exists>x. e = ERecord x"
  by (cases v) (auto simp: cborValue_def refuse_record_def NewRecordError_def)

lemma decodeCBORField_Inl: "decodeCBORField lb c field raw = Inl e \<Longrightarrow> \<exists>x. e = ERecord x"
  by (auto simp: decodeCBORField_def refuse_record_def NewRecordError_def split: if_splits sum.splits dest: cborValue_Inl)

lemma over_fields_Inl:
  assumes "over_fields f kvs = Inl e" "\<And>name x e. f name x = Inl e \<Longrightarrow> \<exists>x. e = ERecord x"
  shows "\<exists>x. e = ERecord x"
  using map_result_Inl [of _ kvs e] assms
  by (fastforce simp: over_fields_def res_bind_def split: sum.splits prod.splits)

lemma decodeCBORItem_Inl: "decodeCBORItem lb c item = Inl e \<Longrightarrow> \<exists>x. e = ERecord x"
  by (auto simp: decodeCBORItem_def decodeCBORItemSlow_def malformed_record_def NewRecordError_def
      split: sum.splits prod.splits if_splits option.splits
      dest!: over_fields_Inl intro: cborValue_Inl decodeCBORField_Inl)

lemma decodeLine_Inl: "decodeLine lb c line = Inl e \<Longrightarrow> \<exists>x. e = ERecord x"
  by (auto simp: decodeLine_def malformed_record_def NewRecordError_def split: sum.splits prod.splits if_splits option.splits)

text \<open>The envelope decoders' errors are their own.\<close>

definition envelopes_ok :: "envelopes \<Rightarrow> bool" where
  "envelopes_ok el \<longleftrightarrow> (\<forall>b e. lb_jsonEnvelope el b = Inl e \<or> lb_cborEnvelope el b = Inl e \<longrightarrow> \<not> errors_Is e errIngestStopped)"

lemma IngestError_stopped: "errors_Is (EIngest b) errIngestStopped \<longleftrightarrow> (\<exists>e. ie_Err b = Some e \<and> errors_Is e errIngestStopped)"
  by (cases "ie_Err b") (auto simp: errors_Is_def errIngestStopped_def chain.simps [of "EIngest _"] unwrap_def opt_list_def)

lemma read_record_not_stopped:
  assumes "envelopes_ok el" "read_record lb el writers rec = Inl bad"
  shows "\<not> errors_Is (EIngest bad) errIngestStopped"
  using assms unfolding IngestError_stopped
  by (auto simp: read_record_def parseEnvelope_def Let_def envelopes_ok_def
      split: prod.splits sum.splits option.splits if_splits dest!: decodeLine_Inl decodeCBORItem_Inl)

section \<open>Numbers of the framing\<close>

lemma fill_records: "fill s = (r, s') \<Longrightarrow> rs_records s' = rs_records s"
  using make_room_Inr(4) [of s]
  by (auto simp: fill_def read_into_def Let_def split: sum.splits prod.splits read_end.splits if_splits)

lemma skipSpace_records: "skipSpace s = (r, s') \<Longrightarrow> rs_records s' = rs_records s"
  by (induction s arbitrary: r s' rule: skipSpace.induct)
    (subst (asm) skipSpace.simps, auto simp: Let_def split: if_splits prod.splits option.splits dest: fill_records)

lemma json_loop_records: "json_loop line s = (out, s') \<Longrightarrow> rs_records s' = rs_records s
    \<and> (\<forall>rec. out = Inr rec \<longrightarrow> nr_number rec = rs_records s)"
  by (induction line s arbitrary: out s' rule: json_loop.induct)
    (subst (asm) json_loop.simps, auto simp: Let_def split: if_splits prod.splits option.splits dest: fill_records)

lemma cborRecord_records: "cborRecord dec s = (out, s') \<Longrightarrow> rs_records s' = rs_records s
    \<and> (\<forall>rec. out = Inr rec \<longrightarrow> nr_number rec = rs_records s)"
  by (induction dec s arbitrary: out s' rule: cborRecord.induct)
    (subst (asm) cborRecord.simps, auto simp: Let_def split: if_splits prod.splits option.splits cbor_first.splits dest: fill_records)

text \<open>A refusal of the grammar names the record after the last one handed out.\<close>

lemma refused_grammar: "refused_at (Some (refuse line c n)) k \<Longrightarrow> k = n"
  by (auto simp: refused_at_def refuse_def NewIngestError_def)

lemma too_large_refused [simp]: "\<not> refused_at (Some (tooLarge line n)) k"
  by (auto simp: refused_at_def tooLarge_def NewIngestError_def)

lemma fill_refused: "fill s = (Some e, s') \<Longrightarrow> \<not> refused_at (Some e) k"
  by (auto simp: fill_def make_room_def read_into_def Let_def split: if_splits prod.splits read_end.splits sum.splits)
    (auto simp: refused_at_def NewIngestError_def)

lemma skipSpace_refused: "skipSpace s = (Some e, s') \<Longrightarrow> \<not> refused_at (Some e) k"
  by (induction s arbitrary: e s' rule: skipSpace.induct)
    (subst (asm) skipSpace.simps, auto simp: Let_def io_EOF_def refused_at_def split: if_splits prod.splits option.splits
      dest: fill_refused [unfolded refused_at_def])

lemma json_loop_refused: "json_loop line s = (Inl e, s') \<Longrightarrow> \<not> refused_at (Some e) k"
  by (induction line s arbitrary: e s' rule: json_loop.induct)
    (subst (asm) json_loop.simps, auto simp: Let_def split: if_splits prod.splits option.splits dest: fill_refused)

lemma cborRecord_refused: "cborRecord dec s = (Inl e, s') \<Longrightarrow> refused_at (Some e) k \<Longrightarrow> k = rs_records s"
  by (induction dec s arbitrary: e s' rule: cborRecord.induct)
    (subst (asm) cborRecord.simps, auto simp: Let_def split: if_splits prod.splits option.splits cbor_first.splits
      dest: fill_refused fill_records refused_grammar)

lemma next_record_numbers:
  assumes "next_record dec s = (out, s')"
  shows "case out of Inl e \<Rightarrow> \<forall>k. refused_at (Some e) k \<longrightarrow> k = rs_records s + 1
    | Inr rec \<Rightarrow> nr_number rec = rs_records s + 1 \<and> rs_records s' = rs_records s + 1"
proof (cases "skipSpace s")
  case (Pair e s1)
  note rec = skipSpace_records [OF Pair]
  show ?thesis
  proof (cases e)
    case None
    define s2 where "s2 = s1\<lparr>rs_records := rs_records s1 + 1\<rparr>"
    then have n2: "rs_records s2 = rs_records s + 1"
      using rec by simp
    consider "json_loop (nextLine s2) s2 = (out, s')" | "cborRecord dec s2 = (out, s')"
      | line c where "out = Inl (refuse line c (rs_records s2))"
      using assms Pair None by (auto simp: next_record_def Let_def jsonRecord_def s2_def split: if_splits)
    then show ?thesis
    proof cases
      case 1
      then show ?thesis
        using json_loop_records [OF 1] json_loop_refused n2 by (cases out) auto
    next
      case 2
      then show ?thesis
        using cborRecord_records [OF 2] cborRecord_refused n2 by (cases out) auto
    next
      case 3
      then show ?thesis
        using n2 refused_grammar by auto
    qed
  next
    case (Some x)
    then show ?thesis
      using assms Pair skipSpace_refused by (auto simp: next_record_def)
  qed
qed

lemma readRecords_numbers:
  assumes "readRecords dec n s = (recs, failed)"
  shows "map nr_number recs = [Suc (rs_records s)..<Suc (rs_records s + length recs)]"
    "refused_at failed k \<Longrightarrow> k = Suc (rs_records s + length recs)"
proof -
  have "map nr_number recs = [Suc (rs_records s)..<Suc (rs_records s + length recs)]
      \<and> (\<forall>k. refused_at failed k \<longrightarrow> k = Suc (rs_records s + length recs))"
    using assms
  proof (induction n arbitrary: s recs)
    case (Suc n)
    obtain out s' where nr: "next_record dec s = (out, s')" by (metis prod.collapse)
    show ?case
    proof (cases out)
      case (Inl e)
      then show ?thesis
        using Suc.prems nr next_record_numbers [OF nr] by auto
    next
      case (Inr rec)
      obtain rs where rest: "readRecords dec n s' = (rs, failed)" "recs = rec # rs"
        using Suc.prems nr Inr by (auto split: prod.splits)
      then show ?thesis
        using Suc.IH [OF rest(1)] next_record_numbers [OF nr] Inr by (auto simp: upt_conv_Cons simp del: upt_Suc)
    qed
  qed simp
  then show "map nr_number recs = [Suc (rs_records s)..<Suc (rs_records s + length recs)]"
    "refused_at failed k \<Longrightarrow> k = Suc (rs_records s + length recs)"
    by auto
qed

section \<open>Chunks and the stream\<close>

lemma drain_split: "drain opts n chunk bytes recs = (chunk', out, recs') \<Longrightarrow>
    chunk' @ recs' = chunk @ recs \<and> (out = chunkEnded \<longrightarrow> recs' = []) \<and> out \<noteq> chunkStopped"
  by (induction opts n chunk bytes recs rule: drain.induct)
    (subst (asm) drain.simps, auto split: if_splits nat.splits list.splits)

lemma nextChunk_split: "nextChunk opts a recs = (chunk, out, recs') \<Longrightarrow>
    chunk @ recs' = recs \<and> (out = chunkEnded \<longrightarrow> recs' = [])"
  using drain_split [of opts _ "[hd recs]" _ "tl recs" chunk out recs']
  by (auto simp: nextChunk_def split: option.splits list.splits)

lemma items_of_append:
  "items_of lb el writers t (chunk @ recs) = items_of lb el writers t chunk
     @ (if \<exists>rec\<in>set chunk. isl (read_record lb el writers rec) then [] else items_of lb el writers t recs)"
  by (induction chunk) (auto split: sum.splits)

lemma items_of_one_table:
  assumes "numbers_up recs" "n \<in> fst ` set (items_of lb el writers t1 recs)" "n \<in> fst ` set (items_of lb el writers t2 recs)"
  shows "t1 = t2"
  using assms
proof (induction recs)
  case (Cons rec recs)
  have later: "m \<in> fst ` set (items_of lb el writers t recs) \<Longrightarrow> nr_number rec < m" for m t
    using Cons.prems(1) items_of_numbers [of m _ lb el writers t recs] by (fastforce simp: numbers_up_def)
  show ?case
  proof (cases "read_record lb el writers rec")
    case (Inr r)
    then obtain table w row where "read_record lb el writers rec = Inr (table, w, row)"
      by (cases r) simp
    then have mem: "m \<in> fst ` set (items_of lb el writers t (rec # recs)) \<longleftrightarrow>
        table = t \<and> m = nr_number rec \<or> m \<in> fst ` set (items_of lb el writers t recs)" for m t
      by auto
    have up: "numbers_up recs"
      using Cons.prems(1) by (simp add: numbers_up_def)
    show ?thesis
    proof (cases "n = nr_number rec")
      case True
      then show ?thesis
        using Cons.prems(2,3) later [of n t1] later [of n t2] by (auto simp only: mem)
    next
      case False
      then show ?thesis
        using Cons.IH [OF up] Cons.prems(2,3) by (simp only: mem simp_thms)
    qed
  qed (use Cons.prems in simp)
qed simp

text \<open>A stream that ended because its context did is silent about it; here it counts as stopped.\<close>

definition ending_of :: "error option \<Rightarrow> 's pump \<Rightarrow> error option" where
  "ending_of r y = (if r = None \<and> pm_ended y then Some errIngestStopped else r)"

lemma refused_ending [simp]: "refused_at (ending_of r y) k \<longleftrightarrow> refused_at r k"
  by (simp add: ending_of_def)

definition readable :: "library \<Rightarrow> envelopes \<Rightarrow> (string \<Rightarrow> 'r DynamicWriter option) \<Rightarrow> numberedRecord list \<Rightarrow> bool" where
  "readable lb el writers recs \<longleftrightarrow> (\<forall>rec\<in>set recs. \<not> isl (read_record lb el writers rec))"

context batch_door begin

definition writers_ok :: "(string \<Rightarrow> 'r DynamicWriter option) \<Rightarrow> bool" where
  "writers_ok writers \<longleftrightarrow> (\<forall>t w. writers t = Some w \<longrightarrow> writer_ok w)"

lemma groups_of_chunk:
  assumes "groupChunk lb el writers chunk = (gs, bad)" "writers_ok writers" "numbers_up chunk"
  shows "groups_ok gs" "group_items gs t = items_of lb el writers t chunk"
proof -
  have gf: "group_from lb el writers [] chunk = (gs, bad)"
    using assms(1) by (simp add: groupChunk_def)
  have its: "group_items gs t = items_of lb el writers t chunk" for t
    using group_from_groups [OF _ _ gf, of t] by simp
  then show "group_items gs t = items_of lb el writers t chunk" .
  have all: "\<forall>g\<in>set gs. group_ok writers g" "distinct (map gr_key gs)"
    using group_from_groups [OF _ _ gf, of undefined] by simp_all
  have "sorted_wrt (<) (gr_numbers g)" if g: "g \<in> set gs" for g
  proof -
    have "group_items gs (gr_key g) = zip (gr_numbers g) (gr_rows g)"
      using g all(2) by (induction gs) (auto simp: group_items_other)
    then have "map fst (items_of lb el writers (gr_key g) chunk) = gr_numbers g"
      using all(1) g its [of "gr_key g"] by (simp add: group_ok_def)
    then show ?thesis
      using items_of_up [OF assms(3), of lb el writers "gr_key g"] by simp
  qed
  moreover have "\<forall>g\<in>set gs. writer_ok (gr_writer g) \<and> length (gr_rows g) = length (gr_numbers g)"
    using all(1) assms(2) by (auto simp: group_ok_def writers_ok_def)
  ultimately show "groups_ok gs"
    using all(2) items_of_one_table [OF assms(3)] unfolding groups_ok_def its by blast
qed

text \<open>What a chunk, or the stream, leaves of the records it read.\<close>

definition chunk_done :: "library \<Rightarrow> envelopes \<Rightarrow> (string \<Rightarrow> 'r DynamicWriter option) \<Rightarrow> numberedRecord list \<Rightarrow> 's pump \<Rightarrow>
    error option \<Rightarrow> 's pump \<Rightarrow> bool" where
  "chunk_done lb el writers recs y r y' \<longleftrightarrow> sound y'
     \<and> (\<forall>t. kept_promise r (accepted (pm_state y) t) (accepted (pm_state y') t) (items_of lb el writers t recs))
     \<and> (r = None \<longrightarrow> readable lb el writers recs \<and> pm_ended y' = pm_ended y)
     \<and> (\<forall>k. refused_at r k \<longrightarrow> k \<in> nr_number ` set recs)
     \<and> (\<forall>e. r = Some e \<longrightarrow> errors_Is e errIngestStopped \<longrightarrow> pm_ended y')"

lemma write_chunk_result:
  assumes "sound y" "numbers_up chunk" "writers_ok writers" "envelopes_ok el" "write_chunk ins lb el writers opts chunk y = (r, y')"
  shows "chunk_done lb el writers chunk y r y'"
proof -
  obtain gs bad where gc: "groupChunk lb el writers chunk = (gs, bad)" by (metis prod.collapse)
  note groups = groups_of_chunk [OF gc assms(3,2)]
  have gf: "group_from lb el writers [] chunk = (gs, bad)"
    using gc by (simp add: groupChunk_def)
  show ?thesis
  proof (cases bad)
    case None
    have "limit_ok (-1) None gs"
      by (simp add: limit_ok_def)
    moreover have "write_groups ins opts chunk (-1) None gs y = (r, y')"
      using assms(5) gc None by (simp add: write_chunk_def)
    ultimately have "wrote_groups (-1) None gs y r y'"
      using write_groups_result [OF groups(1) assms(1)] by blast
    moreover have "readable lb el writers chunk"
      using group_from_bad [OF gf] None by (simp add: readable_def)
    ultimately show ?thesis
      using items_of_numbers [of _ _ lb el writers _ chunk]
      unfolding chunk_done_def wrote_groups_def groups(2) by force
  next
    case (Some b)
    obtain k where k: "k < length chunk" "read_record lb el writers (chunk ! k) = Inl b"
        "\<forall>m<k. \<not> isl (read_record lb el writers (chunk ! m))"
      using group_from_bad [OF gf] Some by auto
    note b = read_record_Inl [OF k(2)]
    have cut: "n < nr_number (chunk ! k)" if n: "n \<in> fst ` set (items_of lb el writers t chunk)" for n t
    proof -
      have "n \<in> nr_number ` set (take k chunk)"
        using n items_of_cut [OF k, of t] items_of_numbers [of n _ lb el writers t "take k chunk"] by fastforce
      then show ?thesis
        using assms(2) k(1) by (auto simp: numbers_up_def in_set_conv_nth sorted_wrt_iff_nth_less)
    qed
    have "limit_ok (ie_Record b) (Some (EIngest b)) gs"
      using b cut read_record_not_stopped [OF assms(4) k(2)] unfolding limit_ok_def groups(2)
      by (fastforce simp: refused_at_def)
    moreover have "write_groups ins opts chunk (ie_Record b) (Some (EIngest b)) gs y = (r, y')"
      using assms(5) gc Some by (simp add: write_chunk_def)
    ultimately have "wrote_groups (ie_Record b) (Some (EIngest b)) gs y r y'"
      using write_groups_result [OF groups(1) assms(1)] by blast
    moreover have "x \<in> nr_number ` set chunk" if "refused_at (Some (EIngest b)) x" for x
      using that b k(1) by (auto simp: refused_at_def)
    ultimately show ?thesis
      using items_of_numbers [of _ _ lb el writers _ chunk]
      unfolding chunk_done_def wrote_groups_def groups(2) by force
  qed
qed

definition streamed :: "library \<Rightarrow> envelopes \<Rightarrow> (string \<Rightarrow> 'r DynamicWriter option) \<Rightarrow> error option \<Rightarrow> numberedRecord list \<Rightarrow>
    's pump \<Rightarrow> error option \<Rightarrow> 's pump \<Rightarrow> bool" where
  "streamed lb el writers failed recs y r y' \<longleftrightarrow> sound y'
     \<and> (\<forall>t. kept_promise (ending_of r y') (accepted (pm_state y) t) (accepted (pm_state y') t) (items_of lb el writers t recs))
     \<and> (ending_of r y' = None \<longrightarrow> readable lb el writers recs)
     \<and> (\<forall>k. refused_at r k \<longrightarrow> k \<in> nr_number ` set recs \<or> refused_at failed k)"

lemma numbers_up_append: "numbers_up (chunk @ recs) \<longleftrightarrow> numbers_up chunk \<and> numbers_up recs
    \<and> (\<forall>a\<in>set chunk. \<forall>b\<in>set recs. nr_number a < nr_number b)"
  by (auto simp: numbers_up_def sorted_wrt_append)

lemma kept_promise_cut:
  assumes "kept_promise p a b its" "r \<noteq> None" "\<And>k. refused_at r k \<Longrightarrow> refused_at p k \<and> (\<forall>n\<in>fst ` set later. k < n)"
  shows "kept_promise r a b (its @ later)"
proof -
  obtain j where j: "j \<le> length its" "b = a @ map snd (take j its)"
      "\<forall>k. refused_at p k \<longrightarrow> (\<forall>n\<in>fst ` set (drop j its). k \<le> n) \<and> (k \<in> fst ` set its \<longrightarrow> (\<forall>n\<in>fst ` set (take j its). n < k))"
    using assms(1) by (auto simp: kept_promise_def)
  have "(\<forall>n\<in>fst ` set (drop j (its @ later)). k \<le> n)
      \<and> (k \<in> fst ` set (its @ later) \<longrightarrow> (\<forall>n\<in>fst ` set (take j (its @ later)). n < k))" if "refused_at r k" for k
    using assms(3) [OF that] j(1,3) by (auto simp: image_Un)
  then show ?thesis
    using j assms(2) unfolding kept_promise_def by (intro exI [of _ j]) (simp del: not_None_eq)
qed

lemma kept_promise_on:
  assumes "kept_promise None a b its" "kept_promise r b c later" "\<And>k. refused_at r k \<Longrightarrow> \<forall>n\<in>fst ` set its. n < k"
  shows "kept_promise r a c (its @ later)"
proof -
  obtain j where j: "j \<le> length later" "c = b @ map snd (take j later)" "r = None \<longrightarrow> j = length later"
      "\<forall>k. refused_at r k \<longrightarrow> (\<forall>n\<in>fst ` set (drop j later). k \<le> n) \<and> (k \<in> fst ` set later \<longrightarrow> (\<forall>n\<in>fst ` set (take j later). n < k))"
    using assms(2) by (auto simp: kept_promise_def)
  have b: "b = a @ map snd its"
    using assms(1) by (auto simp: kept_promise_def)
  have "k \<in> fst ` set (its @ later) \<longrightarrow> (\<forall>n\<in>fst ` set (take (length its + j) (its @ later)). n < k)" if "refused_at r k" for k
    using assms(3) [OF that] j(4) that by (auto simp: image_Un)
  then show ?thesis
    using j b unfolding kept_promise_def by (intro exI [of _ "length its + j"]) simp
qed

lemma ingest_loop_result:
  assumes "sound y" "numbers_up recs" "\<not> pm_ended y" "\<And>k rec. refused_at failed k \<Longrightarrow> rec \<in> set recs \<Longrightarrow> nr_number rec < k"
    and "writers_ok writers" "envelopes_ok el" "ingest_loop ins lb el writers opts failed schedule recs y = (r, y')"
  shows "streamed lb el writers failed recs y r y'"
  using assms(1-4,7)
proof (induction schedule arbitrary: recs y)
  case Nil
  then show ?case
    by (auto simp: streamed_def ending_of_def sound_def kept_promise_def)
next
  case (Cons a as)
  obtain chunk out recs' where nc: "nextChunk opts a recs = (chunk, out, recs')" by (metis prod_cases3)
  note split = nextChunk_split [OF nc]
  then have up: "numbers_up chunk" "numbers_up recs'" "\<forall>a\<in>set chunk. \<forall>b\<in>set recs'. nr_number a < nr_number b"
    using Cons.prems(2) numbers_up_append [of chunk recs'] by auto
  obtain p y1 where wc: "write_chunk ins lb el writers opts chunk y = (p, y1)" by (metis prod.collapse)
  note del = write_chunk_result [OF Cons.prems(1) up(1) assms(5,6) wc]
  note run = Cons.prems(5) [unfolded ingest_loop.simps(2), unfolded nc prod.case wc]
  define tail where "tail t = (if \<exists>rec\<in>set chunk. isl (read_record lb el writers rec) then [] else items_of lb el writers t recs')" for t
  have whole: "items_of lb el writers t recs = items_of lb el writers t chunk @ tail t" for t
    using split items_of_append [of lb el writers t chunk recs'] by (auto simp: tail_def)
  have tail_numbers: "n \<in> nr_number ` set recs'" if "n \<in> fst ` set (tail t)" for n t
    using that items_of_numbers [of n _ lb el writers t recs'] by (auto simp: tail_def split: if_splits)
  have cut: "streamed lb el writers failed recs y r y1"
    if "ending_of r y1 \<noteq> None" "\<And>k. refused_at r k \<Longrightarrow> refused_at p k"
  proof -
    have "kept_promise (ending_of r y1) (accepted (pm_state y) t) (accepted (pm_state y1) t) (items_of lb el writers t recs)" for t
      unfolding whole
    proof (rule kept_promise_cut [OF _ that(1)])
      show "kept_promise p (accepted (pm_state y) t) (accepted (pm_state y1) t) (items_of lb el writers t chunk)"
        using del by (simp add: chunk_done_def)
      show "refused_at p k \<and> (\<forall>n\<in>fst ` set (tail t). k < n)" if "refused_at (ending_of r y1) k" for k
        using that \<open>\<And>k. refused_at r k \<Longrightarrow> refused_at p k\<close> del up(3) tail_numbers [of _ t] by (fastforce simp: chunk_done_def)
    qed
    moreover have "k \<in> nr_number ` set recs" if "refused_at r k" for k
    proof -
      have "k \<in> nr_number ` set chunk"
        using that \<open>\<And>k. refused_at r k \<Longrightarrow> refused_at p k\<close> del unfolding chunk_done_def by blast
      then show ?thesis
        using split by auto
    qed
    ultimately show ?thesis
      using del that(1) by (simp add: streamed_def chunk_done_def del: not_None_eq)
  qed
  show ?case
  proof (cases p)
    case (Some e)
    show ?thesis
    proof (cases "errors_Is e errIngestStopped")
      case True
      then show ?thesis
        using cut run Some del by (auto simp: ending_of_def chunk_done_def)
    next
      case False
      then show ?thesis
        using cut run Some by (auto simp: ending_of_def)
    qed
  next
    case None
    have done': "readable lb el writers chunk" "pm_ended y1 = pm_ended y" "sound y1"
      "\<And>t. kept_promise None (accepted (pm_state y) t) (accepted (pm_state y1) t) (items_of lb el writers t chunk)"
      using del None by (auto simp: chunk_done_def)
    have ended: "streamed lb el writers failed recs y None (y1\<lparr>pm_ended := True\<rparr>)"
    proof -
      have "kept_promise (Some errIngestStopped) (accepted (pm_state y) t) (accepted (pm_state y1) t) (items_of lb el writers t recs)" for t
        unfolding whole by (rule kept_promise_cut [OF done'(4)]) auto
      then show ?thesis
        using done'(3) by (simp add: streamed_def ending_of_def sound_def)
    qed
    show ?thesis
    proof (cases out)
      case chunkMore
      have readable_tail: "tail t = items_of lb el writers t recs'" for t
        using done'(1) by (auto simp: tail_def readable_def)
      have "ingest_loop ins lb el writers opts failed as recs' y1 = (r, y')"
        using run None chunkMore by simp
      moreover have "rec \<in> set recs' \<Longrightarrow> rec \<in> set recs" for rec
        using split by auto
      ultimately have rest: "streamed lb el writers failed recs' y1 r y'"
        using Cons.IH [OF done'(3) up(2)] done'(2) Cons.prems(3,4) by blast
      have before: "n < k" if ref: "refused_at r k" and here: "n \<in> fst ` set (items_of lb el writers t chunk)" for k n t
      proof -
        obtain rec where rec: "rec \<in> set chunk" "n = nr_number rec"
          using here items_of_numbers [of n _ lb el writers t chunk] by force
        have "k \<in> nr_number ` set recs' \<or> refused_at failed k"
          using rest ref by (simp add: streamed_def)
        then show ?thesis
          using rec up(3) split Cons.prems(4) [of k rec] by auto
      qed
      have "kept_promise (ending_of r y') (accepted (pm_state y) t) (accepted (pm_state y') t) (items_of lb el writers t recs)" for t
        unfolding whole readable_tail
        by (rule kept_promise_on [OF done'(4)]) (use rest before in \<open>auto simp: streamed_def\<close>)
      then show ?thesis
        using rest done'(1) split by (auto simp: streamed_def readable_def)
    next
      case chunkEnded
      then have same: "recs = chunk"
        using split by auto
      show ?thesis
      proof (cases failed)
        case None
        then show ?thesis
          using run \<open>p = None\<close> chunkEnded ended by simp
      next
        case (Some e)
        show ?thesis
        proof (cases "errors_Is e io_EOF")
          case True
          then have "r = None" "y' = y1"
            using run \<open>p = None\<close> chunkEnded Some by simp_all
          then show ?thesis
            using done' same Cons.prems(3) by (simp add: streamed_def ending_of_def)
        next
          case False
          then have res: "r = failed" "y' = y1"
            using run \<open>p = None\<close> chunkEnded Some by simp_all
          have "kept_promise failed (accepted (pm_state y) t) (accepted (pm_state y1) t) (items_of lb el writers t recs)" for t
          proof -
            have "kept_promise failed (accepted (pm_state y) t) (accepted (pm_state y1) t) (items_of lb el writers t chunk @ [])"
            proof (rule kept_promise_on [OF done'(4)])
              show "\<forall>n\<in>fst ` set (items_of lb el writers t chunk). n < k" if "refused_at failed k" for k
                using Cons.prems(4) [OF that] items_of_numbers [of _ _ lb el writers t chunk] same by force
            qed (simp add: kept_promise_def)
            then show ?thesis
              using same by simp
          qed
          then show ?thesis
            using done' same res Some by (simp add: streamed_def ending_of_def)
        qed
      qed
    next
      case chunkStopped
      then show ?thesis
        using run None ended by simp
    qed
  qed
qed

end

end
