(* ===== verification/IngestFleet.thy ===== *)
theory IngestFleet
  imports IngestPromise
begin

text \<open>The batch door of the model's writers keeps the contract \<open>batch_door\<close>, for drivers, hooks and bindings whose
  errors are their own, and with it \<open>IngestStream\<close> keeps its promise; and what becomes of it when a hook's error is
  the staging ceiling's.\<close>

section \<open>Errors that are their maker's own\<close>

definition foreign :: "error \<Rightarrow> bool" where
  "foreign e \<longleftrightarrow> \<not> errors_Is e ErrStagingFull \<and> \<not> errors_Is e errIngestStopped \<and> as_BatchError e = None"

lemma foreign_chain: "foreign e \<longleftrightarrow> (\<forall>x\<in>set (chain e). x \<noteq> ErrStagingFull \<and> x \<noteq> errIngestStopped \<and> (\<forall>b. x \<noteq> EBatch b))"
proof -
  have "as_BatchError e = None \<longleftrightarrow> (\<forall>x\<in>set (chain e). \<forall>b. x \<noteq> EBatch b)"
  proof (cases "find (\<lambda>x. case x of EBatch _ \<Rightarrow> True | _ \<Rightarrow> False) (chain e)")
    case None
    then have "\<forall>x\<in>set (chain e). \<not> (case x of EBatch _ \<Rightarrow> True | _ \<Rightarrow> False)"
      by (simp add: find_None_iff)
    then have "\<forall>x\<in>set (chain e). \<forall>b. x \<noteq> EBatch b"
      by auto
    then show ?thesis
      using None by (simp add: as_BatchError_def errors_As_def)
  next
    case (Some x)
    then have "case x of EBatch _ \<Rightarrow> True | _ \<Rightarrow> False"
      unfolding find_Some_iff by blast
    then obtain b where "x = EBatch b"
      by (cases x) auto
    moreover have "x \<in> set (chain e)"
      using Some by (metis find_Some_iff nth_mem)
    ultimately show ?thesis
      using Some by (auto simp: as_BatchError_def errors_As_def)
  qed
  then show ?thesis
    by (auto simp: foreign_def errors_Is_def)
qed

lemma foreign_wrap:
  "(\<forall>e'\<in>set (unwrap e). foreign e') \<Longrightarrow> e \<noteq> ErrStagingFull \<Longrightarrow> e \<noteq> errIngestStopped \<Longrightarrow> (\<forall>b. e \<noteq> EBatch b) \<Longrightarrow> foreign e"
  unfolding foreign_chain by (subst chain.simps) auto

lemma foreign_leaf [simp]: "foreign (ERecord r)" "foreign (EPoison q)" "foreign (EEncoding n)" "foreign ErrClosed"
  by (rule foreign_wrap; simp add: unwrap_def errIngestStopped_def)+

lemma foreign_staging: "(\<forall>e. c = Some e \<longrightarrow> foreign e) \<Longrightarrow> foreign (NewStagingError kind path c)"
  by (rule foreign_wrap) (auto simp: NewStagingError_def unwrap_def opt_list_def errIngestStopped_def split: option.splits)

lemma foreign_mirror: "foreign e \<Longrightarrow> foreign (EMirror (MirrorError ns t e))"
  by (rule foreign_wrap) (auto simp: unwrap_def errIngestStopped_def)

section \<open>The driver's errors\<close>

definition own_faults :: "error option list \<Rightarrow> bool" where
  "own_faults fs \<longleftrightarrow> (\<forall>e. Some e \<in> set fs \<longrightarrow> foreign e)"

definition honest_op :: "'a op \<Rightarrow> bool" where
  "honest_op m \<longleftrightarrow> (\<forall>s r s'. m s = (r, s') \<longrightarrow> own_faults (st_faults s) \<longrightarrow>
     own_faults (st_faults s') \<and> (\<forall>e. r = Inl e \<longrightarrow> foreign e))"

lemma honest_stmt: "honest_op (stmt f)"
  by (auto simp: honest_op_def stmt_def own_faults_def split: list.splits option.splits)

lemma honest_ret: "honest_op (op_ret x)"
  by (simp add: honest_op_def op_ret_def)

lemma honest_bind: "honest_op m \<Longrightarrow> (\<And>x. honest_op (f x)) \<Longrightarrow> honest_op (op_bind m f)"
  unfolding honest_op_def op_bind_def by (auto split: prod.splits sum.splits)

lemma honest_tx: "honest_op fn \<Longrightarrow> honest_op (tx fn)"
proof -
  assume "honest_op fn"
  then have body: "honest_op (op_bind fn (\<lambda>x. op_bind (stmt (\<lambda>d. ((), d))) (\<lambda>_. op_ret x)))"
    by (intro honest_bind honest_stmt honest_ret)
  show ?thesis
    using body honest_stmt [of "\<lambda>d. ((), d)"] unfolding honest_op_def tx_def
    by (auto split: prod.splits sum.splits)
qed

lemma honest_append_rows: "honest_op (append_rows recorded rows)"
  by (induction rows arbitrary: recorded) (auto simp: Let_def intro!: honest_bind honest_stmt honest_ret)

lemma honest_AppendBatch: "honest_op (AppendBatch rows)"
proof -
  have "honest_op (staging_wrap StagingKindWrite (tx (append_rows [] rows)))"
    using honest_tx [OF honest_append_rows [of "[]" rows]]
    by (auto simp: honest_op_def staging_wrap_def op_wrap_def intro!: foreign_staging split: prod.splits sum.splits)
  then show ?thesis
    by (auto simp: AppendBatch_def honest_ret) (auto simp: honest_op_def staging_fail_def foreign_staging)
qed

section \<open>The door\<close>

definition own_errors :: "'r DynamicWriter \<Rightarrow> bool" where
  "own_errors w \<longleftrightarrow> (\<forall>row e. pl_Bind (dw_plan w) row = Inl e \<longrightarrow> foreign e)
     \<and> (\<forall>hook row e. pl_onAccept (dw_plan w) = Some hook \<longrightarrow> hook row = Some e \<longrightarrow> foreign e)"

definition converts :: "'r DynamicWriter \<Rightarrow> Record \<Rightarrow> bool" where
  "converts w row \<longleftrightarrow> \<not> isl (convert (dw_plan w) row)"

definition fleet_ok :: "fleet \<Rightarrow> bool" where
  "fleet_ok f \<longleftrightarrow> own_faults (st_faults (ft_staging f))"

lemma appendValue_Inl: "appendValue out t f v = Inl e \<Longrightarrow> \<exists>n. e = EEncoding n"
  by (cases "fld_Kind f"; cases v)
    (auto simp: appendValue_def wrongType_def appendPrefixed_def checkValueLen_def NewEncodingError_def split: if_splits option.splits)

lemma encodeColumns_Inl: "encodeColumns t out fs vs = Inl e \<Longrightarrow> \<exists>n. e = EEncoding n"
  by (induction t out fs vs rule: encodeColumns.induct)
    (auto simp: NewEncodingError_def res_bind_def split: option.splits if_splits sum.splits dest: appendValue_Inl)

lemma checkColumn_Some: "checkColumn t cv = Some e \<Longrightarrow> \<exists>q. e = EPoison q"
  by (cases cv) (auto simp: checkColumn_def checkLen_def NewPoisonError_def
      split: option.splits Kind.splits gvalue.splits if_splits)

lemma first_error_found: "first_error f xs = Some e \<Longrightarrow> \<exists>x\<in>set xs. f x = Some e"
  by (induction xs) (auto split: option.splits)

lemma convert_foreign:
  assumes "own_errors w" "convert (dw_plan w) row = Inl e"
  shows "foreign e"
proof -
  have "pl_Bind (dw_plan w) row = Inl e \<or> (\<exists>q. e = EPoison q) \<or> (\<exists>n. e = EEncoding n)"
    using assms(2) by (auto simp: convert_def res_bind_def checkPoison_def Encode_def NewEncodingError_def
        split: sum.splits option.splits if_splits dest!: first_error_found encodeColumns_Inl checkColumn_Some)
  then show ?thesis
    using assms(1) by (auto simp: own_errors_def)
qed

lemma seal_keeps_accepted [simp]: "wr_accepted (sealLocked now w) = wr_accepted w"
  by (simp add: sealLocked_def)

lemma thresholds_keep_accepted [simp]: "wr_accepted (check_thresholds rv now w) = wr_accepted w"
  by (simp add: check_thresholds_def triggerLocked_def)

text \<open>The outcomes of a batch: refused for the ceiling, for a row, or for another reason; accepted, with the hook's
  error or none; or empty.\<close>

definition refused_whole :: "'r DynamicWriter \<Rightarrow> Record list \<Rightarrow> error \<Rightarrow> bool" where
  "refused_whole w rows e \<longleftrightarrow> foreign e
     \<or> (e = staging_full (dw_plan w) \<and> (\<forall>row\<in>set rows. converts w row))
     \<or> (\<exists>k c. e = EBatch (BatchError (int k) c) \<and> k < length rows \<and> foreign c \<and> \<not> converts w (rows ! k)
          \<and> (\<forall>m<k. converts w (rows ! m)))"

lemma stageBatch_outcome:
  assumes "own_faults (st_faults (sys_store y))" "\<forall>row\<in>set rows. converts w row" "\<not> wr_closed (sy_writer y)"
    "stageBatch (dw_plan w) rows payloads y = (r, y')"
  shows "own_faults (st_faults (sys_store y')) \<and> (case r of
      Some e \<Rightarrow> wr_accepted (sy_writer y') = wr_accepted (sy_writer y) \<and> refused_whole w rows e
    | None \<Rightarrow> wr_accepted (sy_writer y') = wr_accepted (sy_writer y) + length rows)"
proof (cases "fst (acceptBatch (length rows) (sum_list (map (\<lambda>b. int (length b)) payloads)) (sy_store y))")
  case False
  then show ?thesis
    using assms by (auto simp: stageBatch_def Let_def refused_whole_def split: prod.splits bool.splits)
next
  case True
  obtain res s where run: "AppendBatch (map (append_row (dw_plan w) (fw_now (sy_world y))) payloads) (sys_store y) = (res, s)"
    by (metis prod.collapse)
  have honest: "own_faults (st_faults s)" "\<And>e. res = Inl e \<Longrightarrow> foreign e"
    using honest_AppendBatch assms(1) run unfolding honest_op_def by blast+
  show ?thesis
    using True assms(3,4) run honest
    by (auto simp: stageBatch_def Let_def staging_call_def refused_whole_def rememberBatch_def split: prod.splits bool.splits sum.splits)
qed

lemma call_hook_outcome:
  assumes "own_errors w" "call_hook (dw_plan w) rows y = (r, y')"
  shows "sys_store y' = sys_store y \<and> sy_writer y' = sy_writer y \<and> (\<forall>e. r = Some e \<longrightarrow> foreign e)"
  using assms(2)
proof (induction rows arbitrary: y)
  case (Cons row rows)
  then show ?case
    using assms(1) by (fastforce simp: own_errors_def Let_def intro: foreign_mirror split: option.splits)
qed simp

lemma InsertBatch_outcome:
  assumes "own_faults (st_faults (sys_store y))" "own_errors w" "InsertBatch (dw_plan w) rows y = (r, y')"
  shows "own_faults (st_faults (sys_store y'))
    \<and> (wr_accepted (sy_writer y') = wr_accepted (sy_writer y) \<and> (case r of None \<Rightarrow> rows = [] | Some e \<Rightarrow> refused_whole w rows e)
      \<or> wr_accepted (sy_writer y') = wr_accepted (sy_writer y) + length rows \<and> rows \<noteq> [] \<and> (\<forall>e. r = Some e \<longrightarrow> foreign e))"
proof -
  consider "wr_closed (sy_writer y) \<or> rows = []"
    | (bad) e where "\<not> wr_closed (sy_writer y)" "rows \<noteq> []" "convert_rows (dw_plan w) 0 rows = Inl e"
    | (good) payloads where "\<not> wr_closed (sy_writer y)" "rows \<noteq> []" "convert_rows (dw_plan w) 0 rows = Inr payloads"
    by (cases "convert_rows (dw_plan w) 0 rows") blast+
  then show ?thesis
  proof cases
    case 1
    then show ?thesis
      using assms(1,3) by (auto simp: InsertBatch_def refused_whole_def split: if_splits)
  next
    case bad
    then have "r = Some e" "y' = y"
      using assms(3) by (simp_all add: InsertBatch_def)
    moreover obtain k c where "k < length rows" "convert (dw_plan w) (rows ! k) = Inl c"
        "\<forall>m<k. \<exists>b. convert (dw_plan w) (rows ! m) = Inr b" "e = EBatch (BatchError (int k) c)"
      using bad(3) by (auto simp: convert_rows_Inl)
    ultimately show ?thesis
      using assms(1) convert_foreign [OF assms(2)] by (fastforce simp: refused_whole_def converts_def)
  next
    case good
    then have all: "\<forall>row\<in>set rows. converts w row"
      by (auto simp: convert_rows_Inr converts_def list_all2_conv_all_nth in_set_conv_nth)
    obtain r1 y1 where st: "stageBatch (dw_plan w) rows payloads y = (r1, y1)" by (metis prod.collapse)
    note out = stageBatch_outcome [OF assms(1) all good(1) st]
    have "(r, y') = (case r1 of Some e \<Rightarrow> (Some e, y1) | None \<Rightarrow> call_hook (dw_plan w) rows y1)"
      using assms(3) good st by (simp add: InsertBatch_def split: option.splits)
    then show ?thesis
      using out call_hook_outcome [OF assms(2), of rows y1 r y'] good(2) by (auto split: option.splits)
  qed
qed

lemma staging_full_errors [simp]: "errors_Is (staging_full p) ErrStagingFull" "\<not> errors_Is (staging_full p) errIngestStopped"
    "as_BatchError (staging_full p) = None"
  by (simp_all add: staging_full_def errors_Is_def errIngestStopped_def as_BatchError_def errors_As_def unwrap_def
      chain.simps [of "ErrWrap _ _"])

lemma batch_errors [simp]: "errors_Is (EBatch b) ErrStagingFull \<longleftrightarrow> errors_Is (be_Err b) ErrStagingFull"
    "errors_Is (EBatch b) errIngestStopped \<longleftrightarrow> errors_Is (be_Err b) errIngestStopped"
    "as_BatchError (EBatch b) = Some (be_Index b, be_Err b)"
  by (simp_all add: errors_Is_def errIngestStopped_def as_BatchError_def errors_As_def unwrap_def chain.simps [of "EBatch _"])

lemma refused_whole_errors:
  assumes "refused_whole w rows e"
  shows "\<not> errors_Is e errIngestStopped"
    "errors_Is e ErrStagingFull \<Longrightarrow> \<forall>row\<in>set rows. converts w row"
    "as_BatchError e = Some (i, c) \<Longrightarrow> 0 \<le> i \<and> i < int (length rows) \<and> \<not> converts w (rows ! nat i) \<and> (\<forall>m<nat i. converts w (rows ! m))"
  using assms by (auto simp: refused_whole_def foreign_def)

lemma fleet_door_outcome:
  assumes "fleet_ok f" "own_errors w" "fleet_door key w rows f = (r, f')"
  shows "fleet_ok f'
    \<and> (ft_accepted f' = ft_accepted f \<and> (case r of None \<Rightarrow> rows = [] | Some e \<Rightarrow> refused_whole w rows e)
      \<or> ft_accepted f' = (ft_accepted f)(key := ft_accepted f key @ rows) \<and> (\<forall>e. r = Some e \<longrightarrow> foreign e))"
proof -
  obtain y where run: "InsertBatch (dw_plan w) rows (seen_by key f) = (r, y)"
      and f': "f' = (put_back key y f)\<lparr>ft_accepted :=
          (if wr_accepted (sy_writer y) = wr_accepted (sy_writer (ft_systems f key)) then ft_accepted f
           else (ft_accepted f)(key := ft_accepted f key @ rows))\<rparr>"
    using assms(3) by (auto simp: fleet_door_def split: prod.splits)
  have seen: "sys_store (seen_by key f) = ft_staging f" "sy_writer (seen_by key f) = sy_writer (ft_systems f key)"
    by (simp_all add: seen_by_def Let_def)
  show ?thesis
    using InsertBatch_outcome [OF _ assms(2) run] assms(1) f' seen by (auto simp: fleet_ok_def put_back_def)
qed

text \<open>The contract, kept by \<open>InsertBatch\<close>.\<close>

interpretation pump_door: batch_door fleet_door fleet_ok own_errors converts ft_accepted
proof
  fix s s' :: fleet and w :: "'r DynamicWriter" and key rows r e i c
  assume ok: "fleet_ok s" "own_errors w"
  { assume run: "fleet_door key w rows s = (r, s')"
    note out = fleet_door_outcome [OF ok run]
    then show "fleet_ok s'"
      and "ft_accepted s' = ft_accepted s \<or> ft_accepted s' = (ft_accepted s)(key := ft_accepted s key @ rows)"
      by auto }
  { assume run: "fleet_door key w rows s = (None, s')"
    show "ft_accepted s' = (ft_accepted s)(key := ft_accepted s key @ rows)"
      using fleet_door_outcome [OF ok run] by auto }
  { assume run: "fleet_door key w rows s = (Some e, s')"
    note out = fleet_door_outcome [OF ok run]
    show "\<not> errors_Is e errIngestStopped"
      using out refused_whole_errors(1) by (auto simp: foreign_def)
    { assume "errors_Is e ErrStagingFull"
      then show "ft_accepted s' = ft_accepted s \<and> (\<forall>row\<in>set rows. converts w row)"
        using out refused_whole_errors(2) by (auto simp: foreign_def) }
    { assume row: "as_BatchError e = Some (i, c)"
      then have "ft_accepted s' = ft_accepted s \<and> refused_whole w rows e"
        using out by (auto simp: foreign_def)
      with refused_whole_errors(3) [OF _ row, of w rows]
      show "ft_accepted s' = ft_accepted s \<and> 0 \<le> i \<and> i < int (length rows) \<and> \<not> converts w (rows ! nat i)
          \<and> (\<forall>m<nat i. converts w (rows ! m))"
        by blast } }
qed

section \<open>The promise\<close>

lemma refuse_record_is: "refuse_record c k fld = ERecord (RecordError (dc_namespace c) (dc_table c) fld k)"
  by (simp add: refuse_record_def NewRecordError_def)

lemma integer_Inl: "integer c column raw = Inl e \<Longrightarrow> \<exists>x. e = ERecord x"
  by (cases raw) (auto simp: integer_def integralFloat_def refuse_record_is split: sum.splits num_error.splits if_splits)

lemma coerce_Inl: "coerce lb c column raw = Inl e \<Longrightarrow> \<exists>x. e = ERecord x"
  by (cases raw) (auto simp: coerce_def res_bind_def float_value_def decimal_def timestamp_def binary_def refuse_record_is
      split: sum.splits Kind.splits if_splits option.splits prod.splits dest: integer_Inl)

lemma Bind_Inl: "Bind lb c rec = Inl e \<Longrightarrow> \<exists>x. e = ERecord x"
  by (auto simp: Bind_def bind_column_def res_bind_def refuse_record_is
      split: option.splits sum.splits if_splits dest!: map_result_Inl dest: coerce_Inl)

text \<open>The writers a stream is given: each binds by its own codec, and its hook's errors are its own.\<close>

definition opened_writers :: "library \<Rightarrow> (string \<Rightarrow> 'r DynamicWriter option) \<Rightarrow> bool" where
  "opened_writers lb writers \<longleftrightarrow> (\<forall>t w. writers t = Some w \<longrightarrow> pl_Bind (dw_plan w) = Bind lb (dw_codec w)
     \<and> (\<forall>hook row e. pl_onAccept (dw_plan w) = Some hook \<longrightarrow> hook row = Some e \<longrightarrow> foreign e))"

lemma opened_own: "opened_writers lb writers \<Longrightarrow> pump_door.writers_ok writers"
  unfolding pump_door.writers_ok_def opened_writers_def own_errors_def by (metis Bind_Inl foreign_leaf(1))

lemma stream_keeps_promise:
  assumes "fleet_ok (pm_state y)" "\<forall>g\<in>set (pm_others y). \<forall>f. fleet_ok f \<longrightarrow> fleet_ok (g f) \<and> ft_accepted (g f) = ft_accepted f"
    and "opened_writers lb writers" "envelopes_ok el" "\<not> pm_ended y"
    and "readRecords dec taken (new_scanner (nat (io_MaxRecordBytes (resolved_options opts))) r) = (recs, failed)"
    and "IngestStream lb el dec writers opts r taken schedule y = (res, y')"
  shows "kept_promise (ending_of res y') (ft_accepted (pm_state y) t) (ft_accepted (pm_state y') t) (items_of lb el writers t recs)
    \<and> (ending_of res y' = None \<longrightarrow> readable lb el writers recs)"
proof (cases "validate_options (resolved_options opts)")
  case (Some e)
  then have "res = Some e" "y' = y" "\<And>k. \<not> refused_at (Some e) k"
    using assms(7) by (auto simp: IngestStream_def ingest_stream_def Let_def validate_options_def refused_at_def split: if_splits)
  then show ?thesis
    by (auto simp: ending_of_def kept_promise_def intro!: exI [of _ 0])
next
  case None
  then have run: "ingest_loop fleet_door lb el writers (resolved_options opts) failed schedule recs y = (res, y')"
    using assms(6,7) by (simp add: IngestStream_def ingest_stream_def Let_def)
  note numbers = readRecords_numbers [OF assms(6)]
  have up: "numbers_up recs"
    unfolding numbers_up_def numbers(1) by (rule sorted_wrt_upt)
  have last: "nr_number rec < k" if "refused_at failed k" "rec \<in> set recs" for k rec
  proof -
    have "nr_number rec \<in> set (map nr_number recs)"
      using that(2) by simp
    then show ?thesis
      using numbers(2) [OF that(1)] unfolding numbers(1) by auto
  qed
  have "pump_door.sound y"
    using assms(1,2) by (simp add: pump_door.sound_def)
  from pump_door.ingest_loop_result [OF this up assms(5) last opened_own [OF assms(3)] assms(4) run] show ?thesis
    by (simp add: pump_door.streamed_def)
qed

end
