(* ===== verification/IngestClaims.thy ===== *)
theory IngestClaims
  imports IngestFleet
begin

text \<open>What the stream promises and how it ends, and a stream whose hook speaks of another writer's ceiling.\<close>

section \<open>A driver that does not fail\<close>

definition never_fails :: "'a op \<Rightarrow> bool" where
  "never_fails m \<longleftrightarrow> (\<forall>s. st_faults s = [] \<longrightarrow> (\<exists>x s'. m s = (Inr x, s') \<and> st_faults s' = []))"

lemma never_fails_stmt: "never_fails (stmt f)"
  by (simp add: never_fails_def stmt_def)

lemma never_fails_ret: "never_fails (op_ret x)"
  by (simp add: never_fails_def op_ret_def)

lemma never_fails_bind: "never_fails m \<Longrightarrow> (\<And>x. never_fails (f x)) \<Longrightarrow> never_fails (op_bind m f)"
  unfolding never_fails_def op_bind_def by (metis (mono_tags, lifting) old.prod.case sum.case(2))

lemma never_fails_append: "never_fails (append_rows recorded rows)"
  by (induction rows arbitrary: recorded) (auto simp: Let_def intro!: never_fails_bind never_fails_stmt never_fails_ret)

lemma never_fails_tx:
  assumes "never_fails fn"
  shows "never_fails (tx fn)"
proof -
  have body: "never_fails (op_bind fn (\<lambda>x. op_bind (stmt (\<lambda>d. ((), d))) (\<lambda>_. op_ret x)))"
    by (intro never_fails_bind never_fails_stmt never_fails_ret assms)
  show ?thesis
    unfolding never_fails_def
  proof (intro allI impI)
    fix s :: store
    assume s: "st_faults s = []"
    obtain s1 where s1: "stmt (\<lambda>d. ((), d)) s = (Inr (), s1)" "st_faults s1 = []"
      using never_fails_stmt [of "\<lambda>d. ((), d)"] s unfolding never_fails_def by (metis old.unit.exhaust)
    then show "\<exists>x s'. tx fn s = (Inr x, s') \<and> st_faults s' = []"
      using body [unfolded never_fails_def, rule_format, OF s1(2)] by (auto simp: tx_def)
  qed
qed

lemma AppendBatch_nofault:
  assumes "\<forall>row\<in>set rows. ar_Descriptor row \<noteq> None \<and> ar_Payload row \<noteq> []" "st_faults s = []"
  obtains ids s' where "AppendBatch rows s = (Inr ids, s')" "st_faults s' = []"
proof -
  obtain ids s' where "rows \<noteq> [] \<Longrightarrow> tx (append_rows [] rows) s = (Inr ids, s')" "st_faults s' = []"
    using never_fails_tx [OF never_fails_append [of "[]" rows]] assms(2) unfolding never_fails_def by metis
  then show ?thesis
    using that assms by (cases "rows = []") (auto simp: AppendBatch_def op_ret_def staging_wrap_def op_wrap_def)
qed

text \<open>One record through the door of an open writer with room.\<close>

definition mirrored :: "'r DynamicWriter \<Rightarrow> Record \<Rightarrow> error option" where
  "mirrored w row = (case pl_onAccept (dw_plan w) of None \<Rightarrow> None
     | Some hook \<Rightarrow> map_option (\<lambda>e. EMirror (MirrorError (dw_Namespace w) (dw_Table w) e)) (hook row))"

lemma door_accepts:
  assumes "st_faults (ft_staging f) = []" "convert (dw_plan w) row = Inr b" "b \<noteq> []"
    and "\<not> wr_closed (sy_writer (ft_systems f key))" "acceptBatch 1 (int (length b)) (ft_store f) = (True, s)"
  obtains f' where "fleet_door key w [row] f = (mirrored w row, f')" "st_faults (ft_staging f') = []"
    "\<not> wr_closed (sy_writer (ft_systems f' key))" "ft_store f' = s"
    "ft_accepted f' = (ft_accepted f)(key := ft_accepted f key @ [row])"
proof -
  let ?p = "dw_plan w" and ?y = "seen_by key f"
  have seen: "sys_store ?y = ft_staging f" "sy_writer ?y = sy_writer (ft_systems f key)" "sy_store ?y = ft_store f"
    by (simp_all add: seen_by_def Let_def)
  obtain ids st where app: "AppendBatch [append_row ?p (fw_now (sy_world ?y)) b] (ft_staging f) = (Inr ids, st)" "st_faults st = []"
    using AppendBatch_nofault [of "[append_row ?p (fw_now (sy_world ?y)) b]" "ft_staging f"] assms(1,3)
    by (auto simp: append_row_def)
  have phase: "wr_phase (check_thresholds rv now x) = wr_phase x" for rv now and x :: "Record Writer"
    by (simp add: check_thresholds_def triggerLocked_def sealLocked_def)
  define y1 where "y1 = snd (stageBatch ?p [row] [b] ?y)"
  have stage: "stageBatch ?p [row] [b] ?y = (None, y1)"
    using assms(4,5) seen app by (simp add: y1_def stageBatch_def Let_def staging_call_def)
  have y1: "st_faults (sys_store y1) = []" "\<not> wr_closed (sy_writer y1)" "sy_store y1 = s"
      "wr_accepted (sy_writer y1) = wr_accepted (sy_writer (ft_systems f key)) + 1"
    using assms(4,5) seen app
    by (simp_all add: y1_def stageBatch_def Let_def staging_call_def wr_closed_def phase rememberBatch_def)
  obtain y2 where hook: "call_hook ?p [row] y1 = (mirrored w row, y2)" "sy_world y2 = sy_world y1" "sy_writer y2 = sy_writer y1"
      "sy_store y2 = sy_store y1"
    by (cases "pl_onAccept ?p"; cases "the (pl_onAccept ?p) row")
      (auto simp: mirrored_def Let_def dw_Namespace_def dw_Table_def)
  have "InsertBatch ?p [row] ?y = (mirrored w row, y2)"
    using assms(2,4) seen stage hook(1) by (simp add: InsertBatch_def res_bind_def)
  then show ?thesis
    using that y1 hook by (simp add: fleet_door_def put_back_def)
qed

section \<open>The promise\<close>

text \<open>C25: What a stream that goes wrong leaves. Of the rows each table has in the stream, in input order and up to the
  first record this layer refuses, a prefix has been accepted, each once and in order, whatever other goroutines do in between, however
  the ceiling halves and delays the writes, and whichever calls of the database fail. It is all of them when the call returns without an error and
  its context has not ended. When a record is refused, no record before it is left out, and of its own table none from it on is accepted.\<close>

theorem stream_promise:
  assumes "fleet_ok (pm_state y)" "\<forall>g\<in>set (pm_others y). \<forall>f. fleet_ok f \<longrightarrow> fleet_ok (g f) \<and> ft_accepted (g f) = ft_accepted f"
    and "opened_writers lb writers" "envelopes_ok el" "\<not> pm_ended y"
    and "readRecords dec taken (new_scanner (nat (io_MaxRecordBytes (resolved_options opts))) r) = (recs, failed)"
    and "IngestStream lb el dec writers opts r taken schedule y = (res, y')"
  shows "let its = items_of lb el writers t recs in \<exists>j\<le>length its.
      ft_accepted (pm_state y') t = ft_accepted (pm_state y) t @ map snd (take j its)
    \<and> (res = None \<and> \<not> pm_ended y' \<longrightarrow> j = length its \<and> readable lb el writers recs)
    \<and> (\<forall>k. refused_at res k \<longrightarrow> (\<forall>n\<in>fst ` set (drop j its). k \<le> n)
        \<and> (k \<in> fst ` set its \<longrightarrow> (\<forall>n\<in>fst ` set (take j its). n < k)))"
proof -
  note kept = stream_keeps_promise [OF assms, of t, unfolded kept_promise_def refused_ending]
  have none: "ending_of res y' = None \<longleftrightarrow> res = None \<and> \<not> pm_ended y'"
    by (cases res) (simp_all add: ending_of_def)
  show ?thesis
    using kept unfolding Let_def none by blast
qed

definition sample_record :: Record where
  "sample_record = [(''amount'', RString ''12.5''), (''id'', RNumber ''7'')]"

definition sample_library :: library where
  "sample_library = no_library\<lparr>lb_json := \<lambda>_. Inr (Some sample_record, False)\<rparr>"

definition sample_envelopes :: envelopes where
  "sample_envelopes = \<lparr>lb_jsonEnvelope = (\<lambda>b. Inr ((''ns.t'', b), False)), lb_cborEnvelope = (\<lambda>_. Inl (ErrOther ''cbor''))\<rparr>"

definition sample_writer :: "(Record \<Rightarrow> error option) option \<Rightarrow> unit DynamicWriter" where
  "sample_writer hook = \<lparr>dw_plan = \<lparr>pl_opts = flush_opts,
       pl_settings = \<lparr>rv_maxRecords = 2, rv_maxBytes = 1000, rv_interval = 60, rv_floor = 10\<rparr>,
       pl_Bind = Bind sample_library (newDynamicCodec ''ns'' ''t'' sample_descriptor), pl_onAccept = hook\<rparr>,
     dw_codec = newDynamicCodec ''ns'' ''t'' sample_descriptor\<rparr>"

definition sample_fleet :: fleet where
  "sample_fleet = (let store = \<lparr>sk_MaxRecords = 10, sk_MaxBytes = 100, sk_records = 1, sk_bytes = 18,
       sk_writers = [\<lparr>tid_Namespace = ''ns'', tid_Table = ''t''\<rparr> \<mapsto> liveWriter], sk_closed = False\<rparr> in
     \<lparr>ft_store = store, ft_staging = fw_store flush_start,
      ft_systems = (\<lambda>_. \<lparr>sy_store = store, sy_writer = new_writer 0, sy_world = flush_start, sy_called = []\<rparr>),
      ft_accepted = (\<lambda>_. [])\<rparr>)"

definition sample_pump :: "nat \<Rightarrow> fleet pump" where
  "sample_pump wakes = \<lparr>pm_state = sample_fleet, pm_others = [], pm_wakes = wakes, pm_ctx = [], pm_ended = False, pm_events = []\<rparr>"

definition sample_options :: IngestOptions where
  "sample_options = \<lparr>io_MaxRecordBytes = 0, io_ChunkMaxRecords = 0, io_ChunkMaxBytes = 0, io_ReadAhead = 0,
     io_BackoffMin = 0, io_BackoffMax = 0, io_OnNotice = True\<rparr>"

lemma sample_bound: "Bind sample_library (newDynamicCodec ''ns'' ''t'' sample_descriptor) sample_record = Inr sample_row"
proof -
  have "scaleDecimal ''12.5'' 2 = Inr 1250"
    using scaleDecimal_spelled [of "''12''" "''5''" 2 False]
    by (simp add: decimal_text_def allDigits_def is_digit_def digit_val_def Let_def)
  moreover have "ParseInt ''7'' = Inr 7"
    using ParseInt_digits [of "''7''"] by (simp add: allDigits_def is_digit_def digit_val_def)
  ultimately show ?thesis
    by (simp add: Bind_def byName_def newDynamicCodec_def sample_columns sample_fields_def bind_column_def coerce_def
        integer_def decimal_def sample_row_def sample_record_def)
qed

lemma sample_converts: "convert (dw_plan (sample_writer hook)) sample_record = Inr sample_payload"
proof -
  have "list_all2 unpoisoned (d_fields sample_descriptor) sample_row"
    by (simp add: unpoisoned_def sample_descriptor_def sample_fields_def sample_row_def)
  then show ?thesis
    by (simp add: convert_Inr sample_writer_def flush_opts_def sample_descriptor_ok sample_Encode sample_bound)
qed

text \<open>One attempt, and the loop over one record.\<close>

lemma try_insert_accepts:
  assumes "pm_others y = []" "st_faults (ft_staging (pm_state y)) = []" "convert (dw_plan w) row = Inr b" "b \<noteq> []"
    and "\<not> wr_closed (sy_writer (ft_systems (pm_state y) key))" "acceptBatch 1 (int (length b)) (ft_store (pm_state y)) = (True, s)"
  obtains f' where "try_insert fleet_door key w [row] y = (mirrored w row, y\<lparr>pm_state := f'\<rparr>)" "st_faults (ft_staging f') = []"
    "\<not> wr_closed (sy_writer (ft_systems f' key))" "ft_store f' = s"
    "ft_accepted f' = (ft_accepted (pm_state y))(key := ft_accepted (pm_state y) key @ [row])"
proof -
  obtain f' where "fleet_door key w [row] (pm_state y) = (mirrored w row, f')" "st_faults (ft_staging f') = []"
    "\<not> wr_closed (sy_writer (ft_systems f' key))" "ft_store f' = s"
    "ft_accepted f' = (ft_accepted (pm_state y))(key := ft_accepted (pm_state y) key @ [row])"
    using door_accepts [OF assms(2-6)] by blast
  moreover have "y\<lparr>pm_state := f', pm_others := tl (pm_others y)\<rparr> = y\<lparr>pm_state := f'\<rparr>"
    using assms(1) by (intro pump.equality) simp_all
  ultimately show ?thesis
    using that [of f'] assms(1) by (simp only: try_insert_def Let_def list.case prod.case simp_thms)
qed

lemma sample_pump_writes:
  obtains f' where "writeGroup fleet_door opts \<lparr>gr_key = ''ns.t'', gr_writer = sample_writer None, gr_rows = [sample_record], gr_numbers = [n]\<rparr>
      [sample_record] [n] chunk (sample_pump wakes) = (None, (sample_pump wakes)\<lparr>pm_state := f'\<rparr>)"
proof -
  have "acceptBatch 1 (int (length sample_payload)) (ft_store sample_fleet) = (True, snd (acceptBatch 1 (int (length sample_payload)) (ft_store sample_fleet)))"
    by (simp add: acceptBatch_def sample_fleet_def Let_def wrap64_def sample_payload_def)
  from try_insert_accepts [OF _ _ sample_converts _ _, of "sample_pump wakes" "''ns.t''" _ None] this
  obtain f' where "try_insert fleet_door ''ns.t'' (sample_writer None) [sample_record] (sample_pump wakes)
      = (mirrored (sample_writer None) sample_record, (sample_pump wakes)\<lparr>pm_state := f'\<rparr>)"
    by (force simp: sample_pump_def sample_fleet_def Let_def flush_start_def sample_payload_def new_writer_def wr_closed_def)
  then show ?thesis
    using that by (simp add: writeGroup_def write_loop.simps mirrored_def sample_writer_def)
qed

theorem stream_promise_witness:
  "\<exists>y'. IngestStream sample_library sample_envelopes empty_map [''ns.t'' \<mapsto> sample_writer None] sample_options
      [([0x7b, 0x7d, 10], ReadMore)] 3 [Some 1] (sample_pump 0) = (None, y')
    \<and> ft_accepted (pm_state y') ''ns.t'' = [sample_record]"
proof -
  let ?writers = "[''ns.t'' \<mapsto> sample_writer None]" and ?r = "[([0x7b, 0x7d, 10], ReadMore)] :: reader"
  let ?rec = "\<lparr>nr_number = 1, nr_line = 1, nr_json = True, nr_item = [0x7b, 0x7d]\<rparr>"
  have limit: "io_MaxRecordBytes (resolved_options sample_options) = 16777216"
    by (simp add: resolved_options_def sample_options_def or_default_def DefaultIngestMaxRecordBytes_def)
  have recs: "readRecords empty_map 3 (new_scanner (nat 16777216) ?r) = ([?rec], Some io_EOF)"
    using readRecords_new [OF empty_map_framing, where r = ?r and limit = "nat 16777216"] new_scanner_ok [of ?r "nat 16777216"]
    by (simp add: new_scanner_def numeral_3_eq_3 frame_def isRecordSpace_def json_frame_def Let_def strip_CR_def del: readRecords.simps)
  have read: "read_record sample_library sample_envelopes ?writers ?rec = Inr (''ns.t'', sample_writer None, sample_record)"
    by (simp add: read_record_def parseEnvelope_def sample_envelopes_def sample_library_def decodeLine_def lineOrNone_def)
  have chunk: "nextChunk (resolved_options sample_options) (Some 1) [?rec] = ([?rec], chunkEnded, [])"
    by (simp add: nextChunk_def drain.simps resolved_options_def sample_options_def or_default_def
        DefaultIngestChunkMaxRecords_def DefaultIngestChunkMaxBytes_def)
  obtain f' where "writeGroup fleet_door (resolved_options sample_options)
      \<lparr>gr_key = ''ns.t'', gr_writer = sample_writer None, gr_rows = [sample_record], gr_numbers = [1]\<rparr>
      [sample_record] [1] [?rec] (sample_pump 0) = (None, (sample_pump 0)\<lparr>pm_state := f'\<rparr>)"
    using sample_pump_writes by blast
  then have run: "IngestStream sample_library sample_envelopes empty_map ?writers sample_options ?r 3 [Some 1] (sample_pump 0)
      = (None, (sample_pump 0)\<lparr>pm_state := f'\<rparr>)"
    using recs read chunk
    by (simp add: IngestStream_def ingest_stream_def limit validate_options_def write_chunk_def groupChunk_def
        write_groups.simps(2) upTo_def Let_def)
      (simp add: resolved_options_def sample_options_def or_default_def DefaultIngestBackoffMin_def DefaultIngestBackoffMax_def)
  have "opened_writers sample_library ?writers" "envelopes_ok sample_envelopes" "fleet_ok sample_fleet"
    by (auto simp: opened_writers_def sample_writer_def envelopes_ok_def sample_envelopes_def fleet_ok_def own_faults_def
        sample_fleet_def Let_def flush_start_def errors_Is_def errIngestStopped_def unwrap_def split: if_splits)
  from stream_promise [OF _ _ this(1,2) _ recs [folded limit] run, of "''ns.t''"] this(3) show ?thesis
    using run read by (force simp: sample_pump_def sample_fleet_def Let_def)
qed

section \<open>A hook that speaks of another ceiling\<close>

definition room_for :: "nat \<Rightarrow> bytes \<Rightarrow> Store \<Rightarrow> bool" where
  "room_for n b s \<longleftrightarrow> 0 \<le> sk_records s \<and> sk_records s + int n \<le> sk_MaxRecords s \<and> sk_MaxRecords s < 2 ^ 62
     \<and> 0 \<le> sk_bytes s \<and> sk_bytes s + int n * int (length b) \<le> sk_MaxBytes s \<and> sk_MaxBytes s < 2 ^ 62"

lemma room_for_one:
  assumes "room_for (Suc n) b s"
  shows "\<exists>s'. acceptBatch 1 (int (length b)) s = (True, s') \<and> room_for n b s'"
proof -
  have sums: "sk_records s + 1 \<le> sk_MaxRecords s" "sk_bytes s + int (length b) + int n * int (length b) \<le> sk_MaxBytes s"
      "0 \<le> sk_records s" "0 \<le> sk_bytes s" "sk_MaxRecords s < 2 ^ 62" "sk_MaxBytes s < 2 ^ 62"
    using assms by (auto simp: room_for_def algebra_simps)
  moreover have "sk_bytes s + int (length b) \<le> sk_MaxBytes s"
    using sums(2) zero_le_mult_iff [of "int n" "int (length b)"] by linarith
  ultimately have "wrap64 (sk_records s + 1) = sk_records s + 1" "wrap64 (sk_bytes s + int (length b)) = sk_bytes s + int (length b)"
    by (auto intro!: wrap64_id simp: min_int64_def max_int64_def)
  then show ?thesis
    using sums assms \<open>sk_bytes s + int (length b) \<le> sk_MaxBytes s\<close> by (auto simp: acceptBatch_def room_for_def algebra_simps)
qed

lemma loop_repeats:
  assumes "mirrored w row = Some e" "errors_Is e ErrStagingFull" "convert (dw_plan w) row = Inr b" "b \<noteq> []"
    and "pm_others y = []" "st_faults (ft_staging (pm_state y)) = []" "\<not> wr_closed (sy_writer (ft_systems (pm_state y) key))"
    and "room_for (Suc (pm_wakes y)) b (ft_store (pm_state y))"
  shows "\<exists>y'. write_loop fleet_door opts key w chunk held pause 1 [row] [k] y = (Some errIngestStopped, y')
    \<and> ft_accepted (pm_state y') key = ft_accepted (pm_state y) key @ replicate (Suc (pm_wakes y)) row"
  using assms(5-)
proof (induction "pm_wakes y" arbitrary: y held pause)
  case 0
  obtain s where "acceptBatch 1 (int (length b)) (ft_store (pm_state y)) = (True, s)"
    using room_for_one [OF "0.prems"(4)] by blast
  then obtain f' where "try_insert fleet_door key w [row] y = (Some e, y\<lparr>pm_state := f'\<rparr>)"
      "ft_accepted f' = (ft_accepted (pm_state y))(key := ft_accepted (pm_state y) key @ [row])"
    using try_insert_accepts [OF "0.prems"(1,2) assms(3,4) "0.prems"(3)] assms(1) by metis
  then show ?case
    using "0.hyps" assms(2) by (simp add: write_loop.simps sleep_def)
next
  case (Suc n)
  obtain s where s: "acceptBatch 1 (int (length b)) (ft_store (pm_state y)) = (True, s)" "room_for (pm_wakes y) b s"
    using room_for_one [OF Suc.prems(4)] by blast
  then obtain f' where f': "try_insert fleet_door key w [row] y = (Some e, y\<lparr>pm_state := f'\<rparr>)" "st_faults (ft_staging f') = []"
      "\<not> wr_closed (sy_writer (ft_systems f' key))" "ft_store f' = s"
      "ft_accepted f' = (ft_accepted (pm_state y))(key := ft_accepted (pm_state y) key @ [row])"
    using try_insert_accepts [OF Suc.prems(1,2) assms(3,4) Suc.prems(3)] assms(1) by metis
  obtain y2 where y2: "sleep pause (if held then y\<lparr>pm_state := f'\<rparr> else notify_pump opts w chunk IngestNoticeHeld k (y\<lparr>pm_state := f'\<rparr>)) = (True, y2)"
      "pm_wakes y2 = n" "pm_others y2 = []" "pm_state y2 = f'"
    using Suc.hyps(2) Suc.prems(1) by (cases held) (auto simp: sleep_def)
  have "\<exists>y'. write_loop fleet_door opts key w chunk True (next_delay opts pause) 1 [row] [k] y2 = (Some errIngestStopped, y')
      \<and> ft_accepted (pm_state y') key = ft_accepted (pm_state y2) key @ replicate (Suc (pm_wakes y2)) row"
    by (rule Suc.hyps(1)) (use y2 f' s(2) Suc.hyps(2) in simp_all)
  moreover have "write_loop fleet_door opts key w chunk held pause 1 [row] [k] y
      = write_loop fleet_door opts key w chunk True (next_delay opts pause) 1 [row] [k] y2"
    using f'(1) y2(1) assms(2)
    by (cases held) (simp_all add: write_loop.simps [of _ _ _ _ _ _ pause "Suc 0" "[row]" "[k]" y])
  ultimately show ?case
    using y2 f'(5) Suc.hyps(2) by auto
qed

text \<open>A hook's error is taken for the staging ceiling's. When the \<open>OnAccept\<close> of a table answers with an error that wraps
  \<open>ErrStagingFull\<close>, as it does when it inserts into another store that is full, a record that was accepted, and is durable,
  is held to be refused: the stream sleeps, and inserts the same record again after each sleep for as long as it
  runs and its own store has room. One record of the input is staged once for every attempt.\<close>

theorem hook_error_repeats:
  assumes "pl_onAccept (dw_plan w) = Some hook" "hook row = Some e" "errors_Is e ErrStagingFull"
    and "convert (dw_plan w) row = Inr b" "b \<noteq> []" "room_for (Suc (pm_wakes y)) b (ft_store (pm_state y))"
    and "pm_others y = []" "st_faults (ft_staging (pm_state y)) = []" "\<not> wr_closed (sy_writer (ft_systems (pm_state y) key))"
  shows "\<exists>y'. writeGroup fleet_door opts \<lparr>gr_key = key, gr_writer = w, gr_rows = [row], gr_numbers = [k]\<rparr> [row] [k] chunk y
      = (Some errIngestStopped, y')
    \<and> ft_accepted (pm_state y') key = ft_accepted (pm_state y) key @ replicate (Suc (pm_wakes y)) row"
proof -
  have "mirrored w row = Some (EMirror (MirrorError (dw_Namespace w) (dw_Table w) e))"
    using assms(1,2) by (simp add: mirrored_def)
  moreover have "errors_Is (EMirror (MirrorError (dw_Namespace w) (dw_Table w) e)) ErrStagingFull"
    by (rule errors_Is_wrapped [OF _ assms(3)]) (simp add: unwrap_def)
  ultimately show ?thesis
    using loop_repeats [OF _ _ assms(4,5,7,8,9,6)] by (simp add: writeGroup_def)
qed

theorem hook_error_repeats_witness:
  "\<exists>y'. writeGroup fleet_door sample_options \<lparr>gr_key = ''ns.t'', gr_writer = sample_writer (Some (\<lambda>_. Some ErrStagingFull)),
        gr_rows = [sample_record], gr_numbers = [1]\<rparr> [sample_record] [1] [] (sample_pump 2) = (Some errIngestStopped, y')
    \<and> ft_accepted (pm_state y') ''ns.t'' = [sample_record, sample_record, sample_record]"
proof -
  have "pl_onAccept (dw_plan (sample_writer (Some (\<lambda>_. Some ErrStagingFull)))) = Some (\<lambda>_. Some ErrStagingFull)"
    by (simp add: sample_writer_def)
  from hook_error_repeats [OF this _ _ sample_converts, of ErrStagingFull "sample_pump 2" "''ns.t''" sample_options 1 "[]"]
  show ?thesis
    by (simp add: sample_pump_def sample_fleet_def Let_def room_for_def sample_payload_def flush_start_def wr_closed_def
        new_writer_def numeral_2_eq_2)
qed

end
