(* ===== verification/Schemamap.thy ===== *)
theory Schemamap
  imports Dynamic
begin

text \<open>The package \<open>internal/schemamap\<close>: the names of a table, the derivation of its three schemas from a tagged Go
  struct or from a list of columns, the checks in between, and the conversion of a batch's columns to the types of
  the data file. The four derivations of the Arrow and Iceberg libraries are the parameter \<open>derivation\<close>; what
  the source does before, between and after them is written out.\<close>

section \<open>Names: \<open>name.go\<close>\<close>

definition MaxNameLength :: nat where "MaxNameLength = 63"

definition char_code :: "char \<Rightarrow> nat" where
  "char_code c = of_char c"

definition ValidateName :: "NameKind \<Rightarrow> string \<Rightarrow> error option" where
  "ValidateName kind v =
    (let bad = EName (NameError kind v) in
     if v = [] \<or> length v > MaxNameLength then Some bad
     else first_error (\<lambda>(i, c).
       if 97 \<le> char_code c \<and> char_code c \<le> 122 then None
       else if 48 \<le> char_code c \<and> char_code c \<le> 57 then None
       else if c = CHR ''_'' \<and> i > 0 then None
       else Some bad) (enumerate 0 v))"

section \<open>Go types: \<open>declare.go\<close>\<close>

text \<open>\<open>reflect.Type\<close>, as far as the checks ask: its kind, and for a pointer or a slice the element type.\<close>

datatype (plugins only: size code) reflect_Kind =
  Invalid | Bool | Int | Int8 | Int16 | Int32 | Int64 | Uint | Uint8 | Uint16 | Uint32 | Uint64 | Uintptr
| Float32 | Float64 | Complex64 | Complex128 | Array | Chan | Func | Interface | Map | Pointer | Slice | String
| Struct | UnsafePointer

datatype (plugins only: size code) go_type = GoType (rt_Kind: reflect_Kind) (rt_Elem: "go_type option")

record StructField =
  sf_Name :: string
  sf_Exported :: bool
  sf_Type :: go_type
  sf_arrow :: "string option"

record decl_type =
  dt_Kind :: reflect_Kind
  dt_Fields :: "StructField list"

datatype goTypeVerdict = goTypeRefused | goTypeDeclarable | goTypeDeferred

definition indirect_type :: "go_type \<Rightarrow> go_type" where
  "indirect_type t = (if rt_Kind t = Pointer then the (rt_Elem t) else t)"

definition goFieldTypeVerdict :: "go_type \<Rightarrow> goTypeVerdict" where
  "goFieldTypeVerdict t0 =
    (let t = indirect_type t0; k = rt_Kind t in
     if k \<in> {Bool, Int32, Int64, Float32, Float64, String} then goTypeDeclarable
     else if k = Slice then if rt_Kind (the (rt_Elem t)) = Uint8 then goTypeDeclarable else goTypeDeferred
     else if k \<in> {Struct, Array, Map, Chan, Func, Interface, UnsafePointer} then goTypeDeferred
     else goTypeRefused)"

definition checkGoFieldTypes :: "string \<Rightarrow> decl_type \<Rightarrow> error option" where
  "checkGoFieldTypes tableName dt = first_error (\<lambda>f.
     if goFieldTypeVerdict (sf_Type f) = goTypeRefused
     then Some (NewUnsupportedGoTypeError tableName (sf_Name f)) else None) (dt_Fields dt)"

section \<open>Arrow schemas\<close>

text \<open>The data types of the Arrow library, as far as the code tells them apart: \<open>OTHER\<close> names one it never asks
  for and says whether it is nested. A field carries the text under the metadata key \<open>PARQUET:field_id\<close>.\<close>

datatype (plugins only: size code) TimeUnit = Second | Millisecond | Microsecond | Nanosecond

datatype (plugins only: size code) arrow_type =
  BOOL | INT32 | INT64 | FLOAT32 | FLOAT64 | STRING | BINARY
| TIMESTAMP TimeUnit string | DECIMAL128 int int | STRUCT "arrow_field list" | OTHER string bool
and arrow_field = ArrowField (af_Name: string) (af_Type: arrow_type) (af_Nullable: bool) (af_FieldID: "string option")

fun IsNested :: "arrow_type \<Rightarrow> bool" where
  "IsNested (STRUCT _) = True"
| "IsNested (OTHER _ n) = n"
| "IsNested _ = False"

definition rejectNested :: "string \<Rightarrow> arrow_field list \<Rightarrow> error option" where
  "rejectNested tableName sc = first_error (\<lambda>f.
     if IsNested (af_Type f) then Some (NewCrossCheckError tableName (af_Name f)) else None) sc"

text \<open>\<open>strconv.Atoi\<close> of the metadata text; a missing or unreadable one is \<open>-1\<close>.\<close>

definition declaredFieldID :: "arrow_field \<Rightarrow> int" where
  "declaredFieldID f = (case af_FieldID f of
      None \<Rightarrow> -1
    | Some raw \<Rightarrow> (case ParseInt raw of Inl e \<Rightarrow> -1 | Inr n \<Rightarrow> n))"

text \<open>The closure \<open>walk\<close> with the counter it shares.\<close>

definition struct_fields :: "arrow_type \<Rightarrow> arrow_field list" where
  "struct_fields t = (case t of STRUCT sub \<Rightarrow> sub | _ \<Rightarrow> [])"

lemma struct_fields_size: "size_list size (struct_fields t) < Suc (size t)" for t :: arrow_type
  by (cases t) (auto simp: struct_fields_def)

lemma field_size: "size f = Suc (size (af_Type f))" for f :: arrow_field
  by (cases f) simp

function preorder_walk :: "string \<Rightarrow> int \<Rightarrow> arrow_field list \<Rightarrow> error option \<times> int" where
  "preorder_walk tableName k [] = (None, k)"
| "preorder_walk tableName k (f # fs) =
    (if declaredFieldID f \<noteq> k
     then (Some (EFieldID (FieldIDError tableName (af_Name f) (declaredFieldID f) k)), k + 1)
     else case preorder_walk tableName (k + 1) (struct_fields (af_Type f)) of
       (Some e, k') \<Rightarrow> (Some e, k')
     | (None, k') \<Rightarrow> preorder_walk tableName k' fs)"
  by pat_completeness auto

termination
proof (relation "measure (\<lambda>(_, _, fs). size_list size fs)", goal_cases)
  case (2 tableName k f fs)
  then show ?case
    using struct_fields_size [of "af_Type f"] by (simp add: field_size)
qed simp_all

definition checkPreorderFieldIDs :: "string \<Rightarrow> arrow_field list \<Rightarrow> error option" where
  "checkPreorderFieldIDs tableName sc = fst (preorder_walk tableName 1 sc)"

section \<open>Conversions: \<open>crosscheck.go\<close>, \<open>adapt.go\<close>, \<open>storage.go\<close>\<close>

datatype adaptKind = adaptUnsupported | adaptIdentity | adaptTimestampMillisUTC | adaptDecimal128 | adaptTimestampMicrosUTC

text \<open>\<open>arrow.TypeEqual\<close> on flat types, which is what it is asked about: the declared side has passed
  \<open>rejectNested\<close>.\<close>

definition adaptationFor :: "arrow_type \<Rightarrow> arrow_type \<Rightarrow> adaptKind" where
  "adaptationFor have_type want =
    (if have_type = want then adaptIdentity
     else if have_type \<noteq> INT64 then adaptUnsupported
     else case want of
       TIMESTAMP unit zone \<Rightarrow> if unit = Millisecond \<and> zone = ''UTC'' then adaptTimestampMillisUTC else adaptUnsupported
     | DECIMAL128 p s \<Rightarrow> adaptDecimal128
     | _ \<Rightarrow> adaptUnsupported)"

definition storageAdaptationFor :: "arrow_type \<Rightarrow> arrow_type \<Rightarrow> adaptKind" where
  "storageAdaptationFor have_type want =
    (if have_type = INT64 \<and> want = TIMESTAMP Microsecond ''UTC'' then adaptTimestampMicrosUTC
     else adaptationFor have_type want)"

definition widen_type :: "arrow_type \<Rightarrow> arrow_type" where
  "widen_type t = (if t = TIMESTAMP Millisecond ''UTC'' then TIMESTAMP Microsecond ''UTC'' else t)"

definition FileSchema :: "arrow_field list \<Rightarrow> arrow_field list" where
  "FileSchema declared =
    map (\<lambda>f. ArrowField (af_Name f) (widen_type (af_Type f)) (af_Nullable f) (af_FieldID f)) declared"

definition crossCheck_column :: "string \<Rightarrow> arrow_field \<times> arrow_field \<Rightarrow> error option" where
  "crossCheck_column tableName = (\<lambda>(d, inf).
     if af_Name d \<noteq> af_Name inf then Some (NewCrossCheckError tableName (af_Name d))
     else if af_Nullable d \<noteq> af_Nullable inf then Some (NewCrossCheckError tableName (af_Name d))
     else if adaptationFor (af_Type inf) (af_Type d) = adaptUnsupported
       then Some (NewCrossCheckError tableName (af_Name d))
     else None)"

definition derivationError :: "string \<Rightarrow> string \<Rightarrow> error \<Rightarrow> error" where
  "derivationError tableName during err =
    EDeclaration (DeclarationError tableName '''' DeclarationKindDerivation (Some (ErrWrap during err)))"

text \<open>\<open>crossCheck\<close>, given what \<open>arreflect.InferSchema\<close> answers for the struct.\<close>

definition crossCheck :: "(error, arrow_field list) result \<Rightarrow> string \<Rightarrow> arrow_field list \<Rightarrow> error option" where
  "crossCheck infer tableName declared =
    (case infer of
       Inl e \<Rightarrow> Some (derivationError tableName ''inferring arrow schema from row data'' e)
     | Inr inferred \<Rightarrow>
         (case first_error (crossCheck_column tableName) (zip declared inferred) of
            Some e \<Rightarrow> Some e
          | None \<Rightarrow>
              if length declared > length inferred
              then Some (NewCrossCheckError tableName (af_Name (declared ! length inferred)))
              else if length inferred > length declared
              then Some (NewCrossCheckError tableName (af_Name (inferred ! length declared)))
              else None))"

text \<open>A column as Arrow holds it after the conversion; \<open>arrow_array\<close> is what the row data gives. A null slot is
  \<open>None\<close>; a 128-bit decimal is its high and its low half.\<close>

datatype column =
  Untouched arrow_array
| Timestamps TimeUnit string "64 word option list"
| Decimal128s int int "(64 word \<times> 64 word) option list"

fun DataType :: "arrow_array \<Rightarrow> arrow_type" where
  "DataType (ABools _) = BOOL"
| "DataType (AInt32s _) = INT32"
| "DataType (AInt64s _) = INT64"
| "DataType (AFloat32s _) = FLOAT32"
| "DataType (AFloat64s _) = FLOAT64"
| "DataType (AStrings _) = STRING"
| "DataType (ABinaries _) = BINARY"

fun array_type :: "column \<Rightarrow> arrow_type" where
  "array_type (Untouched a) = DataType a"
| "array_type (Timestamps u z _) = TIMESTAMP u z"
| "array_type (Decimal128s p s _) = DECIMAL128 p s"

definition int64_slots :: "arrow_array \<Rightarrow> 64 word option list" where
  "int64_slots col = (case col of AInt64s vs \<Rightarrow> vs | _ \<Rightarrow> [])"

definition rescale_value :: "64 word \<Rightarrow> 64 word" where
  "rescale_value v = v * 1000"

definition sign_extend :: "64 word \<Rightarrow> 64 word \<times> 64 word" where
  "sign_extend v = (signed_drop_bit 63 v, v)"

definition rewrapAsTimestamp :: "64 word option list \<Rightarrow> TimeUnit \<Rightarrow> string \<Rightarrow> column" where
  "rewrapAsTimestamp vs u z = Timestamps u z vs"

definition rescaleTimestamp :: "64 word option list \<Rightarrow> TimeUnit \<Rightarrow> string \<Rightarrow> column" where
  "rescaleTimestamp vs u z = Timestamps u z (map (map_option rescale_value) vs)"

definition signExtendToDecimal128 :: "64 word option list \<Rightarrow> int \<Rightarrow> int \<Rightarrow> column" where
  "signExtendToDecimal128 vs p s = Decimal128s p s (map (map_option sign_extend) vs)"

definition AdaptColumn :: "string \<Rightarrow> string \<Rightarrow> arrow_array \<Rightarrow> arrow_type \<Rightarrow> (error, column) result" where
  "AdaptColumn tableName name col want =
    (case storageAdaptationFor (DataType col) want of
       adaptIdentity \<Rightarrow> Inr (Untouched col)
     | adaptTimestampMillisUTC \<Rightarrow>
         (case want of TIMESTAMP u z \<Rightarrow> Inr (rewrapAsTimestamp (int64_slots col) u z))
     | adaptTimestampMicrosUTC \<Rightarrow>
         (case want of TIMESTAMP u z \<Rightarrow> Inr (rescaleTimestamp (int64_slots col) u z))
     | adaptDecimal128 \<Rightarrow>
         (case want of DECIMAL128 p s \<Rightarrow> Inr (signExtendToDecimal128 (int64_slots col) p s))
     | adaptUnsupported \<Rightarrow> Inl (NewCrossCheckError tableName name))"

section \<open>Derivation: \<open>declare.go\<close>, \<open>fields.go\<close>\<close>

text \<open>A Parquet node by the arguments of the constructor that builds it: \<open>pn_Logical\<close> is \<open>None\<close> for the
  converted-type constructor with no annotation.\<close>

datatype (plugins only: size code) LogicalType =
  IntLogical int bool | DecimalLogical "32 word" "32 word" | TimestampLogical bool TimeUnit | StringLogical

datatype (plugins only: size code) parquet_Type = Boolean | PInt32 | PInt64 | Float | Double | ByteArray

record parquet_node =
  pn_Name :: string
  pn_Required :: bool
  pn_Logical :: "LogicalType option"
  pn_Physical :: parquet_Type
  pn_ID :: "32 word"

text \<open>The library: the tag parser, the group of a list of nodes, the check of one node's annotation, the two
  conversions and the inference from the Go type.\<close>

record 'p derivation =
  NewSchemaFromStruct :: "decl_type \<Rightarrow> (error, 'p) result"
  NewGroupNode :: "string \<Rightarrow> parquet_node list \<Rightarrow> (error, 'p) result"
  NewPrimitiveNode :: "parquet_node \<Rightarrow> error option"
  FromParquet :: "'p \<Rightarrow> (error, arrow_field list) result"
  ArrowSchemaToIceberg :: "arrow_field list \<Rightarrow> (error, NestedField list) result"
  InferSchema :: "decl_type \<Rightarrow> (error, arrow_field list) result"

record 'p Declaration =
  decl_namespace :: string
  decl_table :: string
  decl_parquet :: 'p
  decl_arrow :: "arrow_field list"
  decl_iceberg :: "NestedField list"

definition derive :: "'p derivation \<Rightarrow> string \<Rightarrow> string \<Rightarrow> 'p \<Rightarrow> (error, 'p Declaration) result" where
  "derive lib namespace tableName parquetSchema =
    (case FromParquet lib parquetSchema of
       Inl e \<Rightarrow> Inl (derivationError tableName ''deriving arrow schema'' e)
     | Inr arrowSchema \<Rightarrow>
         if arrowSchema = [] then Inl (EDeclaration (DeclarationError tableName '''' DeclarationKindNoFields None))
         else case rejectNested tableName arrowSchema of
           Some e \<Rightarrow> Inl e
         | None \<Rightarrow>
             (case checkPreorderFieldIDs tableName arrowSchema of
                Some e \<Rightarrow> Inl e
              | None \<Rightarrow>
                  (case ArrowSchemaToIceberg lib arrowSchema of
                     Inl e \<Rightarrow> Inl (derivationError tableName ''deriving iceberg schema'' e)
                   | Inr icebergSchema \<Rightarrow>
                       Inr \<lparr>decl_namespace = namespace, decl_table = tableName, decl_parquet = parquetSchema,
                            decl_arrow = arrowSchema, decl_iceberg = icebergSchema\<rparr>)))"

definition check_names :: "string \<Rightarrow> string \<Rightarrow> error option" where
  "check_names namespace tableName =
    (case ValidateName NameKindNamespace namespace of Some e \<Rightarrow> Some e | None \<Rightarrow> ValidateName NameKindTable tableName)"

definition check_exported :: "string \<Rightarrow> decl_type \<Rightarrow> error option" where
  "check_exported tableName dt = first_error (\<lambda>f.
     if \<not> sf_Exported f
     then Some (EDeclaration (DeclarationError tableName (sf_Name f) DeclarationKindUnexportedField None))
     else None) (dt_Fields dt)"

definition Declare :: "'p derivation \<Rightarrow> string \<Rightarrow> string \<Rightarrow> decl_type \<Rightarrow> (error, 'p Declaration) result" where
  "Declare lib namespace tableName dt =
    (case check_names namespace tableName of
       Some e \<Rightarrow> Inl e
     | None \<Rightarrow>
         if dt_Kind dt \<noteq> Struct
         then Inl (EDeclaration (DeclarationError tableName '''' DeclarationKindNotStruct None))
         else case check_exported tableName dt of
           Some e \<Rightarrow> Inl e
         | None \<Rightarrow>
             (case checkGoFieldTypes tableName dt of
                Some e \<Rightarrow> Inl e
              | None \<Rightarrow>
                  (case NewSchemaFromStruct lib dt of
                     Inl e \<Rightarrow> Inl (derivationError tableName ''deriving parquet schema'' e)
                   | Inr p \<Rightarrow>
                       res_bind (derive lib namespace tableName p) (\<lambda>decl.
                       case crossCheck (InferSchema lib dt) tableName (decl_arrow decl) of
                         Some e \<Rightarrow> Inl e
                       | None \<Rightarrow> Inr decl))))"

text \<open>The constructor call of \<open>primitiveNode\<close> for a column type: its annotation and its physical type; \<open>None\<close> is
  the default arm.\<close>

definition node_of_type :: "iceberg_type \<Rightarrow> (LogicalType option \<times> parquet_Type) option" where
  "node_of_type t = (case t of
      BooleanType \<Rightarrow> Some (None, Boolean)
    | Int32Type \<Rightarrow> Some (Some (IntLogical 32 True), PInt32)
    | Int64Type \<Rightarrow> Some (Some (IntLogical 64 True), PInt64)
    | Float32Type \<Rightarrow> Some (None, Float)
    | Float64Type \<Rightarrow> Some (None, Double)
    | DecimalType p s \<Rightarrow> Some (Some (DecimalLogical (word_of_int p) (word_of_int s)), PInt64)
    | TimestampTzType \<Rightarrow> Some (Some (TimestampLogical True Millisecond), PInt64)
    | StringType \<Rightarrow> Some (Some StringLogical, ByteArray)
    | BinaryType \<Rightarrow> Some (None, ByteArray)
    | OtherType _ \<Rightarrow> None)"

definition primitiveNode :: "'p derivation \<Rightarrow> string \<Rightarrow> NestedField \<Rightarrow> (error, parquet_node) result" where
  "primitiveNode lib tableName f =
    (case node_of_type (nf_Type f) of
       None \<Rightarrow> Inl (EDeclaration (DeclarationError tableName (nf_Name f) DeclarationKindDerivation
                 (Some (ErrOther ''no declaration source can state this type''))))
     | Some (lt, physical) \<Rightarrow>
         let node = \<lparr>pn_Name = nf_Name f, pn_Required = nf_Required f, pn_Logical = lt, pn_Physical = physical,
                     pn_ID = word_of_int (nf_ID f)\<rparr> in
         case NewPrimitiveNode lib node of
           Some e \<Rightarrow> Inl (derivationError tableName ''building the parquet node'' e)
         | None \<Rightarrow> Inr node)"

definition DeclareFields :: "'p derivation \<Rightarrow> string \<Rightarrow> string \<Rightarrow> NestedField list \<Rightarrow> (error, 'p Declaration) result" where
  "DeclareFields lib namespace tableName flds =
    (case check_names namespace tableName of
       Some e \<Rightarrow> Inl e
     | None \<Rightarrow>
         if flds = [] then Inl (EDeclaration (DeclarationError tableName '''' DeclarationKindNoFields None))
         else res_bind (map_result (primitiveNode lib tableName) flds) (\<lambda>nodes.
           case NewGroupNode lib tableName nodes of
             Inl e \<Rightarrow> Inl (derivationError tableName ''building the parquet schema'' e)
           | Inr p \<Rightarrow> derive lib namespace tableName p))"

definition DeclareFromDescriptor :: "'p derivation \<Rightarrow> string \<Rightarrow> string \<Rightarrow> NestedField list \<Rightarrow> (error, 'p Declaration) result" where
  "DeclareFromDescriptor = DeclareFields"

end
