(* ===== verification/SchemamapProps.thy ===== *)
theory SchemamapProps
  imports Schemamap
begin

text \<open>What an accepted declaration guarantees: its names, its field ids, and that every column the struct's rows
  arrive at has a conversion to the type of the data file.\<close>

section \<open>Names\<close>

definition name_ok :: "string \<Rightarrow> bool" where
  "name_ok v \<longleftrightarrow> v \<noteq> [] \<and> length v \<le> MaxNameLength \<and> hd v \<noteq> CHR ''_'' \<and>
     (\<forall>c\<in>set v. 97 \<le> char_code c \<and> char_code c \<le> 122 \<or> 48 \<le> char_code c \<and> char_code c \<le> 57 \<or> c = CHR ''_'')"

lemma set_enumerate_snd: "snd ` set (enumerate n xs) = set xs"
  by (metis list.set_map map_snd_enumerate)

lemma enumerate_all:
  "(\<forall>p\<in>set (enumerate 0 (c # cs)). case p of (i, x) \<Rightarrow> Q x \<or> x = u \<and> i > 0) \<longleftrightarrow>
    Q c \<and> (\<forall>x\<in>set cs. Q x \<or> x = u)" for u :: 'a
proof -
  have "(\<forall>p\<in>set (enumerate (Suc 0) cs). case p of (i, x) \<Rightarrow> Q x \<or> x = u \<and> i > 0) \<longleftrightarrow> (\<forall>x\<in>set cs. Q x \<or> x = u)"
    by (subst (2) set_enumerate_snd [symmetric, where n = "Suc 0"]) (auto simp: in_set_enumerate_eq)
  then show ?thesis by simp
qed

lemma first_error_const: "first_error (\<lambda>x. if P x then None else Some e) xs = None \<longleftrightarrow> (\<forall>x\<in>set xs. P x)"
  by simp

definition plain_char :: "char \<Rightarrow> bool" where
  "plain_char c \<longleftrightarrow> 97 \<le> char_code c \<and> char_code c \<le> 122 \<or> 48 \<le> char_code c \<and> char_code c \<le> 57"

lemma ValidateName_plain: "ValidateName kind v =
    (if v = [] \<or> length v > MaxNameLength then Some (EName (NameError kind v))
     else first_error (\<lambda>p. if case p of (i, c) \<Rightarrow> plain_char c \<or> c = CHR ''_'' \<and> i > 0 then None
                           else Some (EName (NameError kind v))) (enumerate 0 v))"
  unfolding ValidateName_def Let_def plain_char_def
  by (intro if_cong refl arg_cong2 [where f = first_error]) (auto simp: fun_eq_iff)

lemma ValidateName_iff: "ValidateName kind v = None \<longleftrightarrow> name_ok v"
proof (cases v)
  case (Cons c cs)
  have "\<not> plain_char CHR ''_''" by (simp add: plain_char_def char_code_def)
  then show ?thesis
    unfolding ValidateName_plain Cons name_ok_def plain_char_def [symmetric] first_error_const if_split_eq1 enumerate_all
    by (auto simp: plain_char_def)
qed (simp add: ValidateName_def name_ok_def)

lemma ValidateName_error: "ValidateName kind v = Some e \<Longrightarrow> e = EName (NameError kind v)"
  by (auto simp: ValidateName_def Let_def split: if_splits elim!: first_error_Some)

lemma name_no_dot: "name_ok v \<Longrightarrow> CHR ''.'' \<notin> set v" "name_ok v \<Longrightarrow> CHR ''/'' \<notin> set v"
  by (auto simp: name_ok_def char_code_def)

text \<open>Two tables never share \<open>namespace.table\<close>.\<close>

lemma dotted_inject:
  assumes "name_ok a" "name_ok a'" "a @ ''.'' @ b = a' @ ''.'' @ b'"
  shows "a = a' \<and> b = b'"
proof -
  have head: "takeWhile (\<lambda>c. c \<noteq> CHR ''.'') (x @ ''.'' @ y) = x" if "name_ok x" for x y
    using name_no_dot(1) [OF that] by (subst takeWhile_append2) auto
  from assms head [of a b] head [of a' b'] show ?thesis by simp
qed

section \<open>Field ids\<close>

lemma preorder_flat:
  assumes "\<forall>f\<in>set fs. \<not> IsNested (af_Type f)"
  shows "fst (preorder_walk t k fs) = None \<longleftrightarrow> map declaredFieldID fs = map (\<lambda>i. k + int i) [0..<length fs]"
  using assms
proof (induction fs arbitrary: k)
  case (Cons f fs)
  have sub: "struct_fields (af_Type f) = []"
    using Cons.prems by (cases "af_Type f") (auto simp: struct_fields_def)
  have "map (\<lambda>i. k + int i) [0..<length (f # fs)] = k # map (\<lambda>i. k + 1 + int i) [0..<length fs]"
    by (simp add: upt_conv_Cons map_Suc_upt [symmetric] add_ac comp_def del: upt_Suc)
  with Cons sub show ?case by auto
qed simp

lemma checkPreorder_iff:
  assumes "rejectNested t sc = None"
  shows "checkPreorderFieldIDs t sc = None \<longleftrightarrow> map declaredFieldID sc = map int [1..<Suc (length sc)]"
proof -
  have "\<forall>f\<in>set sc. \<not> IsNested (af_Type f)"
    using assms by (auto simp: rejectNested_def split: if_splits)
  then show ?thesis
    by (simp add: checkPreorderFieldIDs_def preorder_flat map_Suc_upt [symmetric] comp_def del: upt_Suc)
qed

lemma derive_ok:
  assumes "derive lib ns t p = Inr decl"
  shows "FromParquet lib p = Inr (decl_arrow decl)" "decl_arrow decl \<noteq> []" "rejectNested t (decl_arrow decl) = None"
    "map declaredFieldID (decl_arrow decl) = map int [1..<Suc (length (decl_arrow decl))]"
    "ArrowSchemaToIceberg lib (decl_arrow decl) = Inr (decl_iceberg decl)" "decl_namespace decl = ns" "decl_table decl = t"
  using assms checkPreorder_iff [of t "decl_arrow decl"]
  by (auto simp: derive_def split: sum.splits if_splits option.splits)

lemma Declare_ok:
  assumes "Declare lib ns t dt = Inr decl"
  obtains p where "check_names ns t = None" "dt_Kind dt = Struct" "check_exported t dt = None"
    "checkGoFieldTypes t dt = None" "NewSchemaFromStruct lib dt = Inr p" "derive lib ns t p = Inr decl"
    "crossCheck (InferSchema lib dt) t (decl_arrow decl) = None"
  using assms by (auto simp: Declare_def res_bind_eq_Inr split: sum.splits if_splits option.splits)

section \<open>The two whitelists\<close>

lemma adaptation_widened:
  "adaptationFor a d \<noteq> adaptUnsupported \<Longrightarrow> a \<noteq> TIMESTAMP Millisecond ''UTC'' \<Longrightarrow>
    storageAdaptationFor a (widen_type d) \<noteq> adaptUnsupported"
  by (auto simp: adaptationFor_def storageAdaptationFor_def widen_type_def split: if_splits arrow_type.splits)

lemma AdaptColumn_type:
  "storageAdaptationFor (DataType col) want \<noteq> adaptUnsupported \<Longrightarrow>
    \<exists>c. AdaptColumn t n col want = Inr c \<and> array_type c = want"
  by (cases "DataType col = want"; cases want)
    (auto simp: AdaptColumn_def storageAdaptationFor_def adaptationFor_def rewrapAsTimestamp_def
      rescaleTimestamp_def signExtendToDecimal128_def split: if_splits)

lemma crossCheck_ok:
  assumes "crossCheck infer t declared = None"
  obtains inferred where "infer = Inr inferred" "length inferred = length declared"
    "\<forall>i<length declared. crossCheck_column t (declared ! i, inferred ! i) = None"
proof -
  obtain inferred where inf: "infer = Inr inferred"
    using assms by (cases infer) (auto simp: crossCheck_def)
  have len: "length inferred = length declared"
    and cols: "\<forall>p\<in>set (zip declared inferred). crossCheck_column t p = None"
    using assms by (auto simp: crossCheck_def inf split: option.splits if_splits)
  show ?thesis
    by (rule that [OF inf len]) (use cols len in \<open>auto simp: in_set_zip\<close>)
qed

section \<open>Values\<close>

section \<open>Values\<close>

lemma sint_range64: "- (2 ^ 63) \<le> sint v" "sint v < 2 ^ 63" for v :: "64 word"
  using sint_ge [of v] sint_lt [of v] by simp_all

lemma rescale_value_iff:
  "sint (rescale_value v) = sint v * 1000 \<longleftrightarrow> \<bar>sint v\<bar> \<le> 9223372036854775"
proof -
  have "sint (rescale_value v) = signed_take_bit 63 (sint v * 1000)"
    by (simp add: rescale_value_def sint_word_ariths)
  moreover have "signed_take_bit 63 (sint v * 1000) = sint v * 1000 \<longleftrightarrow> \<bar>sint v\<bar> \<le> 9223372036854775"
    by (simp add: signed_take_bit_int_eq_self_iff abs_le_iff) linarith
  ultimately show ?thesis by simp
qed

lemma div_range64:
  assumes "- (2 ^ 63) \<le> x" "x < 2 ^ 63"
  shows "x div 2 ^ 63 = x div (2 ^ 64 :: int)"
proof (cases "0 \<le> x")
  case False
  with assms have "x div 2 ^ 63 = - 1" "x div 2 ^ 64 = - 1"
    by (auto intro: int_div_pos_eq [where r = "x + 2 ^ 63"] int_div_pos_eq [where r = "x + 2 ^ 64"])
  then show ?thesis by simp
qed (use assms in auto)

lemma sign_extend_value: "sign_extend v = (hi, lo) \<Longrightarrow> sint hi * 2 ^ 64 + uint lo = sint v"
proof -
  assume "sign_extend v = (hi, lo)"
  then have hi: "sint hi = sint v div 2 ^ 63" and lo: "uint lo = sint v mod 2 ^ 64"
    by (auto simp: sign_extend_def sint_signed_drop_bit_eq drop_bit_eq_div uint_sint take_bit_eq_mod)
  have "sint v div 2 ^ 63 = sint v div 2 ^ 64"
    by (rule div_range64 [OF sint_range64])
  then show ?thesis
    unfolding hi lo by simp
qed

end
