(* ===== verification/Bind.thy ===== *)
theory Bind
  imports SchemamapProps
begin

text \<open>File \<open>bind.go\<close>: the struct half of \<open>rowCodec\<close>, between a caller's declaration struct and the canonical row, and
  the two \<open>Build\<close> methods that turn a batch's decoded rows into the columns of its data file. A struct value is the
  list of its fields, a field a value or a pointer to one. Reading a \<open>float32\<close> through \<open>reflect\<close> widens it to
  \<open>float64\<close> and narrows it back, which the processor does by setting the quiet bit of a NaN.\<close>

section \<open>Struct values\<close>

datatype (plugins only: size code) field_value = Direct gvalue | Ptr "gvalue option"

type_synonym struct_value = "field_value list"

definition is_NaN32 :: "32 word \<Rightarrow> bool" where
  "is_NaN32 b \<longleftrightarrow> drop_bit 23 (take_bit 31 b) = 0xFF \<and> take_bit 23 b \<noteq> 0"

definition quiet32 :: "32 word \<Rightarrow> 32 word" where
  "quiet32 b = (if is_NaN32 b then set_bit 22 b else b)"

section \<open>The struct codec\<close>

record boundField =
  bf_index :: nat
  bf_column :: Field
  bf_pointer :: bool
  bf_elem :: go_type

record struct_codec =
  bd_table :: string
  bd_fields :: "boundField list"
  bd_file :: "arrow_field list"
  bd_type :: decl_type

definition rowDataColumnName :: "StructField \<Rightarrow> string" where
  "rowDataColumnName f = (case sf_arrow f of
      None \<Rightarrow> sf_Name f
    | Some tag \<Rightarrow> let name = takeWhile (\<lambda>c. c \<noteq> CHR '','') tag in if name = [] then sf_Name f else name)"

definition kindHoldsColumn :: "reflect_Kind \<Rightarrow> Kind \<Rightarrow> bool" where
  "kindHoldsColumn k c = (case c of
      KindBoolean \<Rightarrow> k = Bool
    | KindInt \<Rightarrow> k = Int32
    | KindLong \<Rightarrow> k = Int64
    | KindDecimal \<Rightarrow> k = Int64
    | KindTimestampTz \<Rightarrow> k = Int64
    | KindFloat \<Rightarrow> k = Float32
    | KindDouble \<Rightarrow> k = Float64
    | KindString \<Rightarrow> k = String
    | KindBinary \<Rightarrow> k = Slice
    | KindOther _ \<Rightarrow> False)"

text \<open>The map \<open>byName\<close>, filled in field order: a later field of the same name replaces an earlier one.\<close>

definition index_by_name :: "decl_type \<Rightarrow> string \<Rightarrow> nat option" where
  "index_by_name dt = map_of (rev (map (\<lambda>(i, f). (rowDataColumnName f, i))
     (filter (\<lambda>(i, f). sf_Exported f) (enumerate 0 (dt_Fields dt)))))"

definition bind_field :: "string \<Rightarrow> decl_type \<Rightarrow> Field \<Rightarrow> (error, boundField) result" where
  "bind_field tableName dt column =
    (case index_by_name dt (fld_Name column) of
       None \<Rightarrow> Inl (NewCrossCheckError tableName (fld_Name column))
     | Some i \<Rightarrow>
         let typ = sf_Type (dt_Fields dt ! i); pointer = (rt_Kind typ = Pointer); elem = indirect_type typ in
         if pointer \<noteq> (\<not> fld_Required column) then Inl (NewCrossCheckError tableName (fld_Name column))
         else if \<not> kindHoldsColumn (rt_Kind elem) (fld_Kind column)
         then Inl (NewCrossCheckError tableName (fld_Name column))
         else Inr \<lparr>bf_index = i, bf_column = column, bf_pointer = pointer, bf_elem = elem\<rparr>)"

definition newBinder :: "string \<Rightarrow> Descriptor \<Rightarrow> arrow_field list \<Rightarrow> decl_type \<Rightarrow> (error, struct_codec) result" where
  "newBinder tableName desc file dt =
    (if dt_Kind dt \<noteq> Struct then Inl (EDeclaration (DeclarationError tableName '''' DeclarationKindNotStruct None))
     else res_bind (map_result (bind_field tableName dt) (d_fields desc)) (\<lambda>flds.
       Inr \<lparr>bd_table = tableName, bd_fields = flds, bd_file = file, bd_type = dt\<rparr>))"

section \<open>Struct to row and back\<close>

text \<open>The switch of \<open>Bind\<close> on a value of the Go kind \<open>newBinder\<close> checked.\<close>

definition read_value :: "Kind \<Rightarrow> gvalue \<Rightarrow> gvalue option" where
  "read_value k x = (case k of
      KindOther _ \<Rightarrow> None
    | KindFloat \<Rightarrow> (case x of GFloat32 b \<Rightarrow> Some (GFloat32 (quiet32 b)) | _ \<Rightarrow> Some x)
    | _ \<Rightarrow> Some x)"

definition bind_value :: "struct_value \<Rightarrow> boundField \<Rightarrow> gvalue option" where
  "bind_value v f = (case v ! bf_index f of
      Ptr None \<Rightarrow> None
    | Ptr (Some x) \<Rightarrow> read_value (fld_Kind (bf_column f)) x
    | Direct x \<Rightarrow> read_value (fld_Kind (bf_column f)) x)"

definition struct_Bind :: "struct_codec \<Rightarrow> struct_value \<Rightarrow> Row" where
  "struct_Bind b v = map (bind_value v) (bd_fields b)"

text \<open>\<open>set\<close>: the value a field is given for a decoded one.\<close>

definition set_value :: "string \<Rightarrow> boundField \<Rightarrow> gvalue \<Rightarrow> (error, gvalue) result" where
  "set_value tableName f v =
    (let col = bf_column f; wrong = Inl (NewEncodingError EncodingKindValue tableName (fld_Name col) (fld_ID col)) in
     case fld_Kind col of
       KindBoolean \<Rightarrow> (case v of GBool _ \<Rightarrow> Inr v | _ \<Rightarrow> wrong)
     | KindInt \<Rightarrow> (case v of GInt32 _ \<Rightarrow> Inr v | _ \<Rightarrow> wrong)
     | KindLong \<Rightarrow> (case v of GInt64 _ \<Rightarrow> Inr v | _ \<Rightarrow> wrong)
     | KindDecimal \<Rightarrow> (case v of GInt64 _ \<Rightarrow> Inr v | _ \<Rightarrow> wrong)
     | KindTimestampTz \<Rightarrow> (case v of GInt64 _ \<Rightarrow> Inr v | _ \<Rightarrow> wrong)
     | KindFloat \<Rightarrow> (case v of GFloat32 b \<Rightarrow> Inr (GFloat32 (quiet32 b)) | _ \<Rightarrow> wrong)
     | KindDouble \<Rightarrow> (case v of GFloat64 _ \<Rightarrow> Inr v | _ \<Rightarrow> wrong)
     | KindString \<Rightarrow> (case v of GString _ \<Rightarrow> Inr v | _ \<Rightarrow> wrong)
     | KindBinary \<Rightarrow> (case v of GBytes _ \<Rightarrow> Inr v | _ \<Rightarrow> wrong)
     | KindOther _ \<Rightarrow> Inl (NewEncodingError EncodingKindUnsupportedType tableName (fld_Name col) (fld_ID col)))"

text \<open>The zero value of a field; a composite field is one no column is bound to.\<close>

definition zero_field :: "go_type \<Rightarrow> field_value" where
  "zero_field t = (case rt_Kind t of
      Bool \<Rightarrow> Direct (GBool False) | Int32 \<Rightarrow> Direct (GInt32 0) | Int64 \<Rightarrow> Direct (GInt64 0)
    | Float32 \<Rightarrow> Direct (GFloat32 0) | Float64 \<Rightarrow> Direct (GFloat64 0) | String \<Rightarrow> Direct (GString [])
    | Slice \<Rightarrow> Direct (GBytes []) | Pointer \<Rightarrow> Ptr None | _ \<Rightarrow> Direct (GOther []))"

fun fill_struct :: "string \<Rightarrow> struct_value \<Rightarrow> boundField list \<Rightarrow> Row \<Rightarrow> (error, struct_value) result" where
  "fill_struct tableName out (f # fs) (v # vs) =
    (case v of
       None \<Rightarrow>
         if fld_Required (bf_column f)
         then Inl (NewEncodingError EncodingKindValue tableName (fld_Name (bf_column f)) (fld_ID (bf_column f)))
         else fill_struct tableName out fs vs
     | Some x \<Rightarrow>
         res_bind (set_value tableName f x) (\<lambda>y.
         fill_struct tableName (out[bf_index f := if bf_pointer f then Ptr (Some y) else Direct y]) fs vs))"
| "fill_struct tableName out _ _ = Inr out"

definition struct_Value :: "struct_codec \<Rightarrow> Row \<Rightarrow> (error, struct_value) result" where
  "struct_Value b row =
    (if length row \<noteq> length (bd_fields b) then Inl (NewEncodingError EncodingKindValue (bd_table b) '''' 0)
     else fill_struct (bd_table b) (map (zero_field \<circ> sf_Type) (dt_Fields (bd_type b))) (bd_fields b) row)"

section \<open>The descriptor of a declaration\<close>

definition Describe :: "string \<Rightarrow> NestedField list \<Rightarrow> (error, Descriptor) result" where
  "Describe table sc = FromFields table sc"

section \<open>The columns of a batch\<close>

text \<open>\<open>FromSlice\<close> of the reflection library is a parameter, with the columns of the struct it gives. The record
  constructor's own check of column count and type is written out: what it would panic with is the error the
  deferred function returns.\<close>

definition adapt_columns :: "string \<Rightarrow> arrow_field list \<Rightarrow> arrow_array list \<Rightarrow> (error, column list) result" where
  "adapt_columns tableName file cols =
    map_result (\<lambda>(f, c). AdaptColumn tableName (af_Name f) c (af_Type f)) (zip file cols)"

definition NewRecordBatch :: "string \<Rightarrow> arrow_field list \<Rightarrow> column list \<Rightarrow> (error, column list) result" where
  "NewRecordBatch tableName file cols =
    (if map array_type cols = map af_Type file then Inr cols else Inl (NewCrossCheckError tableName ''''))"

definition struct_Build :: "(struct_value list \<Rightarrow> (error, arrow_array list) result) \<Rightarrow> struct_codec \<Rightarrow> Row list \<Rightarrow> (error, column list) result" where
  "struct_Build FromSlice b rows =
    res_bind (map_result (struct_Value b) rows) (\<lambda>vals.
    res_bind (FromSlice vals) (\<lambda>cols.
    if length cols \<noteq> length (bd_file b) then Inl (NewCrossCheckError (bd_table b) '''')
    else res_bind (adapt_columns (bd_table b) (bd_file b) cols) (NewRecordBatch (bd_table b) (bd_file b))))"

definition build_columns :: "dynamicCodec \<Rightarrow> arrow_field list \<Rightarrow> Row list \<Rightarrow> (error, column list) result" where
  "build_columns c file rows = map_result (\<lambda>(i, (f, a)).
     res_bind (column_array c f i rows) (\<lambda>raw. AdaptColumn (dc_table c) (af_Name a) raw (af_Type a)))
     (enumerate 0 (zip (dc_columns c) file))"

definition dynamic_Build :: "dynamicCodec \<Rightarrow> arrow_field list \<Rightarrow> Row list \<Rightarrow> (error, column list) result" where
  "dynamic_Build c file rows =
    (if length file \<noteq> length (dc_columns c) then Inl (NewCrossCheckError (dc_table c) '''')
     else res_bind (build_columns c file rows) (NewRecordBatch (dc_table c) file))"

end
