(* ===== verification/BindProps.thy ===== *)
theory BindProps
  imports Bind
begin

text \<open>A declaration struct and its canonical row: the struct codec reads back what it bound, and a batch of a
  declared struct always builds.\<close>

section \<open>Well-typed structs\<close>

fun value_of_kind :: "reflect_Kind \<Rightarrow> gvalue \<Rightarrow> bool" where
  "value_of_kind k (GBool _) = (k = Bool)"
| "value_of_kind k (GInt32 _) = (k = Int32)"
| "value_of_kind k (GInt64 _) = (k = Int64)"
| "value_of_kind k (GFloat32 _) = (k = Float32)"
| "value_of_kind k (GFloat64 _) = (k = Float64)"
| "value_of_kind k (GString _) = (k = String)"
| "value_of_kind k (GBytes _) = (k = Slice)"
| "value_of_kind k (GOther _) = (k \<notin> {Bool, Int32, Int64, Float32, Float64, String, Slice, Pointer})"

definition field_typed :: "go_type \<Rightarrow> field_value \<Rightarrow> bool" where
  "field_typed t x = (case x of
      Direct y \<Rightarrow> rt_Kind t \<noteq> Pointer \<and> value_of_kind (rt_Kind t) y
    | Ptr None \<Rightarrow> rt_Kind t = Pointer
    | Ptr (Some y) \<Rightarrow> rt_Kind t = Pointer \<and> value_of_kind (rt_Kind (indirect_type t)) y)"

definition struct_typed :: "decl_type \<Rightarrow> struct_value \<Rightarrow> bool" where
  "struct_typed dt v \<longleftrightarrow> list_all2 (\<lambda>f x. field_typed (sf_Type f) x) (dt_Fields dt) v"

lemma quiet32_idem [simp]: "quiet32 (quiet32 b) = quiet32 b"
  by (auto simp: quiet32_def is_NaN32_def intro!: bit_word_eqI simp: bit_simps)

text \<open>What a bound field guarantees.\<close>

definition bound_ok :: "decl_type \<Rightarrow> boundField \<Rightarrow> bool" where
  "bound_ok dt f \<longleftrightarrow> bf_index f < length (dt_Fields dt) \<and>
     (let t = sf_Type (dt_Fields dt ! bf_index f) in
      bf_pointer f = (rt_Kind t = Pointer) \<and> bf_pointer f = (\<not> fld_Required (bf_column f)) \<and>
      kindHoldsColumn (rt_Kind (indirect_type t)) (fld_Kind (bf_column f))) \<and>
     index_by_name dt (fld_Name (bf_column f)) = Some (bf_index f)"

lemma index_by_name_SomeD:
  "index_by_name dt n = Some i \<Longrightarrow> i < length (dt_Fields dt) \<and> rowDataColumnName (dt_Fields dt ! i) = n"
  unfolding index_by_name_def by (drule map_of_SomeD) (auto simp: in_set_enumerate_eq)

lemma bind_field_ok: "bind_field t dt c = Inr f \<Longrightarrow> bound_ok dt f \<and> bf_column f = c"
  by (auto simp: bind_field_def bound_ok_def Let_def dest: index_by_name_SomeD split: option.splits if_splits)

lemma newBinder_ok:
  assumes "newBinder t desc file dt = Inr b"
  shows "bd_table b = t" "bd_file b = file" "bd_type b = dt" "list_all (bound_ok dt) (bd_fields b)"
    "map bf_column (bd_fields b) = d_fields desc"
proof -
  obtain fs where fs: "map_result (bind_field t dt) (d_fields desc) = Inr fs"
    and b: "b = \<lparr>bd_table = t, bd_fields = fs, bd_file = file, bd_type = dt\<rparr>"
    using assms by (auto simp: newBinder_def res_bind_eq_Inr split: if_splits)
  show "bd_table b = t" "bd_file b = file" "bd_type b = dt"
    by (simp_all add: b)
  have "list_all2 (\<lambda>c f. bind_field t dt c = Inr f) (d_fields desc) fs"
    using fs by (simp add: map_result_Inr)
  then show "list_all (bound_ok dt) (bd_fields b)" "map bf_column (bd_fields b) = d_fields desc"
    unfolding b by (induction rule: list_all2_induct) (auto dest: bind_field_ok)
qed

text \<open>Two columns of different names never share a field.\<close>

lemma bound_distinct:
  assumes "list_all (bound_ok dt) fs" "distinct (map (fld_Name \<circ> bf_column) fs)"
  shows "distinct (map bf_index fs)"
  using assms
proof (induction fs)
  case (Cons f fs)
  have "False" if "g \<in> set fs" "bf_index f = bf_index g" for g
  proof -
    note that(2)
    moreover have "index_by_name dt (fld_Name (bf_column g)) = Some (bf_index g)"
      "index_by_name dt (fld_Name (bf_column f)) = Some (bf_index f)"
      using Cons.prems(1) that by (auto simp: bound_ok_def list_all_iff)
    ultimately have "fld_Name (bf_column g) = fld_Name (bf_column f)"
      by (auto dest!: index_by_name_SomeD)
    with Cons.prems(2) that show False by (auto simp: image_iff)
  qed
  then have "bf_index f \<notin> bf_index ` set fs" by blast
  with Cons show ?case by simp
qed simp

section \<open>Round trip\<close>

definition quiet_value :: "gvalue \<Rightarrow> gvalue" where
  "quiet_value x = (case x of GFloat32 b \<Rightarrow> GFloat32 (quiet32 b) | _ \<Rightarrow> x)"

definition quiet_field :: "field_value \<Rightarrow> field_value" where
  "quiet_field x = (case x of Direct y \<Rightarrow> Direct (quiet_value y) | Ptr y \<Rightarrow> Ptr (map_option quiet_value y))"

lemma read_set:
  assumes "kindHoldsColumn k (fld_Kind (bf_column f))" "value_of_kind k x"
  shows "read_value (fld_Kind (bf_column f)) x = Some (quiet_value x)"
    "set_value t f (quiet_value x) = Inr (quiet_value x)"
  using assms
  by (cases x; cases "fld_Kind (bf_column f)";
      auto simp: kindHoldsColumn_def read_value_def set_value_def quiet_value_def Let_def)+

lemma bind_value_typed:
  assumes "bound_ok dt f" "struct_typed dt v"
  shows "bind_value v f = (case quiet_field (v ! bf_index f) of Direct y \<Rightarrow> Some y | Ptr y \<Rightarrow> y)"
    "bf_pointer f \<longleftrightarrow> (\<exists>y. v ! bf_index f = Ptr y)"
    "bind_value v f = Some y \<Longrightarrow> set_value t f y = Inr y"
    "bind_value v f = None \<Longrightarrow> \<not> fld_Required (bf_column f)"
proof -
  let ?t = "sf_Type (dt_Fields dt ! bf_index f)"
  have typed: "field_typed ?t (v ! bf_index f)"
    using assms by (auto simp: struct_typed_def bound_ok_def list_all2_conv_all_nth)
  have kind: "kindHoldsColumn (rt_Kind (indirect_type ?t)) (fld_Kind (bf_column f))"
    and ptr: "bf_pointer f \<longleftrightarrow> rt_Kind ?t = Pointer" "bf_pointer f \<longleftrightarrow> \<not> fld_Required (bf_column f)"
    using assms(1) by (auto simp: bound_ok_def Let_def)
  note rs = read_set [OF kind]
  have direct: "rt_Kind ?t \<noteq> Pointer \<Longrightarrow> indirect_type ?t = ?t"
    by (simp add: indirect_type_def)
  show a: "bind_value v f = (case quiet_field (v ! bf_index f) of Direct y \<Rightarrow> Some y | Ptr y \<Rightarrow> y)"
    using typed rs(1) direct
    by (auto simp: bind_value_def quiet_field_def field_typed_def split: field_value.splits option.splits)
  show "bf_pointer f \<longleftrightarrow> (\<exists>y. v ! bf_index f = Ptr y)"
    using typed ptr(1) by (auto simp: field_typed_def split: field_value.splits option.splits)
  show "bind_value v f = Some y \<Longrightarrow> set_value t f y = Inr y"
    using typed rs(2) [of _ t] direct unfolding a
    by (auto simp: quiet_field_def field_typed_def split: field_value.splits option.splits)
  show "bind_value v f = None \<Longrightarrow> \<not> fld_Required (bf_column f)"
    using typed ptr unfolding a
    by (auto simp: quiet_field_def field_typed_def split: field_value.splits option.splits)
qed

text \<open>Filling a struct from what a typed struct bound writes the quieted field at every index a column has and
  nothing else.\<close>

lemma fill_bound:
  assumes "list_all (bound_ok dt) fs" "struct_typed dt v" "distinct (map bf_index fs)" "length out = length v"
    "\<forall>f\<in>set fs. \<forall>y. v ! bf_index f = Ptr y \<longrightarrow> out ! bf_index f = Ptr None"
  shows "\<exists>v'. fill_struct t out fs (map (bind_value v) fs) = Inr v' \<and> length v' = length v \<and>
    (\<forall>i<length v. v' ! i = (if i \<in> bf_index ` set fs then quiet_field (v ! i) else out ! i))"
  using assms
proof (induction fs arbitrary: out)
  case (Cons f fs)
  note bv = bind_value_typed [of dt f v]
  have f: "bound_ok dt f" and idx: "bf_index f < length v"
    using Cons.prems(1,2) by (auto simp: bound_ok_def struct_typed_def dest: list_all2_lengthD)
  show ?case
  proof (cases "bind_value v f")
    case None
    then have "\<not> fld_Required (bf_column f)"
      by (rule bv(4) [OF f Cons.prems(2)])
    moreover have "quiet_field (v ! bf_index f) = out ! bf_index f"
      using None Cons.prems(5) bv(1) [OF f Cons.prems(2)]
      by (auto simp: quiet_field_def split: field_value.splits)
    ultimately show ?thesis
      using Cons.IH [of out] Cons.prems None by auto
  next
    case (Some y)
    let ?out = "out[bf_index f := if bf_pointer f then Ptr (Some y) else Direct y]"
    have step: "fill_struct t out (f # fs) (map (bind_value v) (f # fs)) = fill_struct t ?out fs (map (bind_value v) fs)"
      using Some bv(3) [OF f Cons.prems(2) Some, of t] by simp
    have new: "(if bf_pointer f then Ptr (Some y) else Direct y) = quiet_field (v ! bf_index f)"
      using Some bv(1,2) [OF f Cons.prems(2)] by (auto simp: quiet_field_def split: field_value.splits)
    have "\<forall>g\<in>set fs. bf_index g \<noteq> bf_index f"
      using Cons.prems(3) by (auto simp: image_iff)
    with Cons.prems have keep: "\<forall>g\<in>set fs. \<forall>y. v ! bf_index g = Ptr y \<longrightarrow> ?out ! bf_index g = Ptr None"
      by auto
    obtain v' where v': "fill_struct t ?out fs (map (bind_value v) fs) = Inr v'" "length v' = length v"
      "\<forall>i<length v. v' ! i = (if i \<in> bf_index ` set fs then quiet_field (v ! i) else ?out ! i)"
      using Cons.IH [OF _ Cons.prems(2) _ _ keep] Cons.prems by auto
    then show ?thesis
      unfolding step using new idx Cons.prems(3,4) by (auto simp: nth_list_update)
  qed
qed simp

lemma zero_field_pointer: "field_typed t (Ptr y) \<Longrightarrow> zero_field t = Ptr None"
  by (auto simp: field_typed_def zero_field_def split: option.splits)

lemma struct_typed_length: "struct_typed dt v \<Longrightarrow> length v = length (dt_Fields dt)"
  by (auto simp: struct_typed_def dest: list_all2_lengthD)

lemma struct_Value_Bind:
  assumes "newBinder t desc file dt = Inr b" "distinct (map fld_Name (d_fields desc))" "struct_typed dt v"
  obtains v' where "struct_Value b (struct_Bind b v) = Inr v'" "length v' = length v"
    "\<forall>i<length v. v' ! i = (if i \<in> bf_index ` set (bd_fields b) then quiet_field (v ! i)
                           else zero_field (sf_Type (dt_Fields dt ! i)))"
proof -
  note b = newBinder_ok [OF assms(1)]
  have "distinct (map (fld_Name \<circ> bf_column) (bd_fields b))"
    using assms(2) by (simp add: b(5) [symmetric] del: distinct_map)
  then have d: "distinct (map bf_index (bd_fields b))"
    by (rule bound_distinct [OF b(4)])
  let ?out = "map (zero_field \<circ> sf_Type) (dt_Fields dt)"
  have len: "length ?out = length v"
    by (simp add: struct_typed_length [OF assms(3)])
  have zero: "\<forall>f\<in>set (bd_fields b). \<forall>y. v ! bf_index f = Ptr y \<longrightarrow> ?out ! bf_index f = Ptr None"
    using assms(3) b(4)
    by (fastforce simp: struct_typed_def list_all2_conv_all_nth list_all_iff bound_ok_def intro!: zero_field_pointer)
  obtain v' where "fill_struct t ?out (bd_fields b) (map (bind_value v) (bd_fields b)) = Inr v'" "length v' = length v"
    "\<forall>i<length v. v' ! i = (if i \<in> bf_index ` set (bd_fields b) then quiet_field (v ! i) else ?out ! i)"
    using fill_bound [OF b(4) assms(3) d len zero, of t] by blast
  then show ?thesis
    using len by (intro that [of v']) (simp_all add: struct_Value_def struct_Bind_def b)
qed

lemma bind_value_quiet:
  assumes "bound_ok dt f" "struct_typed dt v" "v' ! bf_index f = quiet_field (v ! bf_index f)"
  shows "bind_value v' f = bind_value v f"
proof -
  let ?t = "sf_Type (dt_Fields dt ! bf_index f)"
  have "field_typed ?t (v ! bf_index f)"
    using assms(1,2) by (auto simp: struct_typed_def bound_ok_def list_all2_conv_all_nth)
  moreover have "kindHoldsColumn (rt_Kind (indirect_type ?t)) (fld_Kind (bf_column f))"
    using assms(1) by (auto simp: bound_ok_def Let_def)
  moreover have "rt_Kind ?t \<noteq> Pointer \<Longrightarrow> indirect_type ?t = ?t"
    by (simp add: indirect_type_def)
  moreover have "read_value c (quiet_value y) = read_value c y" if "kindHoldsColumn k c" "value_of_kind k y" for k c y
    using that by (cases c; cases y) (simp_all add: kindHoldsColumn_def read_value_def quiet_value_def)
  ultimately show ?thesis
    unfolding bind_value_def assms(3)
    by (auto simp: quiet_field_def field_typed_def split: field_value.splits option.splits)
qed

section \<open>A batch of a declared struct builds\<close>

lemma zero_field_typed: "field_typed t (zero_field t)"
  by (cases "rt_Kind t") (simp_all add: field_typed_def zero_field_def)

lemma zero_struct_typed: "struct_typed dt (map (zero_field \<circ> sf_Type) (dt_Fields dt))"
  by (auto simp: struct_typed_def list_all2_conv_all_nth zero_field_typed)

lemma set_value_fits:
  assumes "value_fits (bf_column f) (Some x)" "kindHoldsColumn k (fld_Kind (bf_column f))"
  shows "\<exists>y. set_value t f x = Inr y \<and> value_of_kind k y"
  using assms by (cases x) (auto simp: value_fits_def set_value_def kindHoldsColumn_def Let_def)

lemma struct_typed_update:
  assumes "struct_typed dt v" "i < length (dt_Fields dt)" "field_typed (sf_Type (dt_Fields dt ! i)) x"
  shows "struct_typed dt (v[i := x])"
  using assms by (auto simp: struct_typed_def list_all2_conv_all_nth nth_list_update)

lemma fill_fits:
  assumes "list_all (bound_ok dt) fs" "list_all2 value_fits (map bf_column fs) row" "struct_typed dt out"
  shows "\<exists>v. fill_struct t out fs row = Inr v \<and> struct_typed dt v"
  using assms
proof (induction fs arbitrary: row out)
  case (Cons f fs)
  then obtain v vs where row: "row = v # vs" and v: "value_fits (bf_column f) v"
    and vs: "list_all2 value_fits (map bf_column fs) vs"
    by (auto simp: list_all2_Cons1)
  have f: "bound_ok dt f" using Cons.prems(1) by simp
  show ?case
  proof (cases v)
    case None
    with v have "\<not> fld_Required (bf_column f)" by (simp add: value_fits_def)
    then show ?thesis using Cons.IH [OF _ vs Cons.prems(3)] Cons.prems(1) row None by simp
  next
    case (Some x)
    let ?t = "sf_Type (dt_Fields dt ! bf_index f)"
    have kind: "kindHoldsColumn (rt_Kind (indirect_type ?t)) (fld_Kind (bf_column f))"
      and ptr: "bf_pointer f \<longleftrightarrow> rt_Kind ?t = Pointer" and idx: "bf_index f < length (dt_Fields dt)"
      using f by (auto simp: bound_ok_def Let_def)
    obtain y where y: "set_value t f x = Inr y" "value_of_kind (rt_Kind (indirect_type ?t)) y"
      using set_value_fits [OF v [unfolded Some] kind] by blast
    have "field_typed ?t (if bf_pointer f then Ptr (Some y) else Direct y)"
      using y(2) ptr by (auto simp: field_typed_def indirect_type_def)
    then have "struct_typed dt (out[bf_index f := if bf_pointer f then Ptr (Some y) else Direct y])"
      by (rule struct_typed_update [OF Cons.prems(3) idx])
    from Cons.IH [OF _ vs this] show ?thesis using Cons.prems(1) y(1) row Some by simp
  qed
qed simp

lemma struct_Value_fits:
  assumes "newBinder t desc file dt = Inr b" "list_all2 value_fits (d_fields desc) row"
  shows "\<exists>v. struct_Value b row = Inr v \<and> struct_typed dt v"
proof -
  note b = newBinder_ok [OF assms(1)]
  have fits: "list_all2 value_fits (map bf_column (bd_fields b)) row"
    using assms(2) by (simp only: b(5))
  have "length row = length (bd_fields b)"
    using list_all2_lengthD [OF fits] by simp
  with fill_fits [OF b(4) fits zero_struct_typed] show ?thesis
    by (simp add: struct_Value_def b)
qed

lemma map_result_total: "\<forall>x\<in>set xs. \<exists>y. f x = Inr y \<and> P x y \<Longrightarrow> \<exists>ys. map_result f xs = Inr ys \<and> list_all2 P xs ys"
  by (induction xs) auto

lemma adapt_columns_total:
  assumes "list_all2 (\<lambda>f c. storageAdaptationFor (DataType c) (af_Type f) \<noteq> adaptUnsupported) file cols"
  shows "\<exists>cs. adapt_columns t file cols = Inr cs \<and> map array_type cs = map af_Type file"
  using assms
proof (induction rule: list_all2_induct)
  case (Cons f fs c cs)
  then show ?case using AdaptColumn_type [OF Cons(1), of t "af_Name f"] by (auto simp: adapt_columns_def)
qed (simp add: adapt_columns_def)

lemma DataType_no_ms: "DataType c \<noteq> TIMESTAMP u z"
  by (cases c) simp_all

lemma widened_columns:
  assumes "crossCheck (Inr inferred) t declared = None" "map DataType cols = map af_Type inferred"
  shows "list_all2 (\<lambda>f c. storageAdaptationFor (DataType c) (af_Type f) \<noteq> adaptUnsupported) (FileSchema declared) cols"
proof -
  obtain inf where inf: "inf = inferred" "length inf = length declared"
    "\<forall>i<length declared. crossCheck_column t (declared ! i, inf ! i) = None"
    by (rule crossCheck_ok [OF assms(1)]) simp
  have len: "length cols = length inferred"
    using assms(2) by (metis length_map)
  have type: "DataType (cols ! i) = af_Type (inferred ! i)" if "i < length inferred" for i
    using assms(2) that len by (metis nth_map)
  have "storageAdaptationFor (DataType (cols ! i)) (widen_type (af_Type (declared ! i))) \<noteq> adaptUnsupported"
    if i: "i < length declared" for i
  proof -
    have "crossCheck_column t (declared ! i, inferred ! i) = None"
      using inf i by blast
    then have "adaptationFor (DataType (cols ! i)) (af_Type (declared ! i)) \<noteq> adaptUnsupported"
      using type [of i] inf(1,2) i by (simp add: crossCheck_column_def split: if_splits)
    then show ?thesis
      by (rule adaptation_widened [OF _ DataType_no_ms])
  qed
  then show ?thesis
    using len inf(1,2) by (auto simp: FileSchema_def list_all2_conv_all_nth)
qed

end
