(* ===== verification/StructBuild.thy ===== *)
theory StructBuild
  imports BindProps
begin

text \<open>A table opened with a declaration struct: once \<open>Declare\<close> has accepted the struct, the codec exists and every
  batch of staged rows becomes the columns of its data file. The four library laws are what the reflection and
  conversion calls document.\<close>

section \<open>The laws\<close>

text \<open>\<open>arreflect\<close> infers one column per field: the name of its \<open>arrow\<close> tag, nullable for a pointer, and for a
  whitelisted Go type its Arrow type.\<close>

definition go_arrow :: "go_type \<Rightarrow> arrow_type" where
  "go_arrow t = (case rt_Kind (indirect_type t) of
      Bool \<Rightarrow> BOOL | Int32 \<Rightarrow> INT32 | Int64 \<Rightarrow> INT64 | Float32 \<Rightarrow> FLOAT32 | Float64 \<Rightarrow> FLOAT64
    | String \<Rightarrow> STRING | Slice \<Rightarrow> BINARY | _ \<Rightarrow> OTHER [] True)"

definition infers_fields :: "'p derivation \<Rightarrow> decl_type \<Rightarrow> bool" where
  "infers_fields lib dt \<longleftrightarrow> (\<forall>inferred. InferSchema lib dt = Inr inferred \<longrightarrow>
     (\<forall>a\<in>set inferred. \<exists>f\<in>set (dt_Fields dt). af_Name a = rowDataColumnName f \<and>
        af_Nullable a = (rt_Kind (sf_Type f) = Pointer) \<and>
        (goFieldTypeVerdict (sf_Type f) = goTypeDeclarable \<longrightarrow> af_Type a = go_arrow (sf_Type f))))"

text \<open>The chain of derivations gives one column per field, in order, and does not accept a composite field, as the comment over
  \<open>checkGoFieldTypes\<close> has it: the field's column is nested, or the conversion to Iceberg refuses the schema.\<close>

definition composites_refused :: "'p derivation \<Rightarrow> decl_type \<Rightarrow> bool" where
  "composites_refused lib dt \<longleftrightarrow> (\<forall>p sc. NewSchemaFromStruct lib dt = Inr p \<longrightarrow> FromParquet lib p = Inr sc \<longrightarrow>
     list_all2 (\<lambda>f a. goFieldTypeVerdict (sf_Type f) = goTypeDeferred \<longrightarrow>
       IsNested (af_Type a) \<or> (\<exists>e. ArrowSchemaToIceberg lib sc = Inl e)) (dt_Fields dt) sc)"

text \<open>The conversion to Iceberg keeps each column's id, name and requiredness, and its type.\<close>

definition iceberg_of :: "arrow_type \<Rightarrow> iceberg_type" where
  "iceberg_of t = (case t of
      BOOL \<Rightarrow> BooleanType | INT32 \<Rightarrow> Int32Type | INT64 \<Rightarrow> Int64Type | FLOAT32 \<Rightarrow> Float32Type | FLOAT64 \<Rightarrow> Float64Type
    | STRING \<Rightarrow> StringType | BINARY \<Rightarrow> BinaryType | TIMESTAMP _ _ \<Rightarrow> TimestampTzType
    | DECIMAL128 p s \<Rightarrow> DecimalType p s | _ \<Rightarrow> OtherType [])"

definition converted :: "arrow_field \<Rightarrow> NestedField \<Rightarrow> bool" where
  "converted a c \<longleftrightarrow> nf_ID c = declaredFieldID a \<and> nf_Name c = af_Name a \<and> nf_Required c = (\<not> af_Nullable a) \<and>
     (af_Type a \<in> {BOOL, INT32, INT64, FLOAT32, FLOAT64, STRING, BINARY, TIMESTAMP Millisecond ''UTC''} \<or>
      (\<exists>p s. af_Type a = DECIMAL128 p s) \<longrightarrow> nf_Type c = iceberg_of (af_Type a))"

definition converts_fields :: "'p derivation \<Rightarrow> bool" where
  "converts_fields lib \<longleftrightarrow> (\<forall>sc cols. ArrowSchemaToIceberg lib sc = Inr cols \<longrightarrow> list_all2 converted sc cols)"

text \<open>\<open>FromSlice\<close> gives the columns \<open>InferSchema\<close> announces.\<close>

definition slices_columns :: "'p derivation \<Rightarrow> (struct_value list \<Rightarrow> (error, arrow_array list) result) \<Rightarrow> decl_type \<Rightarrow> bool" where
  "slices_columns lib FromSlice dt \<longleftrightarrow> (\<forall>vals inferred. list_all (struct_typed dt) vals \<longrightarrow>
     InferSchema lib dt = Inr inferred \<longrightarrow> (\<exists>cols. FromSlice vals = Inr cols \<and> map DataType cols = map af_Type inferred))"

section \<open>The codec exists\<close>

lemma index_by_name_distinct:
  assumes "distinct (map rowDataColumnName (dt_Fields dt))" "f \<in> set (dt_Fields dt)" "sf_Exported f"
  obtains i where "index_by_name dt (rowDataColumnName f) = Some i" "i < length (dt_Fields dt)" "dt_Fields dt ! i = f"
proof -
  obtain i where i: "i < length (dt_Fields dt)" "dt_Fields dt ! i = f"
    using assms(2) by (auto simp: in_set_conv_nth)
  have "(rowDataColumnName f, i) \<in> set (map (\<lambda>(i, f). (rowDataColumnName f, i))
      (filter (\<lambda>(i, f). sf_Exported f) (enumerate 0 (dt_Fields dt))))"
    using i assms(3) by (force simp: in_set_enumerate_eq)
  then obtain j where j: "index_by_name dt (rowDataColumnName f) = Some j"
    unfolding index_by_name_def by (metis map_of_eq_None_iff fst_conv image_eqI not_Some_eq set_rev)
  then have "j = i"
    using index_by_name_SomeD [OF j] i assms(1) by (auto simp: distinct_conv_nth)
  with i j show ?thesis by (intro that) simp_all
qed

lemma FromFields_columns:
  assumes "FromFields t cols = Inr desc" "column \<in> set (d_fields desc)"
  shows "\<exists>c\<in>set cols. describeField t c = Inr column"
proof -
  obtain flds where "list_all2 (\<lambda>c f. describeField t c = Inr f) cols flds" "set (d_fields desc) = set flds"
    using assms(1) by (auto simp: FromFields_def newDescriptor_def res_bind_eq_Inr map_result_Inr Let_def
        split: if_splits option.splits)
  with assms(2) show ?thesis
    by (force simp: list_all2_conv_all_nth in_set_conv_nth)
qed

text \<open>A declared column and the field it was inferred from.\<close>

lemma declared_column:
  assumes "adaptationFor (go_arrow ty) d \<noteq> adaptUnsupported" "goFieldTypeVerdict ty = goTypeDeclarable"
  shows "d \<in> {BOOL, INT32, INT64, FLOAT32, FLOAT64, STRING, BINARY, TIMESTAMP Millisecond ''UTC''} \<or> (\<exists>p s. d = DECIMAL128 p s)"
    "kind_of_type (iceberg_of d) = Some (k, p, s) \<Longrightarrow> kindHoldsColumn (rt_Kind (indirect_type ty)) k"
  using assms
  by (auto simp: adaptationFor_def go_arrow_def goFieldTypeVerdict_def Let_def iceberg_of_def kindHoldsColumn_def
      split: if_splits arrow_type.splits)

text \<open>So every field of an accepted struct is of a whitelisted type.\<close>

lemma Declare_whitelisted:
  assumes "Declare lib ns t dt = Inr decl" "composites_refused lib dt" "f \<in> set (dt_Fields dt)"
  shows "goFieldTypeVerdict (sf_Type f) = goTypeDeclarable"
proof -
  obtain p where p: "checkGoFieldTypes t dt = None" "NewSchemaFromStruct lib dt = Inr p" "derive lib ns t p = Inr decl"
    by (rule Declare_ok [OF assms(1)])
  note d = derive_ok [OF p(3)]
  have all: "list_all2 (\<lambda>f a. goFieldTypeVerdict (sf_Type f) = goTypeDeferred \<longrightarrow>
      IsNested (af_Type a) \<or> (\<exists>e. ArrowSchemaToIceberg lib (decl_arrow decl) = Inl e)) (dt_Fields dt) (decl_arrow decl)"
    using assms(2) p(2) d(1) unfolding composites_refused_def by blast
  obtain i where i: "i < length (dt_Fields dt)" "dt_Fields dt ! i = f"
    using assms(3) by (auto simp: in_set_conv_nth)
  let ?a = "decl_arrow decl ! i"
  have "?a \<in> set (decl_arrow decl)"
    using i(1) list_all2_lengthD [OF all] by simp
  then have "\<not> IsNested (af_Type ?a)"
    using d(3) by (auto simp: rejectNested_def split: if_splits)
  then have "goFieldTypeVerdict (sf_Type f) \<noteq> goTypeDeferred"
    using list_all2_nthD [OF all i(1)] i(2) d(5) by simp
  moreover have "goFieldTypeVerdict (sf_Type f) \<noteq> goTypeRefused"
    using p(1) assms(3) by (auto simp: checkGoFieldTypes_def split: if_splits)
  ultimately show ?thesis by (cases "goFieldTypeVerdict (sf_Type f)") auto
qed

lemma bind_field_total:
  assumes "crossCheck (Inr inferred) t declared = None" "infers_fields lib dt" "InferSchema lib dt = Inr inferred"
    "check_exported t dt = None" "distinct (map rowDataColumnName (dt_Fields dt))"
    "\<forall>f\<in>set (dt_Fields dt). goFieldTypeVerdict (sf_Type f) = goTypeDeclarable"
    "converts_fields lib" "ArrowSchemaToIceberg lib declared = Inr cols" "c \<in> set cols" "describeField t c = Inr column"
  shows "\<exists>g. bind_field t dt column = Inr g"
proof -
  have conv: "list_all2 converted declared cols"
    using assms(7,8) by (auto simp: converts_fields_def)
  then have len: "length cols = length declared"
    by (simp add: list_all2_lengthD)
  obtain i where i: "i < length declared" "cols ! i = c"
    using assms(9) len by (auto simp: in_set_conv_nth)
  obtain inf where inf: "inf = inferred" "length inf = length declared"
    "\<forall>i<length declared. crossCheck_column t (declared ! i, inf ! i) = None"
    by (rule crossCheck_ok [OF assms(1)]) simp
  let ?a = "declared ! i" and ?b = "inferred ! i"
  have agree: "af_Name ?b = af_Name ?a" "af_Nullable ?b = af_Nullable ?a"
    "adaptationFor (af_Type ?b) (af_Type ?a) \<noteq> adaptUnsupported"
    using inf i(1) by (auto simp: crossCheck_column_def split: if_splits)
  have "?b \<in> set inferred"
    using inf(1,2) i(1) by simp
  then obtain f where f: "f \<in> set (dt_Fields dt)" "af_Name ?b = rowDataColumnName f"
    "af_Nullable ?b = (rt_Kind (sf_Type f) = Pointer)" "af_Type ?b = go_arrow (sf_Type f)"
    using assms(2,3,6) unfolding infers_fields_def by blast
  note d = declared_column [OF agree(3) [unfolded f(4)] bspec [OF assms(6) f(1)]]
  have c: "nf_Name c = af_Name ?a" "nf_Required c = (\<not> af_Nullable ?a)" "nf_Type c = iceberg_of (af_Type ?a)"
    using list_all2_nthD [OF conv i(1)] d(1) unfolding i(2) converted_def by blast+
  have col: "fld_Name column = rowDataColumnName f" "fld_Required column = (rt_Kind (sf_Type f) \<noteq> Pointer)"
    "kindHoldsColumn (rt_Kind (indirect_type (sf_Type f))) (fld_Kind column)"
    using assms(10) c agree(1,2) f(2,3) d(2)
    by (auto simp: describeField_def split: option.splits)
  have "sf_Exported f"
    using assms(4) f(1) by (auto simp: check_exported_def split: if_splits)
  from index_by_name_distinct [OF assms(5) f(1) this] obtain j where
    "index_by_name dt (rowDataColumnName f) = Some j" "dt_Fields dt ! j = f" by blast
  then show ?thesis
    using col by (simp add: bind_field_def Let_def)
qed

section \<open>Properties\<close>


text \<open>A struct of an id and an optional amount, with the library answering for it as documented.\<close>

definition sample_struct :: decl_type where
  "sample_struct = \<lparr>dt_Kind = Struct, dt_Fields =
     [\<lparr>sf_Name = ''ID'', sf_Exported = True, sf_Type = GoType Int64 None, sf_arrow = Some ''id''\<rparr>,
      \<lparr>sf_Name = ''Amount'', sf_Exported = True, sf_Type = GoType Pointer (Some (GoType Int64 None)),
       sf_arrow = Some ''amount''\<rparr>]\<rparr>"

definition sample_arrow :: "arrow_field list" where
  "sample_arrow = [ArrowField ''id'' INT64 False (Some ''1''),
                   ArrowField ''amount'' (DECIMAL128 10 2) True (Some ''2'')]"

definition sample_derivation :: "unit derivation" where
  "sample_derivation =
    \<lparr>NewSchemaFromStruct = (\<lambda>_. Inr ()), NewGroupNode = (\<lambda>_ _. Inr ()), NewPrimitiveNode = (\<lambda>_. None),
     FromParquet = (\<lambda>_. Inr sample_arrow),
     ArrowSchemaToIceberg = (\<lambda>sc. Inr (map (\<lambda>a. \<lparr>nf_ID = declaredFieldID a, nf_Name = af_Name a,
       nf_Type = iceberg_of (af_Type a), nf_Required = (\<not> af_Nullable a)\<rparr>) sc)),
     InferSchema = (\<lambda>_. Inr [ArrowField ''id'' INT64 False None, ArrowField ''amount'' INT64 True None])\<rparr>"

definition sample_FromSlice :: "struct_value list \<Rightarrow> (error, arrow_array list) result" where
  "sample_FromSlice vals = Inr
    [AInt64s (map (\<lambda>v. case v ! 0 of Direct (GInt64 w) \<Rightarrow> Some w | _ \<Rightarrow> None) vals),
     AInt64s (map (\<lambda>v. case v ! 1 of Ptr (Some (GInt64 w)) \<Rightarrow> Some w | _ \<Rightarrow> None) vals)]"

definition sample_declaration :: "unit Declaration" where
  "sample_declaration = \<lparr>decl_namespace = ''market'', decl_table = ''fills'', decl_parquet = (), decl_arrow = sample_arrow,
     decl_iceberg = [\<lparr>nf_ID = 1, nf_Name = ''id'', nf_Type = Int64Type, nf_Required = True\<rparr>,
                     \<lparr>nf_ID = 2, nf_Name = ''amount'', nf_Type = DecimalType 10 2, nf_Required = False\<rparr>]\<rparr>"

lemma sample_ids: "ParseInt ''1'' = Inr 1" "ParseInt ''2'' = Inr 2"
  by (simp_all add: ParseInt_def ParseUint_def is_digit_def digit_val_def max_uint64_def)

lemma sample_derive: "derive sample_derivation ''market'' ''fills'' () = Inr sample_declaration"
  by (simp add: derive_def sample_derivation_def sample_arrow_def rejectNested_def checkPreorderFieldIDs_def
      declaredFieldID_def sample_ids struct_fields_def iceberg_of_def sample_declaration_def)

lemma sample_crossCheck: "crossCheck (InferSchema sample_derivation sample_struct) ''fills'' sample_arrow = None"
  by (simp add: sample_derivation_def sample_arrow_def crossCheck_def crossCheck_column_def adaptationFor_def)

lemma sample_names: "check_names ''market'' ''fills'' = None"
proof -
  have "ValidateName NameKindNamespace ''market'' = None" "ValidateName NameKindTable ''fills'' = None"
    unfolding ValidateName_iff by (simp_all add: name_ok_def char_code_def MaxNameLength_def)
  then show ?thesis by (simp add: check_names_def)
qed

lemma sample_declarable: "\<forall>f\<in>set (dt_Fields sample_struct). goFieldTypeVerdict (sf_Type f) = goTypeDeclarable"
  by (simp add: sample_struct_def goFieldTypeVerdict_def indirect_type_def)

lemma sample_Declare: "Declare sample_derivation ''market'' ''fills'' sample_struct = Inr sample_declaration"
proof -
  have "dt_Kind sample_struct = Struct" "check_exported ''fills'' sample_struct = None"
    "checkGoFieldTypes ''fills'' sample_struct = None"
    using sample_declarable by (simp_all add: checkGoFieldTypes_def) (simp_all add: check_exported_def sample_struct_def)
  moreover have "NewSchemaFromStruct sample_derivation sample_struct = Inr ()" "decl_arrow sample_declaration = sample_arrow"
    by (simp_all add: sample_derivation_def sample_declaration_def)
  ultimately show ?thesis
    by (simp add: Declare_def sample_names sample_derive sample_crossCheck)
qed

lemma sample_Describe: "Describe ''fills'' (decl_iceberg sample_declaration) = Inr sample_descriptor"
  using sample_descriptor_ok
  by (simp add: Describe_def FromFields_Inr sample_declaration_def describeField_def sample_descriptor_def
      sample_fields_def insort_key_def)

lemma sample_infers: "infers_fields sample_derivation sample_struct"
  by (simp add: infers_fields_def sample_derivation_def sample_struct_def rowDataColumnName_def go_arrow_def indirect_type_def)

lemma sample_composites: "composites_refused sample_derivation sample_struct"
  using sample_declarable by (auto simp: composites_refused_def sample_derivation_def sample_arrow_def sample_struct_def)

lemma derivation_converts: "converts_fields sample_derivation"
  by (auto simp: converts_fields_def sample_derivation_def converted_def list_all2_conv_all_nth)

lemma sample_slices: "slices_columns sample_derivation sample_FromSlice sample_struct"
  by (simp add: slices_columns_def sample_FromSlice_def sample_derivation_def)


text \<open>C32: A declaration struct survives staging. Whatever well-typed value a caller inserts, the row bound from it
  reads back as a struct that has the caller's value in every field a column is bound to, a signalling NaN of a
  \<open>float32\<close> column made quiet and nothing else changed, and binding that struct again gives the same row: a
  replayed record has the payload it was staged under.\<close>

theorem struct_roundtrip:
  assumes "newBinder t desc file dt = Inr b" "distinct (map fld_Name (d_fields desc))" "struct_typed dt v"
  shows "\<exists>v'. struct_Value b (struct_Bind b v) = Inr v' \<and>
    (\<forall>f\<in>set (bd_fields b). v' ! bf_index f = quiet_field (v ! bf_index f)) \<and>
    struct_Bind b v' = struct_Bind b v"
proof -
  obtain v' where v': "struct_Value b (struct_Bind b v) = Inr v'" "length v' = length v"
    "\<forall>i<length v. v' ! i = (if i \<in> bf_index ` set (bd_fields b) then quiet_field (v ! i)
                           else zero_field (sf_Type (dt_Fields dt ! i)))"
    by (rule struct_Value_Bind [OF assms])
  note b = newBinder_ok [OF assms(1)]
  have at: "v' ! bf_index f = quiet_field (v ! bf_index f)" if "f \<in> set (bd_fields b)" for f
    using v'(3) that b(4) struct_typed_length [OF assms(3)] by (auto simp: list_all_iff bound_ok_def)
  have "bind_value v' f = bind_value v f" if "f \<in> set (bd_fields b)" for f
    using at [OF that] bind_value_quiet [of dt f v] b(4) that assms(3) by (auto simp: list_all_iff)
  then show ?thesis
    using v'(1) at by (auto simp: struct_Bind_def)
qed

theorem struct_roundtrip_witness:
  "\<exists>b v'. newBinder ''fills'' sample_descriptor (FileSchema sample_arrow) sample_struct = Inr b \<and>
    struct_Value b (struct_Bind b [Direct (GInt64 7), Ptr (Some (GInt64 1250))]) = Inr v' \<and>
    struct_Bind b v' = struct_Bind b [Direct (GInt64 7), Ptr (Some (GInt64 1250))]"
proof -
  obtain b where b: "newBinder ''fills'' sample_descriptor (FileSchema sample_arrow) sample_struct = Inr b"
    by (simp add: newBinder_def sample_struct_def sample_descriptor_def sample_fields_def bind_field_def
        index_by_name_def rowDataColumnName_def kindHoldsColumn_def indirect_type_def)
  moreover have "distinct (map fld_Name (d_fields sample_descriptor))"
    by (simp add: sample_descriptor_def sample_fields_def)
  moreover have "struct_typed sample_struct [Direct (GInt64 7), Ptr (Some (GInt64 1250))]"
    by (simp add: struct_typed_def sample_struct_def field_typed_def indirect_type_def)
  ultimately show ?thesis
    using struct_roundtrip by blast
qed

end
