(* ===== verification/SchemaDoc.thy ===== *)
theory SchemaDoc
  imports StructBuild
begin

text \<open>File \<open>schemadoc.go\<close>: a table's shape stated by a document at run time, and the derivation \<open>OpenDynamicWriter\<close>
  of \<open>dynamic.go\<close> runs on it. \<open>encoding/json\<close> is a parameter: what the strict decoder gives for the document's
  bytes, and whether more input follows. A configuration's batching, expiry and callback are left to the caller by this
  file and are not part of the model's \<open>DynamicTableConfig\<close>.\<close>

section \<open>Documents\<close>

record FieldSpec =
  fs_Name :: string
  fs_Type :: string
  fs_FieldID :: int
  fs_Optional :: bool

record TableSchema =
  ts_fields :: "NestedField list"
  ts_specs :: "FieldSpec list"

record schemaDocTable =
  sdt_Namespace :: string
  sdt_Table :: string
  sdt_Fields :: "FieldSpec list"

record DynamicTableConfig =
  dtc_Namespace :: string
  dtc_Table :: string
  dtc_Schema :: "TableSchema option"

definition maxDocDecimalPrecision :: int where "maxDocDecimalPrecision = 18"

section \<open>Column types\<close>

definition HasPrefix :: "string \<Rightarrow> string \<Rightarrow> bool" where
  "HasPrefix s p \<longleftrightarrow> take (length p) s = p"

definition CutPrefix :: "string \<Rightarrow> string \<Rightarrow> string option" where
  "CutPrefix s p = (if HasPrefix s p then Some (drop (length p) s) else None)"

definition CutSuffix :: "string \<Rightarrow> string \<Rightarrow> string option" where
  "CutSuffix s p = (if length p \<le> length s \<and> drop (length s - length p) s = p
     then Some (take (length s - length p) s) else None)"

definition Cut :: "string \<Rightarrow> char \<Rightarrow> (string \<times> string) option" where
  "Cut s c = (if c \<in> set s then Some (takeWhile (\<lambda>x. x \<noteq> c) s, tl (dropWhile (\<lambda>x. x \<noteq> c) s)) else None)"

definition parseDecimalType :: "string \<Rightarrow> string \<Rightarrow> string \<Rightarrow> (error, iceberg_type) result" where
  "parseDecimalType tableName field spelling =
    (let bad = Inl (NewSchemaDocError SchemaDocKindDecimal tableName field None) in
     case CutPrefix spelling ''decimal('' of
       None \<Rightarrow> bad
     | Some inner \<Rightarrow>
     (case CutSuffix inner '')'' of
       None \<Rightarrow> bad
     | Some inner \<Rightarrow>
     (case Cut inner CHR '','' of
       None \<Rightarrow> bad
     | Some (precisionText, scaleText) \<Rightarrow>
     (case ParseInt precisionText of
       Inl _ \<Rightarrow> bad
     | Inr precision \<Rightarrow>
     (case ParseInt scaleText of
       Inl _ \<Rightarrow> bad
     | Inr scale \<Rightarrow>
         if precision < 1 \<or> precision > maxDocDecimalPrecision then bad
         else if scale < 0 \<or> scale > precision then bad
         else Inr (DecimalType precision scale))))))"

definition parseColumnType :: "string \<Rightarrow> string \<Rightarrow> string \<Rightarrow> (error, iceberg_type) result" where
  "parseColumnType tableName field spelling =
    (if spelling = ''boolean'' then Inr BooleanType
     else if spelling = ''int'' then Inr Int32Type
     else if spelling = ''long'' then Inr Int64Type
     else if spelling = ''float'' then Inr Float32Type
     else if spelling = ''double'' then Inr Float64Type
     else if spelling = ''string'' then Inr StringType
     else if spelling = ''binary'' then Inr BinaryType
     else if spelling = ''timestamptz'' then Inr TimestampTzType
     else if HasPrefix spelling ''decimal'' then parseDecimalType tableName field spelling
     else Inl (NewSchemaDocError SchemaDocKindUnknownType tableName field None))"

section \<open>Table schemas\<close>

text \<open>The loop of \<open>newTableSchema\<close> over the specs from index \<open>i\<close>, with the names seen.\<close>

fun spec_loop :: "string \<Rightarrow> nat \<Rightarrow> string list \<Rightarrow> FieldSpec list \<Rightarrow> (error, NestedField list) result" where
  "spec_loop tableName i names [] = Inr []"
| "spec_loop tableName i names (f # fs) =
    (if fs_Name f = [] then Inl (NewSchemaDocError SchemaDocKindDuplicateField tableName '''' None)
     else if fs_Name f \<in> set names
     then Inl (NewSchemaDocError SchemaDocKindDuplicateField tableName (fs_Name f) None)
     else if fs_FieldID f \<noteq> int i + 1
     then Inl (EFieldID (FieldIDError tableName (fs_Name f) (if fs_FieldID f = 0 then -1 else fs_FieldID f) (int i + 1)))
     else res_bind (parseColumnType tableName (fs_Name f) (fs_Type f)) (\<lambda>typ.
       res_bind (spec_loop tableName (i + 1) (fs_Name f # names) fs) (\<lambda>out.
       Inr (\<lparr>nf_ID = fs_FieldID f, nf_Name = fs_Name f, nf_Type = typ, nf_Required = \<not> fs_Optional f\<rparr> # out))))"

definition newTableSchema :: "string \<Rightarrow> FieldSpec list \<Rightarrow> (error, TableSchema) result" where
  "newTableSchema tableName flds =
    (if flds = [] then Inl (NewSchemaDocError SchemaDocKindNoFields tableName '''' None)
     else res_bind (spec_loop tableName 0 [] flds) (\<lambda>out. Inr \<lparr>ts_fields = out, ts_specs = flds\<rparr>))"

definition NewTableSchema :: "string \<Rightarrow> FieldSpec list \<Rightarrow> (error, TableSchema) result" where
  "NewTableSchema tableName flds = newTableSchema tableName flds"

fun table_loop :: "string list \<Rightarrow> schemaDocTable list \<Rightarrow> (error, DynamicTableConfig list) result" where
  "table_loop seen [] = Inr []"
| "table_loop seen (t # ts) =
    (case ValidateName NameKindNamespace (sdt_Namespace t) of
       Some e \<Rightarrow> Inl e
     | None \<Rightarrow>
     (case ValidateName NameKindTable (sdt_Table t) of
       Some e \<Rightarrow> Inl e
     | None \<Rightarrow>
         let key = sdt_Namespace t @ ''.'' @ sdt_Table t in
         if key \<in> set seen then Inl (NewSchemaDocError SchemaDocKindDuplicateTable key '''' None)
         else res_bind (newTableSchema key (sdt_Fields t)) (\<lambda>schema.
           res_bind (table_loop (key # seen) ts) (\<lambda>out.
           Inr (\<lparr>dtc_Namespace = sdt_Namespace t, dtc_Table = sdt_Table t, dtc_Schema = Some schema\<rparr> # out)))))"

definition ParseSchemaDocument :: "(bytes \<Rightarrow> (error, schemaDocTable list) result \<times> bool) \<Rightarrow> bytes \<Rightarrow>
    (error, DynamicTableConfig list) result" where
  "ParseSchemaDocument decode doc =
    (case decode doc of
       (Inl e, _) \<Rightarrow> Inl (NewSchemaDocError SchemaDocKindSyntax '''' '''' (Some e))
     | (Inr tables, trailing) \<Rightarrow>
         if trailing then Inl (NewSchemaDocError SchemaDocKindSyntax '''' '''' None)
         else table_loop [] tables)"

section \<open>The derivation of a dynamic table\<close>

text \<open>What \<open>OpenDynamicWriter\<close> hands \<open>openWriter\<close>: the refusal of an empty schema and the closure \<open>derive\<close>.\<close>

definition derive_dynamic :: "'p derivation \<Rightarrow> string \<Rightarrow> string \<Rightarrow> NestedField list \<Rightarrow>
    (error, 'p Declaration \<times> Descriptor \<times> dynamicCodec \<times> arrow_field list) result" where
  "derive_dynamic lib namespace tableName flds =
    res_bind (DeclareFields lib namespace tableName flds) (\<lambda>decl.
    res_bind (Describe tableName (decl_iceberg decl)) (\<lambda>desc.
    case crossCheckSpecs tableName flds desc of
      Some e \<Rightarrow> Inl e
    | None \<Rightarrow> Inr (decl, desc, newDynamicCodec namespace tableName desc, FileSchema (decl_arrow decl))))"

definition OpenDynamicWriter :: "'p derivation \<Rightarrow> DynamicTableConfig \<Rightarrow>
    (error, 'p Declaration \<times> Descriptor \<times> dynamicCodec \<times> arrow_field list) result" where
  "OpenDynamicWriter lib tc =
    (case dtc_Schema tc of
       None \<Rightarrow> Inl (NewSchemaDocError SchemaDocKindNoFields (dtc_Table tc) '''' None)
     | Some schema \<Rightarrow>
         if ts_specs schema = [] then Inl (NewSchemaDocError SchemaDocKindNoFields (dtc_Table tc) '''' None)
         else derive_dynamic lib (dtc_Namespace tc) (dtc_Table tc) (ts_fields schema))"

end
