(* ===== verification/SchemaDocProps.thy ===== *)
theory SchemaDocProps
  imports SchemaDoc
begin

text \<open>What a schema document promises: which specs are accepted, that an accepted one describes, and that two tables of
  one document are never the same.\<close>

section \<open>Which specs are accepted\<close>

definition declarable :: "iceberg_type \<Rightarrow> bool" where
  "declarable t = (case t of OtherType _ \<Rightarrow> False | DecimalType p s \<Rightarrow> 1 \<le> p \<and> p \<le> 18 \<and> 0 \<le> s \<and> s \<le> p | _ \<Rightarrow> True)"

lemma parseDecimalType_declarable: "parseDecimalType t f sp = Inr ty \<Longrightarrow> declarable ty"
  by (auto simp: parseDecimalType_def declarable_def maxDocDecimalPrecision_def Let_def
      split: option.splits prod.splits sum.splits if_splits)

lemma parseColumnType_declarable: "parseColumnType t f sp = Inr ty \<Longrightarrow> declarable ty"
  using parseDecimalType_declarable by (auto simp: parseColumnType_def declarable_def split: if_splits)

definition column_of :: "string \<Rightarrow> FieldSpec \<Rightarrow> NestedField \<Rightarrow> bool" where
  "column_of t f c \<longleftrightarrow> nf_ID c = fs_FieldID f \<and> nf_Name c = fs_Name f \<and> nf_Required c = (\<not> fs_Optional f) \<and>
     parseColumnType t (fs_Name f) (fs_Type f) = Inr (nf_Type c) \<and> declarable (nf_Type c)"

lemma spec_loop_Inr:
  "spec_loop t i names specs = Inr out \<longleftrightarrow>
    [] \<notin> fs_Name ` set specs \<and> distinct (map fs_Name specs) \<and> fs_Name ` set specs \<inter> set names = {} \<and>
    map fs_FieldID specs = map (\<lambda>j. int (i + j) + 1) [0..<length specs] \<and>
    list_all2 (column_of t) specs out"
proof (induction specs arbitrary: i names out)
  case (Cons f fs)
  have shift: "map (\<lambda>j. int (i + j) + 1) [0..<length (f # fs)] = (int i + 1) # map (\<lambda>j. int (i + 1 + j) + 1) [0..<length fs]"
    by (simp add: upt_conv_Cons map_Suc_upt [symmetric] comp_def del: upt_Suc)
  have head: "out' = \<lparr>nf_ID = a, nf_Name = b, nf_Type = c, nf_Required = d\<rparr> \<longleftrightarrow>
      nf_ID out' = a \<and> nf_Name out' = b \<and> nf_Type out' = c \<and> nf_Required out' = d" for out' :: NestedField and a b c d
    by (cases out') auto
  show ?case
    unfolding shift using Cons.IH [of "i + 1" "fs_Name f # names"]
    by (cases out) (auto simp: res_bind_eq_Inr head image_iff column_of_def dest: parseColumnType_declarable)
qed auto

text \<open>C33: \<open>NewTableSchema\<close> accepts a list of field specs exactly when it is not empty, every column has a name of its
  own, the field ids are 1, 2, 3 and so on in the order stated, and every type spelling is one the format knows; the
  schema then has the stated columns and keeps the specs, and every decimal of it has a precision of 1 to 18 digits
  and a scale the precision covers.\<close>

theorem table_schema_accepts_iff:
  "NewTableSchema t specs = Inr schema \<longleftrightarrow>
    specs \<noteq> [] \<and> [] \<notin> fs_Name ` set specs \<and> distinct (map fs_Name specs) \<and>
    map fs_FieldID specs = map int [1..<Suc (length specs)] \<and> ts_specs schema = specs \<and>
    list_all2 (column_of t) specs (ts_fields schema)"
proof -
  have ids: "map (\<lambda>j. int (0 + j) + 1) [0..<length specs] = map int [1..<Suc (length specs)]"
    by (simp add: map_Suc_upt [symmetric] comp_def del: upt_Suc)
  have "schema = \<lparr>ts_fields = a, ts_specs = b\<rparr> \<longleftrightarrow> ts_fields schema = a \<and> ts_specs schema = b" for a b
    by (cases schema) auto
  then have "NewTableSchema t specs = Inr schema \<longleftrightarrow>
      specs \<noteq> [] \<and> spec_loop t 0 [] specs = Inr (ts_fields schema) \<and> ts_specs schema = specs"
    by (auto simp: NewTableSchema_def newTableSchema_def res_bind_eq_Inr)
  then show ?thesis
    unfolding spec_loop_Inr ids by simp blast
qed

section \<open>Documents\<close>

definition config_key :: "DynamicTableConfig \<Rightarrow> string" where
  "config_key c = dtc_Namespace c @ ''.'' @ dtc_Table c"

definition config_ok :: "DynamicTableConfig \<Rightarrow> bool" where
  "config_ok c \<longleftrightarrow> name_ok (dtc_Namespace c) \<and> name_ok (dtc_Table c) \<and>
     (\<exists>specs schema. NewTableSchema (config_key c) specs = Inr schema \<and> dtc_Schema c = Some schema)"

lemma table_loop_ok:
  "table_loop seen ts = Inr out \<Longrightarrow>
    list_all config_ok out \<and> distinct (map config_key out) \<and> config_key ` set out \<inter> set seen = {} \<and> length out = length ts"
proof (induction seen ts arbitrary: out rule: table_loop.induct)
  case (2 seen t ts)
  let ?key = "sdt_Namespace t @ ''.'' @ sdt_Table t"
  have ok: "ValidateName NameKindNamespace (sdt_Namespace t) = None" "ValidateName NameKindTable (sdt_Table t) = None"
    "?key \<notin> set seen"
    using "2.prems" by (auto simp: Let_def split: option.splits if_splits)
  then obtain schema out' where s: "newTableSchema ?key (sdt_Fields t) = Inr schema"
    "table_loop (?key # seen) ts = Inr out'"
    "out = \<lparr>dtc_Namespace = sdt_Namespace t, dtc_Table = sdt_Table t, dtc_Schema = Some schema\<rparr> # out'"
    using "2.prems" by (auto simp: Let_def res_bind_eq_Inr)
  have "list_all config_ok out' \<and> distinct (map config_key out') \<and> config_key ` set out' \<inter> set (?key # seen) = {} \<and>
      length out' = length ts"
    by (rule "2.IH" [OF ok(1,2) refl ok(3) s(2)])
  moreover let ?c = "\<lparr>dtc_Namespace = sdt_Namespace t, dtc_Table = sdt_Table t, dtc_Schema = Some schema\<rparr>"
  have "config_ok ?c" "config_key ?c = ?key"
    using ok(1,2) s(1) by (auto simp: config_ok_def config_key_def ValidateName_iff NewTableSchema_def)
  ultimately show ?case
    using ok(3) by (auto simp: s(3))
qed simp

text \<open>A document that parses declares tables that can all be opened together: as many as it lists, each under a valid
  namespace and table name with a schema \<open>NewTableSchema\<close> accepted, and no two of them the same table.\<close>

theorem document_tables:
  assumes "ParseSchemaDocument decode doc = Inr cfgs"
  shows "list_all config_ok cfgs \<and> distinct (map (\<lambda>c. (dtc_Namespace c, dtc_Table c)) cfgs) \<and>
    (\<exists>tables. decode doc = (Inr tables, False) \<and> length cfgs = length tables)"
proof -
  obtain tables where t: "decode doc = (Inr tables, False)" "table_loop [] tables = Inr cfgs"
    using assms by (auto simp: ParseSchemaDocument_def split: prod.splits sum.splits if_splits)
  note ok = table_loop_ok [OF t(2)]
  have eq: "map config_key cfgs = map (\<lambda>p. fst p @ ''.'' @ snd p) (map (\<lambda>c. (dtc_Namespace c, dtc_Table c)) cfgs)"
    by (simp add: config_key_def)
  have "distinct (map config_key cfgs)"
    using ok by blast
  then have "distinct (map (\<lambda>c. (dtc_Namespace c, dtc_Table c)) cfgs)"
    unfolding eq by (simp only: distinct_map)
  with ok t(1) show ?thesis by simp
qed

theorem document_tables_witness:
  "\<exists>cfgs. ParseSchemaDocument (\<lambda>_. (Inr [\<lparr>sdt_Namespace = ''a'', sdt_Table = ''b'', sdt_Fields =
      [\<lparr>fs_Name = ''n'', fs_Type = ''int'', fs_FieldID = 1, fs_Optional = False\<rparr>]\<rparr>], False)) [] = Inr cfgs \<and>
    list_all config_ok cfgs \<and> length cfgs = 1"
proof -
  let ?decode = "\<lambda>_ :: bytes. (Inr [\<lparr>sdt_Namespace = ''a'', sdt_Table = ''b'', sdt_Fields =
      [\<lparr>fs_Name = ''n'', fs_Type = ''int'', fs_FieldID = 1, fs_Optional = False\<rparr>]\<rparr>] :: (error, schemaDocTable list) result, False)"
  have "ValidateName NameKindNamespace ''a'' = None" "ValidateName NameKindTable ''b'' = None"
    unfolding ValidateName_iff by (simp_all add: name_ok_def char_code_def MaxNameLength_def)
  then obtain cfgs where c: "ParseSchemaDocument ?decode [] = Inr cfgs"
    by (simp add: ParseSchemaDocument_def newTableSchema_def parseColumnType_def Let_def)
  from document_tables [OF this] c show ?thesis by auto
qed

end
