(* ===== verification/BatchBuild.thy ===== *)
theory BatchBuild
  imports SchemaDocProps
begin

text \<open>A batch of a table declared at run time: the columns of its data file hold the rows that were staged.\<close>

section \<open>Reading a column back\<close>

text \<open>What a reader of the column sees in slot \<open>r\<close> is the value staged: an instant in microseconds is the staged
  milliseconds times 1000, a 128-bit decimal is the staged unscaled value.\<close>

definition holds_value :: "column \<Rightarrow> nat \<Rightarrow> gvalue option \<Rightarrow> bool" where
  "holds_value c r v = (case c of
      Untouched (ABools vs) \<Rightarrow> v = map_option GBool (vs ! r)
    | Untouched (AInt32s vs) \<Rightarrow> v = map_option GInt32 (vs ! r)
    | Untouched (AInt64s vs) \<Rightarrow> v = map_option GInt64 (vs ! r)
    | Untouched (AFloat32s vs) \<Rightarrow> v = map_option GFloat32 (vs ! r)
    | Untouched (AFloat64s vs) \<Rightarrow> v = map_option GFloat64 (vs ! r)
    | Untouched (AStrings vs) \<Rightarrow> v = map_option GString (vs ! r)
    | Untouched (ABinaries vs) \<Rightarrow> v = map_option GBytes (vs ! r)
    | Timestamps u z vs \<Rightarrow> (case vs ! r of
        None \<Rightarrow> v = None
      | Some x \<Rightarrow> \<exists>w. v = Some (GInt64 w) \<and> sint x = sint w * (if u = Microsecond then 1000 else 1))
    | Decimal128s p s vs \<Rightarrow> (case vs ! r of
        None \<Rightarrow> v = None
      | Some (hi, lo) \<Rightarrow> \<exists>w. v = Some (GInt64 w) \<and> sint hi * 2 ^ 64 + uint lo = sint w))"

text \<open>The one value the file cannot hold: an instant whose microseconds leave 64 bits.\<close>

definition instant_fits :: "Field \<Rightarrow> gvalue option \<Rightarrow> bool" where
  "instant_fits f v \<longleftrightarrow> (\<forall>w. fld_Kind f = KindTimestampTz \<longrightarrow> v = Some (GInt64 w) \<longrightarrow> \<bar>sint w\<bar> \<le> 9223372036854775)"

definition file_type :: "Field \<Rightarrow> arrow_type" where
  "file_type f = (case fld_Kind f of
      KindBoolean \<Rightarrow> BOOL | KindInt \<Rightarrow> INT32 | KindLong \<Rightarrow> INT64 | KindFloat \<Rightarrow> FLOAT32 | KindDouble \<Rightarrow> FLOAT64
    | KindString \<Rightarrow> STRING | KindBinary \<Rightarrow> BINARY | KindTimestampTz \<Rightarrow> TIMESTAMP Microsecond ''UTC''
    | KindDecimal \<Rightarrow> DECIMAL128 (fld_Precision f) (fld_Scale f) | KindOther _ \<Rightarrow> OTHER [] True)"

lemma typed_column:
  assumes "\<forall>row\<in>set rows. at < length row \<and> (\<forall>x. row ! at = Some x \<longrightarrow> (\<exists>w. as x = Some w \<and> x = mk w))"
  shows "\<exists>vs. column_values as wrong rows at = Inr vs \<and> length vs = length rows \<and>
    (\<forall>r<length rows. rows ! r ! at = map_option mk (vs ! r))"
  using assms
proof (induction rows)
  case (Cons row rows)
  then obtain vs where vs: "column_values as wrong rows at = Inr vs" "length vs = length rows"
    "\<forall>r<length rows. rows ! r ! at = map_option mk (vs ! r)" by auto
  obtain v where v: "row ! at = map_option mk v"
    "column_values as wrong (row # rows) at = Inr (v # vs)"
    using Cons.prems vs(1) that [of None] that [of "as (the (row ! at))"]
    by (cases "row ! at") (auto simp: column_values_def valueAt_def isNullAt_def)
  show ?case
    using vs v by (intro exI [of _ "v # vs"]) (auto simp: less_Suc_eq_0_disj)
qed (simp add: column_values_def)

lemma AdaptColumn_same: "DataType raw = want \<Longrightarrow> AdaptColumn t n raw want = Inr (Untouched raw)"
  by (cases raw) (auto simp: AdaptColumn_def storageAdaptationFor_def adaptationFor_def)

lemma AdaptColumn_ints:
  "AdaptColumn t n (AInt64s vs) (TIMESTAMP Microsecond ''UTC'') = Inr (rescaleTimestamp vs Microsecond ''UTC'')"
  "AdaptColumn t n (AInt64s vs) (DECIMAL128 p s) = Inr (signExtendToDecimal128 vs p s)"
  by (simp_all add: AdaptColumn_def storageAdaptationFor_def adaptationFor_def int64_slots_def)

definition built_column :: "Field \<Rightarrow> nat \<Rightarrow> Row list \<Rightarrow> column \<Rightarrow> bool" where
  "built_column f at rows c \<longleftrightarrow> array_type c = file_type f \<and>
     (\<forall>r<length rows. holds_value c r (rows ! r ! at) \<longleftrightarrow> instant_fits f (rows ! r ! at))"

lemma holds_rescaled:
  assumes "r < length vs" "v = map_option GInt64 (vs ! r)"
  shows "holds_value (rescaleTimestamp vs Microsecond z) r v \<longleftrightarrow>
    (\<forall>w. v = Some (GInt64 w) \<longrightarrow> \<bar>sint w\<bar> \<le> 9223372036854775)"
  using assms rescale_value_iff
  by (cases "vs ! r") (auto simp: holds_value_def rescaleTimestamp_def)

lemma holds_extended:
  assumes "r < length vs" "v = map_option GInt64 (vs ! r)"
  shows "holds_value (signExtendToDecimal128 vs p s) r v"
  using assms sign_extend_value
  by (cases "vs ! r") (auto simp: holds_value_def signExtendToDecimal128_def split: prod.splits)

lemma column_array_fits:
  assumes "\<forall>row\<in>set rows. at < length row \<and> value_fits f (row ! at)" "knownKind (fld_Kind f) \<noteq> None"
  shows "\<exists>raw c. column_array cd f at rows = Inr raw \<and> AdaptColumn t n raw (file_type f) = Inr c \<and> built_column f at rows c"
proof -
  note typed = typed_column [where rows = rows and at = at]
  have plain_ex: ?thesis if "\<exists>raw. column_array cd f at rows = Inr raw \<and> DataType raw = file_type f \<and>
      (\<forall>r<length rows. holds_value (Untouched raw) r (rows ! r ! at))" "fld_Kind f = k" "k \<noteq> KindTimestampTz" for k
    using that by (auto simp: AdaptColumn_same built_column_def instant_fits_def)
  have ints: "\<exists>vs. column_values (\<lambda>v. case v of GInt64 n \<Rightarrow> Some n | _ \<Rightarrow> None) wrong rows at = Inr vs \<and>
      length vs = length rows \<and> (\<forall>r<length rows. rows ! r ! at = map_option GInt64 (vs ! r))"
    if "fld_Kind f \<in> {KindLong, KindDecimal, KindTimestampTz}" for wrong
    using assms(1) that by (intro typed) (auto simp: value_fits_def split: gvalue.splits)
  let ?wrong = "NewEncodingError EncodingKindValue (dc_table cd) (fld_Name f) (fld_ID f)"
  show ?thesis
  proof (cases "fld_Kind f")
    case KindBoolean
    have "\<exists>vs. column_values (\<lambda>v. case v of GBool x \<Rightarrow> Some x | _ \<Rightarrow> None) ?wrong rows at = Inr vs \<and>
        length vs = length rows \<and> (\<forall>r<length rows. rows ! r ! at = map_option GBool (vs ! r))"
      using assms(1) KindBoolean by (intro typed) (auto simp: value_fits_def split: gvalue.splits)
    then show ?thesis
      using KindBoolean by (intro plain_ex [OF _ KindBoolean]) (auto simp: holds_value_def column_array_def file_type_def Let_def)
  next
    case KindInt
    have "\<exists>vs. column_values (\<lambda>v. case v of GInt32 x \<Rightarrow> Some x | _ \<Rightarrow> None) ?wrong rows at = Inr vs \<and>
        length vs = length rows \<and> (\<forall>r<length rows. rows ! r ! at = map_option GInt32 (vs ! r))"
      using assms(1) KindInt by (intro typed) (auto simp: value_fits_def split: gvalue.splits)
    then show ?thesis
      using KindInt by (intro plain_ex [OF _ KindInt]) (auto simp: holds_value_def column_array_def file_type_def Let_def)
  next
    case KindFloat
    have "\<exists>vs. column_values (\<lambda>v. case v of GFloat32 x \<Rightarrow> Some x | _ \<Rightarrow> None) ?wrong rows at = Inr vs \<and>
        length vs = length rows \<and> (\<forall>r<length rows. rows ! r ! at = map_option GFloat32 (vs ! r))"
      using assms(1) KindFloat by (intro typed) (auto simp: value_fits_def split: gvalue.splits)
    then show ?thesis
      using KindFloat by (intro plain_ex [OF _ KindFloat]) (auto simp: holds_value_def column_array_def file_type_def Let_def)
  next
    case KindDouble
    have "\<exists>vs. column_values (\<lambda>v. case v of GFloat64 x \<Rightarrow> Some x | _ \<Rightarrow> None) ?wrong rows at = Inr vs \<and>
        length vs = length rows \<and> (\<forall>r<length rows. rows ! r ! at = map_option GFloat64 (vs ! r))"
      using assms(1) KindDouble by (intro typed) (auto simp: value_fits_def split: gvalue.splits)
    then show ?thesis
      using KindDouble by (intro plain_ex [OF _ KindDouble]) (auto simp: holds_value_def column_array_def file_type_def Let_def)
  next
    case KindString
    have "\<exists>vs. column_values (\<lambda>v. case v of GString x \<Rightarrow> Some x | _ \<Rightarrow> None) ?wrong rows at = Inr vs \<and>
        length vs = length rows \<and> (\<forall>r<length rows. rows ! r ! at = map_option GString (vs ! r))"
      using assms(1) KindString by (intro typed) (auto simp: value_fits_def split: gvalue.splits)
    then show ?thesis
      using KindString by (intro plain_ex [OF _ KindString]) (auto simp: holds_value_def column_array_def file_type_def Let_def)
  next
    case KindBinary
    have "\<exists>vs. column_values (\<lambda>v. case v of GBytes x \<Rightarrow> Some x | _ \<Rightarrow> None) ?wrong rows at = Inr vs \<and>
        length vs = length rows \<and> (\<forall>r<length rows. rows ! r ! at = map_option GBytes (vs ! r))"
      using assms(1) KindBinary by (intro typed) (auto simp: value_fits_def split: gvalue.splits)
    then show ?thesis
      using KindBinary by (intro plain_ex [OF _ KindBinary]) (auto simp: holds_value_def column_array_def file_type_def Let_def)
  next
    case KindLong
    with ints [of ?wrong] show ?thesis
      by (intro plain_ex [OF _ KindLong]) (auto simp: holds_value_def column_array_def file_type_def Let_def)
  next
    case KindDecimal
    then obtain vs where "column_array cd f at rows = Inr (AInt64s vs)" "length vs = length rows"
      "\<forall>r<length rows. rows ! r ! at = map_option GInt64 (vs ! r)"
      using ints [of ?wrong] by (auto simp: column_array_def Let_def)
    then show ?thesis
      using KindDecimal by (simp add: AdaptColumn_ints file_type_def built_column_def instant_fits_def holds_extended)
        (simp add: signExtendToDecimal128_def)
  next
    case KindTimestampTz
    then obtain vs where "column_array cd f at rows = Inr (AInt64s vs)" "length vs = length rows"
      "\<forall>r<length rows. rows ! r ! at = map_option GInt64 (vs ! r)"
      using ints [of ?wrong] by (auto simp: column_array_def Let_def)
    then show ?thesis
      using KindTimestampTz by (simp add: AdaptColumn_ints file_type_def built_column_def instant_fits_def holds_rescaled)
        (simp add: rescaleTimestamp_def)
  next
    case (KindOther k)
    then show ?thesis using assms(2) by simp
  qed
qed

section \<open>The file schema and the shape\<close>

text \<open>\<open>FromParquet\<close> on the nodes \<open>primitiveNode\<close> builds: one column per node, of the Arrow type of its annotation.\<close>

definition node_arrow :: "LogicalType option \<Rightarrow> parquet_Type \<Rightarrow> arrow_type" where
  "node_arrow lt ph = (case lt of
      Some (IntLogical w True) \<Rightarrow> if w = 32 then INT32 else INT64
    | Some (DecimalLogical p s) \<Rightarrow> DECIMAL128 (sint p) (sint s)
    | Some (TimestampLogical True u) \<Rightarrow> TIMESTAMP u ''UTC''
    | Some StringLogical \<Rightarrow> STRING
    | None \<Rightarrow> (case ph of Boolean \<Rightarrow> BOOL | Float \<Rightarrow> FLOAT32 | Double \<Rightarrow> FLOAT64 | ByteArray \<Rightarrow> BINARY | PInt32 \<Rightarrow> INT32 | PInt64 \<Rightarrow> INT64)
    | _ \<Rightarrow> OTHER [] False)"

definition reads_nodes :: "'p derivation \<Rightarrow> bool" where
  "reads_nodes lib \<longleftrightarrow> (\<forall>t nodes p sc. NewGroupNode lib t nodes = Inr p \<longrightarrow> FromParquet lib p = Inr sc \<longrightarrow>
     list_all2 (\<lambda>n a. af_Type a = node_arrow (pn_Logical n) (pn_Physical n)) nodes sc)"

definition storable :: "arrow_type \<Rightarrow> bool" where
  "storable t \<longleftrightarrow> t \<in> {BOOL, INT32, INT64, FLOAT32, FLOAT64, STRING, BINARY, TIMESTAMP Millisecond ''UTC''} \<or>
     (\<exists>p s. t = DECIMAL128 p s)"

lemma primitiveNode_storable:
  "primitiveNode lib t c = Inr n \<Longrightarrow> storable (node_arrow (pn_Logical n) (pn_Physical n))"
  by (cases "nf_Type c")
    (auto simp: primitiveNode_def node_of_type_def node_arrow_def storable_def Let_def split: option.splits)

lemma DeclareFields_derives:
  assumes "DeclareFields lib ns t cols = Inr decl" "reads_nodes lib"
  obtains p where "derive lib ns t p = Inr decl" "\<forall>a\<in>set (decl_arrow decl). storable (af_Type a)"
proof -
  obtain nodes p where n: "map_result (primitiveNode lib t) cols = Inr nodes" "NewGroupNode lib t nodes = Inr p"
    "derive lib ns t p = Inr decl"
  proof -
    obtain nodes where "map_result (primitiveNode lib t) cols = Inr nodes"
      "(case NewGroupNode lib t nodes of Inl e \<Rightarrow> Inl (derivationError t ''building the parquet schema'' e)
        | Inr p \<Rightarrow> derive lib ns t p) = Inr decl"
      using assms(1) by (auto simp: DeclareFields_def res_bind_eq_Inr split: option.splits if_splits)
    then show ?thesis
      by (cases "NewGroupNode lib t nodes") (auto intro: that)
  qed
  have "\<forall>n\<in>set nodes. storable (node_arrow (pn_Logical n) (pn_Physical n))"
    using n(1) primitiveNode_storable by (fastforce simp: map_result_Inr list_all2_conv_all_nth in_set_conv_nth)
  moreover have "list_all2 (\<lambda>n a. af_Type a = node_arrow (pn_Logical n) (pn_Physical n)) nodes (decl_arrow decl)"
    using assms(2) n(2) derive_ok(1) [OF n(3)] unfolding reads_nodes_def by blast
  ultimately have "\<forall>a\<in>set (decl_arrow decl). storable (af_Type a)"
    by (force simp: list_all2_conv_all_nth in_set_conv_nth)
  with n(3) show ?thesis by (rule that)
qed

lemma described_type:
  assumes "converted a c" "describeField t c = Inr f" "storable (af_Type a)"
  shows "fld_ID f = declaredFieldID a" "file_type f = widen_type (af_Type a)"
proof -
  have "nf_Type c = iceberg_of (af_Type a)" "nf_ID c = declaredFieldID a"
    using assms(1,3) unfolding converted_def storable_def by blast+
  then show "fld_ID f = declaredFieldID a" "file_type f = widen_type (af_Type a)"
    using assms(2,3)
    by (auto simp: describeField_def storable_def iceberg_of_def file_type_def widen_type_def split: option.splits)
qed

lemma derived_matches:
  assumes "derive lib ns t p = Inr decl" "converts_fields lib" "Describe t (decl_iceberg decl) = Inr desc"
    "\<forall>a\<in>set (decl_arrow decl). storable (af_Type a)"
  shows "map file_type (d_fields desc) = map af_Type (FileSchema (decl_arrow decl))"
proof -
  let ?arrow = "decl_arrow decl"
  obtain fs where fs: "list_all2 (\<lambda>c f. describeField t c = Inr f) (decl_iceberg decl) fs"
    "d_fields desc = sort_key fld_ID fs"
    using assms(3) by (auto simp: Describe_def FromFields_Inr map_result_Inr)
  have conv: "list_all2 converted ?arrow (decl_iceberg decl)"
    using assms(2) derive_ok(5) [OF assms(1)] by (auto simp: converts_fields_def)
  have len: "length fs = length ?arrow"
    using list_all2_lengthD [OF fs(1)] list_all2_lengthD [OF conv] by simp
  have at: "fld_ID (fs ! i) = declaredFieldID (?arrow ! i) \<and> file_type (fs ! i) = widen_type (af_Type (?arrow ! i))"
    if "i < length ?arrow" for i
    using described_type [OF list_all2_nthD [OF conv that] list_all2_nthD [OF fs(1)]] that assms(4) list_all2_lengthD [OF conv]
    by simp
  have "map fld_ID fs = map declaredFieldID ?arrow" "map file_type fs = map af_Type (FileSchema ?arrow)"
    using at len by (auto intro!: nth_equalityI simp: FileSchema_def)
  moreover have "sorted (map declaredFieldID ?arrow)"
    using derive_ok(4) [OF assms(1)] by (simp add: sorted_map sorted_wrt_map del: upt_Suc)
  ultimately show ?thesis
    by (simp add: fs(2) sort_key_id_if_sorted)
qed

section \<open>Properties\<close>

lemma descriptor_known: "descriptor_ok d \<Longrightarrow> f \<in> set (d_fields d) \<Longrightarrow> knownKind (fld_Kind f) \<noteq> None"
  using descriptor_okD(5) [of d] by (auto simp: field_ok_def)

lemma build_columns_fits:
  assumes "map file_type fs = map af_Type fl" "\<forall>f\<in>set fs. knownKind (fld_Kind f) \<noteq> None"
    "\<forall>row\<in>set rows. length row = k + length fs \<and> (\<forall>i<length fs. value_fits (fs ! i) (row ! (k + i)))"
  shows "\<exists>cols. map_result (\<lambda>(i, (f, a)). res_bind (column_array cd f i rows)
      (\<lambda>raw. AdaptColumn (dc_table cd) (af_Name a) raw (af_Type a))) (enumerate k (zip fs fl)) = Inr cols \<and>
    length cols = length fs \<and> (\<forall>i<length fs. built_column (fs ! i) (k + i) rows (cols ! i))"
  using assms
proof (induction fs arbitrary: fl k)
  case (Cons f fs)
  then obtain a fl' where fl: "fl = a # fl'" "af_Type a = file_type f" "map file_type fs = map af_Type fl'"
    by (cases fl) auto
  have "\<forall>row\<in>set rows. k < length row \<and> value_fits f (row ! k)"
    using Cons.prems(3) by fastforce
  from column_array_fits [OF this] Cons.prems(2) obtain raw c where
    c: "column_array cd f k rows = Inr raw" "AdaptColumn (dc_table cd) (af_Name a) raw (file_type f) = Inr c"
      "built_column f k rows c" by (metis list.set_intros(1))
  have "\<forall>row\<in>set rows. length row = Suc k + length fs \<and> (\<forall>i<length fs. value_fits (fs ! i) (row ! (Suc k + i)))"
    using Cons.prems(3) by fastforce
  from Cons.IH [OF fl(3) _ this] Cons.prems(2) obtain cols where
    cols: "map_result (\<lambda>(i, (f, a)). res_bind (column_array cd f i rows)
      (\<lambda>raw. AdaptColumn (dc_table cd) (af_Name a) raw (af_Type a))) (enumerate (Suc k) (zip fs fl')) = Inr cols"
      "length cols = length fs" "\<forall>i<length fs. built_column (fs ! i) (Suc k + i) rows (cols ! i)" by auto
  show ?case
    using c cols by (intro exI [of _ "c # cols"]) (auto simp: fl less_Suc_eq_0_disj)
qed simp

text \<open>C34: For a table a schema document declares, any batch of rows its shape can hold becomes the columns of the data
  file, at exactly the file schema's types, and column \<open>i\<close> holds every row's value \<open>i\<close>, a decimal as the same
  unscaled number in 128 bits and an instant as its milliseconds times 1000, with the one exception the condition names:
  an instant whose microseconds do not fit 64 bits, which is stored as another instant.\<close>

theorem dynamic_batch_holds_rows:
  assumes "OpenDynamicWriter lib tc = Inr (decl, desc, codec, file)" "converts_fields lib" "reads_nodes lib"
    "\<forall>row\<in>set rows. list_all2 value_fits (d_fields desc) row"
  shows "\<exists>cols. dynamic_Build codec file rows = Inr cols \<and> map array_type cols = map af_Type file \<and>
    (\<forall>i<length cols. \<forall>r<length rows.
       holds_value (cols ! i) r (rows ! r ! i) \<longleftrightarrow> instant_fits (d_fields desc ! i) (rows ! r ! i))"
proof -
  obtain ns t flds where d: "DeclareFields lib ns t flds = Inr decl" "Describe t (decl_iceberg decl) = Inr desc"
    "codec = newDynamicCodec ns t desc" "file = FileSchema (decl_arrow decl)"
    using assms(1) by (auto simp: OpenDynamicWriter_def derive_dynamic_def res_bind_eq_Inr split: option.splits if_splits)
  obtain p where p: "derive lib ns t p = Inr decl" "\<forall>a\<in>set (decl_arrow decl). storable (af_Type a)"
    by (rule DeclareFields_derives [OF d(1) assms(3)])
  have types: "map file_type (d_fields desc) = map af_Type file"
    unfolding d(4) by (rule derived_matches [OF p(1) assms(2) d(2) p(2)])
  then have len: "length file = length (d_fields desc)"
    by (metis length_map)
  have known: "\<forall>f\<in>set (d_fields desc). knownKind (fld_Kind f) \<noteq> None"
    using d(2) by (auto simp: Describe_def dest!: FromFields_ok descriptor_known)
  have rows: "\<forall>row\<in>set rows. length row = 0 + length (d_fields desc) \<and>
      (\<forall>i<length (d_fields desc). value_fits (d_fields desc ! i) (row ! (0 + i)))"
    using assms(4) by (simp add: list_all2_conv_all_nth)
  from build_columns_fits [OF types known rows, of codec] obtain cols where
    cols: "build_columns codec file rows = Inr cols" "length cols = length (d_fields desc)"
      "\<forall>i<length (d_fields desc). built_column (d_fields desc ! i) i rows (cols ! i)"
    by (auto simp: build_columns_def d(3) newDynamicCodec_def)
  then have "map array_type cols = map file_type (d_fields desc)"
    by (auto intro!: nth_equalityI simp: built_column_def)
  with cols types len show ?thesis
    by (auto simp: dynamic_Build_def NewRecordBatch_def d(3) newDynamicCodec_def built_column_def)
qed

text \<open>A library that answers as documented, its Parquet schema the list of nodes.\<close>

definition tree_library :: "parquet_node list derivation" where
  "tree_library =
    \<lparr>NewSchemaFromStruct = (\<lambda>_. Inr []), NewGroupNode = (\<lambda>_ nodes. Inr nodes), NewPrimitiveNode = (\<lambda>_. None),
     FromParquet = (\<lambda>nodes. Inr (map (\<lambda>n. ArrowField (pn_Name n) (node_arrow (pn_Logical n) (pn_Physical n))
       (\<not> pn_Required n) (Some (FormatInt (sint (pn_ID n))))) nodes)),
     ArrowSchemaToIceberg = (\<lambda>sc. Inr (map (\<lambda>a. \<lparr>nf_ID = declaredFieldID a, nf_Name = af_Name a,
       nf_Type = iceberg_of (af_Type a), nf_Required = (\<not> af_Nullable a)\<rparr>) sc)),
     InferSchema = (\<lambda>_. Inr [])\<rparr>"

lemma tree_library_laws: "converts_fields tree_library" "reads_nodes tree_library"
  by (auto simp: converts_fields_def reads_nodes_def tree_library_def converted_def list_all2_conv_all_nth)

definition sample_config :: DynamicTableConfig where
  "sample_config = \<lparr>dtc_Namespace = ''market'', dtc_Table = ''fills'', dtc_Schema = Some
     \<lparr>ts_fields = decl_iceberg sample_declaration,
      ts_specs = [\<lparr>fs_Name = ''id'', fs_Type = ''long'', fs_FieldID = 1, fs_Optional = False\<rparr>,
                  \<lparr>fs_Name = ''amount'', fs_Type = ''decimal(10,2)'', fs_FieldID = 2, fs_Optional = True\<rparr>]\<rparr>\<rparr>"

definition sample_nodes :: "parquet_node list" where
  "sample_nodes =
    [\<lparr>pn_Name = ''id'', pn_Required = True, pn_Logical = Some (IntLogical 64 True), pn_Physical = PInt64, pn_ID = 1\<rparr>,
     \<lparr>pn_Name = ''amount'', pn_Required = False, pn_Logical = Some (DecimalLogical 10 2), pn_Physical = PInt64, pn_ID = 2\<rparr>]"

definition sample_dynamic :: "parquet_node list Declaration" where
  "sample_dynamic = \<lparr>decl_namespace = ''market'', decl_table = ''fills'', decl_parquet = sample_nodes,
     decl_arrow = sample_arrow, decl_iceberg = decl_iceberg sample_declaration\<rparr>"

lemma sample_nodes_built:
  "map_result (primitiveNode tree_library ''fills'') (decl_iceberg sample_declaration) = Inr sample_nodes"
  by (simp add: sample_declaration_def primitiveNode_def node_of_type_def tree_library_def sample_nodes_def)

lemma sample_tree_derive: "derive tree_library ''market'' ''fills'' sample_nodes = Inr sample_dynamic"
proof -
  have "nat_digits (Suc 0) = ''1''" "nat_digits 2 = ''2''"
    by (simp_all add: nat_digits.simps [of "Suc 0"] nat_digits.simps [of 2] char_of_def bit_0)
  then have ids: "FormatInt 1 = ''1''" "FormatInt 2 = ''2''"
    by (simp_all add: FormatInt_def)
  have "FromParquet tree_library sample_nodes = Inr sample_arrow"
    by (simp add: tree_library_def sample_nodes_def sample_arrow_def node_arrow_def ids)
  moreover have "ArrowSchemaToIceberg tree_library sample_arrow = Inr (decl_iceberg sample_declaration)"
    by (simp add: tree_library_def sample_arrow_def sample_declaration_def declaredFieldID_def sample_ids iceberg_of_def)
  moreover have "sample_arrow \<noteq> []" "rejectNested ''fills'' sample_arrow = None" "checkPreorderFieldIDs ''fills'' sample_arrow = None"
    using derive_ok(2-4) [OF sample_derive] checkPreorder_iff [of "''fills''" sample_arrow]
    by (simp_all add: sample_declaration_def del: upt_Suc)
  ultimately show ?thesis
    by (simp add: derive_def sample_dynamic_def)
qed

lemma sample_open: "OpenDynamicWriter tree_library sample_config =
    Inr (sample_dynamic, sample_descriptor, newDynamicCodec ''market'' ''fills'' sample_descriptor, FileSchema sample_arrow)"
proof -
  have "DeclareFields tree_library ''market'' ''fills'' (decl_iceberg sample_declaration) = Inr sample_dynamic"
    using sample_tree_derive sample_nodes_built
    by (simp add: DeclareFields_def sample_names) (simp add: tree_library_def sample_declaration_def)
  moreover have "crossCheckSpecs ''fills'' (decl_iceberg sample_declaration) sample_descriptor = None"
    using sample_Describe by (simp add: crossCheckSpecs_def Describe_def)
  ultimately show ?thesis
    using sample_Describe
    by (simp add: OpenDynamicWriter_def sample_config_def derive_dynamic_def) (simp add: sample_dynamic_def)
qed

theorem dynamic_batch_holds_rows_witness:
  "\<exists>cols. dynamic_Build (newDynamicCodec ''market'' ''fills'' sample_descriptor) (FileSchema sample_arrow) [sample_row] = Inr cols \<and>
    length cols = 2 \<and> holds_value (cols ! 0) 0 (Some (GInt64 7)) \<and> holds_value (cols ! 1) 0 (Some (GInt64 1250))"
proof -
  have "\<forall>row\<in>set [sample_row]. list_all2 value_fits (d_fields sample_descriptor) row"
    by (simp add: sample_descriptor_def sample_fields_def sample_row_def value_fits_def)
  from dynamic_batch_holds_rows [OF sample_open tree_library_laws this] obtain cols where
    c: "dynamic_Build (newDynamicCodec ''market'' ''fills'' sample_descriptor) (FileSchema sample_arrow) [sample_row] = Inr cols"
      "map array_type cols = map af_Type (FileSchema sample_arrow)"
      "\<forall>i<length cols. holds_value (cols ! i) 0 (sample_row ! i) \<longleftrightarrow> instant_fits (d_fields sample_descriptor ! i) (sample_row ! i)"
    by auto
  have "length cols = 2"
    using arg_cong [OF c(2), of length] by (simp add: FileSchema_def sample_arrow_def)
  moreover have "instant_fits (d_fields sample_descriptor ! i) v" if "i < 2" for i v
    using that by (auto simp: less_2_cases_iff instant_fits_def sample_descriptor_def sample_fields_def)
  ultimately have "\<forall>i<2. holds_value (cols ! i) 0 (sample_row ! i)"
    using c(3) by simp
  then have "holds_value (cols ! 0) 0 (sample_row ! 0)" "holds_value (cols ! 1) 0 (sample_row ! 1)" by simp_all
  with c(1) \<open>length cols = 2\<close> show ?thesis
    by (intro exI [of _ cols]) (simp add: sample_row_def)
qed

text \<open>The exception is reachable and nothing refuses it: \<open>rescaleTimestamp\<close> leaves an overflowing instant to \<open>the
  boundary where the caller supplied it\<close>, but a record whose instant leaves 64 bits of microseconds passes the poison
  check and is encoded like any other, and the data file then holds another instant.\<close>

theorem overflowing_instant_accepted:
  assumes "d_fields desc = [f]" "fld_Kind f = KindTimestampTz" "\<bar>sint w\<bar> > 9223372036854775"
  shows "checkPoison t desc [Some (GInt64 w)] = None \<and> (\<exists>payload. Encode t desc [Some (GInt64 w)] = Inr payload) \<and>
    (\<exists>x. AdaptColumn t n (AInt64s [Some w]) (TIMESTAMP Microsecond ''UTC'') = Inr (Timestamps Microsecond ''UTC'' [Some x]) \<and>
       sint x \<noteq> sint w * 1000)"
proof -
  have "checkPoison t desc [Some (GInt64 w)] = None"
    using assms(1,2) by (simp add: checkPoison_def checkColumn_def)
  moreover have "\<exists>payload. Encode t desc [Some (GInt64 w)] = Inr payload"
    using assms(1,2) by (simp add: encode_fits_iff value_fits_def)
  ultimately show ?thesis
    using rescale_value_iff [of w] assms(3) by (simp add: AdaptColumn_ints rescaleTimestamp_def)
qed

theorem overflowing_instant_accepted_witness:
  "\<exists>x. AdaptColumn ''t'' ''at'' (AInt64s [Some 9223372036854776]) (TIMESTAMP Microsecond ''UTC'') =
    Inr (Timestamps Microsecond ''UTC'' [Some x]) \<and> sint x \<noteq> 9223372036854776000"
  using overflowing_instant_accepted [where w = 9223372036854776 and
    desc = "sample_descriptor\<lparr>d_fields := [\<lparr>fld_ID = 1, fld_Name = ''at'', fld_Kind = KindTimestampTz, fld_Precision = 0,
       fld_Scale = 0, fld_Required = True\<rparr>]\<rparr>" and
    f = "\<lparr>fld_ID = 1, fld_Name = ''at'', fld_Kind = KindTimestampTz, fld_Precision = 0, fld_Scale = 0, fld_Required = True\<rparr>"
    and t = "''t''" and n = "''at''"] by simp

text \<open>The comment on \<open>parseDecimalType\<close> says exactly one spelling of a decimal is accepted; \<open>strconv.Atoi\<close> takes a plus
  sign and leading zeros, so there are others.\<close>

theorem decimal_has_spellings:
  "parseColumnType t f ''decimal(+18,09)'' = Inr (DecimalType 18 9) \<and> parseColumnType t f ''decimal(18,9)'' = Inr (DecimalType 18 9)"
  by (simp add: parseColumnType_def HasPrefix_def parseDecimalType_def CutPrefix_def CutSuffix_def Cut_def Let_def
      ParseInt_def ParseUint_def is_digit_def digit_val_def max_uint64_def maxDocDecimalPrecision_def)

end
