(* ===== verification/Mirror.thy ===== *)
theory Mirror
  imports BatchBuild
begin

text \<open>The package \<open>internal/chmirror\<close>: the statements it renders, the preparation of a table's mirror, and the insert of one
  batch. The driver's connection is the parameter \<open>driver_Conn\<close> over the server's state \<open>'s\<close>: every call gives its error
  and the state after it, and the rows of a query come with the errors of scanning them.\<close>

section \<open>Statements: \<open>ddl.go\<close>\<close>

definition BatchKeyColumn :: string where "BatchKeyColumn = ''_batch_key''"
definition nameSeparator :: string where "nameSeparator = ''__''"
definition dedupWindow :: int where "dedupWindow = 1000"

text \<open>\<open>strings.Contains\<close>.\<close>

fun Contains :: "string \<Rightarrow> string \<Rightarrow> bool" where
  "Contains [] sub \<longleftrightarrow> sub = []"
| "Contains (c # s) sub \<longleftrightarrow> HasPrefix (c # s) sub \<or> Contains s sub"

definition TableName :: "string \<Rightarrow> string \<Rightarrow> (error, string) result" where
  "TableName namespace table =
    (if Contains namespace nameSeparator \<or> Contains table nameSeparator
     then Inl (EClickHouse (ClickHouseError namespace table (namespace @ nameSeparator @ table) '''' '''' 0
       ClickHouseKindConflict (Some (ErrOther ''the name would not map back uniquely''))))
     else Inr (namespace @ nameSeparator @ table))"

record mirror_column =
  mc_name :: string
  mc_typ :: string
  mc_field :: Field

definition zero_Field :: Field where
  "zero_Field = \<lparr>fld_ID = 0, fld_Name = [], fld_Kind = KindOther 0, fld_Precision = 0, fld_Scale = 0, fld_Required = False\<rparr>"

definition columnType :: "Field \<Rightarrow> string" where
  "columnType f =
    (let t = (case fld_Kind f of
        KindBoolean \<Rightarrow> ''Bool'' | KindInt \<Rightarrow> ''Int32'' | KindLong \<Rightarrow> ''Int64'' | KindFloat \<Rightarrow> ''Float32''
      | KindDouble \<Rightarrow> ''Float64''
      | KindDecimal \<Rightarrow> ''Decimal('' @ FormatInt (fld_Precision f) @ '', '' @ FormatInt (fld_Scale f) @ '')''
      | KindTimestampTz \<Rightarrow> ''DateTime64(6, '' @ [CHR 0x27] @ ''UTC'' @ [CHR 0x27] @ '')''
      | KindString \<Rightarrow> ''String'' | KindBinary \<Rightarrow> ''String'' | KindOther _ \<Rightarrow> []) in
     if \<not> fld_Required f then ''Nullable('' @ t @ '')'' else t)"

definition mirror_conflict :: "string \<Rightarrow> string \<Rightarrow> string \<Rightarrow> string \<Rightarrow> error" where
  "mirror_conflict namespace table target col =
    EClickHouse (ClickHouseError namespace table target col '''' 0 ClickHouseKindConflict (Some (ErrOther ''conflict'')))"

definition columnsFor :: "string \<Rightarrow> string \<Rightarrow> string \<Rightarrow> Descriptor \<Rightarrow> (error, mirror_column list) result" where
  "columnsFor namespace table target d =
    (case first_error (\<lambda>f. if fld_Name f = BatchKeyColumn then Some (mirror_conflict namespace table target (fld_Name f)) else None)
        (d_fields d) of
       Some e \<Rightarrow> Inl e
     | None \<Rightarrow> Inr (map (\<lambda>f. \<lparr>mc_name = fld_Name f, mc_typ = columnType f, mc_field = f\<rparr>) (d_fields d) @
         [\<lparr>mc_name = BatchKeyColumn, mc_typ = ''String'', mc_field = zero_Field\<rparr>]))"

definition quote_char :: char where "quote_char = CHR 0x60"

text \<open>Each backslash and each backtick is escaped, byte by byte.\<close>

definition escape_ident :: "string \<Rightarrow> string" where
  "escape_ident s = concat (map (\<lambda>c. if c = CHR 0x5C \<or> c = quote_char then [CHR 0x5C, c] else [c]) s)"

definition quoteIdent :: "string \<Rightarrow> string" where
  "quoteIdent s = quote_char # escape_ident s @ [quote_char]"

record TTL =
  ttl_Column :: string
  ttl_Seconds :: int

definition createDatabase :: "string \<Rightarrow> string" where
  "createDatabase database = ''CREATE DATABASE IF NOT EXISTS '' @ quoteIdent database"

text \<open>\<open>strings.Join\<close>.\<close>

fun Join :: "string list \<Rightarrow> string \<Rightarrow> string" where
  "Join [] sep = []"
| "Join [x] sep = x"
| "Join (x # y # xs) sep = x @ sep @ Join (y # xs) sep"

definition newline :: string where "newline = [CHR 0x0A]"

definition ttlExpr :: "TTL \<Rightarrow> string" where
  "ttlExpr ttl = quoteIdent (ttl_Column ttl) @ '' + toIntervalSecond('' @ FormatInt (ttl_Seconds ttl) @ '')''"

definition mirror_createTable :: "string \<Rightarrow> string \<Rightarrow> mirror_column list \<Rightarrow> TTL option \<Rightarrow> string" where
  "mirror_createTable database table cols ttl =
    ''CREATE TABLE IF NOT EXISTS '' @ quoteIdent database @ ''.'' @ quoteIdent table @ '' ('' @ newline @
    Join (map (\<lambda>c. ''  '' @ quoteIdent (mc_name c) @ '' '' @ mc_typ c) cols) ('','' @ newline) @
    newline @ '') ENGINE = MergeTree'' @ newline @ ''ORDER BY tuple()'' @
    (case ttl of None \<Rightarrow> [] | Some t \<Rightarrow> newline @ ''TTL '' @ ttlExpr t) @
    newline @ ''SETTINGS non_replicated_deduplication_window = '' @ FormatInt dedupWindow"

definition modifyTTL :: "string \<Rightarrow> string \<Rightarrow> TTL \<Rightarrow> string" where
  "modifyTTL database table ttl =
    ''ALTER TABLE '' @ quoteIdent database @ ''.'' @ quoteIdent table @ '' MODIFY TTL '' @ ttlExpr ttl"

definition mirror_addColumn :: "string \<Rightarrow> string \<Rightarrow> mirror_column \<Rightarrow> string" where
  "mirror_addColumn database table c =
    ''ALTER TABLE '' @ quoteIdent database @ ''.'' @ quoteIdent table @ '' ADD COLUMN IF NOT EXISTS '' @
    quoteIdent (mc_name c) @ '' '' @ mc_typ c"

definition insertStatement :: "string \<Rightarrow> string \<Rightarrow> string list \<Rightarrow> string" where
  "insertStatement database table names =
    ''INSERT INTO '' @ quoteIdent database @ ''.'' @ quoteIdent table @ '' ('' @ Join (map quoteIdent names) '', '' @ '')''"

definition stripIdentQuotes :: "string \<Rightarrow> string" where
  "stripIdentQuotes s = filter (\<lambda>c. c \<noteq> quote_char) s"

section \<open>The driver\<close>

text \<open>The slices a batch column takes: values, or pointers with nil for a null. A decimal is its unscaled value and its
  exponent, a time its microseconds since the epoch.\<close>

datatype ch_value =
  CBool bool | CInt32 "32 word" | CInt64 "64 word" | CFloat32 "32 word" | CFloat64 "64 word"
| CDecimal int int | CTime int | CString bytes

datatype ch_slice = Plain "ch_value list" | Pointers "ch_value option list"

record 's driver_Conn =
  Exec :: "string \<Rightarrow> 's \<Rightarrow> error option \<times> 's"
  QueryColumns :: "string \<Rightarrow> string \<Rightarrow> 's \<Rightarrow> (error, (error, string \<times> string) result list \<times> error option) result \<times> 's"
  QueryEngine :: "string \<Rightarrow> string \<Rightarrow> 's \<Rightarrow> (error, string) result \<times> 's"
  PrepareBatch :: "string \<Rightarrow> string \<Rightarrow> 's \<Rightarrow> error option \<times> 's"
  Column_Append :: "nat \<Rightarrow> ch_slice \<Rightarrow> 's \<Rightarrow> error option \<times> 's"
  Send :: "'s \<Rightarrow> error option \<times> 's"
  Abort :: "'s \<Rightarrow> 's"
  IsException :: "error \<Rightarrow> bool"

section \<open>A table's mirror: \<open>table.go\<close>\<close>

record mirror_table =
  mt_database :: string
  mt_namespace :: string
  mt_table :: string
  mt_name :: string
  mt_target :: string
  mt_cols :: "mirror_column list"
  mt_ready :: bool
  mt_stmt :: string
  mt_order :: "string list"
  mt_ttl :: "TTL option"

text \<open>The map \<open>byName\<close>, filled in column order.\<close>

definition mt_byName :: "mirror_table \<Rightarrow> string \<Rightarrow> mirror_column option" where
  "mt_byName t = map_of (rev (map (\<lambda>c. (mc_name c, c)) (mt_cols t)))"

definition validateTTL :: "string \<Rightarrow> string \<Rightarrow> string \<Rightarrow> Descriptor \<Rightarrow> TTL option \<Rightarrow> error option" where
  "validateTTL namespace table target d ttl =
    (case ttl of
       None \<Rightarrow> None
     | Some t \<Rightarrow>
         let bad = mirror_conflict namespace table target (ttl_Column t) in
         if ttl_Seconds t \<le> 0 then Some bad
         else case find (\<lambda>f. fld_Name f = ttl_Column t) (d_fields d) of
           None \<Rightarrow> Some bad
         | Some f \<Rightarrow>
             if fld_Kind f \<noteq> KindTimestampTz then Some bad
             else if \<not> fld_Required f then Some bad else None)"

definition NewTable :: "string \<Rightarrow> string \<Rightarrow> string \<Rightarrow> Descriptor \<Rightarrow> TTL option \<Rightarrow> (error, mirror_table) result" where
  "NewTable database namespace table d ttl =
    res_bind (TableName namespace table) (\<lambda>name.
    let target = database @ ''.'' @ name in
    res_bind (columnsFor namespace table target d) (\<lambda>cols.
    case validateTTL namespace table target d ttl of
      Some e \<Rightarrow> Inl e
    | None \<Rightarrow> Inr \<lparr>mt_database = database, mt_namespace = namespace, mt_table = table, mt_name = name, mt_target = target,
        mt_cols = cols, mt_ready = False, mt_stmt = [], mt_order = [], mt_ttl = ttl\<rparr>))"

definition kindFor :: "'s driver_Conn \<Rightarrow> error \<Rightarrow> ClickHouseKind" where
  "kindFor c e = (if IsException c e then ClickHouseKindSchema else ClickHouseKindConnect)"

definition mirror_fail :: "mirror_table \<Rightarrow> ClickHouseKind \<Rightarrow> error \<Rightarrow> error" where
  "mirror_fail t kind e = NewClickHouseError kind (mt_namespace t) (mt_table t) (mt_target t) (Some e)"

definition table_conflict :: "mirror_table \<Rightarrow> string \<Rightarrow> error" where
  "table_conflict t col = mirror_conflict (mt_namespace t) (mt_table t) (mt_target t) col"

definition isNullable :: "string \<Rightarrow> bool" where
  "isNullable t \<longleftrightarrow> length t > 9 \<and> take 9 t = ''Nullable(''"

text \<open>The loop over \<open>rows.Next()\<close>: the map it fills, in order of the rows.\<close>

fun scan_columns :: "(error, string \<times> string) result list \<Rightarrow> (string \<times> string) list \<Rightarrow> (error, (string \<times> string) list) result" where
  "scan_columns [] live = Inr live"
| "scan_columns (Inl e # rows) live = Inl e"
| "scan_columns (Inr r # rows) live = scan_columns rows (r # live)"

definition liveColumns :: "'s driver_Conn \<Rightarrow> mirror_table \<Rightarrow> 's \<Rightarrow> (error, string \<Rightarrow> string option) result \<times> 's" where
  "liveColumns c t s =
    (case QueryColumns c (mt_database t) (mt_name t) s of
       (Inl e, s1) \<Rightarrow> (Inl (mirror_fail t (kindFor c e) e), s1)
     | (Inr (rows, failed), s1) \<Rightarrow>
         (case scan_columns rows [] of
            Inl e \<Rightarrow> (Inl (mirror_fail t ClickHouseKindSchema e), s1)
          | Inr live \<Rightarrow>
              (case failed of
                 Some e \<Rightarrow> (Inl (mirror_fail t (kindFor c e) e), s1)
               | None \<Rightarrow> (Inr (map_of live), s1))))"

fun reconcile_columns :: "'s driver_Conn \<Rightarrow> mirror_table \<Rightarrow> (string \<Rightarrow> string option) \<Rightarrow> mirror_column list \<Rightarrow> 's \<Rightarrow> error option \<times> 's" where
  "reconcile_columns c t live [] s = (None, s)"
| "reconcile_columns c t live (col # cols) s =
    (case live (mc_name col) of
       Some typ \<Rightarrow>
         if typ = mc_typ col then reconcile_columns c t live cols s else (Some (table_conflict t (mc_name col)), s)
     | None \<Rightarrow>
         if isNullable (mc_typ col)
         then (case Exec c (mirror_addColumn (mt_database t) (mt_name t) col) s of
             (Some e, s') \<Rightarrow> (Some (mirror_fail t (kindFor c e) e), s')
           | (None, s') \<Rightarrow> reconcile_columns c t live cols s')
         else (Some (table_conflict t (mc_name col)), s))"

definition ensureTTL :: "'s driver_Conn \<Rightarrow> mirror_table \<Rightarrow> 's \<Rightarrow> error option \<times> 's" where
  "ensureTTL c t s =
    (case mt_ttl t of
       None \<Rightarrow> (None, s)
     | Some ttl \<Rightarrow>
         (case QueryEngine c (mt_database t) (mt_name t) s of
            (Inl e, s1) \<Rightarrow> (Some (mirror_fail t (kindFor c e) e), s1)
          | (Inr engineFull, s1) \<Rightarrow>
              if Contains engineFull (''TTL '' @ ttlExpr ttl) \<or> Contains engineFull (''TTL '' @ stripIdentQuotes (ttlExpr ttl))
              then (None, s1)
              else case Exec c (modifyTTL (mt_database t) (mt_name t) ttl) s1 of
                (Some e, s2) \<Rightarrow> (Some (mirror_fail t (kindFor c e) e), s2)
              | (None, s2) \<Rightarrow> (None, s2)))"

definition exec_or_fail :: "'s driver_Conn \<Rightarrow> mirror_table \<Rightarrow> string \<Rightarrow> 's \<Rightarrow> error option \<times> 's" where
  "exec_or_fail c t stmt_text s =
    (case Exec c stmt_text s of (Some e, s') \<Rightarrow> (Some (mirror_fail t (kindFor c e) e), s') | (None, s') \<Rightarrow> (None, s'))"

definition Ensure :: "'s driver_Conn \<Rightarrow> mirror_table \<Rightarrow> 's \<Rightarrow> error option \<times> mirror_table \<times> 's" where
  "Ensure c t s =
    (if mt_ready t then (None, t, s)
     else case exec_or_fail c t (createDatabase (mt_database t)) s of
       (Some e, s1) \<Rightarrow> (Some e, t, s1)
     | (None, s1) \<Rightarrow>
     (case exec_or_fail c t (mirror_createTable (mt_database t) (mt_name t) (mt_cols t) (mt_ttl t)) s1 of
       (Some e, s2) \<Rightarrow> (Some e, t, s2)
     | (None, s2) \<Rightarrow>
     (case liveColumns c t s2 of
       (Inl e, s3) \<Rightarrow> (Some e, t, s3)
     | (Inr live, s3) \<Rightarrow>
     (case reconcile_columns c t live (mt_cols t) s3 of
       (Some e, s4) \<Rightarrow> (Some e, t, s4)
     | (None, s4) \<Rightarrow>
     (case ensureTTL c t s4 of
       (Some e, s5) \<Rightarrow> (Some e, t, s5)
     | (None, s5) \<Rightarrow> (None, t\<lparr>mt_ready := True\<rparr>, s5))))))"

section \<open>One column: \<open>append.go\<close>, \<open>decimal.go\<close>\<close>

definition array_length :: "arrow_array \<Rightarrow> nat" where
  "array_length a = (case a of ABools v \<Rightarrow> length v | AInt32s v \<Rightarrow> length v | AInt64s v \<Rightarrow> length v | AFloat32s v \<Rightarrow> length v
    | AFloat64s v \<Rightarrow> length v | AStrings v \<Rightarrow> length v | ABinaries v \<Rightarrow> length v)"

definition column_length :: "column \<Rightarrow> nat" where
  "column_length c = (case c of Untouched a \<Rightarrow> array_length a | Timestamps u z v \<Rightarrow> length v | Decimal128s p s v \<Rightarrow> length v)"

text \<open>\<open>appendValues\<close>: \<open>zero\<close> is what the array holds under a null, which a required column has none of.\<close>

definition appendValues :: "Field \<Rightarrow> 'a \<Rightarrow> ('a \<Rightarrow> ch_value) \<Rightarrow> 'a option list \<Rightarrow> ch_slice" where
  "appendValues f zero value slots =
    (if fld_Required f then Plain (map (\<lambda>v. value (case v of None \<Rightarrow> zero | Some x \<Rightarrow> x)) slots)
     else Pointers (map (map_option value) slots))"

definition unscaledToDecimal :: "64 word \<times> 64 word \<Rightarrow> int \<Rightarrow> ch_value" where
  "unscaledToDecimal n scale = CDecimal (sint (snd n)) (sint (word_of_int (- scale) :: 32 word))"

definition appendColumn :: "Field \<Rightarrow> column \<Rightarrow> (error, ch_slice option) result" where
  "appendColumn f src =
    (let wrong = Inl (ErrOther ''the record holds another type'') in
     if column_length src = 0 then Inr None
     else case fld_Kind f of
       KindBoolean \<Rightarrow> (case src of Untouched (ABools v) \<Rightarrow> Inr (Some (appendValues f False CBool v)) | _ \<Rightarrow> wrong)
     | KindInt \<Rightarrow> (case src of Untouched (AInt32s v) \<Rightarrow> Inr (Some (appendValues f 0 CInt32 v)) | _ \<Rightarrow> wrong)
     | KindLong \<Rightarrow> (case src of Untouched (AInt64s v) \<Rightarrow> Inr (Some (appendValues f 0 CInt64 v)) | _ \<Rightarrow> wrong)
     | KindFloat \<Rightarrow> (case src of Untouched (AFloat32s v) \<Rightarrow> Inr (Some (appendValues f 0 CFloat32 v)) | _ \<Rightarrow> wrong)
     | KindDouble \<Rightarrow> (case src of Untouched (AFloat64s v) \<Rightarrow> Inr (Some (appendValues f 0 CFloat64 v)) | _ \<Rightarrow> wrong)
     | KindDecimal \<Rightarrow> (case src of
         Decimal128s p s v \<Rightarrow> Inr (Some (appendValues f (0, 0) (\<lambda>n. unscaledToDecimal n (fld_Scale f)) v)) | _ \<Rightarrow> wrong)
     | KindTimestampTz \<Rightarrow> (case src of
         Timestamps u z v \<Rightarrow> Inr (Some (appendValues f 0 (\<lambda>x. CTime (sint x)) v)) | _ \<Rightarrow> wrong)
     | KindString \<Rightarrow> (case src of
         Untouched (AStrings v) \<Rightarrow> Inr (Some (appendValues f [] (CString \<circ> bytes_of_str) v)) | _ \<Rightarrow> wrong)
     | KindBinary \<Rightarrow> (case src of Untouched (ABinaries v) \<Rightarrow> Inr (Some (appendValues f [] CString v)) | _ \<Rightarrow> wrong)
     | KindOther _ \<Rightarrow> Inl (ErrOther ''no ClickHouse type''))"

section \<open>One batch: \<open>Insert\<close>\<close>

text \<open>The record of a batch: its schema, its columns and its number of rows.\<close>

record record_batch =
  rb_fields :: "arrow_field list"
  rb_columns :: "column list"
  rb_rows :: nat

definition insertFail :: "mirror_table \<Rightarrow> string \<Rightarrow> nat \<Rightarrow> ClickHouseKind \<Rightarrow> error option \<Rightarrow> error" where
  "insertFail t key n kind e =
    EClickHouse (ClickHouseError (mt_namespace t) (mt_table t) (mt_target t) '''' key (int n) kind e)"

text \<open>The loop over the record's columns from position \<open>i\<close>, on the prepared batch.\<close>

fun append_columns :: "'s driver_Conn \<Rightarrow> mirror_table \<Rightarrow> string \<Rightarrow> nat \<Rightarrow> nat \<Rightarrow> (arrow_field \<times> column) list \<Rightarrow> 's \<Rightarrow> error option \<times> 's" where
  "append_columns c t key n i [] s = (None, s)"
| "append_columns c t key n i ((f, col) # cols) s =
    (case mt_byName t (af_Name f) of
       None \<Rightarrow> (Some (insertFail t key n ClickHouseKindConflict None), s)
     | Some m \<Rightarrow>
         (case appendColumn (mc_field m) col of
            Inl e \<Rightarrow> (Some (insertFail t key n ClickHouseKindInsert (Some e)), s)
          | Inr None \<Rightarrow> append_columns c t key n (i + 1) cols s
          | Inr (Some vs) \<Rightarrow>
              (case Column_Append c i vs s of
                 (Some e, s') \<Rightarrow> (Some (insertFail t key n ClickHouseKindInsert (Some e)), s')
               | (None, s') \<Rightarrow> append_columns c t key n (i + 1) cols s')))"

definition with_statement :: "mirror_table \<Rightarrow> string list \<Rightarrow> mirror_table" where
  "with_statement t names =
    (if mt_stmt t = [] \<or> mt_order t \<noteq> names
     then t\<lparr>mt_stmt := insertStatement (mt_database t) (mt_name t) names, mt_order := names\<rparr> else t)"

definition send_batch :: "'s driver_Conn \<Rightarrow> mirror_table \<Rightarrow> string \<Rightarrow> record_batch \<Rightarrow> 's \<Rightarrow> error option \<times> 's" where
  "send_batch c t key b s =
    (let n = rb_rows b in
     case append_columns c t key n 0 (zip (rb_fields b) (rb_columns b)) s of
       (Some e, s1) \<Rightarrow> (Some e, Abort c s1)
     | (None, s1) \<Rightarrow>
         (case Column_Append c (length (rb_fields b)) (Plain (replicate n (CString (bytes_of_str key)))) s1 of
            (Some e, s2) \<Rightarrow> (Some (insertFail t key n ClickHouseKindInsert (Some e)), Abort c s2)
          | (None, s2) \<Rightarrow>
              (case Send c s2 of
                 (Some e, s3) \<Rightarrow> (Some (insertFail t key n (kindFor c e) (Some e)), s3)
               | (None, s3) \<Rightarrow> (None, s3))))"

definition mirror_Insert :: "'s driver_Conn \<Rightarrow> mirror_table \<Rightarrow> string \<Rightarrow> record_batch \<Rightarrow> 's \<Rightarrow> error option \<times> mirror_table \<times> 's" where
  "mirror_Insert c t key b s =
    (case Ensure c t s of
       (Some e, t1, s1) \<Rightarrow> (Some e, t1, s1)
     | (None, t1, s1) \<Rightarrow>
         let t2 = with_statement t1 (map af_Name (rb_fields b) @ [BatchKeyColumn]) in
         (case PrepareBatch c key (mt_stmt t2) s1 of
            (Some e, s2) \<Rightarrow> (Some (insertFail t2 key (rb_rows b) (kindFor c e) (Some e)), t2, s2)
          | (None, s2) \<Rightarrow> (case send_batch c t2 key b s2 of (r, s3) \<Rightarrow> (r, t2, s3))))"

section \<open>Preparing a mirror at the open: \<open>mirrorFor\<close> of \<open>store.go\<close>\<close>

record MirrorTTL =
  mttl_Column :: string
  mttl_After :: int

definition is_ClickHouse :: "error \<Rightarrow> bool" where
  "is_ClickHouse e = (case e of EClickHouse _ \<Rightarrow> True | _ \<Rightarrow> False)"

text \<open>The answer, the error the callback is given, and the server's state. The first argument tells whether the callback
  \<open>OnClickHouseError\<close> is set; without one nobody is told. A division of durations truncates towards zero.\<close>

definition mirrorFor :: "bool \<Rightarrow> ('s driver_Conn \<times> string) option \<Rightarrow> string \<Rightarrow> string \<Rightarrow> Descriptor \<Rightarrow> MirrorTTL option \<Rightarrow> 's \<Rightarrow>
    (error, mirror_table option) result \<times> error option \<times> 's" where
  "mirrorFor hook conn namespace name desc ttl s =
    (case conn of
       None \<Rightarrow> (Inr None, None, s)
     | Some (c, database) \<Rightarrow>
         (let ch = map_option (\<lambda>t. \<lparr>ttl_Column = mttl_Column t,
             ttl_Seconds = sgn (mttl_After t) * (\<bar>mttl_After t\<bar> div 1000000000)\<rparr>) ttl in
          case NewTable database namespace name desc ch of
            Inl e \<Rightarrow> (Inl e, None, s)
          | Inr t \<Rightarrow>
              (case Ensure c t s of
                 (None, t', s') \<Rightarrow> (Inr (Some t'), None, s')
               | (Some e, t', s') \<Rightarrow>
                   (case errors_As is_ClickHouse e of
                      Some (EClickHouse x) \<Rightarrow>
                        if che_Kind x = ClickHouseKindConflict then (Inl e, None, s')
                        else if hook then (Inr (Some t'), Some (EClickHouse x), s')
                        else (Inr (Some t'), None, s')
                    | _ \<Rightarrow> (Inr (Some t'), None, s')))))"

end
