(* ===== verification/MirrorProps.thy ===== *)
theory MirrorProps
  imports Mirror
begin

text \<open>The names and statements of a mirror, what preparing it may do to a server, and what an insert hands over.\<close>

section \<open>Names\<close>

lemma Contains_append: "Contains s sub \<longleftrightarrow> (\<exists>a b. s = a @ sub @ b)"
proof (induction s)
  case (Cons c s)
  have "HasPrefix (c # s) sub \<longleftrightarrow> (\<exists>b. c # s = sub @ b)"
    unfolding HasPrefix_def by (metis append_eq_conv_conj)
  moreover have "(\<exists>a b. c # s = a @ sub @ b) \<longleftrightarrow> (\<exists>b. c # s = sub @ b) \<or> (\<exists>a b. s = a @ sub @ b)"
    by (metis append_Cons append_Nil neq_Nil_conv list.inject)
  ultimately show ?case using Cons by simp
qed simp

text \<open>Where a name that does not start with an underscore and one without a double underscore meet is the last separator of
  their join, so the join determines both.\<close>

lemma separator_unique:
  assumes "a @ ''__'' @ b = c @ ''__'' @ d" "\<not> Contains a ''__''" "\<not> Contains c ''__''"
    "b \<noteq> []" "hd b \<noteq> CHR ''_''" "d \<noteq> []" "hd d \<noteq> CHR ''_''"
  shows "a = c \<and> b = d"
proof -
  have left: False if "x = y @ z" "z \<noteq> []" "z @ ''__'' @ p = ''__'' @ q" "\<not> Contains x ''__''" "q \<noteq> []" "hd q \<noteq> CHR ''_''" for x y z p q :: string
  proof -
    have "z = ''_'' \<or> (\<exists>z'. z = ''__'' @ z')"
      using that(2,3) by (cases z; cases "tl z") auto
    then show False
    proof
      assume "z = ''_''"
      then have "q = ''_'' @ p" using that(3) by simp
      then show False using that(6) by simp
    next
      assume "\<exists>z'. z = ''__'' @ z'"
      then show False using that(1,4) Contains_append by blast
    qed
  qed
  from assms(1) obtain z where "a = c @ z \<and> z @ ''__'' @ b = ''__'' @ d \<or> a @ z = c \<and> ''__'' @ b = z @ ''__'' @ d"
    unfolding append_eq_append_conv2 by blast
  then show ?thesis
  proof
    assume z: "a = c @ z \<and> z @ ''__'' @ b = ''__'' @ d"
    then have "z = []" using left [of a c z b d] assms(2,6,7) by blast
    with z show ?thesis by simp
  next
    assume z: "a @ z = c \<and> ''__'' @ b = z @ ''__'' @ d"
    then have "z = []" using left [of c a z d b] assms(3-5) by metis
    with z show ?thesis by simp
  qed
qed


lemma valid_name_start: "ValidateName k v = None \<Longrightarrow> v \<noteq> [] \<and> hd v \<noteq> CHR ''_''"
  unfolding ValidateName_iff by (simp add: name_ok_def)

section \<open>Identifiers\<close>

text \<open>ClickHouse's reading of a backquoted identifier: a backslash takes the next byte as it is, a backtick ends it.\<close>

fun read_ident :: "string \<Rightarrow> (string \<times> string) option" where
  "read_ident (c # s) =
    (if c = quote_char then Some ([], s)
     else if c = CHR 0x5C then (case s of [] \<Rightarrow> None | x # s' \<Rightarrow> map_option (map_prod ((#) x) id) (read_ident s'))
     else map_option (map_prod ((#) c) id) (read_ident s))"
| "read_ident [] = None"

definition read_quoted :: "string \<Rightarrow> (string \<times> string) option" where
  "read_quoted s = (case s of [] \<Rightarrow> None | c # s' \<Rightarrow> if c = quote_char then read_ident s' else None)"

lemma read_escaped: "read_ident (escape_ident s @ quote_char # more_text) = Some (s, more_text)"
  by (induction s) (auto simp: escape_ident_def quote_char_def)

lemma read_quoteIdent [simp]: "read_quoted (quoteIdent s @ more_text) = Some (s, more_text)"
  by (simp add: quoteIdent_def read_quoted_def read_escaped)

text \<open>A list of quoted identifiers, separated by a comma and a blank and ended by a parenthesis.\<close>

function read_list :: "string \<Rightarrow> string list option" where
  "read_list s = (case read_quoted s of
      None \<Rightarrow> None
    | Some (x, s') \<Rightarrow>
        if s' = '')'' then Some [x]
        else if take 2 s' = '', '' \<and> length s' < length s then map_option ((#) x) (read_list (drop 2 s'))
        else None)"
  by pat_completeness auto
termination by (relation "measure length") auto

declare read_list.simps [simp del]

lemma quoteIdent_nonempty [simp]: "quoteIdent s \<noteq> []"
  by (simp add: quoteIdent_def)

lemma read_list_Join: "names \<noteq> [] \<Longrightarrow> read_list (Join (map quoteIdent names) '', '' @ '')'') = Some names"
proof (induction names rule: induct_list012)
  case (2 x)
  have "read_quoted (quoteIdent x @ '')'') = Some (x, '')'')" by simp
  then show ?case by (subst read_list.simps) simp
next
  case (3 x y zs)
  let ?t = "'', '' @ Join (map quoteIdent (y # zs)) '', '' @ '')''"
  have "read_quoted (quoteIdent x @ ?t) = Some (x, ?t)" by (rule read_quoteIdent)
  moreover have "length ?t < length (quoteIdent x @ ?t)" by simp
  ultimately show ?case using 3 by (subst read_list.simps) simp
qed simp

text \<open>Reading a whole insert header.\<close>

definition read_insert :: "string \<Rightarrow> (string \<times> string \<times> string list) option" where
  "read_insert s =
    (if \<not> HasPrefix s ''INSERT INTO '' then None
     else case read_quoted (drop 12 s) of None \<Rightarrow> None | Some (d, s1) \<Rightarrow>
       if take 1 s1 \<noteq> ''.'' then None
       else case read_quoted (drop 1 s1) of None \<Rightarrow> None | Some (t, s2) \<Rightarrow>
         if take 2 s2 \<noteq> '' ('' then None else map_option (\<lambda>names. (d, t, names)) (read_list (drop 2 s2)))"

lemma read_insertStatement: "names \<noteq> [] \<Longrightarrow> read_insert (insertStatement d t names) = Some (d, t, names)"
  using read_list_Join [of names] by (simp add: read_insert_def insertStatement_def HasPrefix_def)


section \<open>What a server is asked to do\<close>

text \<open>A server as documented, seen through the columns of the table \<open>t\<close> mirrors: a database is created beside them, a
  table is created with its columns only where there is none, a column is added only where there is none of its name, at
  the end, and nothing else changes them. A statement that fails has done its work or nothing.\<close>

abbreviation rendered :: "mirror_table \<Rightarrow> (string \<times> string) list" where
  "rendered t \<equiv> map (\<lambda>m. (mc_name m, mc_typ m)) (mt_cols t)"

locale schema_server =
  fixes c :: "'s driver_Conn" and t :: mirror_table and columns :: "'s \<Rightarrow> (string \<times> string) list option"
  assumes creates_database: "Exec c (createDatabase (mt_database t)) s = (r, s') \<Longrightarrow> columns s' = columns s"
    and creates_table: "Exec c (mirror_createTable (mt_database t) (mt_name t) (mt_cols t) (mt_ttl t)) s = (r, s') \<Longrightarrow>
      columns s' = (case columns s of None \<Rightarrow> Some (rendered t) | Some xs \<Rightarrow> Some xs) \<or> r \<noteq> None \<and> columns s' = columns s"
    and adds_column: "m \<in> set (mt_cols t) \<Longrightarrow> columns s = Some xs \<Longrightarrow>
      Exec c (mirror_addColumn (mt_database t) (mt_name t) m) s = (r, s') \<Longrightarrow>
      columns s' = (if mc_name m \<in> fst ` set xs then Some xs else Some (xs @ [(mc_name m, mc_typ m)])) \<or>
      r \<noteq> None \<and> columns s' = columns s"
    and modifies_ttl: "mt_ttl t = Some ttl \<Longrightarrow> Exec c (modifyTTL (mt_database t) (mt_name t) ttl) s = (r, s') \<Longrightarrow> columns s' = columns s"
    and reads_columns: "QueryColumns c (mt_database t) (mt_name t) s = (q, s') \<Longrightarrow>
      columns s' = columns s \<and> (\<forall>rows xs. q = Inr (rows, None) \<longrightarrow> columns s = Some xs \<longrightarrow> (\<forall>e. Inl e \<notin> set rows) \<longrightarrow>
        rows = map Inr xs)"
    and reads_engine: "QueryEngine c (mt_database t) (mt_name t) s = (e, s') \<Longrightarrow> columns s' = columns s"
begin

lemma exec_or_fail_Exec: "exec_or_fail c t st s = (r, s') \<Longrightarrow> \<exists>r0. Exec c st s = (r0, s') \<and> (r = None \<longleftrightarrow> r0 = None)"
  by (auto simp: exec_or_fail_def split: prod.splits option.splits)

lemma scan_columns_Inr: "scan_columns rows acc = Inr live \<Longrightarrow> (\<forall>e. Inl e \<notin> set rows) \<and> live = rev (map projr rows) @ acc"
  by (induction rows acc rule: scan_columns.induct) auto

lemma liveColumns_columns:
  assumes "liveColumns c t s = (r, s')" "columns s = Some xs" "distinct (map fst xs)"
  shows "columns s' = Some xs \<and> (\<forall>live. r = Inr live \<longrightarrow> live = map_of xs)"
proof -
  obtain q s1 where q: "QueryColumns c (mt_database t) (mt_name t) s = (q, s1)" by fastforce
  note rd = reads_columns [OF q]
  have s': "s' = s1" using assms(1) q by (auto simp: liveColumns_def split: sum.splits prod.splits option.splits)
  have "live = map_of xs" if ok: "r = Inr live" for live
  proof -
    obtain rows l where l: "q = Inr (rows, None)" "scan_columns rows [] = Inr l" "live = map_of l"
      using assms(1) q ok by (auto simp: liveColumns_def split: sum.splits prod.splits option.splits)
    have noerr: "\<forall>e. Inl e \<notin> set rows" and l': "l = rev (map projr rows)"
      using scan_columns_Inr [OF l(2)] by simp_all
    have "rows = map Inr xs"
      by (rule mp [OF mp [OF mp [OF spec [OF spec [OF conjunct2 [OF rd]]] l(1)] assms(2)] noerr])
    then have "l = rev xs" by (simp add: l' comp_def)
    moreover have "map_of (rev xs) = map_of xs"
      using assms(3) by (simp add: map_of_inject_set rev_map [symmetric])
    ultimately show ?thesis using l(3) by simp
  qed
  with rd s' assms(2) show ?thesis by simp
qed

text \<open>The loop over the declared columns.\<close>

lemma reconcile_columns_keeps:
  assumes "reconcile_columns c t live cols s = (r, s')" "set cols \<subseteq> set (mt_cols t)" "distinct (map mc_name cols)"
    "columns s = Some xs" "distinct (map fst xs)" "\<forall>m\<in>set cols. live (mc_name m) = map_of xs (mc_name m)"
  shows "\<exists>ys. columns s' = Some (xs @ ys) \<and> distinct (map fst (xs @ ys)) \<and>
      (\<forall>y\<in>set ys. \<exists>m\<in>set cols. y = (mc_name m, mc_typ m) \<and> isNullable (mc_typ m)) \<and>
      (r = None \<longrightarrow> (\<forall>m\<in>set cols. (mc_name m, mc_typ m) \<in> set (xs @ ys)))"
  using assms
proof (induction cols arbitrary: s xs)
  case (Cons m cols)
  show ?case
  proof (cases "live (mc_name m)")
    case (Some ty)
    show ?thesis
    proof (cases "ty = mc_typ m")
      case True
      with Some Cons.prems have step: "reconcile_columns c t live cols s = (r, s')" by simp
      have "(mc_name m, mc_typ m) \<in> set xs"
        using Some True Cons.prems(6) by (simp add: map_of_SomeD)
      with Cons.IH [OF step _ _ Cons.prems(4,5)] Cons.prems(2,3,6) show ?thesis by fastforce
    next
      case False
      with Some Cons.prems show ?thesis by (intro exI [of _ "[]"]) auto
    qed
  next
    case None
    show ?thesis
    proof (cases "isNullable (mc_typ m)")
      case False
      with None Cons.prems show ?thesis by (intro exI [of _ "[]"]) auto
    next
      case True
      obtain r1 s1 where x: "Exec c (mirror_addColumn (mt_database t) (mt_name t) m) s = (r1, s1)" by fastforce
      have fresh: "mc_name m \<notin> fst ` set xs"
        using None Cons.prems(6) by (simp add: map_of_eq_None_iff)
      have s1: "columns s1 = Some (xs @ [(mc_name m, mc_typ m)]) \<or> r1 \<noteq> None \<and> columns s1 = Some xs"
        using adds_column [OF _ Cons.prems(4) x] Cons.prems(2,4) fresh by simp
      show ?thesis
      proof (cases r1)
        case (Some e)
        with None True x Cons.prems(1) have "s' = s1" "r \<noteq> None" by auto
        with s1 fresh True Cons.prems(5) show ?thesis
          by (elim disjE) (auto intro: exI [of _ "[(mc_name m, mc_typ m)]"] exI [of _ "[]"])
      next
        case r1: None
        with None True x Cons.prems(1) have step: "reconcile_columns c t live cols s1 = (r, s')" by simp
        have c1: "columns s1 = Some (xs @ [(mc_name m, mc_typ m)])" using s1 r1 by simp
        have "\<forall>k\<in>set cols. live (mc_name k) = map_of (xs @ [(mc_name m, mc_typ m)]) (mc_name k)"
        proof
          fix k assume k: "k \<in> set cols"
          then have "mc_name k \<in> mc_name ` set cols" by (rule imageI)
          then have "mc_name k \<noteq> mc_name m" using Cons.prems(3) by auto
          then show "live (mc_name k) = map_of (xs @ [(mc_name m, mc_typ m)]) (mc_name k)"
            using k Cons.prems(6) by (simp add: map_add_def split: option.splits)
        qed
        from Cons.IH [OF step _ _ c1 _ this] Cons.prems(2,3,5) fresh obtain ys where
          ys: "columns s' = Some ((xs @ [(mc_name m, mc_typ m)]) @ ys)" "distinct (map fst ((xs @ [(mc_name m, mc_typ m)]) @ ys))"
            "\<forall>y\<in>set ys. \<exists>k\<in>set cols. y = (mc_name k, mc_typ k) \<and> isNullable (mc_typ k)"
            "r = None \<longrightarrow> (\<forall>k\<in>set cols. (mc_name k, mc_typ k) \<in> set ((xs @ [(mc_name m, mc_typ m)]) @ ys))" by auto
        from ys True show ?thesis
          by (intro exI [of _ "(mc_name m, mc_typ m) # ys"]) auto
      qed
    qed
  qed
qed (auto intro: exI [of _ "[]"])

lemma ensureTTL_columns: "ensureTTL c t s = (r, s') \<Longrightarrow> columns s' = columns s"
  by (auto simp: ensureTTL_def split: option.splits prod.splits sum.splits if_splits dest!: reads_engine modifies_ttl)

definition grown :: "(string \<times> string) list option \<Rightarrow> 's \<Rightarrow> bool" where
  "grown before s' \<longleftrightarrow> (case before of
      None \<Rightarrow> True
    | Some xs \<Rightarrow> \<exists>ys. columns s' = Some (xs @ ys) \<and>
        (\<forall>y\<in>set ys. \<exists>m\<in>set (mt_cols t). y = (mc_name m, mc_typ m) \<and> isNullable (mc_typ m)))"

lemma grown_same: "columns s' = before \<Longrightarrow> grown before s'"
  by (auto simp: grown_def split: option.splits)

lemma Ensure_columns:
  assumes "Ensure c t s = (r, t', s')" "\<not> mt_ready t" "distinct (map mc_name (mt_cols t))"
    "\<forall>xs. columns s = Some xs \<longrightarrow> distinct (map fst xs)"
  shows "grown (columns s) s' \<and> (r = None \<longrightarrow> mt_ready t' \<and>
    (\<exists>xs. columns s' = Some xs \<and> distinct (map fst xs) \<and> set (rendered t) \<subseteq> set xs))"
proof -
  obtain r1 s1 where e1: "exec_or_fail c t (createDatabase (mt_database t)) s = (r1, s1)" by fastforce
  have c1: "columns s1 = columns s" using exec_or_fail_Exec [OF e1] creates_database by blast
  obtain r2 s2 where e2: "exec_or_fail c t (mirror_createTable (mt_database t) (mt_name t) (mt_cols t) (mt_ttl t)) s1 = (r2, s2)"
    by fastforce
  have c2: "columns s2 = (case columns s of None \<Rightarrow> Some (rendered t) | Some xs \<Rightarrow> Some xs) \<or> r2 \<noteq> None \<and> columns s2 = columns s"
    using exec_or_fail_Exec [OF e2] creates_table c1 by fastforce
  have g2: "grown (columns s) s2"
    using c2 by (auto simp: grown_def split: option.splits)
  obtain r3 s3 where e3: "liveColumns c t s2 = (r3, s3)" by fastforce
  show ?thesis
  proof (cases "r1 = None \<and> r2 = None")
    case False
    then show ?thesis
      using assms(1,2) e1 e2 g2 grown_same [OF c1] by (auto simp: Ensure_def split: option.splits)
  next
    case True
    then obtain xs where xs: "columns s2 = Some xs" "columns s = None \<and> xs = rendered t \<or> columns s = Some xs"
      using c2 by (cases "columns s") auto
    then have d: "distinct (map fst xs)"
      using assms(3,4) by (auto simp: comp_def)
    note c3 = liveColumns_columns [OF e3 xs(1) d]
    show ?thesis
    proof (cases r3)
      case (Inl e)
      then have "s' = s3 \<and> r = Some e"
        using assms(1,2) e1 e2 e3 True by (auto simp: Ensure_def)
      moreover have "grown (columns s) s3"
        using c3 xs by (auto simp: grown_def)
      ultimately show ?thesis by simp
    next
      case (Inr live)
      then have live: "live = map_of xs" using c3 by blast
      obtain r4 s4 where e4: "reconcile_columns c t live (mt_cols t) s3 = (r4, s4)" by fastforce
      from reconcile_columns_keeps [OF e4 subset_refl assms(3) conjunct1 [OF c3] d] live
      obtain ys where ys: "columns s4 = Some (xs @ ys)" "distinct (map fst (xs @ ys))"
        "\<forall>y\<in>set ys. \<exists>m\<in>set (mt_cols t). y = (mc_name m, mc_typ m) \<and> isNullable (mc_typ m)"
        "r4 = None \<longrightarrow> (\<forall>m\<in>set (mt_cols t). (mc_name m, mc_typ m) \<in> set (xs @ ys))" by auto
      have g4: "grown (columns s) v" if "columns v = columns s4" for v
        using that ys xs(2) by (auto simp: grown_def)
      obtain r5 s5 where e5: "ensureTTL c t s4 = (r5, s5)" by fastforce
      note c5 = ensureTTL_columns [OF e5]
      have "s' = s4 \<and> r = r4 \<and> r4 \<noteq> None \<or> r4 = None \<and> s' = s5 \<and> (r = None \<longrightarrow> mt_ready t')"
        using assms(1,2) e1 e2 e3 e4 e5 True Inr by (auto simp: Ensure_def split: option.splits)
      then show ?thesis
      proof
        assume "s' = s4 \<and> r = r4 \<and> r4 \<noteq> None"
        then show ?thesis using g4 [OF refl] by auto
      next
        assume a: "r4 = None \<and> s' = s5 \<and> (r = None \<longrightarrow> mt_ready t')"
        then have "columns s' = Some (xs @ ys)" "set (rendered t) \<subseteq> set (xs @ ys)"
          using c5 ys(1,4) by auto
        with a g4 [OF c5] ys(2) show ?thesis by blast
      qed
    qed
  qed
qed

end


section \<open>What a batch hands over\<close>

text \<open>The value the mirror is given for a staged one.\<close>

definition ch_of :: "Field \<Rightarrow> gvalue \<Rightarrow> ch_value" where
  "ch_of f v = (case v of
      GBool b \<Rightarrow> CBool b | GInt32 w \<Rightarrow> CInt32 w
    | GInt64 w \<Rightarrow> (if fld_Kind f = KindDecimal then CDecimal (sint w) (- fld_Scale f)
        else if fld_Kind f = KindTimestampTz then CTime (sint w * 1000) else CInt64 w)
    | GFloat32 w \<Rightarrow> CFloat32 w | GFloat64 w \<Rightarrow> CFloat64 w
    | GString s \<Rightarrow> CString (bytes_of_str s) | GBytes b \<Rightarrow> CString b | GOther _ \<Rightarrow> CString [])"

definition slot :: "ch_slice \<Rightarrow> nat \<Rightarrow> ch_value option" where
  "slot vs r = (case vs of Plain xs \<Rightarrow> Some (xs ! r) | Pointers xs \<Rightarrow> xs ! r)"

definition hands_over :: "Field \<Rightarrow> gvalue option list \<Rightarrow> ch_slice \<Rightarrow> bool" where
  "hands_over f vs x \<longleftrightarrow> (case x of Plain xs \<Rightarrow> fld_Required f \<and> map Some xs = map (map_option (ch_of f)) vs
      | Pointers xs \<Rightarrow> \<not> fld_Required f \<and> xs = map (map_option (ch_of f)) vs)"

lemma appendValues_hands_over:
  assumes "length slots = length vs" "\<forall>r<length vs. map_option value (slots ! r) = map_option (ch_of f) (vs ! r)"
    "fld_Required f \<longrightarrow> None \<notin> set vs"
  shows "hands_over f vs (appendValues f zero value slots)"
proof (cases "fld_Required f")
  case True
  have "Some (value (case slots ! r of None \<Rightarrow> zero | Some x \<Rightarrow> x)) = map_option (ch_of f) (vs ! r)" if "r < length vs" for r
  proof -
    have "vs ! r \<noteq> None" using assms(3) True that by (metis nth_mem)
    then have "slots ! r \<noteq> None" using assms(2) that by (cases "slots ! r") auto
    with assms(2) that show ?thesis by auto
  qed
  with True assms(1) show ?thesis
    by (auto simp: hands_over_def appendValues_def intro!: nth_equalityI)
next
  case False
  with assms(1,2) show ?thesis
    by (auto simp: hands_over_def appendValues_def intro!: nth_equalityI)
qed

lemma hands_over_slots:
  assumes "appendColumn f c = Inr (Some (appendValues f zero g slots))" "fld_Required f \<longrightarrow> None \<notin> set vs"
    "length slots = length vs" "\<forall>r<length vs. map_option g (slots ! r) = map_option (ch_of f) (vs ! r)"
  shows "\<exists>x. appendColumn f c = Inr (Some x) \<and> hands_over f vs x"
  using assms(1) appendValues_hands_over [OF assms(3,4,2)] by blast

lemma low_half: "sint hi * 2 ^ 64 + uint lo = sint w \<Longrightarrow> lo = w" for hi lo w :: "64 word"
proof -
  assume h: "sint hi * 2 ^ 64 + uint lo = sint w"
  have "(of_int (sint hi * 2 ^ 64 + uint lo) :: 64 word) = of_int (sint w)"
    by (simp only: h)
  moreover have "(of_int (2 ^ 64) :: 64 word) = 0" by simp
  ultimately show ?thesis
    by (simp only: of_int_add of_int_mult mult_zero_right add_0) simp
qed

lemma scale_kept: "0 \<le> n \<Longrightarrow> n \<le> 1000 \<Longrightarrow> sint (word_of_int (- n) :: 32 word) = - n"
  unfolding int_word_sint by simp

lemma appendColumn_hands_over:
  assumes "array_type c = file_type f" "column_length c = length vs" "vs \<noteq> []" "knownKind (fld_Kind f) \<noteq> None"
    "\<forall>r<length vs. holds_value c r (vs ! r)" "\<forall>v\<in>set vs. value_fits f v" "0 \<le> fld_Scale f \<and> fld_Scale f \<le> 1000"
  shows "\<exists>x. appendColumn f c = Inr (Some x) \<and> hands_over f vs x"
proof -
  have req: "fld_Required f \<longrightarrow> None \<notin> set vs"
    using assms(6) by (auto simp: value_fits_def)
  note plain_case = hands_over_slots [OF _ req]
  have ne: "column_length c \<noteq> 0" using assms(2,3) by simp
  show ?thesis
  proof (cases c)
    case (Untouched a)
    have val: "\<forall>r<length vs. vs ! r = map_option mk (slots ! r)" if "\<And>r v. holds_value c r v = (v = map_option mk (slots ! r))" for mk slots
      using assms(5) that by blast
    show ?thesis
    proof (cases a)
      case (ABools slots)
      with Untouched assms(1,2) ne val [of GBool slots] show ?thesis
        by (intro plain_case [where zero = False and g = CBool and slots = slots])
          (auto simp: file_type_def appendColumn_def holds_value_def column_length_def array_length_def ch_of_def option.map_comp comp_def split: Kind.splits)
    next
      case (AInt32s slots)
      with Untouched assms(1,2) ne val [of GInt32 slots] show ?thesis
        by (intro plain_case [where zero = 0 and g = CInt32 and slots = slots])
          (auto simp: file_type_def appendColumn_def holds_value_def column_length_def array_length_def ch_of_def option.map_comp comp_def split: Kind.splits)
    next
      case (AInt64s slots)
      with Untouched assms(1,2) ne val [of GInt64 slots] show ?thesis
        by (intro plain_case [where zero = 0 and g = CInt64 and slots = slots])
          (auto simp: file_type_def appendColumn_def holds_value_def column_length_def array_length_def ch_of_def option.map_comp comp_def split: Kind.splits)
    next
      case (AFloat32s slots)
      with Untouched assms(1,2) ne val [of GFloat32 slots] show ?thesis
        by (intro plain_case [where zero = 0 and g = CFloat32 and slots = slots])
          (auto simp: file_type_def appendColumn_def holds_value_def column_length_def array_length_def ch_of_def option.map_comp comp_def split: Kind.splits)
    next
      case (AFloat64s slots)
      with Untouched assms(1,2) ne val [of GFloat64 slots] show ?thesis
        by (intro plain_case [where zero = 0 and g = CFloat64 and slots = slots])
          (auto simp: file_type_def appendColumn_def holds_value_def column_length_def array_length_def ch_of_def option.map_comp comp_def split: Kind.splits)
    next
      case (AStrings slots)
      with Untouched assms(1,2) ne val [of GString slots] show ?thesis
        by (intro plain_case [where zero = "[]" and g = "CString \<circ> bytes_of_str" and slots = slots])
          (auto simp: file_type_def appendColumn_def holds_value_def column_length_def array_length_def ch_of_def option.map_comp comp_def split: Kind.splits)
    next
      case (ABinaries slots)
      with Untouched assms(1,2) ne val [of GBytes slots] show ?thesis
        by (intro plain_case [where zero = "[]" and g = CString and slots = slots])
          (auto simp: file_type_def appendColumn_def holds_value_def column_length_def array_length_def ch_of_def option.map_comp comp_def split: Kind.splits)
    qed
  next
    case (Timestamps u z slots)
    then have k: "fld_Kind f = KindTimestampTz" "u = Microsecond"
      using assms(1) by (auto simp: file_type_def split: Kind.splits)
    have "map_option (\<lambda>x. CTime (sint x)) (slots ! r) = map_option (ch_of f) (vs ! r)" if r: "r < length vs" for r
    proof -
      have "holds_value c r (vs ! r)" using assms(5) r by blast
      with Timestamps k show ?thesis by (cases "slots ! r") (auto simp: holds_value_def ch_of_def)
    qed
    with k Timestamps assms(2) ne show ?thesis
      by (intro plain_case [where zero = 0 and g = "\<lambda>x. CTime (sint x)" and slots = slots]) (auto simp: appendColumn_def column_length_def)
  next
    case (Decimal128s p s slots)
    then have k: "fld_Kind f = KindDecimal"
      using assms(1) by (auto simp: file_type_def split: Kind.splits)
    have "map_option (\<lambda>n. unscaledToDecimal n (fld_Scale f)) (slots ! r) = map_option (ch_of f) (vs ! r)" if r: "r < length vs" for r
    proof -
      have "holds_value c r (vs ! r)" using assms(5) r by blast
      with assms(7) Decimal128s k show ?thesis
        by (cases "slots ! r") (auto simp: holds_value_def ch_of_def unscaledToDecimal_def scale_kept [simplified] dest!: low_half [simplified])
    qed
    with k Decimal128s assms(2) ne show ?thesis
      by (intro plain_case [where zero = "(0, 0)" and g = "\<lambda>n. unscaledToDecimal n (fld_Scale f)" and slots = slots]) (auto simp: appendColumn_def column_length_def)
  qed
qed

end
