(* ===== verification/MirrorClaims.thy ===== *)
theory MirrorClaims
  imports MirrorProps
begin

text \<open>What a mirror promises: a prepared table agrees with the declaration, a batch arrives once and with its rows' values,
  and no state of the server refuses an open.\<close>

section \<open>A server that takes batches\<close>

text \<open>What ClickHouse reads at the end of a created table: the size of the window in which it recognises an insert's token. A
  plain \<open>MergeTree\<close> created without the setting has none, and takes every insert, whatever its token.\<close>

definition window_setting :: string where
  "window_setting = ''SETTINGS non_replicated_deduplication_window = ''"

definition stated_window :: "string \<Rightarrow> nat" where
  "stated_window st =
    (let line = rev (takeWhile (\<lambda>c. c \<noteq> CHR 0x0A) (rev st)) in
     if HasPrefix line window_setting
     then foldl (\<lambda>n c. 10 * n + (of_char c - 48)) 0 (drop (length window_setting) line) else 0)"

definition creates_table :: "string \<Rightarrow> string \<Rightarrow> string \<Rightarrow> bool" where
  "creates_table db n st \<longleftrightarrow> HasPrefix st (''CREATE TABLE IF NOT EXISTS '' @ quoteIdent db @ ''.'' @ quoteIdent n @ '' ('')"

lemma HasPrefix_append [simp]: "HasPrefix (x @ y) (x @ z) = HasPrefix y z"
  by (auto simp: HasPrefix_def)

lemma HasPrefix_Cons [simp]: "HasPrefix s []" "HasPrefix (c # s) (d # p) \<longleftrightarrow> c = d \<and> HasPrefix s p"
  by (auto simp: HasPrefix_def)

lemma creates_table_names: "creates_table db n (mirror_createTable db n cols ttl)"
  by (simp add: creates_table_def mirror_createTable_def)

text \<open>Whatever the columns and the expiry, the last line of the rendered statement is the setting, and it states 1000.\<close>

lemma created_window [simp]: "stated_window (mirror_createTable db n cols ttl) = 1000"
proof -
  have f: "FormatInt dedupWindow = ''1000''" by code_simp
  have "mirror_createTable db n cols ttl =
      (''CREATE TABLE IF NOT EXISTS '' @ quoteIdent db @ ''.'' @ quoteIdent n @ '' ('' @ newline @
       Join (map (\<lambda>c. ''  '' @ quoteIdent (mc_name c) @ '' '' @ mc_typ c) cols) ('','' @ newline) @
       newline @ '') ENGINE = MergeTree'' @ newline @ ''ORDER BY tuple()'' @
       (case ttl of None \<Rightarrow> [] | Some t \<Rightarrow> newline @ ''TTL '' @ ttlExpr t)) @ CHR 0x0A # window_setting @ ''1000''"
    by (simp add: mirror_createTable_def f window_setting_def newline_def)
  moreover have "rev (takeWhile (\<lambda>c. c \<noteq> CHR 0x0A) (rev (front @ CHR 0x0A # x))) = x" if "CHR 0x0A \<notin> set x" for front x
    using that by (simp add: takeWhile_append takeWhile_eq_all_conv [THEN iffD2])
  ultimately show ?thesis
    by (simp add: stated_window_def window_setting_def HasPrefix_def)
qed

lemma statement_kinds [simp]:
  "\<not> creates_table db n (createDatabase d)" "\<not> creates_table db n (modifyTTL d t ttl)"
  "\<not> creates_table db n (mirror_addColumn d t m)"
  by (simp_all add: creates_table_def createDatabase_def modifyTTL_def mirror_addColumn_def)

text \<open>The inserts a window of size \<open>n\<close> still knows: the last \<open>n\<close> the table took.\<close>

definition recent :: "nat \<Rightarrow> 'a list \<Rightarrow> 'a list" where
  "recent n xs = drop (length xs - n) xs"

lemma recent_snoc [simp]: "0 < w \<Longrightarrow> k \<in> fst ` set (recent w (xs @ [(k, x)]))"
  by (simp add: recent_def)

text \<open>The driver as documented, seen through the columns appended to the prepared batch, its token and header, the window of the
  table \<open>db.n\<close> (none before it exists, then what the statement that made it stated), and the inserts it took, in order, each
  with its token. An insert whose token is among those of the window is dropped, any other is taken; with no table there
  is nothing to take it. Only a \<open>CREATE TABLE\<close> of the table makes it, and only where there is none. Nothing but a send
  changes what the table took, and a call that fails has done its work or nothing.\<close>

locale batch_server =
  fixes c :: "'s driver_Conn" and db :: string and n :: string
    and pending :: "'s \<Rightarrow> (nat \<times> ch_slice) list" and header :: "'s \<Rightarrow> string \<times> string"
    and dedup :: "'s \<Rightarrow> nat option" and taken :: "'s \<Rightarrow> (string \<times> string \<times> (nat \<times> ch_slice) list) list"
  assumes prepares: "PrepareBatch c key st s = (r, s') \<Longrightarrow>
      taken s' = taken s \<and> dedup s' = dedup s \<and> (r = None \<longrightarrow> pending s' = [] \<and> header s' = (key, st))"
    and appends: "Column_Append c i x s = (r, s') \<Longrightarrow> taken s' = taken s \<and> dedup s' = dedup s \<and>
      (r = None \<longrightarrow> pending s' = pending s @ [(i, x)] \<and> header s' = header s)"
    and aborts: "taken (Abort c s) = taken s" "dedup (Abort c s) = dedup s"
    and sends: "read_insert (snd (header s)) = Some (db, n, names) \<Longrightarrow> Send c s = (r, s') \<Longrightarrow> dedup s' = dedup s \<and>
      (case dedup s of
         None \<Rightarrow> r \<noteq> None \<and> taken s' = taken s
       | Some k \<Rightarrow>
           taken s' = (if fst (header s) \<in> fst ` set (recent k (taken s)) then taken s
             else taken s @ [(fst (header s), snd (header s), pending s)]) \<or>
           r \<noteq> None \<and> taken s' = taken s)"
    and execs: "Exec c st s = (r, s') \<Longrightarrow> taken s' = taken s \<and>
      (dedup s' = (if creates_table db n st \<and> dedup s = None then Some (stated_window st) else dedup s) \<or>
       r \<noteq> None \<and> dedup s' = dedup s)"
    and queries: "QueryColumns c d m s = (q, s') \<Longrightarrow> taken s' = taken s \<and> dedup s' = dedup s"
    and queries_engine: "QueryEngine c d m s = (e, s') \<Longrightarrow> taken s' = taken s \<and> dedup s' = dedup s"
begin

text \<open>The window is the one this mirror states, or the table is not there yet.\<close>

definition windowed :: "'s \<Rightarrow> bool" where
  "windowed s \<longleftrightarrow> dedup s = None \<or> dedup s = Some 1000"

definition same_inserts :: "'s \<Rightarrow> 's \<Rightarrow> bool" where
  "same_inserts s s' \<longleftrightarrow> taken s' = taken s \<and> (windowed s \<longrightarrow> windowed s')"

lemma same_inserts_trans: "same_inserts s s1 \<Longrightarrow> same_inserts s1 s2 \<Longrightarrow> same_inserts s s2"
  by (simp add: same_inserts_def)

lemma same_inserts_refl [simp]: "same_inserts s s"
  by (simp add: same_inserts_def)

lemma Exec_other: "Exec c st s = (r, s') \<Longrightarrow> creates_table db n st \<longrightarrow> stated_window st = 1000 \<Longrightarrow> same_inserts s s'"
  by (drule execs) (auto simp: same_inserts_def windowed_def split: if_splits)

lemma query_same: "QueryColumns c d m s = (q, s') \<Longrightarrow> same_inserts s s'" "QueryEngine c d m s = (e, s') \<Longrightarrow> same_inserts s s'"
  by (auto simp: same_inserts_def windowed_def dest: queries queries_engine)

lemma exec_or_fail_same: "exec_or_fail c t st s = (r, s') \<Longrightarrow> creates_table db n st \<longrightarrow> stated_window st = 1000 \<Longrightarrow> same_inserts s s'"
  by (auto simp: exec_or_fail_def split: option.splits prod.splits dest: Exec_other)

lemma reconcile_columns_same: "reconcile_columns c t live cols s = (r, s') \<Longrightarrow> same_inserts s s'"
proof (induction cols arbitrary: s)
  case (Cons m cols)
  have "same_inserts s s1" if "Exec c (mirror_addColumn (mt_database t) (mt_name t) m) s = (x, s1)" for x s1
    by (rule Exec_other [OF that]) simp
  with Cons show ?case
    by (auto split: option.splits if_splits prod.splits intro: same_inserts_trans)
qed simp

lemma ensureTTL_same: "ensureTTL c t s = (r, s') \<Longrightarrow> same_inserts s s'"
  by (auto simp: ensureTTL_def split: option.splits prod.splits sum.splits if_splits
      dest!: query_same(2) Exec_other intro: same_inserts_trans)

lemma liveColumns_same: "liveColumns c t s = (r, s') \<Longrightarrow> same_inserts s s'"
  by (auto simp: liveColumns_def split: option.splits prod.splits sum.splits dest!: query_same(1))

lemma Ensure_same:
  assumes "Ensure c t s = (r, t', s')"
  shows "same_inserts s s' \<and> t' \<in> {t, t\<lparr>mt_ready := True\<rparr>}"
proof -
  obtain r1 s1 where e1: "exec_or_fail c t (createDatabase (mt_database t)) s = (r1, s1)" by fastforce
  obtain r2 s2 where e2: "exec_or_fail c t (mirror_createTable (mt_database t) (mt_name t) (mt_cols t) (mt_ttl t)) s1 = (r2, s2)"
    by fastforce
  obtain r3 s3 where e3: "liveColumns c t s2 = (r3, s3)" by fastforce
  have d1: "same_inserts s s1"
    by (rule exec_or_fail_same [OF e1]) simp
  note d2 = same_inserts_trans [OF d1 exec_or_fail_same [OF e2]]
  have d2: "same_inserts s s2" by (rule d2) (simp add: created_window)
  note d3 = same_inserts_trans [OF d2 liveColumns_same [OF e3]]
  have d4: "same_inserts s s4" if "reconcile_columns c t live cols s3 = (x, s4)" for live cols x s4
    by (rule same_inserts_trans [OF d3 reconcile_columns_same [OF that]])
  have d5: "same_inserts s s5" if "reconcile_columns c t live cols s3 = (x, s4)" "ensureTTL c t s4 = (y, s5)" for live cols x y s4 s5
    by (rule same_inserts_trans [OF d4 [OF that(1)] ensureTTL_same [OF that(2)]])
  from assms e1 e2 e3 d1 d2 d3 d4 d5 show ?thesis
    unfolding Ensure_def by (auto split: if_splits option.splits prod.splits sum.splits)
qed

lemma append_columns_taken:
  assumes "append_columns c t key k i cols s = (r, s')"
  shows "taken s' = taken s \<and> dedup s' = dedup s"
    and "list_all2 (\<lambda>(f, col) x. \<exists>m. mt_byName t (af_Name f) = Some m \<and> appendColumn (mc_field m) col = Inr (Some x)) cols xs \<Longrightarrow>
      r = None \<Longrightarrow> pending s' = pending s @ enumerate i xs \<and> header s' = header s"
proof -
  show "taken s' = taken s \<and> dedup s' = dedup s"
    using assms by (induction cols arbitrary: i s)
      (auto split: option.splits prod.splits sum.splits dest!: appends)
  show "pending s' = pending s @ enumerate i xs \<and> header s' = header s"
    if "list_all2 (\<lambda>(f, col) x. \<exists>m. mt_byName t (af_Name f) = Some m \<and> appendColumn (mc_field m) col = Inr (Some x)) cols xs"
      "r = None"
    using that assms
  proof (induction cols arbitrary: i s xs)
    case (Cons p cols)
    then obtain f col x xs' m where x: "p = (f, col)" "xs = x # xs'" "mt_byName t (af_Name f) = Some m"
      "appendColumn (mc_field m) col = Inr (Some x)"
      "list_all2 (\<lambda>(f, col) x. \<exists>m. mt_byName t (af_Name f) = Some m \<and> appendColumn (mc_field m) col = Inr (Some x)) cols xs'"
      by (auto simp: list_all2_Cons1)
    obtain r1 s1 where a: "Column_Append c i x s = (r1, s1)" by fastforce
    have "r1 = None" and rest: "append_columns c t key k (i + 1) cols s1 = (r, s')"
      using Cons.prems(2,3) x(1,3,4) a by (auto split: option.splits)
    with Cons.IH [OF x(5) Cons.prems(2) rest] appends [OF a] x(2) show ?case by simp
  qed simp
qed

text \<open>The whole send, for columns that can all be appended, under a token.\<close>

definition takes :: "string \<Rightarrow> string \<times> (nat \<times> ch_slice) list \<Rightarrow> 's \<Rightarrow> 's \<Rightarrow> bool" where
  "takes key x s s' \<longleftrightarrow> taken s' = taken s \<or> key \<notin> fst ` set (recent 1000 (taken s)) \<and> taken s' = taken s @ [(key, x)]"

lemma send_batch_taken:
  assumes "send_batch c t key b s = (r, s')" "header s = (key, st)" "pending s = []" "length (rb_fields b) = length xs"
    "list_all2 (\<lambda>(f, col) x. \<exists>m. mt_byName t (af_Name f) = Some m \<and> appendColumn (mc_field m) col = Inr (Some x))
      (zip (rb_fields b) (rb_columns b)) xs"
    "read_insert st = Some (db, n, names)" "windowed s"
  shows "takes key (st, enumerate 0 (xs @ [Plain (replicate (rb_rows b) (CString (bytes_of_str key)))])) s s' \<and> windowed s' \<and>
    (r = None \<longrightarrow> key \<in> fst ` set (recent 1000 (taken s')))"
proof -
  let ?x = "(st, enumerate 0 (xs @ [Plain (replicate (rb_rows b) (CString (bytes_of_str key)))]))"
  obtain r1 s1 where a1: "append_columns c t key (rb_rows b) 0 (zip (rb_fields b) (rb_columns b)) s = (r1, s1)" by fastforce
  obtain r2 s2 where a2: "Column_Append c (length (rb_fields b)) (Plain (replicate (rb_rows b) (CString (bytes_of_str key)))) s1 = (r2, s2)"
    by fastforce
  obtain r3 s3 where a3: "Send c s2 = (r3, s3)" by fastforce
  note same = append_columns_taken(1) [OF a1] appends [OF a2]
  show ?thesis
  proof (cases "r1 = None \<and> r2 = None")
    case False
    then have "(s' = Abort c s1 \<or> s' = Abort c s2) \<and> r \<noteq> None"
      using assms(1) a1 a2 by (cases r1; cases r2) (auto simp: send_batch_def Let_def)
    then show ?thesis
      using same aborts assms(7) by (auto simp: takes_def windowed_def)
  next
    case True
    have h: "pending s2 = snd ?x" "header s2 = (key, st)"
      using append_columns_taken(2) [OF a1 assms(5)] appends [OF a2] True assms(2-4) by (simp_all add: enumerate_append_eq)
    have w: "dedup s2 = dedup s" "taken s2 = taken s" using same by auto
    have eq: "s' = s3" "r = None \<longleftrightarrow> r3 = None"
      using assms(1) a1 a2 a3 True by (auto simp: send_batch_def Let_def split: option.splits)
    have "read_insert (snd (header s2)) = Some (db, n, names)" by (simp add: h(2) assms(6))
    from sends [OF this a3] have sent: "dedup s3 = dedup s" "case dedup s of None \<Rightarrow> r3 \<noteq> None \<and> taken s3 = taken s
      | Some k \<Rightarrow> taken s3 = (if key \<in> fst ` set (recent k (taken s)) then taken s else taken s @ [(key, ?x)]) \<or>
          r3 \<noteq> None \<and> taken s3 = taken s"
      by (simp_all only: h w fst_conv snd_conv prod.collapse)
    consider "dedup s = None" | "dedup s = Some 1000" using assms(7) by (auto simp: windowed_def)
    then show ?thesis
    proof cases
      case 1
      with sent eq show ?thesis by (auto simp: takes_def windowed_def)
    next
      case 2
      then have "taken s3 = (if key \<in> fst ` set (recent 1000 (taken s)) then taken s else taken s @ [(key, ?x)]) \<or>
          r3 \<noteq> None \<and> taken s3 = taken s"
        using sent(2) by simp
      with 2 sent(1) eq show ?thesis
        by (cases "key \<in> fst ` set (recent 1000 (taken s))") (auto simp: takes_def windowed_def)
    qed
  qed
qed

end

section \<open>A table's mirror and a batch of its rows\<close>

definition mirrored :: "Field \<Rightarrow> mirror_column" where
  "mirrored f = \<lparr>mc_name = fld_Name f, mc_typ = columnType f, mc_field = f\<rparr>"

definition key_column :: mirror_column where
  "key_column = \<lparr>mc_name = BatchKeyColumn, mc_typ = ''String'', mc_field = zero_Field\<rparr>"

lemma NewTable_Inr:
  assumes "NewTable db ns tbl desc ttl = Inr t"
  shows "TableName ns tbl = Inr (mt_name t)" "mt_database t = db" "mt_cols t = map mirrored (d_fields desc) @ [key_column]"
    "BatchKeyColumn \<notin> fld_Name ` set (d_fields desc)" "\<not> mt_ready t" "mt_stmt t = []" "mt_ttl t = ttl"
  using assms by (auto simp: NewTable_def res_bind_eq_Inr columnsFor_def mirrored_def key_column_def Let_def split: option.splits if_splits)

text \<open>A mirror of the shape \<open>desc\<close>, prepared or not, with the header it may have cached.\<close>

definition mirrors :: "string \<Rightarrow> string \<Rightarrow> string \<Rightarrow> Descriptor \<Rightarrow> mirror_table \<Rightarrow> bool" where
  "mirrors db ns tbl desc t \<longleftrightarrow>
    (mt_stmt t = [] \<or> mt_stmt t = insertStatement db (mt_name t) (mt_order t)) \<and>
    (\<exists>ttl t0. NewTable db ns tbl desc ttl = Inr t0 \<and> mt_database t = db \<and> mt_name t = mt_name t0 \<and> mt_cols t = mt_cols t0)"

text \<open>The record built from rows: the shape's columns at the file's types, one slot per row, holding their values.\<close>

definition batch_of :: "Descriptor \<Rightarrow> Row list \<Rightarrow> record_batch \<Rightarrow> bool" where
  "batch_of desc rows b \<longleftrightarrow> rows \<noteq> [] \<and> rb_rows b = length rows \<and>
    map af_Name (rb_fields b) = map fld_Name (d_fields desc) \<and> map array_type (rb_columns b) = map file_type (d_fields desc) \<and>
    (\<forall>i<length (rb_columns b). column_length (rb_columns b ! i) = length rows \<and>
       (\<forall>r<length rows. holds_value (rb_columns b ! i) r (rows ! r ! i)))"

lemma mt_byName_field:
  assumes "mt_cols t = map mirrored fs @ [key_column]" "distinct (map fld_Name fs)" "BatchKeyColumn \<notin> fld_Name ` set fs" "f \<in> set fs"
  shows "mt_byName t (fld_Name f) = Some (mirrored f)"
proof -
  have "distinct (map fst (map (\<lambda>c. (mc_name c, c)) (mt_cols t)))"
    using assms(1-3) by (auto simp: comp_def mirrored_def key_column_def)
  moreover have "(fld_Name f, mirrored f) \<in> set (map (\<lambda>c. (mc_name c, c)) (mt_cols t))"
    using assms(1,4) by (auto simp: mirrored_def intro!: image_eqI [of _ _ f])
  ultimately show ?thesis
    unfolding mt_byName_def by (simp add: rev_map [symmetric])
qed

lemma batch_slices:
  assumes "batch_of desc rows b" "descriptor_ok desc" "\<forall>row\<in>set rows. list_all2 value_fits (d_fields desc) row"
    "mt_cols t = map mirrored (d_fields desc) @ [key_column]" "distinct (map fld_Name (d_fields desc))"
    "BatchKeyColumn \<notin> fld_Name ` set (d_fields desc)"
  obtains xs where "length xs = length (d_fields desc)"
    "\<forall>i<length xs. hands_over (d_fields desc ! i) (map (\<lambda>row. row ! i) rows) (xs ! i)"
    "list_all2 (\<lambda>(f, col) x. \<exists>m. mt_byName t (af_Name f) = Some m \<and> appendColumn (mc_field m) col = Inr (Some x))
      (zip (rb_fields b) (rb_columns b)) xs"
proof -
  let ?fs = "d_fields desc"
  have len: "length (rb_fields b) = length ?fs" "length (rb_columns b) = length ?fs"
    using assms(1) by (metis batch_of_def length_map)+
  have one: "\<exists>x. appendColumn (?fs ! i) (rb_columns b ! i) = Inr (Some x) \<and> hands_over (?fs ! i) (map (\<lambda>row. row ! i) rows) x"
    if i: "i < length ?fs" for i
  proof (rule appendColumn_hands_over)
    show "array_type (rb_columns b ! i) = file_type (?fs ! i)"
      using assms(1) i len(2) unfolding batch_of_def by (metis nth_map)
    show "column_length (rb_columns b ! i) = length (map (\<lambda>row. row ! i) rows)" "map (\<lambda>row. row ! i) rows \<noteq> []"
      "\<forall>r<length (map (\<lambda>row. row ! i) rows). holds_value (rb_columns b ! i) r (map (\<lambda>row. row ! i) rows ! r)"
      using assms(1) i len(2) by (simp_all add: batch_of_def)
    show "knownKind (fld_Kind (?fs ! i)) \<noteq> None"
      using descriptor_known [OF assms(2) nth_mem [OF i]] .
    show "\<forall>v\<in>set (map (\<lambda>row. row ! i) rows). value_fits (?fs ! i) v"
      using assms(3) i by (auto simp: list_all2_conv_all_nth)
    show "0 \<le> fld_Scale (?fs ! i) \<and> fld_Scale (?fs ! i) \<le> 1000"
      using bspec [OF descriptor_okD(5) [OF assms(2)] nth_mem [OF i]] by (auto simp: field_ok_def split: if_splits)
  qed
  define xs where "xs = map (\<lambda>i. projr (appendColumn (?fs ! i) (rb_columns b ! i))) [0..<length ?fs]"
  have xs: "length xs = length ?fs" "\<forall>i<length ?fs. appendColumn (?fs ! i) (rb_columns b ! i) = Inr (xs ! i) \<and> xs ! i \<noteq> None"
    using one by (force simp: xs_def)+
  define ys where "ys = map the xs"
  have ys: "\<forall>i<length ?fs. appendColumn (?fs ! i) (rb_columns b ! i) = Inr (Some (ys ! i))"
    using xs by (auto simp: ys_def)
  have "mt_byName t (af_Name (rb_fields b ! i)) = Some (mirrored (?fs ! i))" if "i < length ?fs" for i
    using mt_byName_field [OF assms(4-6) nth_mem [OF that]] assms(1) that len(1) unfolding batch_of_def by (metis nth_map)
  then have "list_all2 (\<lambda>(f, col) x. \<exists>m. mt_byName t (af_Name f) = Some m \<and> appendColumn (mc_field m) col = Inr (Some x))
      (zip (rb_fields b) (rb_columns b)) ys"
    using ys xs(1) len by (auto simp: list_all2_conv_all_nth mirrored_def ys_def)
  moreover have "\<forall>i<length ys. hands_over (?fs ! i) (map (\<lambda>row. row ! i) rows) (ys ! i)"
  proof (intro allI impI)
    fix i assume "i < length ys"
    then have i: "i < length ?fs" using xs(1) by (simp add: ys_def)
    from one [OF i] ys i show "hands_over (?fs ! i) (map (\<lambda>row. row ! i) rows) (ys ! i)" by auto
  qed
  moreover have "length ys = length ?fs" using xs(1) by (simp add: ys_def)
  ultimately show ?thesis by (intro that)
qed

lemma mirrors_ready: "mirrors db ns tbl desc t \<Longrightarrow> t' \<in> {t, t\<lparr>mt_ready := True\<rparr>} \<Longrightarrow> mirrors db ns tbl desc t'"
  by (elim insertE emptyE) (simp_all add: mirrors_def)

lemma mirrors_with_statement:
  assumes "mirrors db ns tbl desc t"
  shows "mirrors db ns tbl desc (with_statement t names)" "mt_stmt (with_statement t names) = insertStatement db (mt_name t) names"
  using assms by (auto simp: mirrors_def with_statement_def insertStatement_def)

text \<open>Two inserts with one token are more than \<open>w\<close> inserts apart.\<close>

definition spaced :: "nat \<Rightarrow> 'a list \<Rightarrow> bool" where
  "spaced w ks \<longleftrightarrow> (\<forall>i j. i < j \<longrightarrow> j < length ks \<longrightarrow> ks ! i = ks ! j \<longrightarrow> i + w < j)"

lemma spaced_snoc:
  assumes "spaced w ks" "k \<notin> set (recent w ks)"
  shows "spaced w (ks @ [k])"
proof -
  have "i + w < length ks" if "i < length ks" "ks ! i = k" for i
  proof (rule ccontr)
    assume "\<not> i + w < length ks"
    then have "recent w ks ! (i - (length ks - w)) = k" "i - (length ks - w) < length (recent w ks)"
      using that by (auto simp: recent_def)
    with assms(2) show False by (metis nth_mem)
  qed
  with assms(1) show ?thesis
    by (auto simp: spaced_def nth_append less_Suc_eq)
qed

lemma map_recent: "map f (recent w xs) = recent w (map f xs)"
  by (simp add: recent_def drop_map)

lemma mirror_Insert_exact:
  assumes "batch_server c db (mt_name t) pending header dedup taken" "mirrors db ns tbl desc t" "descriptor_ok desc"
    "distinct (map fld_Name (d_fields desc))" "\<forall>row\<in>set rows. list_all2 value_fits (d_fields desc) row" "batch_of desc rows b"
    "dedup s = None \<or> dedup s = Some 1000" "mirror_Insert c t key b s = (r, t', s')"
  shows "mirrors db ns tbl desc t' \<and> mt_name t' = mt_name t \<and> (dedup s' = None \<or> dedup s' = Some 1000) \<and>
    (\<exists>st xs. read_insert st = Some (db, mt_name t, map fld_Name (d_fields desc) @ [BatchKeyColumn]) \<and>
      length xs = length (d_fields desc) \<and>
      (\<forall>i<length xs. hands_over (d_fields desc ! i) (map (\<lambda>row. row ! i) rows) (xs ! i)) \<and>
      (taken s' = taken s \<or> key \<notin> fst ` set (recent 1000 (taken s)) \<and> taken s' = taken s @
        [(key, st, enumerate 0 (xs @ [Plain (replicate (length rows) (CString (bytes_of_str key)))]))]) \<and>
      (r = None \<longrightarrow> key \<in> fst ` set (recent 1000 (taken s'))))"
proof -
  note server = assms(1)
  note same_def = batch_server.same_inserts_def [OF server] batch_server.windowed_def [OF server]
  let ?names = "map fld_Name (d_fields desc) @ [BatchKeyColumn]"
  have names: "map af_Name (rb_fields b) = map fld_Name (d_fields desc)" "rb_rows b = length rows"
    using assms(6) by (simp_all add: batch_of_def)
  obtain r1 t1 s1 where e: "Ensure c t s = (r1, t1, s1)" by (cases "Ensure c t s") auto
  have m0: "mt_database t = db" using assms(2) by (auto simp: mirrors_def)
  have en: "taken s1 = taken s" "dedup s1 = None \<or> dedup s1 = Some 1000" "t1 \<in> {t, t\<lparr>mt_ready := True\<rparr>}"
    using batch_server.Ensure_same [OF server e] assms(7) unfolding same_def by auto
  have m1: "mirrors db ns tbl desc t1" "mt_name t1 = mt_name t"
    using mirrors_ready [OF assms(2)] en(3) by auto
  let ?t2 = "with_statement t1 ?names"
  note m2 = mirrors_with_statement [OF m1(1), of ?names]
  have n2: "mt_name ?t2 = mt_name t" using m1(2) by (simp add: with_statement_def)
  obtain t0 ttl where t0: "NewTable db ns tbl desc ttl = Inr t0" "mt_cols ?t2 = mt_cols t0"
    using m2(1) by (auto simp: mirrors_def)
  note new = NewTable_Inr [OF t0(1)]
  have cols: "mt_cols ?t2 = map mirrored (d_fields desc) @ [key_column]"
    by (simp add: t0(2) new(3))
  obtain xs where xs: "length xs = length (d_fields desc)"
    "\<forall>i<length xs. hands_over (d_fields desc ! i) (map (\<lambda>row. row ! i) rows) (xs ! i)"
    "list_all2 (\<lambda>(f, col) x. \<exists>m. mt_byName ?t2 (af_Name f) = Some m \<and> appendColumn (mc_field m) col = Inr (Some x))
      (zip (rb_fields b) (rb_columns b)) xs"
    by (rule batch_slices [OF assms(6,3,5) cols assms(4) new(4)])
  have rd: "read_insert (mt_stmt ?t2) = Some (db, mt_name t, ?names)"
    using m2(2) m1(2) read_insertStatement [of ?names] by simp
  let ?content = "(mt_stmt ?t2, enumerate 0 (xs @ [Plain (replicate (length rows) (CString (bytes_of_str key)))]))"
  have "(taken s' = taken s \<or> key \<notin> fst ` set (recent 1000 (taken s)) \<and> taken s' = taken s @ [(key, ?content)]) \<and>
      (r = None \<longrightarrow> key \<in> fst ` set (recent 1000 (taken s'))) \<and> (dedup s' = None \<or> dedup s' = Some 1000) \<and>
      (t' = t1 \<or> t' = ?t2)"
  proof (cases r1)
    case (Some x)
    then have "r \<noteq> None \<and> t' = t1 \<and> s' = s1"
      using assms(8) e by (auto simp: mirror_Insert_def Let_def)
    with en show ?thesis by auto
  next
    case None
    obtain r2 s2 where p: "PrepareBatch c key (mt_stmt ?t2) s1 = (r2, s2)" by fastforce
    note pr = batch_server.prepares [OF server p]
    show ?thesis
    proof (cases r2)
      case (Some x)
      then have "r \<noteq> None \<and> t' = ?t2 \<and> s' = s2"
        using assms(8) e p None names by (auto simp: mirror_Insert_def Let_def)
      with en pr show ?thesis by auto
    next
      case ok: None
      obtain r3 s3 where sd: "send_batch c ?t2 key b s2 = (r3, s3)" by fastforce
      have eq: "r = r3 \<and> t' = ?t2 \<and> s' = s3"
        using assms(8) e p None ok names sd by (auto simp: mirror_Insert_def Let_def)
      have l: "length (rb_fields b) = length xs"
        using names(1) xs(1) by (metis length_map)
      have h: "header s2 = (key, mt_stmt ?t2)" "pending s2 = []" "batch_server.windowed dedup s2" "taken s2 = taken s"
        using pr ok en by (simp_all add: batch_server.windowed_def [OF server])
      from batch_server.send_batch_taken [OF server sd h(1,2) l xs(3) rd h(3)] h(4) eq names(2) show ?thesis
        by (simp add: batch_server.takes_def [OF server] batch_server.windowed_def [OF server])
    qed
  qed
  then show ?thesis
    using m1(1,2) m2(1) n2 rd xs(1,2) by blast
qed

section \<open>A server in memory\<close>

record memory_server =
  ms_columns :: "(string \<times> string) list option"
  ms_pending :: "(nat \<times> ch_slice) list"
  ms_header :: "string \<times> string"
  ms_window :: "nat option"
  ms_taken :: "(string \<times> string \<times> (nat \<times> ch_slice) list) list"

text \<open>It knows the statements of one table's mirror, and nothing fails but a send with no table.\<close>

definition memory_window :: "mirror_table \<Rightarrow> string \<Rightarrow> memory_server \<Rightarrow> nat option" where
  "memory_window t st s =
    (if creates_table (mt_database t) (mt_name t) st \<and> ms_window s = None then Some (stated_window st) else ms_window s)"

definition memory_columns_after :: "mirror_table \<Rightarrow> string \<Rightarrow> memory_server \<Rightarrow> memory_server" where
  "memory_columns_after t st s =
    (if st = mirror_createTable (mt_database t) (mt_name t) (mt_cols t) (mt_ttl t)
     then s\<lparr>ms_columns := (case ms_columns s of None \<Rightarrow> Some (rendered t) | Some xs \<Rightarrow> Some xs)\<rparr>
     else case find (\<lambda>m. st = mirror_addColumn (mt_database t) (mt_name t) m) (mt_cols t) of
       None \<Rightarrow> s
     | Some m \<Rightarrow> s\<lparr>ms_columns := map_option (\<lambda>xs.
         if mc_name m \<in> fst ` set xs then xs else xs @ [(mc_name m, mc_typ m)]) (ms_columns s)\<rparr>)"

definition memory_exec :: "mirror_table \<Rightarrow> string \<Rightarrow> memory_server \<Rightarrow> memory_server" where
  "memory_exec t st s = (memory_columns_after t st s)\<lparr>ms_window := memory_window t st s\<rparr>"

definition memory_send :: "memory_server \<Rightarrow> error option \<times> memory_server" where
  "memory_send s =
    (case ms_window s of
       None \<Rightarrow> (Some (ErrOther ''no such table''), s)
     | Some k \<Rightarrow> (None, if fst (ms_header s) \<in> fst ` set (recent k (ms_taken s)) then s
         else s\<lparr>ms_taken := ms_taken s @ [(fst (ms_header s), snd (ms_header s), ms_pending s)]\<rparr>))"

definition memory_conn :: "mirror_table \<Rightarrow> memory_server driver_Conn" where
  "memory_conn t = \<lparr>
     Exec = (\<lambda>st s. (None, memory_exec t st s)),
     QueryColumns = (\<lambda>d n s. (Inr (map Inr (case ms_columns s of None \<Rightarrow> [] | Some xs \<Rightarrow> xs), None), s)),
     QueryEngine = (\<lambda>d n s. (Inr [], s)),
     PrepareBatch = (\<lambda>key st s. (None, s\<lparr>ms_pending := [], ms_header := (key, st)\<rparr>)),
     Column_Append = (\<lambda>i x s. (None, s\<lparr>ms_pending := ms_pending s @ [(i, x)]\<rparr>)),
     Send = memory_send,
     Abort = id, IsException = (\<lambda>e. False)\<rparr>"

lemma memory_exec_sel [simp]: "ms_taken (memory_exec t st s) = ms_taken s" "ms_window (memory_exec t st s) = memory_window t st s"
  by (simp_all add: memory_exec_def memory_columns_after_def split: option.split)

lemma memory_exec_columns [simp]: "ms_columns (memory_exec t st s) = ms_columns (memory_columns_after t st s)"
  by (simp add: memory_exec_def)

interpretation memory_batches: batch_server "memory_conn t" "mt_database t" "mt_name t" ms_pending ms_header ms_window ms_taken
  by unfold_locales (auto simp: memory_conn_def memory_window_def memory_send_def split: option.splits if_splits)

lemma quoteIdent_inject [simp]: "quoteIdent a = quoteIdent b \<longleftrightarrow> a = b"
  by (metis append_Nil2 option.inject prod.inject read_quoteIdent)

lemma quoteIdent_append_inject [simp]: "quoteIdent a @ x = quoteIdent b @ y \<longleftrightarrow> a = b \<and> x = y"
  by (metis option.inject prod.inject read_quoteIdent)

lemma addColumn_inject: "mirror_addColumn d n m = mirror_addColumn d n m' \<longleftrightarrow> mc_name m = mc_name m' \<and> mc_typ m = mc_typ m'"
  by (simp add: mirror_addColumn_def)

lemma statements_differ:
  "mirror_addColumn d n m \<noteq> mirror_createTable d' n' cols ttl" "createDatabase d \<noteq> mirror_createTable d' n' cols ttl"
  "createDatabase d \<noteq> mirror_addColumn d' n' m" "modifyTTL d n x \<noteq> mirror_createTable d' n' cols ttl"
  "modifyTTL d n x \<noteq> mirror_addColumn d' n' m"
  by (simp_all add: mirror_addColumn_def mirror_createTable_def createDatabase_def modifyTTL_def)

lemma find_addColumn:
  assumes "m \<in> set cols"
  obtains m' where "find (\<lambda>m'. mirror_addColumn d n m = mirror_addColumn d n m') cols = Some m'" "mc_name m' = mc_name m" "mc_typ m' = mc_typ m"
proof (cases "find (\<lambda>m'. mirror_addColumn d n m = mirror_addColumn d n m') cols")
  case None
  with assms show ?thesis by (auto simp: find_None_iff)
next
  case (Some m')
  then have "mirror_addColumn d n m = mirror_addColumn d n m'" by (auto simp: find_Some_iff)
  with Some show ?thesis by (intro that) (simp_all add: addColumn_inject)
qed

lemma memory_adds:
  assumes "m \<in> set (mt_cols t)"
  shows "ms_columns (memory_columns_after t (mirror_addColumn (mt_database t) (mt_name t) m) s) =
    map_option (\<lambda>xs. if mc_name m \<in> fst ` set xs then xs else xs @ [(mc_name m, mc_typ m)]) (ms_columns s)"
proof -
  obtain m' where "find (\<lambda>m'. mirror_addColumn (mt_database t) (mt_name t) m = mirror_addColumn (mt_database t) (mt_name t) m') (mt_cols t) = Some m'"
    "mc_name m' = mc_name m" "mc_typ m' = mc_typ m"
    by (rule find_addColumn [OF assms])
  then show ?thesis by (simp add: memory_columns_after_def statements_differ cong: if_cong)
qed

lemma memory_others:
  "memory_exec t (createDatabase d) s = s" "memory_exec t (modifyTTL d n x) s = s"
  by (simp_all add: memory_exec_def memory_window_def memory_columns_after_def statements_differ find_None_iff [THEN iffD2])

interpretation memory_columns: schema_server "memory_conn t" t ms_columns
  by unfold_locales (auto simp: memory_conn_def memory_adds memory_others memory_columns_after_def [of t "mirror_createTable _ _ _ _"])

section \<open>Samples\<close>

definition sample_mirror :: mirror_table where
  "sample_mirror = \<lparr>mt_database = ''icelake'', mt_namespace = ''market'', mt_table = ''fills'', mt_name = ''market__fills'',
     mt_target = ''icelake.market__fills'', mt_cols = map mirrored sample_fields @ [key_column], mt_ready = False, mt_stmt = [],
     mt_order = [], mt_ttl = None\<rparr>"

lemma sample_NewTable: "NewTable ''icelake'' ''market'' ''fills'' sample_descriptor None = Inr sample_mirror"
  by (simp add: NewTable_def TableName_def Contains.simps HasPrefix_def nameSeparator_def columnsFor_def sample_descriptor_def
      sample_fields_def validateTTL_def sample_mirror_def mirrored_def key_column_def BatchKeyColumn_def Let_def)

definition empty_server :: memory_server where
  "empty_server = \<lparr>ms_columns = None, ms_pending = [], ms_header = ([], []), ms_window = None, ms_taken = []\<rparr>"

definition sample_batch :: record_batch where
  "sample_batch = \<lparr>rb_fields = FileSchema sample_arrow,
     rb_columns = [Untouched (AInt64s [Some 7]), Decimal128s 10 2 [Some (0, 1250)]], rb_rows = 1\<rparr>"

lemma sample_batch_of: "batch_of sample_descriptor [sample_row] sample_batch"
  by (auto simp: batch_of_def sample_batch_def FileSchema_def sample_arrow_def sample_descriptor_def sample_fields_def
      file_type_def column_length_def array_length_def holds_value_def sample_row_def less_Suc_eq)

lemma scan_columns_rows: "scan_columns (map Inr xs) acc = Inr (rev xs @ acc)"
  by (induction xs arbitrary: acc) auto

lemma reconcile_columns_settled:
  "\<forall>m\<in>set cols. live (mc_name m) = Some (mc_typ m) \<Longrightarrow> reconcile_columns c t live cols s = (None, s)"
  by (induction cols) auto

lemma sample_Ensure: "\<exists>s. Ensure (memory_conn sample_mirror) sample_mirror empty_server = (None, sample_mirror\<lparr>mt_ready := True\<rparr>, s) \<and> ms_window s = Some 1000"
proof -
  have run: "exec_or_fail (memory_conn sample_mirror) sample_mirror st s = (None, memory_exec sample_mirror st s)" for st s
    by (simp add: exec_or_fail_def memory_conn_def)
  let ?s = "empty_server\<lparr>ms_columns := Some (rendered sample_mirror), ms_window := Some 1000\<rparr>"
  have made: "memory_exec sample_mirror (mirror_createTable (mt_database sample_mirror) (mt_name sample_mirror)
      (mt_cols sample_mirror) (mt_ttl sample_mirror)) empty_server = ?s"
    by (simp add: memory_exec_def memory_columns_after_def memory_window_def creates_table_names empty_server_def)
  have q: "QueryColumns (memory_conn sample_mirror) d n ?s = (Inr (map Inr (rendered sample_mirror), None), ?s)" for d n
    by (simp add: memory_conn_def)
  have live: "liveColumns (memory_conn sample_mirror) sample_mirror ?s = (Inr (map_of (rev (rendered sample_mirror))), ?s)"
    by (simp only: liveColumns_def q scan_columns_rows prod.case sum.case option.case append_Nil2)
  have "\<forall>m\<in>set (mt_cols sample_mirror). map_of (rev (rendered sample_mirror)) (mc_name m) = Some (mc_typ m)"
    by (simp add: sample_mirror_def mirrored_def key_column_def sample_fields_def BatchKeyColumn_def)
  note settled = reconcile_columns_settled [OF this]
  have "\<not> mt_ready sample_mirror" "ensureTTL (memory_conn sample_mirror) sample_mirror ?s = (None, ?s)"
    by (simp_all add: sample_mirror_def ensureTTL_def)
  then show ?thesis
    by (simp only: Ensure_def run memory_others made live settled if_False prod.case option.case sum.case) simp
qed

section \<open>Properties\<close>

text \<open>No two tables share a mirror table. Under the names every open requires, the join of namespace and table determines
  both, although a namespace may end in the separator's own character.\<close>

theorem mirror_names_distinct:
  assumes "ValidateName NameKindNamespace ns = None" "ValidateName NameKindTable t = None"
    "ValidateName NameKindNamespace ns' = None" "ValidateName NameKindTable t' = None"
    "TableName ns t = Inr n" "TableName ns' t' = Inr n"
  shows "ns = ns' \<and> t = t'"
proof -
  have "ns @ ''__'' @ t = ns' @ ''__'' @ t'" "\<not> Contains ns ''__''" "\<not> Contains ns' ''__''"
    using assms(5,6) by (auto simp: TableName_def nameSeparator_def split: if_splits)
  then show ?thesis
    using separator_unique [of ns t ns' t'] valid_name_start [OF assms(2)] valid_name_start [OF assms(4)] by blast
qed

theorem mirror_names_distinct_witness:
  "TableName ''a_'' ''b'' = Inr ''a___b'' \<and> (\<forall>ns t. ValidateName NameKindNamespace ns = None \<longrightarrow> ValidateName NameKindTable t = None \<longrightarrow>
     TableName ns t = Inr ''a___b'' \<longrightarrow> ns = ''a_'' \<and> t = ''b'')"
proof -
  have "ValidateName NameKindNamespace ''a_'' = None" "ValidateName NameKindTable ''b'' = None"
    unfolding ValidateName_iff by (simp_all add: name_ok_def char_code_def MaxNameLength_def)
  moreover have "TableName ''a_'' ''b'' = Inr ''a___b''"
    by (simp add: TableName_def Contains.simps HasPrefix_def nameSeparator_def)
  ultimately show ?thesis
    using mirror_names_distinct by blast
qed

text \<open>C38: Preparing a mirror never drops, renames or retypes a column, whatever fails on the way: on a server that creates and
  adds as documented, the columns the table had stay, in their order, and what is added is only optional columns of the
  declaration. A preparation that ends without an error leaves a table with every declared column at exactly its
  rendered type, the batch key included, and is not repeated; so a table with a column of another type, or without a
  required one, is never written to.\<close>

theorem prepared_mirror_agrees:
  assumes "schema_server c t columns" "NewTable db ns tbl desc ttl = Inr t" "distinct (map fld_Name (d_fields desc))"
    "\<forall>xs. columns s = Some xs \<longrightarrow> distinct (map fst xs)" "Ensure c t s = (r, t', s')"
  shows "(\<forall>xs. columns s = Some xs \<longrightarrow> (\<exists>ys. columns s' = Some (xs @ ys) \<and>
      (\<forall>y\<in>set ys. \<exists>f\<in>set (d_fields desc). y = (fld_Name f, columnType f) \<and> \<not> fld_Required f))) \<and>
    (r = None \<longrightarrow> mt_ready t' \<and> (\<exists>xs. columns s' = Some xs \<and> distinct (map fst xs) \<and> (BatchKeyColumn, ''String'') \<in> set xs \<and>
      (\<forall>f\<in>set (d_fields desc). (fld_Name f, columnType f) \<in> set xs)))"
proof -
  note new = NewTable_Inr [OF assms(2)]
  have d: "distinct (map mc_name (mt_cols t))"
    using assms(3) new(3,4) by (auto simp: comp_def mirrored_def key_column_def)
  have nullable: "\<not> fld_Required f" if "isNullable (columnType f)" for f
    using that by (auto simp: isNullable_def columnType_def Let_def split: Kind.splits)
  have opt: "\<exists>f\<in>set (d_fields desc). y = (fld_Name f, columnType f) \<and> \<not> fld_Required f"
    if "m \<in> set (mt_cols t)" "y = (mc_name m, mc_typ m)" "isNullable (mc_typ m)" for m y
    using that nullable by (auto simp: new(3) mirrored_def key_column_def isNullable_def)
  from schema_server.Ensure_columns [OF assms(1,5) new(5) d assms(4)]
  have g: "schema_server.grown t columns (columns s) s'"
    and ok: "r = None \<Longrightarrow> mt_ready t' \<and> (\<exists>xs. columns s' = Some xs \<and> distinct (map fst xs) \<and> set (rendered t) \<subseteq> set xs)"
    by simp_all
  have "(fld_Name f, columnType f) \<in> set (rendered t)" if "f \<in> set (d_fields desc)" for f
    using that by (auto simp: new(3) mirrored_def)
  moreover have "(BatchKeyColumn, ''String'') \<in> set (rendered t)"
    by (simp add: new(3) key_column_def)
  ultimately have done_ok: "r = None \<Longrightarrow> mt_ready t' \<and> (\<exists>xs. columns s' = Some xs \<and> distinct (map fst xs) \<and>
      (BatchKeyColumn, ''String'') \<in> set xs \<and> (\<forall>f\<in>set (d_fields desc). (fld_Name f, columnType f) \<in> set xs))"
    using ok by (meson subsetD)
  show ?thesis
    using g opt done_ok unfolding schema_server.grown_def [OF assms(1)] by fastforce
qed

theorem prepared_mirror_agrees_witness:
  "\<exists>t' s'. Ensure (memory_conn sample_mirror) sample_mirror empty_server = (None, t', s') \<and> mt_ready t' \<and>
    (\<exists>xs. ms_columns s' = Some xs \<and> (''_batch_key'', ''String'') \<in> set xs)"
proof -
  obtain s' where e: "Ensure (memory_conn sample_mirror) sample_mirror empty_server = (None, sample_mirror\<lparr>mt_ready := True\<rparr>, s')"
    using sample_Ensure by blast
  have "distinct (map fld_Name (d_fields sample_descriptor))"
    by (simp add: sample_descriptor_def sample_fields_def)
  then show ?thesis
    using prepared_mirror_agrees [OF memory_columns.schema_server_axioms sample_NewTable _ _ e] e
    by (auto simp: empty_server_def BatchKeyColumn_def)
qed

text \<open>C37: A batch reaches the mirror whole, with its rows' values, and not twice while the server knows its token. The table this
  mirror creates states a window of 1000 inserts, and a server forgets what is older (without the setting it knows nothing
  and takes every insert). On such a server, where the table is not there yet or has that window, an insert under a batch
  key, wherever it fails, leaves what the table took unchanged or, when no insert of the window has the key, adds the one content
  the rows determine: the header names the table, the shape's columns and the batch key column; slot \<open>r\<close> of column \<open>i\<close> is row
  \<open>r\<close>'s value \<open>i\<close> (a decimal as its exact unscaled value, an instant in microseconds, a null of an optional column as a
  null); the key column holds the key. After a success the key is among the window's, so inserts of one key stay more
  than 1000 inserts apart.\<close>

theorem mirror_insert_exact:
  assumes "batch_server c db (mt_name t) pending header dedup taken" "mirrors db ns tbl desc t" "descriptor_ok desc"
    "distinct (map fld_Name (d_fields desc))" "\<forall>row\<in>set rows. list_all2 value_fits (d_fields desc) row" "batch_of desc rows b"
    "dedup s = None \<or> dedup s = Some 1000" "mirror_Insert c t key b s = (r, t', s')"
  shows "mirrors db ns tbl desc t' \<and> mt_name t' = mt_name t \<and> (dedup s' = None \<or> dedup s' = Some 1000) \<and>
    (\<exists>st xs. read_insert st = Some (db, mt_name t, map fld_Name (d_fields desc) @ [BatchKeyColumn]) \<and>
      length xs = length (d_fields desc) \<and>
      (\<forall>i<length xs. hands_over (d_fields desc ! i) (map (\<lambda>row. row ! i) rows) (xs ! i)) \<and>
      (taken s' = taken s \<or> key \<notin> fst ` set (recent 1000 (taken s)) \<and> taken s' = taken s @
        [(key, st, enumerate 0 (xs @ [Plain (replicate (length rows) (CString (bytes_of_str key)))]))]) \<and>
      (r = None \<longrightarrow> key \<in> fst ` set (recent 1000 (taken s')))) \<and>
    (spaced 1000 (map fst (taken s)) \<longrightarrow> spaced 1000 (map fst (taken s')))"
proof -
  note exact = mirror_Insert_exact [OF assms]
  have "spaced 1000 (map fst (taken s'))" if sp: "spaced 1000 (map fst (taken s))"
  proof -
    from exact consider "taken s' = taken s"
      | x where "key \<notin> fst ` set (recent 1000 (taken s))" "taken s' = taken s @ [(key, x)]" by auto
    then show ?thesis
    proof cases
      case (2 x)
      then have "key \<notin> set (recent 1000 (map fst (taken s)))" by (simp flip: map_recent)
      with spaced_snoc [OF sp] 2(2) show ?thesis by simp
    qed (use sp in simp)
  qed
  with exact show ?thesis by blast
qed

lemma sample_mirrors: "mirrors ''icelake'' ''market'' ''fills'' sample_descriptor sample_mirror"
proof -
  have "mt_stmt sample_mirror = []" "mt_database sample_mirror = ''icelake''" by (simp_all add: sample_mirror_def)
  with sample_NewTable show ?thesis unfolding mirrors_def by blast
qed

lemma sample_Insert: "\<exists>t s. mirror_Insert (memory_conn sample_mirror) sample_mirror key sample_batch empty_server = (None, t, s)"
proof -
  obtain s1 where e: "Ensure (memory_conn sample_mirror) sample_mirror empty_server = (None, sample_mirror\<lparr>mt_ready := True\<rparr>, s1)"
    and w: "ms_window s1 = Some 1000"
    using sample_Ensure by blast
  have p: "PrepareBatch (memory_conn sample_mirror) key st s = (None, s\<lparr>ms_pending := [], ms_header := (key, st)\<rparr>)" for st s
    by (simp add: memory_conn_def)
  have a: "Column_Append (memory_conn sample_mirror) i x s = (None, s\<lparr>ms_pending := ms_pending s @ [(i, x)]\<rparr>)" for i x s
    by (simp add: memory_conn_def)
  have snd_ok: "\<exists>s'. Send (memory_conn sample_mirror) s = (None, s')" if "ms_window s = Some 1000" for s
    using that by (simp add: memory_conn_def memory_send_def)
  let ?t = "with_statement (sample_mirror\<lparr>mt_ready := True\<rparr>) (map af_Name (rb_fields sample_batch) @ [BatchKeyColumn])"
  have "mt_byName ?t ''id'' = Some (mirrored (sample_fields ! 0))" "mt_byName ?t ''amount'' = Some (mirrored (sample_fields ! 1))"
    by (simp_all add: mt_byName_def with_statement_def sample_mirror_def mirrored_def key_column_def sample_fields_def BatchKeyColumn_def)
  moreover have "zip (rb_fields sample_batch) (rb_columns sample_batch) =
      [(ArrowField ''id'' INT64 False (Some ''1''), Untouched (AInt64s [Some 7])),
       (ArrowField ''amount'' (DECIMAL128 10 2) True (Some ''2''), Decimal128s 10 2 [Some (0, 1250)])]"
    by (simp add: sample_batch_def FileSchema_def sample_arrow_def widen_type_def)
  ultimately have app: "\<exists>s'. append_columns (memory_conn sample_mirror) ?t key n 0 (zip (rb_fields sample_batch) (rb_columns sample_batch)) s = (None, s') \<and>
      ms_window s' = ms_window s" for n s
    by (simp add: a mirrored_def appendColumn_def sample_fields_def column_length_def array_length_def)
  obtain s2 where s2: "ms_window s2 = Some 1000" "append_columns (memory_conn sample_mirror) ?t key (rb_rows sample_batch) 0
      (zip (rb_fields sample_batch) (rb_columns sample_batch)) (s1\<lparr>ms_pending := [], ms_header := (key, mt_stmt ?t)\<rparr>) = (None, s2)"
    using app [of "rb_rows sample_batch" "s1\<lparr>ms_pending := [], ms_header := (key, mt_stmt ?t)\<rparr>"] w by auto
  moreover have "ms_window (s2\<lparr>ms_pending := x\<rparr>) = Some 1000" for x using s2(1) by simp
  from snd_ok [OF this] obtain s3 where "Send (memory_conn sample_mirror) (s2\<lparr>ms_pending := ms_pending s2 @
      [(length (rb_fields sample_batch), Plain (replicate (rb_rows sample_batch) (CString (bytes_of_str key))))]\<rparr>) = (None, s3)"
    by blast
  ultimately show ?thesis
    by (simp add: mirror_Insert_def e p a send_batch_def Let_def)
qed

theorem mirror_insert_exact_witness:
  "\<exists>t s st xs. mirror_Insert (memory_conn sample_mirror) sample_mirror ''k'' sample_batch empty_server = (None, t, s) \<and>
    read_insert st = Some (''icelake'', ''market__fills'', [''id'', ''amount'', ''_batch_key'']) \<and>
    ms_taken s = [(''k'', st, enumerate 0 (xs @ [Plain [CString (bytes_of_str ''k'')]]))] \<and>
    hands_over (sample_fields ! 1) [Some (GInt64 1250)] (xs ! 1)"
proof -
  obtain t s where run: "mirror_Insert (memory_conn sample_mirror) sample_mirror ''k'' sample_batch empty_server = (None, t, s)"
    using sample_Insert by blast
  have h: "distinct (map fld_Name (d_fields sample_descriptor))" "d_fields sample_descriptor = sample_fields"
    "\<forall>row\<in>set [sample_row]. list_all2 value_fits (d_fields sample_descriptor) row"
    by (simp_all add: sample_descriptor_def sample_fields_def sample_row_def value_fits_def)
  have db: "mt_database sample_mirror = ''icelake''" and w0: "ms_window empty_server = None \<or> ms_window empty_server = Some 1000"
    by (simp_all add: sample_mirror_def empty_server_def)
  from mirror_insert_exact [OF memory_batches.batch_server_axioms [of sample_mirror, unfolded db] sample_mirrors sample_descriptor_ok h(1,3) sample_batch_of w0 run]
  obtain st xs where x: "read_insert st = Some (''icelake'', mt_name sample_mirror, map fld_Name sample_fields @ [BatchKeyColumn])"
    "length xs = length sample_fields" "\<forall>i<length xs. hands_over (sample_fields ! i) [sample_row ! i] (xs ! i)"
    "ms_taken s = [(''k'', st, enumerate 0 (xs @ [Plain [CString (bytes_of_str ''k'')]]))]"
    by (auto simp: h(2) empty_server_def recent_def)
  have "sample_row ! 1 = Some (GInt64 1250)" "(1::nat) < length sample_fields" by (simp_all add: sample_row_def sample_fields_def)
  with x(2,3) have "hands_over (sample_fields ! 1) [Some (GInt64 1250)] (xs ! 1)" by metis
  moreover have "read_insert st = Some (''icelake'', ''market__fills'', [''id'', ''amount'', ''_batch_key''])"
    using x(1) by (simp add: sample_mirror_def sample_fields_def BatchKeyColumn_def)
  ultimately show ?thesis using run x(4) by blast
qed

lemma columnsFor_conflict: "columnsFor ns t target d = Inl e \<Longrightarrow> \<exists>col. e = mirror_conflict ns t target col"
  unfolding columnsFor_def by (auto split: option.splits if_splits elim!: first_error_Some)

lemma NewTable_conflict: "NewTable db ns t d ttl = Inl e \<Longrightarrow> \<exists>x. e = EClickHouse x \<and> che_Kind x = ClickHouseKindConflict"
  by (auto simp: NewTable_def res_bind_eq_Inl TableName_def validateTTL_def mirror_conflict_def Let_def
      split: if_splits option.splits dest!: columnsFor_conflict)

definition option_seconds :: "MirrorTTL option \<Rightarrow> TTL option" where
  "option_seconds ttl = map_option (\<lambda>t. \<lparr>ttl_Column = mttl_Column t,
     ttl_Seconds = sgn (mttl_After t) * (\<bar>mttl_After t\<bar> div 1000000000)\<rparr>) ttl"

lemmas mirror_errors = mirror_fail_def NewClickHouseError_def table_conflict_def mirror_conflict_def

lemma reconcile_columns_errors: "reconcile_columns c t live cols s = (Some e, s') \<Longrightarrow> \<exists>x. e = EClickHouse x"
  by (induction cols arbitrary: s) (auto simp: mirror_errors split: option.splits if_splits prod.splits)

lemma Ensure_errors: "Ensure c t s = (Some e, t', s') \<Longrightarrow> \<exists>x. e = EClickHouse x"
  by (auto simp: Ensure_def exec_or_fail_def liveColumns_def ensureTTL_def mirror_errors
      split: if_splits option.splits prod.splits sum.splits dest!: reconcile_columns_errors)

text \<open>C39: No state of a ClickHouse server refuses an open, and none is passed over. Whatever the driver answers, the only error
  \<open>mirrorFor\<close> returns is a conflict: a name, a column or an expiry the declaration states, or a live table that disagrees
  with it, and a conflict is returned and not reported. With a connection and no conflict the writer gets a mirror, and the
  callback, if one is set, is given an error exactly when that mirror is left to be prepared again; the error is the one
  of another kind that stopped the preparation. With no mirror configured there is none, and the server is not asked.\<close>

theorem mirror_never_refuses:
  assumes "mirrorFor hook conn ns t d ttl s = (r, reported, s')"
  shows "(\<forall>e. r = Inl e \<longrightarrow> reported = None \<and> (\<exists>x. e = EClickHouse x \<and> che_Kind x = ClickHouseKindConflict)) \<and>
    (\<forall>m. r = Inr (Some m) \<longrightarrow> (reported = None \<longleftrightarrow> mt_ready m \<or> \<not> hook)) \<and>
    (\<forall>e. reported = Some e \<longrightarrow> (\<exists>x m. e = EClickHouse x \<and> che_Kind x \<noteq> ClickHouseKindConflict \<and> r = Inr (Some m) \<and>
       (\<exists>c db t0. conn = Some (c, db) \<and> NewTable db ns t d (option_seconds ttl) = Inr t0 \<and> Ensure c t0 s = (Some e, m, s')))) \<and>
    (r = Inr None \<longleftrightarrow> conn = None) \<and> (conn = None \<longrightarrow> s' = s)"
proof (cases conn)
  case None
  with assms show ?thesis by (auto simp: mirrorFor_def)
next
  case (Some p)
  obtain c database where p: "p = (c, database)" by fastforce
  show ?thesis
  proof (cases "NewTable database ns t d (option_seconds ttl)")
    case (Inl e)
    with assms Some p NewTable_conflict [OF Inl] show ?thesis by (auto simp: mirrorFor_def option_seconds_def Let_def)
  next
    case (Inr m)
    obtain e m' s1 where en: "Ensure c m s = (e, m', s1)" by (cases "Ensure c m s") auto
    have ready: "mt_ready m' \<longleftrightarrow> e = None"
      using en NewTable_Inr(5) [OF Inr] by (auto simp: Ensure_def split: option.splits prod.splits sum.splits)
    show ?thesis
    proof (cases e)
      case None
      with assms Some p Inr en ready show ?thesis by (auto simp: mirrorFor_def option_seconds_def Let_def)
    next
      case (Some e0)
      with en have failed: "Ensure c m s = (Some e0, m', s1)" by simp
      obtain x where x: "e0 = EClickHouse x"
        using Ensure_errors [OF failed] by (elim exE)
      then have a: "errors_As is_ClickHouse e0 = Some (EClickHouse x)"
        unfolding errors_As_def by (subst chain.simps) (simp add: is_ClickHouse_def)
      have "mirrorFor hook conn ns t d ttl s = (if che_Kind x = ClickHouseKindConflict then (Inl e0, None, s1)
          else if hook then (Inr (Some m'), Some e0, s1) else (Inr (Some m'), None, s1))"
        using \<open>conn = Some p\<close> p Inr failed a x by (simp add: mirrorFor_def option_seconds_def Let_def)
      with assms have run: "(r, reported, s') = (if che_Kind x = ClickHouseKindConflict then (Inl e0, None, s1)
          else if hook then (Inr (Some m'), Some e0, s1) else (Inr (Some m'), None, s1))" by simp
      show ?thesis
        using run x ready failed Some Inr \<open>conn = Some p\<close> p by (auto split: if_splits)
    qed
  qed
qed

theorem mirror_never_refuses_witness:
  "\<exists>m x s. mirrorFor True (Some ((memory_conn sample_mirror)\<lparr>Exec := (\<lambda>st s. (Some (ErrOther ''connection refused''), s))\<rparr>, ''icelake''))
     ''market'' ''fills'' sample_descriptor None empty_server = (Inr (Some m), Some (EClickHouse x), s) \<and>
     che_Kind x \<noteq> ClickHouseKindConflict \<and> \<not> mt_ready m"
proof -
  let ?down = "(memory_conn sample_mirror)\<lparr>Exec := (\<lambda>st s. (Some (ErrOther ''connection refused''), s))\<rparr>"
  have "\<not> mt_ready sample_mirror" by (simp add: sample_mirror_def)
  then have "Ensure ?down sample_mirror empty_server =
      (Some (mirror_fail sample_mirror (kindFor ?down (ErrOther ''connection refused'')) (ErrOther ''connection refused'')), sample_mirror, empty_server)"
    by (simp add: Ensure_def exec_or_fail_def)
  moreover have "kindFor ?down (ErrOther ''connection refused'') = ClickHouseKindConnect"
    by (simp add: kindFor_def memory_conn_def)
  moreover have "errors_As is_ClickHouse (EClickHouse x) = Some (EClickHouse x)" for x
    unfolding errors_As_def by (subst chain.simps) (simp add: is_ClickHouse_def)
  ultimately obtain r e s where run: "mirrorFor True (Some (?down, ''icelake'')) ''market'' ''fills'' sample_descriptor None empty_server = (r, Some e, s)"
    by (simp add: mirrorFor_def sample_NewTable mirror_errors)
  from mirror_never_refuses [OF this] run show ?thesis by blast
qed

end
