(* ===== verification/Catalog.thy ===== *)
theory Catalog
  imports BatchBuild
begin

text \<open>File \<open>catalog.go\<close>: one table's startup lifecycle, created if it does not exist, reconciled against the
  declaration if it does, and verified in both cases. The catalog and the table library are the parameter
  \<open>catalog_lib\<close>, over a catalog state \<open>'s\<close> and a table handle \<open>'t\<close>; the transaction and the schema update of one
  reconciliation are the lists of what was queued on them, in order.\<close>

section \<open>The library\<close>

datatype (plugins only: size code) schema_op =
  AddColumn string iceberg_type bool | RenameColumn string string | UpdateColumn string iceberg_type

type_synonym properties = "(string \<times> string) list"

record ('t, 's) catalog_lib =
  LoadTable :: "string \<Rightarrow> string \<Rightarrow> 's \<Rightarrow> (error, 't) result"
  CheckNamespaceExists :: "string \<Rightarrow> 's \<Rightarrow> (error, bool) result"
  CreateNamespace :: "string \<Rightarrow> 's \<Rightarrow> error option \<times> 's"
  CreateTable :: "string \<Rightarrow> string \<Rightarrow> NestedField list \<Rightarrow> string \<Rightarrow> properties \<Rightarrow> 's \<Rightarrow> (error, 't) result \<times> 's"
  Table_Schema :: "'t \<Rightarrow> NestedField list"
  Table_Property :: "'t \<Rightarrow> string \<Rightarrow> string"
  SetProperties :: "'t \<Rightarrow> properties \<Rightarrow> error option"
  UpdateSchema_Commit :: "'t \<Rightarrow> schema_op list \<Rightarrow> error option"
  Transaction_Commit :: "'t \<Rightarrow> schema_op list \<Rightarrow> properties \<Rightarrow> 's \<Rightarrow> (error, 't) result \<times> 's"

definition ErrNoSuchTable :: error where
  "ErrNoSuchTable = ErrOther ''table does not exist''"

definition ErrNamespaceAlreadyExists :: error where
  "ErrNamespaceAlreadyExists = ErrOther ''namespace already exists''"

definition forceVirtualAddressingKey :: string where
  "forceVirtualAddressingKey = ''s3.force-virtual-addressing''"

definition table_properties :: properties where
  "table_properties = [(forceVirtualAddressingKey, ''false''), (''commit.manifest-merge.enabled'', ''true''),
     (''commit.manifest.target-size-bytes'', ''8388608''), (''commit.manifest.min-count-to-merge'', ''100'')]"

text \<open>\<open>FindFieldByID\<close> on the flat schemas the declarations state.\<close>

definition FindFieldByID :: "NestedField list \<Rightarrow> int \<Rightarrow> NestedField option" where
  "FindFieldByID sch i = find (\<lambda>f. nf_ID f = i) sch"

definition tableLocation :: "string \<Rightarrow> string \<Rightarrow> string \<Rightarrow> string \<Rightarrow> string" where
  "tableLocation bucket prefix namespace name = ''s3://'' @ path_join [bucket, prefix, namespace, name]"

section \<open>Creating\<close>

definition create_namespace :: "('t, 's) catalog_lib \<Rightarrow> string \<Rightarrow> string \<Rightarrow> 's \<Rightarrow> error option \<times> 's" where
  "create_namespace cat namespace name s =
    (case CheckNamespaceExists cat namespace s of
       Inl e \<Rightarrow> (Some (NewReconcileError name (Some e)), s)
     | Inr True \<Rightarrow> (None, s)
     | Inr False \<Rightarrow>
         (case CreateNamespace cat namespace s of
            (None, s') \<Rightarrow> (None, s')
          | (Some e, s') \<Rightarrow>
              (if errors_Is e ErrNamespaceAlreadyExists then None else Some (NewReconcileError name (Some e)), s')))"

definition createTable :: "('t, 's) catalog_lib \<Rightarrow> string \<Rightarrow> string \<Rightarrow> ('p, 'z) Declaration_scheme \<Rightarrow> 's \<Rightarrow> (error, 't) result \<times> 's" where
  "createTable cat bucket prefix decl s =
    (case create_namespace cat (decl_namespace decl) (decl_table decl) s of
       (Some e, s') \<Rightarrow> (Inl e, s')
     | (None, s') \<Rightarrow>
         (case CreateTable cat (decl_namespace decl) (decl_table decl) (decl_iceberg decl)
                 (tableLocation bucket prefix (decl_namespace decl) (decl_table decl)) table_properties s' of
            (Inl e, s'') \<Rightarrow> (Inl (NewReconcileError (decl_table decl) (Some e)), s'')
          | (Inr tbl, s'') \<Rightarrow> (Inr tbl, s'')))"

section \<open>Reconciling\<close>

text \<open>The loop over the declared columns: what it queues on the schema update, or its refusal.\<close>

fun schema_difference :: "string \<Rightarrow> NestedField list \<Rightarrow> NestedField list \<Rightarrow> (error, schema_op list) result" where
  "schema_difference name live [] = Inr []"
| "schema_difference name live (want # wants) =
    (case FindFieldByID live (nf_ID want) of
       None \<Rightarrow>
         if nf_Required want then Inl (NewReconcileError name None)
         else res_bind (schema_difference name live wants) (\<lambda>ops.
           Inr (AddColumn (nf_Name want) (nf_Type want) False # ops))
     | Some have_field \<Rightarrow>
         if nf_Name have_field \<noteq> nf_Name want
         then res_bind (schema_difference name live wants) (\<lambda>ops.
           Inr (RenameColumn (nf_Name have_field) (nf_Name want) # ops))
         else if nf_Type have_field \<noteq> nf_Type want
         then res_bind (schema_difference name live wants) (\<lambda>ops.
           Inr (UpdateColumn (nf_Name have_field) (nf_Type want) # ops))
         else schema_difference name live wants)"

definition missing_properties :: "('t, 's) catalog_lib \<Rightarrow> 't \<Rightarrow> properties" where
  "missing_properties cat tbl =
    (if Table_Property cat tbl forceVirtualAddressingKey = [] then [(forceVirtualAddressingKey, ''false'')] else [])"

definition reconcileTable :: "('t, 's) catalog_lib \<Rightarrow> 't \<Rightarrow> ('p, 'z) Declaration_scheme \<Rightarrow> 's \<Rightarrow> (error, 't) result \<times> 's" where
  "reconcileTable cat tbl decl s =
    (let name = decl_table decl; fail = (\<lambda>e. NewReconcileError name (Some e)); props = missing_properties cat tbl in
     case schema_difference name (Table_Schema cat tbl) (decl_iceberg decl) of
       Inl e \<Rightarrow> (Inl e, s)
     | Inr ops \<Rightarrow>
         (case (if props = [] then None else SetProperties cat tbl props) of
            Some e \<Rightarrow> (Inl (fail e), s)
          | None \<Rightarrow>
              if ops = [] \<and> props = [] then (Inr tbl, s)
              else case UpdateSchema_Commit cat tbl ops of
                Some e \<Rightarrow> (Inl (fail e), s)
              | None \<Rightarrow>
                  (case Transaction_Commit cat tbl ops props s of
                     (Inl e, s') \<Rightarrow> (Inl (fail e), s')
                   | (Inr updated, s') \<Rightarrow> (Inr updated, s'))))"

section \<open>Verifying\<close>

definition verifySchema :: "('p, 'z) Declaration_scheme \<Rightarrow> NestedField list \<Rightarrow> error option" where
  "verifySchema decl live = first_error (\<lambda>want.
     case FindFieldByID live (nf_ID want) of
       None \<Rightarrow> Some (NewReconcileError (decl_table decl) None)
     | Some have_field \<Rightarrow>
         if nf_Name have_field \<noteq> nf_Name want then Some (NewReconcileError (decl_table decl) None)
         else if nf_Type have_field \<noteq> nf_Type want then Some (NewReconcileError (decl_table decl) None)
         else None) (decl_iceberg decl)"

definition openTable :: "('t, 's) catalog_lib \<Rightarrow> string \<Rightarrow> string \<Rightarrow> ('p, 'z) Declaration_scheme \<Rightarrow> 's \<Rightarrow> (error, 't) result \<times> 's" where
  "openTable cat bucket prefix decl s =
    (case (case LoadTable cat (decl_namespace decl) (decl_table decl) s of
             Inr tbl \<Rightarrow> reconcileTable cat tbl decl s
           | Inl e \<Rightarrow>
               if errors_Is e ErrNoSuchTable then createTable cat bucket prefix decl s
               else (Inl (NewReconcileError (decl_table decl) (Some e)), s)) of
       (Inl e, s') \<Rightarrow> (Inl e, s')
     | (Inr tbl, s') \<Rightarrow>
         (case verifySchema decl (Table_Schema cat tbl) of
            Some e \<Rightarrow> (Inl e, s')
          | None \<Rightarrow> (Inr tbl, s')))"

end
