(* ===== verification/CatalogProps.thy ===== *)
theory CatalogProps
  imports Catalog
begin

text \<open>What an opened table guarantees, whatever the catalog does, and what one reconciliation does on a catalog that
  applies a schema update as the table library documents it.\<close>

section \<open>Agreement of a table with a declaration\<close>

definition carries :: "NestedField list \<Rightarrow> NestedField \<Rightarrow> bool" where
  "carries live want \<longleftrightarrow> (\<exists>h. FindFieldByID live (nf_ID want) = Some h \<and> nf_Name h = nf_Name want \<and> nf_Type h = nf_Type want)"

lemma verifySchema_None: "verifySchema decl live = None \<longleftrightarrow> (\<forall>want\<in>set (decl_iceberg decl). carries live want)"
  by (auto simp: verifySchema_def carries_def split: option.splits if_splits)

lemma verifySchema_Some: "verifySchema decl live = Some e \<Longrightarrow> e = NewReconcileError (decl_table decl) None"
  by (auto simp: verifySchema_def split: option.splits if_splits elim!: first_error_Some)

lemma difference_empty:
  "schema_difference name live wants = Inr [] \<longleftrightarrow> (\<forall>want\<in>set wants. carries live want)"
  by (induction wants) (auto simp: carries_def res_bind_eq_Inr split: option.splits)

lemma difference_error: "schema_difference name live wants = Inl e \<Longrightarrow> e = NewReconcileError name None"
  by (induction wants) (auto simp: res_bind_eq_Inl split: option.splits if_splits)

lemma openTable_Inr:
  assumes "openTable cat bucket prefix decl s = (Inr tbl, s')"
  shows "verifySchema decl (Table_Schema cat tbl) = None"
  using assms by (auto simp: openTable_def split: prod.splits sum.splits option.splits if_splits)

section \<open>A catalog that applies updates\<close>

text \<open>One reconciliation queues at most one operation per column and names columns as they were when it began: the update
  changes those columns in place and appends the added ones under fresh ids.\<close>

fun apply_to :: "string \<Rightarrow> schema_op \<Rightarrow> NestedField \<Rightarrow> NestedField" where
  "apply_to orig (RenameColumn old new) f = (if orig = old then f\<lparr>nf_Name := new\<rparr> else f)"
| "apply_to orig (UpdateColumn n ty) f = (if orig = n then f\<lparr>nf_Type := ty\<rparr> else f)"
| "apply_to orig (AddColumn n ty req) f = f"

definition changed :: "schema_op list \<Rightarrow> NestedField \<Rightarrow> NestedField" where
  "changed ops f = fold (apply_to (nf_Name f)) ops f"

fun added :: "int \<Rightarrow> schema_op list \<Rightarrow> NestedField list" where
  "added i [] = []"
| "added i (AddColumn n ty req # ops) = \<lparr>nf_ID = i, nf_Name = n, nf_Type = ty, nf_Required = req\<rparr> # added (i + 1) ops"
| "added i (_ # ops) = added i ops"

definition applies_updates :: "('t, 's) catalog_lib \<Rightarrow> bool" where
  "applies_updates cat \<longleftrightarrow> (\<forall>t ops props s t' s'. Transaction_Commit cat t ops props s = (Inr t', s') \<longrightarrow>
     (\<exists>i. (\<forall>f\<in>set (Table_Schema cat t). nf_ID f < i) \<and>
        Table_Schema cat t' = map (changed ops) (Table_Schema cat t) @ added i ops))"

text \<open>What an operation does to a live column.\<close>

lemma apply_to_id [simp]: "nf_ID (apply_to n op f) = nf_ID f" "nf_Required (apply_to n op f) = nf_Required f"
  by (cases op; simp)+

lemma changed_id [simp]: "nf_ID (changed ops f) = nf_ID f" "nf_Required (changed ops f) = nf_Required f"
proof -
  have "nf_ID (fold (apply_to n) ops f) = nf_ID f \<and> nf_Required (fold (apply_to n) ops f) = nf_Required f" for n
    by (induction ops arbitrary: f) simp_all
  then show "nf_ID (changed ops f) = nf_ID f" "nf_Required (changed ops f) = nf_Required f"
    by (simp_all add: changed_def)
qed

definition targets :: "schema_op \<Rightarrow> string set" where
  "targets op = (case op of RenameColumn old _ \<Rightarrow> {old} | UpdateColumn n _ \<Rightarrow> {n} | AddColumn _ _ _ \<Rightarrow> {})"

lemma apply_untargeted: "n \<notin> targets op \<Longrightarrow> apply_to n op f = f"
  by (cases op) (simp_all add: targets_def)

lemma fold_untargeted: "\<forall>op\<in>set ops. n \<notin> targets op \<Longrightarrow> fold (apply_to n) ops f = f"
  by (induction ops arbitrary: f) (simp_all add: apply_untargeted)

definition live_ok :: "NestedField list \<Rightarrow> bool" where
  "live_ok live \<longleftrightarrow> distinct (map nf_ID live) \<and> distinct (map nf_Name live)"

lemma FindFieldByID_iff:
  "live_ok live \<Longrightarrow> FindFieldByID live i = Some f \<longleftrightarrow> f \<in> set live \<and> nf_ID f = i"
  by (auto simp: FindFieldByID_def live_ok_def find_Some_iff in_set_conv_nth distinct_conv_nth)

lemma FindFieldByID_None: "FindFieldByID live i = None \<longleftrightarrow> i \<notin> nf_ID ` set live"
  by (auto simp: FindFieldByID_def find_None_iff)

lemma difference_targets:
  assumes "schema_difference name live wants = Inr ops" "op \<in> set ops" "n \<in> targets op" "live_ok live"
  shows "\<exists>f\<in>set live. nf_Name f = n \<and> nf_ID f \<in> nf_ID ` set wants"
  using assms
proof (induction wants arbitrary: ops)
  case (Cons w ws)
  then show ?case
    by (auto simp: res_bind_eq_Inr targets_def FindFieldByID_iff split: option.splits if_splits schema_op.splits;
        fastforce simp: FindFieldByID_iff)
qed simp

lemma difference_changes:
  assumes "schema_difference name live wants = Inr ops" "live_ok live" "distinct (map nf_ID wants)"
    "want \<in> set wants" "FindFieldByID live (nf_ID want) = Some h"
  shows "changed ops h = (if nf_Name h \<noteq> nf_Name want then h\<lparr>nf_Name := nf_Name want\<rparr> else h\<lparr>nf_Type := nf_Type want\<rparr>)"
  using assms
proof (induction wants arbitrary: ops)
  case (Cons w ws)
  have h: "h \<in> set live" "nf_ID h = nf_ID want"
    using Cons.prems(2,5) by (auto simp: FindFieldByID_iff)
  have other: "nf_Name h \<notin> targets op" if vs: "schema_difference name live vs = Inr ops'" "op \<in> set ops'"
    "nf_ID want \<notin> nf_ID ` set vs" for vs ops' op
  proof
    assume "nf_Name h \<in> targets op"
    then obtain f where f: "f \<in> set live" "nf_Name f = nf_Name h" "nf_ID f \<in> nf_ID ` set vs"
      using difference_targets [OF vs(1,2) _ Cons.prems(2)] by blast
    then have "f = h"
      using Cons.prems(2) h(1) by (auto simp: live_ok_def distinct_map dest: inj_onD)
    with f(3) h(2) vs(3) show False by simp
  qed
  show ?case
  proof (cases "w = want")
    case True
    then have new: "nf_ID want \<notin> nf_ID ` set ws"
      using Cons.prems(3) by simp
    have untouched: "fold (apply_to (nf_Name h)) ops' f = f" if "schema_difference name live ws = Inr ops'" for ops' f
      using other [OF that _ new] by (intro fold_untargeted) blast
    have same: "h = h\<lparr>nf_Type := nf_Type want\<rparr>" if "nf_Type h = nf_Type want"
      using that by (cases h) simp
    show ?thesis
      using Cons.prems(1,5) True untouched same
      by (auto simp: changed_def res_bind_eq_Inr split: if_splits)
  next
    case False
    then have rest: "want \<in> set ws" "nf_ID w \<noteq> nf_ID want"
      using Cons.prems(3,4) by auto
    then have one: "nf_Name h \<notin> targets op" if "schema_difference name live [w] = Inr [op]" for op
      using other [OF that] by simp
    have skip: "changed ops h = changed ops' h \<and> schema_difference name live ws = Inr ops'"
      if "schema_difference name live ws = Inr ops'" for ops'
    proof -
      have "ops = ops' \<or> (\<exists>op. ops = op # ops' \<and> schema_difference name live [w] = Inr [op])"
        using Cons.prems(1) that by (auto simp: res_bind_eq_Inr split: option.splits if_splits)
      then show ?thesis
        using that one by (auto simp: changed_def apply_untargeted)
    qed
    obtain ops' where "schema_difference name live ws = Inr ops'"
      using Cons.prems(1) by (auto simp: res_bind_eq_Inr split: option.splits if_splits)
    from skip [OF this] Cons.IH [OF _ Cons.prems(2) _ rest(1) Cons.prems(5)] Cons.prems(3) show ?thesis by auto
  qed
qed simp

lemma find_changed:
  "FindFieldByID live i = Some h \<Longrightarrow> FindFieldByID (map (changed ops) live @ xs) i = Some (changed ops h)"
  by (induction live) (auto simp: FindFieldByID_def)

lemma reconcile_cases:
  assumes "reconcileTable cat tbl decl s = (Inr tbl', s')"
  obtains (same) "tbl' = tbl" "s' = s" "schema_difference (decl_table decl) (Table_Schema cat tbl) (decl_iceberg decl) = Inr []"
  | (commit) ops where "schema_difference (decl_table decl) (Table_Schema cat tbl) (decl_iceberg decl) = Inr ops"
      "Transaction_Commit cat tbl ops (missing_properties cat tbl) s = (Inr tbl', s')"
proof -
  obtain ops where ops: "schema_difference (decl_table decl) (Table_Schema cat tbl) (decl_iceberg decl) = Inr ops"
    using assms by (auto simp: reconcileTable_def Let_def split: sum.splits)
  show ?thesis
  proof (cases "ops = [] \<and> missing_properties cat tbl = []")
    case True
    with assms ops show ?thesis by (intro same) (auto simp: reconcileTable_def Let_def)
  next
    case False
    with assms ops show ?thesis
      by (intro commit [OF ops])
        (auto simp: reconcileTable_def Let_def split: option.splits if_splits prod.splits sum.splits)
  qed
qed

text \<open>What one reconciliation leaves in a declared column the table already has.\<close>

lemma reconciled_column:
  assumes "applies_updates cat" "reconcileTable cat tbl decl s = (Inr tbl', s')" "live_ok (Table_Schema cat tbl)"
    "distinct (map nf_ID (decl_iceberg decl))" "want \<in> set (decl_iceberg decl)"
    "FindFieldByID (Table_Schema cat tbl) (nf_ID want) = Some h"
  shows "FindFieldByID (Table_Schema cat tbl') (nf_ID want) =
    Some (if nf_Name h \<noteq> nf_Name want then h\<lparr>nf_Name := nf_Name want\<rparr> else h\<lparr>nf_Type := nf_Type want\<rparr>)"
  using assms(2)
proof (cases rule: reconcile_cases)
  case same
  then have "nf_Name h = nf_Name want \<and> nf_Type h = nf_Type want"
    using difference_empty assms(5,6) by (fastforce simp: carries_def)
  then show ?thesis
    using same(1) assms(6) by (cases h) simp
next
  case (commit ops)
  obtain i where "Table_Schema cat tbl' = map (changed ops) (Table_Schema cat tbl) @ added i ops"
    using assms(1) commit(2) unfolding applies_updates_def by blast
  then show ?thesis
    using find_changed [OF assms(6)] difference_changes [OF commit(1) assms(3-6)] by simp
qed

section \<open>A catalog in memory\<close>

text \<open>A catalog of one table, its schema and its properties, that answers as documented.\<close>

type_synonym memory_table = "NestedField list \<times> properties"

definition next_id :: "NestedField list \<Rightarrow> int" where
  "next_id sch = foldr (\<lambda>f m. max m (nf_ID f)) sch 0 + 1"

definition memory_catalog :: "(memory_table, memory_table option) catalog_lib" where
  "memory_catalog = \<lparr>
     LoadTable = (\<lambda>ns t s. case s of None \<Rightarrow> Inl ErrNoSuchTable | Some tbl \<Rightarrow> Inr tbl),
     CheckNamespaceExists = (\<lambda>ns s. Inr True),
     CreateNamespace = (\<lambda>ns s. (None, s)),
     CreateTable = (\<lambda>ns t sch loc props s. (Inr (sch, props), Some (sch, props))),
     Table_Schema = fst,
     Table_Property = (\<lambda>tbl k. case map_of (snd tbl) k of None \<Rightarrow> [] | Some v \<Rightarrow> v),
     SetProperties = (\<lambda>tbl props. None),
     UpdateSchema_Commit = (\<lambda>tbl ops. None),
     Transaction_Commit = (\<lambda>tbl ops props s.
       let tbl' = (map (changed ops) (fst tbl) @ added (next_id (fst tbl)) ops, props @ snd tbl) in (Inr tbl', Some tbl'))\<rparr>"

lemma next_id_fresh: "f \<in> set sch \<Longrightarrow> nf_ID f < next_id sch"
  by (induction sch) (auto simp: next_id_def)

lemma memory_applies: "applies_updates memory_catalog"
  by (auto simp: applies_updates_def memory_catalog_def Let_def intro: next_id_fresh)

text \<open>The sample declaration's table, with a column the declaration has since dropped.\<close>

definition sample_live :: "NestedField list" where
  "sample_live = decl_iceberg sample_declaration @ [\<lparr>nf_ID = 3, nf_Name = ''old'', nf_Type = StringType, nf_Required = False\<rparr>]"

text \<open>The same table before its first column was renamed and widened.\<close>

definition sample_before :: "NestedField list" where
  "sample_before = [\<lparr>nf_ID = 1, nf_Name = ''ident'', nf_Type = Int32Type, nf_Required = True\<rparr>,
    \<lparr>nf_ID = 2, nf_Name = ''amount'', nf_Type = DecimalType 10 2, nf_Required = False\<rparr>,
    \<lparr>nf_ID = 3, nf_Name = ''old'', nf_Type = StringType, nf_Required = False\<rparr>]"

lemma sample_tables: "live_ok sample_live" "live_ok sample_before" "distinct (map nf_ID (decl_iceberg sample_declaration))"
  "\<forall>want\<in>set (decl_iceberg sample_declaration). carries sample_live want"
  by (simp_all add: live_ok_def sample_live_def sample_before_def sample_declaration_def carries_def FindFieldByID_def)

lemma sample_reconcile:
  "reconcileTable memory_catalog (sample_before, table_properties) sample_declaration s =
    (Inr (sample_before[0 := \<lparr>nf_ID = 1, nf_Name = ''id'', nf_Type = Int32Type, nf_Required = True\<rparr>], table_properties),
     Some (sample_before[0 := \<lparr>nf_ID = 1, nf_Name = ''id'', nf_Type = Int32Type, nf_Required = True\<rparr>], table_properties))"
  by (simp add: reconcileTable_def memory_catalog_def sample_before_def sample_declaration_def FindFieldByID_def
      missing_properties_def table_properties_def Let_def changed_def)

section \<open>Properties\<close>

text \<open>C29: \<open>openTable\<close> hands out only a table that agrees with the declaration, whatever the catalog answers: every declared
  column is in the table's schema under its permanent id, with its name and its type. And once a table agrees and
  records its storage addressing, opening it again returns it as loaded and commits nothing.\<close>

theorem opened_table_agrees:
  "(openTable cat bucket prefix decl s = (Inr tbl, s') \<longrightarrow>
      (\<forall>want\<in>set (decl_iceberg decl). carries (Table_Schema cat tbl) want)) \<and>
   (LoadTable cat (decl_namespace decl) (decl_table decl) s = Inr tbl \<longrightarrow>
      Table_Property cat tbl forceVirtualAddressingKey \<noteq> [] \<longrightarrow>
      (\<forall>want\<in>set (decl_iceberg decl). carries (Table_Schema cat tbl) want) \<longrightarrow>
      openTable cat bucket prefix decl s = (Inr tbl, s))"
proof (intro conjI impI)
  show "\<forall>want\<in>set (decl_iceberg decl). carries (Table_Schema cat tbl) want"
    if "openTable cat bucket prefix decl s = (Inr tbl, s')"
    using openTable_Inr [OF that] by (simp add: verifySchema_None)
next
  assume load: "LoadTable cat (decl_namespace decl) (decl_table decl) s = Inr tbl"
    and addr: "Table_Property cat tbl forceVirtualAddressingKey \<noteq> []"
    and agrees: "\<forall>want\<in>set (decl_iceberg decl). carries (Table_Schema cat tbl) want"
  then have "reconcileTable cat tbl decl s = (Inr tbl, s)"
    using difference_empty [of "decl_table decl" "Table_Schema cat tbl" "decl_iceberg decl"]
    by (simp add: reconcileTable_def missing_properties_def Let_def)
  with load agrees show "openTable cat bucket prefix decl s = (Inr tbl, s)"
    by (simp add: openTable_def verifySchema_None [THEN iffD2])
qed

theorem opened_table_agrees_witness:
  "openTable memory_catalog ''bucket'' ''lake'' sample_declaration (Some (sample_live, table_properties)) =
     (Inr (sample_live, table_properties), Some (sample_live, table_properties))"
proof -
  have "LoadTable memory_catalog (decl_namespace sample_declaration) (decl_table sample_declaration)
      (Some (sample_live, table_properties)) = Inr (sample_live, table_properties)"
    "Table_Property memory_catalog (sample_live, table_properties) forceVirtualAddressingKey \<noteq> []"
    "Table_Schema memory_catalog (sample_live, table_properties) = sample_live"
    by (simp_all add: memory_catalog_def table_properties_def)
  then show ?thesis
    using opened_table_agrees [of memory_catalog _ _ sample_declaration] sample_tables(4) by simp
qed

text \<open>C30: Reconciliation never drops, reorders or touches a column the declaration omits: on a catalog that applies updates
  as documented, the reconciled table has the live columns first, in their order, each with its id and its
  requiredness, and a column whose id is not declared unchanged; what follows are the added columns, under ids no live
  column had.\<close>

theorem undeclared_columns_stay:
  assumes "applies_updates cat" "reconcileTable cat tbl decl s = (Inr tbl', s')" "live_ok (Table_Schema cat tbl)"
  shows "\<exists>old new. Table_Schema cat tbl' = old @ new \<and>
    list_all2 (\<lambda>f g. nf_ID g = nf_ID f \<and> nf_Required g = nf_Required f \<and>
      (nf_ID f \<notin> nf_ID ` set (decl_iceberg decl) \<longrightarrow> g = f)) (Table_Schema cat tbl) old \<and>
    (\<forall>g\<in>set new. nf_ID g \<notin> nf_ID ` set (Table_Schema cat tbl))"
  using assms(2)
proof (cases rule: reconcile_cases)
  case same
  then show ?thesis
    by (intro exI [of _ "Table_Schema cat tbl"] exI [of _ "[]"]) (simp add: list_all2_conv_all_nth)
next
  case (commit ops)
  let ?live = "Table_Schema cat tbl"
  obtain i where i: "\<forall>f\<in>set ?live. nf_ID f < i" "Table_Schema cat tbl' = map (changed ops) ?live @ added i ops"
    using assms(1) commit(2) unfolding applies_updates_def by blast
  have untouched: "changed ops f = f" if "f \<in> set ?live" "nf_ID f \<notin> nf_ID ` set (decl_iceberg decl)" for f
  proof -
    have "nf_Name f \<notin> targets op" if "op \<in> set ops" for op
    proof
      assume "nf_Name f \<in> targets op"
      then obtain g where g: "g \<in> set ?live" "nf_Name g = nf_Name f" "nf_ID g \<in> nf_ID ` set (decl_iceberg decl)"
        using difference_targets [OF commit(1) \<open>op \<in> set ops\<close> _ assms(3)] by blast
      then have "g = f"
        using assms(3) \<open>f \<in> set ?live\<close> by (auto simp: live_ok_def distinct_map dest: inj_onD)
      with g(3) \<open>nf_ID f \<notin> _\<close> show False by simp
    qed
    then show ?thesis
      unfolding changed_def by (intro fold_untargeted) blast
  qed
  have "\<forall>g\<in>set (added k ops). k \<le> nf_ID g" for k
    by (induction k ops rule: added.induct) force+
  with i(1) have "\<forall>g\<in>set (added i ops). nf_ID g \<notin> nf_ID ` set ?live"
    by fastforce
  with untouched show ?thesis
    unfolding i(2) by (intro exI conjI refl) (auto simp: list_all2_conv_all_nth)
qed

theorem undeclared_columns_stay_witness:
  "\<lparr>nf_ID = 3, nf_Name = ''old'', nf_Type = StringType, nf_Required = False\<rparr> \<in> set (Table_Schema memory_catalog
     (sample_before[0 := \<lparr>nf_ID = 1, nf_Name = ''id'', nf_Type = Int32Type, nf_Required = True\<rparr>], table_properties)) \<and>
   (\<exists>old new. sample_before[0 := \<lparr>nf_ID = 1, nf_Name = ''id'', nf_Type = Int32Type, nf_Required = True\<rparr>] = old @ new \<and>
     length old = 3)"
proof -
  have schema: "Table_Schema memory_catalog (x, y) = x" for x y
    by (simp add: memory_catalog_def)
  from undeclared_columns_stay [OF memory_applies sample_reconcile [of None]] sample_tables(2) obtain old new where
    on: "sample_before[0 := \<lparr>nf_ID = 1, nf_Name = ''id'', nf_Type = Int32Type, nf_Required = True\<rparr>] = old @ new"
      "list_all2 (\<lambda>f g. nf_ID g = nf_ID f \<and> nf_Required g = nf_Required f \<and>
      (nf_ID f \<notin> nf_ID ` set (decl_iceberg sample_declaration) \<longrightarrow> g = f)) sample_before old"
    unfolding schema by blast
  from list_all2_lengthD [OF on(2)] have "length old = 3"
    by (simp add: sample_before_def)
  with on(1) have "\<exists>old new. sample_before[0 := \<lparr>nf_ID = 1, nf_Name = ''id'', nf_Type = Int32Type, nf_Required = True\<rparr>]
      = old @ new \<and> length old = 3" by blast
  moreover have "\<lparr>nf_ID = 3, nf_Name = ''old'', nf_Type = StringType, nf_Required = False\<rparr> \<in> set (Table_Schema memory_catalog
      (sample_before[0 := \<lparr>nf_ID = 1, nf_Name = ''id'', nf_Type = Int32Type, nf_Required = True\<rparr>], table_properties))"
    by (simp add: schema sample_before_def)
  ultimately show ?thesis by blast
qed

text \<open>The three cases of schema evolution exclude each other: a column that changed its name and its type since the
  table was last opened is only renamed. On a catalog that applies updates as documented the open is then refused,
  after the rename has been committed, and it is the next open that changes the type.\<close>

theorem renamed_and_retyped_refused:
  assumes "applies_updates cat" "LoadTable cat (decl_namespace decl) (decl_table decl) s = Inr tbl"
    "live_ok (Table_Schema cat tbl)" "distinct (map nf_ID (decl_iceberg decl))" "want \<in> set (decl_iceberg decl)"
    "FindFieldByID (Table_Schema cat tbl) (nf_ID want) = Some h" "nf_Name h \<noteq> nf_Name want" "nf_Type h \<noteq> nf_Type want"
  shows "\<exists>e. fst (openTable cat bucket prefix decl s) = Inl e \<and>
    (\<forall>tbl' s'. reconcileTable cat tbl decl s = (Inr tbl', s') \<longrightarrow>
       snd (openTable cat bucket prefix decl s) = s' \<and>
       FindFieldByID (Table_Schema cat tbl') (nf_ID want) = Some (h\<lparr>nf_Name := nf_Name want\<rparr>))"
proof (cases "reconcileTable cat tbl decl s")
  case (Pair r s')
  show ?thesis
  proof (cases r)
    case (Inl e)
    with Pair show ?thesis using assms(2) by (simp add: openTable_def)
  next
    case (Inr tbl')
    note col = reconciled_column [OF assms(1) Pair [unfolded Inr] assms(3-6)]
    have "\<not> carries (Table_Schema cat tbl') want"
      using col assms(7,8) by (simp add: carries_def)
    then obtain e where "verifySchema decl (Table_Schema cat tbl') = Some e"
      using assms(5) by (cases "verifySchema decl (Table_Schema cat tbl')") (auto simp: verifySchema_None)
    with Pair Inr col assms(2,7) show ?thesis by (simp add: openTable_def)
  qed
qed

theorem renamed_and_retyped_refused_witness:
  "\<exists>e. fst (openTable memory_catalog ''bucket'' ''lake'' sample_declaration (Some (sample_before, table_properties))) = Inl e"
proof -
  have "LoadTable memory_catalog (decl_namespace sample_declaration) (decl_table sample_declaration)
      (Some (sample_before, table_properties)) = Inr (sample_before, table_properties)"
    by (simp add: memory_catalog_def)
  moreover have schema: "Table_Schema memory_catalog (x, y) = x" for x y
    by (simp add: memory_catalog_def)
  ultimately show ?thesis
    using renamed_and_retyped_refused [OF memory_applies, of sample_declaration _ _
        "\<lparr>nf_ID = 1, nf_Name = ''id'', nf_Type = Int64Type, nf_Required = True\<rparr>"
        "\<lparr>nf_ID = 1, nf_Name = ''ident'', nf_Type = Int32Type, nf_Required = True\<rparr>" "''bucket''" "''lake''"]
      sample_tables(2,3) by (fastforce simp: sample_before_def sample_declaration_def FindFieldByID_def)
qed

text \<open>Requiredness is not compared: a declaration that makes a required column optional opens over a table that keeps it
  required, and commits nothing.\<close>

theorem requiredness_not_compared:
  "openTable memory_catalog bucket prefix
     (sample_declaration\<lparr>decl_iceberg := map (\<lambda>f. f\<lparr>nf_Required := False\<rparr>) (decl_iceberg sample_declaration)\<rparr>)
     (Some (sample_live, table_properties)) = (Inr (sample_live, table_properties), Some (sample_live, table_properties)) \<and>
   (\<exists>f\<in>set sample_live. nf_ID f = 1 \<and> nf_Required f)"
  by (simp add: openTable_def reconcileTable_def memory_catalog_def sample_live_def sample_declaration_def FindFieldByID_def
      missing_properties_def table_properties_def verifySchema_def Let_def)

end
