(* ===== verification/Drain.thy ===== *)
theory Drain
  imports CatalogProps
begin

text \<open>File \<open>drain.go\<close>: a table's backlog of local files, walked oldest first and committed each under the shape it
  was written with. The world is the store's registry, the catalog's state and a \<open>flush_world\<close>, whose \<open>fw_catalog\<close>
  and \<open>fw_table\<close> are the snapshots of the table under the claim; \<open>dw_snapshots\<close> keeps those of the others.
  Opening a table gives a handle on its current snapshot.\<close>

section \<open>The world\<close>

record drain_config =
  dr_Bucket :: string
  dr_Prefix :: string
  dr_LocalOnly :: bool
  dr_Spool :: bool

record 's drain_world =
  dw_registry :: Store
  dw_cat :: 's
  dw_flush :: flush_world
  dw_snapshots :: "TableID \<Rightarrow> snapshot option"

definition plain_error :: "flush_fail \<Rightarrow> error" where
  "plain_error f = (case f of Unencodable e \<Rightarrow> e | Failed e \<Rightarrow> e)"

definition fl_wrap :: "(error \<Rightarrow> error) \<Rightarrow> 'a fop \<Rightarrow> 'a fop" where
  "fl_wrap g m w = (case m w of (Inl f, w') \<Rightarrow> (Inl (Failed (g (plain_error f))), w') | (Inr x, w') \<Rightarrow> (Inr x, w'))"

definition os_ReadFile :: "string \<Rightarrow> bytes sop" where
  "os_ReadFile path w =
    (case os_ok w of
       (Inl e, w1) \<Rightarrow> (Inl e, w1)
     | (Inr _, w1) \<Rightarrow> (case sp_files w1 path of None \<Rightarrow> (Inl fs_ErrNotExist, w1) | Some body \<Rightarrow> (Inr body, w1)))"

definition PutObject :: "string \<Rightarrow> bytes \<Rightarrow> unit fop" where
  "PutObject key body = ext_call (\<lambda>w. w\<lparr>fw_bucket := (fw_bucket w)(key \<mapsto> body)\<rparr>)"

section \<open>One file\<close>

definition drain_fail :: "string \<Rightarrow> SpoolEntry \<Rightarrow> error \<Rightarrow> error" where
  "drain_fail dir f cause = NewSpoolError SpoolKindDrain dir (Path dir (spe_Namespace f) (spe_Table f) (spe_entry_key f))
     (spe_entry_key f) (Some cause)"

definition file_uri :: "drain_config \<Rightarrow> SpoolEntry \<Rightarrow> string" where
  "file_uri cfg f = DataURI (dr_Bucket cfg) (dr_Prefix cfg) (spe_Namespace f) (spe_Table f) (spe_entry_key f)"

definition file_key :: "drain_config \<Rightarrow> SpoolEntry \<Rightarrow> string" where
  "file_key cfg f = DataKey (dr_Prefix cfg) (spe_Namespace f) (spe_Table f) (spe_entry_key f)"

text \<open>From reading the file to marking it, on the handle the open returned.\<close>

definition commit_file :: "drain_config \<Rightarrow> SpoolEntry \<Rightarrow> unit fop" where
  "commit_file cfg f w =
    (let dir = sp_dir (fw_spool w); path = Path dir (spe_Namespace f) (spe_Table f) (spe_entry_key f) in
     fl_bind (fl_wrap (drain_fail dir f) (spool_op (os_ReadFile path))) (\<lambda>body.
     fl_bind (fl_wrap (drain_fail dir f) (PutObject (file_key cfg f) body)) (\<lambda>_.
     fl_bind (fl_wrap (drain_fail dir f) (AlreadyCommitted (file_uri cfg f))) (\<lambda>found.
     fl_bind (if found then fl_ret ()
              else fl_wrap (drain_fail dir f) (fl_bind (AddFile (file_uri cfg f)) (\<lambda>_. fl_ret ()))) (\<lambda>_ w'.
     spool_op (MarkCommitted (spe_Namespace f) (spe_Table f) (spe_entry_key f) (fw_now w')) w')))) w)"

definition drainFile :: "('t, 's) catalog_lib \<Rightarrow> 'p derivation \<Rightarrow> drain_config \<Rightarrow> SpoolEntry \<Rightarrow>
    's \<times> flush_world \<Rightarrow> error option \<times> 's \<times> flush_world" where
  "drainFile cat lib cfg f = (\<lambda>(s, w).
     let dir = sp_dir (fw_spool w) in
     case spool_op (Spool_Schema (spe_SchemaFP f)) w of
       (Inl e, w1) \<Rightarrow> (Some (drain_fail dir f (plain_error e)), s, w1)
     | (Inr desc, w1) \<Rightarrow>
     (case DeclareFromDescriptor lib (spe_Namespace f) (spe_Table f) (IcebergFields desc) of
       Inl e \<Rightarrow> (Some (drain_fail dir f e), s, w1)
     | Inr decl \<Rightarrow>
     (case openTable cat (dr_Bucket cfg) (dr_Prefix cfg) decl s of
       (Inl e, s1) \<Rightarrow> (Some (drain_fail dir f e), s1, w1)
     | (Inr tbl, s1) \<Rightarrow>
     (case commit_file cfg f (w1\<lparr>fw_table := fw_catalog w1\<rparr>) of
       (Inl e, w2) \<Rightarrow> (Some (plain_error e), s1, w2)
     | (Inr _, w2) \<Rightarrow> (None, s1, w2)))))"

section \<open>One table\<close>

definition stagedBatchKeys :: "string \<Rightarrow> string \<Rightarrow> string list fop" where
  "stagedBatchKeys ns name =
    fl_bind (staging_op Scan) (\<lambda>index.
    fl_ret (filter (\<lambda>k. k \<noteq> []) (map pb_Key (fst (Claim ns name index)))))"

fun drain_files :: "('t, 's) catalog_lib \<Rightarrow> 'p derivation \<Rightarrow> drain_config \<Rightarrow> string list \<Rightarrow> SpoolEntry list \<Rightarrow>
    's \<times> flush_world \<Rightarrow> error option \<times> 's \<times> flush_world" where
  "drain_files cat lib cfg staged [] sw = (None, sw)"
| "drain_files cat lib cfg staged (f # fs) sw =
    (if spe_entry_key f \<in> set staged then drain_files cat lib cfg staged fs sw
     else case drainFile cat lib cfg f sw of
       (Some e, sw') \<Rightarrow> (Some e, sw')
     | (None, sw') \<Rightarrow> drain_files cat lib cfg staged fs sw')"

definition drainTable :: "('t, 's) catalog_lib \<Rightarrow> 'p derivation \<Rightarrow> drain_config \<Rightarrow> string \<Rightarrow> string \<Rightarrow>
    's \<times> flush_world \<Rightarrow> error option \<times> 's \<times> flush_world" where
  "drainTable cat lib cfg ns name = (\<lambda>(s, w).
     if \<not> dr_Spool cfg \<or> dr_LocalOnly cfg then (None, s, w)
     else case spool_op (Backlog ns name) w of
       (Inl e, w1) \<Rightarrow> (Some (plain_error e), s, w1)
     | (Inr backlog, w1) \<Rightarrow>
         if backlog = [] then (None, s, w1)
         else case stagedBatchKeys ns name w1 of
           (Inl e, w2) \<Rightarrow> (Some (plain_error e), s, w2)
         | (Inr staged, w2) \<Rightarrow> drain_files cat lib cfg staged backlog (s, w2))"

section \<open>The store\<close>

text \<open>The walk of one table with its snapshot in view.\<close>

definition on_table :: "TableID \<Rightarrow> ('s \<times> flush_world \<Rightarrow> error option \<times> 's \<times> flush_world) \<Rightarrow>
    's drain_world \<Rightarrow> error option \<times> 's drain_world" where
  "on_table t m W =
    (case m (dw_cat W, (dw_flush W)\<lparr>fw_catalog := dw_snapshots W t\<rparr>) of
       (r, s, w) \<Rightarrow> (r, W\<lparr>dw_cat := s, dw_flush := w, dw_snapshots := (dw_snapshots W)(t := fw_catalog w)\<rparr>))"

definition drainIfFree :: "('t, 's) catalog_lib \<Rightarrow> 'p derivation \<Rightarrow> drain_config \<Rightarrow> TableID \<Rightarrow>
    's drain_world \<Rightarrow> error option \<times> 's drain_world" where
  "drainIfFree cat lib cfg t W =
    (case claimTable (tid_Namespace t) (tid_Table t) (dw_registry W) of
       (Some e, r) \<Rightarrow> (if errors_Is e ErrTableInUse then None else Some e, W\<lparr>dw_registry := r\<rparr>)
     | (None, r) \<Rightarrow>
         (case on_table t (drainTable cat lib cfg (tid_Namespace t) (tid_Table t)) (W\<lparr>dw_registry := r\<rparr>) of
            (e, W') \<Rightarrow> (e, W'\<lparr>dw_registry := releaseTable (tid_Namespace t) (tid_Table t) (dw_registry W')\<rparr>)))"

fun drain_tables :: "('t, 's) catalog_lib \<Rightarrow> 'p derivation \<Rightarrow> drain_config \<Rightarrow> TableID list \<Rightarrow> error option \<Rightarrow>
    's drain_world \<Rightarrow> error option \<times> 's drain_world" where
  "drain_tables cat lib cfg [] first W = (first, W)"
| "drain_tables cat lib cfg (t # ts) first W =
    (case drainIfFree cat lib cfg t W of
       (e, W') \<Rightarrow> drain_tables cat lib cfg ts (if e \<noteq> None \<and> first = None then e else first) W')"

definition DrainSpool :: "('t, 's) catalog_lib \<Rightarrow> 'p derivation \<Rightarrow> drain_config \<Rightarrow> 's drain_world \<Rightarrow> error option \<times> 's drain_world" where
  "DrainSpool cat lib cfg W =
    (case checkOpen (dw_registry W) of
       Some e \<Rightarrow> (Some e, W)
     | None \<Rightarrow>
         if dr_LocalOnly cfg then (Some ErrLocalOnly, W)
         else if \<not> dr_Spool cfg then (None, W)
         else case spool_op BacklogTables (dw_flush W) of
           (Inl e, w) \<Rightarrow> (Some (plain_error e), W\<lparr>dw_flush := w\<rparr>)
         | (Inr tables, w) \<Rightarrow> drain_tables cat lib cfg tables None (W\<lparr>dw_flush := w\<rparr>))"

end
