(* ===== verification/DrainProps.thy ===== *)
theory DrainProps
  imports Drain
begin

text \<open>What a drain may do to the lake and to the records of the local files, however it ends.\<close>

section \<open>Steps that change nothing\<close>

definition only_ext :: "'a fop \<Rightarrow> bool" where
  "only_ext m \<longleftrightarrow> (\<forall>w r w'. m w = (r, w') \<longrightarrow> (\<exists>x. w' = w\<lparr>fw_ext := x\<rparr>))"

lemma only_ext_call: "only_ext (ext_call id)"
  by (auto simp: only_ext_def ext_call_def split: list.splits ext.splits intro: exI [of _ "[]"])

lemma only_ext_ret: "only_ext (fl_ret x)"
  unfolding only_ext_def fl_ret_def by (metis flush_world.surjective flush_world.update_convs(6) prod.inject)

lemma only_ext_bind: "only_ext m \<Longrightarrow> (\<And>x. only_ext (f x)) \<Longrightarrow> only_ext (fl_bind m f)"
  unfolding only_ext_def fl_bind_def
  by (auto split: prod.splits sum.splits) (metis flush_world.update_convs(6) flush_world.surjective)+

lemma only_ext_walk: "only_ext (walk_entries u es)" "only_ext (walk_manifests u ms)"
proof -
  show e: "only_ext (walk_entries u es)" for es
    by (induction u es rule: walk_entries.induct) (auto intro!: only_ext_bind only_ext_call only_ext_ret)
  show "only_ext (walk_manifests u ms)"
    by (induction ms) (auto intro!: only_ext_bind only_ext_ret e)
qed

lemma only_ext_AlreadyCommitted: "only_ext (AlreadyCommitted u)"
proof -
  have "only_ext (fl_bind (ext_call id) (\<lambda>_. fl_bind (ext_call id) (\<lambda>_. walk_manifests u ms)))" for ms
    by (intro only_ext_bind only_ext_call only_ext_walk)
  moreover have "\<exists>x. w = w\<lparr>fw_ext := x\<rparr>" for w :: flush_world
    by (rule exI [of _ "fw_ext w"]) simp
  ultimately show ?thesis
    by (auto simp: only_ext_def AlreadyCommitted_def split: option.splits)
qed

text \<open>The answer of the question asked before a commit.\<close>

lemma AlreadyCommitted_found:
  assumes "AlreadyCommitted (DataURI bucket prefix ns tbl key) w = (Inr found, w')"
  shows "found = (DataURI bucket prefix ns tbl key \<in> set (data_files (fw_table w)))"
proof -
  let ?opts = "flush_opts\<lparr>fo_Bucket := bucket, fo_Prefix := prefix, fo_Namespace := ns, fo_Table := tbl\<rparr>"
  have uri: "dataURI ?opts key = DataURI bucket prefix ns tbl key"
    by (simp add: dataURI_def)
  then have "alreadyCommitted ?opts key w = (Inr found, w')"
    using assms by (simp add: alreadyCommitted_def)
  from fl_ensuresD(2) [OF alreadyCommitted_ensures quiet_refl this] show ?thesis
    by (simp only: uri)
qed

lemma AddFile_world:
  assumes "AddFile uri w = (r, w')"
  shows "\<exists>x. w' = w\<lparr>fw_ext := x\<rparr> \<and> r \<noteq> Inr tbl \<or> w' = land_commit uri (w\<lparr>fw_ext := x\<rparr>)"
    and "r = Inr tbl \<Longrightarrow> fw_table w = fw_catalog w"
  using assms by (auto simp: AddFile_def fl_bind_def ext_call_def split: list.splits ext.splits if_splits)

section \<open>Keys\<close>

lemma DataKey_inject: "DataKey prefix ns tbl k = DataKey prefix ns tbl k' \<longleftrightarrow> k = k'"
proof -
  let ?segs = "filter (\<lambda>s. s \<noteq> []) [prefix, ns, tbl, ''data'']"
  have "DataKey prefix ns tbl k = path_join ?segs @ ''/'' @ k @ ''.parquet''" for k
    by (simp add: DataKey_def path_join_def)
  then show ?thesis by simp
qed

lemma DataURI_inject: "DataURI bucket prefix ns tbl k = DataURI bucket prefix ns tbl k' \<longleftrightarrow> k = k'"
proof -
  have ne: "DataKey prefix ns tbl k \<noteq> []" for k
    by (auto simp: DataKey_def path_join_def)
  have "path_join [bucket, DataKey prefix ns tbl k] =
      (if bucket = [] then DataKey prefix ns tbl k else bucket @ ''/'' @ DataKey prefix ns tbl k)" for k
    using ne by (simp add: path_join_def)
  then show ?thesis
    by (simp add: DataURI_def DataKey_inject)
qed

section \<open>What a drain does\<close>

text \<open>What a drain of table \<open>ns.tbl\<close> may commit: the batches with a local file no bucket has confirmed, but those whose
  rows are still staged.\<close>

definition backlog_keys :: "string \<Rightarrow> string \<Rightarrow> db \<Rightarrow> string set" where
  "backlog_keys ns tbl d = sf_batch_key ` set (filter (\<lambda>f. sf_namespace f = ns \<and> sf_table f = tbl \<and> sf_committed_at f = None)
     (db_spool_files d))"

definition staged_keys :: "string \<Rightarrow> string \<Rightarrow> db \<Rightarrow> string set" where
  "staged_keys ns tbl d = key_of ` set (live_rows \<lparr>tid_Namespace = ns, tid_Table = tbl\<rparr> (db_staging d)) - {[]}"

definition drain_keys :: "string \<Rightarrow> string \<Rightarrow> db \<Rightarrow> string set" where
  "drain_keys ns tbl d = backlog_keys ns tbl d - staged_keys ns tbl d"

text \<open>The drain of table \<open>ns.tbl\<close>, seen from where it began, \<open>K\<close> being the keys it may commit: it commits files of those
  keys that the catalog did not have, each once and each uploaded with the bytes of its local file, writes no object of
  another key, touches no local file and no staged row, and marks a file committed only when the catalog has it.\<close>

definition drained :: "string set \<Rightarrow> drain_config \<Rightarrow> string \<Rightarrow> string \<Rightarrow> flush_world \<Rightarrow> flush_world \<Rightarrow> bool" where
  "drained K cfg ns tbl w0 w \<longleftrightarrow>
    (let uri = DataURI (dr_Bucket cfg) (dr_Prefix cfg) ns tbl; key = DataKey (dr_Prefix cfg) ns tbl;
         body = (\<lambda>k. sp_files (fw_spool w0) (Path (sp_dir (fw_spool w0)) ns tbl k)) in
     (\<exists>ks. distinct ks \<and> set ks \<subseteq> K \<and> catalog_files w = catalog_files w0 @ map uri ks \<and>
        (\<forall>k\<in>set ks. uri k \<notin> set (catalog_files w0) \<and> body k \<noteq> None \<and> fw_bucket w (key k) = body k)) \<and>
     (\<forall>obj. fw_bucket w obj = fw_bucket w0 obj \<or> (\<exists>k\<in>K. obj = key k \<and> body k \<noteq> None \<and> fw_bucket w obj = body k)) \<and>
     sp_files (fw_spool w) = sp_files (fw_spool w0) \<and> sp_dir (fw_spool w) = sp_dir (fw_spool w0) \<and>
     db_staging (st_db (fw_store w)) = db_staging (st_db (fw_store w0)) \<and>
     (\<forall>f\<in>set (db_spool_files (st_db (fw_store w))). sf_committed_at f \<noteq> None \<longrightarrow>
        f \<in> set (db_spool_files (st_db (fw_store w0))) \<or> sf_batch_key f \<in> K \<and> uri (sf_batch_key f) \<in> set (catalog_files w)))"

lemma drained_calm:
  assumes "fw_catalog w = fw_catalog w0" "sp_files (fw_spool w) = sp_files (fw_spool w0)"
    "sp_dir (fw_spool w) = sp_dir (fw_spool w0)" "st_db (fw_store w) = st_db (fw_store w0)" "fw_bucket w = fw_bucket w0"
  shows "drained K cfg ns tbl w0 w"
  using assms by (auto simp: drained_def Let_def intro!: exI [of _ "[]"])

lemma drained_trans:
  assumes "drained K cfg ns tbl w0 w1" "drained K cfg ns tbl w1 w2"
  shows "drained K cfg ns tbl w0 w2"
proof -
  let ?uri = "DataURI (dr_Bucket cfg) (dr_Prefix cfg) ns tbl" and ?key = "DataKey (dr_Prefix cfg) ns tbl"
  let ?body = "\<lambda>k. sp_files (fw_spool w0) (Path (sp_dir (fw_spool w0)) ns tbl k)"
  have same: "sp_files (fw_spool w1) = sp_files (fw_spool w0)" "sp_dir (fw_spool w1) = sp_dir (fw_spool w0)"
    using assms(1) by (simp_all add: drained_def Let_def)
  obtain ks where ks: "distinct ks" "set ks \<subseteq> K" "catalog_files w1 = catalog_files w0 @ map ?uri ks"
    "\<forall>k\<in>set ks. ?uri k \<notin> set (catalog_files w0) \<and> ?body k \<noteq> None \<and> fw_bucket w1 (?key k) = ?body k"
    using assms(1) unfolding drained_def Let_def by blast
  obtain ls where ls: "distinct ls" "set ls \<subseteq> K" "catalog_files w2 = catalog_files w1 @ map ?uri ls"
    "\<forall>k\<in>set ls. ?uri k \<notin> set (catalog_files w1) \<and> ?body k \<noteq> None \<and> fw_bucket w2 (?key k) = ?body k"
    using assms(2) unfolding drained_def Let_def same by blast
  have b1: "fw_bucket w1 obj = fw_bucket w0 obj \<or> (\<exists>k\<in>K. obj = ?key k \<and> ?body k \<noteq> None \<and> fw_bucket w1 obj = ?body k)" for obj
    using assms(1) unfolding drained_def Let_def by blast
  have b2: "fw_bucket w2 obj = fw_bucket w1 obj \<or> (\<exists>k\<in>K. obj = ?key k \<and> ?body k \<noteq> None \<and> fw_bucket w2 obj = ?body k)" for obj
    using assms(2) unfolding drained_def Let_def same by blast
  have "fw_bucket w2 (?key k) = ?body k" if "k \<in> set ks" for k
    using b2 [of "?key k"] ks(4) that by (auto simp: DataKey_inject)
  then have "\<exists>ks. distinct ks \<and> set ks \<subseteq> K \<and> catalog_files w2 = catalog_files w0 @ map ?uri ks \<and>
      (\<forall>k\<in>set ks. ?uri k \<notin> set (catalog_files w0) \<and> ?body k \<noteq> None \<and> fw_bucket w2 (?key k) = ?body k)"
    using ks ls by (intro exI [of _ "ks @ ls"]) auto
  moreover have "\<forall>obj. fw_bucket w2 obj = fw_bucket w0 obj \<or> (\<exists>k\<in>K. obj = ?key k \<and> ?body k \<noteq> None \<and> fw_bucket w2 obj = ?body k)"
    using b1 b2 by metis
  moreover have "\<forall>f\<in>set (db_spool_files (st_db (fw_store w2))). sf_committed_at f \<noteq> None \<longrightarrow>
      f \<in> set (db_spool_files (st_db (fw_store w0))) \<or> sf_batch_key f \<in> K \<and> ?uri (sf_batch_key f) \<in> set (catalog_files w2)"
    using assms ls(3) unfolding drained_def Let_def by (metis Un_iff set_append)
  ultimately show ?thesis
    using assms(2) unfolding drained_def Let_def same
    using assms(1) by (simp add: drained_def Let_def)
qed

lemma drained_files: "drained K cfg ns tbl w0 w \<Longrightarrow> set (catalog_files w0) \<subseteq> set (catalog_files w)"
  by (auto simp: drained_def Let_def)

lemma drained_distinct:
  assumes "drained K cfg ns tbl w0 w" "distinct (catalog_files w0)"
  shows "distinct (catalog_files w)"
proof -
  obtain ks where "distinct ks" "catalog_files w = catalog_files w0 @ map (DataURI (dr_Bucket cfg) (dr_Prefix cfg) ns tbl) ks"
    "\<forall>k\<in>set ks. DataURI (dr_Bucket cfg) (dr_Prefix cfg) ns tbl k \<notin> set (catalog_files w0)"
    using assms(1) unfolding drained_def Let_def by blast
  with assms(2) show ?thesis
    by (auto simp: distinct_map inj_on_def DataURI_inject)
qed

section \<open>One file\<close>

lemma os_ReadFile_world:
  "os_ReadFile path w = (r, w') \<Longrightarrow>
    sp_files w' = sp_files w \<and> sp_dir w' = sp_dir w \<and> sp_store w' = sp_store w \<and>
    (\<forall>body. r = Inr body \<longrightarrow> sp_files w path = Some body)"
  by (auto simp: os_ReadFile_def os_ok_def os_call_def split: list.splits option.splits if_splits)

lemma spool_op_world: "spool_op m w = (r, w') \<Longrightarrow>
    w' = w\<lparr>fw_spool := snd (m (fw_spool w))\<rparr> \<and> (\<forall>x. r = Inr x \<longrightarrow> fst (m (fw_spool w)) = Inr x)"
  by (auto simp: spool_op_def split: prod.splits sum.splits)

lemma fl_wrap_world: "fl_wrap g m w = (r, w') \<Longrightarrow> \<exists>r0. m w = (r0, w') \<and> (\<forall>x. r = Inr x \<longleftrightarrow> r0 = Inr x)"
  by (auto simp: fl_wrap_def split: prod.splits sum.splits)

lemma MarkCommitted_world:
  assumes "MarkCommitted ns tbl key now w = (r, w')"
  shows "sp_files w' = sp_files w \<and> sp_dir w' = sp_dir w \<and> db_staging (st_db (sp_store w')) = db_staging (st_db (sp_store w)) \<and>
    (\<forall>f\<in>set (db_spool_files (st_db (sp_store w'))). sf_committed_at f \<noteq> None \<longrightarrow>
       f \<in> set (db_spool_files (st_db (sp_store w))) \<or> sf_batch_key f = key)"
  using assms
  by (auto simp: MarkCommitted_def sp_wrap_def db_op_def MarkSpoolCommitted_def staging_fail_def op_fail_def op_bind_def
      op_ret_def staging_wrap_def op_wrap_def stmt_def q_MarkSpoolFileCommitted_def Let_def split: list.splits option.splits if_splits prod.splits sum.splits)

lemma drained_one:
  assumes "sp_files (fw_spool w0) (Path (sp_dir (fw_spool w0)) ns tbl k) = Some b" and key: "k \<in> K"
    and cat: "catalog_files v = catalog_files w0 \<or>
      catalog_files v = catalog_files w0 @ [DataURI (dr_Bucket cfg) (dr_Prefix cfg) ns tbl k] \<and>
      DataURI (dr_Bucket cfg) (dr_Prefix cfg) ns tbl k \<notin> set (catalog_files w0) \<and>
      fw_bucket v (DataKey (dr_Prefix cfg) ns tbl k) = Some b"
    and bucket: "fw_bucket v = fw_bucket w0 \<or> fw_bucket v = (fw_bucket w0)(DataKey (dr_Prefix cfg) ns tbl k \<mapsto> b)"
    and same: "sp_files (fw_spool v) = sp_files (fw_spool w0)" "sp_dir (fw_spool v) = sp_dir (fw_spool w0)"
      "db_staging (st_db (fw_store v)) = db_staging (st_db (fw_store w0))"
    and marks: "\<forall>g\<in>set (db_spool_files (st_db (fw_store v))). sf_committed_at g \<noteq> None \<longrightarrow>
      g \<in> set (db_spool_files (st_db (fw_store w0))) \<or>
      sf_batch_key g = k \<and> DataURI (dr_Bucket cfg) (dr_Prefix cfg) ns tbl k \<in> set (catalog_files v)"
  shows "drained K cfg ns tbl w0 v"
proof -
  have "fw_bucket v obj = fw_bucket w0 obj \<or> (\<exists>k\<in>K. obj = DataKey (dr_Prefix cfg) ns tbl k \<and>
      sp_files (fw_spool w0) (Path (sp_dir (fw_spool w0)) ns tbl k) \<noteq> None \<and>
      fw_bucket v obj = sp_files (fw_spool w0) (Path (sp_dir (fw_spool w0)) ns tbl k))" for obj
    using bucket assms(1) key by (cases "obj = DataKey (dr_Prefix cfg) ns tbl k") auto
  moreover have "\<exists>ks. distinct ks \<and> set ks \<subseteq> K \<and> catalog_files v = catalog_files w0 @ map (DataURI (dr_Bucket cfg) (dr_Prefix cfg) ns tbl) ks \<and>
      (\<forall>k\<in>set ks. DataURI (dr_Bucket cfg) (dr_Prefix cfg) ns tbl k \<notin> set (catalog_files w0) \<and>
        sp_files (fw_spool w0) (Path (sp_dir (fw_spool w0)) ns tbl k) \<noteq> None \<and>
        fw_bucket v (DataKey (dr_Prefix cfg) ns tbl k) = sp_files (fw_spool w0) (Path (sp_dir (fw_spool w0)) ns tbl k))"
    using cat
  proof
    assume "catalog_files v = catalog_files w0"
    then show ?thesis by (intro exI [of _ "[]"]) simp
  qed (intro exI [of _ "[k]"], simp add: assms(1) key)
  ultimately show ?thesis
    using same marks key unfolding drained_def Let_def by blast
qed

lemma land_commit_world:
  "fw_bucket (land_commit u w) = fw_bucket w" "fw_spool (land_commit u w) = fw_spool w" "fw_table (land_commit u w) = fw_table w"
  by (simp_all add: land_commit_def)

lemma commit_file_drained:
  assumes "commit_file cfg f w0 = (r, w')" "fw_table w0 = fw_catalog w0" and key: "spe_entry_key f \<in> K"
  shows "drained K cfg (spe_Namespace f) (spe_Table f) w0 w' \<and> (r = Inr () \<longrightarrow> file_uri cfg f \<in> set (catalog_files w'))"
proof -
  let ?ns = "spe_Namespace f" and ?tbl = "spe_Table f" and ?k = "spe_entry_key f"
  let ?path = "Path (sp_dir (fw_spool w0)) ?ns ?tbl ?k" and ?g = "drain_fail (sp_dir (fw_spool w0)) f"
  let ?d = "drained K cfg ?ns ?tbl w0"
  let ?rest = "\<lambda>_ w'. spool_op (MarkCommitted ?ns ?tbl ?k (fw_now w')) w'"
  obtain r1 w1 where s1: "fl_wrap ?g (spool_op (os_ReadFile ?path)) w0 = (r1, w1)" by fastforce
  have w1: "fw_catalog w1 = fw_catalog w0 \<and> fw_table w1 = fw_table w0 \<and> fw_bucket w1 = fw_bucket w0 \<and>
      sp_files (fw_spool w1) = sp_files (fw_spool w0) \<and> sp_dir (fw_spool w1) = sp_dir (fw_spool w0) \<and>
      fw_store w1 = fw_store w0 \<and> (\<forall>b. r1 = Inr b \<longrightarrow> sp_files (fw_spool w0) ?path = Some b)"
  proof -
    obtain q where q: "spool_op (os_ReadFile ?path) w0 = (q, w1)" "\<forall>x. r1 = Inr x \<longleftrightarrow> q = Inr x"
      using fl_wrap_world [OF s1] by blast
    obtain q0 s where s: "os_ReadFile ?path (fw_spool w0) = (q0, s)" by fastforce
    from spool_op_world [OF q(1)] os_ReadFile_world [OF s] q(2) show ?thesis
      by (auto simp: s)
  qed
  then have d1: "?d w1"
    by (intro drained_calm) simp_all
  show ?thesis
  proof (cases r1)
    case (Inl e)
    then have "w' = w1" "r = Inl e"
      using assms(1) s1 by (simp_all add: commit_file_def fl_bind_def Let_def)
    with d1 show ?thesis by simp
  next
    case (Inr body)
    obtain r2 w2 where s2: "fl_wrap ?g (PutObject (file_key cfg f) body) w1 = (r2, w2)" by fastforce
    have w2: "fw_catalog w2 = fw_catalog w0 \<and> fw_table w2 = fw_table w0 \<and> fw_spool w2 = fw_spool w1 \<and>
        (fw_bucket w2 = fw_bucket w0 \<or> fw_bucket w2 = (fw_bucket w0)(file_key cfg f \<mapsto> body)) \<and>
        (r2 = Inr () \<longrightarrow> fw_bucket w2 (file_key cfg f) = Some body)"
      using fl_wrap_world [OF s2] w1 by (auto simp: PutObject_def ext_call_def split: list.splits ext.splits if_splits)
    have read: "sp_files (fw_spool w0) ?path = Some body"
      using w1 Inr by blast
    have frame2: "?d v" if "catalog_files v = catalog_files w0" "fw_spool v = fw_spool w1" "fw_bucket v = fw_bucket w2" for v
      using w1 w2 that by (intro drained_one [OF read key]) (simp_all add: file_key_def)
    show ?thesis
    proof (cases r2)
      case (Inl e)
      then have "w' = w2" "r = Inl e"
        using assms(1) s1 s2 \<open>r1 = Inr body\<close> by (simp_all add: commit_file_def fl_bind_def Let_def)
      with frame2 w2 show ?thesis by simp
    next
      case (Inr u)
      obtain r3 w3 where s3: "fl_wrap ?g (AlreadyCommitted (file_uri cfg f)) w2 = (r3, w3)" by fastforce
      obtain q3 where q3: "AlreadyCommitted (file_uri cfg f) w2 = (q3, w3)" "\<forall>x. r3 = Inr x \<longleftrightarrow> q3 = Inr x"
        using fl_wrap_world [OF s3] by blast
      obtain x3 where w3: "w3 = w2\<lparr>fw_ext := x3\<rparr>"
        using only_ext_AlreadyCommitted q3(1) unfolding only_ext_def by blast
      have found: "b = (file_uri cfg f \<in> set (catalog_files w0))" if "r3 = Inr b" for b
      proof -
        have q: "q3 = Inr b" using q3(2) that by blast
        have "AlreadyCommitted (DataURI (dr_Bucket cfg) (dr_Prefix cfg) ?ns ?tbl ?k) w2 = (Inr b, w3)"
          using q3(1) q by (simp add: file_uri_def)
        from AlreadyCommitted_found [OF this] show ?thesis
          using w2 assms(2) by (simp add: file_uri_def)
      qed
      have w2r: "fw_bucket w2 (file_key cfg f) = Some body"
        using w2 Inr by simp
      have landed: "?d v" if "catalog_files v = catalog_files w0 \<or>
          catalog_files v = catalog_files w0 @ [file_uri cfg f] \<and> file_uri cfg f \<notin> set (catalog_files w0)"
        "fw_spool v = fw_spool w1" "fw_bucket v = fw_bucket w2" for v
        using w1 w2 w2r that by (intro drained_one [OF read key]) (auto simp: file_key_def file_uri_def)
      have finish: "?d v' \<and> file_uri cfg f \<in> set (catalog_files v')"
        if v: "catalog_files v = catalog_files w0 \<or>
          catalog_files v = catalog_files w0 @ [file_uri cfg f] \<and> file_uri cfg f \<notin> set (catalog_files w0)"
        "fw_spool v = fw_spool w1" "fw_bucket v = fw_bucket w2" "file_uri cfg f \<in> set (catalog_files v)"
        and run: "spool_op (MarkCommitted ?ns ?tbl ?k (fw_now v)) v = (q, v')" for v v' q
      proof -
        obtain m s where m: "MarkCommitted ?ns ?tbl ?k (fw_now v) (fw_spool v) = (m, s)" by fastforce
        have v': "v' = v\<lparr>fw_spool := s\<rparr>"
          using spool_op_world [OF run] by (simp add: m)
        from MarkCommitted_world [OF m] w1 v(2) have
          "sp_files s = sp_files (fw_spool w0) \<and> sp_dir s = sp_dir (fw_spool w0) \<and>
           db_staging (st_db (sp_store s)) = db_staging (st_db (fw_store w0)) \<and>
           (\<forall>g\<in>set (db_spool_files (st_db (sp_store s))). sf_committed_at g \<noteq> None \<longrightarrow>
              g \<in> set (db_spool_files (st_db (fw_store w0))) \<or> sf_batch_key g = ?k)" by simp
        with v w2 w2r show ?thesis
          unfolding v' by (intro conjI drained_one [OF read key]) (auto simp: file_key_def file_uri_def)
      qed
      show ?thesis
      proof (cases r3)
        case (Inl e)
        then have "w' = w3" "r = Inl e"
          using assms(1) s1 s2 s3 \<open>r1 = Inr body\<close> \<open>r2 = Inr u\<close> by (simp_all add: commit_file_def fl_bind_def Let_def)
        with landed w2 w3 show ?thesis by simp
      next
        case (Inr b)
        let ?add = "if b then fl_ret () else fl_wrap ?g (fl_bind (AddFile (file_uri cfg f)) (\<lambda>_. fl_ret ()))"
        obtain r4 w4 where s4: "?add w3 = (r4, w4)" by fastforce
        have w4: "(catalog_files w4 = catalog_files w0 \<or>
            catalog_files w4 = catalog_files w0 @ [file_uri cfg f] \<and> file_uri cfg f \<notin> set (catalog_files w0)) \<and>
            fw_spool w4 = fw_spool w1 \<and> fw_bucket w4 = fw_bucket w2 \<and> (r4 = Inr () \<longrightarrow> file_uri cfg f \<in> set (catalog_files w4))"
        proof (cases b)
          case True
          then show ?thesis
            using s4 w2 found [OF Inr] w3 by (auto simp: fl_ret_def)
        next
          case False
          obtain q where q: "fl_bind (AddFile (file_uri cfg f)) (\<lambda>_. fl_ret ()) w3 = (q, w4)" "r4 = Inr () \<longleftrightarrow> q = Inr ()"
            using fl_wrap_world [OF s4 [unfolded if_not_P [OF False]]] by blast
          obtain q' v where a: "AddFile (file_uri cfg f) w3 = (q', v)" by fastforce
          have q': "w4 = v" "q = Inr () \<Longrightarrow> \<exists>tbl. q' = Inr tbl"
            using q(1) a by (auto simp: fl_bind_def fl_ret_def split: sum.splits)
          have same: "fw_table w3 = fw_catalog w3" "catalog_files w3 = catalog_files w0"
            using w2 w3 assms(2) by simp_all
          have new: "file_uri cfg f \<notin> set (catalog_files w0)"
            using found [OF Inr] False by simp
          obtain x where x: "v = w3\<lparr>fw_ext := x\<rparr> \<and> (\<forall>tbl. q' \<noteq> Inr tbl) \<or> v = land_commit (file_uri cfg f) (w3\<lparr>fw_ext := x\<rparr>)"
            using AddFile_world(1) [OF a] by (cases q') auto
          then show ?thesis
            using same new q q' w2 w3 land_commit_files [of "file_uri cfg f" "w3\<lparr>fw_ext := x\<rparr>"]
            by (auto simp: land_commit_world)
        qed
        show ?thesis
        proof (cases r4)
          case (Inl e)
          then have "w' = w4" "r = Inl e"
            using assms(1) s1 s2 s3 s4 \<open>r1 = Inr body\<close> \<open>r2 = Inr u\<close> \<open>r3 = Inr b\<close>
            by (simp_all add: commit_file_def fl_bind_def Let_def)
          with landed w4 show ?thesis by simp
        next
          case (Inr z)
          then have "spool_op (MarkCommitted ?ns ?tbl ?k (fw_now w4)) w4 = (r, w')"
            using assms(1) s1 s2 s3 s4 \<open>r1 = Inr body\<close> \<open>r2 = Inr u\<close> \<open>r3 = Inr b\<close>
            by (simp add: commit_file_def fl_bind_def Let_def)
          from finish [OF _ _ _ _ this] w4 Inr show ?thesis by simp
        qed
      qed
    qed
  qed
qed

section \<open>One table\<close>

lemma drained_quiet:
  assumes "spool_op m w = (r, w')" "sp_files (snd (m (fw_spool w))) = sp_files (fw_spool w)"
    "sp_dir (snd (m (fw_spool w))) = sp_dir (fw_spool w)" "st_db (sp_store (snd (m (fw_spool w)))) = st_db (fw_store w)"
  shows "drained K cfg ns tbl w w'"
  using spool_op_world [OF assms(1)] assms(2-) by (intro drained_calm) simp_all

lemma Schema_drained: "spool_op (Spool_Schema fp) w = (r, w') \<Longrightarrow> drained K cfg ns tbl w w'"
  by (erule drained_quiet) (auto simp: Spool_Schema_def db_op_def SpoolSchema_def op_bind_def staging_wrap_def op_wrap_def stmt_def
      q_GetSpoolSchema_def staging_fail_def op_fail_def op_lift_def split: list.splits option.splits sum.splits prod.splits)

lemma Backlog_drained: "spool_op (Backlog ns' tbl') w = (r, w') \<Longrightarrow> drained K cfg ns tbl w w'"
  by (erule drained_quiet) (auto simp: Backlog_def db_op_def SpoolBacklog_def op_bind_def op_ret_def staging_wrap_def op_wrap_def stmt_def
      q_SpoolBacklogForTable_def split: list.splits option.splits)

lemma Backlog_entries:
  assumes "spool_op (Backlog ns tbl) w = (Inr backlog, w')"
  shows "\<forall>e\<in>set backlog. spe_Namespace e = ns \<and> spe_Table e = tbl"
    "spe_entry_key ` set backlog = backlog_keys ns tbl (st_db (fw_store w))" "st_db (fw_store w') = st_db (fw_store w)"
  using spool_op_world [OF assms]
  by (auto simp: Backlog_def db_op_def SpoolBacklog_def op_bind_def op_ret_def staging_wrap_def op_wrap_def stmt_def
      q_SpoolBacklogForTable_def backlog_keys_def image_image split: list.splits option.splits)

lemma stagedBatchKeys_Inr:
  assumes "stagedBatchKeys ns tbl w = (Inr staged, w')"
  shows "set staged = staged_keys ns tbl (st_db (fw_store w))"
proof -
  let ?t = "\<lparr>tid_Namespace = ns, tid_Table = tbl\<rparr>"
  let ?live = "live_rows ?t (db_staging (st_db (fw_store w)))"
  obtain ix where ix: "staging_op Scan w = (Inr ix, w')" "staged = filter (\<lambda>k. k \<noteq> []) (map pb_Key (fst (Claim ns tbl ix)))"
    using assms by (auto simp: stagedBatchKeys_def fl_bind_def fl_ret_def split: sum.splits prod.splits)
  have "fst (Scan (fw_store w)) = Inr ix"
    using ix(1) by (auto simp: staging_op_def spool_op_def db_op_def split: sum.splits prod.splits)
  then obtain s where scan: "Scan (fw_store w) = (Inr ix, s)"
    by (metis prod.collapse)
  have "set (map pb_Key (pendingBatches ns tbl ix)) = key_of ` set ?live"
  proof (cases "?live = []")
    case True
    then show ?thesis
      using Scan_Inr(4) [OF scan, of ?t] by (simp add: pendingBatches_def)
  next
    case False
    have "set (map pb_Key (filter P bs @ filter (\<lambda>b. \<not> P b) bs)) = set (map pb_Key bs)" for P and bs :: "PendingBatch list"
      by auto
    note parts = this
    have keys: "map pb_Key (table_batches ?t (db_staging (st_db (fw_store w)))) = firsts (map key_of ?live)"
      by (simp add: table_batches_def Let_def batch_with_def comp_def)
    have table: "pb_Key ` set (table_batches ?t (db_staging (st_db (fw_store w)))) = key_of ` set ?live"
      by (metis keys set_firsts set_map)
    obtain P where split: "pendingBatches ns tbl ix = filter P (table_batches ?t (db_staging (st_db (fw_store w)))) @
        filter (\<lambda>b. \<not> P b) (table_batches ?t (db_staging (st_db (fw_store w))))"
      using Scan_Inr(4) [OF scan, of ?t] False that [of "\<lambda>b. pb_Key b \<noteq> []"] by (auto simp: pendingBatches_def)
    show ?thesis
      using parts [of P "table_batches ?t (db_staging (st_db (fw_store w)))"] unfolding split set_map table .
  qed
  then show ?thesis
    by (auto simp: ix(2) Claim_def staged_keys_def)
qed

lemma Scan_drained: "spool_op (db_op Scan) w = (r, w') \<Longrightarrow> drained K cfg ns tbl w w'"
  by (erule drained_quiet) (auto simp: db_op_def Scan_def op_bind_def op_ret_def staging_wrap_def op_wrap_def stmt_def
      q_ScanStagedRows_def staging_fail_def op_fail_def Let_def split: list.splits option.splits)

lemma drainFile_drained:
  assumes "drainFile cat lib cfg f (s, w0) = (e, s', w')" and key: "spe_entry_key f \<in> K"
  shows "drained K cfg (spe_Namespace f) (spe_Table f) w0 w' \<and> (e = None \<longrightarrow> file_uri cfg f \<in> set (catalog_files w'))"
proof -
  obtain r1 w1 where s1: "spool_op (Spool_Schema (spe_SchemaFP f)) w0 = (r1, w1)" by fastforce
  note d1 = Schema_drained [OF s1, of K cfg "spe_Namespace f" "spe_Table f"]
  let ?w1 = "w1\<lparr>fw_table := fw_catalog w1\<rparr>"
  have "drained K cfg (spe_Namespace f) (spe_Table f) w1 ?w1"
    by (intro drained_calm) simp_all
  with d1 have d1': "drained K cfg (spe_Namespace f) (spe_Table f) w0 ?w1"
    by (rule drained_trans)
  obtain r2 w2 where s2: "commit_file cfg f ?w1 = (r2, w2)" by fastforce
  from commit_file_drained [OF s2 _ key] have c: "drained K cfg (spe_Namespace f) (spe_Table f) ?w1 w2"
    "r2 = Inr () \<longrightarrow> file_uri cfg f \<in> set (catalog_files w2)" by simp_all
  note d2 = drained_trans [OF d1' c(1)]
  show ?thesis
    using assms d1 d2 c(2) by (auto simp: drainFile_def Let_def s1 s2 split: sum.splits prod.splits)
qed

lemma drain_files_drained:
  assumes "drain_files cat lib cfg staged backlog (s, w0) = (e, s', w')" "\<forall>f\<in>set backlog. spe_Namespace f = ns \<and> spe_Table f = tbl"
    and keys: "spe_entry_key ` set backlog \<subseteq> K \<union> set staged"
  shows "drained K cfg ns tbl w0 w' \<and>
    (e = None \<longrightarrow> (\<forall>f\<in>set backlog. spe_entry_key f \<in> set staged \<or> file_uri cfg f \<in> set (catalog_files w')))"
  using assms
proof (induction backlog arbitrary: s w0)
  case Nil
  then show ?case by (auto intro: drained_calm)
next
  case (Cons f fs)
  show ?case
  proof (cases "spe_entry_key f \<in> set staged")
    case True
    with Cons.prems(1) have "drain_files cat lib cfg staged fs (s, w0) = (e, s', w')" by simp
    from Cons.IH [OF this] Cons.prems(2,3) True show ?thesis by simp
  next
    case False
    obtain e1 s1 w1 where one: "drainFile cat lib cfg f (s, w0) = (e1, s1, w1)" by (cases "drainFile cat lib cfg f (s, w0)") auto
    have d1: "drained K cfg ns tbl w0 w1" "e1 = None \<longrightarrow> file_uri cfg f \<in> set (catalog_files w1)"
      using drainFile_drained [OF one] Cons.prems(2,3) False by auto
    show ?thesis
    proof (cases e1)
      case (Some x)
      with Cons.prems(1) False one have "w' = w1" "e = Some x" by simp_all
      with d1 show ?thesis by simp
    next
      case None
      with Cons.prems(1) False one have "drain_files cat lib cfg staged fs (s1, w1) = (e, s', w')" by simp
      from Cons.IH [OF this] Cons.prems(2,3) have d2: "drained K cfg ns tbl w1 w'"
        "e = None \<longrightarrow> (\<forall>f\<in>set fs. spe_entry_key f \<in> set staged \<or> file_uri cfg f \<in> set (catalog_files w'))" by auto
      from drained_trans [OF d1(1) d2(1)] drained_files [OF d2(1)] d1(2) d2(2) None show ?thesis by auto
    qed
  qed
qed

end
