(* ===== verification/DrainClaims.thy ===== *)
theory DrainClaims
  imports DrainProps
begin

text \<open>What a drain of one table and a drain of the whole store promise.\<close>

section \<open>The whole store\<close>

abbreviation table_files :: "'s drain_world \<Rightarrow> TableID \<Rightarrow> string list" where
  "table_files W t \<equiv> data_files (dw_snapshots W t)"

definition store_drained :: "drain_config \<Rightarrow> 's drain_world \<Rightarrow> 's drain_world \<Rightarrow> bool" where
  "store_drained cfg W W' \<longleftrightarrow>
    dw_registry W' = dw_registry W \<and>
    sp_files (fw_spool (dw_flush W')) = sp_files (fw_spool (dw_flush W)) \<and>
    db_staging (st_db (fw_store (dw_flush W'))) = db_staging (st_db (fw_store (dw_flush W))) \<and>
    (\<forall>t. sk_writers (dw_registry W) t \<noteq> None \<longrightarrow> dw_snapshots W' t = dw_snapshots W t) \<and>
    (\<forall>t. \<exists>ks. distinct ks \<and> table_files W' t =
       table_files W t @ map (DataURI (dr_Bucket cfg) (dr_Prefix cfg) (tid_Namespace t) (tid_Table t)) ks \<and>
       (\<forall>k\<in>set ks. DataURI (dr_Bucket cfg) (dr_Prefix cfg) (tid_Namespace t) (tid_Table t) k \<notin> set (table_files W t)))"

lemma store_drained_refl: "store_drained cfg W W"
  by (auto simp: store_drained_def intro: exI [of _ "[]"])

lemma store_drained_trans:
  assumes "store_drained cfg W V" "store_drained cfg V U"
  shows "store_drained cfg W U"
proof -
  have "\<exists>ks. distinct ks \<and> table_files U t = table_files W t @ map (uri t) ks \<and> (\<forall>k\<in>set ks. uri t k \<notin> set (table_files W t))"
    if uri: "uri = (\<lambda>t. DataURI (dr_Bucket cfg) (dr_Prefix cfg) (tid_Namespace t) (tid_Table t))" for t uri
  proof -
    obtain ks where ks: "distinct ks" "table_files V t = table_files W t @ map (uri t) ks" "\<forall>k\<in>set ks. uri t k \<notin> set (table_files W t)"
      using assms(1) unfolding store_drained_def uri by blast
    obtain ls where ls: "distinct ls" "table_files U t = table_files V t @ map (uri t) ls" "\<forall>k\<in>set ls. uri t k \<notin> set (table_files V t)"
      using assms(2) unfolding store_drained_def uri by blast
    from ks ls show ?thesis by (intro exI [of _ "ks @ ls"]) auto
  qed
  with assms show ?thesis unfolding store_drained_def by auto
qed

lemma drainTable_drained:
  assumes "drainTable cat lib cfg ns tbl (s, w0) = (e, s', w')" "K = drain_keys ns tbl (st_db (fw_store w0))"
  shows "drained K cfg ns tbl w0 w'"
    "e = None \<Longrightarrow> dr_Spool cfg \<Longrightarrow> \<not> dr_LocalOnly cfg \<Longrightarrow>
      k \<in> K \<Longrightarrow> DataURI (dr_Bucket cfg) (dr_Prefix cfg) ns tbl k \<in> set (catalog_files w')"
proof -
  let ?uri = "DataURI (dr_Bucket cfg) (dr_Prefix cfg) ns tbl"
  have "drained K cfg ns tbl w0 w' \<and> (e = None \<and> dr_Spool cfg \<and> \<not> dr_LocalOnly cfg \<and> k \<in> K \<longrightarrow>
      ?uri k \<in> set (catalog_files w'))"
  proof (cases "\<not> dr_Spool cfg \<or> dr_LocalOnly cfg")
    case True
    with assms(1) show ?thesis by (auto simp: drainTable_def intro: drained_calm)
  next
    case False
    obtain r1 w1 where b: "spool_op (Backlog ns tbl) w0 = (r1, w1)" by fastforce
    note d1 = Backlog_drained [OF b, of K cfg ns tbl]
    show ?thesis
    proof (cases r1)
      case (Inl x)
      with assms(1) False b d1 show ?thesis by (auto simp: drainTable_def)
    next
      case (Inr backlog)
      note en = Backlog_entries [OF b [unfolded Inr]]
      obtain r2 w2 where sc: "stagedBatchKeys ns tbl w1 = (r2, w2)" by fastforce
      then obtain r3 where "spool_op (db_op Scan) w1 = (r3, w2)"
        by (auto simp: stagedBatchKeys_def staging_op_def fl_bind_def fl_ret_def split: sum.splits prod.splits)
      note d2 = drained_trans [OF d1 Scan_drained [OF this]]
      show ?thesis
      proof (cases "backlog = [] \<or> (\<exists>x. r2 = Inl x)")
        case True
        show ?thesis
        proof (cases "backlog = []")
          case True
          then have "w' = w1" "K = {}"
            using assms False b Inr en(2) by (auto simp: drainTable_def drain_keys_def)
          with d1 show ?thesis by simp
        next
          case False
          with True \<open>\<not> (\<not> dr_Spool cfg \<or> dr_LocalOnly cfg)\<close> have "w' = w2" "e \<noteq> None"
            using assms(1) b Inr sc by (auto simp: drainTable_def)
          with d2 show ?thesis by auto
        qed
      next
        case nonempty: False
        then obtain staged where staged: "r2 = Inr staged" by (cases r2) auto
        have "set staged = staged_keys ns tbl (st_db (fw_store w0))"
          using stagedBatchKeys_Inr [OF sc [unfolded staged]] en(3) by simp
        then have keys: "spe_entry_key ` set backlog \<subseteq> K \<union> set staged" "K \<subseteq> spe_entry_key ` set backlog" "K \<inter> set staged = {}"
          using en(2) assms(2) by (auto simp: drain_keys_def)
        have run: "drain_files cat lib cfg staged backlog (s, w2) = (e, s', w')"
          using assms(1) False b Inr sc staged nonempty by (simp add: drainTable_def)
        note fs = drain_files_drained [OF run en(1) keys(1)]
        have "?uri k \<in> set (catalog_files w')" if none: "e = None" and k: "k \<in> K"
        proof -
          obtain f where f: "f \<in> set backlog" "k = spe_entry_key f"
            using subsetD [OF keys(2) k] by (rule imageE)
          then show ?thesis
            using fs none en(1) k keys(3) by (auto simp: file_uri_def)
        qed
        with drained_trans [OF d2 conjunct1 [OF fs]] show ?thesis by blast
      qed
    qed
  qed
  then show "drained K cfg ns tbl w0 w'"
    "e = None \<Longrightarrow> dr_Spool cfg \<Longrightarrow> \<not> dr_LocalOnly cfg \<Longrightarrow> k \<in> K \<Longrightarrow> ?uri k \<in> set (catalog_files w')"
    by blast+
qed

lemma table_id [simp]: "\<lparr>tid_Namespace = tid_Namespace t, tid_Table = tid_Table t\<rparr> = (t :: TableID)"
  by (cases t) simp

lemma drainIfFree_drained:
  assumes "drainIfFree cat lib cfg t W = (e, W')"
  shows "store_drained cfg W W'"
proof (cases "sk_closed (dw_registry W) \<or> sk_writers (dw_registry W) t \<noteq> None")
  case True
  then obtain x where "claimTable (tid_Namespace t) (tid_Table t) (dw_registry W) = (Some x, dw_registry W)"
    by (cases "sk_closed (dw_registry W)") (auto simp: claimTable_def attach_def)
  with assms have "W' = W" by (simp add: drainIfFree_def)
  then show ?thesis by (simp add: store_drained_refl)
next
  case False
  let ?claimed = "(dw_registry W)\<lparr>sk_writers := (sk_writers (dw_registry W))(t \<mapsto> tableClaim)\<rparr>"
  have claim: "claimTable (tid_Namespace t) (tid_Table t) (dw_registry W) = (None, ?claimed)"
    using False by (simp add: claimTable_def attach_def)
  obtain e' s w where run: "drainTable cat lib cfg (tid_Namespace t) (tid_Table t)
      (dw_cat W, (dw_flush W)\<lparr>fw_catalog := dw_snapshots W t\<rparr>) = (e', s, w)"
    by (cases "drainTable cat lib cfg (tid_Namespace t) (tid_Table t) (dw_cat W, (dw_flush W)\<lparr>fw_catalog := dw_snapshots W t\<rparr>)") auto
  have "releaseTable (tid_Namespace t) (tid_Table t) ?claimed = dw_registry W"
    using False by (auto simp: releaseTable_def detach_def fun_upd_idem)
  then have W': "W' = W\<lparr>dw_cat := s, dw_flush := w, dw_snapshots := (dw_snapshots W)(t := fw_catalog w)\<rparr>"
    using assms run claim by (simp add: drainIfFree_def on_table_def)
  note d = drainTable_drained(1) [OF run refl]
  then obtain ks where ks: "distinct ks" "catalog_files w = table_files W t @
      map (DataURI (dr_Bucket cfg) (dr_Prefix cfg) (tid_Namespace t) (tid_Table t)) ks"
    "\<forall>k\<in>set ks. DataURI (dr_Bucket cfg) (dr_Prefix cfg) (tid_Namespace t) (tid_Table t) k \<notin> set (table_files W t)"
    unfolding drained_def Let_def by auto
  have "\<exists>ks. distinct ks \<and> table_files W' u =
       table_files W u @ map (DataURI (dr_Bucket cfg) (dr_Prefix cfg) (tid_Namespace u) (tid_Table u)) ks \<and>
       (\<forall>k\<in>set ks. DataURI (dr_Bucket cfg) (dr_Prefix cfg) (tid_Namespace u) (tid_Table u) k \<notin> set (table_files W u))" for u
  proof (cases "u = t")
    case True
    with ks show ?thesis by (auto simp: W')
  qed (auto simp: W' intro: exI [of _ "[]"])
  with d False show ?thesis
    unfolding store_drained_def by (auto simp: W' drained_def Let_def)
qed

lemma drain_tables_drained: "drain_tables cat lib cfg ts first W = (e, W') \<Longrightarrow> store_drained cfg W W'"
  by (induction ts arbitrary: first W)
     (auto simp: store_drained_refl split: prod.splits intro: store_drained_trans drainIfFree_drained)

lemma BacklogTables_world: "spool_op BacklogTables w = (r, w') \<Longrightarrow>
    sp_files (fw_spool w') = sp_files (fw_spool w) \<and> st_db (fw_store w') = st_db (fw_store w)"
  by (drule spool_op_world) (auto simp: BacklogTables_def db_op_def SpoolBacklogTables_def op_bind_def op_ret_def
      staging_wrap_def op_wrap_def stmt_def q_SpoolTablesWithBacklog_def split: list.splits option.splits)

section \<open>A lake with one file to drain\<close>

definition drain_sample :: flush_world where
  "drain_sample = \<lparr>fw_spool = sample_spool\<lparr>sp_store := (sp_store sample_spool)\<lparr>st_db := (st_db (sp_store sample_spool))
      \<lparr>db_spool_schemas := [(''s'', d_encoded sample_descriptor)]\<rparr>\<rparr>\<rparr>,
    fw_bucket = Map.empty, fw_catalog = None, fw_table = None, fw_shapes = [], fw_ext = [], fw_ctx = [], fw_draws = [],
    fw_now = 9, fw_log = []\<rparr>"

definition drain_settings :: drain_config where
  "drain_settings = \<lparr>dr_Bucket = ''b'', dr_Prefix = ''lake'', dr_LocalOnly = False, dr_Spool = True\<rparr>"

definition drain_declaration :: "unit Declaration" where
  "drain_declaration = sample_declaration\<lparr>decl_namespace := ''n'', decl_table := ''t''\<rparr>"

lemma drain_declares: "DeclareFromDescriptor sample_derivation ''n'' ''t'' (IcebergFields sample_descriptor) = Inr drain_declaration"
proof -
  have "ValidateName NameKindNamespace ''n'' = None" "ValidateName NameKindTable ''t'' = None"
    unfolding ValidateName_iff by (simp_all add: name_ok_def char_code_def MaxNameLength_def)
  then have "check_names ''n'' ''t'' = None" by (simp add: check_names_def)
  moreover have "derive sample_derivation ''n'' ''t'' () = Inr drain_declaration"
    by (simp add: derive_def sample_derivation_def sample_arrow_def rejectNested_def checkPreorderFieldIDs_def
        declaredFieldID_def sample_ids struct_fields_def iceberg_of_def drain_declaration_def sample_declaration_def)
  ultimately show ?thesis
    by (simp add: DeclareFromDescriptor_def DeclareFields_def IcebergFields_def sample_descriptor_def
        sample_fields_def primitiveNode_def node_of_type_def type_of_kind_def res_bind_def sample_derivation_def)
qed

lemma drain_opens: "\<exists>tbl s'. openTable memory_catalog bucket prefix drain_declaration None = (Inr tbl, s')"
  by (simp add: openTable_def createTable_def create_namespace_def memory_catalog_def drain_declaration_def
      sample_declaration_def verifySchema_def FindFieldByID_def)

definition drain_entry :: SpoolEntry where
  "drain_entry = \<lparr>spe_entry_key = ''b'', spe_Namespace = ''n'', spe_Table = ''t'', spe_SchemaFP = ''s'', spe_ByteLen = 5,
     spe_CreatedAt = 1000000, spe_CommittedAt = None\<rparr>"

lemma drain_backlog: "spool_op (Backlog ''n'' ''t'') drain_sample = (Inr [drain_entry], drain_sample)"
  by (simp add: spool_op_def Backlog_def db_op_def SpoolBacklog_def op_bind_def op_ret_def staging_wrap_def op_wrap_def stmt_def
      q_SpoolBacklogForTable_def drain_sample_def sample_spool_def empty_store_def sort_by_def drain_entry_def time_UnixMilli_def)

lemma drain_staged: "stagedBatchKeys ''n'' ''t'' drain_sample = (Inr [], drain_sample)"
  by (simp add: stagedBatchKeys_def staging_op_def fl_bind_def fl_ret_def spool_op_def db_op_def Scan_def op_bind_def op_ret_def
      staging_wrap_def op_wrap_def stmt_def q_ScanStagedRows_def drain_sample_def sample_spool_def empty_store_def Let_def
      scan_init_def Claim_def pendingBatches_def Let_def)

lemma drain_schema: "spool_op (Spool_Schema ''s'') drain_sample = (Inr sample_descriptor, drain_sample)"
  by (simp add: spool_op_def Spool_Schema_def db_op_def SpoolSchema_def op_bind_def op_ret_def staging_wrap_def op_wrap_def
      stmt_def q_GetSpoolSchema_def drain_sample_def sample_spool_def empty_store_def op_lift_def
      ParseDescriptor_complete sample_descriptor_ok)

lemma drain_commits: "\<exists>w. commit_file drain_settings drain_entry drain_sample = (Inr (), w)"
  by (simp add: commit_file_def fl_bind_def fl_ret_def fl_wrap_def spool_op_def os_ReadFile_def os_ok_def os_call_def PutObject_def
      ext_call_def AlreadyCommitted_def AddFile_def land_commit_def drain_sample_def sample_spool_def drain_entry_def empty_store_def Let_def
      MarkCommitted_def sp_wrap_def db_op_def MarkSpoolCommitted_def staging_fail_def op_fail_def op_bind_def
      op_ret_def staging_wrap_def op_wrap_def stmt_def q_MarkSpoolFileCommitted_def)


lemma drain_runs: "\<exists>s w. drainTable memory_catalog sample_derivation drain_settings ''n'' ''t'' (None, drain_sample) = (None, s, w)"
proof -
  obtain tbl s' where t: "openTable memory_catalog ''b'' ''lake'' drain_declaration None = (Inr tbl, s')"
    using drain_opens by blast
  obtain w where w: "commit_file drain_settings drain_entry drain_sample = (Inr (), w)"
    using drain_commits by blast
  have "drain_sample\<lparr>fw_table := fw_catalog drain_sample\<rparr> = drain_sample" by (simp add: drain_sample_def)
  then have "drainFile memory_catalog sample_derivation drain_settings drain_entry (None, drain_sample) = (None, s', w)"
    using t w by (simp add: drainFile_def drain_entry_def [THEN arg_cong [of _ _ spe_SchemaFP]]
        drain_entry_def [THEN arg_cong [of _ _ spe_Namespace]] drain_entry_def [THEN arg_cong [of _ _ spe_Table]]
        drain_schema drain_declares drain_settings_def)
  then show ?thesis
    by (simp add: drainTable_def drain_settings_def [THEN arg_cong [of _ _ dr_Spool]]
        drain_settings_def [THEN arg_cong [of _ _ dr_LocalOnly]] drain_backlog drain_staged)
qed

section \<open>Properties\<close>

text \<open>C27: A drain of one table, wherever it stops and whatever the catalog, the bucket, the disk and the database answer,
  commits batches of the table's backlog alone: those with a local file that no bucket has confirmed and whose rows
  are not staged (those replay owns). The table gains files of such keys that it did not have, each once and each in
  the bucket with the bytes of its local file; no object of any other key is written, no local file and no staged row
  changes, and a file is marked committed only when its key is such a one and the table has its file. A drain that ends
  without an error leaves none of these keys behind.\<close>

theorem drain_commits_backlog:
  assumes "drainTable cat lib cfg ns tbl (s, w0) = (e, s', w')"
  shows "drained (backlog_keys ns tbl (st_db (fw_store w0)) - staged_keys ns tbl (st_db (fw_store w0))) cfg ns tbl w0 w' \<and>
    (e = None \<and> dr_Spool cfg \<and> \<not> dr_LocalOnly cfg \<longrightarrow>
      (\<forall>k\<in>backlog_keys ns tbl (st_db (fw_store w0)) - staged_keys ns tbl (st_db (fw_store w0)).
         DataURI (dr_Bucket cfg) (dr_Prefix cfg) ns tbl k \<in> set (catalog_files w')))"
  using drainTable_drained [OF assms refl] unfolding drain_keys_def by blast

theorem drain_commits_backlog_witness:
  "\<exists>s w. drainTable memory_catalog sample_derivation drain_settings ''n'' ''t'' (None, drain_sample) = (None, s, w) \<and>
    DataURI ''b'' ''lake'' ''n'' ''t'' ''b'' \<in> set (catalog_files w) \<and> sp_files (fw_spool w) = sp_files (fw_spool drain_sample)"
proof -
  obtain s w where run: "drainTable memory_catalog sample_derivation drain_settings ''n'' ''t'' (None, drain_sample) = (None, s, w)"
    using drain_runs by blast
  have keys: "backlog_keys ''n'' ''t'' (st_db (fw_store drain_sample)) = {''b''}"
      "staged_keys ''n'' ''t'' (st_db (fw_store drain_sample)) = {}"
    by (simp_all add: backlog_keys_def staged_keys_def live_rows_def drain_sample_def sample_spool_def empty_store_def)
  from drain_commits_backlog [OF run, unfolded keys] have "drained {''b''} drain_settings ''n'' ''t'' drain_sample w"
    "DataURI ''b'' ''lake'' ''n'' ''t'' ''b'' \<in> set (catalog_files w)"
    by (simp_all add: drain_settings_def)
  with run show ?thesis
    by (auto simp: drained_def Let_def)
qed

text \<open>C28: A drain of the store is safe beside open writers, however many tables it walks and however it ends. A table whose
  slot is held when it starts is not touched, the registry is left as found (every slot the drain took is given
  back), local files and staged rows stay, and each table's list of files only gains files it did not have. A closed
  store, then a local-only one, is refused before anything is read.\<close>

theorem drain_beside_writers:
  assumes "DrainSpool cat lib cfg W = (e, W')"
  shows "store_drained cfg W W' \<and>
    (sk_closed (dw_registry W) \<longrightarrow> e = Some ErrClosed \<and> W' = W) \<and>
    (\<not> sk_closed (dw_registry W) \<and> dr_LocalOnly cfg \<longrightarrow> e = Some ErrLocalOnly \<and> W' = W)"
proof (intro conjI impI)
  obtain r w where b: "spool_op BacklogTables (dw_flush W) = (r, w)" by fastforce
  have d: "store_drained cfg W (W\<lparr>dw_flush := w\<rparr>)"
    using BacklogTables_world [OF b] by (auto simp: store_drained_def intro: exI [of _ "[]"])
  have "store_drained cfg W V" if "drain_tables cat lib cfg ts None (W\<lparr>dw_flush := w\<rparr>) = (x, V)" for ts x V
    by (rule store_drained_trans [OF d drain_tables_drained [OF that]])
  with assms d store_drained_refl show "store_drained cfg W W'"
    by (auto simp: DrainSpool_def b split: option.splits if_splits sum.splits)
qed (use assms in \<open>simp_all add: DrainSpool_def checkOpen_def\<close>)

definition drain_store :: "memory_table option drain_world" where
  "drain_store = \<lparr>dw_registry = \<lparr>sk_MaxRecords = 10, sk_MaxBytes = 10, sk_records = 0, sk_bytes = 0,
      sk_writers = [\<lparr>tid_Namespace = ''n'', tid_Table = ''u''\<rparr> \<mapsto> tableClaim], sk_closed = False\<rparr>,
    dw_cat = None, dw_flush = drain_sample, dw_snapshots = Map.empty\<rparr>"

theorem drain_beside_writers_witness:
  "\<exists>e W. DrainSpool memory_catalog sample_derivation drain_settings drain_store = (e, W) \<and>
    dw_registry W = dw_registry drain_store \<and> dw_snapshots W \<lparr>tid_Namespace = ''n'', tid_Table = ''u''\<rparr> = None"
proof -
  obtain e W where run: "DrainSpool memory_catalog sample_derivation drain_settings drain_store = (e, W)" by fastforce
  from drain_beside_writers [OF this] have "dw_registry W = dw_registry drain_store"
    "\<forall>t. sk_writers (dw_registry drain_store) t \<noteq> None \<longrightarrow> dw_snapshots W t = dw_snapshots drain_store t"
    by (simp_all add: store_drained_def)
  with run show ?thesis by (auto simp: drain_store_def)
qed

end
