(* ===== verification/Config.thy ===== *)
theory Config
  imports MirrorClaims DrainClaims
begin

text \<open>File \<open>config.go\<close> and the credentials check of \<open>internal/s3cfg\<close>: the configuration a store is opened with, the settings
  resolved from it, and every rule it is validated against. A credentials provider is there or not; a callback is not
  modelled here. \<open>validate\<close> collects in one slice what its closure appends and what its helpers return; where both
  happen in one statement, the closure's come first.\<close>

section \<open>Configuration\<close>

record ClickHouseConfig =
  chc_Addr :: string
  chc_Database :: string
  chc_Username :: string

record FlushPolicy =
  fp_FlushMaxRecords :: int
  fp_FlushMaxBytes :: int
  fp_FlushInterval :: int
  fp_ZSTDLevel :: int
  fp_MinFlushInterval :: int

record Config = FlushPolicy +
  cfg_StagingPath :: string
  cfg_CatalogPath :: string
  cfg_Endpoint :: string
  cfg_Bucket :: string
  cfg_WarehousePrefix :: string
  cfg_Region :: string
  cfg_AccessKeyID :: string
  cfg_SecretAccessKey :: string
  cfg_Credentials :: bool
  cfg_LocalOnly :: bool
  cfg_CacheDir :: string
  cfg_CacheMaxBytes :: int
  cfg_CacheMaxAge :: int
  cfg_FlushMaxAttempts :: int
  cfg_RetryBaseDelay :: int
  cfg_RetryMaxDelay :: int
  cfg_ClickHouse :: "ClickHouseConfig option"
  cfg_OnClickHouseError :: bool
  cfg_StagingMaxRecords :: int
  cfg_StagingMaxBytes :: int

definition DefaultMinFlushInterval :: int where "DefaultMinFlushInterval = 1000000000"
definition DefaultFlushMaxAttempts :: int where "DefaultFlushMaxAttempts = 5"
definition DefaultRetryBaseDelay :: int where "DefaultRetryBaseDelay = 1000000000"
definition DefaultRetryMaxDelay :: int where "DefaultRetryMaxDelay = 60000000000"
definition DefaultDatabase :: string where "DefaultDatabase = ''icelake''"
definition DefaultRegion :: string where "DefaultRegion = ''auto''"

section \<open>Resolving\<close>

text \<open>The two members of \<open>resolved\<close> a writer's steps do not read.\<close>

record table_settings = resolved +
  rv_zstdLevel :: int
  rv_fieldPrefix :: string

definition cmpOrDefault :: "int \<Rightarrow> int \<Rightarrow> int" where
  "cmpOrDefault v d = (if v = 0 then d else v)"

definition resolved_from :: "'z FlushPolicy_scheme \<Rightarrow> string \<Rightarrow> table_settings" where
  "resolved_from p prefix = \<lparr>rv_maxRecords = fp_FlushMaxRecords p, rv_maxBytes = fp_FlushMaxBytes p, rv_interval = fp_FlushInterval p,
     rv_floor = cmpOrDefault (fp_MinFlushInterval p) DefaultMinFlushInterval, rv_zstdLevel = fp_ZSTDLevel p,
     rv_fieldPrefix = prefix\<rparr>"

definition flushSettings :: "Config \<Rightarrow> FlushPolicy option \<Rightarrow> table_settings" where
  "flushSettings c p = (case p of None \<Rightarrow> resolved_from c ''Config.'' | Some q \<Rightarrow> resolved_from q ''TableConfig.Flush.'')"

definition retrySettings :: "Config \<Rightarrow> Retry" where
  "retrySettings c =
    \<lparr>MaxAttempts = (if cfg_FlushMaxAttempts c = 0 then DefaultFlushMaxAttempts else cfg_FlushMaxAttempts c),
     BaseDelay = cmpOrDefault (cfg_RetryBaseDelay c) DefaultRetryBaseDelay,
     MaxDelay = cmpOrDefault (cfg_RetryMaxDelay c) DefaultRetryMaxDelay\<rparr>"

section \<open>Validating\<close>

definition violation :: "string \<Rightarrow> string \<Rightarrow> error" where
  "violation fld rule_text = EConfigField (ConfigFieldError fld rule_text)"

text \<open>One \<open>if\<close> around a call of \<open>bad\<close>.\<close>

definition bad_if :: "bool \<Rightarrow> string \<Rightarrow> string \<Rightarrow> error list" where
  "bad_if b fld rule_text = (if b then [violation fld rule_text] else [])"

definition ValidateCredentials :: "Config \<Rightarrow> error list" where
  "ValidateCredentials c =
    (let hasKeys = cfg_AccessKeyID c \<noteq> [] \<or> cfg_SecretAccessKey c \<noteq> [] in
     if hasKeys \<and> cfg_Credentials c
     then [violation ''Credentials''
       ''must not be set alongside AccessKeyID and SecretAccessKey; supply exactly one credential form'']
     else if \<not> hasKeys \<and> \<not> cfg_Credentials c
     then [violation ''Credentials''
       ''must be set, or AccessKeyID and SecretAccessKey must be; icelake never falls back to ambient credentials'']
     else if hasKeys \<and> (cfg_AccessKeyID c = [] \<or> cfg_SecretAccessKey c = [])
     then [violation ''AccessKeyID'' ''must be set together with SecretAccessKey'']
     else [])"

definition forbidden :: "Config \<Rightarrow> (string \<times> string) list" where
  "forbidden c = [(''CatalogPath'', cfg_CatalogPath c), (''Endpoint'', cfg_Endpoint c), (''Bucket'', cfg_Bucket c),
     (''WarehousePrefix'', cfg_WarehousePrefix c), (''AccessKeyID'', cfg_AccessKeyID c),
     (''SecretAccessKey'', cfg_SecretAccessKey c)]"

text \<open>What the closure appended, then what the call returned.\<close>

definition validateMode :: "Config \<Rightarrow> error list \<times> error list" where
  "validateMode c =
    (if cfg_LocalOnly c
     then (bad_if (cfg_CacheDir c = []) ''CacheDir''
             ''must not be empty when LocalOnly is set; there is nowhere else for the data to go'' @
           concat (map (\<lambda>(fld, v). bad_if (v \<noteq> []) fld ''must be empty when LocalOnly is set'') (forbidden c)) @
           bad_if (cfg_Credentials c) ''Credentials'' ''must be nil when LocalOnly is set'' @
           bad_if (cfg_CacheMaxBytes c \<noteq> 0) ''CacheMaxBytes''
             ''must be zero when LocalOnly is set; nothing is ever committed, so nothing is ever evictable'' @
           bad_if (cfg_CacheMaxAge c \<noteq> 0) ''CacheMaxAge''
             ''must be zero when LocalOnly is set; nothing is ever committed, so nothing is ever evictable'', [])
     else (concat (map (\<lambda>(fld, v). bad_if (v = []) fld ''must not be empty'') (take 4 (forbidden c))) @
           (if cfg_CacheMaxBytes c < 0 then [violation ''CacheMaxBytes'' ''must not be negative'']
            else bad_if (cfg_CacheMaxBytes c > 0 \<and> cfg_CacheDir c = []) ''CacheMaxBytes'' ''must not be set without a CacheDir to bound'') @
           (if cfg_CacheMaxAge c < 0 then [violation ''CacheMaxAge'' ''must not be negative'']
            else bad_if (cfg_CacheMaxAge c > 0 \<and> cfg_CacheDir c = []) ''CacheMaxAge'' ''must not be set without a CacheDir to bound'') @
           bad_if (cfg_CacheDir c \<noteq> [] \<and> cfg_CacheMaxBytes c \<le> 0 \<and> cfg_CacheMaxAge c \<le> 0) ''CacheDir''
             ''must be accompanied by CacheMaxBytes or CacheMaxAge; an unbounded cache is asked for through LocalOnly'',
           ValidateCredentials c))"

definition validate_resolved :: "Config \<Rightarrow> table_settings \<Rightarrow> error list" where
  "validate_resolved c r =
    (let fld = (\<lambda>f. rv_fieldPrefix r @ f) in
     bad_if (rv_maxRecords r \<le> 0) (fld ''FlushMaxRecords'') ''must be positive'' @
     bad_if (rv_maxBytes r \<le> 0) (fld ''FlushMaxBytes'') ''must be positive'' @
     bad_if (rv_interval r \<le> 0) (fld ''FlushInterval'') ''must be positive'' @
     bad_if (rv_zstdLevel r < 1 \<or> rv_zstdLevel r > 22) (fld ''ZSTDLevel'') ''must be between 1 and 22'' @
     bad_if (rv_floor r < 0) (fld ''MinFlushInterval'') ''must not be negative'' @
     bad_if (cfg_StagingMaxRecords c > 0 \<and> rv_maxRecords r > 0 \<and> cfg_StagingMaxRecords c < rv_maxRecords r)
       (fld ''FlushMaxRecords'') ''must not exceed Config.StagingMaxRecords; a batch could never fill before the ceiling refused it'' @
     bad_if (cfg_StagingMaxBytes c > 0 \<and> rv_maxBytes r > 0 \<and> cfg_StagingMaxBytes c < rv_maxBytes r)
       (fld ''FlushMaxBytes'') ''must not exceed Config.StagingMaxBytes; a batch could never fill before the ceiling refused it'')"

definition config_violations :: "Config \<Rightarrow> error list" where
  "config_violations c =
    (let mode = validateMode c; r = retrySettings c in
     bad_if (cfg_StagingPath c = []) ''StagingPath'' ''must not be empty'' @
     fst mode @ snd mode @
     bad_if (fp_MinFlushInterval c < 0) ''MinFlushInterval'' ''must not be negative'' @
     bad_if (cfg_FlushMaxAttempts c < 0) ''FlushMaxAttempts'' ''must not be negative'' @
     bad_if (cfg_RetryBaseDelay c < 0) ''RetryBaseDelay'' ''must not be negative'' @
     bad_if (cfg_RetryMaxDelay c < 0) ''RetryMaxDelay'' ''must not be negative'' @
     bad_if (cfg_RetryBaseDelay c \<ge> 0 \<and> cfg_RetryMaxDelay c \<ge> 0 \<and> BaseDelay r > MaxDelay r) ''RetryBaseDelay''
       ''must not exceed RetryMaxDelay'' @
     (case cfg_ClickHouse c of
        None \<Rightarrow> []
      | Some h \<Rightarrow>
          bad_if (chc_Addr h = []) ''ClickHouse.Addr''
            ''must not be empty; a ClickHouse config with no address is a mirror that was asked for and not configured'' @
          bad_if (chc_Username h = []) ''ClickHouse.Username''
            ''must not be empty; icelake never connects as whatever user the server defaults to'') @
     bad_if (cfg_StagingMaxRecords c \<le> 0) ''StagingMaxRecords'' ''must be positive'' @
     bad_if (cfg_StagingMaxBytes c \<le> 0) ''StagingMaxBytes'' ''must be positive'' @
     validate_resolved c (flushSettings c None))"

definition joined :: "error list \<Rightarrow> error option" where
  "joined vs = (if vs = [] then None else Some (EConfig (ConfigError (ErrJoin vs))))"

definition validate :: "Config \<Rightarrow> error option" where
  "validate c = joined (config_violations c)"

definition validateTable :: "Config \<Rightarrow> FlushPolicy option \<Rightarrow> error option" where
  "validateTable c p = (case p of None \<Rightarrow> None | Some q \<Rightarrow> joined (validate_resolved c (flushSettings c p)))"

section \<open>What a validated configuration is\<close>

text \<open>The two modes: a store that only keeps local files names no bucket and no catalog and keeps files without bounds; any
  other names all four, has exactly one form of credentials, and bounds its cache if it has one.\<close>

definition mode_ok :: "Config \<Rightarrow> bool" where
  "mode_ok c \<longleftrightarrow>
    (if cfg_LocalOnly c
     then cfg_CacheDir c \<noteq> [] \<and> (\<forall>(n, v)\<in>set (forbidden c). v = []) \<and> \<not> cfg_Credentials c \<and>
       cfg_CacheMaxBytes c = 0 \<and> cfg_CacheMaxAge c = 0
     else cfg_CatalogPath c \<noteq> [] \<and> cfg_Endpoint c \<noteq> [] \<and> cfg_Bucket c \<noteq> [] \<and> cfg_WarehousePrefix c \<noteq> [] \<and>
       (if cfg_Credentials c then cfg_AccessKeyID c = [] \<and> cfg_SecretAccessKey c = []
        else cfg_AccessKeyID c \<noteq> [] \<and> cfg_SecretAccessKey c \<noteq> []) \<and>
       0 \<le> cfg_CacheMaxBytes c \<and> 0 \<le> cfg_CacheMaxAge c \<and>
       (cfg_CacheDir c \<noteq> [] \<longleftrightarrow> 0 < cfg_CacheMaxBytes c \<or> 0 < cfg_CacheMaxAge c))"

text \<open>Thresholds a batch can reach below the ceiling of the store, and a floor the timer can respect.\<close>

definition settings_ok :: "Config \<Rightarrow> table_settings \<Rightarrow> bool" where
  "settings_ok c r \<longleftrightarrow> 0 < rv_maxRecords r \<and> 0 < rv_maxBytes r \<and> 0 < rv_interval r \<and> 1 \<le> rv_zstdLevel r \<and> rv_zstdLevel r \<le> 22 \<and>
    0 < rv_floor r \<and> rv_maxRecords r \<le> cfg_StagingMaxRecords c \<and> rv_maxBytes r \<le> cfg_StagingMaxBytes c"

lemma bad_if_Nil [simp]: "bad_if b f r = [] \<longleftrightarrow> \<not> b"
  by (simp add: bad_if_def)

lemma joined_None [simp]: "joined vs = None \<longleftrightarrow> vs = []"
  by (simp add: joined_def)

lemma validateMode_Nil: "fst (validateMode c) = [] \<and> snd (validateMode c) = [] \<longleftrightarrow> mode_ok c"
  by (auto simp: validateMode_def mode_ok_def forbidden_def ValidateCredentials_def Let_def split: if_splits)

lemma validate_resolved_Nil:
  assumes "0 < cfg_StagingMaxRecords c" "0 < cfg_StagingMaxBytes c"
  shows "validate_resolved c (resolved_from p prefix) = [] \<longleftrightarrow> settings_ok c (resolved_from p prefix)"
  using assms by (auto simp: validate_resolved_def settings_ok_def resolved_from_def cmpOrDefault_def DefaultMinFlushInterval_def Let_def)

lemma validate_None:
  "validate c = None \<longleftrightarrow> cfg_StagingPath c \<noteq> [] \<and> mode_ok c \<and> 0 < cfg_StagingMaxRecords c \<and> 0 < cfg_StagingMaxBytes c \<and>
    settings_ok c (flushSettings c None) \<and>
    0 < BaseDelay (retrySettings c) \<and> BaseDelay (retrySettings c) \<le> MaxDelay (retrySettings c) \<and> 1 \<le> MaxAttempts (retrySettings c) \<and>
    (case cfg_ClickHouse c of None \<Rightarrow> True | Some h \<Rightarrow> chc_Addr h \<noteq> [] \<and> chc_Username h \<noteq> [])"
proof -
  have retry: "cfg_FlushMaxAttempts c \<ge> 0 \<and> cfg_RetryBaseDelay c \<ge> 0 \<and> cfg_RetryMaxDelay c \<ge> 0 \<and>
      BaseDelay (retrySettings c) \<le> MaxDelay (retrySettings c) \<longleftrightarrow>
      0 < BaseDelay (retrySettings c) \<and> BaseDelay (retrySettings c) \<le> MaxDelay (retrySettings c) \<and> 1 \<le> MaxAttempts (retrySettings c)"
    by (auto simp: retrySettings_def cmpOrDefault_def DefaultFlushMaxAttempts_def DefaultRetryBaseDelay_def DefaultRetryMaxDelay_def)
  have floor: "0 \<le> fp_MinFlushInterval c" if "settings_ok c (flushSettings c None)"
    using that by (auto simp: settings_ok_def flushSettings_def resolved_from_def cmpOrDefault_def split: if_splits)
  have table: "validate_resolved c (flushSettings c None) = [] \<longleftrightarrow> settings_ok c (flushSettings c None)"
    if "0 < cfg_StagingMaxRecords c" "0 < cfg_StagingMaxBytes c"
    using validate_resolved_Nil [OF that] by (simp add: flushSettings_def)
  have "validate c = None \<longleftrightarrow> cfg_StagingPath c \<noteq> [] \<and> mode_ok c \<and> 0 \<le> fp_MinFlushInterval c \<and>
      (cfg_FlushMaxAttempts c \<ge> 0 \<and> cfg_RetryBaseDelay c \<ge> 0 \<and> cfg_RetryMaxDelay c \<ge> 0 \<and>
       BaseDelay (retrySettings c) \<le> MaxDelay (retrySettings c)) \<and>
      (case cfg_ClickHouse c of None \<Rightarrow> True | Some h \<Rightarrow> chc_Addr h \<noteq> [] \<and> chc_Username h \<noteq> []) \<and>
      0 < cfg_StagingMaxRecords c \<and> 0 < cfg_StagingMaxBytes c \<and> validate_resolved c (flushSettings c None) = []"
    using validateMode_Nil [of c] by (auto simp: validate_def config_violations_def Let_def not_le not_less split: option.split)
  then show ?thesis
    unfolding retry using table floor by blast
qed

text \<open>C40: \<open>Open\<close> accepts a configuration exactly when it is one of the two modes, with positive ceilings, thresholds a batch
  can reach below them, and a retry schedule whose first ceiling is positive and at most its last.\<close>

theorem validate_accepts_iff:
  "validate c = None \<longleftrightarrow> cfg_StagingPath c \<noteq> [] \<and> mode_ok c \<and> 0 < cfg_StagingMaxRecords c \<and> 0 < cfg_StagingMaxBytes c \<and>
    settings_ok c (flushSettings c None) \<and>
    0 < BaseDelay (retrySettings c) \<and> BaseDelay (retrySettings c) \<le> MaxDelay (retrySettings c) \<and> 1 \<le> MaxAttempts (retrySettings c) \<and>
    (case cfg_ClickHouse c of None \<Rightarrow> True | Some h \<Rightarrow> chc_Addr h \<noteq> [] \<and> chc_Username h \<noteq> [])"
  by (rule validate_None)

end
