(* ===== verification/StoreOpen.thy ===== *)
theory StoreOpen
  imports Config
begin

text \<open>\<open>Open\<close> and \<open>Close\<close> of \<open>store.go\<close>: what a store opens, in which order, what it gives back when a later step fails, and
  what a close releases. The opens themselves are the library's: \<open>open_lib\<close> gives their errors. A handle opened or closed,
  a goroutine started or stopped, is an event.\<close>

section \<open>Open\<close>

datatype handle = BackgroundContext | StagingHandle | MirrorHandle | CatalogHandle | SweeperGoroutine

datatype handle_event = Opened handle | Released handle

record open_lib =
  ol_staging :: "error option"
  ol_mirror :: "error option"
  ol_catalogdb :: "error option"
  ol_catalog :: "error option"

definition new_store :: "Config \<Rightarrow> Counters \<Rightarrow> Store" where
  "new_store c n = \<lparr>sk_MaxRecords = cfg_StagingMaxRecords c, sk_MaxBytes = cfg_StagingMaxBytes c,
     sk_records = ctr_Records n, sk_bytes = ctr_Bytes n, sk_writers = Map.empty, sk_closed = False\<rparr>"

definition has_spool :: "Config \<Rightarrow> bool" where
  "has_spool c \<longleftrightarrow> cfg_CacheDir c \<noteq> []"

definition startSweeper :: "Config \<Rightarrow> handle_event list" where
  "startSweeper c = (if has_spool c then [Opened SweeperGoroutine] else [])"

definition closeMirror :: "Config \<Rightarrow> handle_event list" where
  "closeMirror c = (case cfg_ClickHouse c of None \<Rightarrow> [] | Some _ \<Rightarrow> [Released MirrorHandle])"

text \<open>The tail after the mirror, on the store built so far and the events so far.\<close>

definition open_catalog :: "Config \<Rightarrow> open_lib \<Rightarrow> Store \<Rightarrow> handle_event list \<Rightarrow> (error, Store) result \<times> handle_event list" where
  "open_catalog c lib s evs =
    (if cfg_LocalOnly c then (Inr s, evs)
     else case ol_catalogdb lib of
       Some e \<Rightarrow> (Inl e, evs @ [Released BackgroundContext] @ closeMirror c @ [Released StagingHandle])
     | None \<Rightarrow>
         (let evs' = evs @ [Opened CatalogHandle] in
          case ol_catalog lib of
            Some e \<Rightarrow> (Inl e, evs' @ [Released BackgroundContext] @ closeMirror c @ [Released CatalogHandle, Released StagingHandle])
          | None \<Rightarrow> (Inr s, evs' @ startSweeper c)))"

definition store_Open :: "Config \<Rightarrow> open_lib \<Rightarrow> store \<Rightarrow> (error, Store) result \<times> handle_event list \<times> store" where
  "store_Open c lib st =
    (case validate c of
       Some e \<Rightarrow> (Inl e, [], st)
     | None \<Rightarrow>
     (case ol_staging lib of
       Some e \<Rightarrow> (Inl e, [Opened BackgroundContext, Released BackgroundContext], st)
     | None \<Rightarrow>
     (let evs = [Opened BackgroundContext, Opened StagingHandle] in
      case Scan st of
       (Inl e, st1) \<Rightarrow> (Inl e, evs @ [Released BackgroundContext, Released StagingHandle], st1)
     | (Inr index, st1) \<Rightarrow>
         (let s = new_store c (Index_Counters index) in
          case cfg_ClickHouse c of
            None \<Rightarrow> (case open_catalog c lib s evs of (r, evs') \<Rightarrow> (r, evs', st1))
          | Some _ \<Rightarrow>
              (case ol_mirror lib of
                 Some e \<Rightarrow> (Inl e, evs @ [Released BackgroundContext, Released StagingHandle], st1)
               | None \<Rightarrow> (case open_catalog c lib s (evs @ [Opened MirrorHandle]) of (r, evs') \<Rightarrow> (r, evs', st1)))))))"

section \<open>Close\<close>

text \<open>The writers' answers, in the order the map gives them.\<close>

fun first_failure :: "error option list \<Rightarrow> error option \<Rightarrow> error option" where
  "first_failure [] first = first"
| "first_failure (r # rs) first = first_failure rs
    (case r of Some e \<Rightarrow> if \<not> errors_Is e ErrClosed \<and> first = None then Some e else first | None \<Rightarrow> first)"

record close_lib =
  cl_writers :: "error option list"
  cl_catalogdb :: "error option"
  cl_staging :: "error option"
  cl_mirror :: "error option"

definition or_first :: "error option \<Rightarrow> error option \<Rightarrow> error option" where
  "or_first first e = (case first of Some x \<Rightarrow> Some x | None \<Rightarrow> e)"

text \<open>The answer, the error the mirror's callback is given, the events and the store.\<close>

definition store_Close :: "Config \<Rightarrow> close_lib \<Rightarrow> Store \<Rightarrow> error option \<times> error option \<times> handle_event list \<times> Store" where
  "store_Close c lib s =
    (case Close_begin s of
       (Inl e, s1) \<Rightarrow> (Some e, None, [], s1)
     | (Inr writers, s1) \<Rightarrow>
         (let first = first_failure (cl_writers lib) None;
              sweeper = (if has_spool c \<and> \<not> cfg_LocalOnly c then [Released SweeperGoroutine] else []);
              db = (if cfg_LocalOnly c then [] else [Released CatalogHandle]);
              first1 = (if cfg_LocalOnly c then first
                        else or_first first (map_option (\<lambda>e. NewCatalogError CatalogKindClose (cfg_CatalogPath c) (Some e)) (cl_catalogdb lib)));
              mirror_events = closeMirror c;
              told_error = (case cfg_ClickHouse c of None \<Rightarrow> None
                            | Some _ \<Rightarrow> if \<not> cfg_OnClickHouseError c then None else (case cl_mirror lib of None \<Rightarrow> None | Some e \<Rightarrow> errors_As is_ClickHouse e)) in
          (or_first first1 (cl_staging lib), told_error,
           sweeper @ [Released BackgroundContext] @ db @ [Released StagingHandle] @ mirror_events, s1)))"

section \<open>The sweeper\<close>

text \<open>What the goroutine of the sweeper selects on: its timer, at the clock's instant, or the stop. A sweep's answer is
  discarded; the list is empty when neither is ready. The result says whether the goroutine has returned.\<close>

datatype sweeper_signal = TimerFired int | StopClosed

fun runSweeper :: "Config \<Rightarrow> sweeper_signal list \<Rightarrow> spool_world \<Rightarrow> bool \<times> spool_world" where
  "runSweeper c [] w = (False, w)"
| "runSweeper c (StopClosed # signals) w = (True, w)"
| "runSweeper c (TimerFired now # signals) w =
    runSweeper c signals (snd (Sweep now (cfg_CacheMaxAge c) (cfg_CacheMaxBytes c) w))"

lemma swept_trans:
  assumes "swept w0 w1" "swept w1 w2"
  shows "swept w0 w2"
proof -
  obtain E1 where E1: "E1 \<subseteq> {f \<in> set (spool_files w0). sf_committed_at f \<noteq> None}"
    "spool_files w1 = filter (\<lambda>f. f \<notin> E1) (spool_files w0)" "\<forall>f\<in>E1. sp_files w1 (file_path (sp_dir w0) f) = None"
    using assms(1) unfolding swept_def by blast
  obtain E2 where E2: "E2 \<subseteq> {f \<in> set (spool_files w1). sf_committed_at f \<noteq> None}"
    "spool_files w2 = filter (\<lambda>f. f \<notin> E2) (spool_files w1)" "\<forall>f\<in>E2. sp_files w2 (file_path (sp_dir w1) f) = None"
    using assms(2) unfolding swept_def by blast
  have dir: "sp_dir w1 = sp_dir w0" and sub: "set (spool_files w1) \<subseteq> set (spool_files w0)"
    using assms(1) E1(2) by (auto simp: swept_def)
  have gone: "sp_files w' p = None \<and> (\<exists>f\<in>set (spool_files w). sf_committed_at f \<noteq> None \<and> p = file_path (sp_dir w) f)"
    if "swept w w'" "sp_files w' p \<noteq> sp_files w p" for w w' p
    using that unfolding swept_def by meson
  show ?thesis
  proof (rule sweptI [of "E1 \<union> E2"])
    show "E1 \<union> E2 \<subseteq> {f \<in> set (spool_files w0). sf_committed_at f \<noteq> None}" using E1 E2(1) by auto
    show "spool_files w2 = filter (\<lambda>f. f \<notin> E1 \<union> E2) (spool_files w0)" using E1(2) E2(2) by (simp add: conj_commute)
    show "sp_files w2 (file_path (sp_dir w0) f) = None" if "f \<in> E1 \<union> E2" for f
      using that E1(3) E2(3) dir gone [OF assms(2), of "file_path (sp_dir w0) f"] by (cases "f \<in> E2", simp, cases "sp_files w2 (file_path (sp_dir w0) f)") auto
    show "sp_files w2 p = None \<and> (\<exists>f\<in>set (spool_files w0). sf_committed_at f \<noteq> None \<and> p = file_path (sp_dir w0) f)"
      if "sp_files w2 p \<noteq> sp_files w0 p" for p
    proof (cases "sp_files w2 p = sp_files w1 p")
      case True
      with that gone [OF assms(1)] show ?thesis by simp
    next
      case False
      from gone [OF assms(2) this] sub dir show ?thesis by auto
    qed
  qed (use assms in \<open>auto simp: swept_def\<close>)
qed

text \<open>However long it runs, the sweeper spares what no bucket has confirmed.\<close>

lemma runSweeper_swept:
  assumes "distinct (map sf_batch_key (spool_files w))" "os_honest w" "runSweeper c signals w = (ended, w')"
  shows "swept w w' \<and> (ended \<longleftrightarrow> StopClosed \<in> set signals)"
  using assms
proof (induction c signals w rule: runSweeper.induct)
  case (3 c now signals w)
  let ?w = "snd (Sweep now (cfg_CacheMaxAge c) (cfg_CacheMaxBytes c) w)"
  have s: "swept w ?w" by (rule swept_Sweep [OF "3.prems"(1,2) prod.collapse [symmetric]])
  then have "distinct (map sf_batch_key (spool_files ?w))" "os_honest ?w"
    using "3.prems"(1,2) by (auto simp: swept_def os_honest_def distinct_map_filter)
  from "3.IH" [OF this] "3.prems"(3) swept_trans [OF s] show ?case by auto
qed (auto simp: swept_refl)

section \<open>Nothing leaks\<close>

definition held_after :: "handle_event list \<Rightarrow> handle \<Rightarrow> int" where
  "held_after evs h = int (count_list evs (Opened h)) - int (count_list evs (Released h))"

lemma held_after_append [simp]: "held_after (xs @ ys) h = held_after xs h + held_after ys h"
  by (simp add: held_after_def)

lemma held_after_Nil [simp]: "held_after [] h = 0"
  by (simp add: held_after_def)

lemma held_after_Cons [simp]:
  "held_after (Opened g # xs) h = (if g = h then 1 else 0) + held_after xs h"
  "held_after (Released g # xs) h = (if g = h then - 1 else 0) + held_after xs h"
  by (auto simp: held_after_def)

text \<open>What an open store holds.\<close>

definition holds :: "Config \<Rightarrow> handle \<Rightarrow> bool" where
  "holds c h = (case h of
      BackgroundContext \<Rightarrow> True | StagingHandle \<Rightarrow> True | MirrorHandle \<Rightarrow> cfg_ClickHouse c \<noteq> None
    | CatalogHandle \<Rightarrow> \<not> cfg_LocalOnly c | SweeperGoroutine \<Rightarrow> \<not> cfg_LocalOnly c \<and> has_spool c)"

lemma open_catalog_result:
  assumes "open_catalog c lib s evs = (r, evs')" "cfg_ClickHouse c \<noteq> None \<longleftrightarrow> mirror_open"
    "\<forall>h. held_after evs h = (if h \<in> {BackgroundContext, StagingHandle} \<or> mirror_open \<and> h = MirrorHandle then 1 else 0)"
  shows "(case r of Inl e \<Rightarrow> \<forall>h. held_after evs' h = 0
     | Inr s' \<Rightarrow> s' = s \<and> (\<forall>h. held_after evs' h = (if holds c h then 1 else 0)))"
proof -
  have ev: "held_after evs h = (if h \<in> {BackgroundContext, StagingHandle} \<or> mirror_open \<and> h = MirrorHandle then 1 else 0)" for h
    using assms(3) by blast
  have "held_after evs' h = 0" if "r = Inl e" for e h
    using assms(1,2) that ev [of h]
    by (cases h) (auto simp: open_catalog_def closeMirror_def Let_def split: if_splits option.splits)
  moreover have "held_after evs' h = (if holds c h then 1 else 0) \<and> s' = s" if "r = Inr s'" for s' h
    using assms(1,2) that ev [of h]
    by (cases h) (auto simp: open_catalog_def closeMirror_def startSweeper_def holds_def Let_def split: if_splits option.splits)
  ultimately show ?thesis by (cases r) auto
qed

lemma store_Open_Inr:
  assumes "store_Open c lib st = (r, evs, st')"
  shows "st_db st' = st_db st \<and> (case r of
      Inl e \<Rightarrow> \<forall>h. held_after evs h = 0
    | Inr s \<Rightarrow> validate c = None \<and> (\<exists>ix. Scan st = (Inr ix, st') \<and> s = new_store c (Index_Counters ix)) \<and>
        (\<forall>h. held_after evs h = (if holds c h then 1 else 0)))"
proof (cases "validate c = None \<and> ol_staging lib = None")
  case False
  with assms show ?thesis by (auto simp: store_Open_def split: option.splits)
next
  case True
  obtain q st1 where q: "Scan st = (q, st1)" by fastforce
  have db: "st_db st1 = st_db st"
    using q by (auto simp: Scan_def op_bind_def op_ret_def staging_wrap_def op_wrap_def stmt_def
        q_ScanStagedRows_def staging_fail_def op_fail_def Let_def split: list.splits option.splits if_splits)
  show ?thesis
  proof (cases q)
    case (Inl e)
    with assms True q db show ?thesis by (auto simp: store_Open_def Let_def)
  next
    case (Inr ix)
    let ?s = "new_store c (Index_Counters ix)" and ?evs = "[Opened BackgroundContext, Opened StagingHandle]"
    have tail: "st' = st1 \<and> (case r of Inl e \<Rightarrow> \<forall>h. held_after evs h = 0
        | Inr s' \<Rightarrow> s' = ?s \<and> (\<forall>h. held_after evs h = (if holds c h then 1 else 0)))"
    proof (cases "cfg_ClickHouse c")
      case None
      then have "open_catalog c lib ?s ?evs = (r, evs)" "st' = st1"
        using assms True q Inr by (auto simp: store_Open_def Let_def split: prod.splits)
      with open_catalog_result [OF this(1), of False] None show ?thesis by simp
    next
      case (Some h)
      show ?thesis
      proof (cases "ol_mirror lib")
        case None
        then have "open_catalog c lib ?s (?evs @ [Opened MirrorHandle]) = (r, evs)" "st' = st1"
          using assms True q Inr Some by (auto simp: store_Open_def Let_def split: prod.splits)
        with open_catalog_result [OF this(1), of True] Some show ?thesis by simp
      next
        case (Some e)
        with assms True q Inr \<open>cfg_ClickHouse c = Some h\<close> show ?thesis by (auto simp: store_Open_def Let_def)
      qed
    qed
    with True q Inr db show ?thesis by (auto split: sum.splits)
  qed
qed

text \<open>C36: A store neither leaks nor loses count. However the opens it is made of fail, \<open>Open\<close> changes no staged row, and an
  error leaves nothing open behind; a store it returns has a validated configuration, counts every staged row and byte
  against its ceiling before the first writer exists, and holds exactly the handles its mode needs. Its close releases
  each of them once, whatever fails on the way, and any further close is refused and releases nothing.\<close>

theorem store_lifecycle:
  assumes "store_Open c lib st = (r, evs, st')"
  shows "st_db st' = st_db st \<and> (\<forall>e h. r = Inl e \<longrightarrow> held_after evs h = 0) \<and>
    (\<forall>s. r = Inr s \<longrightarrow> validate c = None \<and>
      sk_records s = int (length (db_staging (st_db st))) \<and> sk_bytes s = sum_list (map sr_byte_len (db_staging (st_db st))) \<and>
      (\<forall>h. held_after evs h = (if holds c h then 1 else 0)) \<and>
      (\<forall>cl e m evs' s'. store_Close c cl s = (e, m, evs', s') \<longrightarrow>
        (\<forall>h. held_after (evs @ evs') h = 0) \<and> (\<forall>cl'. store_Close c cl' s' = (Some ErrClosed, None, [], s'))))"
proof -
  note open_result = store_Open_Inr [OF assms]
  have inr: "validate c = None \<and>
      sk_records s = int (length (db_staging (st_db st))) \<and> sk_bytes s = sum_list (map sr_byte_len (db_staging (st_db st))) \<and>
      (\<forall>h. held_after evs h = (if holds c h then 1 else 0))" and opened: "\<not> sk_closed s" if r: "r = Inr s" for s
  proof -
    obtain ix where ix: "Scan st = (Inr ix, st')" "s = new_store c (Index_Counters ix)" "validate c = None"
      "\<forall>h. held_after evs h = (if holds c h then 1 else 0)"
      using open_result r by auto
    from Scan_Inr(2) [OF ix(1)] ix show "validate c = None \<and>
      sk_records s = int (length (db_staging (st_db st))) \<and> sk_bytes s = sum_list (map sr_byte_len (db_staging (st_db st))) \<and>
      (\<forall>h. held_after evs h = (if holds c h then 1 else 0))" "\<not> sk_closed s"
      by (simp_all add: new_store_def Index_Counters_def)
  qed
  have close: "(\<forall>h. held_after (evs @ evs') h = 0) \<and> (\<forall>cl'. store_Close c cl' s' = (Some ErrClosed, None, [], s'))"
    if r: "r = Inr s" and cl: "store_Close c cl s = (e, m, evs', s')" for s cl e m evs' s'
  proof -
    have "held_after evs' h = - (if holds c h then 1 else 0)" for h
      using cl opened [OF r]
      by (cases h) (auto simp: store_Close_def Close_begin_def closeMirror_def holds_def Let_def split: if_splits option.splits)
    moreover have "sk_closed s'"
      using cl opened [OF r] by (auto simp: store_Close_def Close_begin_def Let_def)
    then have "store_Close c cl' s' = (Some ErrClosed, None, [], s')" for cl'
      by (simp add: store_Close_def Close_begin_def)
    ultimately show ?thesis using inr [OF r] by simp
  qed
  show ?thesis
    using open_result inr close by (auto split: sum.splits)
qed

definition sample_setup :: Config where
  "sample_setup = \<lparr>fp_FlushMaxRecords = 100, fp_FlushMaxBytes = 1000, fp_FlushInterval = 1000000000, fp_ZSTDLevel = 3,
     fp_MinFlushInterval = 0, cfg_StagingPath = ''s.db'', cfg_CatalogPath = ''c.db'', cfg_Endpoint = ''http://e'', cfg_Bucket = ''b'',
     cfg_WarehousePrefix = ''lake'', cfg_Region = '''', cfg_AccessKeyID = ''k'', cfg_SecretAccessKey = ''s'', cfg_Credentials = False,
     cfg_LocalOnly = False, cfg_CacheDir = ''/c'', cfg_CacheMaxBytes = 5000, cfg_CacheMaxAge = 0, cfg_FlushMaxAttempts = 0,
     cfg_RetryBaseDelay = 0, cfg_RetryMaxDelay = 0, cfg_ClickHouse = None, cfg_OnClickHouseError = True, cfg_StagingMaxRecords = 1000,
     cfg_StagingMaxBytes = 100000\<rparr>"

lemma sample_valid: "validate sample_setup = None"
  unfolding validate_None
  by (simp add: sample_setup_def mode_ok_def forbidden_def settings_ok_def flushSettings_def resolved_from_def cmpOrDefault_def
      DefaultMinFlushInterval_def retrySettings_def DefaultRetryBaseDelay_def DefaultRetryMaxDelay_def DefaultFlushMaxAttempts_def)

theorem store_lifecycle_witness:
  "\<exists>s evs. store_Open sample_setup \<lparr>ol_staging = None, ol_mirror = None, ol_catalogdb = None, ol_catalog = None\<rparr> sealed_store =
      (Inr s, evs, sealed_store) \<and> sk_records s = int (length (db_staging (st_db sealed_store))) \<and> held_after evs SweeperGoroutine = 1"
proof -
  let ?lib = "\<lparr>ol_staging = None, ol_mirror = None, ol_catalogdb = None, ol_catalog = None\<rparr>"
  have "\<not> split_batch (db_staging (st_db sealed_store))"
    by (simp add: split_batch_def sealed_store_sel staged_new_def)
  from Scan_nofault [OF sealed_store_sel(2) this] obtain ix where ix: "Scan sealed_store = (Inr ix, sealed_store)" by blast
  have "cfg_ClickHouse sample_setup = None" "\<not> cfg_LocalOnly sample_setup" "has_spool sample_setup"
    by (simp_all add: sample_setup_def has_spool_def)
  then obtain s evs where run: "store_Open sample_setup ?lib sealed_store = (Inr s, evs, sealed_store)"
    by (simp add: store_Open_def sample_valid ix open_catalog_def Let_def)
  have "holds sample_setup SweeperGoroutine"
    by (simp add: holds_def has_spool_def sample_setup_def)
  with store_lifecycle [OF run] run show ?thesis by auto
qed

end
