(* ===== verification/OpenWriter.thy ===== *)
theory OpenWriter
  imports StoreOpen
begin

text \<open>\<open>openWriter\<close> of \<open>writer.go\<close>: the claim of the table's slot, the backlog, the table, the staged rows, the mirror, and the
  writer that takes the slot over. The derivation is the plan's (\<open>Declare\<close> or \<open>OpenDynamicWriter\<close>); what other goroutines
  do to the registry before the slot changes hands is the parameter \<open>meanwhile\<close>.\<close>

record 'p writerPlan =
  wp_namespace :: string
  wp_table :: string
  wp_flush :: "FlushPolicy option"
  wp_mirrorTTL :: "MirrorTTL option"
  wp_derive :: "(error, 'p Declaration \<times> Descriptor) result"

record ('p, 'row) opened_writer =
  ow_decl :: "'p Declaration"
  ow_desc :: Descriptor
  ow_settings :: table_settings
  ow_retry :: Retry
  ow_mirror :: "mirror_table option"
  ow_writer :: "'row Writer"

record ('s, 'm) open_world =
  op_drain :: "'s drain_world"
  op_server :: 'm
  op_told :: "error list"

definition plan_id :: "'p writerPlan \<Rightarrow> TableID" where
  "plan_id p = \<lparr>tid_Namespace = wp_namespace p, tid_Table = wp_table p\<rparr>"

definition drain_settings_of :: "Config \<Rightarrow> drain_config" where
  "drain_settings_of c = \<lparr>dr_Bucket = cfg_Bucket c, dr_Prefix = cfg_WarehousePrefix c, dr_LocalOnly = cfg_LocalOnly c, dr_Spool = has_spool c\<rparr>"

text \<open>The two reads of staging, on the store's database.\<close>

definition open_staged :: "'p writerPlan \<Rightarrow> Descriptor \<Rightarrow> flush_world \<Rightarrow> (flush_fail, PendingBatch list) result \<times> flush_world" where
  "open_staged p desc = fl_bind (staging_op (pendingFor (wp_namespace p) (wp_table p))) (\<lambda>pending.
     fl_bind (staging_op (checkPendingShapes (wp_table p) desc pending)) (\<lambda>_. fl_ret pending))"

text \<open>Everything under the claim, up to the writer that is about to take the slot.\<close>

definition open_claimed :: "('t, 's) catalog_lib \<Rightarrow> 'p derivation \<Rightarrow> Config \<Rightarrow> ('m driver_Conn \<times> string) option \<Rightarrow> 'p writerPlan \<Rightarrow>
    ('s, 'm) open_world \<Rightarrow> (error, ('p, 'row) opened_writer \<times> PendingBatch list) result \<times> ('s, 'm) open_world" where
  "open_claimed cat lib c conn p W =
    (case validateTable c (wp_flush p) of
       Some e \<Rightarrow> (Inl e, W)
     | None \<Rightarrow>
     (case wp_derive p of
       Inl e \<Rightarrow> (Inl e, W)
     | Inr (decl, desc) \<Rightarrow>
     (case on_table (plan_id p) (drainTable cat lib (drain_settings_of c) (wp_namespace p) (wp_table p)) (op_drain W) of
       (Some e, D) \<Rightarrow> (Inl e, W\<lparr>op_drain := D\<rparr>)
     | (None, D) \<Rightarrow>
     (case (if cfg_LocalOnly c then (None, dw_cat D)
            else case openTable cat (cfg_Bucket c) (cfg_WarehousePrefix c) decl (dw_cat D) of
              (Inl e, s) \<Rightarrow> (Some e, s) | (Inr _, s) \<Rightarrow> (None, s)) of
       (Some e, s) \<Rightarrow> (Inl e, W\<lparr>op_drain := D\<lparr>dw_cat := s\<rparr>\<rparr>)
     | (None, s) \<Rightarrow>
     (case open_staged p desc (dw_flush D) of
       (Inl e, w) \<Rightarrow> (Inl (plain_error e), W\<lparr>op_drain := D\<lparr>dw_cat := s, dw_flush := w\<rparr>\<rparr>)
     | (Inr pending, w) \<Rightarrow>
     (case mirrorFor (cfg_OnClickHouseError c) conn (wp_namespace p) (wp_table p) desc (wp_mirrorTTL p) (op_server W) of
       (r, reported, m) \<Rightarrow>
         let W' = W\<lparr>op_drain := D\<lparr>dw_cat := s, dw_flush := w\<rparr>, op_server := m,
           op_told := op_told W @ (case reported of None \<Rightarrow> [] | Some e \<Rightarrow> [e])\<rparr> in
         (case r of
            Inl e \<Rightarrow> (Inl e, W')
          | Inr mirror_t \<Rightarrow>
              (Inr (\<lparr>ow_decl = decl, ow_desc = desc, ow_settings = flushSettings c (wp_flush p), ow_retry = retrySettings c,
                 ow_mirror = mirror_t, ow_writer = new_writer (fw_now w)\<rparr>, pending), W'))))))))"

definition on_registry :: "(Store \<Rightarrow> Store) \<Rightarrow> ('s, 'm) open_world \<Rightarrow> ('s, 'm) open_world" where
  "on_registry f W = W\<lparr>op_drain := (op_drain W)\<lparr>dw_registry := f (dw_registry (op_drain W))\<rparr>\<rparr>"

definition openWriter :: "('t, 's) catalog_lib \<Rightarrow> 'p derivation \<Rightarrow> Config \<Rightarrow> ('m driver_Conn \<times> string) option \<Rightarrow> (Store \<Rightarrow> Store) \<Rightarrow>
    'p writerPlan \<Rightarrow> ('s, 'm) open_world \<Rightarrow> (error, ('p, 'row) opened_writer) result \<times> ('s, 'm) open_world" where
  "openWriter cat lib c conn meanwhile p W =
    (case claimTable (wp_namespace p) (wp_table p) (dw_registry (op_drain W)) of
       (Some e, r) \<Rightarrow> (Inl e, on_registry (\<lambda>_. r) W)
     | (None, r) \<Rightarrow>
     (case open_claimed cat lib c conn p (on_registry (\<lambda>_. r) W) of
       (Inl e, W1) \<Rightarrow> (Inl e, on_registry (releaseTable (wp_namespace p) (wp_table p)) W1)
     | (Inr (opened_w, pending), W1) \<Rightarrow>
     (case swapClaim liveWriter (wp_namespace p) (wp_table p) (meanwhile (dw_registry (op_drain W1))) of
       (Some e, r') \<Rightarrow> (Inl e, on_registry (releaseTable (wp_namespace p) (wp_table p)) (on_registry (\<lambda>_. r') W1))
     | (None, r') \<Rightarrow>
         (Inr (opened_w\<lparr>ow_writer := replay pending (ow_writer opened_w)\<rparr>), on_registry (\<lambda>_. r') W1))))"

section \<open>The slot\<close>

lemma on_registry_sel [simp]:
  "dw_registry (op_drain (on_registry f W)) = f (dw_registry (op_drain W))" "dw_cat (op_drain (on_registry f W)) = dw_cat (op_drain W)"
  "dw_flush (op_drain (on_registry f W)) = dw_flush (op_drain W)" "dw_snapshots (op_drain (on_registry f W)) = dw_snapshots (op_drain W)"
  "op_server (on_registry f W) = op_server W" "op_told (on_registry f W) = op_told W"
  by (simp_all add: on_registry_def)

lemma on_table_registry: "on_table t m D = (e, D') \<Longrightarrow> dw_registry D' = dw_registry D"
  by (auto simp: on_table_def split: prod.splits)

end
