(* ===== verification/OpenClaims.thy ===== *)
theory OpenClaims
  imports OpenWriter
begin

text \<open>What an opened writer may rely on, and what a failed open leaves behind.\<close>

section \<open>The rows handed over\<close>

abbreviation pending_rows :: "PendingBatch list \<Rightarrow> PendingRow list" where
  "pending_rows bs \<equiv> concat (map pb_Rows bs)"

lemma Pending_replay:
  "Pending (replay bs w) = (fst (Pending w) + int (length (pending_rows bs)), snd (Pending w) + sum_list (map pr_ByteLen (pending_rows bs)))"
  by (induction bs w rule: replay.induct) (auto simp: Pending_def Let_def)

lemma mset_grouped:
  assumes "distinct ks" "set (map key xs) \<subseteq> set ks"
  shows "mset (concat (map (\<lambda>k. filter (\<lambda>x. key x = k) xs) ks)) = mset xs"
  using assms
proof (induction ks arbitrary: xs)
  case (Cons k ks)
  have same: "map (\<lambda>j. filter (\<lambda>x. key x = j) xs) ks = map (\<lambda>j. filter (\<lambda>x. key x = j) (filter (\<lambda>x. key x \<noteq> k) xs)) ks"
    using Cons.prems(1) by (auto simp: intro!: filter_cong)
  have "mset (concat (map (\<lambda>j. filter (\<lambda>x. key x = j) xs) ks)) = mset (filter (\<lambda>x. key x \<noteq> k) xs)"
    unfolding same using Cons.prems by (intro Cons.IH) auto
  then show ?case
    using multiset_partition [of "mset xs" "\<lambda>x. key x = k"] by simp
qed simp

lemma pendingBatches_rows:
  assumes "Scan s = (Inr ix, s')"
  shows "mset (pending_rows (pendingBatches ns tbl ix)) =
    mset (map pending_row (live_rows \<lparr>tid_Namespace = ns, tid_Table = tbl\<rparr> (db_staging (st_db s))))"
proof -
  let ?live = "live_rows \<lparr>tid_Namespace = ns, tid_Table = tbl\<rparr> (db_staging (st_db s))"
  let ?ks = "firsts (map key_of ?live)"
  have groups: "mset (pending_rows (filter P bs @ filter (\<lambda>b. \<not> P b) bs)) = mset (pending_rows bs)" for P and bs :: "PendingBatch list"
    by (induction bs) auto
  have "pending_rows (map (batch_with ?live) ?ks) = map pending_row (concat (map (\<lambda>k. filter (\<lambda>r. key_of r = k) ?live) ?ks))"
    by (simp add: map_concat batch_with_def comp_def)
  then have "mset (pending_rows (map (batch_with ?live) ?ks)) = mset (map pending_row ?live)"
    using mset_grouped [of ?ks key_of ?live] by (simp add: mset_map)
  moreover have "pendingBatches ns tbl ix = (if ?live = [] then [] else
      filter (\<lambda>b. pb_Key b \<noteq> []) (map (batch_with ?live) ?ks) @ filter (\<lambda>b. \<not> pb_Key b \<noteq> []) (map (batch_with ?live) ?ks))"
    using Scan_Inr(4) [OF assms, of "\<lparr>tid_Namespace = ns, tid_Table = tbl\<rparr>"] by (simp add: pendingBatches_def table_batches_def Let_def)
  ultimately show ?thesis
    using groups [of "\<lambda>b. pb_Key b \<noteq> []" "map (batch_with ?live) ?ks"] by auto
qed

section \<open>The shapes checked\<close>

definition shape_fits :: "string \<Rightarrow> Descriptor \<Rightarrow> db \<Rightarrow> string \<Rightarrow> bool" where
  "shape_fits name desc d fp \<longleftrightarrow> fp = d_fp desc \<or>
    (\<exists>b old. fst (q_GetSchema fp d) = Some b \<and> ParseDescriptor b = Inr old \<and> CompatibleShapes name old desc = None)"

lemma Schema_result:
  assumes "Schema fp s = (r, s')"
  shows "st_db s' = st_db s \<and> (\<forall>old. r = Inr old \<longrightarrow> (\<exists>b. fst (q_GetSchema fp (st_db s)) = Some b \<and> ParseDescriptor b = Inr old))"
  using assms by (auto simp: Schema_def op_bind_def staging_wrap_def op_wrap_def stmt_def q_GetSchema_def staging_fail_def
      op_fail_def op_lift_def split: list.splits option.splits sum.splits)

lemma check_shapes_result:
  assumes "check_shapes name desc seen rows s = (r, s')"
  shows "st_db s' = st_db s \<and> (r = Inr () \<longrightarrow> (\<forall>fp\<in>set seen. shape_fits name desc (st_db s) fp) \<longrightarrow>
    (\<forall>row\<in>set rows. shape_fits name desc (st_db s) (pr_SchemaFP row)))"
  using assms
proof (induction name desc seen rows arbitrary: s rule: check_shapes.induct)
  case (2 name desc seen row rows)
  show ?case
  proof (cases "pr_SchemaFP row = d_fp desc \<or> pr_SchemaFP row \<in> set seen")
    case True
    with "2.prems" have "check_shapes name desc seen rows s = (r, s')" by simp
    from "2.IH"(1) [OF True this] True show ?thesis by (auto simp: shape_fits_def)
  next
    case False
    obtain q s1 where q: "Schema (pr_SchemaFP row) s = (q, s1)" by fastforce
    note sr = Schema_result [OF q]
    show ?thesis
    proof (cases q)
      case (Inl e)
      with "2.prems" False q sr show ?thesis by (auto simp: op_bind_def)
    next
      case (Inr old)
      show ?thesis
      proof (cases "CompatibleShapes name old desc")
        case (Some e)
        with "2.prems" False q sr Inr show ?thesis by (auto simp: op_bind_def op_lift_def)
      next
        case None
        then have step: "check_shapes name desc (pr_SchemaFP row # seen) rows s1 = (r, s')"
          using "2.prems" False q Inr by (auto simp: op_bind_def op_lift_def)
        have "shape_fits name desc (st_db s) (pr_SchemaFP row)"
          using sr Inr None by (auto simp: shape_fits_def)
        with "2.IH"(2) [OF False step] sr show ?thesis by auto
      qed
    qed
  qed
qed (simp add: op_ret_def)

section \<open>Under the claim\<close>

lemma open_staged_result:
  assumes "open_staged p desc w = (r, w')"
  shows "drained K cfg ns tbl w w' \<and> fw_catalog w' = fw_catalog w \<and> st_db (fw_store w') = st_db (fw_store w) \<and> (\<forall>pending. r = Inr pending \<longrightarrow>
    mset (pending_rows pending) = mset (map pending_row (live_rows (plan_id p) (db_staging (st_db (fw_store w))))) \<and>
    (\<forall>row\<in>set (live_rows (plan_id p) (db_staging (st_db (fw_store w)))). shape_fits (wp_table p) desc (st_db (fw_store w)) (sr_schema_fp row)))"
proof -
  let ?live = "live_rows (plan_id p) (db_staging (st_db (fw_store w)))"
  obtain q1 w1 where q1: "spool_op (db_op (pendingFor (wp_namespace p) (wp_table p))) w = (q1, w1)" by fastforce
  obtain q s1 where q: "Scan (fw_store w) = (q, s1)" by fastforce
  have db1: "st_db s1 = st_db (fw_store w)"
    using q by (auto simp: Scan_def op_bind_def op_ret_def staging_wrap_def op_wrap_def stmt_def
        q_ScanStagedRows_def staging_fail_def op_fail_def Let_def split: list.splits option.splits if_splits)
  have w1: "w1 = w\<lparr>fw_spool := (fw_spool w)\<lparr>sp_store := s1\<rparr>\<rparr>"
    using q1 q by (auto simp: spool_op_def db_op_def pendingFor_def op_bind_def op_ret_def split: sum.splits)
  have d1: "drained K cfg ns tbl w w1" by (intro drained_calm) (simp_all add: w1 db1)
  show ?thesis
  proof (cases q1)
    case (Inl e)
    then have "w' = w1" "r = Inl e"
      using assms q1 by (simp_all add: open_staged_def staging_op_def fl_bind_def)
    with d1 show ?thesis by (simp add: w1 db1)
  next
    case (Inr pending)
    then obtain ix where ix: "Scan (fw_store w) = (Inr ix, s1)" "pending = pendingBatches (wp_namespace p) (wp_table p) ix"
      using q1 q by (auto simp: spool_op_def db_op_def pendingFor_def op_bind_def op_ret_def Claim_def split: sum.splits)
    have rows: "mset (pending_rows pending) = mset (map pending_row ?live)"
      using pendingBatches_rows [OF ix(1)] by (simp add: ix(2) plan_id_def)
    obtain q2 w2 where q2: "spool_op (db_op (checkPendingShapes (wp_table p) desc pending)) w1 = (q2, w2)" by fastforce
    obtain q3 s2 where q3: "check_shapes (wp_table p) desc [] (pending_rows pending) s1 = (q3, s2)" by fastforce
    note ch = check_shapes_result [OF q3]
    have w2: "w2 = w1\<lparr>fw_spool := (fw_spool w1)\<lparr>sp_store := s2\<rparr>\<rparr>" "(\<exists>x. q2 = Inr x) \<longleftrightarrow> q3 = Inr ()"
      using q2 q3 by (auto simp: spool_op_def db_op_def checkPendingShapes_def w1 split: sum.splits)
    have d2: "drained K cfg ns tbl w w2"
      by (rule drained_trans [OF d1], rule drained_calm) (simp_all add: w2(1) w1 ch)
    have res: "w' = w2" "\<forall>x. r = Inr x \<longrightarrow> x = pending \<and> q3 = Inr ()"
      using assms q1 Inr q2 w2(2) by (auto simp: open_staged_def staging_op_def fl_bind_def fl_ret_def split: sum.splits)
    have "shape_fits (wp_table p) desc (st_db (fw_store w)) (sr_schema_fp row)" if ok: "q3 = Inr ()" "row \<in> set ?live" for row
    proof -
      have "pending_row row \<in> set (pending_rows pending)"
        using ok(2) mset_eq_setD [OF rows] by auto
      then have "shape_fits (wp_table p) desc (st_db s1) (pr_SchemaFP (pending_row row))"
        using ch ok(1) by fastforce
      then show ?thesis by (simp add: db1 pending_row_def)
    qed
    with res rows d2 show ?thesis by (auto simp: w2(1) w1 ch db1)
  qed
qed

text \<open>What an open that succeeds has done: the settings accepted, the shape derived, the drain of the table run to its end on
  the table's snapshot (all of its backlog but what is staged is committed then, and nothing else), the table loaded and
  checked in the catalog the drain left, every staged shape readable, and a mirror exactly where there is a connection.\<close>

definition open_prepared :: "('t, 's) catalog_lib \<Rightarrow> 'p derivation \<Rightarrow> Config \<Rightarrow> ('m driver_Conn \<times> string) option \<Rightarrow> 'p writerPlan \<Rightarrow>
    ('p, 'row) opened_writer \<Rightarrow> ('s, 'm) open_world \<Rightarrow> ('s, 'm) open_world \<Rightarrow> bool" where
  "open_prepared cat lib c conn p ow W W' \<longleftrightarrow>
    (let t = plan_id p; w0 = (dw_flush (op_drain W))\<lparr>fw_catalog := dw_snapshots (op_drain W) t\<rparr>;
         w = dw_flush (op_drain W'); db = st_db (fw_store w);
         K = backlog_keys (wp_namespace p) (wp_table p) (st_db (fw_store w0)) - staged_keys (wp_namespace p) (wp_table p) (st_db (fw_store w0)) in
     validateTable c (wp_flush p) = None \<and> wp_derive p = Inr (ow_decl ow, ow_desc ow) \<and>
     ow_settings ow = flushSettings c (wp_flush p) \<and> (ow_mirror ow = None \<longleftrightarrow> conn = None) \<and>
     (\<exists>s wd. drainTable cat lib (drain_settings_of c) (wp_namespace p) (wp_table p) (dw_cat (op_drain W), w0) = (None, s, wd) \<and>
        dw_snapshots (op_drain W') t = fw_catalog wd \<and>
        (if cfg_LocalOnly c then dw_cat (op_drain W') = s
         else \<exists>tbl. openTable cat (cfg_Bucket c) (cfg_WarehousePrefix c) (ow_decl ow) s = (Inr tbl, dw_cat (op_drain W')))) \<and>
     drained K (drain_settings_of c) (wp_namespace p) (wp_table p) w0 w \<and>
     (has_spool c \<and> \<not> cfg_LocalOnly c \<longrightarrow>
        (\<forall>k\<in>K. DataURI (cfg_Bucket c) (cfg_WarehousePrefix c) (wp_namespace p) (wp_table p) k
           \<in> set (data_files (dw_snapshots (op_drain W') t)))) \<and>
     (\<forall>row\<in>set (live_rows t (db_staging db)). shape_fits (wp_table p) (ow_desc ow) db (sr_schema_fp row)))"

lemma mirrorFor_None: "mirrorFor hook conn ns tbl desc ttl m = (Inr mt, reported, m') \<Longrightarrow> mt = None \<longleftrightarrow> conn = None"
  by (auto simp: mirrorFor_def split: option.splits sum.splits prod.splits if_splits error.splits)

lemma open_claimed_registry:
  assumes "open_claimed cat lib c conn p W = (r, W')"
  shows "dw_registry (op_drain W') = dw_registry (op_drain W)"
  using assms by (auto simp: open_claimed_def Let_def split: option.splits sum.splits prod.splits if_splits dest: on_table_registry)

lemma open_claimed_result:
  assumes "open_claimed cat lib c conn p W = (Inr (ow, pending), W')"
  shows "open_prepared cat lib c conn p ow W W' \<and> (\<exists>now. ow_writer ow = new_writer now) \<and>
    mset (pending_rows pending) = mset (map pending_row (live_rows (plan_id p) (db_staging (st_db (fw_store (dw_flush (op_drain W')))))))"
proof -
  have v: "validateTable c (wp_flush p) = None" using assms by (auto simp: open_claimed_def split: option.splits)
  with assms obtain decl desc where dv: "wp_derive p = Inr (decl, desc)"
    by (auto simp: open_claimed_def split: sum.splits)
  obtain e D where D: "on_table (plan_id p) (drainTable cat lib (drain_settings_of c) (wp_namespace p) (wp_table p)) (op_drain W) = (e, D)"
    by fastforce
  obtain e2 s where s: "(if cfg_LocalOnly c then (None, dw_cat D)
      else case openTable cat (cfg_Bucket c) (cfg_WarehousePrefix c) decl (dw_cat D) of
        (Inl e, s) \<Rightarrow> (Some e, s) | (Inr _, s) \<Rightarrow> (None, s)) = (e2, s)" by fastforce
  obtain q w where q: "open_staged p desc (dw_flush D) = (q, w)" by fastforce
  obtain mt reported m where m: "mirrorFor (cfg_OnClickHouseError c) conn (wp_namespace p) (wp_table p) desc (wp_mirrorTTL p) (op_server W) =
      (mt, reported, m)"
    by (cases "mirrorFor (cfg_OnClickHouseError c) conn (wp_namespace p) (wp_table p) desc (wp_mirrorTTL p) (op_server W)") auto
  have ok: "e = None" "e2 = None"
    using assms v dv D s by (auto simp: open_claimed_def split: option.splits)
  obtain staged where st: "q = Inr staged"
    using assms v dv D s q ok by (cases q) (auto simp: open_claimed_def)
  obtain target where mt: "mt = Inr target"
    using assms v dv D s q ok st m by (cases mt) (auto simp: open_claimed_def Let_def)
  have W': "op_drain W' = D\<lparr>dw_cat := s, dw_flush := w\<rparr>" "pending = staged"
    "ow = \<lparr>ow_decl = decl, ow_desc = desc, ow_settings = flushSettings c (wp_flush p), ow_retry = retrySettings c,
       ow_mirror = target, ow_writer = new_writer (fw_now w)\<rparr>"
    using assms by (auto simp: open_claimed_def v dv D s [unfolded ok(2)] q ok st m mt Let_def)
  let ?w0 = "(dw_flush (op_drain W))\<lparr>fw_catalog := dw_snapshots (op_drain W) (plan_id p)\<rparr>"
  let ?K = "drain_keys (wp_namespace p) (wp_table p) (st_db (fw_store ?w0))"
  obtain sd wd where run: "drainTable cat lib (drain_settings_of c) (wp_namespace p) (wp_table p) (dw_cat (op_drain W), ?w0) = (None, sd, wd)"
    "D = (op_drain W)\<lparr>dw_cat := sd, dw_flush := wd, dw_snapshots := (dw_snapshots (op_drain W))(plan_id p := fw_catalog wd)\<rparr>"
    using D ok(1) by (auto simp: on_table_def split: prod.splits)
  note drain = drainTable_drained [OF run(1) refl]
  note r = open_staged_result [OF q, where K = ?K and cfg = "drain_settings_of c" and ns = "wp_namespace p" and tbl = "wp_table p"]
  have d2: "drained ?K (drain_settings_of c) (wp_namespace p) (wp_table p) ?w0 w"
    using drained_trans [OF drain(1)] conjunct1 [OF r] by (simp add: run(2))
  have tbl: "if cfg_LocalOnly c then s = sd else \<exists>tbl. openTable cat (cfg_Bucket c) (cfg_WarehousePrefix c) decl sd = (Inr tbl, s)"
    using s ok(2) run(2) by (auto split: if_splits sum.splits prod.splits)
  have keys: "has_spool c \<and> \<not> cfg_LocalOnly c \<longrightarrow>
      (\<forall>k\<in>?K. DataURI (cfg_Bucket c) (cfg_WarehousePrefix c) (wp_namespace p) (wp_table p) k \<in> set (data_files (fw_catalog wd)))"
    using drain(2) by (simp add: drain_settings_of_def)
  from r st have rows: "mset (pending_rows staged) = mset (map pending_row (live_rows (plan_id p) (db_staging (st_db (fw_store w)))))"
    "\<forall>row\<in>set (live_rows (plan_id p) (db_staging (st_db (fw_store w)))). shape_fits (wp_table p) desc (st_db (fw_store w)) (sr_schema_fp row)"
    by auto
  have sel: "dw_cat (op_drain W') = s" "dw_flush (op_drain W') = w" "dw_snapshots (op_drain W') (plan_id p) = fw_catalog wd"
    by (simp_all add: W' run(2))
  have "open_prepared cat lib c conn p ow W W'"
    unfolding open_prepared_def Let_def sel
    using v dv d2 tbl rows(2) keys run(1) mirrorFor_None [OF m [unfolded mt]] by (auto simp: W' drain_keys_def)
  then show ?thesis
    using rows(1) by (auto simp: W')
qed

section \<open>Properties\<close>

lemma openWriter_cases:
  fixes r :: "(error, ('p, 'row) opened_writer) result"
  assumes "openWriter cat lib c conn meanwhile p W = (r, W')"
  obtains (busy) e where "r = Inl e" "dw_registry (op_drain W') = dw_registry (op_drain W)"
  | (stopped) e where "r = Inl e" "sk_writers (dw_registry (op_drain W)) (plan_id p) = None"
      "sk_writers (dw_registry (op_drain W')) (plan_id p) = None"
  | (opened) ow pending V W1 where "r = Inr (ow\<lparr>ow_writer := replay pending (ow_writer ow)\<rparr>)"
      "open_claimed cat lib c conn p (on_registry (\<lambda>_. V) W) = (Inr (ow, pending), W1)"
      "\<not> sk_closed (dw_registry (op_drain W))" "sk_writers (dw_registry (op_drain W)) (plan_id p) = None"
      "sk_writers (dw_registry (op_drain W')) (plan_id p) = Some liveWriter" "\<exists>f. W' = on_registry f W1"
proof -
  let ?R = "dw_registry (op_drain W)"
  show ?thesis
  proof (cases "sk_closed ?R \<or> sk_writers ?R (plan_id p) \<noteq> None")
    case True
    then obtain e where "claimTable (wp_namespace p) (wp_table p) ?R = (Some e, ?R)"
      by (cases "sk_closed ?R") (auto simp: claimTable_def attach_def plan_id_def)
    with assms have "r = Inl e" "dw_registry (op_drain W') = ?R" by (auto simp: openWriter_def)
    then show ?thesis by (rule busy)
  next
    case False
    then obtain V where V: "claimTable (wp_namespace p) (wp_table p) ?R = (None, V)"
      by (auto simp: claimTable_def attach_def plan_id_def)
    obtain q :: "(error, ('p, 'row) opened_writer \<times> PendingBatch list) result" and W1
      where q: "open_claimed cat lib c conn p (on_registry (\<lambda>_. V) W) = (q, W1)" by fastforce
    show ?thesis
    proof (cases q)
      case (Inl e)
      with assms V q have "r = Inl e" "sk_writers (dw_registry (op_drain W')) (plan_id p) = None"
        by (auto simp: openWriter_def releaseTable_def detach_def plan_id_def)
      with False stopped show ?thesis by auto
    next
      case (Inr x)
      then obtain ow pending where x: "q = Inr (ow, pending)" by (cases x) auto
      show ?thesis
      proof (cases "sk_closed (meanwhile (dw_registry (op_drain W1)))")
        case True
        with assms V q x have "r = Inl ErrClosed" "sk_writers (dw_registry (op_drain W')) (plan_id p) = None"
          by (auto simp: openWriter_def swapClaim_def releaseTable_def detach_def plan_id_def)
        with False stopped show ?thesis by auto
      next
        case open_store: False
        show ?thesis
        proof (rule opened [OF _ q [unfolded x]])
          show "r = Inr (ow\<lparr>ow_writer := replay pending (ow_writer ow)\<rparr>)"
            "sk_writers (dw_registry (op_drain W')) (plan_id p) = Some liveWriter"
            using assms V q x open_store by (auto simp: openWriter_def swapClaim_def plan_id_def)
          show "\<exists>f. W' = on_registry f W1"
            using assms V q x open_store by (auto simp: openWriter_def swapClaim_def)
        qed (use False in auto)
      qed
    qed
  qed
qed

lemma open_prepared_registry [simp]:
  "open_prepared cat lib c conn p ow (on_registry f W) W' = open_prepared cat lib c conn p ow W W'"
  "open_prepared cat lib c conn p ow W (on_registry f W') = open_prepared cat lib c conn p ow W W'"
  "open_prepared cat lib c conn p (ow\<lparr>ow_writer := wr\<rparr>) W W' = open_prepared cat lib c conn p ow W W'"
  by (simp_all add: open_prepared_def)

text \<open>C35: Opening a writer holds the table's slot for exactly as long as it may. Whatever fails, an open that ends in an error
  leaves the slot as it found it: the owner that was there, or nobody. An open that succeeds found the slot free and
  the store open, and its writer is the owner now. The settings were accepted and the shape derived; the drain of the table
  ran to its end: with a spool and a bucket every batch of its backlog that is not staged is in the table, and nothing else
  was committed, no local file and no staged row changed; then the table was loaded and checked in the catalog the drain left,
  unless the store is local-only; a mirror is present exactly when a connection is; each staged row of the table has
  a shape the new one reads, and the writer starts with all of them pending: as many records and as many bytes as staging
  holds for the table.\<close>

theorem opened_writer_ready:
  assumes "openWriter cat lib c conn meanwhile p W = (r, W')"
  shows "case r of
    Inl e \<Rightarrow> sk_writers (dw_registry (op_drain W')) (plan_id p) = sk_writers (dw_registry (op_drain W)) (plan_id p)
  | Inr ow \<Rightarrow> \<not> sk_closed (dw_registry (op_drain W)) \<and> sk_writers (dw_registry (op_drain W)) (plan_id p) = None \<and>
      sk_writers (dw_registry (op_drain W')) (plan_id p) = Some liveWriter \<and> open_prepared cat lib c conn p ow W W' \<and>
      (let live = live_rows (plan_id p) (db_staging (st_db (fw_store (dw_flush (op_drain W'))))) in
       Pending (ow_writer ow) = (int (length live), sum_list (map sr_byte_len live)))"
  using assms
proof (cases rule: openWriter_cases)
  case (opened ow pending V W1)
  let ?live = "live_rows (plan_id p) (db_staging (st_db (fw_store (dw_flush (op_drain W1)))))"
  note res = open_claimed_result [OF opened(2)]
  from res have rows: "mset (pending_rows pending) = mset (map pending_row ?live)" by blast
  then have "length (pending_rows pending) = length ?live" by (metis length_map size_mset)
  moreover have "sum_list (map pr_ByteLen (pending_rows pending)) = sum_list (map sr_byte_len ?live)"
    using arg_cong [OF rows, of "\<lambda>m. sum_mset (image_mset pr_ByteLen m)"]
    by (simp add: sum_mset_sum_list [symmetric] pending_row_def comp_def flip: mset_map)
  moreover have "Pending (ow_writer ow) = (0, 0)" using res by (auto simp: Pending_def new_writer_def)
  ultimately have "Pending (replay pending (ow_writer ow)) = (int (length ?live), sum_list (map sr_byte_len ?live))"
    by (simp add: Pending_replay)
  with res opened show ?thesis by auto
qed simp_all

section \<open>A table reopened with two staged rows\<close>

definition reopen_plan :: "unit writerPlan" where
  "reopen_plan = \<lparr>wp_namespace = ''ns'', wp_table = ''t'', wp_flush = None, wp_mirrorTTL = None,
     wp_derive = Inr (drain_declaration, sample_descriptor)\<rparr>"

definition reopened_world :: "(memory_table option, unit) open_world" where
  "reopened_world = \<lparr>op_drain = \<lparr>dw_registry = \<lparr>sk_MaxRecords = 10, sk_MaxBytes = 10, sk_records = 2, sk_bytes = 2,
       sk_writers = Map.empty, sk_closed = False\<rparr>,
     dw_cat = None, dw_flush = drain_sample\<lparr>fw_spool := (fw_spool drain_sample)\<lparr>sp_store := sealed_store\<rparr>\<rparr>,
     dw_snapshots = Map.empty\<rparr>, op_server = (), op_told = []\<rparr>"

lemma check_shapes_same: "\<forall>row\<in>set rows. pr_SchemaFP row = d_fp desc \<Longrightarrow> check_shapes name desc seen rows s = (Inr (), s)"
  by (induction rows) (simp_all add: op_ret_def)

lemma sealed_rows:
  "live_rows (plan_id reopen_plan) (db_staging (st_db sealed_store)) = db_staging (st_db sealed_store)"
  "\<forall>row\<in>set (db_staging (st_db sealed_store)). sr_schema_fp row = d_fp sample_descriptor"
  by (simp_all add: sealed_store_sel live_rows_def table_of_def plan_id_def reopen_plan_def staged_new_def sample_append_def)

lemma reopened_staged: "\<exists>pending. open_staged reopen_plan sample_descriptor (dw_flush (op_drain reopened_world)) =
    (Inr pending, dw_flush (op_drain reopened_world))"
proof -
  have "\<not> split_batch (db_staging (st_db sealed_store))"
    by (simp add: split_batch_def sealed_store_sel staged_new_def)
  from Scan_nofault [OF sealed_store_sel(2) this] obtain ix where ix: "Scan sealed_store = (Inr ix, sealed_store)" by blast
  have "mset (pending_rows (pendingBatches ''ns'' ''t'' ix)) = mset (map pending_row (db_staging (st_db sealed_store)))"
    using pendingBatches_rows [OF ix, of "''ns''" "''t''"] sealed_rows(1) by (simp add: plan_id_def reopen_plan_def)
  from mset_eq_setD [OF this] have "\<forall>row\<in>set (pending_rows (pendingBatches ''ns'' ''t'' ix)). pr_SchemaFP row = d_fp sample_descriptor"
    using sealed_rows(2) by (auto simp: pending_row_def)
  from check_shapes_same [OF this] show ?thesis
    by (simp add: open_staged_def staging_op_def fl_bind_def fl_ret_def spool_op_def db_op_def pendingFor_def op_bind_def op_ret_def
        Claim_def checkPendingShapes_def reopened_world_def reopen_plan_def ix)
qed

lemma reopened_opens: "\<exists>(ow :: (unit, unit) opened_writer) W'.
    openWriter memory_catalog sample_derivation (sample_setup\<lparr>cfg_LocalOnly := True\<rparr>) None (\<lambda>s. s) reopen_plan reopened_world = (Inr ow, W') \<and>
    dw_flush (op_drain W') = dw_flush (op_drain reopened_world)"
proof -
  obtain pending where st: "open_staged reopen_plan sample_descriptor (dw_flush (op_drain reopened_world)) =
      (Inr pending, dw_flush (op_drain reopened_world))"
    using reopened_staged by blast
  have same: "(dw_flush (op_drain reopened_world))\<lparr>fw_catalog := None\<rparr> = dw_flush (op_drain reopened_world)"
    by (simp add: reopened_world_def drain_sample_def)
  have sel: "wp_flush reopen_plan = None" "wp_derive reopen_plan = Inr (drain_declaration, sample_descriptor)"
    "sk_writers (dw_registry (op_drain reopened_world)) = Map.empty" "\<not> sk_closed (dw_registry (op_drain reopened_world))"
    "dw_snapshots (op_drain reopened_world) = Map.empty"
    by (simp_all add: reopen_plan_def reopened_world_def)
  show ?thesis
    by (simp add: openWriter_def claimTable_def attach_def swapClaim_def open_claimed_def sel validateTable_def on_table_def
        drainTable_def drain_settings_of_def same st mirrorFor_def Let_def)
qed

theorem opened_writer_ready_witness:
  "\<exists>(ow :: (unit, unit) opened_writer) W'.
    openWriter memory_catalog sample_derivation (sample_setup\<lparr>cfg_LocalOnly := True\<rparr>) None (\<lambda>s. s) reopen_plan reopened_world = (Inr ow, W') \<and>
    Pending (ow_writer ow) = (2, 3)"
proof -
  obtain ow :: "(unit, unit) opened_writer" and W' where run:
    "openWriter memory_catalog sample_derivation (sample_setup\<lparr>cfg_LocalOnly := True\<rparr>) None (\<lambda>s. s) reopen_plan reopened_world = (Inr ow, W')"
    "dw_flush (op_drain W') = dw_flush (op_drain reopened_world)"
    using reopened_opens by blast
  have db: "st_db (fw_store (dw_flush (op_drain W'))) = st_db sealed_store"
    by (simp add: run(2) reopened_world_def)
  have "Pending (ow_writer ow) = (2, 3)"
    using opened_writer_ready [OF run(1)] by (simp add: db sealed_rows(1)) (simp add: sealed_store_sel staged_new_def sample_append_def)
  with run(1) show ?thesis by blast
qed

end
