(* ===== verification/Spec2Isabelle.thy ===== *)
theory Spec2Isabelle
  imports IngestClaims OpenClaims
begin

text \<open>A verification development for icelake, a Go library that accepts records, stages them in a
  local SQLite database, and turns them into committed Iceberg data files exactly once.

  The program's parts and how they meet. A caller hands a record to a table's \<^emph>\<open>writer\<close> (\<open>writer.go\<close>), which
  binds it to the table's columns, refuses what a column cannot represent (\<open>poison.go\<close>), encodes it in
  the canonical form of its \<^emph>\<open>recorded shape\<close> (\<open>internal/canon\<close>), charges it against the ceiling of the
  \<^emph>\<open>store\<close> (\<open>store.go\<close>) and appends it to the \<^emph>\<open>staging database\<close> (\<open>internal/staging\<close>). A threshold, the timer, a
  flush or a close seals the writer's batch and queues it at the table's \<^emph>\<open>flush worker\<close> (\<open>internal/flush\<close>), whose
  goroutine rereads the rows, names the batch by the hash of its content, writes the Parquet file to the
  optional \<^emph>\<open>local cache\<close> (\<open>internal/spool\<close>), uploads it, commits it to the Iceberg table and deletes
  the rows; what cannot be encoded is quarantined, what fails otherwise is retried. The worker's callbacks
  give back the charge. An open replays what an earlier run left staged.

  The theories, in import order, with the source files they model:

  \<^item> \<open>Prelude\<close>: octets, Go's \<open>error\<close> results, \<open>int64\<close> wrap-around, byte orders, list lemmas.
  \<^item> \<open>ErrDef\<close> (\<open>internal/errdef/errdef.go\<close>): every error type, its constructor and \<open>Unwrap\<close>; \<open>errors.Is\<close> and
    \<open>errors.As\<close> over the tree of an error.
  \<^item> \<open>Sha256\<close>: the standard library's digest and hexadecimal spelling.
  \<^item> \<open>Canon\<close>, \<open>CanonRecord\<close>, \<open>CanonRemap\<close> (\<open>internal/canon/descriptor.go\<close>, \<open>record.go\<close>, \<open>remap.go\<close>,
    \<open>batch.go\<close>): recorded shapes with their strict reader, payloads, evolution by field id, batch keys.
  \<^item> \<open>StagingDB\<close>, \<open>StagingStore\<close>, \<open>StagingProps\<close>, \<open>StagingIndex\<close>, \<open>StagingSpool\<close> (\<open>internal/staging\<close>): one function
    per SQL statement over the tables as lists of rows, the transactions over them, the replay index and
    the record of cached files. A driver failure is the next entry of the schedule \<open>st_faults\<close>; a
    transaction that fails restores the database.
  \<^item> \<open>Spool\<close>, \<open>SpoolProps\<close> (\<open>internal/spool/spool.go\<close>): the cache directory over a file system with a schedule
    of operating system outcomes.
  \<^item> \<open>FlushRetry\<close>, \<open>Flush\<close>, \<open>FlushProps\<close>, \<open>FlushWorker\<close> (\<open>internal/flush/retry.go\<close>, \<open>flush.go\<close>, \<open>worker.go\<close>): the
    retry schedule, one attempt, the cycle, quarantine, and the goroutine of the worker as steps.
  \<^item> \<open>Poison\<close> (\<open>poison.go\<close>): the check of a bound row.
  \<^item> \<open>Registry\<close> (\<open>store.go\<close>): the ceiling counters and the slots of the tables.
  \<^item> \<open>Writer\<close>, \<open>WriterLog\<close>, \<open>WriterProps\<close>, \<open>FlushKeeps\<close>, \<open>WriterThms\<close>, \<open>WriterInserts\<close> (\<open>writer.go\<close>,
    \<open>status.go\<close>): a writer with its worker, the store and the other writers, as the step relation \<open>sys_step\<close>.
  \<^item> \<open>Strconv\<close>: of Go's standard library, \<open>ParseInt\<close>, \<open>ParseFloat\<close> with its roundings, \<open>FormatInt\<close> and padded base64.
  \<^item> \<open>Dynamic\<close>, \<open>DynamicProps\<close> (\<open>dynamic.go\<close>, \<open>cbor.go\<close>): the coercion table, the binding of a run-time record, the
    JSON and CBOR doors, and the columns of a batch.
  \<^item> \<open>Framing\<close> (\<open>ingest.go\<close>): the scanner that cuts a mixed JSON and CBOR stream into records.
  \<^item> \<open>Ingest\<close>, \<open>IngestProps\<close>, \<open>IngestThms\<close>, \<open>IngestPromise\<close>, \<open>IngestFleet\<close>, \<open>IngestClaims\<close> (\<open>ingest.go\<close>): options, chunks,
    envelopes, groups by table, the write of a group with its halving and sleeping, and the stream, over any batch
    door (locale \<open>batch_door\<close>) and then over the writers of one store.
  \<^item> \<open>Schemamap\<close>, \<open>SchemamapProps\<close> (\<open>internal/schemamap\<close>): the names of a table, the derivation of its schemas from a Go
    struct or from columns with every refusal on the way, and the conversion of columns to the types of the file.
  \<^item> \<open>Bind\<close>, \<open>BindProps\<close>, \<open>StructBuild\<close> (\<open>bind.go\<close>): the codec between a declaration struct and a row, and the columns of
    a batch through either codec.
  \<^item> \<open>SchemaDoc\<close>, \<open>SchemaDocProps\<close>, \<open>BatchBuild\<close> (\<open>schemadoc.go\<close>, \<open>dynamic.go\<close>): the schema document and the open of a
    run-time table, with the batches it can build.
  \<^item> \<open>Catalog\<close>, \<open>CatalogProps\<close> (\<open>catalog.go\<close>): creation, reconciliation and verification of a table, over a catalog given as
    a record of operations on an abstract state.
  \<^item> \<open>Drain\<close>, \<open>DrainProps\<close>, \<open>DrainClaims\<close> (\<open>drain.go\<close>): the backlog of local files committed each under its own shape, one
    table under its slot at a time.
  \<^item> \<open>Mirror\<close>, \<open>MirrorProps\<close>, \<open>MirrorClaims\<close> (\<open>internal/chmirror\<close>): the statements of the ClickHouse mirror, its preparation
    and the insert of a batch, over a driver given as a record of operations on the server's state.
  \<^item> \<open>Config\<close> (\<open>config.go\<close>, \<open>internal/s3cfg\<close>): defaults, resolved settings and every rule of validation.
  \<^item> \<open>StoreOpen\<close> (\<open>store.go\<close>): the open and the close of a store over the handles they take and give back, and the sweeper.
  \<^item> \<open>OpenWriter\<close>, \<open>OpenClaims\<close> (\<open>writer.go\<close>): the open of a writer, which composes the slot, the drain, the catalog, staging,
    the mirror and the replay.

  What the groups of lemmas show. Shapes and payloads: the readers accept exactly what the writers emit, a
  payload survives evolution by field id, and equal batches have equal names. Staging: acceptance is
  durable and all or nothing, sealing and quarantine touch whole batches, a row never changes but by
  its seal and its mark. Cache: a file is visible only when complete, and retention never removes what
  no bucket has confirmed. Flush: rows leave staging only after delivery, a cycle commits a batch once,
  the queue refines a FIFO. Writer: the counters equal what is held, one owner per table, a flush is a
  checkpoint, a batch is accepted or refused as one, what is staged decodes to what was inserted.
  Front door: a bound record has a value of the column's type in every column it names, decimals are exact,
  and where integers are not is stated too. Stream: however the reader chops the input, the records are those of the whole input,
  the framing ends, each table accepts a prefix of its rows in order, whole up to a refusal; and a hook that
  speaks of another store's ceiling has its record inserted again. Declarations: a declaration the checks accept builds
  every batch of its shape into the schema of its file, each slot with its row's value but for instants beyond the
  microsecond range, and a struct survives staging. Catalog: an opened table carries every declared column, and what the
  declaration omits stays. Drain: each file is committed once, from its local bytes, and only on tables nobody holds.
  Mirror: only missing optional columns are added, a batch arrives with its values or not at all and once per key, and a
  mirror that is down refuses nothing. Lifecycle: validation accepts exactly the stated configurations, no failing open
  leaks a handle or a slot, and a writer that opened owns its table and starts with every staged row pending.

  Bounds. Counters of the store wrap at 64 bits; the theorems that need it assume sums below \<open>2 ^ 62\<close>. Retry
  delays are computed in \<open>int64\<close> and IEEE doubles. Every definition is total: recursions are structural or have
  a measure, and a schedule of outcomes that runs out means success, so no fuel is used.

  Not modelled: the Iceberg, Parquet, Arrow, S3, ClickHouse and SQLite libraries (their calls are parameters or
  schedules of outcomes); the decoders of \<open>encoding/json\<close> and of the CBOR library and \<open>time.Parse\<close> (the parameter
  \<open>library\<close>; the framing theorem takes the length of a CBOR item from it, and a reader that ends on its
  own, \<open>plain\<close>); the \<open>Error()\<close> texts; the opening of the database files (\<open>internal/staging/open.go\<close>, \<open>internal/catalogdb\<close>)
  and the options handed to the client libraries; the rebuild, inspection and command line programs, which read an
  existing lake through those libraries.\<close>

end
